(* ===== verification/Prelude.thy ===== *)
theory Prelude
  imports Main "HOL-Library.Word" "HOL-Library.Sublist"
begin

text \<open>
  Shared vocabulary of the development: the machine types of the Rust sources, the
  iterator and slice operations of the standard library that several components use,
  and the generic lemmas about them.

  \<^item> \<open>u32\<close> and \<open>u64\<close> are words of that width (token ids, hashes, byte counters whose
    wrap-around or saturation matters). A \<open>usize\<close> that only counts or indexes is a
    \<open>nat\<close>; \<open>checked_*\<close> and \<open>saturating_*\<close> operations are written out with
    \<open>usize_max\<close>.
  \<^item> A Rust \<open>Result\<close> is a sum, \<open>Inl\<close> the error; an \<open>Option\<close> is an \<open>option\<close>.
  \<^item> \<open>rust_simps\<close> collects the rewrite rules the component proofs share.
\<close>

named_theorems rust_simps \<open>rewrite rules for slices, positions and results\<close>

type_synonym u32 = "32 word"
type_synonym u64 = "64 word"

text \<open>The largest \<open>usize\<close> of the 64-bit targets the engine is built for.\<close>

definition usize_max :: nat where
  "usize_max = 2 ^ 64 - 1"

definition checked_add :: "nat \<Rightarrow> nat \<Rightarrow> nat option" where
  "checked_add a b = (if a + b \<le> usize_max then Some (a + b) else None)"

definition checked_mul :: "nat \<Rightarrow> nat \<Rightarrow> nat option" where
  "checked_mul a b = (if a * b \<le> usize_max then Some (a * b) else None)"

definition saturating_add :: "nat \<Rightarrow> nat \<Rightarrow> nat" where
  "saturating_add a b = min (a + b) usize_max"

definition saturating_mul :: "nat \<Rightarrow> nat \<Rightarrow> nat" where
  "saturating_mul a b = min (a * b) usize_max"

lemma checked_add_Some: "checked_add a b = Some c \<longleftrightarrow> c = a + b \<and> a + b \<le> usize_max"
  by (auto simp: checked_add_def)

lemma checked_mul_Some: "checked_mul a b = Some c \<longleftrightarrow> c = a * b \<and> a * b \<le> usize_max"
  by (auto simp: checked_mul_def)

text \<open>\<open>x.clamp(lo, hi)\<close>; the sources only call it with \<open>lo \<le> hi\<close>, where it is total.\<close>

definition clamp :: "nat \<Rightarrow> nat \<Rightarrow> nat \<Rightarrow> nat" where
  "clamp x lo hi = (if x < lo then lo else if hi < x then hi else x)"

lemma clamp_bounds: "lo \<le> hi \<Longrightarrow> lo \<le> clamp x lo hi \<and> clamp x lo hi \<le> hi"
  by (simp add: clamp_def)

lemma clamp_id [simp]: "lo \<le> x \<Longrightarrow> x \<le> hi \<Longrightarrow> clamp x lo hi = x"
  by (simp add: clamp_def)

subsection \<open>Results\<close>

text \<open>The \<open>?\<close> operator and \<open>ensure!\<close>.\<close>

definition bindE :: "'e + 'a \<Rightarrow> ('a \<Rightarrow> 'e + 'b) \<Rightarrow> 'e + 'b" where
  "bindE m f = (case m of Inl e \<Rightarrow> Inl e | Inr x \<Rightarrow> f x)"

definition ensure :: "bool \<Rightarrow> 'e \<Rightarrow> 'e + unit" where
  "ensure b e = (if b then Inr () else Inl e)"

lemma bindE_simps [simp, rust_simps]:
  "bindE (Inl e) f = Inl e"
  "bindE (Inr x) f = f x"
  by (simp_all add: bindE_def)

lemma bindE_Inr_iff: "bindE m f = Inr y \<longleftrightarrow> (\<exists>x. m = Inr x \<and> f x = Inr y)"
  by (cases m) simp_all

lemma bindE_Inl_iff: "bindE m f = Inl e \<longleftrightarrow> m = Inl e \<or> (\<exists>x. m = Inr x \<and> f x = Inl e)"
  by (cases m) simp_all

lemma bindE_cong [fundef_cong]:
  "m = m' \<Longrightarrow> (\<And>x. m' = Inr x \<Longrightarrow> f x = f' x) \<Longrightarrow> bindE m f = bindE m' f'"
  by (cases m') simp_all

lemma ensure_Inr [simp]: "ensure b e = Inr u \<longleftrightarrow> b"
  by (simp add: ensure_def)

lemma ensure_Inl [simp]: "ensure b e = Inl e' \<longleftrightarrow> \<not> b \<and> e' = e"
  by (auto simp: ensure_def)

lemma bindE_ensure: "bindE (ensure b e) f = (if b then f () else Inl e)"
  by (simp add: ensure_def)

lemmas result_iffs = bindE_Inr_iff bindE_Inl_iff

text \<open>\<open>iter().map(f).collect::<Result<Vec<_>>>()\<close>: stops at the first error.\<close>

fun mapE :: "('a \<Rightarrow> 'e + 'b) \<Rightarrow> 'a list \<Rightarrow> 'e + 'b list" where
  "mapE f [] = Inr []"
| "mapE f (x # xs) = bindE (f x) (\<lambda>y. bindE (mapE f xs) (\<lambda>ys. Inr (y # ys)))"

lemma mapE_Inr_iff: "mapE f xs = Inr ys \<longleftrightarrow> list_all2 (\<lambda>x y. f x = Inr y) xs ys"
proof (induction xs arbitrary: ys)
  case Nil
  then show ?case by auto
next
  case (Cons x xs)
  then show ?case
    by (cases ys) (auto simp: bindE_Inr_iff)
qed

lemma mapE_length: "mapE f xs = Inr ys \<Longrightarrow> length ys = length xs"
  by (auto simp: mapE_Inr_iff dest: list_all2_lengthD)

lemma mapE_append:
  "mapE f (xs @ ys) = bindE (mapE f xs) (\<lambda>us. bindE (mapE f ys) (\<lambda>vs. Inr (us @ vs)))"
proof (induction xs)
  case Nil
  then show ?case by (cases "mapE f ys") simp_all
next
  case (Cons x xs)
  then show ?case by (cases "f x"; cases "mapE f xs"; cases "mapE f ys") simp_all
qed

lemma mapE_if:
  "(\<And>x. x \<in> set xs \<Longrightarrow> f x = (if P x then Inr (g x) else Inl e)) \<Longrightarrow>
    mapE f xs = (if \<forall>x \<in> set xs. P x then Inr (map g xs) else Inl e)"
  by (induction xs) auto

lemma mapE_Inl: "mapE f xs = Inl e \<Longrightarrow> \<exists>x \<in> set xs. f x = Inl e"
  by (induction xs) (auto simp: bindE_Inl_iff)

subsection \<open>Actions\<close>

text \<open>
  A method with \<open>&mut self\<close> that returns a \<open>Result\<close>: it maps the state to the state it leaves
  behind, whether it fails or not, and its result. \<open>bindS\<close> is the \<open>?\<close> operator, which keeps
  the changes made before the failure.
\<close>

type_synonym ('s, 'e, 'a) action = "'s \<Rightarrow> 's \<times> ('e + 'a)"

definition bindS :: "('s, 'e, 'a) action \<Rightarrow> ('a \<Rightarrow> ('s, 'e, 'b) action) \<Rightarrow> ('s, 'e, 'b) action" where
  "bindS m f s = (case m s of (s', Inl e) \<Rightarrow> (s', Inl e) | (s', Inr x) \<Rightarrow> f x s')"

definition returnS :: "'a \<Rightarrow> ('s, 'e, 'a) action" where
  "returnS x s = (s, Inr x)"

definition failS :: "'e \<Rightarrow> ('s, 'e, 'a) action" where
  "failS e s = (s, Inl e)"

definition liftS :: "'e + 'a \<Rightarrow> ('s, 'e, 'a) action" where
  "liftS r s = (s, r)"

definition readS :: "('s \<Rightarrow> 'a) \<Rightarrow> ('s, 'e, 'a) action" where
  "readS f s = (s, Inr (f s))"

definition modifyS :: "('s \<Rightarrow> 's) \<Rightarrow> ('s, 'e, unit) action" where
  "modifyS f s = (f s, Inr ())"

definition ensureS :: "bool \<Rightarrow> 'e \<Rightarrow> ('s, 'e, unit) action" where
  "ensureS b e s = (s, ensure b e)"

named_theorems action_simps \<open>the outcome of an action, on concrete results\<close>

lemma bindS_Inr [action_simps]: "m s = (s', Inr x) \<Longrightarrow> bindS m f s = f x s'"
  by (simp add: bindS_def)

lemma bindS_Inl [action_simps]: "m s = (s', Inl e) \<Longrightarrow> bindS m f s = (s', Inl e)"
  by (simp add: bindS_def)

lemma bindS_iff: "bindS m f s = (s2, r) \<longleftrightarrow>
    (\<exists>e. m s = (s2, Inl e) \<and> r = Inl e) \<or> (\<exists>s1 x. m s = (s1, Inr x) \<and> f x s1 = (s2, r))"
  by (cases "m s") (auto simp: bindS_def split: sum.splits)

lemma bindS_Inr_iff: "bindS m f s = (s2, Inr y) \<longleftrightarrow> (\<exists>s1 x. m s = (s1, Inr x) \<and> f x s1 = (s2, Inr y))"
  by (auto simp: bindS_iff)

lemma returnS_apply [simp, action_simps]: "returnS x s = (s, Inr x)"
  by (simp add: returnS_def)

lemma failS_apply [simp, action_simps]: "failS e s = (s, Inl e)"
  by (simp add: failS_def)

lemma liftS_apply [simp, action_simps]: "liftS r s = (s, r)"
  by (simp add: liftS_def)

lemma readS_apply [simp, action_simps]: "readS f s = (s, Inr (f s))"
  by (simp add: readS_def)

lemma modifyS_apply [simp, action_simps]: "modifyS g s = (g s, Inr ())"
  by (simp add: modifyS_def)

lemma ensureS_apply [simp, action_simps]: "ensureS b e s = (s, ensure b e)"
  by (simp add: ensureS_def)

lemma bindS_returnS [simp, action_simps]: "bindS (returnS x) f s = f x s"
  by (simp add: bindS_def)

lemma bindS_failS [simp, action_simps]: "bindS (failS e) f s = (s, Inl e)"
  by (simp add: bindS_def)

lemma bindS_readS [simp, action_simps]: "bindS (readS g) f s = f (g s) s"
  by (simp add: bindS_def)

lemma bindS_modifyS [simp, action_simps]: "bindS (modifyS g) f s = f () (g s)"
  by (simp add: bindS_def)

lemma bindS_ensureS [simp, action_simps]: "bindS (ensureS b e) f s = (if b then f () s else (s, Inl e))"
  by (simp add: bindS_def ensure_def)

lemma bindS_lift: "bindS (liftS r) f s = (case r of Inl e \<Rightarrow> (s, Inl e) | Inr x \<Rightarrow> f x s)"
  by (simp add: bindS_def)

text \<open>An action that leaves an observation \<open>v\<close> of the state alone, whatever its result.\<close>

definition quiet :: "('s \<Rightarrow> 'v) \<Rightarrow> ('s, 'e, 'a) action \<Rightarrow> bool" where
  "quiet v m \<longleftrightarrow> (\<forall>s. v (fst (m s)) = v s)"

named_theorems quiet_intros \<open>actions that leave an observation of the state alone\<close>

lemma quietD: "quiet v m \<Longrightarrow> m s = (s', r) \<Longrightarrow> v s' = v s"
  unfolding quiet_def by (metis fst_conv)

lemma quiet_bindS [quiet_intros]: "quiet v m \<Longrightarrow> (\<And>x. quiet v (f x)) \<Longrightarrow> quiet v (bindS m f)"
  by (auto simp: quiet_def bindS_def split: prod.splits sum.splits) (metis fst_conv)+

lemma quiet_basic [quiet_intros]:
  "quiet v (returnS x)" "quiet v (failS e)" "quiet v (liftS r)" "quiet v (readS f)" "quiet v (ensureS b e)"
  by (simp_all add: quiet_def)

lemma quiet_modifyS [quiet_intros]: "(\<And>s. v (g s) = v s) \<Longrightarrow> quiet v (modifyS g)"
  by (simp add: quiet_def)

lemma quiet_if [quiet_intros]: "(b \<Longrightarrow> quiet v m) \<Longrightarrow> (\<not> b \<Longrightarrow> quiet v n) \<Longrightarrow> quiet v (if b then m else n)"
  by simp

lemma quiet_option [quiet_intros]:
  "quiet v m \<Longrightarrow> (\<And>x. quiet v (f x)) \<Longrightarrow> quiet v (case z of None \<Rightarrow> m | Some x \<Rightarrow> f x)"
  by (cases z) simp_all

subsection \<open>Slices and iterators\<close>

text \<open>\<open>&xs[a..b]\<close>, for the in-range slices the sources take.\<close>

definition slice :: "'a list \<Rightarrow> nat \<Rightarrow> nat \<Rightarrow> 'a list" where
  "slice xs a b = take (b - a) (drop a xs)"

lemma length_slice [simp]: "b \<le> length xs \<Longrightarrow> length (slice xs a b) = b - a"
  by (simp add: slice_def)

lemma length_slice_le: "length (slice xs a b) \<le> b - a"
  by (simp add: slice_def)

lemma nth_slice [simp]: "b \<le> length xs \<Longrightarrow> i < b - a \<Longrightarrow> slice xs a b ! i = xs ! (a + i)"
  by (simp add: slice_def add.commute)

lemma set_slice: "set (slice xs a b) \<subseteq> set xs"
  unfolding slice_def by (meson set_drop_subset set_take_subset subset_trans)

lemma slice_append1: "b \<le> length xs \<Longrightarrow> slice (xs @ ys) a b = slice xs a b"
  by (simp add: slice_def)

lemma slice_end: "slice xs a (length xs) = drop a xs"
  by (simp add: slice_def)

lemma slice_full [simp]: "slice xs 0 (length xs) = xs"
  by (simp add: slice_def)

lemma slice_empty [simp]: "b \<le> a \<Longrightarrow> slice xs a b = []"
  by (simp add: slice_def)

lemma slice_eq_split:
  "a \<le> b \<Longrightarrow> b \<le> length xs \<Longrightarrow> xs = take a xs @ slice xs a b @ drop b xs"
  by (metis append_take_drop_id drop_drop le_add_diff_inverse2 slice_def)

text \<open>\<open>iter().position(p)\<close>.\<close>

fun position :: "('a \<Rightarrow> bool) \<Rightarrow> 'a list \<Rightarrow> nat option" where
  "position p [] = None"
| "position p (x # xs) = (if p x then Some 0 else map_option Suc (position p xs))"

lemma position_None: "position p xs = None \<longleftrightarrow> (\<forall>x \<in> set xs. \<not> p x)"
  by (induction xs) auto

lemma position_Some:
  "position p xs = Some i \<longleftrightarrow> i < length xs \<and> p (xs ! i) \<and> (\<forall>j < i. \<not> p (xs ! j))"
proof (induction xs arbitrary: i)
  case Nil
  then show ?case by simp
next
  case (Cons x xs)
  show ?case
  proof (cases i)
    case 0
    then show ?thesis by auto
  next
    case (Suc k)
    have "(\<forall>j < Suc k. \<not> p ((x # xs) ! j)) \<longleftrightarrow> \<not> p x \<and> (\<forall>j < k. \<not> p (xs ! j))"
      by (auto simp: nth_Cons' less_Suc_eq_0_disj)
    with Suc Cons.IH [of k] show ?thesis by auto
  qed
qed

text \<open>The prefix before the first element that satisfies \<open>p\<close>, as the drafters cut it.\<close>

definition cut_at :: "('a \<Rightarrow> bool) \<Rightarrow> 'a list \<Rightarrow> 'a list" where
  "cut_at p xs = take (case position p xs of Some i \<Rightarrow> i | None \<Rightarrow> length xs) xs"

lemma cut_at_takeWhile: "cut_at p xs = takeWhile (\<lambda>x. \<not> p x) xs"
proof (induction xs)
  case Nil
  then show ?case by (simp add: cut_at_def)
next
  case (Cons x xs)
  then show ?case by (simp add: cut_at_def split: option.splits)
qed

lemma cut_at_prefix: "prefix (cut_at p xs) xs"
  by (simp add: cut_at_def take_is_prefix)

lemma cut_at_clean: "x \<in> set (cut_at p xs) \<Longrightarrow> \<not> p x"
  by (auto simp: cut_at_takeWhile dest: set_takeWhileD)

text \<open>\<open>xs[i] = x\<close> on a vector of rows, and the sum of an iterator of sizes.\<close>

lemma sum_list_update_nat:
  "i < length xs \<Longrightarrow> sum_list (xs[i := (x::nat)]) + xs ! i = sum_list xs + x"
proof (induction xs arbitrary: i)
  case Nil
  then show ?case by simp
next
  case (Cons a xs)
  then show ?case by (cases i) auto
qed

lemma find_Some_iff':
  "List.find p xs = Some x \<longleftrightarrow> (\<exists>i < length xs. p (xs ! i) \<and> x = xs ! i \<and> (\<forall>j < i. \<not> p (xs ! j)))"
  by (simp add: find_Some_iff)

lemma list_all2_map_same: "list_all2 P xs (map f xs) \<longleftrightarrow> (\<forall>x \<in> set xs. P x (f x))"
  by (induction xs) auto

lemma upt_split: "i \<le> j \<Longrightarrow> j \<le> k \<Longrightarrow> [i..<k] = [i..<j] @ [j..<k]"
  by (metis le_add_diff_inverse upt_add_eq_append)

lemma set_enumerate0: "set (enumerate 0 xs) = (\<lambda>i. (i, xs ! i)) ` {..<length xs}"
  by (auto simp: in_set_enumerate_eq image_iff)

lemmas slice_lemmas = length_slice nth_slice slice_append1 slice_end slice_empty

end
