(* ===== verification/Ngram.thy ===== *)
theory Ngram
  imports Prelude
begin

text \<open>
  The prompt-lookup drafter, \<open>src/ngram.rs\<close>: an incremental index over the tokens in
  context that proposes the continuation of an earlier occurrence of the current suffix.
  The state is \<open>ngram_index\<close>; \<open>push\<close>, \<open>extend\<close>, \<open>clear\<close> change it, and
  \<open>most_recent_match\<close>, \<open>draft\<close>, \<open>continue_from\<close> read it.
\<close>

unbundle bit_operations_syntax

section \<open>The index\<close>

definition INDEXED_MATCH_LENGTHS :: "nat list" where
  "INDEXED_MATCH_LENGTHS = [4, 3, 2]"

definition MAX_MATCH_LEN :: nat where
  "MAX_MATCH_LEN = 4"

definition MIN_MATCH_LEN :: nat where
  "MIN_MATCH_LEN = 2"

text \<open>FNV-1a over the raw token ids: \<open>hash ^= token; hash = hash.wrapping_mul(prime)\<close>.\<close>

definition fnv1a_tokens :: "u32 list \<Rightarrow> u64" where
  "fnv1a_tokens tokens =
     fold (\<lambda>token hash. (hash XOR ucast token) * 0x00000100000001b3) tokens 0xcbf29ce484222325"

record ngram_draft =
  nd_tokens :: "u32 list"
  nd_match_len :: nat
  nd_source_position :: nat
  nd_truncated_at_stop :: bool

record ngram_index =
  ng_tokens :: "u32 list"
  ng_maps :: "(u64 \<rightharpoonup> nat) list"
  ng_last_match :: "nat option list"
  ng_hasher :: "u32 list \<Rightarrow> u64"

definition with_hasher :: "(u32 list \<Rightarrow> u64) \<Rightarrow> ngram_index" where
  "with_hasher hasher = \<lparr>ng_tokens = [],
     ng_maps = replicate (length INDEXED_MATCH_LENGTHS) Map.empty,
     ng_last_match = replicate (length INDEXED_MATCH_LENGTHS) None,
     ng_hasher = hasher\<rparr>"

definition new_index :: ngram_index where
  "new_index = with_hasher fnv1a_tokens"

definition ngram_clear :: "ngram_index \<Rightarrow> ngram_index" where
  "ngram_clear ix = ix\<lparr>ng_tokens := [], ng_maps := map (\<lambda>_. Map.empty) (ng_maps ix),
     ng_last_match := replicate (length INDEXED_MATCH_LENGTHS) None\<rparr>"

text \<open>The loop body of \<open>push\<close> for one \<open>(slot, match_len)\<close>.\<close>

definition push_slot :: "u32 list \<Rightarrow> nat \<times> nat \<Rightarrow> ngram_index \<Rightarrow> ngram_index" where
  "push_slot tokens = (\<lambda>(slot, match_len) ix.
     if length tokens < match_len
     then ix\<lparr>ng_last_match := (ng_last_match ix)[slot := None]\<rparr>
     else let key = ng_hasher ix (drop (length tokens - match_len) tokens);
              m = ng_maps ix ! slot
          in ix\<lparr>ng_maps := (ng_maps ix)[slot := m(key \<mapsto> length tokens - 1)],
                ng_last_match := (ng_last_match ix)[slot := m key]\<rparr>)"

definition push :: "ngram_index \<Rightarrow> u32 \<Rightarrow> ngram_index" where
  "push ix token =
     (let tokens = ng_tokens ix @ [token]
      in fold (push_slot tokens) (enumerate 0 INDEXED_MATCH_LENGTHS) (ix\<lparr>ng_tokens := tokens\<rparr>))"

definition extend :: "ngram_index \<Rightarrow> u32 list \<Rightarrow> ngram_index" where
  "extend ix tokens = fold (\<lambda>token ix. push ix token) tokens ix"

text \<open>
  \<open>most_recent_match\<close>: the stored candidate is compared token by token with the suffix,
  so a colliding hash is a miss.
\<close>

definition most_recent_match :: "ngram_index \<Rightarrow> nat \<Rightarrow> nat option" where
  "most_recent_match ix match_len =
     (case position (\<lambda>len. len = match_len) INDEXED_MATCH_LENGTHS of
        None \<Rightarrow> None
      | Some slot \<Rightarrow>
          (case ng_last_match ix ! slot of
             None \<Rightarrow> None
           | Some candidate \<Rightarrow>
               (let tokens = ng_tokens ix
                in if candidate + 1 < match_len \<or> length tokens \<le> candidate then None
                   else let suf = drop (length tokens - match_len) tokens;
                            earlier = slice tokens (candidate + 1 - match_len) (candidate + 1)
                        in if earlier = suf then Some candidate else None)))"

section \<open>Drafting\<close>

fun draft_loop :: "ngram_index \<Rightarrow> nat \<Rightarrow> (u32 \<Rightarrow> bool) \<Rightarrow> nat list \<Rightarrow> ngram_draft option" where
  "draft_loop ix draft_len is_stop [] = None"
| "draft_loop ix draft_len is_stop (match_len # lens) =
     (case most_recent_match ix match_len of
        None \<Rightarrow> draft_loop ix draft_len is_stop lens
      | Some pos \<Rightarrow>
          (let start = pos + 1;
               en = min (start + draft_len) (length (ng_tokens ix))
           in if en \<le> start then draft_loop ix draft_len is_stop lens
              else let candidate = slice (ng_tokens ix) start en;
                       stop = position is_stop candidate;
                       tokens = cut_at is_stop candidate
                   in if tokens = [] then None
                      else Some \<lparr>nd_tokens = tokens, nd_match_len = match_len,
                                 nd_source_position = pos,
                                 nd_truncated_at_stop = (stop \<noteq> None)\<rparr>))"

definition draft :: "ngram_index \<Rightarrow> nat \<Rightarrow> nat \<Rightarrow> (u32 \<Rightarrow> bool) \<Rightarrow> ngram_draft option" where
  "draft ix draft_len min_match is_stop =
     (if draft_len = 0 then None
      else draft_loop ix draft_len is_stop
             (filter (\<lambda>len. clamp min_match MIN_MATCH_LEN MAX_MATCH_LEN \<le> len)
                INDEXED_MATCH_LENGTHS))"

definition continue_from ::
    "ngram_index \<Rightarrow> nat \<Rightarrow> nat \<Rightarrow> nat \<Rightarrow> (u32 \<Rightarrow> bool) \<Rightarrow> ngram_draft option" where
  "continue_from ix nxt draft_len match_len is_stop =
     (if draft_len = 0 \<or> nxt = 0 \<or> length (ng_tokens ix) \<le> nxt then None
      else let en = min (nxt + draft_len) (length (ng_tokens ix));
               candidate = slice (ng_tokens ix) nxt en;
               stop = position is_stop candidate;
               tokens = cut_at is_stop candidate
           in if tokens = [] then None
              else Some \<lparr>nd_tokens = tokens, nd_match_len = match_len,
                         nd_source_position = nxt - 1,
                         nd_truncated_at_stop = (stop \<noteq> None)\<rparr>)"

section \<open>What the index holds\<close>

text \<open>
  The abstract specification: \<open>window ts m p\<close> is the \<open>m\<close>-token key that ends at
  position \<open>p\<close>, and \<open>latest P m ts\<close> the last position whose key satisfies \<open>P\<close>.
\<close>

definition window :: "u32 list \<Rightarrow> nat \<Rightarrow> nat \<Rightarrow> u32 list" where
  "window ts m p = slice ts (p + 1 - m) (p + 1)"

definition latest :: "(u32 list \<Rightarrow> bool) \<Rightarrow> nat \<Rightarrow> u32 list \<Rightarrow> nat option" where
  "latest P m ts = List.find (\<lambda>p. P (window ts m p)) (rev [m - 1..<length ts])"

lemma window_append: "p < length ts \<Longrightarrow> window (ts @ us) m p = window ts m p"
  by (simp add: window_def slice_append1)

lemma window_last:
  "0 < m \<Longrightarrow> m \<le> length ts \<Longrightarrow> window ts m (length ts - 1) = drop (length ts - m) ts"
  by (simp add: window_def slice_def)

lemma find_cong_set:
  "(\<And>x. x \<in> set xs \<Longrightarrow> P x = Q x) \<Longrightarrow> List.find P xs = List.find Q xs"
  by (induction xs) auto

lemma latest_append1:
  "List.find (\<lambda>p. P (window (ts @ us) m p)) (rev [m - 1..<length ts]) = latest P m ts"
  unfolding latest_def by (rule find_cong_set) (simp add: window_append)

lemma latest_short: "length ts < m \<Longrightarrow> latest P m ts = None"
  by (auto simp: latest_def)

lemma latest_snoc:
  assumes "0 < m" "m \<le> Suc (length ts)"
  shows "latest P m (ts @ [t]) =
    (if P (drop (Suc (length ts) - m) (ts @ [t])) then Some (length ts) else latest P m ts)"
proof -
  have "rev [m - 1..<length (ts @ [t])] = length ts # rev [m - 1..<length ts]"
    using assms by simp
  moreover have "window (ts @ [t]) m (length ts) = drop (Suc (length ts) - m) (ts @ [t])"
    using window_last [of m "ts @ [t]"] assms by simp
  ultimately show ?thesis
    using latest_append1 [of P ts "[t]" m] by (simp add: latest_def)
qed

lemma latest_Some:
  assumes "latest P m ts = Some p"
  shows "m \<le> p + 1" "p < length ts" "P (window ts m p)"
proof -
  from assms obtain i where "i < length (rev [m - 1..<length ts])"
    and "P (window ts m p)" and "p = rev [m - 1..<length ts] ! i"
    by (auto simp: latest_def find_Some_iff)
  then have "p \<in> set (rev [m - 1..<length ts])" by (metis nth_mem)
  then show "m \<le> p + 1" "p < length ts" by auto
  show "P (window ts m p)" by fact
qed

lemma latest_None: "latest P m ts = None \<longleftrightarrow> (\<forall>p. m - 1 \<le> p \<and> p < length ts \<longrightarrow> \<not> P (window ts m p))"
  by (auto simp: latest_def find_None_iff)

lemma latest_greatest:
  assumes "latest P m ts = Some p" "p < q" "q < length ts"
  shows "\<not> P (window ts m q)"
  using assms
proof (induction ts rule: rev_induct)
  case Nil
  then show ?case by (simp add: latest_def)
next
  case (snoc t ts)
  have "p < length (ts @ [t])" "m \<le> p + 1" using latest_Some [OF snoc.prems(1)] by auto
  show ?case
  proof (cases "m - 1 \<le> length ts")
    case True
    show ?thesis
    proof (cases "q = length ts")
      case True
      from snoc.prems(1,2) show ?thesis
        unfolding True using \<open>m - 1 \<le> length ts\<close> by (auto simp: latest_def True)
    next
      case False
      with snoc.prems have q: "q < length ts" by simp
      with snoc.prems(2) have "p \<noteq> length ts" by simp
      with snoc.prems(1) have "latest P m ts = Some p"
        using \<open>m - 1 \<le> length ts\<close> latest_append1 [of P ts "[t]" m]
        by (auto simp: latest_def split: if_splits)
      then have "\<not> P (window ts m q)" using snoc.IH snoc.prems(2) q by blast
      with q show ?thesis by (simp add: window_append)
    qed
  next
    case False
    with \<open>m \<le> p + 1\<close> \<open>p < length (ts @ [t])\<close> show ?thesis by simp
  qed
qed

text \<open>
  The representation invariant: one map per key length holds the last end position of
  every key, and \<open>last_match\<close> the last occurrence before the current suffix.
\<close>

definition slot_inv :: "ngram_index \<Rightarrow> nat \<times> nat \<Rightarrow> bool" where
  "slot_inv ix = (\<lambda>(slot, m).
     (\<forall>k. (ng_maps ix ! slot) k = latest (\<lambda>w. ng_hasher ix w = k) m (ng_tokens ix)) \<and>
     ng_last_match ix ! slot =
       (if length (ng_tokens ix) < m then None
        else latest (\<lambda>w. ng_hasher ix w
               = ng_hasher ix (drop (length (ng_tokens ix) - m) (ng_tokens ix)))
               m (butlast (ng_tokens ix))))"

definition index_inv :: "ngram_index \<Rightarrow> bool" where
  "index_inv ix \<longleftrightarrow> length (ng_maps ix) = 3 \<and> length (ng_last_match ix) = 3 \<and>
     slot_inv ix (0, 4) \<and> slot_inv ix (1, 3) \<and> slot_inv ix (2, 2)"

lemma index_inv_with_hasher: "index_inv (with_hasher h)"
  by (simp add: index_inv_def slot_inv_def with_hasher_def INDEXED_MATCH_LENGTHS_def
        latest_short numeral_3_eq_3 numeral_2_eq_2)

lemma push_slot_fields [simp]:
  "ng_tokens (push_slot ts sm ix) = ng_tokens ix"
  "ng_hasher (push_slot ts sm ix) = ng_hasher ix"
  "length (ng_maps (push_slot ts sm ix)) = length (ng_maps ix)"
  "length (ng_last_match (push_slot ts sm ix)) = length (ng_last_match ix)"
  by (cases sm; simp add: push_slot_def Let_def)+

lemma push_slot_other:
  "slot \<noteq> s \<Longrightarrow> ng_maps (push_slot ts (s, m) ix) ! slot = ng_maps ix ! slot"
  "slot \<noteq> s \<Longrightarrow> ng_last_match (push_slot ts (s, m) ix) ! slot = ng_last_match ix ! slot"
  by (simp_all add: push_slot_def Let_def)

lemma push_slot_same:
  assumes "s < length (ng_maps ix)" "s < length (ng_last_match ix)"
  shows "ng_maps (push_slot ts (s, m) ix) ! s =
      (if length ts < m then ng_maps ix ! s
       else (ng_maps ix ! s)(ng_hasher ix (drop (length ts - m) ts) \<mapsto> length ts - 1))"
    and "ng_last_match (push_slot ts (s, m) ix) ! s =
      (if length ts < m then None else (ng_maps ix ! s) (ng_hasher ix (drop (length ts - m) ts)))"
  using assms by (simp_all add: push_slot_def Let_def)

lemma push_unfold:
  "push ix t = push_slot (ng_tokens ix @ [t]) (2, 2)
     (push_slot (ng_tokens ix @ [t]) (1, 3)
       (push_slot (ng_tokens ix @ [t]) (0, 4) (ix\<lparr>ng_tokens := ng_tokens ix @ [t]\<rparr>)))"
  by (simp add: push_def INDEXED_MATCH_LENGTHS_def Let_def numeral_2_eq_2)

lemma push_fields [simp]:
  "ng_tokens (push ix t) = ng_tokens ix @ [t]"
  "ng_hasher (push ix t) = ng_hasher ix"
  by (simp_all add: push_unfold)

lemma slot_inv_push:
  assumes inv: "slot_inv ix (s, m)" and m: "0 < m"
    and maps: "ng_maps ix' ! s = (if length ts < m then ng_maps ix ! s
       else (ng_maps ix ! s)(ng_hasher ix (drop (length ts - m) ts) \<mapsto> length ts - 1))"
    and last: "ng_last_match ix' ! s =
      (if length ts < m then None else (ng_maps ix ! s) (ng_hasher ix (drop (length ts - m) ts)))"
    and ts: "ts = ng_tokens ix @ [t]" "ng_tokens ix' = ts" "ng_hasher ix' = ng_hasher ix"
  shows "slot_inv ix' (s, m)"
proof (cases "length ts < m")
  case True
  then have "latest P m ts = None" "latest P m (ng_tokens ix) = None" for P
    by (simp_all add: latest_short ts)
  with True inv maps last show ?thesis
    by (simp add: slot_inv_def ts(2,3))
next
  case False
  then have le: "m \<le> Suc (length (ng_tokens ix))" by (simp add: ts)
  from False inv maps last show ?thesis
    by (simp add: slot_inv_def ts latest_snoc [OF m le])
qed

lemma index_inv_push: "index_inv ix \<Longrightarrow> index_inv (push ix t)"
proof -
  assume inv: "index_inv ix"
  let ?ts = "ng_tokens ix @ [t]"
  from inv have len: "length (ng_maps ix) = 3" "length (ng_last_match ix) = 3"
    by (simp_all add: index_inv_def)
  note push_slot_simps = push_unfold push_slot_other push_slot_same len
  have "slot_inv (push ix t) (0, 4)"
    by (rule slot_inv_push [where ix = ix and ts = ?ts and t = t])
      (use inv in \<open>simp_all add: index_inv_def push_slot_simps\<close>)
  moreover have "slot_inv (push ix t) (1, 3)"
    by (rule slot_inv_push [where ix = ix and ts = ?ts and t = t])
      (use inv in \<open>simp_all add: index_inv_def push_slot_simps\<close>)
  moreover have "slot_inv (push ix t) (2, 2)"
    by (rule slot_inv_push [where ix = ix and ts = ?ts and t = t])
      (use inv in \<open>simp_all add: index_inv_def push_slot_simps\<close>)
  ultimately show ?thesis
    by (simp add: index_inv_def push_unfold len)
qed

lemma extend_Nil [simp]: "extend ix [] = ix"
  and extend_Cons [simp]: "extend ix (t # ts) = extend (push ix t) ts"
  by (simp_all add: extend_def)

lemma extend_append: "extend ix (ts @ us) = extend (extend ix ts) us"
  by (simp add: extend_def)

lemma extend_tokens [simp]: "ng_tokens (extend ix ts) = ng_tokens ix @ ts"
  by (induction ts arbitrary: ix) simp_all

lemma extend_hasher [simp]: "ng_hasher (extend ix ts) = ng_hasher ix"
  by (induction ts arbitrary: ix) simp_all

lemma index_inv_extend: "index_inv ix \<Longrightarrow> index_inv (extend ix ts)"
  by (induction ts arbitrary: ix) (simp_all add: index_inv_push)

lemma with_hasher_fields [simp]:
  "ng_tokens (with_hasher h) = []" "ng_hasher (with_hasher h) = h"
  by (simp_all add: with_hasher_def)

lemma ngram_clear_fresh: "index_inv ix \<Longrightarrow> ngram_clear ix = with_hasher (ng_hasher ix)"
  by (cases ix) (simp add: ngram_clear_def with_hasher_def INDEXED_MATCH_LENGTHS_def
        index_inv_def map_replicate_const numeral_3_eq_3)

section \<open>Lookups\<close>

lemma most_recent_match_spec:
  assumes inv: "index_inv ix" and m: "m \<in> {2, 3, 4}"
  shows "most_recent_match ix m =
    (if length (ng_tokens ix) < m then None
     else case latest (\<lambda>w. ng_hasher ix w
               = ng_hasher ix (drop (length (ng_tokens ix) - m) (ng_tokens ix)))
               m (butlast (ng_tokens ix)) of
            None \<Rightarrow> None
          | Some c \<Rightarrow> if window (ng_tokens ix) m c = drop (length (ng_tokens ix) - m) (ng_tokens ix)
                      then Some c else None)"
  (is "_ = ?rhs")
proof -
  obtain s where s: "position (\<lambda>len. len = m) INDEXED_MATCH_LENGTHS = Some s"
    and slot: "slot_inv ix (s, m)"
    using inv m by (auto simp: index_inv_def INDEXED_MATCH_LENGTHS_def numeral_2_eq_2)
  let ?l = "latest (\<lambda>w. ng_hasher ix w = ng_hasher ix (drop (length (ng_tokens ix) - m) (ng_tokens ix)))
               m (butlast (ng_tokens ix))"
  have bound: "m \<le> c + 1 \<and> c < length (ng_tokens ix)" if "?l = Some c" for c
    using latest_Some [OF that] by simp
  show ?thesis
    using s slot bound
    by (auto simp: most_recent_match_def slot_inv_def window_def Let_def split: option.splits)
qed

lemma most_recent_match_sound:
  assumes "index_inv ix" "m \<in> {2, 3, 4}" "most_recent_match ix m = Some p"
  shows "m \<le> p + 1" "p + 1 < length (ng_tokens ix)"
    "window (ng_tokens ix) m p = drop (length (ng_tokens ix) - m) (ng_tokens ix)"
  using assms(3) unfolding most_recent_match_spec [OF assms(1,2)]
  by (auto dest: latest_Some split: if_splits option.splits)

text \<open>
  When no earlier key shares the hash of the suffix without being it, the lookup is exactly the
  last earlier occurrence of the suffix.
\<close>

lemma most_recent_match_complete:
  assumes inv: "index_inv ix" and m: "m \<in> {2, 3, 4}"
    and len: "m \<le> length (ng_tokens ix)"
    and free: "\<And>p. m - 1 \<le> p \<Longrightarrow> p < length (ng_tokens ix) - 1
      \<Longrightarrow> ng_hasher ix (window (ng_tokens ix) m p) = ng_hasher ix (drop (length (ng_tokens ix) - m) (ng_tokens ix))
      \<Longrightarrow> window (ng_tokens ix) m p = drop (length (ng_tokens ix) - m) (ng_tokens ix)"
  shows "most_recent_match ix m =
    latest (\<lambda>w. w = drop (length (ng_tokens ix) - m) (ng_tokens ix)) m (butlast (ng_tokens ix))"
proof -
  let ?ts = "ng_tokens ix"
  let ?suf = "drop (length ?ts - m) ?ts"
  have "?ts \<noteq> []" using len m by auto
  have same: "window (butlast ?ts) m p = window ?ts m p" if "p < length (butlast ?ts)" for p
    using window_append [OF that, of "[last ?ts]" m] \<open>?ts \<noteq> []\<close> by simp
  have hash: "ng_hasher ix (window (butlast ?ts) m p) = ng_hasher ix ?suf \<longleftrightarrow> window (butlast ?ts) m p = ?suf"
    if "m - 1 \<le> p" "p < length (butlast ?ts)" for p
    using free [OF that(1)] that(2) by (auto simp: same)
  have eq: "latest (\<lambda>w. ng_hasher ix w = ng_hasher ix ?suf) m (butlast ?ts)
      = latest (\<lambda>w. w = ?suf) m (butlast ?ts)"
    unfolding latest_def by (rule find_cong_set) (use hash in auto)
  show ?thesis
  proof (cases "latest (\<lambda>w. w = ?suf) m (butlast ?ts)")
    case None
    with len show ?thesis unfolding most_recent_match_spec [OF inv m] eq by simp
  next
    case (Some c)
    have "window ?ts m c = ?suf" using latest_Some(3) [OF Some] same latest_Some(2) [OF Some] by simp
    with Some len show ?thesis unfolding most_recent_match_spec [OF inv m] eq by simp
  qed
qed

section \<open>The contract of a draft source\<close>

text \<open>
  What the generation loop relies on when it asks a source for a proposal: it is not empty,
  not longer than requested, contains no stop token, and is a contiguous piece of the
  tokens in context.
\<close>

locale draft_source =
  fixes context_of :: "'i \<Rightarrow> u32 list"
    and propose :: "'i \<Rightarrow> nat \<Rightarrow> (u32 \<Rightarrow> bool) \<Rightarrow> ngram_draft option"
  assumes propose_prefix: "propose ix n st = Some d \<Longrightarrow>
      prefix (nd_tokens d) (slice (context_of ix) (nd_source_position d + 1)
        (min (nd_source_position d + 1 + n) (length (context_of ix))))"
    and propose_nonempty: "propose ix n st = Some d \<Longrightarrow> nd_tokens d \<noteq> []"
    and propose_stop_free: "propose ix n st = Some d \<Longrightarrow> t \<in> set (nd_tokens d) \<Longrightarrow> \<not> st t"
begin

lemma propose_bounded:
  assumes "propose ix n st = Some d"
  shows "length (nd_tokens d) \<le> n"
proof -
  have "length (nd_tokens d) \<le> length (slice (context_of ix) (nd_source_position d + 1)
        (min (nd_source_position d + 1 + n) (length (context_of ix))))"
    using propose_prefix [OF assms] by (rule prefix_length_le)
  also have "\<dots> \<le> n" using length_slice_le le_trans by fastforce
  finally show ?thesis .
qed

lemma propose_in_context: "propose ix n st = Some d \<Longrightarrow> set (nd_tokens d) \<subseteq> set (context_of ix)"
  using propose_prefix set_mono_prefix set_slice by (meson subset_trans)

lemma propose_zero: "propose ix 0 st = None"
proof (cases "propose ix 0 st")
  case (Some d)
  with propose_bounded [OF Some] propose_nonempty [OF Some] show ?thesis by simp
qed

end

lemma draft_loop_Some:
  assumes "draft_loop ix n st lens = Some d"
  shows "\<exists>m \<in> set lens. most_recent_match ix m = Some (nd_source_position d)
     \<and> nd_match_len d = m
     \<and> nd_tokens d = cut_at st (slice (ng_tokens ix) (nd_source_position d + 1)
          (min (nd_source_position d + 1 + n) (length (ng_tokens ix))))
     \<and> nd_tokens d \<noteq> []"
  using assms
proof (induction lens)
  case Nil
  then show ?case by simp
next
  case (Cons m lens)
  show ?case
  proof (cases "draft_loop ix n st lens = Some d")
    case True
    with Cons.IH show ?thesis by auto
  next
    case False
    with Cons.prems show ?thesis
      by (auto simp: Let_def split: option.splits if_splits)
  qed
qed

lemma draft_Some:
  assumes "draft ix n mm st = Some d"
  shows "nd_match_len d \<in> {2, 3, 4}" "clamp mm 2 4 \<le> nd_match_len d"
    "most_recent_match ix (nd_match_len d) = Some (nd_source_position d)"
    "nd_tokens d = cut_at st (slice (ng_tokens ix) (nd_source_position d + 1)
          (min (nd_source_position d + 1 + n) (length (ng_tokens ix))))"
    "nd_tokens d \<noteq> []"
proof -
  from assms obtain m where "m \<in> set INDEXED_MATCH_LENGTHS" "clamp mm 2 4 \<le> m"
    "most_recent_match ix m = Some (nd_source_position d)" "nd_match_len d = m"
    and rest: "nd_tokens d = cut_at st (slice (ng_tokens ix) (nd_source_position d + 1)
          (min (nd_source_position d + 1 + n) (length (ng_tokens ix))))"
      "nd_tokens d \<noteq> []"
    by (auto simp: draft_def MIN_MATCH_LEN_def MAX_MATCH_LEN_def
          split: if_splits dest!: draft_loop_Some)
  then show "nd_match_len d \<in> {2, 3, 4}" "clamp mm 2 4 \<le> nd_match_len d"
    "most_recent_match ix (nd_match_len d) = Some (nd_source_position d)"
    by (auto simp: INDEXED_MATCH_LENGTHS_def)
  from rest show "nd_tokens d = cut_at st (slice (ng_tokens ix) (nd_source_position d + 1)
          (min (nd_source_position d + 1 + n) (length (ng_tokens ix))))"
      "nd_tokens d \<noteq> []" .
qed

lemma continue_from_Some:
  assumes "continue_from ix nxt n ml st = Some d"
  shows "0 < nxt" "nxt < length (ng_tokens ix)" "nd_source_position d = nxt - 1"
    "nd_match_len d = ml" "nd_tokens d \<noteq> []"
    "nd_tokens d = cut_at st (slice (ng_tokens ix) (nd_source_position d + 1)
          (min (nd_source_position d + 1 + n) (length (ng_tokens ix))))"
  using assms by (auto simp: continue_from_def Let_def split: if_splits)

lemma draft_stop_free:
  assumes "draft ix n mm st = Some d" "t \<in> set (nd_tokens d)"
  shows "\<not> st t"
  using assms(2) unfolding draft_Some(4) [OF assms(1)] by (rule cut_at_clean)

lemma continue_from_stop_free:
  assumes "continue_from ix nxt n ml st = Some d" "t \<in> set (nd_tokens d)"
  shows "\<not> st t"
  using assms(2) unfolding continue_from_Some(6) [OF assms(1)] by (rule cut_at_clean)

interpretation key_source: draft_source
  "\<lambda>(ix, mm). ng_tokens ix" "\<lambda>(ix, mm) n st. draft ix n mm st"
  by unfold_locales (auto simp: cut_at_prefix dest: draft_Some(4,5) draft_stop_free)

interpretation span_source: draft_source
  "\<lambda>(ix, nxt, ml). ng_tokens ix" "\<lambda>(ix, nxt, ml) n st. continue_from ix nxt n ml st"
  by unfold_locales (auto simp: cut_at_prefix dest: continue_from_Some(5,6)
      continue_from_stop_free)

lemma draft_bounded: "draft ix n mm st = Some d \<Longrightarrow> length (nd_tokens d) \<le> n"
  using key_source.propose_bounded [of "(ix, mm)"] by simp

lemma continue_from_bounded: "continue_from ix nxt n ml st = Some d \<Longrightarrow> length (nd_tokens d) \<le> n"
  using span_source.propose_bounded [of "(ix, nxt, ml)"] by simp

section \<open>Properties\<close>

text \<open>
  C22. Whatever the key hash, a draft proposed after any sequence of pushes is the verbatim
  continuation of an earlier occurrence of the current suffix: the key that ends at the
  source position equals the last \<open>match_len\<close> tokens, the key is at least as long as the
  (clamped) minimum, and the proposal is a non-empty, stop-free piece of the context, at
  most \<open>draft_len\<close> long, that follows that occurrence.
\<close>

theorem draft_continues_an_earlier_occurrence:
  assumes "draft (extend (with_hasher h) ts) n mm st = Some d"
  shows "nd_source_position d + 1 < length ts \<and> clamp mm 2 4 \<le> nd_match_len d \<and>
    window ts (nd_match_len d) (nd_source_position d) = drop (length ts - nd_match_len d) ts \<and>
    nd_tokens d \<noteq> [] \<and> length (nd_tokens d) \<le> n \<and> (\<forall>t \<in> set (nd_tokens d). \<not> st t) \<and>
    prefix (nd_tokens d) (drop (nd_source_position d + 1) ts)"
proof -
  let ?ix = "extend (with_hasher h) ts"
  have inv: "index_inv ?ix" by (simp add: index_inv_extend index_inv_with_hasher)
  note d = draft_Some [OF assms]
  note sound = most_recent_match_sound [OF inv d(1) d(3)]
  have "prefix (nd_tokens d) (take (min (nd_source_position d + 1 + n) (length ts)
      - (nd_source_position d + 1)) (drop (nd_source_position d + 1) ts))"
    using cut_at_prefix d(4) by (simp add: slice_def)
  then have "prefix (nd_tokens d) (drop (nd_source_position d + 1) ts)"
    using take_is_prefix prefix_order.trans by blast
  with sound d draft_bounded [OF assms] draft_stop_free [OF assms] show ?thesis
    by auto
qed

lemma draft_continues_an_earlier_occurrence_witness:
  "let d = \<lparr>nd_tokens = [40], nd_match_len = 3, nd_source_position = 2,
       nd_truncated_at_stop = True\<rparr>
   in draft (extend (with_hasher (\<lambda>w. ucast (hd w))) [1, 2, 3, 40, 77, 1, 2, 3]) 5 3 (\<lambda>t. t = 77)
        = Some d \<and> prefix (nd_tokens d) (drop 3 [1, 2, 3, 40, 77, 1, 2, 3])"
proof -
  let ?d = "\<lparr>nd_tokens = [40 :: u32], nd_match_len = 3, nd_source_position = 2,
       nd_truncated_at_stop = True\<rparr>"
  have h: "draft (extend (with_hasher (\<lambda>w. ucast (hd w))) [1, 2, 3, 40, 77, 1, 2, 3]) 5 3
      (\<lambda>t. t = 77) = Some ?d"
    by code_simp
  show ?thesis using h draft_continues_an_earlier_occurrence [OF h] by (simp add: Let_def)
qed

text \<open>No key before the end has the hash of the current suffix without being the suffix.\<close>

definition collision_free :: "(u32 list \<Rightarrow> u64) \<Rightarrow> nat \<Rightarrow> u32 list \<Rightarrow> bool" where
  "collision_free h m ts \<longleftrightarrow> (\<forall>p \<in> set [m - 1..<length ts - 1].
     h (window ts m p) = h (drop (length ts - m) ts) \<longrightarrow> window ts m p = drop (length ts - m) ts)"

text \<open>
  C32. What the lookup returns, for any hash, after any sequence of pushes: of the positions before
  the end whose key has the hash of the current \<open>m\<close>-token suffix, the last one, if its tokens are
  the suffix, and nothing if another key took the slot. So when no earlier key collides with the
  suffix, it is the last position at which the suffix occurred, and nothing only when it never did.
\<close>

theorem lookup_finds_the_latest_occurrence:
  assumes "m \<in> {2, 3, 4}" and "m \<le> length ts"
  shows "most_recent_match (extend (with_hasher h) ts) m =
      (case latest (\<lambda>w. h w = h (drop (length ts - m) ts)) m (butlast ts) of
         None \<Rightarrow> None
       | Some p \<Rightarrow> if window ts m p = drop (length ts - m) ts then Some p else None)
    \<and> (collision_free h m ts \<longrightarrow>
      most_recent_match (extend (with_hasher h) ts) m = latest (\<lambda>w. w = drop (length ts - m) ts) m (butlast ts))"
proof -
  have inv: "index_inv (extend (with_hasher h) ts)" by (simp add: index_inv_extend index_inv_with_hasher)
  have "most_recent_match (extend (with_hasher h) ts) m =
      (case latest (\<lambda>w. h w = h (drop (length ts - m) ts)) m (butlast ts) of
         None \<Rightarrow> None
       | Some p \<Rightarrow> if window ts m p = drop (length ts - m) ts then Some p else None)"
    using most_recent_match_spec [OF inv assms(1)] assms(2) by (simp split: option.split)
  moreover have "most_recent_match (extend (with_hasher h) ts) m = latest (\<lambda>w. w = drop (length ts - m) ts) m (butlast ts)"
    if "collision_free h m ts"
    using most_recent_match_complete [OF inv assms(1)] assms(2) that by (simp add: collision_free_def)
  ultimately show ?thesis by blast
qed

text \<open>
  A hash of the first token alone: the pair that ends at 4 shadows the earlier occurrence of the
  suffix; no triple collides in the second stream.
\<close>

lemma lookup_finds_the_latest_occurrence_witness:
  "most_recent_match (extend (with_hasher (\<lambda>w. ucast (hd w))) [1, 2, 5, 1, 7, 1, 2]) 2 = None
    \<and> most_recent_match (extend (with_hasher (\<lambda>w. ucast (hd w))) [4, 2, 5, 1, 7, 4, 2, 5]) 3 = Some 2"
proof -
  have two: "latest (\<lambda>w. (ucast (hd w) :: u64) = ucast (hd (drop (7 - 2) [1 :: u32, 2, 5, 1, 7, 1, 2]))) 2 (butlast [1, 2, 5, 1, 7, 1, 2]) = Some 4"
    by code_simp
  have "most_recent_match (extend (with_hasher (\<lambda>w. ucast (hd w))) [1, 2, 5, 1, 7, 1, 2]) 2 = None"
    using lookup_finds_the_latest_occurrence [of 2 "[1, 2, 5, 1, 7, 1, 2]" "\<lambda>w. ucast (hd w)"] two
    by (simp add: window_def slice_def)
  moreover have "most_recent_match (extend (with_hasher (\<lambda>w. ucast (hd w))) [4, 2, 5, 1, 7, 4, 2, 5]) 3 = Some 2"
  proof -
    let ?ts = "[4, 2, 5, 1, 7, 4, 2, 5] :: u32 list" and ?h = "\<lambda>w :: u32 list. ucast (hd w) :: u64"
    have free: "collision_free ?h 3 ?ts" by code_simp
    have "latest (\<lambda>w. w = drop (length ?ts - 3) ?ts) 3 (butlast ?ts) = Some 2" by code_simp
    moreover have "most_recent_match (extend (with_hasher ?h) ?ts) 3 = latest (\<lambda>w. w = drop (length ?ts - 3) ?ts) 3 (butlast ?ts)"
      by (rule mp [OF conjunct2 [OF lookup_finds_the_latest_occurrence] free]) simp_all
    ultimately show ?thesis by (simp only:)
  qed
  ultimately show ?thesis by (rule conjI)
qed

text \<open>
  \<open>clear\<close> is a full reset: after it, the index behaves on any new sequence exactly as
  one that has just been created with the same hash, so no position of the old context can
  be proposed.
\<close>

theorem clear_forgets_everything:
  "extend (ngram_clear (extend (with_hasher h) ts)) us = extend (with_hasher h) us"
  by (simp add: ngram_clear_fresh index_inv_extend index_inv_with_hasher)

end
