(* ===== verification/Text_Bytes.thy ===== *)
theory Text_Bytes
  imports Prelude
begin

text \<open>
  Text as \<open>str\<close> has it: a byte string, whose offsets are byte offsets and whose slices must lie
  on character boundaries. A \<open>char\<close> of this theory is one byte. \<open>utf8\<close> says that a byte string
  splits into characters, each a leading byte and the continuation bytes it announces. The
  searches, splits and trims are the methods of \<open>str\<close> the server and the tokenizer use.
\<close>

section \<open>Byte strings\<close>

definition is_continuation :: "char \<Rightarrow> bool" where
  "is_continuation c \<longleftrightarrow> 128 \<le> (of_char c :: nat) \<and> (of_char c :: nat) < 192"

definition is_char_boundary :: "string \<Rightarrow> nat \<Rightarrow> bool" where
  "is_char_boundary s i \<longleftrightarrow> i = 0 \<or> i = length s \<or> i < length s \<and> \<not> is_continuation (s ! i)"

definition following_bytes :: "char \<Rightarrow> nat" where
  "following_bytes c = (if (of_char c :: nat) < 192 then 0 else if (of_char c :: nat) < 224 then 1
     else if (of_char c :: nat) < 240 then 2 else 3)"

fun utf8 :: "string \<Rightarrow> bool" where
  "utf8 [] = True"
| "utf8 (c # cs) \<longleftrightarrow> \<not> is_continuation c \<and> following_bytes c \<le> length cs
     \<and> list_all is_continuation (take (following_bytes c) cs) \<and> utf8 (drop (following_bytes c) cs)"

lemma utf8_append: "utf8 xs \<Longrightarrow> utf8 ys \<Longrightarrow> utf8 (xs @ ys)"
  by (induction xs rule: utf8.induct) auto

lemma utf8_concat: "(\<And>c. c \<in> set cs \<Longrightarrow> utf8 c) \<Longrightarrow> utf8 (concat cs)"
  by (induction cs) (auto intro: utf8_append)

lemma utf8_append_cancel: "utf8 (xs @ ys) \<Longrightarrow> utf8 xs \<Longrightarrow> utf8 ys"
  by (induction xs rule: utf8.induct) auto

lemma utf8_starts: "utf8 xs \<Longrightarrow> xs \<noteq> [] \<Longrightarrow> \<not> is_continuation (hd xs)"
  by (cases xs) auto

lemma utf8_prefix:
  "utf8 (xs @ ys) \<Longrightarrow> ys \<noteq> [] \<Longrightarrow> \<not> is_continuation (hd ys) \<Longrightarrow> utf8 xs"
proof (induction xs rule: utf8.induct)
  case (2 c cs)
  let ?n = "following_bytes c"
  have cont: "list_all is_continuation (take ?n (cs @ ys))" and le: "?n \<le> length (cs @ ys)"
    using 2(2) by auto
  have "?n \<le> length cs"
  proof (rule ccontr)
    assume "\<not> ?n \<le> length cs"
    then have "hd ys \<in> set (take ?n (cs @ ys))"
      using 2(3) le by (cases ys) (auto simp: take_Cons')
    with cont 2(4) show False by (auto simp: list_all_iff)
  qed
  with 2 show ?case by auto
qed simp

lemma utf8_boundary:
  assumes "utf8 s" "is_char_boundary s i"
  shows "utf8 (take i s)" "utf8 (drop i s)"
proof -
  show t: "utf8 (take i s)"
  proof (cases "i < length s \<and> 0 < i")
    case True
    with assms have "\<not> is_continuation (hd (drop i s))"
      by (simp add: is_char_boundary_def hd_drop_conv_nth)
    with True assms show ?thesis
      using utf8_prefix [of "take i s" "drop i s"] by simp
  qed (use assms in \<open>auto simp: is_char_boundary_def\<close>)
  from assms(1) have "utf8 (take i s @ drop i s)" by simp
  from this t show "utf8 (drop i s)" by (rule utf8_append_cancel)
qed

lemma boundary_utf8:
  assumes "utf8 s" "utf8 (take i s)" "i \<le> length s"
  shows "is_char_boundary s i"
proof (cases "i < length s")
  case True
  have "utf8 (take i s @ drop i s)" using assms(1) by simp
  then have "utf8 (drop i s)" using assms(2) by (rule utf8_append_cancel)
  with True show ?thesis
    using utf8_starts [of "drop i s"] by (simp add: is_char_boundary_def hd_drop_conv_nth)
qed (use assms in \<open>simp add: is_char_boundary_def\<close>)

text \<open>A string that begins a character, where it occurs in another string, is cut at a boundary.\<close>

lemma utf8_occurrence:
  assumes "utf8 (xs @ ys @ zs)" "ys \<noteq> []" "\<not> is_continuation (hd ys)"
  shows "utf8 xs" "utf8 (ys @ zs)"
proof -
  show "utf8 xs" using assms utf8_prefix [of xs "ys @ zs"] by simp
  with assms(1) show "utf8 (ys @ zs)" by (rule utf8_append_cancel)
qed

text \<open>\<open>str::find\<close>: the offset of the first occurrence.\<close>

fun str_find :: "string \<Rightarrow> string \<Rightarrow> nat option" where
  "str_find [] pat = (if pat = [] then Some 0 else None)"
| "str_find (c # cs) pat = (if prefix pat (c # cs) then Some 0 else map_option Suc (str_find cs pat))"

definition occurs_at :: "string \<Rightarrow> string \<Rightarrow> nat \<Rightarrow> bool" where
  "occurs_at pat s i \<longleftrightarrow> i + length pat \<le> length s \<and> take (length pat) (drop i s) = pat"

lemma prefix_occurs: "prefix pat s \<longleftrightarrow> occurs_at pat s 0"
  by (auto simp: occurs_at_def prefix_def) (metis append_take_drop_id)

lemma occurs_at_Suc [simp]: "occurs_at pat (c # cs) (Suc i) = occurs_at pat cs i"
  by (simp add: occurs_at_def)

lemma occurs_at_Nil [simp]: "occurs_at pat [] i \<longleftrightarrow> i = 0 \<and> pat = []"
  by (auto simp: occurs_at_def)

lemma str_find_Some:
  "str_find s pat = Some i \<longleftrightarrow> occurs_at pat s i \<and> (\<forall>j < i. \<not> occurs_at pat s j)"
proof (induction s arbitrary: i)
  case (Cons c cs)
  then show ?case
    by (cases i) (auto simp: prefix_occurs less_Suc_eq_0_disj)
qed auto

lemma all_nat_split: "(\<forall>i. P i) \<longleftrightarrow> P 0 \<and> (\<forall>i. P (Suc i))"
  by (metis nat.exhaust)

lemma str_find_None: "str_find s pat = None \<longleftrightarrow> (\<forall>i. \<not> occurs_at pat s i)"
proof (induction s)
  case (Cons c cs)
  then show ?case
    by (subst all_nat_split) (auto simp: prefix_occurs)
qed auto

lemma occurs_at_length: "occurs_at pat s i \<Longrightarrow> i + length pat \<le> length s"
  by (simp add: occurs_at_def)

lemma str_find_bound: "str_find s pat = Some i \<Longrightarrow> i + length pat \<le> length s"
  by (auto simp: str_find_Some occurs_at_length)

lemma occurs_at_append: "i + length pat \<le> length s \<Longrightarrow> occurs_at pat (s @ t) i \<longleftrightarrow> occurs_at pat s i"
  by (auto simp: occurs_at_def)

lemma occurs_at_drop: "n \<le> length s \<Longrightarrow> occurs_at pat (drop n s) i \<longleftrightarrow> occurs_at pat s (n + i)"
  by (auto simp: occurs_at_def add.commute)

text \<open>An occurrence of a whole-character pattern begins at a character boundary.\<close>

lemma occurrence_boundary:
  assumes "utf8 s" "utf8 stop" "stop \<noteq> []" "occurs_at stop s at"
  shows "utf8 (take at s)"
proof -
  have "drop at s = stop @ drop (length stop) (drop at s)"
    using assms(4) append_take_drop_id [of "length stop" "drop at s"] by (simp add: occurs_at_def)
  then have "utf8 (take at s @ stop @ drop (length stop) (drop at s))"
    using assms(1) by (metis append_take_drop_id)
  then show ?thesis using assms(3) utf8_starts [OF assms(2,3)] by (rule utf8_occurrence)
qed

text \<open>\<open>str::contains\<close>, \<open>rfind\<close>, \<open>split_once\<close>, \<open>rsplit_once\<close> and the stripping methods.\<close>

definition str_contains :: "string \<Rightarrow> string \<Rightarrow> bool" where
  "str_contains s pat \<longleftrightarrow> str_find s pat \<noteq> None"

fun str_rfind :: "string \<Rightarrow> string \<Rightarrow> nat option" where
  "str_rfind [] pat = (if pat = [] then Some 0 else None)"
| "str_rfind (c # cs) pat = (case str_rfind cs pat of
     Some i \<Rightarrow> Some (Suc i)
   | None \<Rightarrow> if prefix pat (c # cs) then Some 0 else None)"

definition split_once :: "string \<Rightarrow> string \<Rightarrow> (string \<times> string) option" where
  "split_once s pat = map_option (\<lambda>i. (take i s, drop (i + length pat) s)) (str_find s pat)"

definition rsplit_once :: "string \<Rightarrow> string \<Rightarrow> (string \<times> string) option" where
  "rsplit_once s pat = map_option (\<lambda>i. (take i s, drop (i + length pat) s)) (str_rfind s pat)"

definition strip_prefix :: "string \<Rightarrow> string \<Rightarrow> string option" where
  "strip_prefix s pat = (if prefix pat s then Some (drop (length pat) s) else None)"

definition strip_suffix :: "string \<Rightarrow> string \<Rightarrow> string option" where
  "strip_suffix s pat = (if suffix pat s then Some (take (length s - length pat) s) else None)"

text \<open>The characters with the property \<open>White_Space\<close>, which \<open>trim\<close> removes.\<close>

definition white_space :: "string list" where
  "white_space = [[CHR 0x09], [CHR 0x0A], [CHR 0x0B], [CHR 0x0C], [CHR 0x0D], [CHR 0x20], [CHR 0xC2, CHR 0x85],
     [CHR 0xC2, CHR 0xA0], [CHR 0xE1, CHR 0x9A, CHR 0x80], [CHR 0xE2, CHR 0x80, CHR 0x80],
     [CHR 0xE2, CHR 0x80, CHR 0x81], [CHR 0xE2, CHR 0x80, CHR 0x82], [CHR 0xE2, CHR 0x80, CHR 0x83],
     [CHR 0xE2, CHR 0x80, CHR 0x84], [CHR 0xE2, CHR 0x80, CHR 0x85], [CHR 0xE2, CHR 0x80, CHR 0x86],
     [CHR 0xE2, CHR 0x80, CHR 0x87], [CHR 0xE2, CHR 0x80, CHR 0x88], [CHR 0xE2, CHR 0x80, CHR 0x89],
     [CHR 0xE2, CHR 0x80, CHR 0x8A], [CHR 0xE2, CHR 0x80, CHR 0xA8], [CHR 0xE2, CHR 0x80, CHR 0xA9],
     [CHR 0xE2, CHR 0x80, CHR 0xAF], [CHR 0xE2, CHR 0x81, CHR 0x9F], [CHR 0xE3, CHR 0x80, CHR 0x80]]"

lemma white_space_nonempty: "w \<in> set white_space \<Longrightarrow> w \<noteq> []"
  by (auto simp: white_space_def)

lemma find_SomeD: "find P xs = Some x \<Longrightarrow> P x"
  by (auto simp: find_Some_iff)

function trim_start_matches :: "string list \<Rightarrow> string \<Rightarrow> string" where
  "trim_start_matches ws s = (case find (\<lambda>w. w \<noteq> [] \<and> prefix w s) ws of
     None \<Rightarrow> s | Some w \<Rightarrow> trim_start_matches ws (drop (length w) s))"
  by auto
termination
  by (relation "measure (\<lambda>(ws, s). length s)") (auto dest!: find_SomeD prefix_length_le simp: neq_Nil_conv)

function trim_end_matches :: "string list \<Rightarrow> string \<Rightarrow> string" where
  "trim_end_matches ws s = (case find (\<lambda>w. w \<noteq> [] \<and> suffix w s) ws of
     None \<Rightarrow> s | Some w \<Rightarrow> trim_end_matches ws (take (length s - length w) s))"
  by auto
termination
  by (relation "measure (\<lambda>(ws, s). length s)") (auto dest!: find_SomeD suffix_length_le simp: neq_Nil_conv)

declare trim_start_matches.simps [simp del] trim_end_matches.simps [simp del]

definition trim :: "string \<Rightarrow> string" where
  "trim s = trim_end_matches white_space (trim_start_matches white_space s)"

definition trim_end :: "string \<Rightarrow> string" where
  "trim_end s = trim_end_matches white_space s"

text \<open>Decimal numerals, as \<open>to_string\<close> and \<open>parse::<usize>\<close> write and read them.\<close>

definition digit :: "nat \<Rightarrow> char" where
  "digit n = char_of (48 + n)"

function show_nat :: "nat \<Rightarrow> string" where
  "show_nat n = (if n < 10 then [digit n] else show_nat (n div 10) @ [digit (n mod 10)])"
  by auto
termination by (relation "measure id") auto

declare show_nat.simps [simp del]

definition digit_value :: "char \<Rightarrow> nat option" where
  "digit_value c = (if 48 \<le> (of_char c :: nat) \<and> (of_char c :: nat) \<le> 57 then Some (of_char c - 48) else None)"

fun digits_value :: "nat \<Rightarrow> string \<Rightarrow> nat option" where
  "digits_value acc [] = Some acc"
| "digits_value acc (c # cs) = (case digit_value c of
     None \<Rightarrow> None
   | Some d \<Rightarrow> if acc * 10 + d \<le> usize_max then digits_value (acc * 10 + d) cs else None)"

definition parse_usize :: "string \<Rightarrow> nat option" where
  "parse_usize s = (let t = (case s of c # cs \<Rightarrow> if c = CHR ''+'' then cs else s | [] \<Rightarrow> [])
     in if t = [] then None else digits_value 0 t)"

lemma digit_value_digit [simp]: "n < 10 \<Longrightarrow> digit_value (digit n) = Some n"
  by (simp add: digit_value_def digit_def)

lemma digit_not_plus [simp]: "n < 10 \<Longrightarrow> digit n \<noteq> CHR ''+''"
proof
  assume n: "n < 10" and "digit n = CHR ''+''"
  with digit_value_digit [OF n] show False by (simp add: digit_value_def)
qed

lemma digits_value_append:
  "digits_value acc (xs @ ys) = (case digits_value acc xs of None \<Rightarrow> None | Some a \<Rightarrow> digits_value a ys)"
  by (induction xs arbitrary: acc) (simp_all split: option.splits)

lemma digits_value_show: "n \<le> usize_max \<Longrightarrow> digits_value 0 (show_nat n) = Some n"
proof (induction n rule: show_nat.induct)
  case (1 n)
  show ?case
  proof (cases "n < 10")
    case True
    with 1 show ?thesis by (subst show_nat.simps) (simp add: usize_max_def)
  next
    case False
    with 1 have "digits_value 0 (show_nat (n div 10)) = Some (n div 10)" by simp
    with False 1(2) show ?thesis by (subst show_nat.simps) (simp add: digits_value_append)
  qed
qed

lemma show_nat_head: "show_nat n \<noteq> [] \<and> hd (show_nat n) \<noteq> CHR ''+''"
proof (induction n rule: show_nat.induct)
  case (1 n)
  then show ?case by (subst (1 2) show_nat.simps) auto
qed

lemma parse_show_usize: "n \<le> usize_max \<Longrightarrow> parse_usize (show_nat n) = Some n"
  using show_nat_head [of n] digits_value_show [of n]
  by (cases "show_nat n") (auto simp: parse_usize_def)

end
