(* ===== verification/Gguf.thy ===== *)
theory Gguf
  imports Text_Bytes "HOL-Library.AList"
begin

text \<open>
  The checkpoint as the runtime uses it (\<open>src/gguf.rs\<close>): resolving fused expert tensors, reading one
  expert's compressed rows, and the in-process cache of experts (\<open>ExpertMatrixCache\<close>). The parsed header (\<open>Content\<close>), the block layout of the
  numeric formats, the acceptance of raw bytes as a tensor and the file are parameters; a lock
  that panicked holders poisoned and clocks are not modelled.
\<close>

section \<open>Matrices\<close>

datatype ggml_dtype = Q4K | Q5K | Q6K | Q8_0 | F32 | BF16 | OtherDType string

type_synonym bytes = "8 word list"

record qmatrix =
  qm_dtype :: ggml_dtype
  qm_rows :: nat
  qm_columns :: nat
  qm_data :: bytes

definition storage_bytes :: "qmatrix \<Rightarrow> nat" where
  "storage_bytes m = length (qm_data m)"

record tensor_info =
  ti_dtype :: ggml_dtype
  ti_shape :: "nat list"
  ti_offset :: nat

record checkpoint =
  ck_tensor :: "string \<Rightarrow> tensor_info option"
  ck_data_offset :: nat
  ck_read :: "nat \<Rightarrow> nat \<Rightarrow> bytes option"
  ck_block_size :: "ggml_dtype \<Rightarrow> nat"
  ck_type_size :: "ggml_dtype \<Rightarrow> nat"
  ck_accepts :: "ggml_dtype \<Rightarrow> nat \<Rightarrow> nat \<Rightarrow> bytes \<Rightarrow> bool"

datatype gguf_error =
    MissingTensor
  | NotAMatrix
  | NotExperts
  | RaggedWidth
  | SizeOverflow
  | PairMismatch
  | ExpertOutside
  | OffsetOverflow
  | ReadFailed
  | BadTensor
  | UnsupportedDType
  | DTypesDiffer
  | ColumnsDiffer
  | BadRowCount
  | UnevenRows
  | CacheDisabled
  | NotResident
  | FusedSizeChanged
  | CountOverflow
  | CacheEmpty
  | CapacityTooSmall
  | WarmupBytesChanged

definition executable_dtype :: "ggml_dtype \<Rightarrow> bool" where
  "executable_dtype d \<longleftrightarrow> d \<in> {Q4K, Q5K, Q6K, Q8_0, F32, BF16}"

text \<open>\<open>QStorage::from_data\<close>, \<open>QTensor::new\<close>, and the check of \<open>QuantizedMatrix::new\<close>.\<close>

definition matrix_new :: "checkpoint \<Rightarrow> ggml_dtype \<Rightarrow> nat \<Rightarrow> nat \<Rightarrow> bytes \<Rightarrow> gguf_error + qmatrix" where
  "matrix_new ck d rows columns raw =
     bindE (ensure (ck_accepts ck d rows columns raw) BadTensor) (\<lambda>_.
     bindE (ensure (executable_dtype d) UnsupportedDType) (\<lambda>_.
     Inr \<lparr>qm_dtype = d, qm_rows = rows, qm_columns = columns, qm_data = raw\<rparr>))"

definition concatenate_rows :: "checkpoint \<Rightarrow> qmatrix \<Rightarrow> qmatrix \<Rightarrow> gguf_error + qmatrix" where
  "concatenate_rows ck a b =
     bindE (ensure (qm_dtype a = qm_dtype b) DTypesDiffer) (\<lambda>_.
     bindE (ensure (qm_columns a = qm_columns b) ColumnsDiffer) (\<lambda>_.
     matrix_new ck (qm_dtype a) (qm_rows a + qm_rows b) (qm_columns a) (qm_data a @ qm_data b)))"

definition leading_rows :: "checkpoint \<Rightarrow> nat \<Rightarrow> qmatrix \<Rightarrow> gguf_error + qmatrix" where
  "leading_rows ck rows m =
     bindE (ensure (0 < rows \<and> rows \<le> qm_rows m) BadRowCount) (\<lambda>_.
     bindE (ensure (qm_rows m dvd storage_bytes m) UnevenRows) (\<lambda>_.
     if rows = qm_rows m then Inr m
     else matrix_new ck (qm_dtype m) rows (qm_columns m) (take (rows * (storage_bytes m div qm_rows m)) (qm_data m))))"

section \<open>Tensors of the checkpoint\<close>

definition element_count :: "nat list \<Rightarrow> nat" where
  "element_count shape = prod_list shape"

definition tensor_storage :: "checkpoint \<Rightarrow> tensor_info \<Rightarrow> nat" where
  "tensor_storage ck info = element_count (ti_shape info) div ck_block_size ck (ti_dtype info) * ck_type_size ck (ti_dtype info)"

record expert_tensor =
  et_dtype :: ggml_dtype
  et_expert_count :: nat
  et_rows :: nat
  et_columns :: nat
  et_expert_bytes :: nat
  et_start :: nat

definition resolve_experts :: "checkpoint \<Rightarrow> string \<Rightarrow> gguf_error + expert_tensor" where
  "resolve_experts ck name =
     (case ck_tensor ck name of
        None \<Rightarrow> Inl MissingTensor
      | Some info \<Rightarrow>
          (case ti_shape info of
             [experts, rows, columns] \<Rightarrow>
               bindE (ensure (columns mod ck_block_size ck (ti_dtype info) = 0) RaggedWidth) (\<lambda>_.
               (case checked_mul rows (columns div ck_block_size ck (ti_dtype info)) of
                  None \<Rightarrow> Inl SizeOverflow
                | Some blocks \<Rightarrow>
                    (case checked_mul blocks (ck_type_size ck (ti_dtype info)) of
                       None \<Rightarrow> Inl SizeOverflow
                     | Some expert_bytes \<Rightarrow>
                         Inr \<lparr>et_dtype = ti_dtype info, et_expert_count = experts, et_rows = rows, et_columns = columns,
                              et_expert_bytes = expert_bytes, et_start = saturating_add (ck_data_offset ck) (ti_offset info)\<rparr>)))
           | _ \<Rightarrow> Inl NotExperts))"

definition resolve_pair :: "checkpoint \<Rightarrow> string \<Rightarrow> string \<Rightarrow> gguf_error + expert_tensor \<times> expert_tensor" where
  "resolve_pair ck first second =
     bindE (resolve_experts ck first) (\<lambda>a.
     bindE (resolve_experts ck second) (\<lambda>b.
     bindE (ensure (et_dtype a = et_dtype b) PairMismatch) (\<lambda>_.
     bindE (ensure (et_expert_count a = et_expert_count b \<and> et_rows a = et_rows b \<and> et_columns a = et_columns b) PairMismatch) (\<lambda>_.
     Inr (a, b)))))"

text \<open>The bytes of one expert, and what the two loaders make of them on a miss.\<close>

definition read_expert :: "checkpoint \<Rightarrow> expert_tensor \<Rightarrow> nat \<Rightarrow> gguf_error + bytes" where
  "read_expert ck t expert =
     (case checked_mul expert (et_expert_bytes t) of
        None \<Rightarrow> Inl OffsetOverflow
      | Some offset \<Rightarrow>
          (case ck_read ck (saturating_add (et_start t) offset) (et_expert_bytes t) of
             None \<Rightarrow> Inl ReadFailed
           | Some raw \<Rightarrow> Inr raw))"

definition read_expert_matrix :: "checkpoint \<Rightarrow> expert_tensor \<Rightarrow> nat \<Rightarrow> gguf_error + qmatrix" where
  "read_expert_matrix ck t expert =
     bindE (read_expert ck t expert) (matrix_new ck (et_dtype t) (et_rows t) (et_columns t))"

definition read_expert_pair :: "checkpoint \<Rightarrow> expert_tensor \<Rightarrow> expert_tensor \<Rightarrow> nat \<Rightarrow> gguf_error + qmatrix" where
  "read_expert_pair ck a b expert =
     bindE (read_expert ck a expert) (\<lambda>raw1.
     bindE (read_expert ck b expert) (\<lambda>raw2.
     matrix_new ck (et_dtype a) (et_rows a + et_rows b) (et_columns a) (raw1 @ raw2)))"

section \<open>The expert cache\<close>

record matrix_key =
  mk_start :: nat
  mk_second :: "nat option"
  mk_expert :: nat

record cached_matrix =
  cm_matrix :: qmatrix
  cm_bytes :: nat
  cm_access :: nat

record expert_cache =
  ec_capacity :: nat
  ec_resident :: nat
  ec_clock :: nat
  ec_requests :: nat
  ec_hits :: nat
  ec_misses :: nat
  ec_evictions :: nat
  ec_loaded :: nat
  ec_entries :: "(matrix_key \<times> cached_matrix) list"
  ec_lru :: "(matrix_key \<times> nat) list"
  ec_pinned :: bool

definition cache_default :: expert_cache where
  "cache_default = \<lparr>ec_capacity = 0, ec_resident = 0, ec_clock = 0, ec_requests = 0, ec_hits = 0, ec_misses = 0,
     ec_evictions = 0, ec_loaded = 0, ec_entries = [], ec_lru = [], ec_pinned = False\<rparr>"

definition configure :: "nat \<Rightarrow> expert_cache" where
  "configure capacity = cache_default\<lparr>ec_capacity := capacity\<rparr>"

text \<open>The entries in the order of their last access.\<close>

definition current_lru :: "expert_cache \<Rightarrow> (matrix_key \<times> nat) list" where
  "current_lru c = sort_key snd (map (\<lambda>(key, entry). (key, cm_access entry)) (ec_entries c))"

definition compact_lru_if_needed :: "expert_cache \<Rightarrow> expert_cache" where
  "compact_lru_if_needed c =
     (if length (ec_lru c) \<le> saturating_add (saturating_mul (length (ec_entries c)) 4) 1024 then c
      else c\<lparr>ec_lru := current_lru c\<rparr>)"

definition cache_get :: "matrix_key \<Rightarrow> expert_cache \<Rightarrow> expert_cache \<times> qmatrix option" where
  "cache_get key c =
     (let c = c\<lparr>ec_requests := ec_requests c + 1\<rparr>
      in if ec_capacity c = 0 then (c\<lparr>ec_misses := ec_misses c + 1\<rparr>, None)
         else if ec_pinned c
         then (case map_of (ec_entries c) key of
                 Some entry \<Rightarrow> (c\<lparr>ec_hits := ec_hits c + 1\<rparr>, Some (cm_matrix entry))
               | None \<Rightarrow> (c\<lparr>ec_misses := ec_misses c + 1\<rparr>, None))
         else let c = c\<lparr>ec_clock := ec_clock c + 1\<rparr>
              in case map_of (ec_entries c) key of
                   Some entry \<Rightarrow>
                     (compact_lru_if_needed
                        (c\<lparr>ec_hits := ec_hits c + 1,
                           ec_entries := AList.update key (entry\<lparr>cm_access := ec_clock c\<rparr>) (ec_entries c),
                           ec_lru := ec_lru c @ [(key, ec_clock c)]\<rparr>), Some (cm_matrix entry))
                 | None \<Rightarrow> (c\<lparr>ec_misses := ec_misses c + 1\<rparr>, None))"

text \<open>An expected hit that missed restores the recency queue.\<close>

definition unpin :: "expert_cache \<Rightarrow> expert_cache" where
  "unpin c = (if ec_pinned c then c\<lparr>ec_pinned := False, ec_lru := current_lru c\<rparr> else c)"

text \<open>The loop that makes room, from the front of the queue; a stale pair is skipped.\<close>

fun make_room_loop :: "nat \<Rightarrow> (matrix_key \<times> nat) list \<Rightarrow> expert_cache \<Rightarrow> expert_cache" where
  "make_room_loop bytes [] c = c\<lparr>ec_lru := []\<rparr>"
| "make_room_loop bytes ((oldest, access) # lru) c =
     (if ec_resident c + bytes \<le> ec_capacity c then c\<lparr>ec_lru := (oldest, access) # lru\<rparr>
      else make_room_loop bytes lru
        (case map_of (ec_entries c) oldest of
           Some entry \<Rightarrow>
             if cm_access entry = access
             then c\<lparr>ec_entries := AList.delete oldest (ec_entries c), ec_resident := ec_resident c - cm_bytes entry,
                    ec_evictions := ec_evictions c + 1\<rparr>
             else c
         | None \<Rightarrow> c))"

definition make_room :: "nat \<Rightarrow> expert_cache \<Rightarrow> expert_cache" where
  "make_room bytes c = make_room_loop bytes (ec_lru c) c"

definition insert_entry :: "matrix_key \<Rightarrow> qmatrix \<Rightarrow> expert_cache \<Rightarrow> expert_cache" where
  "insert_entry key matrix c =
     (let clock = ec_clock c + 1;
          resident = (case map_of (ec_entries c) key of
              Some previous \<Rightarrow> ec_resident c - cm_bytes previous | None \<Rightarrow> ec_resident c)
      in c\<lparr>ec_clock := clock,
           ec_entries := AList.update key \<lparr>cm_matrix = matrix, cm_bytes = storage_bytes matrix, cm_access = clock\<rparr> (ec_entries c),
           ec_resident := resident + storage_bytes matrix\<rparr>)"

definition record_read_and_insert :: "matrix_key \<Rightarrow> qmatrix \<Rightarrow> expert_cache \<Rightarrow> expert_cache" where
  "record_read_and_insert key matrix c =
     (let c = unpin c;
          c = c\<lparr>ec_loaded := saturating_add (ec_loaded c) (storage_bytes matrix)\<rparr>
      in if ec_capacity c = 0 \<or> ec_capacity c < storage_bytes matrix then c
         else let c = insert_entry key matrix (make_room (storage_bytes matrix) c)
              in compact_lru_if_needed (c\<lparr>ec_lru := ec_lru c @ [(key, ec_clock c)]\<rparr>))"

definition mark_fully_resident :: "expert_cache \<Rightarrow> expert_cache" where
  "mark_fully_resident c = c\<lparr>ec_pinned := True, ec_lru := []\<rparr>"

definition mark_expert_cache_fully_resident :: "(expert_cache, gguf_error, unit) action" where
  "mark_expert_cache_fully_resident =
     bindS (readS (\<lambda>c. c)) (\<lambda>c.
     bindS (ensureS (0 < ec_capacity c \<and> ec_entries c \<noteq> []) CacheEmpty) (\<lambda>_.
     modifyS mark_fully_resident))"

section \<open>Loading an expert\<close>

definition single_key :: "expert_tensor \<Rightarrow> nat \<Rightarrow> matrix_key" where
  "single_key t expert = \<lparr>mk_start = et_start t, mk_second = None, mk_expert = expert\<rparr>"

definition pair_key :: "expert_tensor \<Rightarrow> expert_tensor \<Rightarrow> nat \<Rightarrow> matrix_key" where
  "pair_key a b expert = \<lparr>mk_start = et_start a, mk_second = Some (et_start b), mk_expert = expert\<rparr>"

text \<open>Both loaders: the cache, and on a miss the file and an insertion.\<close>

definition load_through :: "matrix_key \<Rightarrow> gguf_error + qmatrix \<Rightarrow> (expert_cache, gguf_error, qmatrix) action" where
  "load_through key from_file c =
     (case cache_get key c of
        (c, Some matrix) \<Rightarrow> (c, Inr matrix)
      | (c, None) \<Rightarrow>
          (case from_file of
             Inl e \<Rightarrow> (c, Inl e)
           | Inr matrix \<Rightarrow> (record_read_and_insert key matrix c, Inr matrix)))"

definition load_resolved_expert_matrix ::
    "checkpoint \<Rightarrow> expert_tensor \<Rightarrow> nat \<Rightarrow> (expert_cache, gguf_error, qmatrix) action" where
  "load_resolved_expert_matrix ck t expert =
     bindS (ensureS (expert < et_expert_count t) ExpertOutside) (\<lambda>_.
     load_through (single_key t expert) (read_expert_matrix ck t expert))"

definition load_resolved_expert_pair ::
    "checkpoint \<Rightarrow> expert_tensor \<Rightarrow> expert_tensor \<Rightarrow> nat \<Rightarrow> (expert_cache, gguf_error, qmatrix) action" where
  "load_resolved_expert_pair ck a b expert =
     bindS (ensureS (expert < et_expert_count a) ExpertOutside) (\<lambda>_.
     load_through (pair_key a b expert) (read_expert_pair ck a b expert))"

definition load_expert_matrix :: "checkpoint \<Rightarrow> string \<Rightarrow> nat \<Rightarrow> (expert_cache, gguf_error, qmatrix) action" where
  "load_expert_matrix ck name expert =
     bindS (liftS (resolve_experts ck name)) (\<lambda>t. load_resolved_expert_matrix ck t expert)"

definition load_expert_pair :: "checkpoint \<Rightarrow> string \<Rightarrow> string \<Rightarrow> nat \<Rightarrow> (expert_cache, gguf_error, qmatrix) action" where
  "load_expert_pair ck first second expert =
     bindS (liftS (resolve_pair ck first second)) (\<lambda>(a, b). load_resolved_expert_pair ck a b expert)"

section \<open>Fusing the pairs of a layer\<close>

definition resident :: "matrix_key \<Rightarrow> (expert_cache, gguf_error, qmatrix) action" where
  "resident key c = (case map_of (ec_entries c) key of
      None \<Rightarrow> (c, Inl NotResident) | Some entry \<Rightarrow> (c, Inr (cm_matrix entry)))"

definition take_entry :: "matrix_key \<Rightarrow> (expert_cache, gguf_error, cached_matrix) action" where
  "take_entry key c = (case map_of (ec_entries c) key of
      None \<Rightarrow> (c, Inl NotResident)
    | Some entry \<Rightarrow> (c\<lparr>ec_entries := AList.delete key (ec_entries c)\<rparr>, Inr entry))"

text \<open>The combined matrix enters in the place of its members; it is not queued for eviction.\<close>

definition insert_fused :: "matrix_key \<Rightarrow> qmatrix \<Rightarrow> nat \<Rightarrow> nat \<Rightarrow> expert_cache \<Rightarrow> expert_cache" where
  "insert_fused key combined bytes1 bytes2 c =
     (let clock = ec_clock c + 1
      in c\<lparr>ec_clock := clock,
           ec_entries := AList.update key \<lparr>cm_matrix = combined, cm_bytes = storage_bytes combined, cm_access = clock\<rparr> (ec_entries c),
           ec_resident := ec_resident c - bytes1 - bytes2 + storage_bytes combined\<rparr>)"

definition fuse_expert :: "checkpoint \<Rightarrow> expert_tensor \<Rightarrow> expert_tensor \<Rightarrow> nat \<Rightarrow> (expert_cache, gguf_error, nat) action" where
  "fuse_expert ck a b expert =
     bindS (readS (\<lambda>c. map_of (ec_entries c) (pair_key a b expert))) (\<lambda>existing.
     case existing of
       Some entry \<Rightarrow> returnS (cm_bytes entry)
     | None \<Rightarrow>
         bindS (resident (single_key a expert)) (\<lambda>first.
         bindS (resident (single_key b expert)) (\<lambda>second.
         bindS (liftS (concatenate_rows ck first second)) (\<lambda>combined.
         bindS (ensureS (storage_bytes combined = storage_bytes first + storage_bytes second) FusedSizeChanged) (\<lambda>_.
         bindS (take_entry (single_key a expert)) (\<lambda>removed_first.
         bindS (take_entry (single_key b expert)) (\<lambda>removed_second.
         bindS (modifyS (insert_fused (pair_key a b expert) combined (cm_bytes removed_first) (cm_bytes removed_second))) (\<lambda>_.
         returnS (storage_bytes combined)))))))))"

fun fuse_loop :: "checkpoint \<Rightarrow> expert_tensor \<Rightarrow> expert_tensor \<Rightarrow> nat list \<Rightarrow> nat \<Rightarrow> (expert_cache, gguf_error, nat) action" where
  "fuse_loop ck a b [] fused = returnS fused"
| "fuse_loop ck a b (expert # experts) fused =
     bindS (fuse_expert ck a b expert) (\<lambda>bytes.
     case checked_add fused bytes of
       None \<Rightarrow> failS CountOverflow
     | Some fused \<Rightarrow> fuse_loop ck a b experts fused)"

definition fuse_pair :: "checkpoint \<Rightarrow> expert_tensor \<Rightarrow> expert_tensor \<Rightarrow> (expert_cache, gguf_error, nat) action" where
  "fuse_pair ck a b =
     bindS (readS ec_capacity) (\<lambda>capacity.
     bindS (ensureS (0 < capacity) CacheDisabled) (\<lambda>_.
     fuse_loop ck a b [0..<et_expert_count a] 0))"

definition fuse_cached_expert_pair :: "checkpoint \<Rightarrow> string \<Rightarrow> string \<Rightarrow> (expert_cache, gguf_error, nat) action" where
  "fuse_cached_expert_pair ck first second =
     bindS (liftS (resolve_pair ck first second)) (\<lambda>(a, b). fuse_pair ck a b)"

end
