(* ===== verification/Matmul.thy ===== *)
theory Matmul
  imports Gguf
begin

text \<open>
  Multiplying rows by a compressed matrix (\<open>QuantizedMatrix::forward_rows\<close> and its dispatch in
  \<open>src/gguf.rs\<close>, the loops of the fused kernels in \<open>src/qgemm.rs\<close>): which kernel a pass of some
  width takes, its tiles, and how inputs and outputs are laid out. What is done per row is that
  row's product alone, so a matrix is a function from rows to rows, as the layers take it.

  Candle's matrix product, quantization of activations and \<open>vec_dot\<close>, and the vector
  instructions by which a lane of a fused kernel takes one block, are parameters. Matrices are on
  the CPU; conversion of an input to \<open>f32\<close> is not modelled, and spreading the output rows over a
  thread pool is the same list of rows.
\<close>

section \<open>The kernels\<close>

text \<open>
  One lane of a fused kernel: an accumulator, what a weight block and an input block make of it,
  and the horizontal sum at the end. The integer sums that the K-quant kernels keep inside a block
  are local to the lane and part of its step.
\<close>

record ('w, 'q, 'a, 'f) lane_kernel =
  lk_init :: 'a
  lk_step :: "'w \<Rightarrow> 'q \<Rightarrow> 'a \<Rightarrow> 'a"
  lk_finish :: "'a \<Rightarrow> 'f"

definition TILE :: nat where "TILE = 8"

text \<open>One weight block against every lane of a tile.\<close>

definition tile_step ::
    "('w, 'q, 'a, 'f) lane_kernel \<Rightarrow> 'q list \<Rightarrow> nat \<Rightarrow> nat \<Rightarrow> nat \<times> 'w \<Rightarrow> 'a list \<Rightarrow> 'a list" where
  "tile_step K inputs rows base = (\<lambda>(block, w) acc.
     map (\<lambda>lane. lk_step K w (inputs ! (block * rows + base + lane)) (acc ! lane)) [0..<length acc])"

definition fused_tile ::
    "('w, 'q, 'a, 'f) lane_kernel \<Rightarrow> 'w list \<Rightarrow> 'q list \<Rightarrow> nat \<Rightarrow> nat \<Rightarrow> nat \<Rightarrow> 'f list" where
  "fused_tile K weight inputs rows base width =
     map (lk_finish K) (fold (tile_step K inputs rows base) (enumerate 0 weight) (replicate width (lk_init K)))"

function fused_row :: "('w, 'q, 'a, 'f) lane_kernel \<Rightarrow> 'w list \<Rightarrow> 'q list \<Rightarrow> nat \<Rightarrow> nat \<Rightarrow> 'f list" where
  "fused_row K weight inputs rows base =
     (if base + TILE \<le> rows then fused_tile K weight inputs rows base TILE @ fused_row K weight inputs rows (base + TILE)
      else fused_tile K weight inputs rows base (rows - base))"
  by pat_completeness auto
termination by (relation "measure (\<lambda>(K, weight, inputs, rows, base). rows - base)") (auto simp: TILE_def)

declare fused_row.simps [simp del]

record ('w, 'q, 'a, 'f) kernels =
  kn_supported :: bool
  kn_fused :: "ggml_dtype \<Rightarrow> ('w, 'q, 'a, 'f) lane_kernel"
  cd_block_size :: "ggml_dtype \<Rightarrow> nat"
  cd_view :: "ggml_dtype \<Rightarrow> bytes \<Rightarrow> 'w list option"
  cd_quantize :: "ggml_dtype \<Rightarrow> 'f list \<Rightarrow> 'q list"
  cd_vec_dot :: "ggml_dtype \<Rightarrow> nat \<Rightarrow> 'w list \<Rightarrow> 'q list \<Rightarrow> 'f"
  cd_apply :: "qmatrix \<Rightarrow> 'f list \<Rightarrow> nat \<Rightarrow> 'f list"

datatype matmul_error = DTypeMismatch | Misaligned | BadBlockCount | BadInputLength | BadRank | BadWidth

datatype multi_row_path = SmallM | Fused

datatype row_spread = Pool | Caller

definition blocks_per_row :: "('w, 'q, 'a, 'f) kernels \<Rightarrow> qmatrix \<Rightarrow> nat" where
  "blocks_per_row C m = (qm_columns m + cd_block_size C (qm_dtype m) - 1) div cd_block_size C (qm_dtype m)"

abbreviation row_of :: "nat \<Rightarrow> 'x list \<Rightarrow> nat \<Rightarrow> 'x list" where
  "row_of width xs i \<equiv> slice xs (i * width) ((i + 1) * width)"

text \<open>The typed view of the compressed bytes, with the checks both kernels make.\<close>

definition weight_blocks :: "('w, 'q, 'a, 'f) kernels \<Rightarrow> ggml_dtype \<Rightarrow> qmatrix \<Rightarrow> matmul_error + 'w list" where
  "weight_blocks C d m =
     bindE (ensure (qm_dtype m = d) DTypeMismatch) (\<lambda>_.
     case cd_view C d (qm_data m) of
       None \<Rightarrow> Inl Misaligned
     | Some weights \<Rightarrow> bindE (ensure (length weights = qm_rows m * blocks_per_row C m) BadBlockCount) (\<lambda>_. Inr weights))"

definition quantized_inputs :: "('w, 'q, 'a, 'f) kernels \<Rightarrow> qmatrix \<Rightarrow> 'f list \<Rightarrow> nat \<Rightarrow> 'q list" where
  "quantized_inputs C m xs n = concat (map (\<lambda>row. cd_quantize C (qm_dtype m) (row_of (qm_columns m) xs row)) [0..<n])"

definition pack_inputs :: "nat \<Rightarrow> nat \<Rightarrow> 'q list \<Rightarrow> 'q list" where
  "pack_inputs blocks n inputs = concat (map (\<lambda>block. map (\<lambda>row. inputs ! (row * blocks + block)) [0..<n]) [0..<blocks])"

definition untranspose :: "nat \<Rightarrow> nat \<Rightarrow> 'f list \<Rightarrow> 'f list" where
  "untranspose rows n t = concat (map (\<lambda>input_row. map (\<lambda>output_row. t ! (output_row * n + input_row)) [0..<rows]) [0..<n])"

definition fused_forward :: "('w, 'q, 'a, 'f) kernels \<Rightarrow> ggml_dtype \<Rightarrow> qmatrix \<Rightarrow> 'f list \<Rightarrow> nat \<Rightarrow> matmul_error + 'f list" where
  "fused_forward C d m xs n =
     bindE (weight_blocks C d m) (\<lambda>weights.
     let blocks = blocks_per_row C m;
         packed = pack_inputs blocks n (quantized_inputs C m xs n);
         transposed = concat (map (\<lambda>output_row. fused_row (kn_fused C d) (row_of blocks weights output_row) packed n 0) [0..<qm_rows m])
     in Inr (untranspose (qm_rows m) n transposed))"

definition small_m_forward :: "('w, 'q, 'a, 'f) kernels \<Rightarrow> ggml_dtype \<Rightarrow> qmatrix \<Rightarrow> 'f list \<Rightarrow> nat \<Rightarrow> matmul_error + 'f list" where
  "small_m_forward C d m xs n =
     bindE (weight_blocks C d m) (\<lambda>weights.
     let blocks = blocks_per_row C m;
         inputs = quantized_inputs C m xs n;
         transposed = concat (map (\<lambda>output_row. map (\<lambda>input_row.
             cd_vec_dot C d (qm_columns m) (row_of blocks weights output_row) (row_of blocks inputs input_row)) [0..<n]) [0..<qm_rows m])
     in Inr (untranspose (qm_rows m) n transposed))"

section \<open>Dispatch\<close>

definition multi_row_forward ::
    "('w, 'q, 'a, 'f) kernels \<Rightarrow> qmatrix \<Rightarrow> 'f list \<Rightarrow> nat \<Rightarrow> multi_row_path \<Rightarrow> matmul_error + 'f list option" where
  "multi_row_forward C m xs n path =
     (let fused = (path = Fused \<and> kn_supported C);
          some = (\<lambda>r. bindE r (\<lambda>output. Inr (Some output)))
      in case qm_dtype m of
           Q4K \<Rightarrow> some (if fused then fused_forward C Q4K m xs n else small_m_forward C Q4K m xs n)
         | Q6K \<Rightarrow> some (if fused then fused_forward C Q6K m xs n else small_m_forward C Q6K m xs n)
         | Q8_0 \<Rightarrow> some (if fused then fused_forward C Q8_0 m xs n else small_m_forward C Q8_0 m xs n)
         | Q5K \<Rightarrow> some (small_m_forward C Q5K m xs n)
         | _ \<Rightarrow> Inr None)"

definition MULTI_ROW_TILE :: nat where "MULTI_ROW_TILE = 16"

definition tile_rows :: "nat \<Rightarrow> nat" where
  "tile_rows remaining =
     (if remaining \<le> MULTI_ROW_TILE then remaining
      else if remaining - MULTI_ROW_TILE = 1 then MULTI_ROW_TILE - 1
      else MULTI_ROW_TILE)"

function tiled_loop :: "('w, 'q, 'a, 'f) kernels \<Rightarrow> qmatrix \<Rightarrow> 'f list \<Rightarrow> nat \<Rightarrow> nat \<Rightarrow> 'f list \<Rightarrow> matmul_error + 'f list option" where
  "tiled_loop C m values n start output =
     (if n \<le> start then Inr (Some output)
      else let rows = tile_rows (n - start)
           in bindE (multi_row_forward C m (slice values (start * qm_columns m) ((start + rows) * qm_columns m)) rows Fused) (\<lambda>tile.
              case tile of
                None \<Rightarrow> Inr None
              | Some tile \<Rightarrow> tiled_loop C m values n (start + rows) (output @ tile)))"
  by pat_completeness auto
termination by (relation "measure (\<lambda>(C, m, values, n, start, output). n - start)") (auto simp: tile_rows_def MULTI_ROW_TILE_def)

declare tiled_loop.simps [simp del]

definition tiled_multi_row :: "('w, 'q, 'a, 'f) kernels \<Rightarrow> qmatrix \<Rightarrow> 'f list \<Rightarrow> nat \<Rightarrow> matmul_error + 'f list option" where
  "tiled_multi_row C m values n = tiled_loop C m values n 0 []"

definition SMALL_M_MIN_STORAGE_BYTES :: nat where "SMALL_M_MIN_STORAGE_BYTES = 4 * 1024 * 1024"

definition takes_multi_row :: "qmatrix \<Rightarrow> nat \<Rightarrow> row_spread \<Rightarrow> bool" where
  "takes_multi_row m n spread = (case spread of
     Caller \<Rightarrow> True | Pool \<Rightarrow> 2 \<le> n \<and> SMALL_M_MIN_STORAGE_BYTES \<le> storage_bytes m)"

definition forward_rows ::
    "('w, 'q, 'a, 'f) kernels \<Rightarrow> qmatrix \<Rightarrow> 'f list \<Rightarrow> nat \<Rightarrow> row_spread \<Rightarrow> matmul_error + 'f list" where
  "forward_rows C m values n spread =
     bindE (ensure (length values = n * qm_columns m) BadInputLength) (\<lambda>_.
     if takes_multi_row m n spread
     then bindE (tiled_multi_row C m values n) (\<lambda>output.
          case output of Some output \<Rightarrow> Inr output | None \<Rightarrow> Inr (cd_apply C m values n))
     else Inr (cd_apply C m values n))"

text \<open>The same for a tensor of any rank, given its dimensions and its elements.\<close>

definition forward_spread ::
    "('w, 'q, 'a, 'f) kernels \<Rightarrow> qmatrix \<Rightarrow> nat list \<Rightarrow> 'f list \<Rightarrow> row_spread \<Rightarrow> matmul_error + nat list \<times> 'f list" where
  "forward_spread C m dims values spread =
     bindE (ensure (2 \<le> length dims) BadRank) (\<lambda>_.
     bindE (ensure (last dims = qm_columns m) BadWidth) (\<lambda>_.
     let n = length values div qm_columns m;
         shape = butlast dims @ [qm_rows m] in
     if takes_multi_row m n spread
     then bindE (tiled_multi_row C m values n) (\<lambda>output.
          case output of Some output \<Rightarrow> Inr (shape, output) | None \<Rightarrow> Inr (shape, cd_apply C m values n))
     else Inr (shape, cd_apply C m values n)))"

section \<open>What a lane computes\<close>

text \<open>One weight row against one input row: no other row, tile or width occurs in it.\<close>

definition lane_dot :: "('w, 'q, 'a, 'f) lane_kernel \<Rightarrow> 'w list \<Rightarrow> (nat \<Rightarrow> 'q) \<Rightarrow> 'f" where
  "lane_dot K weight input = lk_finish K (fold (\<lambda>(block, w). lk_step K w (input block)) (enumerate 0 weight) (lk_init K))"

lemma fold_tile_step:
  "length acc = width \<Longrightarrow> fold (tile_step K inputs rows base) bs acc
    = map (\<lambda>lane. fold (\<lambda>(block, w). lk_step K w (inputs ! (block * rows + base + lane))) bs (acc ! lane)) [0..<width]"
proof (induction bs arbitrary: acc)
  case Nil
  then show ?case by (auto intro: nth_equalityI)
next
  case (Cons b bs)
  obtain block w where b: "b = (block, w)" by (cases b)
  have "length (tile_step K inputs rows base b acc) = width" using Cons.prems b by (simp add: tile_step_def)
  from Cons.IH [OF this] show ?case using Cons.prems b by (simp add: tile_step_def)
qed

lemma fused_tile_lanes:
  "fused_tile K weight inputs rows base width
    = map (\<lambda>lane. lane_dot K weight (\<lambda>block. inputs ! (block * rows + (base + lane)))) [0..<width]"
  by (simp add: fused_tile_def fold_tile_step lane_dot_def add.assoc)

lemma fused_row_lanes:
  "base \<le> rows \<Longrightarrow> fused_row K weight inputs rows base
    = map (\<lambda>row. lane_dot K weight (\<lambda>block. inputs ! (block * rows + row))) [base..<rows]"
proof (induction K weight inputs rows base rule: fused_row.induct)
  case (1 K weight inputs rows base)
  have tile: "fused_tile K weight inputs rows base width
      = map (\<lambda>row. lane_dot K weight (\<lambda>block. inputs ! (block * rows + row))) [base..<base + width]" for width
    by (rule nth_equalityI) (simp_all add: fused_tile_lanes)
  show ?case
  proof (cases "base + TILE \<le> rows")
    case True
    then have "[base..<rows] = [base..<base + TILE] @ [base + TILE..<rows]" 
      using upt_add_eq_append [of base "base + TILE" "rows - (base + TILE)"] by simp
    with True 1 show ?thesis by (subst fused_row.simps) (simp add: tile)
  next
    case False
    with 1(2) show ?thesis by (subst fused_row.simps) (simp add: tile)
  qed
qed

section \<open>Layouts\<close>

lemma length_concat_uniform: "(\<And>i. i < n \<Longrightarrow> length (f i) = w) \<Longrightarrow> length (concat (map f [0..<n])) = n * w"
  by (induction n) simp_all

lemma row_of_concat:
  assumes "\<And>i. i < n \<Longrightarrow> length (f i) = w" "i < n"
  shows "row_of w (concat (map f [0..<n])) i = f i"
  using assms
proof (induction n)
  case (Suc n)
  have len: "length (concat (map f [0..<n])) = n * w" by (rule length_concat_uniform) (use Suc.prems in simp)
  show ?case
  proof (cases "i = n")
    case True
    then show ?thesis using Suc.prems(1) [of n] len by (simp add: slice_def)
  next
    case False
    then have i: "i < n" using Suc.prems(2) by simp
    then have "(i + 1) * w \<le> n * w" by (intro mult_le_mono1) simp
    then show ?thesis using Suc.IH [OF _ i] Suc.prems(1) len by (simp add: slice_append1)
  qed
qed simp

lemma nth_concat_uniform:
  assumes "\<And>i. i < n \<Longrightarrow> length (f i) = w" "i < n" "j < w"
  shows "concat (map f [0..<n]) ! (i * w + j) = f i ! j"
proof -
  have "i * w + w \<le> n * w" using assms(2) by (metis Suc_leI add.commute mult_Suc mult_le_mono1)
  then have "row_of w (concat (map f [0..<n])) i ! j = concat (map f [0..<n]) ! (i * w + j)"
    using assms(3) length_concat_uniform [OF assms(1)] by (intro nth_slice) (simp_all add: algebra_simps)
  with row_of_concat [OF assms(1,2)] show ?thesis by simp
qed

lemma nth_pack: "row < n \<Longrightarrow> block < blocks \<Longrightarrow> pack_inputs blocks n inputs ! (block * n + row) = inputs ! (row * blocks + block)"
  unfolding pack_inputs_def by (subst nth_concat_uniform [where w = n]) simp_all

lemma untranspose_rows:
  "untranspose rows n (concat (map (\<lambda>output_row. map (g output_row) [0..<n]) [0..<rows]))
    = concat (map (\<lambda>input_row. map (\<lambda>output_row. g output_row input_row) [0..<rows]) [0..<n])"
proof -
  have "concat (map (\<lambda>output_row. map (g output_row) [0..<n]) [0..<rows]) ! (output_row * n + input_row) = g output_row input_row"
    if "input_row < n" "output_row < rows" for input_row output_row
    using that by (subst nth_concat_uniform [where w = n]) simp_all
  then show ?thesis unfolding untranspose_def by (intro arg_cong [where f = concat] map_cong) simp_all
qed

section \<open>Every path computes the rows\<close>

text \<open>
  What the library and the build promise: a quantized row has its blocks; Candle's product of many
  rows is that of each (its generic loop); on the block formats it is \<open>vec_dot\<close> of each weight row
  with the quantized input; and the lanes of the fused kernels accumulate as \<open>vec_dot\<close> does, the
  condition without which \<open>require_exact_kernels\<close> refuses to open a checkpoint.
\<close>

definition block_format :: "ggml_dtype \<Rightarrow> bool" where
  "block_format d \<longleftrightarrow> d \<in> {Q4K, Q5K, Q6K, Q8_0}"

definition fused_format :: "ggml_dtype \<Rightarrow> bool" where
  "fused_format d \<longleftrightarrow> d \<in> {Q4K, Q6K, Q8_0}"

definition exact_kernels :: "('w, 'q, 'a, 'f) kernels \<Rightarrow> bool" where
  "exact_kernels C \<longleftrightarrow>
     (\<forall>d x. length (cd_quantize C d x) = (length x + cd_block_size C d - 1) div cd_block_size C d)
   \<and> (\<forall>m xs n. length xs = n * qm_columns m \<longrightarrow>
        cd_apply C m xs n = concat (map (\<lambda>i. cd_apply C m (row_of (qm_columns m) xs i) 1) [0..<n]))
   \<and> (\<forall>m x weights. block_format (qm_dtype m) \<longrightarrow> weight_blocks C (qm_dtype m) m = Inr weights \<longrightarrow> length x = qm_columns m \<longrightarrow>
        cd_apply C m x 1 = map (\<lambda>o'. cd_vec_dot C (qm_dtype m) (qm_columns m) (row_of (blocks_per_row C m) weights o')
          (cd_quantize C (qm_dtype m) x)) [0..<qm_rows m])
   \<and> (\<forall>d columns weight input. kn_supported C \<longrightarrow> fused_format d \<longrightarrow> length weight = length input \<longrightarrow>
        lane_dot (kn_fused C d) weight ((!) input) = cd_vec_dot C d columns weight input)"

lemma exact_kernelsD:
  assumes "exact_kernels C"
  shows "length (cd_quantize C d x) = (length x + cd_block_size C d - 1) div cd_block_size C d"
    and "length xs = n * qm_columns m \<Longrightarrow>
        cd_apply C m xs n = concat (map (\<lambda>i. cd_apply C m (row_of (qm_columns m) xs i) 1) [0..<n])"
    and "block_format (qm_dtype m) \<Longrightarrow> weight_blocks C (qm_dtype m) m = Inr weights \<Longrightarrow> length x = qm_columns m \<Longrightarrow>
        cd_apply C m x 1 = map (\<lambda>o'. cd_vec_dot C (qm_dtype m) (qm_columns m) (row_of (blocks_per_row C m) weights o')
          (cd_quantize C (qm_dtype m) x)) [0..<qm_rows m]"
    and "kn_supported C \<Longrightarrow> fused_format d \<Longrightarrow> length weight = length input \<Longrightarrow>
        lane_dot (kn_fused C d) weight ((!) input) = cd_vec_dot C d columns weight input"
  using assms unfolding exact_kernels_def by blast+

text \<open>A matrix that was accepted when it was read.\<close>

definition blocks_ok :: "('w, 'q, 'a, 'f) kernels \<Rightarrow> qmatrix \<Rightarrow> bool" where
  "blocks_ok C m \<longleftrightarrow> (block_format (qm_dtype m) \<longrightarrow> (\<exists>weights. weight_blocks C (qm_dtype m) m = Inr weights))"

abbreviation one_row :: "('w, 'q, 'a, 'f) kernels \<Rightarrow> qmatrix \<Rightarrow> 'f list \<Rightarrow> nat \<Rightarrow> 'f list" where
  "one_row C m xs i \<equiv> cd_apply C m (row_of (qm_columns m) xs i) 1"

lemma length_row_of:
  assumes "length xs = n * width" "i < n"
  shows "length (row_of width xs i) = width"
proof -
  have "(i + 1) * width \<le> length xs" unfolding assms(1) by (rule mult_le_mono1) (use assms(2) in simp)
  then show ?thesis by simp
qed

lemma length_weight_blocks: "weight_blocks C d m = Inr weights \<Longrightarrow> length weights = qm_rows m * blocks_per_row C m"
  by (auto simp: weight_blocks_def bindE_Inr_iff ensure_def split: option.splits if_splits)

lemma quantized_rows:
  assumes "exact_kernels C" "length xs = n * qm_columns m" "i < n"
  shows "row_of (blocks_per_row C m) (quantized_inputs C m xs n) i = cd_quantize C (qm_dtype m) (row_of (qm_columns m) xs i)"
    and "block < blocks_per_row C m \<Longrightarrow> quantized_inputs C m xs n ! (i * blocks_per_row C m + block)
      = cd_quantize C (qm_dtype m) (row_of (qm_columns m) xs i) ! block"
proof -
  have len: "length (cd_quantize C (qm_dtype m) (row_of (qm_columns m) xs i)) = blocks_per_row C m" if "i < n" for i
    using exact_kernelsD(1) [OF assms(1)] length_row_of [OF assms(2) that] by (simp only: blocks_per_row_def)
  show "row_of (blocks_per_row C m) (quantized_inputs C m xs n) i = cd_quantize C (qm_dtype m) (row_of (qm_columns m) xs i)"
    unfolding quantized_inputs_def by (rule row_of_concat [OF len assms(3)])
  show "quantized_inputs C m xs n ! (i * blocks_per_row C m + block) = cd_quantize C (qm_dtype m) (row_of (qm_columns m) xs i) ! block"
    if "block < blocks_per_row C m"
    unfolding quantized_inputs_def by (rule nth_concat_uniform [OF len assms(3) that])
qed

lemma small_m_rows:
  assumes "exact_kernels C" "block_format (qm_dtype m)" "weight_blocks C (qm_dtype m) m = Inr weights" "length xs = n * qm_columns m"
  shows "small_m_forward C (qm_dtype m) m xs n = Inr (concat (map (one_row C m xs) [0..<n]))"
proof -
  have row: "map (\<lambda>o'. cd_vec_dot C (qm_dtype m) (qm_columns m) (row_of (blocks_per_row C m) weights o')
      (row_of (blocks_per_row C m) (quantized_inputs C m xs n) i)) [0..<qm_rows m] = one_row C m xs i" if "i < n" for i
    unfolding quantized_rows(1) [OF assms(1,4) that] exact_kernelsD(3) [OF assms(1-3) length_row_of [OF assms(4) that]] ..
  show ?thesis unfolding small_m_forward_def assms(3) bindE_simps Let_def untranspose_rows
    by (intro arg_cong [where f = Inr] arg_cong [where f = concat] map_cong refl, rule row) simp
qed

lemma fused_lane:
  assumes "exact_kernels C" "kn_supported C" "fused_format (qm_dtype m)" "weight_blocks C (qm_dtype m) m = Inr weights"
    and "length xs = n * qm_columns m" "i < n" "o' < qm_rows m"
  shows "lane_dot (kn_fused C (qm_dtype m)) (row_of (blocks_per_row C m) weights o')
      (\<lambda>block. pack_inputs (blocks_per_row C m) n (quantized_inputs C m xs n) ! (block * n + i))
    = cd_vec_dot C (qm_dtype m) (qm_columns m) (row_of (blocks_per_row C m) weights o')
        (cd_quantize C (qm_dtype m) (row_of (qm_columns m) xs i))"
proof -
  let ?q = "cd_quantize C (qm_dtype m) (row_of (qm_columns m) xs i)"
  have weight: "length (row_of (blocks_per_row C m) weights o') = blocks_per_row C m"
    by (rule length_row_of [OF length_weight_blocks [OF assms(4)] assms(7)])
  have input: "length ?q = blocks_per_row C m"
    using exact_kernelsD(1) [OF assms(1)] length_row_of [OF assms(5,6)] by (simp only: blocks_per_row_def)
  have same: "pack_inputs (blocks_per_row C m) n (quantized_inputs C m xs n) ! (block * n + i) = ?q ! block"
    if "block < blocks_per_row C m" for block
    unfolding nth_pack [OF assms(6) that] by (rule quantized_rows(2) [OF assms(1,5,6) that])
  have "fold (\<lambda>(block, w). lk_step (kn_fused C (qm_dtype m)) w (pack_inputs (blocks_per_row C m) n (quantized_inputs C m xs n) ! (block * n + i)))
        (enumerate 0 (row_of (blocks_per_row C m) weights o')) a
      = fold (\<lambda>(block, w). lk_step (kn_fused C (qm_dtype m)) w (?q ! block)) (enumerate 0 (row_of (blocks_per_row C m) weights o')) a" for a
    by (rule fold_cong) (use same weight in \<open>auto simp: in_set_enumerate_eq\<close>)
  then have "lane_dot (kn_fused C (qm_dtype m)) (row_of (blocks_per_row C m) weights o')
      (\<lambda>block. pack_inputs (blocks_per_row C m) n (quantized_inputs C m xs n) ! (block * n + i))
    = lane_dot (kn_fused C (qm_dtype m)) (row_of (blocks_per_row C m) weights o') ((!) ?q)" unfolding lane_dot_def by simp
  then show ?thesis using exact_kernelsD(4) [OF assms(1-3)] weight input by simp
qed

lemma fused_rows:
  assumes "exact_kernels C" "kn_supported C" "fused_format (qm_dtype m)" "weight_blocks C (qm_dtype m) m = Inr weights"
    and "length xs = n * qm_columns m"
  shows "fused_forward C (qm_dtype m) m xs n = Inr (concat (map (one_row C m xs) [0..<n]))"
proof -
  have block: "block_format (qm_dtype m)" using assms(3) by (auto simp: fused_format_def block_format_def)
  have row: "map (\<lambda>o'. lane_dot (kn_fused C (qm_dtype m)) (row_of (blocks_per_row C m) weights o')
      (\<lambda>block. pack_inputs (blocks_per_row C m) n (quantized_inputs C m xs n) ! (block * n + i))) [0..<qm_rows m]
    = one_row C m xs i" if "i < n" for i
    unfolding exact_kernelsD(3) [OF assms(1) block assms(4) length_row_of [OF assms(5) that]]
    by (intro map_cong refl, rule fused_lane [OF assms that]) simp
  show ?thesis
    unfolding fused_forward_def assms(4) bindE_simps Let_def fused_row_lanes [OF le0] untranspose_rows
    by (intro arg_cong [where f = Inr] arg_cong [where f = concat] map_cong refl, rule row) simp
qed

lemma multi_row_rows:
  assumes "exact_kernels C" "blocks_ok C m" "length xs = n * qm_columns m"
  shows "multi_row_forward C m xs n path = Inr (if block_format (qm_dtype m) then Some (concat (map (one_row C m xs) [0..<n])) else None)"
proof (cases "block_format (qm_dtype m)")
  case True
  then obtain weights where w: "weight_blocks C (qm_dtype m) m = Inr weights" using assms(2) by (auto simp: blocks_ok_def)
  note small = small_m_rows [OF assms(1) True w assms(3)]
  note fused = fused_rows [OF assms(1) _ _ w assms(3)]
  from True consider "qm_dtype m = Q5K" | "fused_format (qm_dtype m)" by (auto simp: block_format_def fused_format_def)
  then show ?thesis
  proof cases
    case 1
    with True small show ?thesis by (simp add: multi_row_forward_def)
  next
    case 2
    have "multi_row_forward C m xs n path = bindE (if path = Fused \<and> kn_supported C then fused_forward C (qm_dtype m) m xs n
        else small_m_forward C (qm_dtype m) m xs n) (\<lambda>output. Inr (Some output))"
      using 2 by (auto simp: multi_row_forward_def fused_format_def)
    with True small fused [OF _ 2] show ?thesis by simp
  qed
next
  case False
  then show ?thesis by (cases "qm_dtype m") (simp_all add: multi_row_forward_def block_format_def)
qed

lemma slice_slice: "b \<le> d - c \<Longrightarrow> slice (slice xs c d) a b = slice xs (c + a) (c + b)"
  by (simp add: slice_def drop_take) (simp add: add.commute)

lemma row_of_tile:
  assumes "i < rows"
  shows "row_of width (slice xs (start * width) ((start + rows) * width)) i = row_of width xs (start + i)"
proof -
  have "(i + 1) * width \<le> rows * width" by (rule mult_le_mono1) (use assms in simp)
  then show ?thesis by (subst slice_slice) (simp_all add: algebra_simps)
qed

lemma tile_rows_bounds: "0 < remaining \<Longrightarrow> 0 < tile_rows remaining \<and> tile_rows remaining \<le> remaining"
  by (auto simp: tile_rows_def MULTI_ROW_TILE_def)

text \<open>No tile of several is a single row.\<close>

lemma tile_rows_single: "tile_rows remaining = 1 \<Longrightarrow> remaining = 1"
  by (auto simp: tile_rows_def MULTI_ROW_TILE_def split: if_splits)

lemma tiled_rows:
  assumes "exact_kernels C" "blocks_ok C m" "length xs = n * qm_columns m" "block_format (qm_dtype m)"
  shows "start \<le> n \<Longrightarrow> tiled_loop C m xs n start acc = Inr (Some (acc @ concat (map (one_row C m xs) [start..<n])))"
proof (induction "n - start" arbitrary: start acc rule: less_induct)
  case less
  show ?case
  proof (cases "start = n")
    case True
    then show ?thesis by (subst tiled_loop.simps) simp
  next
    case False
    let ?rows = "tile_rows (n - start)"
    have rows: "0 < ?rows" "start + ?rows \<le> n" using tile_rows_bounds [of "n - start"] less.prems False by linarith+
    let ?tile = "slice xs (start * qm_columns m) ((start + ?rows) * qm_columns m)"
    have "(start + ?rows) * qm_columns m \<le> length xs" unfolding assms(3) by (rule mult_le_mono1 [OF rows(2)])
    then have len: "length ?tile = ?rows * qm_columns m" by (simp add: algebra_simps)
    have "map (one_row C m ?tile) [0..<?rows] = map (\<lambda>i. one_row C m xs (start + i)) [0..<?rows]"
      by (intro map_cong refl, subst row_of_tile) simp_all
    also have "\<dots> = map (one_row C m xs) [start..<start + ?rows]"
      by (rule nth_equalityI) simp_all
    finally have tile: "multi_row_forward C m ?tile ?rows Fused = Inr (Some (concat (map (one_row C m xs) [start..<start + ?rows])))"
      using multi_row_rows [OF assms(1,2) len, of Fused] assms(4) by (simp only: if_True)
    have rest: "[start..<n] = [start..<start + ?rows] @ [start + ?rows..<n]"
      using upt_add_eq_append [of start "start + ?rows" "n - (start + ?rows)"] rows by simp
    have more: "(n \<le> start) = False" using less.prems False by simp
    have "tiled_loop C m xs n start acc
        = tiled_loop C m xs n (start + ?rows) (acc @ concat (map (one_row C m xs) [start..<start + ?rows]))"
      using more by (subst tiled_loop.simps) (simp only: Let_def tile bindE_simps option.case if_False)
    also have "\<dots> = Inr (Some (acc @ concat (map (one_row C m xs) [start..<n])))"
      using rows less.prems False by (subst less.hyps) (simp_all add: rest)
    finally show ?thesis .
  qed
qed

section \<open>Properties\<close>

text \<open>
  C18. A pass of any width computes each of its rows as a one-row pass would. Whether the rows go to
  Candle or to a multi-row kernel, on the pool or on the calling thread, in however many tiles,
  decoded by the fused or by the per-row kernel, the output is the concatenation of the one-row
  products, given that the kernels of the build are exact. So no output row depends on the other
  rows of its pass, and the layers may take a matrix as a function of one row.
\<close>

theorem dispatch_is_row_wise:
  assumes "exact_kernels C" "blocks_ok C m" "length values = n * qm_columns m"
  shows "forward_rows C m values n spread
    = Inr (concat (map (\<lambda>i. cd_apply C m (slice values (i * qm_columns m) ((i + 1) * qm_columns m)) 1) [0..<n]))"
proof -
  have candle: "cd_apply C m values n = concat (map (one_row C m values) [0..<n])" by (rule exact_kernelsD(2) [OF assms(1,3)])
  have tiled: "tiled_multi_row C m values n = Inr (if block_format (qm_dtype m) then Some (cd_apply C m values n) else None)"
    if "0 < n"
  proof (cases "block_format (qm_dtype m)")
    case True
    then show ?thesis using tiled_rows [OF assms True le0, of "[]"] by (simp add: tiled_multi_row_def candle)
  next
    case False
    have "\<exists>xs. length xs = tile_rows n * qm_columns m \<and> slice values (0 * qm_columns m) ((0 + tile_rows n) * qm_columns m) = xs"
      using tile_rows_bounds [OF that] assms(3) by (simp add: mult_le_mono1)
    then have "multi_row_forward C m (slice values (0 * qm_columns m) ((0 + tile_rows n) * qm_columns m)) (tile_rows n) Fused = Inr None"
      using multi_row_rows [OF assms(1,2)] False by fastforce
    with that False show ?thesis unfolding tiled_multi_row_def by (subst tiled_loop.simps) (simp add: Let_def)
  qed
  have empty: "tiled_multi_row C m values 0 = Inr (Some [])" unfolding tiled_multi_row_def by (subst tiled_loop.simps) simp
  show ?thesis
    using assms(3) tiled empty candle by (cases "n = 0") (auto simp: forward_rows_def ensure_def)
qed

text \<open>Integer kernels of one weight per block, and a matrix of two rows.\<close>

definition int_lane :: "(int, int, int, int) lane_kernel" where
  "int_lane = \<lparr>lk_init = 0, lk_step = (\<lambda>w q acc. acc + w * q), lk_finish = (\<lambda>acc. acc)\<rparr>"

definition int_row :: "qmatrix \<Rightarrow> int list \<Rightarrow> int list" where
  "int_row m x = map (\<lambda>o'. lane_dot int_lane (slice (map uint (qm_data m)) (o' * qm_columns m) ((o' + 1) * qm_columns m)) ((!) x)) [0..<qm_rows m]"

definition int_kernels :: "(int, int, int, int) kernels" where
  "int_kernels = \<lparr>kn_supported = True, kn_fused = (\<lambda>d. int_lane), cd_block_size = (\<lambda>d. 1), cd_view = (\<lambda>d raw. Some (map uint raw)),
     cd_quantize = (\<lambda>d x. x), cd_vec_dot = (\<lambda>d columns weight input. lane_dot int_lane weight ((!) input)),
     cd_apply = (\<lambda>m xs n. concat (map (\<lambda>i. int_row m (slice xs (i * qm_columns m) ((i + 1) * qm_columns m))) [0..<n]))\<rparr>"

lemma int_kernels_exact: "exact_kernels int_kernels"
proof -
  have one: "cd_apply int_kernels m x 1 = int_row m (slice x 0 (qm_columns m))" for m x by (simp add: int_kernels_def)
  have full: "slice x 0 (qm_columns m) = x" if "length x = qm_columns m" for x :: "int list" and m using that slice_full [of x] by simp
  have blocks: "weights = map uint (qm_data m)" if "weight_blocks int_kernels d m = Inr weights" for d m weights
    using that by (auto simp: weight_blocks_def int_kernels_def bindE_Inr_iff ensure_def split: if_splits)
  have rows: "cd_apply int_kernels m xs n = concat (map (\<lambda>i. cd_apply int_kernels m (row_of (qm_columns m) xs i) 1) [0..<n])"
    if "length xs = n * qm_columns m" for m xs n
  proof -
    have "cd_apply int_kernels m (row_of (qm_columns m) xs i) 1 = int_row m (row_of (qm_columns m) xs i)" if "i < n" for i
      unfolding one by (subst full) (simp_all only: length_row_of [OF \<open>length xs = n * qm_columns m\<close> that])
    then have "map (\<lambda>i. cd_apply int_kernels m (row_of (qm_columns m) xs i) 1) [0..<n] = map (\<lambda>i. int_row m (row_of (qm_columns m) xs i)) [0..<n]"
      by (intro map_cong) (simp_all only: set_upt atLeastLessThan_iff)
    then show ?thesis by (simp only: int_kernels_def kernels.simps)
  qed
  have width: "blocks_per_row int_kernels m = qm_columns m" for m by (simp add: blocks_per_row_def int_kernels_def)
  have dots: "cd_apply int_kernels m x 1 = map (\<lambda>o'. cd_vec_dot int_kernels (qm_dtype m) (qm_columns m) (row_of (blocks_per_row int_kernels m) weights o')
      (cd_quantize int_kernels (qm_dtype m) x)) [0..<qm_rows m]"
    if "weight_blocks int_kernels (qm_dtype m) m = Inr weights" "length x = qm_columns m" for m x weights
    unfolding one full [OF that(2)] blocks [OF that(1)] width int_row_def by (simp add: int_kernels_def)
  show ?thesis unfolding exact_kernels_def using rows dots by (simp add: int_kernels_def)
qed

definition two_rows :: qmatrix where
  "two_rows = \<lparr>qm_dtype = Q4K, qm_rows = 2, qm_columns = 2, qm_data = [1, 2, 3, 4]\<rparr>"

lemma dispatch_is_row_wise_witness:
  "forward_rows int_kernels two_rows [1, 0, 0, 1, 1, 1] 3 Caller = Inr [1, 3, 2, 4, 3, 7]
    \<and> takes_multi_row two_rows 3 Caller \<and> \<not> takes_multi_row two_rows 1 Pool"
proof -
  have "blocks_ok int_kernels two_rows"
    by (simp add: blocks_ok_def weight_blocks_def two_rows_def int_kernels_def blocks_per_row_def ensure_def)
  from dispatch_is_row_wise [OF int_kernels_exact this, of "[1, 0, 0, 1, 1, 1]" 3 Caller]
  have "forward_rows int_kernels two_rows [1, 0, 0, 1, 1, 1] 3 Caller
      = Inr (concat (map (\<lambda>i. cd_apply int_kernels two_rows (slice [1, 0, 0, 1, 1, 1] (i * qm_columns two_rows) ((i + 1) * qm_columns two_rows)) 1) [0..<3]))"
    by (simp add: two_rows_def)
  also have "\<dots> = Inr [1, 3, 2, 4, 3, 7]" by code_simp
  finally show ?thesis by (simp add: takes_multi_row_def)
qed

end
