(* ===== verification/Floats.thy ===== *)
theory Floats
  imports Prelude
begin

text \<open>
  Floating point as the kernels use it. The arithmetic of \<open>f32\<close> and \<open>f64\<close> is the
  hardware's; here it is a record of operations about which \<^emph>\<open>nothing\<close> is assumed: no
  associativity, no ordering law, no identity of zero. A theorem that two kernels agree is
  therefore a theorem that they perform the same operations on the same operands in the
  same order, which is what the sources mean by ``bit-identical''.

  The loops of the kernels are folds in iteration order; \<open>zip_mut\<close> is the source's
  \<open>for (x, y) in xs.iter_mut().zip(ys) { *x = f(*x, *y) }\<close>.
\<close>

record 'f fops =
  f_zero :: 'f
  f_one :: 'f
  f_sum0 :: 'f
  f_neg_inf :: 'f
  f_of_nat :: "nat \<Rightarrow> 'f"
  f_add :: "'f \<Rightarrow> 'f \<Rightarrow> 'f"
  f_sub :: "'f \<Rightarrow> 'f \<Rightarrow> 'f"
  f_mul :: "'f \<Rightarrow> 'f \<Rightarrow> 'f"
  f_div :: "'f \<Rightarrow> 'f \<Rightarrow> 'f"
  f_max :: "'f \<Rightarrow> 'f \<Rightarrow> 'f"
  f_neg :: "'f \<Rightarrow> 'f"
  f_exp :: "'f \<Rightarrow> 'f"
  f_ln_1p :: "'f \<Rightarrow> 'f"
  f_sqrt :: "'f \<Rightarrow> 'f"
  f_recip :: "'f \<Rightarrow> 'f"
  f_lt :: "'f \<Rightarrow> 'f \<Rightarrow> bool"
  f_le :: "'f \<Rightarrow> 'f \<Rightarrow> bool"
  f_finite :: "'f \<Rightarrow> bool"
  f_lit :: "nat \<Rightarrow> nat \<Rightarrow> 'f"

text \<open>
  \<open>f_lit F m k\<close> is the literal \<open>m / 10^k\<close>. \<open>==\<close> holds between two floats exactly when
  \<open>\<le>\<close> holds both ways (so never of a NaN), and \<open>max_by\<close> with \<open>partial_cmp\<close>, unordered read as
  equal, keeps the running maximum only when it is strictly greater: the last of the maxima.
\<close>

definition f_eq :: "'f fops \<Rightarrow> 'f \<Rightarrow> 'f \<Rightarrow> bool" where
  "f_eq F a b = (f_le F a b \<and> f_le F b a)"

definition max_by :: "('a \<Rightarrow> 'a \<Rightarrow> bool) \<Rightarrow> 'a list \<Rightarrow> 'a option" where
  "max_by lt xs = foldl (\<lambda>best x. case best of None \<Rightarrow> Some x | Some b \<Rightarrow> Some (if lt x b then b else x)) None xs"

definition zip_mut :: "('a \<Rightarrow> 'b \<Rightarrow> 'a) \<Rightarrow> 'a list \<Rightarrow> 'b list \<Rightarrow> 'a list" where
  "zip_mut f xs ys = map2 f xs ys @ drop (length ys) xs"

lemma length_zip_mut [simp]: "length (zip_mut f xs ys) = length xs"
  by (simp add: zip_mut_def)

lemma nth_zip_mut:
  "i < length xs \<Longrightarrow> zip_mut f xs ys ! i = (if i < length ys then f (xs ! i) (ys ! i) else xs ! i)"
  by (auto simp: zip_mut_def nth_append)

lemma zip_mut_same_length: "length ys = length xs \<Longrightarrow> zip_mut f xs ys = map2 f xs ys"
  by (simp add: zip_mut_def)

text \<open>\<open>iter().sum::<f32>()\<close>.\<close>

definition f_sum :: "'f fops \<Rightarrow> 'f list \<Rightarrow> 'f" where
  "f_sum F xs = foldl (f_add F) (f_sum0 F) xs"

text \<open>\<open>1. / (1. + (-value).exp())\<close>, and the activations built from it.\<close>

definition sigmoid :: "'f fops \<Rightarrow> 'f \<Rightarrow> 'f" where
  "sigmoid F v = f_div F (f_one F) (f_add F (f_one F) (f_exp F (f_neg F v)))"

definition silu :: "'f fops \<Rightarrow> 'f \<Rightarrow> 'f" where
  "silu F v = f_mul F v (sigmoid F v)"

definition softplus :: "'f fops \<Rightarrow> 'f \<Rightarrow> 'f" where
  "softplus F v =
     (if f_lt F (f_of_nat F 20) v then v
      else if f_lt F v (f_neg F (f_of_nat F 20)) then f_exp F v
      else f_ln_1p F (f_exp F v))"

text \<open>\<open>chunks(n)\<close> and \<open>chunks_exact(n)\<close> for \<open>n > 0\<close>.\<close>

function chunks :: "nat \<Rightarrow> 'a list \<Rightarrow> 'a list list" where
  "chunks n xs = (if xs = [] \<or> n = 0 then [] else take n xs # chunks n (drop n xs))"
  by auto
termination by (relation "measure (\<lambda>(n, xs). length xs)") (auto simp: length_greater_0_conv)

declare chunks.simps [simp del]

lemma chunks_Nil [simp]: "chunks n [] = []"
  by (simp add: chunks.simps)

lemma concat_chunks: "0 < n \<Longrightarrow> concat (chunks n xs) = xs"
proof (induction n xs rule: chunks.induct)
  case (1 n xs)
  then show ?case by (subst chunks.simps) simp
qed

lemma chunks_append:
  "0 < n \<Longrightarrow> length xs = n * k \<Longrightarrow> chunks n (xs @ ys) = chunks n xs @ chunks n ys"
proof (induction k arbitrary: xs)
  case 0
  then show ?case by simp
next
  case (Suc k)
  then have ge: "n \<le> length xs" "xs \<noteq> []" by auto
  from Suc have "chunks n (drop n xs @ ys) = chunks n (drop n xs) @ chunks n ys"
    by simp
  with ge Suc.prems show ?case
    by (subst (1 2) chunks.simps) simp
qed

lemma chunks_nonempty: "c \<in> set (chunks n xs) \<Longrightarrow> c \<noteq> []"
proof (induction n xs rule: chunks.induct)
  case (1 n xs)
  then show ?case by (subst (asm) (2) chunks.simps) (auto split: if_splits)
qed

lemma length_chunks_le: "c \<in> set (chunks n xs) \<Longrightarrow> length c \<le> n"
proof (induction n xs rule: chunks.induct)
  case (1 n xs)
  then show ?case by (subst (asm) (2) chunks.simps) (auto split: if_splits)
qed

lemma chunks_concat:
  "0 < n \<Longrightarrow> (\<And>r. r \<in> set rs \<Longrightarrow> length r = n) \<Longrightarrow> chunks n (concat rs) = rs"
proof (induction rs)
  case (Cons r rs)
  then have "length r = n" "chunks n (concat rs) = rs" by simp_all
  with Cons.prems(1) show ?case by (subst chunks.simps) auto
qed simp

text \<open>\<open>flat[i * width..(i + 1) * width]\<close>: row \<open>i\<close> of a flat row-major buffer.\<close>

definition flat_row :: "'a list \<Rightarrow> nat \<Rightarrow> nat \<Rightarrow> 'a list" where
  "flat_row xs width i = slice xs (i * width) ((i + 1) * width)"

lemma length_flat_row: "(i + 1) * width \<le> length xs \<Longrightarrow> length (flat_row xs width i) = width"
  by (simp add: flat_row_def)

lemma flat_row_append1: "(i + 1) * width \<le> length xs \<Longrightarrow> flat_row (xs @ ys) width i = flat_row xs width i"
  by (simp add: flat_row_def slice_def)

lemma flat_row_take:
  "(i + 1) * width \<le> n \<Longrightarrow> flat_row (take n xs) width i = flat_row xs width i"
  by (simp add: flat_row_def slice_def drop_take)

lemma flat_row_concat:
  assumes "\<And>r. r \<in> set rs \<Longrightarrow> length r = width" "i < length rs"
  shows "flat_row (concat rs) width i = rs ! i"
  using assms
proof (induction rs arbitrary: i)
  case Nil
  then show ?case by simp
next
  case (Cons r rs)
  show ?case
  proof (cases i)
    case 0
    with Cons.prems show ?thesis by (simp add: flat_row_def slice_def)
  next
    case (Suc k)
    have "flat_row (concat (r # rs)) width i = flat_row (concat rs) width k"
      using Cons.prems(1) [of r] by (simp add: Suc flat_row_def slice_def)
    with Cons Suc show ?thesis by simp
  qed
qed

lemma length_concat_rows: "(\<And>r. r \<in> set rs \<Longrightarrow> length r = width) \<Longrightarrow> length (concat rs) = length rs * width"
  by (induction rs) auto

text \<open>
  An arithmetic on the integers, to evaluate the kernels on concrete inputs. Its functions
  are stand-ins for the hardware's; no property depends on them.
\<close>

definition int_fops :: "int fops" where
  "int_fops = \<lparr>f_zero = 0, f_one = 1, f_sum0 = 0, f_neg_inf = -1000, f_of_nat = int, f_add = (+), f_sub = (-),
     f_mul = (*), f_div = (\<lambda>x y. x - y div 2), f_max = max, f_neg = uminus, f_exp = (\<lambda>x. 2 * x + 3),
     f_ln_1p = (\<lambda>x. x), f_sqrt = (\<lambda>x. x + 1), f_recip = (\<lambda>x. x), f_lt = (<), f_le = (\<le>),
     f_finite = (\<lambda>x. x \<noteq> -1000), f_lit = (\<lambda>m k. int m div 10 ^ k)\<rparr>"

end
