(* ===== verification/Attention.thy ===== *)
theory Attention
  imports Floats
begin

text \<open>
  One full-attention layer, \<open>src/qwen/quantized_attention.rs\<close>: its append-only KV cache
  (\<open>attn_state\<close>, with truncation and images), the two scans over the cache, and the
  \<open>forward\<close> that appends a pass's rows and lets row \<open>t\<close> attend to everything up to itself.

  A tensor \<open>[seq, width]\<close> is a list of rows. The projection matrices act row by row
  and are fields of the layer; the rotary angle is the layer's field \<open>al_rope\<close>, position
  and pair index to (sine, cosine).
\<close>

section \<open>Errors\<close>

datatype model_error =
    EmptyForward
  | WrongModel
  | PositionLimit
  | CachePosition
  | CannotExtend
  | InconsistentStorage
  | StrideMismatch
  | SnapshotRows
  | SnapshotMissing
  | DimensionMismatch
  | LayerTypeMismatch
  | RollbackRange
  | ExpertFailure

section \<open>The KV cache\<close>

record 'f attn_state =
  as_keys :: "'f list"
  as_values :: "'f list"
  as_positions :: nat

record 'f attn_image =
  ai_keys :: "'f list"
  ai_values :: "'f list"
  ai_positions :: nat

definition attn_new :: "'f attn_state" where
  "attn_new = \<lparr>as_keys = [], as_values = [], as_positions = 0\<rparr>"

definition attn_image_validate :: "'f attn_image \<Rightarrow> model_error + unit" where
  "attn_image_validate im =
     (if ai_positions im = 0
      then ensure (ai_keys im = [] \<and> ai_values im = []) InconsistentStorage
      else ensure (ai_positions im dvd length (ai_keys im) \<and> ai_positions im dvd length (ai_values im))
             InconsistentStorage)"

definition attn_image :: "'f attn_state \<Rightarrow> 'f attn_image" where
  "attn_image st = \<lparr>ai_keys = as_keys st, ai_values = as_values st, ai_positions = as_positions st\<rparr>"

definition attn_restore_image :: "'f attn_state \<Rightarrow> 'f attn_image \<Rightarrow> model_error + 'f attn_state" where
  "attn_restore_image st im =
     bindE (attn_image_validate im) (\<lambda>_.
     bindE (if 0 < as_positions st \<and> 0 < ai_positions im
            then ensure (length (as_keys st) div as_positions st = length (ai_keys im) div ai_positions im)
                   StrideMismatch
            else Inr ()) (\<lambda>_.
     Inr \<lparr>as_keys = ai_keys im, as_values = ai_values im, as_positions = ai_positions im\<rparr>))"

definition attn_truncate :: "'f attn_state \<Rightarrow> nat \<Rightarrow> model_error + 'f attn_state" where
  "attn_truncate st positions =
     bindE (ensure (positions \<le> as_positions st) CannotExtend) (\<lambda>_.
     if positions = as_positions st then Inr st
     else if positions = 0 then Inr \<lparr>as_keys = [], as_values = [], as_positions = 0\<rparr>
     else bindE (ensure (as_positions st dvd length (as_keys st)
                     \<and> as_positions st dvd length (as_values st)) InconsistentStorage) (\<lambda>_.
       let keys_per_position = length (as_keys st) div as_positions st;
           values_per_position = length (as_values st) div as_positions st
       in Inr \<lparr>as_keys = take (positions * keys_per_position) (as_keys st),
               as_values = take (positions * values_per_position) (as_values st),
               as_positions = positions\<rparr>))"

section \<open>The scan\<close>

definition DOT_LANES :: nat where
  "DOT_LANES = 8"

definition MAX_GROUP :: nat where
  "MAX_GROUP = 32"

definition KV_BLOCKING_BYTES :: nat where
  "KV_BLOCKING_BYTES = 16 * 2 ^ 20"

definition SCORE_BUDGET :: nat where
  "SCORE_BUDGET = 2 ^ 20"

definition MIN_PAST_BLOCK :: nat where
  "MIN_PAST_BLOCK = 128"

definition MIN_COLUMN_BLOCK :: nat where
  "MIN_COLUMN_BLOCK = 16"

definition div_ceil :: "nat \<Rightarrow> nat \<Rightarrow> nat" where
  "div_ceil a b = (a + b - 1) div b"

definition next_multiple_of :: "nat \<Rightarrow> nat \<Rightarrow> nat" where
  "next_multiple_of a b = div_ceil a b * b"

definition split_block :: "nat \<Rightarrow> nat \<Rightarrow> nat \<Rightarrow> nat \<Rightarrow> nat" where
  "split_block extent planes threads grain =
     (let parts = max (div_ceil (2 * threads) (max planes 1)) 1
      in clamp (next_multiple_of (div_ceil extent parts) grain) grain (max extent grain))"

text \<open>
  \<open>dot\<close>: eight lane accumulators over the full chunks, then the serial tail, then the
  lanes in order.
\<close>

definition dot :: "'f fops \<Rightarrow> 'f list \<Rightarrow> 'f list \<Rightarrow> 'f" where
  "dot F query key =
     (let full = DOT_LANES * (length query div DOT_LANES);
          lanes = foldl (\<lambda>lanes (q, k). zip_mut (\<lambda>lane (x, y). f_add F lane (f_mul F x y)) lanes (zip q k))
                    (replicate DOT_LANES (f_zero F))
                    (zip (chunks DOT_LANES (take full query)) (chunks DOT_LANES (take full key)));
          serial = f_sum F (map2 (f_mul F) (drop full query) (drop full key))
      in foldl (f_add F) serial lanes)"

record 'f scan_shape =
  ss_seq :: nat
  ss_existing :: nat
  ss_query_heads :: nat
  ss_kv_heads :: nat
  ss_head_dim :: nat
  ss_scale :: 'f

definition groups :: "'f scan_shape \<Rightarrow> nat" where
  "groups sh = ss_query_heads sh div ss_kv_heads sh"

definition cache_bytes :: "'f scan_shape \<Rightarrow> nat" where
  "cache_bytes sh = (ss_existing sh + ss_seq sh) * ss_kv_heads sh * ss_head_dim sh * 2 * 4"

datatype scan_plan = PerHead | Blocked

definition plan :: "'f scan_shape \<Rightarrow> scan_plan" where
  "plan sh = (if 1 < groups sh \<and> groups sh \<le> MAX_GROUP \<and> KV_BLOCKING_BYTES \<le> cache_bytes sh
              then Blocked else PerHead)"

text \<open>The flat cache slice of position \<open>past\<close> and head \<open>kv_head\<close>.\<close>

definition cache_row :: "'f scan_shape \<Rightarrow> nat \<Rightarrow> 'f list \<Rightarrow> nat \<Rightarrow> 'f list" where
  "cache_row sh kv_head cache past =
     (let base = (past * ss_kv_heads sh + kv_head) * ss_head_dim sh
      in slice cache base (base + ss_head_dim sh))"

text \<open>One work item of the per-head scan, the \<open>(token, head)\<close> of \<open>row\<close>.\<close>

definition per_head_row ::
    "'f fops \<Rightarrow> 'f scan_shape \<Rightarrow> 'f list list list \<Rightarrow> 'f list list list \<Rightarrow> 'f list \<Rightarrow> 'f list
      \<Rightarrow> nat \<Rightarrow> 'f list" where
  "per_head_row F sh queries gates keys values row =
     (let token = row div ss_query_heads sh;
          head = row mod ss_query_heads sh;
          kv_head = head div groups sh;
          attend_to = ss_existing sh + token + 1;
          query = queries ! token ! head;
          scores = map (\<lambda>past. f_mul F (dot F query (cache_row sh kv_head keys past)) (ss_scale sh))
                     [0..<attend_to];
          mx = foldl (f_max F) (f_neg_inf F) scores;
          weights = map (\<lambda>s. f_exp F (f_sub F s mx)) scores;
          denominator = foldl (f_add F) (f_zero F) weights;
          out = foldl (\<lambda>out (past, weight).
                    let probability = f_div F weight denominator
                    in zip_mut (\<lambda>o1 v. f_add F o1 (f_mul F probability v)) out
                         (cache_row sh kv_head values past))
                  (replicate (ss_head_dim sh) (f_zero F)) (enumerate 0 weights)
      in zip_mut (\<lambda>o1 g. f_mul F o1 (sigmoid F g)) out (gates ! token ! head))"

definition per_head_scan ::
    "'f fops \<Rightarrow> 'f scan_shape \<Rightarrow> 'f list list list \<Rightarrow> 'f list list list \<Rightarrow> 'f list \<Rightarrow> 'f list \<Rightarrow> 'f list" where
  "per_head_scan F sh queries gates keys values =
     concat (map (per_head_row F sh queries gates keys values) [0..<ss_seq sh * ss_query_heads sh])"

text \<open>
  The blocked scan. A plane is one \<open>(token, kv head)\<close> pair; its score buffer is group-minor,
  so it is a list of slots, one per attended position, each \<open>groups\<close> wide; its accumulator
  is a list of columns, each \<open>groups\<close> wide. The buffers are scratch: a chunk of rows writes
  every slot it reads and zeroes the accumulator, so each plane is computed from fresh ones.
\<close>

definition plane_scores ::
    "'f fops \<Rightarrow> 'f scan_shape \<Rightarrow> 'f list list \<Rightarrow> 'f list \<Rightarrow> nat \<Rightarrow> nat \<Rightarrow> nat \<Rightarrow> 'f list list" where
  "plane_scores F sh heads keys kv_head past_block attend_to =
     concat (map (\<lambda>(block, buffer).
         let first_past = block * past_block
         in map (\<lambda>(offset, _).
              let key = cache_row sh kv_head keys (first_past + offset)
              in map (\<lambda>query. f_mul F (dot F query key) (ss_scale sh)) heads) (enumerate 0 buffer))
       (enumerate 0 (chunks past_block [0..<attend_to])))"

definition plane_softmax :: "'f fops \<Rightarrow> 'f list list \<Rightarrow> 'f list list" where
  "plane_softmax F plane =
     (let mx = foldl (zip_mut (f_max F)) (replicate MAX_GROUP (f_neg_inf F)) plane;
          weights = map (\<lambda>slot. zip_mut (\<lambda>s m. f_exp F (f_sub F s m)) slot mx) plane;
          denominator = foldl (zip_mut (f_add F)) (replicate MAX_GROUP (f_zero F)) weights
      in map (\<lambda>slot. zip_mut (f_div F) slot denominator) weights)"

definition weighted_sum ::
    "'f fops \<Rightarrow> 'f scan_shape \<Rightarrow> 'f list list \<Rightarrow> 'f list list \<Rightarrow> 'f list \<Rightarrow> nat \<Rightarrow> nat \<Rightarrow> 'f list list" where
  "weighted_sum F sh out probabilities values kv_head first_column =
     (let width = length out
      in foldl (\<lambda>out (past, weights).
            let base = (past * ss_kv_heads sh + kv_head) * ss_head_dim sh + first_column
            in zip_mut (\<lambda>column v. zip_mut (\<lambda>o1 w. f_add F o1 (f_mul F w v)) column weights) out
                 (slice values base (base + width)))
          out (enumerate 0 probabilities))"

definition plane_columns ::
    "'f fops \<Rightarrow> 'f scan_shape \<Rightarrow> 'f list list \<Rightarrow> 'f list \<Rightarrow> nat \<Rightarrow> nat \<Rightarrow> 'f list list" where
  "plane_columns F sh probabilities values kv_head column_block =
     concat (map (\<lambda>(block, out). weighted_sum F sh out probabilities values kv_head (block * column_block))
       (enumerate 0 (chunks column_block
          (replicate (ss_head_dim sh) (replicate (groups sh) (f_zero F))))))"

text \<open>One chunk of rows, from \<open>first_row\<close>: scores, softmax, weighted sum, gated gather.\<close>

definition blocked_chunk ::
    "'f fops \<Rightarrow> nat \<Rightarrow> 'f scan_shape \<Rightarrow> 'f list list list \<Rightarrow> 'f list list list \<Rightarrow> 'f list \<Rightarrow> 'f list
      \<Rightarrow> nat \<Rightarrow> nat \<Rightarrow> 'f list" where
  "blocked_chunk F threads sh queries gates keys values rows_per_chunk first_row =
     (let rows = min rows_per_chunk (ss_seq sh - first_row);
          planes = rows * ss_kv_heads sh;
          past_block = split_block (ss_existing sh + first_row + rows) planes threads MIN_PAST_BLOCK;
          column_block = split_block (ss_head_dim sh) planes threads MIN_COLUMN_BLOCK;
          accumulator = map (\<lambda>plane.
              let row = plane div ss_kv_heads sh;
                  kv_head = plane mod ss_kv_heads sh;
                  token = first_row + row;
                  attend_to = ss_existing sh + token + 1;
                  heads = slice (queries ! token) (kv_head * groups sh) ((kv_head + 1) * groups sh);
                  probabilities = plane_softmax F (plane_scores F sh heads keys kv_head past_block attend_to)
              in plane_columns F sh probabilities values kv_head column_block) [0..<planes]
      in concat (map (\<lambda>row.
           let token = first_row + row
           in concat (map (\<lambda>head.
                let kv_head = head div groups sh;
                    lane = head mod groups sh;
                    accumulated = accumulator ! (row * ss_kv_heads sh + kv_head)
                in map2 (\<lambda>column gate. f_mul F (accumulated ! column ! lane) (sigmoid F gate))
                     [0..<ss_head_dim sh] (gates ! token ! head)) [0..<ss_query_heads sh])) [0..<rows]))"

definition step_by :: "nat \<Rightarrow> nat \<Rightarrow> nat list" where
  "step_by n k = map (\<lambda>i. i * k) [0..<div_ceil n k]"

definition blocked_scan ::
    "'f fops \<Rightarrow> nat \<Rightarrow> 'f scan_shape \<Rightarrow> 'f list list list \<Rightarrow> 'f list list list \<Rightarrow> 'f list \<Rightarrow> 'f list \<Rightarrow> 'f list" where
  "blocked_scan F threads sh queries gates keys values =
     (let plane_stride = (ss_existing sh + ss_seq sh) * groups sh;
          rows_per_chunk = clamp (SCORE_BUDGET div (ss_kv_heads sh * plane_stride)) 1 (ss_seq sh)
      in concat (map (blocked_chunk F threads sh queries gates keys values rows_per_chunk)
           (step_by (ss_seq sh) rows_per_chunk)))"

section \<open>The layer\<close>

record 'f attn_layer =
  al_query_heads :: nat
  al_kv_heads :: nat
  al_head_dim :: nat
  al_rotary_dim :: nat
  al_rope :: "nat \<Rightarrow> nat \<Rightarrow> 'f \<times> 'f"
  al_eps :: 'f
  al_query :: "'f list \<Rightarrow> 'f list"
  al_key :: "'f list \<Rightarrow> 'f list"
  al_value :: "'f list \<Rightarrow> 'f list"
  al_output :: "'f list \<Rightarrow> 'f list"
  al_query_norm :: "'f list"
  al_key_norm :: "'f list"

definition converted_norm :: "'f fops \<Rightarrow> 'f list \<Rightarrow> 'f list \<Rightarrow> 'f \<Rightarrow> 'f list" where
  "converted_norm F values weight eps =
     (let variance = f_div F (f_sum F (map (\<lambda>v. f_mul F v v) values)) (f_of_nat F (length values));
          scale = f_recip F (f_sqrt F (f_add F variance eps))
      in zip_mut (\<lambda>v w. f_mul F (f_mul F v scale) w) values weight)"

definition apply_rope :: "'f fops \<Rightarrow> (nat \<Rightarrow> nat \<Rightarrow> 'f \<times> 'f) \<Rightarrow> 'f list \<Rightarrow> nat \<Rightarrow> nat \<Rightarrow> 'f list" where
  "apply_rope F rope values pos rotary_dim =
     (let half = rotary_dim div 2;
          original = take rotary_dim values
      in fold (\<lambda>index vs.
           let (sin, cos) = rope pos index
           in vs[index := f_sub F (f_mul F (original ! index) cos) (f_mul F (original ! (half + index)) sin),
                 half + index := f_add F (f_mul F (original ! (half + index)) cos)
                                   (f_mul F (original ! index) sin)]) [0..<half] values)"

text \<open>\<open>reshape((seq, heads, dim))\<close> on one row.\<close>

definition reshape_row :: "nat \<Rightarrow> nat \<Rightarrow> 'f list \<Rightarrow> 'f list list" where
  "reshape_row heads dim row = map (flat_row row dim) [0..<heads]"

text \<open>What one row contributes: its gated queries, and its normed, rotated keys and its values.\<close>

definition row_queries :: "'f fops \<Rightarrow> 'f attn_layer \<Rightarrow> nat \<Rightarrow> 'f list \<Rightarrow> 'f list list" where
  "row_queries F L pos x =
     map (\<lambda>head. apply_rope F (al_rope L)
           (converted_norm F (take (al_head_dim L) head) (al_query_norm L) (al_eps L)) pos (al_rotary_dim L))
       (reshape_row (al_query_heads L) (al_head_dim L * 2) (al_query L x))"

definition row_gates :: "'f attn_layer \<Rightarrow> 'f list \<Rightarrow> 'f list list" where
  "row_gates L x = map (drop (al_head_dim L))
     (reshape_row (al_query_heads L) (al_head_dim L * 2) (al_query L x))"

definition row_keys :: "'f fops \<Rightarrow> 'f attn_layer \<Rightarrow> nat \<Rightarrow> 'f list \<Rightarrow> 'f list" where
  "row_keys F L pos x =
     concat (map (\<lambda>key. apply_rope F (al_rope L) (converted_norm F key (al_key_norm L) (al_eps L)) pos
                 (al_rotary_dim L))
       (reshape_row (al_kv_heads L) (al_head_dim L) (al_key L x)))"

definition row_values :: "'f attn_layer \<Rightarrow> 'f list \<Rightarrow> 'f list" where
  "row_values L x = concat (reshape_row (al_kv_heads L) (al_head_dim L) (al_value L x))"

definition attn_shape :: "'f fops \<Rightarrow> 'f attn_layer \<Rightarrow> nat \<Rightarrow> nat \<Rightarrow> 'f scan_shape" where
  "attn_shape F L seq existing = \<lparr>ss_seq = seq, ss_existing = existing,
     ss_query_heads = al_query_heads L, ss_kv_heads = al_kv_heads L, ss_head_dim = al_head_dim L,
     ss_scale = f_recip F (f_sqrt F (f_of_nat F (al_head_dim L)))\<rparr>"

definition attn_forward ::
    "'f fops \<Rightarrow> nat \<Rightarrow> 'f attn_layer \<Rightarrow> 'f list list \<Rightarrow> nat \<Rightarrow> 'f attn_state
      \<Rightarrow> model_error + 'f list list \<times> 'f attn_state" where
  "attn_forward F threads L xs pos st =
     bindE (ensure (as_positions st = pos) CachePosition) (\<lambda>_.
     let seq = length xs;
         queries = map (\<lambda>(token, x). row_queries F L (pos + token) x) (enumerate 0 xs);
         gates = map (row_gates L) xs;
         existing = as_positions st;
         keys = as_keys st @ concat (map (\<lambda>(token, x). row_keys F L (pos + token) x) (enumerate 0 xs));
         values = as_values st @ concat (map (row_values L) xs);
         sh = attn_shape F L seq existing;
         result = (case plan sh of
             PerHead \<Rightarrow> per_head_scan F sh queries gates keys values
           | Blocked \<Rightarrow> blocked_scan F threads sh queries gates keys values)
     in Inr (map (al_output L) (chunks (al_query_heads L * al_head_dim L) result),
             \<lparr>as_keys = keys, as_values = values, as_positions = existing + seq\<rparr>))"

section \<open>The cache is a stack of rows\<close>

text \<open>
  Every live cache holds \<open>positions\<close> rows of a fixed key and value width; truncation keeps
  a prefix of them.
\<close>

definition kv_wf :: "nat \<Rightarrow> nat \<Rightarrow> 'f attn_state \<Rightarrow> bool" where
  "kv_wf kw vw st \<longleftrightarrow> length (as_keys st) = as_positions st * kw \<and> length (as_values st) = as_positions st * vw"

lemma kv_wf_new [simp]: "kv_wf kw vw attn_new"
  by (simp add: kv_wf_def attn_new_def)

definition kv_prefix :: "nat \<Rightarrow> nat \<Rightarrow> nat \<Rightarrow> 'f attn_state \<Rightarrow> 'f attn_state" where
  "kv_prefix kw vw n st = \<lparr>as_keys = take (n * kw) (as_keys st), as_values = take (n * vw) (as_values st),
     as_positions = n\<rparr>"

lemma kv_prefix_all: "kv_wf kw vw st \<Longrightarrow> n = as_positions st \<Longrightarrow> kv_prefix kw vw n st = st"
  by (simp add: kv_prefix_def kv_wf_def)

lemma attn_truncate_prefix:
  assumes "kv_wf kw vw st" "n \<le> as_positions st"
  shows "attn_truncate st n = Inr (kv_prefix kw vw n st)"
proof (cases "n = as_positions st")
  case True
  with assms show ?thesis by (simp add: attn_truncate_def kv_prefix_all bindE_ensure)
next
  case False
  with assms show ?thesis
    by (auto simp: attn_truncate_def kv_prefix_def bindE_ensure kv_wf_def)
qed

lemma attn_truncate_error: "as_positions st < n \<Longrightarrow> attn_truncate st n = Inl CannotExtend"
  by (simp add: attn_truncate_def bindE_ensure)

lemma kv_wf_prefix: "kv_wf kw vw st \<Longrightarrow> n \<le> as_positions st \<Longrightarrow> kv_wf kw vw (kv_prefix kw vw n st)"
  by (simp add: kv_prefix_def kv_wf_def min_absorb2)

lemma attn_image_valid: "kv_wf kw vw st \<Longrightarrow> attn_image_validate (attn_image st) = Inr ()"
  by (auto simp: attn_image_validate_def attn_image_def kv_wf_def)

lemma attn_restore_image_image:
  assumes "kv_wf kw vw st" "kv_wf kw vw live"
  shows "attn_restore_image live (attn_image st) = Inr st"
  using assms attn_image_valid [OF assms(1)]
  by (auto simp: attn_restore_image_def attn_image_def kv_wf_def bindE_ensure)

section \<open>The two scans agree\<close>

lemma foldl_zip_mut_nth:
  assumes "i < length out" "\<And>p. p \<in> set ps \<Longrightarrow> i < length (r p)"
  shows "foldl (\<lambda>out p. zip_mut (f p) out (r p)) out ps ! i
    = foldl (\<lambda>x p. f p x (r p ! i)) (out ! i) ps"
  using assms by (induction ps arbitrary: out) (simp_all add: nth_zip_mut)

lemma length_foldl_zip_mut [simp]:
  "length (foldl (\<lambda>out p. zip_mut (f p) out (r p)) out ps) = length out"
  by (induction ps arbitrary: out) simp_all

lemma enumerate_append: "enumerate k (xs @ ys) = enumerate k xs @ enumerate (k + length xs) ys"
  by (induction xs arbitrary: k) simp_all

lemma blocks_enumerate:
  assumes "0 < b"
  shows "concat (map (\<lambda>(block, buf). map (\<lambda>(off, x). g (block * b + off) x) (enumerate 0 buf))
      (enumerate k (chunks b xs))) = map (\<lambda>(i, x). g i x) (enumerate (k * b) xs)"
proof (induction xs arbitrary: k rule: length_induct)
  case (1 xs)
  show ?case
  proof (cases "xs = []")
    case False
    have shift: "map (\<lambda>(off, x). g (k * b + off) x) (enumerate 0 ys)
        = map (\<lambda>(i, x). g i x) (enumerate (k * b) ys)" for ys
      by (rule nth_equalityI) (auto simp: nth_enumerate_eq)
    have "length (drop b xs) < length xs" using False assms by simp
    with 1 have IH: "concat (map (\<lambda>(block, buf). map (\<lambda>(off, x). g (block * b + off) x) (enumerate 0 buf))
      (enumerate (Suc k) (chunks b (drop b xs)))) = map (\<lambda>(i, x). g i x) (enumerate (Suc k * b) (drop b xs))"
      by blast
    have "map (\<lambda>(i, x). g i x) (enumerate (k * b) xs)
       = map (\<lambda>(i, x). g i x) (enumerate (k * b) (take b xs))
         @ map (\<lambda>(i, x). g i x) (enumerate (Suc k * b) (drop b xs))"
    proof (cases "b \<le> length xs")
      case True
      then show ?thesis
        by (metis (no_types, lifting) add.commute append_take_drop_id enumerate_append length_take map_append
            min_absorb2 mult_Suc)
    next
      case False
      then show ?thesis by simp
    qed
    with False assms IH shift show ?thesis
      by (subst chunks.simps) simp
  qed simp
qed

lemma blocks_bound:
  assumes "0 < b" "(block, buf) \<in> set (enumerate k (chunks b xs))"
  shows "block * b + length buf \<le> k * b + length xs"
  using assms(2)
proof (induction xs arbitrary: k rule: length_induct)
  case (1 xs)
  show ?case
  proof (cases "xs = []")
    case False
    with 1(2) assms(1) consider "block = k" "buf = take b xs"
      | "(block, buf) \<in> set (enumerate (Suc k) (chunks b (drop b xs)))"
      by (subst (asm) chunks.simps) auto
    then show ?thesis
    proof cases
      case 1
      then show ?thesis by simp
    next
      case 2
      moreover have "length (drop b xs) < length xs" using False assms(1) by simp
      ultimately have "block * b + length buf \<le> Suc k * b + length (drop b xs)"
        using 1(1) by blast
      moreover have "b \<le> length xs"
        using 2 by (cases "b \<le> length xs") simp_all
      ultimately show ?thesis by simp
    qed
  qed (use 1 in simp)
qed

lemma split_block_pos: "0 < grain \<Longrightarrow> 0 < split_block extent planes threads grain"
  by (simp add: split_block_def clamp_def Let_def less_max_iff_disj)

lemma step_by_cover:
  assumes "0 < k"
  shows "concat (map (\<lambda>first. map (\<lambda>r. g (first + r)) [0..<min k (n - first)]) (step_by n k))
    = map g [0..<n]"
proof (induction n arbitrary: g rule: less_induct)
  case (less n)
  consider "n = 0" | "0 < n" "n \<le> k" | "k < n" by linarith
  then show ?case
  proof cases
    case 1
    with assms show ?thesis by (simp add: step_by_def div_ceil_def)
  next
    case 2
    then have "div_ceil n k = 1"
      by (simp add: div_ceil_def Suc_leI div_nat_eqI)
    with 2 show ?thesis by (simp add: step_by_def)
  next
    case 3
    then have "n + k - 1 = (n - k + k - 1) + k" by simp
    then have "div_ceil n k = Suc (div_ceil (n - k) k)"
      using assms unfolding div_ceil_def by (metis add.commute div_add_self1 less_irrefl plus_1_eq_Suc)
    then have steps: "step_by n k = 0 # map (\<lambda>f. k + f) (step_by (n - k) k)"
      by (simp add: step_by_def map_upt_Suc comp_def del: upt_Suc)
    have "concat (map (\<lambda>first. map (\<lambda>r. g (first + r)) [0..<min k (n - first)]) (step_by n k))
      = map g [0..<k] @ concat (map (\<lambda>first. map (\<lambda>r. (\<lambda>i. g (k + i)) (first + r))
            [0..<min k (n - k - first)]) (step_by (n - k) k))"
      using 3 by (simp add: steps comp_def add.assoc)
    also have "\<dots> = map g [0..<k] @ map (\<lambda>i. g (k + i)) [0..<n - k]"
      using 3 assms by (subst less.IH) simp_all
    also have "\<dots> = map g [0..<n]"
    proof -
      have "map (\<lambda>i. g (k + i)) [0..<n - k] = map g [k..<n]"
        using 3 by (intro nth_equalityI) simp_all
      then show ?thesis using 3 by (metis le0 less_imp_le map_append upt_split)
    qed
    finally show ?thesis .
  qed
qed

lemma step_by_less:
  assumes "0 < k" "x \<in> set (step_by n k)"
  shows "x < n"
proof -
  have "x \<in> (\<lambda>i. i * k) ` {0..<div_ceil n k}"
    using assms(2) by (simp only: step_by_def set_map set_upt)
  then obtain i where "x = i * k" "i \<in> {0..<div_ceil n k}" by blast
  then have i: "x = i * k" "i < div_ceil n k" by simp_all
  from i(2) have "Suc i * k \<le> n + k - 1"
    unfolding div_ceil_def by (metis Suc_leI less_eq_div_iff_mult_less_eq assms(1))
  with assms(1) i(1) show ?thesis by simp
qed

lemma concat_map_concat: "concat (map (\<lambda>x. concat (f x)) xs) = concat (concat (map f xs))"
  by (induction xs) simp_all

lemma concat_map_pairs:
  "concat (map f [0..<a * b]) = concat (map (\<lambda>i. concat (map (\<lambda>j. f (i * b + j)) [0..<b])) [0..<a])"
proof (induction a)
  case (Suc a)
  have "[a * b..<a * b + b] = map (\<lambda>j. a * b + j) [0..<b]"
    by (rule nth_equalityI) simp_all
  then have "[0..<Suc a * b] = [0..<a * b] @ map (\<lambda>j. a * b + j) [0..<b]"
    using upt_add_eq_append [of 0 "a * b" b] by (simp add: add.commute)
  with Suc show ?case by (simp add: comp_def)
qed simp


text \<open>The scan over one plane, as one value per position, head and column.\<close>

definition lane_scores :: "'f fops \<Rightarrow> 'f scan_shape \<Rightarrow> 'f list \<Rightarrow> 'f list \<Rightarrow> nat \<Rightarrow> nat \<Rightarrow> 'f list" where
  "lane_scores F sh query keys kv_head n =
     map (\<lambda>past. f_mul F (dot F query (cache_row sh kv_head keys past)) (ss_scale sh)) [0..<n]"

definition lane_weights :: "'f fops \<Rightarrow> 'f list \<Rightarrow> 'f list" where
  "lane_weights F scores = map (\<lambda>s. f_exp F (f_sub F s (foldl (f_max F) (f_neg_inf F) scores))) scores"

definition lane_probabilities :: "'f fops \<Rightarrow> 'f list \<Rightarrow> 'f list" where
  "lane_probabilities F scores =
     map (\<lambda>w. f_div F w (foldl (f_add F) (f_zero F) (lane_weights F scores))) (lane_weights F scores)"

definition lane_value :: "'f fops \<Rightarrow> 'f scan_shape \<Rightarrow> 'f list \<Rightarrow> 'f list \<Rightarrow> nat \<Rightarrow> nat \<Rightarrow> 'f" where
  "lane_value F sh probabilities values kv_head c =
     foldl (\<lambda>x (past, p). f_add F x (f_mul F p (cache_row sh kv_head values past ! c)))
       (f_zero F) (enumerate 0 probabilities)"

lemma plane_scores_map:
  "0 < past_block \<Longrightarrow> plane_scores F sh heads keys kv_head past_block n
     = map (\<lambda>past. map (\<lambda>query. f_mul F (dot F query (cache_row sh kv_head keys past)) (ss_scale sh)) heads)
         [0..<n]"
proof -
  assume b: "0 < past_block"
  let ?g = "\<lambda>past (_ :: nat). map (\<lambda>query. f_mul F (dot F query (cache_row sh kv_head keys past)) (ss_scale sh)) heads"
  have "plane_scores F sh heads keys kv_head past_block n
      = map (\<lambda>(i, x). ?g i x) (enumerate (0 * past_block) [0..<n])"
    unfolding plane_scores_def Let_def by (subst blocks_enumerate [OF b, symmetric]) simp
  also have "\<dots> = map (\<lambda>past. ?g past past) [0..<n]"
    by (rule nth_equalityI) (simp_all add: nth_enumerate_eq)
  finally show ?thesis by simp
qed

lemma length_plane_softmax [simp]: "length (plane_softmax F plane) = length plane"
  by (simp add: plane_softmax_def Let_def)

lemma plane_softmax_lane:
  assumes w: "\<And>slot. slot \<in> set plane \<Longrightarrow> length slot = g" and "lane < g" "g \<le> MAX_GROUP"
  shows "map (\<lambda>slot. slot ! lane) (plane_softmax F plane) = lane_probabilities F (map (\<lambda>slot. slot ! lane) plane)"
    and "slot \<in> set (plane_softmax F plane) \<Longrightarrow> length slot = g"
proof -
  let ?mx = "foldl (zip_mut (f_max F)) (replicate MAX_GROUP (f_neg_inf F)) plane"
  let ?ws = "map (\<lambda>slot. zip_mut (\<lambda>s m. f_exp F (f_sub F s m)) slot ?mx) plane"
  let ?den = "foldl (zip_mut (f_add F)) (replicate MAX_GROUP (f_zero F)) ?ws"
  have lm: "lane < MAX_GROUP" using assms(2,3) by simp
  have len_ws: "slot \<in> set ?ws \<Longrightarrow> length slot = g" for slot
    using w by auto
  have mx: "?mx ! lane = foldl (f_max F) (f_neg_inf F) (map (\<lambda>slot. slot ! lane) plane)"
    using foldl_zip_mut_nth [of lane "replicate MAX_GROUP (f_neg_inf F)" plane "\<lambda>s. s" "\<lambda>_. f_max F"]
      w assms(2) lm by (simp add: foldl_map)
  have ws: "map (\<lambda>slot. slot ! lane) ?ws = lane_weights F (map (\<lambda>slot. slot ! lane) plane)"
    using w assms(2) lm mx
    by (auto simp: lane_weights_def nth_zip_mut length_foldl_zip_mut [where f = "\<lambda>_. f_max F" and r = "\<lambda>s. s"])
  have den: "?den ! lane = foldl (f_add F) (f_zero F) (map (\<lambda>slot. slot ! lane) ?ws)"
    using foldl_zip_mut_nth [of lane "replicate MAX_GROUP (f_zero F)" ?ws "\<lambda>s. s" "\<lambda>_. f_add F"]
      len_ws assms(2) lm by (simp add: foldl_map)
  have len_den: "length ?den = MAX_GROUP"
    using length_foldl_zip_mut [where f = "\<lambda>_. f_add F" and r = "\<lambda>s. s"] by simp
  have sm: "plane_softmax F plane = map (\<lambda>slot. zip_mut (f_div F) slot ?den) ?ws"
    by (simp add: plane_softmax_def Let_def)
  show "slot \<in> set (plane_softmax F plane) \<Longrightarrow> length slot = g"
    using w by (auto simp: sm)
  have "map (\<lambda>slot. slot ! lane) (plane_softmax F plane)
      = map (\<lambda>w. f_div F w (?den ! lane)) (map (\<lambda>slot. slot ! lane) ?ws)"
    unfolding sm map_map comp_def
    by (rule map_cong [OF refl]) (use w assms(2) lm len_den in \<open>auto simp: nth_zip_mut\<close>)
  then show "map (\<lambda>slot. slot ! lane) (plane_softmax F plane)
      = lane_probabilities F (map (\<lambda>slot. slot ! lane) plane)"
    by (simp only: den ws lane_probabilities_def)
qed


text \<open>One column of the transposed accumulator.\<close>

definition column_sum ::
    "'f fops \<Rightarrow> 'f scan_shape \<Rightarrow> 'f list list \<Rightarrow> 'f list \<Rightarrow> nat \<Rightarrow> nat \<Rightarrow> 'f list \<Rightarrow> 'f list" where
  "column_sum F sh probabilities values kv_head c column =
     foldl (\<lambda>column p. zip_mut (\<lambda>x w. f_add F x (f_mul F w (cache_row sh kv_head values (fst p) ! c))) column (snd p))
       column (enumerate 0 probabilities)"

lemma cache_row_bound:
  assumes "past < n" "kv_head < ss_kv_heads sh"
  shows "(past * ss_kv_heads sh + kv_head) * ss_head_dim sh + ss_head_dim sh
    \<le> n * (ss_kv_heads sh * ss_head_dim sh)"
proof -
  have "past * ss_kv_heads sh + kv_head + 1 \<le> Suc past * ss_kv_heads sh" using assms(2) by simp
  also have "\<dots> \<le> n * ss_kv_heads sh" using assms(1) by (intro mult_right_mono) simp_all
  finally have "(past * ss_kv_heads sh + kv_head + 1) * ss_head_dim sh \<le> n * ss_kv_heads sh * ss_head_dim sh"
    by (rule mult_right_mono) simp
  then show ?thesis by (simp add: algebra_simps)
qed

lemma length_cache_row:
  "past < n \<Longrightarrow> kv_head < ss_kv_heads sh \<Longrightarrow> n * (ss_kv_heads sh * ss_head_dim sh) \<le> length cache
    \<Longrightarrow> length (cache_row sh kv_head cache past) = ss_head_dim sh"
  using cache_row_bound [of past n kv_head sh] by (simp add: cache_row_def Let_def)

lemma weighted_sum_map:
  assumes kv: "kv_head < ss_kv_heads sh"
    and len: "length probabilities * (ss_kv_heads sh * ss_head_dim sh) \<le> length values"
    and width: "first + length out \<le> ss_head_dim sh"
  shows "weighted_sum F sh out probabilities values kv_head first
    = map (\<lambda>(off, x). column_sum F sh probabilities values kv_head (first + off) x) (enumerate 0 out)"
proof (rule nth_equalityI)
  show "length (weighted_sum F sh out probabilities values kv_head first)
      = length (map (\<lambda>(off, x). column_sum F sh probabilities values kv_head (first + off) x) (enumerate 0 out))"
    by (simp add: weighted_sum_def Let_def case_prod_unfold)
next
  fix c
  assume "c < length (weighted_sum F sh out probabilities values kv_head first)"
  then have c: "c < length out" by (simp add: weighted_sum_def Let_def case_prod_unfold)
  define base where "base p = (fst p * ss_kv_heads sh + kv_head) * ss_head_dim sh" for p :: "nat \<times> 'a list"
  have fits: "base p + ss_head_dim sh \<le> length values" if "p \<in> set (enumerate 0 probabilities)" for p
  proof -
    have "fst p < length probabilities" using that by (auto simp: in_set_enumerate_eq)
    from cache_row_bound [OF this kv] len show ?thesis by (simp add: base_def)
  qed
  have row: "slice values (base p + first) (base p + first + length out) ! c
      = cache_row sh kv_head values (fst p) ! (first + c)"
    if "p \<in> set (enumerate 0 probabilities)" for p
    using fits [OF that] width c by (simp add: cache_row_def Let_def base_def [symmetric] add.assoc)
  have "weighted_sum F sh out probabilities values kv_head first ! c
    = foldl (\<lambda>x p. zip_mut (\<lambda>o1 w. f_add F o1 (f_mul F w
          (slice values (base p + first) (base p + first + length out) ! c))) x (snd p))
        (out ! c) (enumerate 0 probabilities)"
    unfolding weighted_sum_def Let_def case_prod_unfold base_def [symmetric]
    by (rule foldl_zip_mut_nth) (use c fits width in \<open>force+\<close>)
  also have "\<dots> = column_sum F sh probabilities values kv_head (first + c) (out ! c)"
    unfolding column_sum_def by (rule foldl_cong) (use row in simp_all)
  finally show "weighted_sum F sh out probabilities values kv_head first ! c
      = map (\<lambda>(off, x). column_sum F sh probabilities values kv_head (first + off) x) (enumerate 0 out) ! c"
    using c by (simp add: nth_enumerate_eq)
qed

lemma plane_columns_nth:
  assumes "kv_head < ss_kv_heads sh" "c < ss_head_dim sh" "0 < column_block"
    and "length probabilities * (ss_kv_heads sh * ss_head_dim sh) \<le> length values"
    and "\<And>slot. slot \<in> set probabilities \<Longrightarrow> length slot = groups sh" and "lane < groups sh"
  shows "plane_columns F sh probabilities values kv_head column_block ! c ! lane
    = lane_value F sh (map (\<lambda>slot. slot ! lane) probabilities) values kv_head c"
proof -
  let ?z = "replicate (ss_head_dim sh) (replicate (groups sh) (f_zero F))"
  have "plane_columns F sh probabilities values kv_head column_block
    = concat (map (\<lambda>(block, buf). map (\<lambda>(off, x). column_sum F sh probabilities values kv_head
        (block * column_block + off) x) (enumerate 0 buf)) (enumerate 0 (chunks column_block ?z)))"
    unfolding plane_columns_def
    by (rule arg_cong [where f = concat], rule map_cong [OF refl])
      (use assms(1,4) blocks_bound [OF assms(3), of _ _ 0 ?z] in \<open>auto simp: weighted_sum_map\<close>)
  also have "\<dots> = map (\<lambda>(i, x). column_sum F sh probabilities values kv_head i x) (enumerate 0 ?z)"
    using blocks_enumerate [OF assms(3), of "column_sum F sh probabilities values kv_head" 0 ?z] by simp
  finally have "plane_columns F sh probabilities values kv_head column_block ! c
      = column_sum F sh probabilities values kv_head c (replicate (groups sh) (f_zero F))"
    using assms(2) by (simp add: nth_enumerate_eq)
  also have "\<dots> ! lane = foldl (\<lambda>x p. f_add F x (f_mul F (snd p ! lane) (cache_row sh kv_head values (fst p) ! c)))
      (f_zero F) (enumerate 0 probabilities)"
    unfolding column_sum_def
    by (subst foldl_zip_mut_nth) (use assms(5,6) in \<open>auto simp: in_set_enumerate_eq\<close>)
  also have "\<dots> = lane_value F sh (map (\<lambda>slot. slot ! lane) probabilities) values kv_head c"
  proof -
    have "enumerate 0 (map (\<lambda>slot. slot ! lane) probabilities)
        = map (\<lambda>p. (fst p, snd p ! lane)) (enumerate 0 probabilities)"
      by (rule nth_equalityI) (simp_all add: nth_enumerate_eq)
    then show ?thesis by (simp add: lane_value_def foldl_map)
  qed
  finally show ?thesis .
qed

lemma per_head_row_value:
  assumes q: "0 < ss_query_heads sh" and kv: "(row mod ss_query_heads sh) div groups sh < ss_kv_heads sh"
    and c: "c < ss_head_dim sh"
    and len: "(ss_existing sh + row div ss_query_heads sh + 1) * (ss_kv_heads sh * ss_head_dim sh) \<le> length values"
    and gate: "length (gates ! (row div ss_query_heads sh) ! (row mod ss_query_heads sh)) = ss_head_dim sh"
  shows "per_head_row F sh queries gates keys values row ! c =
    f_mul F (lane_value F sh (lane_probabilities F (lane_scores F sh
        (queries ! (row div ss_query_heads sh) ! (row mod ss_query_heads sh)) keys
        ((row mod ss_query_heads sh) div groups sh) (ss_existing sh + row div ss_query_heads sh + 1)))
        values ((row mod ss_query_heads sh) div groups sh) c)
      (sigmoid F (gates ! (row div ss_query_heads sh) ! (row mod ss_query_heads sh) ! c))"
proof -
  define scores where "scores = lane_scores F sh
        (queries ! (row div ss_query_heads sh) ! (row mod ss_query_heads sh)) keys
        ((row mod ss_query_heads sh) div groups sh) (ss_existing sh + row div ss_query_heads sh + 1)"
  define den where "den = foldl (f_add F) (f_zero F) (lane_weights F scores)"
  let ?kv = "(row mod ss_query_heads sh) div groups sh"
  let ?ps = "enumerate 0 (lane_weights F scores)"
  have n: "length (lane_weights F scores) = ss_existing sh + row div ss_query_heads sh + 1"
    by (simp add: lane_weights_def scores_def lane_scores_def)
  have unfold: "per_head_row F sh queries gates keys values row =
    zip_mut (\<lambda>o1 g. f_mul F o1 (sigmoid F g))
      (foldl (\<lambda>out p. zip_mut (\<lambda>o1 v. f_add F o1 (f_mul F (f_div F (snd p) den) v)) out
           (cache_row sh ?kv values (fst p))) (replicate (ss_head_dim sh) (f_zero F)) ?ps)
      (gates ! (row div ss_query_heads sh) ! (row mod ss_query_heads sh))"
    by (simp only: per_head_row_def Let_def case_prod_unfold den_def scores_def lane_weights_def lane_scores_def)
  have "foldl (\<lambda>out p. zip_mut (\<lambda>o1 v. f_add F o1 (f_mul F (f_div F (snd p) den) v)) out
           (cache_row sh ?kv values (fst p))) (replicate (ss_head_dim sh) (f_zero F)) ?ps ! c
    = foldl (\<lambda>x p. f_add F x (f_mul F (f_div F (snd p) den) (cache_row sh ?kv values (fst p) ! c)))
        (f_zero F) ?ps"
    using foldl_zip_mut_nth [of c "replicate (ss_head_dim sh) (f_zero F)" ?ps
        "\<lambda>p. cache_row sh ?kv values (fst p)" "\<lambda>p o1 v. f_add F o1 (f_mul F (f_div F (snd p) den) v)"]
      length_cache_row [OF _ kv len] c n
    by (simp add: in_set_enumerate_eq)
  also have "\<dots> = lane_value F sh (lane_probabilities F scores) values ?kv c"
  proof -
    have "enumerate 0 (lane_probabilities F scores) = map (\<lambda>p. (fst p, f_div F (snd p) den)) ?ps"
      by (rule nth_equalityI) (simp_all add: nth_enumerate_eq lane_probabilities_def den_def)
    then show ?thesis by (simp add: lane_value_def foldl_map)
  qed
  finally show ?thesis
    unfolding scores_def [symmetric] using c gate by (simp add: unfold nth_zip_mut)
qed

lemma length_per_head_row [simp]: "length (per_head_row F sh queries gates keys values row) = ss_head_dim sh"
  by (simp add: per_head_row_def Let_def case_prod_unfold)


text \<open>
  What one row of a pass computes, whichever scan runs: for every query head, the softmax
  over its own positions and the weighted sum of the values, gated.
\<close>

definition attend_token ::
    "'f fops \<Rightarrow> 'f scan_shape \<Rightarrow> 'f list list \<Rightarrow> 'f list list \<Rightarrow> 'f list \<Rightarrow> 'f list \<Rightarrow> nat \<Rightarrow> 'f list" where
  "attend_token F sh qs gs keys values n =
     concat (map (\<lambda>head. map (\<lambda>c. f_mul F
         (lane_value F sh (lane_probabilities F (lane_scores F sh (qs ! head) keys (head div groups sh) n))
            values (head div groups sh) c) (sigmoid F (gs ! head ! c))) [0..<ss_head_dim sh])
       [0..<ss_query_heads sh])"

definition scan_wf :: "'f scan_shape \<Rightarrow> 'f list list list \<Rightarrow> 'f list list list \<Rightarrow> 'f list \<Rightarrow> bool" where
  "scan_wf sh queries gates values \<longleftrightarrow>
     0 < ss_kv_heads sh \<and> 0 < ss_query_heads sh \<and> ss_kv_heads sh dvd ss_query_heads sh \<and>
     (\<forall>t < ss_seq sh. length (queries ! t) = ss_query_heads sh) \<and>
     (\<forall>t < ss_seq sh. \<forall>head < ss_query_heads sh. length (gates ! t ! head) = ss_head_dim sh) \<and>
     (ss_existing sh + ss_seq sh) * (ss_kv_heads sh * ss_head_dim sh) \<le> length values"

lemma scan_wf_groups:
  assumes "scan_wf sh queries gates values"
  shows "ss_kv_heads sh * groups sh = ss_query_heads sh" "0 < groups sh"
  using assms by (auto simp: scan_wf_def groups_def dvd_def)

lemma head_div_groups:
  assumes "scan_wf sh queries gates values" "head < ss_query_heads sh"
  shows "head div groups sh < ss_kv_heads sh"
  using assms scan_wf_groups [OF assms(1)] by (simp add: less_mult_imp_div_less)

lemma per_head_scan_tokens:
  assumes wf: "scan_wf sh queries gates values"
  shows "per_head_scan F sh queries gates keys values
    = concat (map (\<lambda>t. attend_token F sh (queries ! t) (gates ! t) keys values (ss_existing sh + t + 1))
        [0..<ss_seq sh])"
proof -
  have row: "per_head_row F sh queries gates keys values (t * ss_query_heads sh + head)
    = map (\<lambda>c. f_mul F (lane_value F sh (lane_probabilities F (lane_scores F sh (queries ! t ! head) keys
          (head div groups sh) (ss_existing sh + t + 1))) values (head div groups sh) c)
        (sigmoid F (gates ! t ! head ! c))) [0..<ss_head_dim sh]"
    if t: "t < ss_seq sh" and h: "head < ss_query_heads sh" for t head
  proof (rule nth_equalityI)
    fix c assume "c < length (per_head_row F sh queries gates keys values (t * ss_query_heads sh + head))"
    then have c: "c < ss_head_dim sh" by simp
    have "(ss_existing sh + t + 1) * (ss_kv_heads sh * ss_head_dim sh)
        \<le> (ss_existing sh + ss_seq sh) * (ss_kv_heads sh * ss_head_dim sh)"
      using t by (intro mult_right_mono) simp_all
    with wf have len: "(ss_existing sh + t + 1) * (ss_kv_heads sh * ss_head_dim sh) \<le> length values"
      by (simp add: scan_wf_def)
    show "per_head_row F sh queries gates keys values (t * ss_query_heads sh + head) ! c
      = map (\<lambda>c. f_mul F (lane_value F sh (lane_probabilities F (lane_scores F sh (queries ! t ! head) keys
          (head div groups sh) (ss_existing sh + t + 1))) values (head div groups sh) c)
        (sigmoid F (gates ! t ! head ! c))) [0..<ss_head_dim sh] ! c"
      using per_head_row_value [where row = "t * ss_query_heads sh + head" and sh = sh] wf t h c len
        head_div_groups [OF wf h]
      by (simp add: scan_wf_def)
  qed simp
  show ?thesis
    unfolding per_head_scan_def concat_map_pairs attend_token_def
    by (rule arg_cong [where f = concat], rule map_cong [OF refl], rule arg_cong [where f = concat],
        rule map_cong [OF refl]) (simp add: row)
qed

lemma blocked_chunk_tokens:
  assumes wf: "scan_wf sh queries gates values" and g: "groups sh \<le> MAX_GROUP"
    and first: "first_row < ss_seq sh"
  shows "blocked_chunk F threads sh queries gates keys values rows_per_chunk first_row
    = concat (map (\<lambda>r. attend_token F sh (queries ! (first_row + r)) (gates ! (first_row + r)) keys values
         (ss_existing sh + (first_row + r) + 1)) [0..<min rows_per_chunk (ss_seq sh - first_row)])"
proof -
  define rows where "rows = min rows_per_chunk (ss_seq sh - first_row)"
  define pb where "pb = split_block (ss_existing sh + first_row + rows) (rows * ss_kv_heads sh) threads MIN_PAST_BLOCK"
  define cb where "cb = split_block (ss_head_dim sh) (rows * ss_kv_heads sh) threads MIN_COLUMN_BLOCK"
  have pos: "0 < pb" "0 < cb"
    unfolding pb_def cb_def by (rule split_block_pos; simp add: MIN_PAST_BLOCK_def MIN_COLUMN_BLOCK_def)+
  define plane where "plane = (\<lambda>p. let row = p div ss_kv_heads sh; kv_head = p mod ss_kv_heads sh;
        token = first_row + row; attend_to = ss_existing sh + token + 1;
        heads = slice (queries ! token) (kv_head * groups sh) ((kv_head + 1) * groups sh);
        probabilities = plane_softmax F (plane_scores F sh heads keys kv_head pb attend_to)
      in plane_columns F sh probabilities values kv_head cb)"
  have val: "plane (r * ss_kv_heads sh + head div groups sh) ! c ! (head mod groups sh)
      = lane_value F sh (lane_probabilities F (lane_scores F sh (queries ! (first_row + r) ! head) keys
          (head div groups sh) (ss_existing sh + (first_row + r) + 1))) values (head div groups sh) c"
    if r: "r < rows" and h: "head < ss_query_heads sh" and c: "c < ss_head_dim sh" for r head c
  proof -
    let ?kv = "head div groups sh" and ?lane = "head mod groups sh" and ?t = "first_row + r"
    let ?n = "ss_existing sh + ?t + 1"
    let ?heads = "slice (queries ! ?t) (?kv * groups sh) ((?kv + 1) * groups sh)"
    let ?scores = "plane_scores F sh ?heads keys ?kv pb ?n"
    have t: "?t < ss_seq sh" using r by (simp add: rows_def less_diff_conv add.commute)
    note kv = head_div_groups [OF wf h] and gr = scan_wf_groups [OF wf]
    have "(?kv + 1) * groups sh \<le> ss_kv_heads sh * groups sh"
      using kv by (intro mult_right_mono) simp_all
    then have bound: "(?kv + 1) * groups sh \<le> length (queries ! ?t)"
      using wf t gr by (simp add: scan_wf_def)
    have lane: "?lane < groups sh" using gr by simp
    have slots: "slot \<in> set ?scores \<Longrightarrow> length slot = groups sh" for slot
      using bound by (auto simp: plane_scores_map [OF pos(1)])
    have query: "?heads ! ?lane = queries ! ?t ! head"
      using bound lane by (subst nth_slice) (simp_all add: mult.commute)
    have lanes: "map (\<lambda>slot. slot ! ?lane) ?scores = lane_scores F sh (queries ! ?t ! head) keys ?kv ?n"
      using bound lane
      by (simp add: plane_scores_map [OF pos(1)] lane_scores_def comp_def query del: upt_Suc)
    note sm = plane_softmax_lane [OF slots lane g, where F = F]
    have "?n * (ss_kv_heads sh * ss_head_dim sh)
        \<le> (ss_existing sh + ss_seq sh) * (ss_kv_heads sh * ss_head_dim sh)"
      using t by (intro mult_right_mono) simp_all
    moreover have "length (plane_softmax F ?scores) = ?n"
      by (simp add: plane_scores_map [OF pos(1)] del: upt_Suc)
    ultimately have len: "length (plane_softmax F ?scores) * (ss_kv_heads sh * ss_head_dim sh) \<le> length values"
      using wf by (simp only: scan_wf_def) linarith
    have "plane (r * ss_kv_heads sh + ?kv) = plane_columns F sh (plane_softmax F ?scores) values ?kv cb"
      using kv by (simp add: plane_def Let_def)
    with plane_columns_nth [OF kv c pos(2) len sm(2) lane] show ?thesis
      by (simp only: sm(1) lanes)
  qed
  have idx: "r * ss_kv_heads sh + head div groups sh < rows * ss_kv_heads sh"
    if "r < rows" "head < ss_query_heads sh" for r head
  proof -
    have "r * ss_kv_heads sh + head div groups sh < Suc r * ss_kv_heads sh"
      using head_div_groups [OF wf that(2)] by simp
    also have "\<dots> \<le> rows * ss_kv_heads sh" using that(1) by (intro mult_right_mono) simp_all
    finally show ?thesis .
  qed
  have gate: "length (gates ! (first_row + r) ! head) = ss_head_dim sh"
    if "r < rows" "head < ss_query_heads sh" for r head
    using wf that by (simp add: scan_wf_def rows_def less_diff_conv add.commute)
  have chunk: "blocked_chunk F threads sh queries gates keys values rows_per_chunk first_row
    = concat (map (\<lambda>row. concat (map (\<lambda>head.
         map2 (\<lambda>column gate. f_mul F
             (map plane [0..<rows * ss_kv_heads sh] ! (row * ss_kv_heads sh + head div groups sh)
                ! column ! (head mod groups sh)) (sigmoid F gate))
           [0..<ss_head_dim sh] (gates ! (first_row + row) ! head)) [0..<ss_query_heads sh])) [0..<rows])"
    by (simp only: blocked_chunk_def Let_def plane_def rows_def pb_def cb_def)
  show ?thesis
    unfolding chunk rows_def [symmetric] attend_token_def
  proof (rule arg_cong [where f = concat], rule map_cong [OF refl], rule arg_cong [where f = concat],
      rule map_cong [OF refl])
    fix r head
    assume "r \<in> set [0..<rows]" "head \<in> set [0..<ss_query_heads sh]"
    then have r: "r < rows" and h: "head < ss_query_heads sh" by simp_all
    show "map2 (\<lambda>column gate. f_mul F
             (map plane [0..<rows * ss_kv_heads sh] ! (r * ss_kv_heads sh + head div groups sh)
                ! column ! (head mod groups sh)) (sigmoid F gate))
           [0..<ss_head_dim sh] (gates ! (first_row + r) ! head)
      = map (\<lambda>c. f_mul F (lane_value F sh (lane_probabilities F (lane_scores F sh
            (queries ! (first_row + r) ! head) keys (head div groups sh)
            (ss_existing sh + (first_row + r) + 1))) values (head div groups sh) c)
          (sigmoid F (gates ! (first_row + r) ! head ! c))) [0..<ss_head_dim sh]"
      by (rule nth_equalityI) (use idx [OF r h] gate [OF r h] val [OF r h] in simp_all)
  qed
qed

lemma blocked_scan_tokens:
  assumes wf: "scan_wf sh queries gates values" and g: "groups sh \<le> MAX_GROUP" and s: "0 < ss_seq sh"
  shows "blocked_scan F threads sh queries gates keys values
    = concat (map (\<lambda>t. attend_token F sh (queries ! t) (gates ! t) keys values (ss_existing sh + t + 1))
        [0..<ss_seq sh])"
proof -
  let ?rpc = "clamp (SCORE_BUDGET div (ss_kv_heads sh * ((ss_existing sh + ss_seq sh) * groups sh))) 1 (ss_seq sh)"
  let ?at = "\<lambda>t. attend_token F sh (queries ! t) (gates ! t) keys values (ss_existing sh + t + 1)"
  have rpc: "0 < ?rpc" using s by (simp add: clamp_def)
  have chunk: "blocked_chunk F threads sh queries gates keys values ?rpc first
      = concat (map (\<lambda>r. ?at (first + r)) [0..<min ?rpc (ss_seq sh - first)])"
    if "first \<in> set (step_by (ss_seq sh) ?rpc)" for first
    by (rule blocked_chunk_tokens [OF wf g step_by_less [OF rpc that]])
  have "blocked_scan F threads sh queries gates keys values
    = concat (map (\<lambda>first. concat (map (\<lambda>r. ?at (first + r)) [0..<min ?rpc (ss_seq sh - first)]))
        (step_by (ss_seq sh) ?rpc))"
    unfolding blocked_scan_def Let_def
    by (rule arg_cong [where f = concat], rule map_cong [OF refl]) (rule chunk)
  also have "\<dots> = concat (concat (map (\<lambda>first. map (\<lambda>r. ?at (first + r)) [0..<min ?rpc (ss_seq sh - first)])
        (step_by (ss_seq sh) ?rpc)))"
    by (rule concat_map_concat)
  also have "\<dots> = concat (map ?at [0..<ss_seq sh])"
    by (subst step_by_cover [OF rpc]) simp
  finally show ?thesis .
qed


section \<open>A pass is its rows, one after another\<close>

definition attn_layer_wf :: "'f attn_layer \<Rightarrow> bool" where
  "attn_layer_wf L \<longleftrightarrow> 0 < al_kv_heads L \<and> 0 < al_query_heads L \<and> al_kv_heads L dvd al_query_heads L
     \<and> 0 < al_head_dim L
     \<and> (\<forall>x. length (al_query L x) = al_query_heads L * (al_head_dim L * 2))
     \<and> (\<forall>x. length (al_key L x) = al_kv_heads L * al_head_dim L)
     \<and> (\<forall>x. length (al_value L x) = al_kv_heads L * al_head_dim L)"

abbreviation kv_width :: "'f attn_layer \<Rightarrow> nat" where
  "kv_width L \<equiv> al_kv_heads L * al_head_dim L"

abbreviation attn_wf :: "'f attn_layer \<Rightarrow> 'f attn_state \<Rightarrow> bool" where
  "attn_wf L st \<equiv> kv_wf (kv_width L) (kv_width L) st"

text \<open>What decoding one token does to this layer.\<close>

definition attn_step :: "'f fops \<Rightarrow> 'f attn_layer \<Rightarrow> 'f list \<Rightarrow> 'f attn_state \<Rightarrow> 'f list \<times> 'f attn_state" where
  "attn_step F L x st =
     (let n = as_positions st;
          keys = as_keys st @ row_keys F L n x;
          values = as_values st @ row_values L x
      in (al_output L (attend_token F (attn_shape F L 1 n) (row_queries F L n x) (row_gates L x) keys values (n + 1)),
          \<lparr>as_keys = keys, as_values = values, as_positions = n + 1\<rparr>))"

fun attn_run :: "'f fops \<Rightarrow> 'f attn_layer \<Rightarrow> 'f list list \<Rightarrow> 'f attn_state \<Rightarrow> 'f list list \<times> 'f attn_state" where
  "attn_run F L [] st = ([], st)"
| "attn_run F L (x # xs) st =
     (let (y, st1) = attn_step F L x st; (ys, st2) = attn_run F L xs st1 in (y # ys, st2))"

lemma length_apply_rope [simp]: "length (apply_rope F rope values pos rotary_dim) = length values"
proof -
  have "length (fold (\<lambda>index vs. let (sin, cos) = rope pos index
           in vs[index := f index sin cos, h + index := g index sin cos]) is vs) = length vs"
    for f g h vs and "is" :: "nat list"
    by (induction "is" arbitrary: vs) (simp_all add: Let_def split: prod.split)
  then show ?thesis by (simp add: apply_rope_def Let_def)
qed

lemma length_converted_norm [simp]: "length (converted_norm F values weight eps) = length values"
  by (simp add: converted_norm_def Let_def)

lemma length_reshape_row [simp]: "length (reshape_row heads dim row) = heads"
  by (simp add: reshape_row_def)

lemma reshape_row_width:
  assumes "length row = heads * dim" "r \<in> set (reshape_row heads dim row)"
  shows "length r = dim"
proof -
  from assms(2) obtain h where "h < heads" "r = flat_row row dim h"
    by (auto simp: reshape_row_def)
  moreover from this have "(h + 1) * dim \<le> length row"
    unfolding assms(1) by (intro mult_right_mono) simp_all
  ultimately show ?thesis by (simp add: length_flat_row)
qed

lemma row_lengths:
  assumes "attn_layer_wf L"
  shows "length (row_queries F L pos x) = al_query_heads L" "length (row_gates L x) = al_query_heads L"
    "h < al_query_heads L \<Longrightarrow> length (row_gates L x ! h) = al_head_dim L"
    "length (row_keys F L pos x) = kv_width L" "length (row_values L x) = kv_width L"
proof -
  show "length (row_queries F L pos x) = al_query_heads L" "length (row_gates L x) = al_query_heads L"
    by (simp_all add: row_queries_def row_gates_def)
  show "length (row_gates L x ! h) = al_head_dim L" if "h < al_query_heads L"
    using reshape_row_width [of "al_query L x" "al_query_heads L" "al_head_dim L * 2"
        "reshape_row (al_query_heads L) (al_head_dim L * 2) (al_query L x) ! h"] assms that
    by (simp add: row_gates_def attn_layer_wf_def)
  have kv: "length (al_key L x) = kv_width L" "length (al_value L x) = kv_width L"
    using assms by (simp_all add: attn_layer_wf_def)
  show "length (row_keys F L pos x) = kv_width L"
    unfolding row_keys_def
    by (subst length_concat_rows [where width = "al_head_dim L"])
      (use reshape_row_width [OF kv(1)] in auto)
  show "length (row_values L x) = kv_width L"
    unfolding row_values_def
    by (subst length_concat_rows [where width = "al_head_dim L"])
      (use reshape_row_width [OF kv(2)] in auto)
qed

lemma attend_token_shape:
  "attend_token F (attn_shape F L s e) = attend_token F (attn_shape F L s' e')"
  by (intro ext) (simp add: attend_token_def lane_value_def lane_scores_def cache_row_def attn_shape_def groups_def)

lemma length_attend_token [simp]:
  "length (attend_token F (attn_shape F L s e) qs gs keys values n) = al_query_heads L * al_head_dim L"
  unfolding attend_token_def
  by (subst length_concat_rows [where width = "al_head_dim L"]) (auto simp: attn_shape_def)

lemma cache_row_append:
  assumes "past < n" "kv_head < ss_kv_heads sh" "n * (ss_kv_heads sh * ss_head_dim sh) \<le> length cache"
  shows "cache_row sh kv_head (cache @ rest) past = cache_row sh kv_head cache past"
  using cache_row_bound [OF assms(1,2)] assms(3)
  by (simp add: cache_row_def Let_def slice_append1)

lemma attend_token_append:
  assumes L: "attn_layer_wf L"
    and "n * kv_width L \<le> length keys" "n * kv_width L \<le> length values"
  shows "attend_token F (attn_shape F L s e) qs gs (keys @ ks) (values @ vs) n
    = attend_token F (attn_shape F L s e) qs gs keys values n"
proof -
  let ?sh = "attn_shape F L s e"
  have kv: "h div groups ?sh < ss_kv_heads ?sh" if "h < ss_query_heads ?sh" for h
    using L that by (auto simp: attn_shape_def groups_def attn_layer_wf_def less_mult_imp_div_less
        elim!: dvdE)
  have w: "n * (ss_kv_heads ?sh * ss_head_dim ?sh) = n * kv_width L"
    by (simp add: attn_shape_def)
  have scores: "lane_scores F ?sh q (keys @ ks) g n = lane_scores F ?sh q keys g n"
    if "g < ss_kv_heads ?sh" for q g
    using cache_row_append [OF _ that, of _ n keys ks] assms(2) w by (simp add: lane_scores_def)
  have weighted: "lane_value F ?sh ps (values @ vs) g c = lane_value F ?sh ps values g c"
    if "g < ss_kv_heads ?sh" "length ps = n" for ps g c
    unfolding lane_value_def
    by (rule foldl_cong) (use cache_row_append [OF _ that(1), of _ n "values" vs] assms(3) w that(2)
        in \<open>auto simp: in_set_enumerate_eq\<close>)
  have len: "length (lane_probabilities F (lane_scores F ?sh q keys g n)) = n" for q g
    by (simp add: lane_probabilities_def lane_weights_def lane_scores_def)
  show ?thesis
    unfolding attend_token_def
    by (rule arg_cong [where f = concat], rule map_cong [OF refl])
      (use kv scores weighted [OF _ len] in auto)
qed

lemma attn_wf_step:
  "attn_layer_wf L \<Longrightarrow> attn_wf L st \<Longrightarrow> attn_wf L (snd (attn_step F L x st))"
  by (simp add: attn_step_def Let_def kv_wf_def row_lengths)

lemma attn_run_closed:
  assumes L: "attn_layer_wf L" and "attn_wf L st"
  shows "attn_run F L xs st =
    (let p = as_positions st;
         K = as_keys st @ concat (map (\<lambda>(t, x). row_keys F L (p + t) x) (enumerate 0 xs));
         V = as_values st @ concat (map (row_values L) xs)
     in (map (\<lambda>(t, x). al_output L (attend_token F (attn_shape F L (length xs) p) (row_queries F L (p + t) x)
            (row_gates L x) K V (p + t + 1))) (enumerate 0 xs),
         \<lparr>as_keys = K, as_values = V, as_positions = p + length xs\<rparr>))"
  using assms(2)
proof (induction xs arbitrary: st)
  case Nil
  then show ?case by simp
next
  case (Cons x xs)
  let ?p = "as_positions st"
  let ?st1 = "snd (attn_step F L x st)"
  have st1: "?st1 = \<lparr>as_keys = as_keys st @ row_keys F L ?p x, as_values = as_values st @ row_values L x,
      as_positions = ?p + 1\<rparr>"
    by (simp add: attn_step_def Let_def)
  have wf1: "attn_wf L ?st1" by (rule attn_wf_step [OF L Cons.prems])
  have shift: "enumerate (Suc 0) ys = map (\<lambda>(t, x). (t + 1, x)) (enumerate 0 ys)" for ys :: "'a list list"
    by (rule nth_equalityI) (simp_all add: nth_enumerate_eq)
  have len: "(?p + 1) * kv_width L \<le> length (as_keys st @ row_keys F L ?p x)"
    "(?p + 1) * kv_width L \<le> length (as_values st @ row_values L x)"
    using Cons.prems by (simp_all add: kv_wf_def row_lengths [OF L])
  have head: "fst (attn_step F L x st) = al_output L (attend_token F (attn_shape F L (length (x # xs)) ?p)
      (row_queries F L ?p x) (row_gates L x) ((as_keys st @ row_keys F L ?p x) @ ks)
      ((as_values st @ row_values L x) @ vs) (?p + 1))" for ks vs
    unfolding attend_token_append [OF L len] attn_step_def Let_def
    by (simp only: fst_conv attend_token_shape [of F L 1 ?p "length (x # xs)" ?p])
  note IH = Cons.IH [OF wf1, unfolded st1]
  have run: "attn_run F L (x # xs) st = (fst (attn_step F L x st) # fst (attn_run F L xs ?st1),
      snd (attn_run F L xs ?st1))"
    by (simp add: Let_def case_prod_unfold)
  show ?case
    unfolding run st1 IH
    using head
    by (simp add: Let_def case_prod_unfold shift comp_def
        attend_token_shape [of F L "length xs" _ "Suc (length xs)" ?p])
qed

lemma attn_forward_run:
  assumes L: "attn_layer_wf L" and wf: "attn_wf L st" and "xs \<noteq> []"
  shows "attn_forward F threads L xs (as_positions st) st = Inr (attn_run F L xs st)"
proof -
  let ?p = "as_positions st" and ?s = "length xs"
  let ?sh = "attn_shape F L ?s ?p"
  let ?K = "as_keys st @ concat (map (\<lambda>(t, x). row_keys F L (?p + t) x) (enumerate 0 xs))"
  let ?V = "as_values st @ concat (map (row_values L) xs)"
  let ?Q = "map (\<lambda>(t, x). row_queries F L (?p + t) x) (enumerate 0 xs)"
  let ?G = "map (row_gates L) xs"
  let ?at = "\<lambda>t. attend_token F ?sh (?Q ! t) (?G ! t) ?K ?V (?p + t + 1)"
  have wV: "length (concat (map (row_values L) xs)) = ?s * kv_width L"
    by (subst length_concat_rows [where width = "kv_width L"]) (auto simp: row_lengths [OF L])
  have scan: "scan_wf ?sh ?Q ?G ?V"
    using L wf by (auto simp: scan_wf_def attn_shape_def attn_layer_wf_def nth_enumerate_eq
        row_lengths [OF L] kv_wf_def wV algebra_simps)
  have sh: "ss_existing ?sh = ?p" "ss_seq ?sh = ?s" by (simp_all add: attn_shape_def)
  have result: "(case plan ?sh of PerHead \<Rightarrow> per_head_scan F ?sh ?Q ?G ?K ?V
      | Blocked \<Rightarrow> blocked_scan F threads ?sh ?Q ?G ?K ?V) = concat (map ?at [0..<?s])"
  proof (cases "plan ?sh")
    case PerHead
    then show ?thesis using per_head_scan_tokens [OF scan] by (simp add: sh)
  next
    case Blocked
    then have g: "groups ?sh \<le> MAX_GROUP" by (simp add: plan_def split: if_splits)
    from Blocked show ?thesis
      using blocked_scan_tokens [OF scan g] assms(3) by (simp add: sh)
  qed
  have "chunks (al_query_heads L * al_head_dim L) (concat (map ?at [0..<?s])) = map ?at [0..<?s]"
    by (rule chunks_concat) (use L in \<open>auto simp: attn_layer_wf_def\<close>)
  then have "attn_forward F threads L xs ?p st = Inr (map (al_output L) (map ?at [0..<?s]),
      \<lparr>as_keys = ?K, as_values = ?V, as_positions = ?p + ?s\<rparr>)"
    by (simp add: attn_forward_def Let_def bindE_ensure result del: map_map)
  moreover have "map (al_output L) (map ?at [0..<?s]) = fst (attn_run F L xs st)"
    unfolding attn_run_closed [OF L wf] Let_def fst_conv
    by (rule nth_equalityI) (simp_all add: nth_enumerate_eq)
  ultimately show ?thesis
    by (simp add: attn_run_closed [OF L wf] Let_def)
qed

lemma attn_run_append:
  "attn_run F L (xs @ ys) st =
     (let (us, st1) = attn_run F L xs st; (vs, st2) = attn_run F L ys st1 in (us @ vs, st2))"
  by (induction xs arbitrary: st) (simp_all add: Let_def case_prod_unfold)

lemma attn_wf_run: "attn_layer_wf L \<Longrightarrow> attn_wf L st \<Longrightarrow> attn_wf L (snd (attn_run F L xs st))"
  by (induction xs arbitrary: st) (simp_all add: Let_def case_prod_unfold attn_wf_step)

lemma attn_run_positions: "as_positions (snd (attn_run F L xs st)) = as_positions st + length xs"
  by (induction xs arbitrary: st) (simp_all add: Let_def case_prod_unfold attn_step_def)

lemma length_attn_run [simp]: "length (fst (attn_run F L xs st)) = length xs"
  by (induction xs arbitrary: st) (simp_all add: Let_def case_prod_unfold)

text \<open>Truncating after a pass gives the cache of the shorter pass.\<close>

lemma attn_run_prefix:
  assumes L: "attn_layer_wf L" and wf: "attn_wf L st"
  shows "kv_prefix (kv_width L) (kv_width L) (as_positions st + length xs) (snd (attn_run F L (xs @ ys) st))
    = snd (attn_run F L xs st)"
proof -
  let ?m = "snd (attn_run F L xs st)"
  have m: "attn_wf L ?m" by (rule attn_wf_run [OF L wf])
  obtain ks vs where "as_keys (snd (attn_run F L ys ?m)) = as_keys ?m @ ks"
    "as_values (snd (attn_run F L ys ?m)) = as_values ?m @ vs"
    by (simp add: attn_run_closed [OF L m] Let_def)
  with m show ?thesis
    by (simp add: kv_prefix_def attn_run_append Let_def case_prod_unfold kv_wf_def attn_run_positions)
qed

section \<open>Properties\<close>

text \<open>
  C20. The blocked scan and the per-head scan are bit-identical: for every head geometry
  whose group fits the register file, any number of threads, any block sizes that follow
  from it and any arithmetic, the two produce the same floats, so the plan a pass picks by
  the size of its cache cannot change a result.
\<close>

theorem blocked_scan_is_per_head_scan:
  assumes "scan_wf sh queries gates values" and "groups sh \<le> MAX_GROUP" and "0 < ss_seq sh"
  shows "blocked_scan F threads sh queries gates keys values = per_head_scan F sh queries gates keys values"
  using blocked_scan_tokens [OF assms] per_head_scan_tokens [OF assms(1)] by simp

text \<open>A pass of two rows over one cached position, two query heads on one KV head.\<close>

definition example_shape :: "int scan_shape" where
  "example_shape = \<lparr>ss_seq = 2, ss_existing = 1, ss_query_heads = 2, ss_kv_heads = 1, ss_head_dim = 2, ss_scale = 3\<rparr>"

lemma blocked_scan_is_per_head_scan_witness:
  "let Q = [[[1, 2], [3, 4]], [[5, 6], [7, 8]]]; G = [[[1, 0], [2, 1]], [[0, 1], [3, 2]]];
       K = [1, 2, 3, 4, 5, 6]; V = [6, 5, 4, 3, 2, 1]
   in blocked_scan int_fops 4 example_shape Q G K V = per_head_scan int_fops example_shape Q G K V"
  unfolding Let_def
  by (rule blocked_scan_is_per_head_scan)
    (auto simp: scan_wf_def example_shape_def groups_def MAX_GROUP_def less_2_cases_iff numeral_2_eq_2 less_Suc_eq)

text \<open>
  Causality and bit-exactness of a multi-row pass: evaluating \<open>xs @ ys\<close> in one pass gives
  the rows, and leaves the cache, that evaluating \<open>xs\<close> and then \<open>ys\<close> gives, whatever scan
  plans the three passes pick.
\<close>

theorem attn_forward_splits:
  assumes "attn_layer_wf L" and "attn_wf L st" and "xs \<noteq> []" and "ys \<noteq> []"
  shows "attn_forward F threads L (xs @ ys) (as_positions st) st =
    bindE (attn_forward F threads L xs (as_positions st) st) (\<lambda>(us, st1).
    bindE (attn_forward F threads L ys (as_positions st1) st1) (\<lambda>(vs, st2).
    Inr (us @ vs, st2)))"
proof -
  have st1: "attn_forward F threads L xs (as_positions st) st = Inr (attn_run F L xs st)"
    by (rule attn_forward_run [OF assms(1,2,3)])
  have st2: "attn_forward F threads L ys (as_positions (snd (attn_run F L xs st))) (snd (attn_run F L xs st))
      = Inr (attn_run F L ys (snd (attn_run F L xs st)))"
    by (rule attn_forward_run [OF assms(1) attn_wf_run [OF assms(1,2)] assms(4)])
  have "attn_forward F threads L (xs @ ys) (as_positions st) st = Inr (attn_run F L (xs @ ys) st)"
    using attn_forward_run [OF assms(1,2)] assms(3) by simp
  then show ?thesis
    unfolding st1 using st2 by (simp add: attn_run_append Let_def case_prod_unfold)
qed

definition example_attention :: "int attn_layer" where
  "example_attention = \<lparr>al_query_heads = 2, al_kv_heads = 1, al_head_dim = 1, al_rotary_dim = 0,
     al_rope = (\<lambda>_ _. (0, 1)), al_eps = 1, al_query = (\<lambda>x. [hd x, 1, hd x + 1, 2]), al_key = (\<lambda>x. [hd x]),
     al_value = (\<lambda>x. [hd x + 2]), al_output = (\<lambda>x. [sum_list x]), al_query_norm = [1], al_key_norm = [2]\<rparr>"

lemma example_attention_wf [simp]: "attn_layer_wf example_attention"
  by (simp add: attn_layer_wf_def example_attention_def)

lemma attn_forward_splits_witness:
  "attn_forward int_fops 4 example_attention ([[1], [2]] @ [[3]]) 0 attn_new =
    bindE (attn_forward int_fops 4 example_attention [[1], [2]] 0 attn_new) (\<lambda>(us, st1).
    bindE (attn_forward int_fops 4 example_attention [[3]] (as_positions st1) st1) (\<lambda>(vs, st2).
    Inr (us @ vs, st2)))"
proof -
  have "as_positions (attn_new :: int attn_state) = 0" by (simp add: attn_new_def)
  with attn_forward_splits [of example_attention attn_new "[[1], [2]]" "[[3]]" int_fops 4] show ?thesis
    by simp
qed

end
