(* ===== verification/DeltaNet.thy ===== *)
theory DeltaNet
  imports Attention
begin

text \<open>
  One linear-attention layer, \<open>src/qwen/quantized_deltanet.rs\<close> with the recurrence of
  \<open>src/qwen/deltanet.rs\<close>: the convolution and recurrent state a row updates, the snapshot
  arena that records the state before each row of a verification pass, and the \<open>forward\<close>
  that fills it.

  The scratch buffers of the source are overwritten before they are read in every row and
  are not part of the state here. The projections and the gated norm act row by row and are
  fields of the layer. The heads of the recurrence are independent, so running them on the
  pool or on the caller is the same map.
\<close>

section \<open>State and snapshots\<close>

record 'f delta_state =
  ds_conv :: "'f list"
  ds_recurrent :: "'f list"

record 'f delta_checkpoint =
  dc_conv :: "'f list"
  dc_recurrent :: "'f list"

record 'f delta_snapshots =
  sn_conv :: "'f list"
  sn_recurrent :: "'f list"
  sn_conv_len :: nat
  sn_recurrent_len :: nat
  sn_rows :: nat
  sn_stored_rows :: nat

text \<open>\<open>Vec::resize\<close> and \<open>dst[at..at + src.len()].copy_from_slice(src)\<close>.\<close>

definition vec_resize :: "'a list \<Rightarrow> nat \<Rightarrow> 'a \<Rightarrow> 'a list" where
  "vec_resize xs n d = take n xs @ replicate (n - length xs) d"

definition copy_into :: "'a list \<Rightarrow> nat \<Rightarrow> 'a list \<Rightarrow> 'a list" where
  "copy_into dst at src = take at dst @ src @ drop (at + length src) dst"

definition delta_checkpoint :: "'f delta_state \<Rightarrow> 'f delta_checkpoint" where
  "delta_checkpoint st = \<lparr>dc_conv = ds_conv st, dc_recurrent = ds_recurrent st\<rparr>"

definition delta_restore :: "'f delta_state \<Rightarrow> 'f delta_checkpoint \<Rightarrow> model_error + 'f delta_state" where
  "delta_restore st cp =
     bindE (ensure (length (ds_conv st) = length (dc_conv cp)
                  \<and> length (ds_recurrent st) = length (dc_recurrent cp)) DimensionMismatch) (\<lambda>_.
     Inr \<lparr>ds_conv = dc_conv cp, ds_recurrent = dc_recurrent cp\<rparr>)"

definition snapshots_default :: "'f delta_snapshots" where
  "snapshots_default = \<lparr>sn_conv = [], sn_recurrent = [], sn_conv_len = 0, sn_recurrent_len = 0,
     sn_rows = 0, sn_stored_rows = 0\<rparr>"

definition reserve :: "'f fops \<Rightarrow> 'f delta_snapshots \<Rightarrow> nat \<Rightarrow> nat \<Rightarrow> nat \<Rightarrow> 'f delta_snapshots" where
  "reserve F sn rows conv_len recurrent_len =
     (let sn1 = (if sn_rows sn \<noteq> rows \<or> sn_conv_len sn \<noteq> conv_len \<or> sn_recurrent_len sn \<noteq> recurrent_len
                 then sn\<lparr>sn_conv := vec_resize (sn_conv sn) (rows * conv_len) (f_zero F),
                         sn_recurrent := vec_resize (sn_recurrent sn) (rows * recurrent_len) (f_zero F),
                         sn_rows := rows, sn_conv_len := conv_len, sn_recurrent_len := recurrent_len\<rparr>
                 else sn)
      in sn1\<lparr>sn_stored_rows := 0\<rparr>)"

definition store :: "'f delta_snapshots \<Rightarrow> nat \<Rightarrow> 'f delta_state \<Rightarrow> 'f delta_snapshots" where
  "store sn row st = sn\<lparr>
     sn_conv := copy_into (sn_conv sn) (row * sn_conv_len sn) (ds_conv st),
     sn_recurrent := copy_into (sn_recurrent sn) (row * sn_recurrent_len sn) (ds_recurrent st),
     sn_stored_rows := max (sn_stored_rows sn) (row + 1)\<rparr>"

definition restore_into :: "'f delta_snapshots \<Rightarrow> nat \<Rightarrow> 'f delta_state \<Rightarrow> model_error + 'f delta_state" where
  "restore_into sn row st =
     (if sn_stored_rows sn = 0 then Inr st
      else bindE (ensure (row < sn_stored_rows sn) SnapshotRows) (\<lambda>_.
           bindE (ensure (length (ds_conv st) = sn_conv_len sn
                        \<and> length (ds_recurrent st) = sn_recurrent_len sn) DimensionMismatch) (\<lambda>_.
           Inr \<lparr>ds_conv = flat_row (sn_conv sn) (sn_conv_len sn) row,
                ds_recurrent = flat_row (sn_recurrent sn) (sn_recurrent_len sn) row\<rparr>)))"

section \<open>The recurrence\<close>

text \<open>One channel of the causal convolution: its output and its rotated history.\<close>

definition conv_channel :: "'f fops \<Rightarrow> 'f list \<Rightarrow> 'f list \<Rightarrow> nat \<Rightarrow> 'f list \<Rightarrow> nat \<Rightarrow> 'f \<times> 'f list" where
  "conv_channel F input weights taps state channel =
     (let history_len = taps - 1;
          weight_base = channel * taps;
          history = flat_row state history_len channel;
          x = input ! channel;
          acc = foldl (\<lambda>acc (tap, previous). f_add F acc (f_mul F (weights ! (weight_base + tap)) previous))
                  (f_mul F (weights ! (weight_base + history_len)) x) (enumerate 0 history)
      in (silu F acc,
          if 0 < history_len then (rotate1 history)[history_len - 1 := x] else history))"

definition causal_depthwise_conv_step ::
    "'f fops \<Rightarrow> 'f list \<Rightarrow> 'f list \<Rightarrow> nat \<Rightarrow> 'f list \<Rightarrow> 'f list \<times> 'f list" where
  "causal_depthwise_conv_step F input weights taps state =
     (let channels = map (conv_channel F input weights taps state) [0..<length input]
      in (map fst channels, concat (map snd channels)))"

definition l2_normalize :: "'f fops \<Rightarrow> 'f \<Rightarrow> 'f list \<Rightarrow> 'f list" where
  "l2_normalize F eps values =
     (let scale = f_recip F (f_sqrt F (f_add F (f_sum F (map (\<lambda>v. f_mul F v v) values)) eps))
      in map (\<lambda>v. f_mul F v scale) values)"

text \<open>\<open>delta_head_step\<close>: the head's output row and its new \<open>[key, value]\<close> block.\<close>

definition delta_head_step ::
    "'f fops \<Rightarrow> 'f list \<Rightarrow> 'f list \<Rightarrow> 'f list \<Rightarrow> 'f \<Rightarrow> 'f \<Rightarrow> nat \<Rightarrow> nat \<Rightarrow> 'f \<Rightarrow> 'f list \<Rightarrow> 'f list \<times> 'f list" where
  "delta_head_step F q k v g beta key_dim value_dim q_scale state =
     (let decay = f_exp F g;
          decayed = map (\<lambda>cell. f_mul F cell decay) state;
          prediction = foldl (\<lambda>out i. zip_mut (\<lambda>p cell. f_add F p (f_mul F cell (k ! i))) out
                           (flat_row decayed value_dim i)) (replicate value_dim (f_zero F)) [0..<key_dim];
          delta = zip_mut (\<lambda>d target. f_mul F (f_sub F target d) beta) prediction v;
          state' = concat (map (\<lambda>i. zip_mut (\<lambda>cell d. f_add F cell (f_mul F (k ! i) d))
                           (flat_row decayed value_dim i) delta) [0..<key_dim]);
          output = foldl (\<lambda>out i. zip_mut (\<lambda>x cell. f_add F x (f_mul F (f_mul F cell (q ! i)) q_scale)) out
                           (flat_row state' value_dim i)) (replicate value_dim (f_zero F)) [0..<key_dim]
      in (output, state'))"

definition recurrent_delta_step ::
    "'f fops \<Rightarrow> 'f list \<Rightarrow> 'f list \<Rightarrow> 'f list \<Rightarrow> 'f list \<Rightarrow> 'f list \<Rightarrow> nat \<Rightarrow> nat \<Rightarrow> nat \<Rightarrow> 'f list \<Rightarrow> 'f list \<times> 'f list" where
  "recurrent_delta_step F q k v g beta heads key_dim value_dim state =
     (let q_scale = f_recip F (f_sqrt F (f_of_nat F key_dim));
          results = map (\<lambda>h. delta_head_step F (flat_row q key_dim h) (flat_row k key_dim h)
              (flat_row v value_dim h) (g ! h) (beta ! h) key_dim value_dim q_scale
              (flat_row state (key_dim * value_dim) h)) [0..<heads]
      in (concat (map fst results), concat (map snd results)))"

section \<open>The layer\<close>

datatype beta_alpha_layout = InterleavedByKeyHead | GroupedByProjection

datatype value_head_layout = GroupedByKeyHead | TiledByRepeat

definition layout_index :: "value_head_layout \<Rightarrow> nat \<Rightarrow> nat \<Rightarrow> nat \<Rightarrow> nat \<Rightarrow> nat" where
  "layout_index layout key_head rep key_heads repeats_per_key =
     (case layout of
        GroupedByKeyHead \<Rightarrow> key_head * repeats_per_key + rep
      | TiledByRepeat \<Rightarrow> rep * key_heads + key_head)"

datatype 'f delta_projection =
    Fused "'f list \<Rightarrow> 'f list"
  | Separate "'f list \<Rightarrow> 'f list" "'f list \<Rightarrow> 'f list"

record 'f delta_layer =
  dl_key_heads :: nat
  dl_value_heads :: nat
  dl_key_head_dim :: nat
  dl_value_head_dim :: nat
  dl_value_head_layout :: value_head_layout
  dl_conv_kernel :: nat
  dl_qkvz :: "'f delta_projection"
  dl_beta_alpha :: "'f list \<Rightarrow> 'f list"
  dl_beta_alpha_layout :: beta_alpha_layout
  dl_output :: "'f list \<Rightarrow> 'f list"
  dl_conv_weight :: "'f list"
  dl_state_scale :: "'f list"
  dl_dt_bias :: "'f list"
  dl_gated_norm :: "'f list \<Rightarrow> 'f list \<Rightarrow> 'f list"
  dl_l2_eps :: 'f

abbreviation key_dim :: "'f delta_layer \<Rightarrow> nat" where
  "key_dim L \<equiv> dl_key_heads L * dl_key_head_dim L"

abbreviation value_dim :: "'f delta_layer \<Rightarrow> nat" where
  "value_dim L \<equiv> dl_value_heads L * dl_value_head_dim L"

abbreviation conv_dim :: "'f delta_layer \<Rightarrow> nat" where
  "conv_dim L \<equiv> key_dim L * 2 + value_dim L"

abbreviation conv_len :: "'f delta_layer \<Rightarrow> nat" where
  "conv_len L \<equiv> conv_dim L * (dl_conv_kernel L - 1)"

abbreviation recurrent_len :: "'f delta_layer \<Rightarrow> nat" where
  "recurrent_len L \<equiv> dl_value_heads L * (dl_key_head_dim L * dl_value_head_dim L)"

definition delta_new :: "'f fops \<Rightarrow> 'f delta_layer \<Rightarrow> 'f delta_state" where
  "delta_new F L = \<lparr>ds_conv = replicate (conv_len L) (f_zero F),
     ds_recurrent = replicate (recurrent_len L) (f_zero F)\<rparr>"

text \<open>The \<open>(key head, repeat)\<close> loop that spreads the key heads over the value heads.\<close>

definition repeat_heads :: "'f fops \<Rightarrow> 'f delta_layer \<Rightarrow> 'f list \<Rightarrow> 'f list" where
  "repeat_heads F L heads =
     (let ratio = dl_value_heads L div dl_key_heads L
      in fold (\<lambda>key_head acc.
           let head = l2_normalize F (dl_l2_eps L) (flat_row heads (dl_key_head_dim L) key_head)
           in fold (\<lambda>rep acc.
                copy_into acc (layout_index (dl_value_head_layout L) key_head rep (dl_key_heads L) ratio
                                 * dl_key_head_dim L) head) [0..<ratio] acc)
         [0..<dl_key_heads L] (replicate (dl_value_heads L * dl_key_head_dim L) (f_zero F)))"

definition gate_parameters :: "'f fops \<Rightarrow> 'f delta_layer \<Rightarrow> 'f list \<Rightarrow> 'f list \<times> 'f list" where
  "gate_parameters F L params =
     (let ratio = dl_value_heads L div dl_key_heads L
      in fold (\<lambda>key_head. fold (\<lambda>rep (beta, decay).
           let value_head = layout_index (dl_value_head_layout L) key_head rep (dl_key_heads L) ratio;
               base = key_head * 2 * ratio;
               (b, a) = (case dl_beta_alpha_layout L of
                   InterleavedByKeyHead \<Rightarrow> (params ! (base + rep), params ! (base + ratio + rep))
                 | GroupedByProjection \<Rightarrow> (params ! value_head, params ! (dl_value_heads L + value_head)))
           in (beta[value_head := sigmoid F b],
               decay[value_head := f_mul F (dl_state_scale L ! value_head)
                        (softplus F (f_add F a (dl_dt_bias L ! value_head)))])) [0..<ratio])
         [0..<dl_key_heads L]
         (replicate (dl_value_heads L) (f_zero F), replicate (dl_value_heads L) (f_zero F)))"

text \<open>One row: its projections, the convolution, the recurrence, the gated output.\<close>

definition delta_step :: "'f fops \<Rightarrow> 'f delta_layer \<Rightarrow> 'f list \<Rightarrow> 'f delta_state \<Rightarrow> 'f list \<times> 'f delta_state" where
  "delta_step F L x st =
     (let (projected, gate) = (case dl_qkvz L of
            Fused qkvz \<Rightarrow> (take (conv_dim L) (qkvz x), drop (conv_dim L) (qkvz x))
          | Separate qkv z \<Rightarrow> (qkv x, z x));
          (convolved, conv) = causal_depthwise_conv_step F projected (dl_conv_weight L) (dl_conv_kernel L)
                                (ds_conv st);
          q = repeat_heads F L (take (key_dim L) convolved);
          k = repeat_heads F L (slice convolved (key_dim L) (key_dim L * 2));
          v = drop (key_dim L * 2) convolved;
          (beta, decay) = gate_parameters F L (dl_beta_alpha L x);
          (out, recurrent) = recurrent_delta_step F q k v decay beta (dl_value_heads L) (dl_key_head_dim L)
                               (dl_value_head_dim L) (ds_recurrent st);
          normed = concat (map (\<lambda>h. dl_gated_norm L (flat_row out (dl_value_head_dim L) h)
                               (flat_row gate (dl_value_head_dim L) h)) [0..<dl_value_heads L])
      in (dl_output L normed, \<lparr>ds_conv = conv, ds_recurrent = recurrent\<rparr>))"

text \<open>The token loop: after row \<open>token\<close>, the state is recorded as the entry of the next row.\<close>

fun delta_loop ::
    "'f fops \<Rightarrow> 'f delta_layer \<Rightarrow> nat \<Rightarrow> 'f list list \<Rightarrow> 'f delta_state \<Rightarrow> 'f delta_snapshots option
      \<Rightarrow> 'f list list \<times> 'f delta_state \<times> 'f delta_snapshots option" where
  "delta_loop F L token [] st sink = ([], st, sink)"
| "delta_loop F L token (x # xs) st sink =
     (let (y, st1) = delta_step F L x st;
          sink1 = (if xs \<noteq> [] then map_option (\<lambda>sn. store sn (token + 1) st1) sink else sink);
          (ys, st2, sink2) = delta_loop F L (token + 1) xs st1 sink1
      in (y # ys, st2, sink2))"

definition delta_forward ::
    "'f fops \<Rightarrow> 'f delta_layer \<Rightarrow> 'f list list \<Rightarrow> 'f delta_state \<Rightarrow> 'f delta_snapshots option
      \<Rightarrow> model_error + 'f list list \<times> 'f delta_state \<times> 'f delta_snapshots option" where
  "delta_forward F L xs st sink =
     bindE (ensure (length (ds_conv st) = conv_len L) DimensionMismatch) (\<lambda>_.
     bindE (ensure (length (ds_recurrent st) = recurrent_len L) DimensionMismatch) (\<lambda>_.
     bindE (case sink of None \<Rightarrow> Inr None
        | Some sn \<Rightarrow> bindE (ensure (length xs \<le> sn_rows sn) SnapshotRows) (\<lambda>_. Inr (Some (store sn 0 st)))) (\<lambda>sink0.
     Inr (delta_loop F L 0 xs st sink0))))"

section \<open>Shapes\<close>

definition delta_layer_wf :: "'f delta_layer \<Rightarrow> bool" where
  "delta_layer_wf L \<longleftrightarrow> 0 < dl_conv_kernel L
     \<and> (case dl_qkvz L of
          Fused f \<Rightarrow> \<forall>x. conv_dim L \<le> length (f x)
        | Separate f g \<Rightarrow> \<forall>x. length (f x) = conv_dim L)"

definition delta_wf :: "'f delta_layer \<Rightarrow> 'f delta_state \<Rightarrow> bool" where
  "delta_wf L st \<longleftrightarrow> length (ds_conv st) = conv_len L \<and> length (ds_recurrent st) = recurrent_len L"

lemma delta_wf_new [simp]: "delta_wf L (delta_new F L)"
  by (simp add: delta_wf_def delta_new_def)

lemma length_conv_step:
  assumes "length state = length input * (taps - 1)"
  shows "length (fst (causal_depthwise_conv_step F input weights taps state)) = length input"
    "length (snd (causal_depthwise_conv_step F input weights taps state)) = length input * (taps - 1)"
proof -
  show "length (fst (causal_depthwise_conv_step F input weights taps state)) = length input"
    by (simp add: causal_depthwise_conv_step_def Let_def)
  have "length (flat_row state (taps - 1) c) = taps - 1" if "c < length input" for c
    by (rule length_flat_row) (use that in \<open>simp add: assms del: mult_Suc add_Suc\<close>)
  then show "length (snd (causal_depthwise_conv_step F input weights taps state)) = length input * (taps - 1)"
    by (simp add: causal_depthwise_conv_step_def Let_def)
      (subst length_concat_rows [where width = "taps - 1"]; auto simp: conv_channel_def Let_def)
qed

lemma length_delta_head_step:
  assumes "length state = kd * vd"
  shows "length (snd (delta_head_step F q k v g beta kd vd q_scale state)) = kd * vd"
proof -
  have "length (flat_row (map f state) vd i) = vd" if "i < kd" for i and f :: "'a \<Rightarrow> 'a"
    by (rule length_flat_row) (use that in \<open>simp add: assms mult_right_mono Suc_leI del: mult_Suc\<close>)
  then show ?thesis
    by (simp add: delta_head_step_def Let_def)
      (subst length_concat_rows [where width = vd]; auto)
qed

lemma length_recurrent_delta_step:
  assumes "length state = heads * (kd * vd)"
  shows "length (snd (recurrent_delta_step F q k v g beta heads kd vd state))
    = heads * (kd * vd)"
proof -
  have "length (flat_row state (kd * vd) h) = kd * vd" if "h < heads" for h
    by (rule length_flat_row) (use that in \<open>simp add: assms mult_right_mono Suc_leI del: mult_Suc\<close>)
  then show ?thesis
    by (simp add: recurrent_delta_step_def Let_def)
      (subst length_concat_rows [where width = "kd * vd"]; auto simp: length_delta_head_step)
qed

lemma delta_wf_step:
  assumes L: "delta_layer_wf L" and wf: "delta_wf L st"
  shows "delta_wf L (snd (delta_step F L x st))"
proof -
  have "length (fst (case dl_qkvz L of
            Fused qkvz \<Rightarrow> (take (conv_dim L) (qkvz x), drop (conv_dim L) (qkvz x))
          | Separate qkv z \<Rightarrow> (qkv x, z x))) = conv_dim L"
    using L by (auto simp: delta_layer_wf_def min_absorb2 split: delta_projection.splits)
  with wf show ?thesis
    by (simp add: delta_step_def Let_def case_prod_unfold delta_wf_def length_conv_step
        length_recurrent_delta_step)
qed

section \<open>A pass is its rows, one after another\<close>

fun delta_run :: "'f fops \<Rightarrow> 'f delta_layer \<Rightarrow> 'f list list \<Rightarrow> 'f delta_state \<Rightarrow> 'f list list \<times> 'f delta_state" where
  "delta_run F L [] st = ([], st)"
| "delta_run F L (x # xs) st =
     (let (y, st1) = delta_step F L x st; (ys, st2) = delta_run F L xs st1 in (y # ys, st2))"

lemma delta_run_append:
  "delta_run F L (xs @ ys) st =
     (let (us, st1) = delta_run F L xs st; (vs, st2) = delta_run F L ys st1 in (us @ vs, st2))"
  by (induction xs arbitrary: st) (simp_all add: Let_def case_prod_unfold)

lemma length_delta_run [simp]: "length (fst (delta_run F L xs st)) = length xs"
  by (induction xs arbitrary: st) (simp_all add: Let_def case_prod_unfold)

lemma delta_wf_run: "delta_layer_wf L \<Longrightarrow> delta_wf L st \<Longrightarrow> delta_wf L (snd (delta_run F L xs st))"
  by (induction xs arbitrary: st) (simp_all add: Let_def case_prod_unfold delta_wf_step)

text \<open>The sink changes nothing about the pass.\<close>

lemma delta_loop_run:
  "fst (delta_loop F L token xs st sink) = fst (delta_run F L xs st)"
  "fst (snd (delta_loop F L token xs st sink)) = snd (delta_run F L xs st)"
  by (induction xs arbitrary: token st sink) (simp_all add: Let_def case_prod_unfold)

lemma delta_loop_None: "delta_loop F L token xs st None = (fst (delta_run F L xs st), snd (delta_run F L xs st), None)"
proof -
  have "snd (snd (delta_loop F L token xs st None)) = None"
    by (induction xs arbitrary: token st) (simp_all add: Let_def case_prod_unfold)
  then show ?thesis using delta_loop_run by (metis prod.collapse)
qed

section \<open>The arena holds the state before every row\<close>

definition arena_ok :: "'f delta_snapshots \<Rightarrow> bool" where
  "arena_ok sn \<longleftrightarrow> length (sn_conv sn) = sn_rows sn * sn_conv_len sn
     \<and> length (sn_recurrent sn) = sn_rows sn * sn_recurrent_len sn"

definition slot_state :: "'f delta_snapshots \<Rightarrow> nat \<Rightarrow> 'f delta_state" where
  "slot_state sn r = \<lparr>ds_conv = flat_row (sn_conv sn) (sn_conv_len sn) r,
     ds_recurrent = flat_row (sn_recurrent sn) (sn_recurrent_len sn) r\<rparr>"

definition fits :: "'f delta_snapshots \<Rightarrow> 'f delta_state \<Rightarrow> bool" where
  "fits sn st \<longleftrightarrow> length (ds_conv st) = sn_conv_len sn \<and> length (ds_recurrent st) = sn_recurrent_len sn"

lemma length_vec_resize [simp]: "length (vec_resize xs n d) = n"
  by (simp add: vec_resize_def)

lemma arena_ok_default [simp]: "arena_ok snapshots_default"
  by (simp add: arena_ok_def snapshots_default_def)

lemma arena_ok_reserve: "arena_ok sn \<Longrightarrow> arena_ok (reserve F sn rows cl rl)"
  by (simp add: arena_ok_def reserve_def Let_def)

lemma reserve_fields [simp]:
  "sn_rows (reserve F sn rows cl rl) = rows" "sn_conv_len (reserve F sn rows cl rl) = cl"
  "sn_recurrent_len (reserve F sn rows cl rl) = rl" "sn_stored_rows (reserve F sn rows cl rl) = 0"
  by (simp_all add: reserve_def Let_def)

lemma length_copy_into: "at + length src \<le> length dst \<Longrightarrow> length (copy_into dst at src) = length dst"
  by (simp add: copy_into_def)

lemma nth_copy_into:
  "at + length src \<le> length dst \<Longrightarrow> i < length dst \<Longrightarrow>
    copy_into dst at src ! i = (if at \<le> i \<and> i < at + length src then src ! (i - at) else dst ! i)"
  by (auto simp: copy_into_def nth_append)

lemma row_end_le: "r < n \<Longrightarrow> r * w + w \<le> n * (w :: nat)"
  by (metis Suc_leI add.commute mult_Suc mult_le_mono1)

lemma flat_row_copy_into:
  assumes "length src = w" "length dst = n * w" "row < n" "r < n"
  shows "flat_row (copy_into dst (row * w) src) w r = (if r = row then src else flat_row dst w r)"
proof (rule nth_equalityI)
  have len: "length (copy_into dst (row * w) src) = n * w"
    using length_copy_into [of "row * w" src dst] row_end_le [OF assms(3), of w] assms by simp
  then have "length (flat_row (copy_into dst (row * w) src) w r) = w"
    using row_end_le [OF assms(4), of w] by (simp add: length_flat_row)
  moreover have "length (flat_row dst w r) = w"
    using row_end_le [OF assms(4), of w] assms(2) by (simp add: length_flat_row)
  ultimately show "length (flat_row (copy_into dst (row * w) src) w r)
      = length (if r = row then src else flat_row dst w r)"
    using assms(1) by simp
  fix i assume "i < length (flat_row (copy_into dst (row * w) src) w r)"
  with \<open>length (flat_row (copy_into dst (row * w) src) w r) = w\<close> have i: "i < w" by simp
  have nth: "flat_row xs w r ! i = xs ! (r * w + i)" if "length xs = n * w" for xs :: "'a list"
    using row_end_le [OF assms(4), of w] that i by (simp add: flat_row_def)
  have inside: "r * w + i < n * w" using row_end_le [OF assms(4), of w] i by simp
  have apart: "row * w \<le> r * w + i \<and> r * w + i < row * w + w \<longleftrightarrow> r = row"
  proof
    assume "row * w \<le> r * w + i \<and> r * w + i < row * w + w"
    with i have "row * w < Suc r * w" "r * w < Suc row * w" by auto
    then show "r = row" unfolding mult_less_cancel2 by simp
  qed (use i in simp)
  show "flat_row (copy_into dst (row * w) src) w r ! i = (if r = row then src else flat_row dst w r) ! i"
    using nth [OF len] nth [OF assms(2)] nth_copy_into [of "row * w" src dst "r * w + i"] assms inside apart
      row_end_le [OF assms(3), of w]
    by auto
qed

lemma store_slot:
  assumes "arena_ok sn" "fits sn st" "row < sn_rows sn" "r < sn_rows sn"
  shows "slot_state (store sn row st) r = (if r = row then st else slot_state sn r)"
  using assms flat_row_copy_into [of "ds_conv st" "sn_conv_len sn" "sn_conv sn" "sn_rows sn" row r]
    flat_row_copy_into [of "ds_recurrent st" "sn_recurrent_len sn" "sn_recurrent sn" "sn_rows sn" row r]
  by (simp add: slot_state_def store_def arena_ok_def fits_def)

lemma store_fields [simp]:
  "sn_rows (store sn row st) = sn_rows sn" "sn_conv_len (store sn row st) = sn_conv_len sn"
  "sn_recurrent_len (store sn row st) = sn_recurrent_len sn"
  "sn_stored_rows (store sn row st) = max (sn_stored_rows sn) (row + 1)"
  by (simp_all add: store_def)

lemma arena_ok_store: "arena_ok sn \<Longrightarrow> fits sn st \<Longrightarrow> row < sn_rows sn \<Longrightarrow> arena_ok (store sn row st)"
  using row_end_le [of row "sn_rows sn" "sn_conv_len sn"] row_end_le [of row "sn_rows sn" "sn_recurrent_len sn"]
  by (simp add: arena_ok_def store_def fits_def length_copy_into)

definition arena_for :: "'f delta_layer \<Rightarrow> 'f delta_snapshots \<Rightarrow> bool" where
  "arena_for L sn \<longleftrightarrow> arena_ok sn \<and> sn_conv_len sn = conv_len L \<and> sn_recurrent_len sn = recurrent_len L"

lemma arena_for_fits: "arena_for L sn \<Longrightarrow> delta_wf L st \<Longrightarrow> fits sn st"
  by (simp add: arena_for_def delta_wf_def fits_def)

lemma arena_for_store:
  "arena_for L sn \<Longrightarrow> delta_wf L st \<Longrightarrow> row < sn_rows sn \<Longrightarrow> arena_for L (store sn row st)"
  using arena_ok_store [of sn st row] arena_for_fits [of L sn st] by (simp add: arena_for_def)

lemma delta_loop_arena:
  assumes L: "delta_layer_wf L" and "delta_wf L st" "arena_for L sn" "token + length xs \<le> sn_rows sn" "xs \<noteq> []"
  shows "\<exists>sn'. snd (snd (delta_loop F L token xs st (Some sn))) = Some sn' \<and> arena_for L sn'
    \<and> sn_rows sn' = sn_rows sn \<and> sn_stored_rows sn' = (if length xs = 1 then sn_stored_rows sn
          else max (sn_stored_rows sn) (token + length xs))
    \<and> (\<forall>r \<le> token. slot_state sn' r = slot_state sn r)
    \<and> (\<forall>j. 0 < j \<and> j < length xs \<longrightarrow> slot_state sn' (token + j) = snd (delta_run F L (take j xs) st))"
  using assms(2-)
proof (induction xs arbitrary: token st sn)
  case Nil
  then show ?case by simp
next
  case (Cons x xs)
  let ?st1 = "snd (delta_step F L x st)"
  show ?case
  proof (cases "xs = []")
    case True
    with Cons.prems show ?thesis by (simp add: Let_def case_prod_unfold)
  next
    case False
    let ?sn1 = "store sn (token + 1) ?st1"
    have tok: "token + 1 < sn_rows sn" using Cons.prems(3) False by (cases xs) simp_all
    have wf1: "delta_wf L ?st1" by (rule delta_wf_step [OF L Cons.prems(1)])
    have ar1: "arena_for L ?sn1" by (rule arena_for_store [OF Cons.prems(2) wf1 tok])
    have slot1: "slot_state ?sn1 r = (if r = token + 1 then ?st1 else slot_state sn r)" if "r < sn_rows sn" for r
      using Cons.prems(2) tok that
      by (intro store_slot arena_for_fits [OF _ wf1]) (simp_all add: arena_for_def)
    from Cons.IH [OF wf1 ar1 _ False, of "token + 1"] Cons.prems(3)
    obtain sn' where sn': "snd (snd (delta_loop F L (token + 1) xs ?st1 (Some ?sn1))) = Some sn'"
      "arena_for L sn'" "sn_rows sn' = sn_rows sn"
      "sn_stored_rows sn' = (if length xs = 1 then sn_stored_rows ?sn1
          else max (sn_stored_rows ?sn1) (token + 1 + length xs))"
      "\<forall>r \<le> token + 1. slot_state sn' r = slot_state ?sn1 r"
      "\<forall>j. 0 < j \<and> j < length xs \<longrightarrow> slot_state sn' (token + 1 + j) = snd (delta_run F L (take j xs) ?st1)"
      by auto
    have low: "\<forall>r \<le> token. slot_state sn' r = slot_state sn r"
      using sn'(5) slot1 tok by simp
    have high: "slot_state sn' (token + j) = snd (delta_run F L (take j (x # xs)) st)"
      if "0 < j" "j < length (x # xs)" for j
    proof (cases j)
      case (Suc i)
      show ?thesis
      proof (cases "i = 0")
        case True
        with Suc sn'(5) slot1 [OF tok] show ?thesis by (simp add: Let_def case_prod_unfold)
      next
        case False
        with Suc that sn'(6) show ?thesis by (simp add: Let_def case_prod_unfold)
      qed
    qed (use that in simp)
    have "length xs = Suc 0 \<or> Suc 0 < length xs" using False by (cases xs) auto
    with sn' low high False show ?thesis
      by (intro exI [of _ sn']) (auto simp: Let_def case_prod_unfold max_def)
  qed
qed

lemma delta_forward_run:
  assumes "delta_wf L st"
  shows "delta_forward F L xs st None = Inr (fst (delta_run F L xs st), snd (delta_run F L xs st), None)"
  using assms by (simp add: delta_forward_def delta_wf_def bindE_ensure delta_loop_None)

lemma delta_forward_arena:
  assumes L: "delta_layer_wf L" and st: "delta_wf L st" and sn: "arena_for L sn" "sn_stored_rows sn = 0"
    and xs: "length xs \<le> sn_rows sn" "xs \<noteq> []"
  shows "\<exists>sn'. delta_forward F L xs st (Some sn)
        = Inr (fst (delta_run F L xs st), snd (delta_run F L xs st), Some sn')
    \<and> arena_for L sn' \<and> sn_rows sn' = sn_rows sn \<and> sn_stored_rows sn' = length xs
    \<and> (\<forall>r < length xs. slot_state sn' r = snd (delta_run F L (take r xs) st))"
proof -
  let ?sn0 = "store sn 0 st"
  have pos: "0 < sn_rows sn" using xs by (cases xs) simp_all
  have ar0: "arena_for L ?sn0" by (rule arena_for_store [OF sn(1) st pos])
  have slot0: "slot_state ?sn0 0 = st"
    using store_slot [OF _ arena_for_fits [OF sn(1) st] pos pos] sn(1) by (simp add: arena_for_def)
  from delta_loop_arena [OF L st ar0, of 0 xs F] xs obtain sn' where
    sn': "snd (snd (delta_loop F L 0 xs st (Some ?sn0))) = Some sn'" "arena_for L sn'"
    "sn_rows sn' = sn_rows sn"
    "sn_stored_rows sn' = (if length xs = 1 then sn_stored_rows ?sn0 else max (sn_stored_rows ?sn0) (length xs))"
    "slot_state sn' 0 = slot_state ?sn0 0"
    "\<forall>j. 0 < j \<and> j < length xs \<longrightarrow> slot_state sn' j = snd (delta_run F L (take j xs) st)"
    by auto
  have "delta_forward F L xs st (Some sn)
      = Inr (fst (delta_run F L xs st), snd (delta_run F L xs st), Some sn')"
    using st xs(1) delta_loop_run [of F L 0 xs st "Some ?sn0"] sn'(1)
    by (simp add: delta_forward_def delta_wf_def bindE_ensure prod_eq_iff)
  moreover have "sn_stored_rows sn' = length xs"
    using sn'(4) sn(2) xs(2) by (cases xs) simp_all
  moreover have "slot_state sn' r = snd (delta_run F L (take r xs) st)" if "r < length xs" for r
    using sn'(5,6) slot0 that by (cases r) auto
  ultimately show ?thesis using sn'(2,3) by blast
qed

lemma restore_into_slot:
  assumes "arena_for L sn" "delta_wf L st" "r < sn_stored_rows sn"
  shows "restore_into sn r st = Inr (slot_state sn r)"
  using assms by (auto simp: restore_into_def arena_for_def delta_wf_def bindE_ensure slot_state_def)

lemma restore_into_untouched: "sn_stored_rows sn = 0 \<Longrightarrow> restore_into sn r st = Inr st"
  by (simp add: restore_into_def)

text \<open>A one-head layer on the integers, for concrete evaluations.\<close>

definition example_delta :: "int delta_layer" where
  "example_delta = \<lparr>dl_key_heads = 1, dl_value_heads = 1, dl_key_head_dim = 1, dl_value_head_dim = 1,
     dl_value_head_layout = GroupedByKeyHead, dl_conv_kernel = 2,
     dl_qkvz = Separate (\<lambda>x. [hd x, 1, 2]) (\<lambda>x. [hd x]), dl_beta_alpha = (\<lambda>x. [hd x, 1]),
     dl_beta_alpha_layout = GroupedByProjection, dl_output = (\<lambda>x. x), dl_conv_weight = [1, 2, 1, 2, 1, 2],
     dl_state_scale = [1], dl_dt_bias = [0], dl_gated_norm = map2 (*), dl_l2_eps = 1\<rparr>"

lemma example_delta_wf [simp]: "delta_layer_wf example_delta"
  by (simp add: delta_layer_wf_def example_delta_def)

end
