(* ===== verification/Moe.thy ===== *)
theory Moe
  imports Attention
begin

text \<open>
  The sparse mixture-of-experts block, \<open>src/qwen/quantized_moe.rs\<close> with the router of
  \<open>src/qwen/moe.rs\<close>: top-k routing, the token-major execution of a one-row pass, the
  execution of wider passes grouped by expert, and the shared expert.

  Loading an expert reads the checkpoint and may fail: \<open>ml_gate_up\<close> and \<open>ml_down\<close> give the
  row function of an expert, or \<open>None\<close>. \<open>ml_rank\<close> is the unstable sort of the expert
  indices by probability, whose order on ties the standard library leaves open.
\<close>

section \<open>Routing\<close>

record 'f route =
  rt_experts :: "nat list"
  rt_weights :: "'f list"
  rt_logits :: "'f list"

record 'f moe_layer =
  ml_hidden_size :: nat
  ml_intermediate_size :: nat
  ml_expert_count :: nat
  ml_experts_per_token :: nat
  ml_normalize_top_k :: bool
  ml_rank :: "'f list \<Rightarrow> nat list"
  ml_router :: "'f list \<Rightarrow> 'f list"
  ml_shared_gate_up :: "'f list \<Rightarrow> 'f list"
  ml_shared_down :: "'f list \<Rightarrow> 'f list"
  ml_shared_selector :: "'f list \<Rightarrow> 'f"
  ml_gate_up :: "nat \<Rightarrow> ('f list \<Rightarrow> 'f list) option"
  ml_down :: "nat \<Rightarrow> ('f list \<Rightarrow> 'f list) option"

datatype moe_error = InvalidTopK | ExpertLoad | MissingAssignment

definition top_k_route ::
    "'f fops \<Rightarrow> ('f list \<Rightarrow> nat list) \<Rightarrow> nat \<Rightarrow> bool \<Rightarrow> 'f list \<Rightarrow> moe_error + 'f route" where
  "top_k_route F rank k normalize_top_k row =
     bindE (ensure (0 < k \<and> k \<le> length row) InvalidTopK) (\<lambda>_.
     let mx = foldl (f_max F) (f_neg_inf F) row;
         denominator = f_sum F (map (\<lambda>x. f_exp F (f_sub F x mx)) row);
         probabilities = map (\<lambda>x. f_div F (f_exp F (f_sub F x mx)) denominator) row;
         ranked = take k (rank probabilities);
         weights = map (\<lambda>i. probabilities ! i) ranked;
         weights = (if normalize_top_k then let s = f_sum F weights in map (\<lambda>w. f_div F w s) weights else weights)
     in Inr \<lparr>rt_experts = ranked, rt_weights = weights, rt_logits = row\<rparr>)"

definition top_k_routes ::
    "'f fops \<Rightarrow> ('f list \<Rightarrow> nat list) \<Rightarrow> nat \<Rightarrow> bool \<Rightarrow> 'f list list \<Rightarrow> moe_error + 'f route list" where
  "top_k_routes F rank k normalize_top_k logits = mapE (top_k_route F rank k normalize_top_k) logits"

record routing_stats =
  rs_batches :: nat
  rs_rows :: nat
  rs_assignments :: nat
  rs_unique :: nat
  rs_max_rows :: nat

definition expert_counts :: "'f route list \<Rightarrow> nat \<Rightarrow> nat list" where
  "expert_counts routes expert_count =
     fold (\<lambda>route counts. fold (\<lambda>e counts. counts[e := counts ! e + 1]) (rt_experts route) counts)
       routes (replicate expert_count 0)"

definition from_routes :: "'f route list \<Rightarrow> nat \<Rightarrow> routing_stats" where
  "from_routes routes expert_count =
     (let counts = expert_counts routes expert_count
      in \<lparr>rs_batches = 1, rs_rows = length routes, rs_assignments = sum_list counts,
          rs_unique = length (filter (\<lambda>c. 0 < c) counts), rs_max_rows = foldr max counts 0\<rparr>)"

definition stats_accumulate :: "routing_stats \<Rightarrow> routing_stats \<Rightarrow> routing_stats" where
  "stats_accumulate a b = \<lparr>rs_batches = rs_batches a + rs_batches b, rs_rows = rs_rows a + rs_rows b,
     rs_assignments = rs_assignments a + rs_assignments b, rs_unique = rs_unique a + rs_unique b,
     rs_max_rows = max (rs_max_rows a) (rs_max_rows b)\<rparr>"

section \<open>Experts\<close>

text \<open>\<open>v / (1 + exp(-v))\<close>, the activation of both executions.\<close>

definition silu_div :: "'f fops \<Rightarrow> 'f \<Rightarrow> 'f" where
  "silu_div F v = f_div F v (f_add F (f_one F) (f_exp F (f_neg F v)))"

definition activate :: "'f fops \<Rightarrow> nat \<Rightarrow> 'f list \<Rightarrow> 'f list" where
  "activate F intermediate gate_up =
     map2 (\<lambda>gate up. f_mul F (silu_div F gate) up) (take intermediate gate_up) (drop intermediate gate_up)"

definition load_expert :: "('f list \<Rightarrow> 'f list) option \<Rightarrow> moe_error + ('f list \<Rightarrow> 'f list)" where
  "load_expert m = (case m of None \<Rightarrow> Inl ExpertLoad | Some f \<Rightarrow> Inr f)"

text \<open>\<open>routed_token_major\<close>: per token, its experts in route order.\<close>

definition token_combined :: "'f fops \<Rightarrow> 'f moe_layer \<Rightarrow> 'f list \<Rightarrow> 'f route \<Rightarrow> moe_error + 'f list" where
  "token_combined F L x route =
     foldl (\<lambda>acc (expert, weight).
        bindE acc (\<lambda>combined.
        bindE (load_expert (ml_gate_up L expert)) (\<lambda>gate_up.
        bindE (load_expert (ml_down L expert)) (\<lambda>down.
        let value = down (activate F (ml_intermediate_size L) (gate_up x))
        in Inr (zip_mut (\<lambda>o1 v. f_add F o1 (f_mul F v weight)) combined value)))))
       (Inr (replicate (ml_hidden_size L) (f_zero F))) (zip (rt_experts route) (rt_weights route))"

definition routed_token_major ::
    "'f fops \<Rightarrow> 'f moe_layer \<Rightarrow> 'f list list \<Rightarrow> 'f route list \<Rightarrow> moe_error + 'f list list" where
  "routed_token_major F L xs routes =
     mapE (\<lambda>(token, route). token_combined F L (xs ! token) route) (enumerate 0 routes)"

text \<open>The ordered map from expert to the \<open>(row, route index)\<close> pairs it serves.\<close>

fun group_push :: "nat \<Rightarrow> nat \<times> nat \<Rightarrow> (nat \<times> (nat \<times> nat) list) list \<Rightarrow> (nat \<times> (nat \<times> nat) list) list" where
  "group_push e p [] = [(e, [p])]"
| "group_push e p ((k, ps) # m) =
     (if e < k then (e, [p]) # (k, ps) # m
      else if e = k then (k, ps @ [p]) # m
      else (k, ps) # group_push e p m)"

definition group_routes :: "'f route list \<Rightarrow> (nat \<times> (nat \<times> nat) list) list" where
  "group_routes routes =
     fold (\<lambda>(row, route) m.
        fold (\<lambda>(route_index, expert) m. group_push expert (row, route_index) m)
          (enumerate 0 (rt_experts route)) m)
       (enumerate 0 routes) []"

definition fill_slots ::
    "'f route list \<Rightarrow> (nat \<times> (nat \<times> nat) list) list \<Rightarrow> (nat \<times> nat) option list list" where
  "fill_slots routes assignments =
     fold (\<lambda>(grp, (_, expert_assignments)) slots.
        fold (\<lambda>(expert_row, (row, route_index)) slots.
            slots[row := (slots ! row)[route_index := Some (grp, expert_row)]])
          (enumerate 0 expert_assignments) slots)
       (enumerate 0 assignments) (map (\<lambda>route. replicate (length (rt_experts route)) None) routes)"

definition run_one_expert ::
    "'f fops \<Rightarrow> 'f moe_layer \<Rightarrow> 'f list list \<Rightarrow> nat \<times> (nat \<times> nat) list \<Rightarrow> moe_error + 'f list list" where
  "run_one_expert F L xs = (\<lambda>(expert, expert_assignments).
     let inputs = map (\<lambda>(row, _). xs ! row) expert_assignments in
     bindE (load_expert (ml_gate_up L expert)) (\<lambda>gate_up.
     bindE (load_expert (ml_down L expert)) (\<lambda>down.
     Inr (map down (map (activate F (ml_intermediate_size L)) (map gate_up inputs))))))"

definition combine_row ::
    "'f fops \<Rightarrow> 'f moe_layer \<Rightarrow> 'f list list list \<Rightarrow> (nat \<times> nat) option list \<Rightarrow> 'f list \<Rightarrow> moe_error + 'f list" where
  "combine_row F L executed slots weights =
     foldl (\<lambda>acc (route_index, weight).
        bindE acc (\<lambda>output.
        case slots ! route_index of
          None \<Rightarrow> Inl MissingAssignment
        | Some (grp, expert_row) \<Rightarrow>
            Inr (zip_mut (\<lambda>o1 v. f_add F o1 (f_mul F v weight)) output (executed ! grp ! expert_row))))
       (Inr (replicate (ml_hidden_size L) (f_zero F))) (enumerate 0 weights)"

definition routed_grouped_by_expert ::
    "'f fops \<Rightarrow> 'f moe_layer \<Rightarrow> 'f list list \<Rightarrow> 'f route list \<Rightarrow> moe_error + 'f list list" where
  "routed_grouped_by_expert F L xs routes =
     (let assignments = group_routes routes;
          slots = fill_slots routes assignments
      in bindE (mapE (run_one_expert F L xs) assignments) (\<lambda>executed.
         mapE (\<lambda>(row, route). combine_row F L executed (slots ! row) (rt_weights route)) (enumerate 0 routes)))"

section \<open>The block\<close>

datatype routed_execution = TokenMajor | GroupedByExpert

definition shared_expert :: "'f fops \<Rightarrow> 'f moe_layer \<Rightarrow> 'f list \<Rightarrow> 'f list" where
  "shared_expert F L x =
     (let value = ml_shared_down L (activate F (ml_intermediate_size L) (ml_shared_gate_up L x));
          selector = sigmoid F (ml_shared_selector L x)
      in map (\<lambda>v. f_mul F v selector) value)"

definition forward_with_execution ::
    "'f fops \<Rightarrow> 'f moe_layer \<Rightarrow> 'f list list \<Rightarrow> routed_execution \<Rightarrow> moe_error + 'f list list \<times> 'f route list" where
  "forward_with_execution F L xs execution =
     bindE (top_k_routes F (ml_rank L) (ml_experts_per_token L) (ml_normalize_top_k L) (map (ml_router L) xs))
       (\<lambda>routes.
     bindE (case execution of
              TokenMajor \<Rightarrow> routed_token_major F L xs routes
            | GroupedByExpert \<Rightarrow> routed_grouped_by_expert F L xs routes) (\<lambda>routed.
     Inr (map2 (map2 (f_add F)) routed (map (shared_expert F L) xs), routes)))"

definition moe_forward :: "'f fops \<Rightarrow> 'f moe_layer \<Rightarrow> 'f list list \<Rightarrow> moe_error + 'f list list \<times> 'f route list" where
  "moe_forward F L xs =
     forward_with_execution F L xs (if 1 < length xs then GroupedByExpert else TokenMajor)"

section \<open>Grouping preserves every assignment\<close>

definition entries :: "(nat \<times> (nat \<times> nat) list) list \<Rightarrow> (nat \<times> nat \<times> nat) set" where
  "entries m = (\<Union>(e, ps) \<in> set m. Pair e ` set ps)"

definition assignments_of :: "'f route list \<Rightarrow> (nat \<times> nat \<times> nat) set" where
  "assignments_of routes = {(rt_experts (routes ! row) ! i, row, i) | row i.
     row < length routes \<and> i < length (rt_experts (routes ! row))}"

lemma entries_push [simp]: "entries (group_push e p m) = insert (e, p) (entries m)"
  by (induction e p m rule: group_push.induct) (auto simp: entries_def)

lemma entries_iff: "(e, p) \<in> entries m \<longleftrightarrow> (\<exists>ps. (e, ps) \<in> set m \<and> p \<in> set ps)"
  by (auto simp: entries_def)

lemma group_push_nonempty:
  "(\<And>k ps. (k, ps) \<in> set m \<Longrightarrow> ps \<noteq> []) \<Longrightarrow> (k, ps) \<in> set (group_push e p m) \<Longrightarrow> ps \<noteq> []"
  by (induction e p m rule: group_push.induct) (auto split: if_splits)

lemma entries_fold:
  "entries (fold (\<lambda>x m. group_push (e x) (q x) m) xs m) = (\<lambda>x. (e x, q x)) ` set xs \<union> entries m"
  by (induction xs arbitrary: m) auto

lemma group_routes_flat:
  "group_routes routes = fold (\<lambda>(e, p) m. group_push e p m)
     (concat (map (\<lambda>(row, r). map (\<lambda>(i, e). (e, (row, i))) (enumerate 0 (rt_experts r))) (enumerate 0 routes))) []"
proof -
  have "fold (\<lambda>(row, route) m. fold (\<lambda>(i, e) m. group_push e (row, i) m) (enumerate 0 (rt_experts route)) m) rs m
    = fold (\<lambda>(e, p) m. group_push e p m)
        (concat (map (\<lambda>(row, r). map (\<lambda>(i, e). (e, (row, i))) (enumerate 0 (rt_experts r))) rs)) m"
    for rs :: "(nat \<times> 'a route) list" and m
    by (induction rs arbitrary: m) (simp_all add: fold_map comp_def case_prod_unfold)
  then show ?thesis by (simp add: group_routes_def)
qed

lemma entries_group_routes: "entries (group_routes routes) = assignments_of routes"
proof -
  have "entries (group_routes routes) = set (concat (map (\<lambda>(row, r). map (\<lambda>(i, e). (e, (row, i)))
      (enumerate 0 (rt_experts r))) (enumerate 0 routes)))"
    unfolding group_routes_flat case_prod_unfold
    by (subst entries_fold) (simp add: entries_def)
  also have "\<dots> = assignments_of routes"
    by (auto simp: assignments_of_def set_enumerate0 image_image image_iff Bex_def)
  finally show ?thesis .
qed

lemma group_routes_nonempty:
  assumes "(e, ps) \<in> set (group_routes routes)"
  shows "ps \<noteq> []"
proof -
  have "\<forall>(k, ps) \<in> set (fold (\<lambda>(e, p) m. group_push e p m) xs m). ps \<noteq> []"
    if "\<forall>(k, ps) \<in> set m. ps \<noteq> []" for xs m
    using that
  proof (induction xs arbitrary: m)
    case (Cons x xs)
    have "\<forall>(k, ps) \<in> set (group_push (fst x) (snd x) m). ps \<noteq> []"
      using Cons.prems group_push_nonempty by blast
    from Cons.IH [OF this] show ?case by (simp add: case_prod_unfold)
  qed simp
  from this [of "[]"] assms show ?thesis by (auto simp: group_routes_flat)
qed

lemma fill_slots_flat:
  "fill_slots routes m = fold (\<lambda>((row, i), v) slots. slots[row := (slots ! row)[i := Some v]])
     (concat (map (\<lambda>(g, (_, ps)). map (\<lambda>(r, p). (p, (g, r))) (enumerate 0 ps)) (enumerate 0 m)))
     (map (\<lambda>route. replicate (length (rt_experts route)) None) routes)"
proof -
  have "fold (\<lambda>(grp, (_, ps)) slots. fold (\<lambda>(r, (row, i)) slots. slots[row := (slots ! row)[i := Some (grp, r)]])
          (enumerate 0 ps) slots) gs slots
    = fold (\<lambda>((row, i), v) slots. slots[row := (slots ! row)[i := Some v]])
        (concat (map (\<lambda>(g, (_, ps)). map (\<lambda>(r, p). (p, (g, r))) (enumerate 0 ps)) gs)) slots"
    for gs :: "(nat \<times> nat \<times> (nat \<times> nat) list) list" and slots :: "(nat \<times> nat) option list list"
    by (induction gs arbitrary: slots) (simp_all add: fold_map comp_def case_prod_unfold)
  then show ?thesis by (simp add: fill_slots_def)
qed

lemma fold_writes:
  assumes "row < length slots" "i < length (slots ! row)" "\<exists>v. ((row, i), v) \<in> set ws"
  shows "\<exists>v. ((row, i), v) \<in> set ws \<and>
    fold (\<lambda>((row, i), v) slots. slots[row := (slots ! row)[i := Some v]]) ws slots ! row ! i = Some v"
proof -
  let ?f = "\<lambda>((row, i), v) slots. slots[row := (slots ! row)[i := Some v]]"
  have outer: "length (fold ?f ws s) = length s" for ws s
    by (induction ws arbitrary: s) (simp_all add: case_prod_unfold)
  have inner: "length (fold ?f ws s ! r) = length (s ! r)" if "r < length s" for ws s r
    using that
  proof (induction ws arbitrary: s)
    case (Cons w ws)
    have "length (?f w s ! r) = length (s ! r)"
      using Cons.prems by (cases "fst (fst w) = r") (auto simp: case_prod_unfold)
    moreover have "length (?f w s) = length s" by (simp add: case_prod_unfold)
    ultimately show ?case using Cons by simp
  qed simp
  show ?thesis
    using assms(3)
  proof (induction ws rule: rev_induct)
    case (snoc w ws)
    obtain r j v where w: "w = ((r, j), v)" by (metis surj_pair)
    show ?case
    proof (cases "(r, j) = (row, i)")
      case True
      with w outer [of ws slots] inner [of row slots ws] assms(1,2) show ?thesis by (intro exI [of _ v]) simp
    next
      case False
      with snoc.prems w have "\<exists>v. ((row, i), v) \<in> set ws" by auto
      with snoc.IH obtain v' where "((row, i), v') \<in> set ws" "fold ?f ws slots ! row ! i = Some v'" by blast
      with False w outer [of ws slots] assms(1) show ?thesis
        by (intro exI [of _ v']) (cases "r = row"; auto)
    qed
  qed simp
qed

lemma fill_slots_spec:
  assumes row: "row < length routes" and i: "i < length (rt_experts (routes ! row))"
  shows "\<exists>g r ps. fill_slots routes (group_routes routes) ! row ! i = Some (g, r)
    \<and> g < length (group_routes routes) \<and> group_routes routes ! g = (rt_experts (routes ! row) ! i, ps)
    \<and> r < length ps \<and> ps ! r = (row, i)"
proof -
  let ?m = "group_routes routes"
  let ?ws = "concat (map (\<lambda>(g, (_, ps)). map (\<lambda>(r, p). (p, (g, r))) (enumerate 0 ps)) (enumerate 0 ?m))"
  have ws: "((a, b), (g, r)) \<in> set ?ws \<longleftrightarrow>
      g < length ?m \<and> r < length (snd (?m ! g)) \<and> snd (?m ! g) ! r = (a, b)" for a b g r
    by (auto simp: set_enumerate0 case_prod_unfold image_image image_iff Bex_def)
  have "(rt_experts (routes ! row) ! i, row, i) \<in> entries ?m"
    unfolding entries_group_routes assignments_of_def using row i by blast
  then obtain ps where "(rt_experts (routes ! row) ! i, ps) \<in> set ?m" "(row, i) \<in> set ps"
    by (auto simp: entries_iff)
  then obtain g r where "g < length ?m" "?m ! g = (rt_experts (routes ! row) ! i, ps)" "r < length ps" "ps ! r = (row, i)"
    by (metis in_set_conv_nth)
  then have "((row, i), (g, r)) \<in> set ?ws" by (intro ws [THEN iffD2]) simp
  then have "\<exists>v. ((row, i), v) \<in> set ?ws" by blast
  then have "\<exists>v. ((row, i), v) \<in> set ?ws \<and> fill_slots routes ?m ! row ! i = Some v"
    unfolding fill_slots_flat
    by (rule fold_writes [rotated 2]) (use row i in simp_all)
  then obtain g' r' where w: "((row, i), (g', r')) \<in> set ?ws" "fill_slots routes ?m ! row ! i = Some (g', r')"
    by (metis prod.collapse)
  then have gr: "g' < length ?m" "r' < length (snd (?m ! g'))" "snd (?m ! g') ! r' = (row, i)"
    using ws [THEN iffD1, OF w(1)] by simp_all
  have "(fst (?m ! g'), row, i) \<in> entries ?m"
    unfolding entries_iff using gr by (metis nth_mem prod.collapse)
  then have "fst (?m ! g') = rt_experts (routes ! row) ! i"
    by (auto simp: entries_group_routes assignments_of_def)
  with w(2) gr show ?thesis by (metis prod.collapse)
qed

section \<open>The two executions agree\<close>

definition loadable :: "'f moe_layer \<Rightarrow> nat \<Rightarrow> bool" where
  "loadable L e \<longleftrightarrow> ml_gate_up L e \<noteq> None \<and> ml_down L e \<noteq> None"

definition expert_value :: "'f fops \<Rightarrow> 'f moe_layer \<Rightarrow> nat \<Rightarrow> 'f list \<Rightarrow> 'f list" where
  "expert_value F L e x =
     the (ml_down L e) (activate F (ml_intermediate_size L) (the (ml_gate_up L e) x))"

definition route_mix :: "'f fops \<Rightarrow> 'f moe_layer \<Rightarrow> 'f list \<Rightarrow> 'f route \<Rightarrow> 'f list" where
  "route_mix F L x r = foldl (\<lambda>out i. zip_mut (\<lambda>o1 v. f_add F o1 (f_mul F v (rt_weights r ! i))) out
       (expert_value F L (rt_experts r ! i) x))
     (replicate (ml_hidden_size L) (f_zero F)) [0..<length (rt_experts r)]"

definition route_wf :: "'f route \<Rightarrow> bool" where
  "route_wf r \<longleftrightarrow> length (rt_weights r) = length (rt_experts r)"

lemma zip_as_map: "length ys = length xs \<Longrightarrow> zip xs ys = map (\<lambda>i. (xs ! i, ys ! i)) [0..<length xs]"
  by (rule nth_equalityI) simp_all

lemma enumerate_as_map: "enumerate 0 xs = map (\<lambda>i. (i, xs ! i)) [0..<length xs]"
  by (rule nth_equalityI) (simp_all add: nth_enumerate_eq)

lemma foldl_bindE_Inl: "(\<And>acc p. f (Inl e) p = Inl e) \<Longrightarrow> foldl f (Inl e) ps = Inl e"
  by (induction ps) simp_all

lemma foldl_bindE_if:
  "foldl (\<lambda>acc p. bindE acc (\<lambda>c. if ok p then Inr (g c p) else Inl e)) (Inr c) ps
    = (if \<forall>p \<in> set ps. ok p then Inr (foldl g c ps) else Inl e)"
proof (induction ps arbitrary: c)
  case (Cons p ps)
  have "foldl (\<lambda>acc p. bindE acc (\<lambda>c. if ok p then Inr (g c p) else Inl e)) (Inl e) ps = Inl e"
    by (rule foldl_bindE_Inl) simp
  with Cons show ?case by simp
qed simp

lemma token_combined_eq:
  assumes "route_wf r"
  shows "token_combined F L x r =
    (if \<forall>e \<in> set (rt_experts r). loadable L e then Inr (route_mix F L x r) else Inl ExpertLoad)"
proof -
  have "token_combined F L x r = foldl (\<lambda>acc i. bindE acc (\<lambda>c.
      if loadable L (rt_experts r ! i) then Inr (zip_mut (\<lambda>o1 v. f_add F o1 (f_mul F v (rt_weights r ! i))) c
         (expert_value F L (rt_experts r ! i) x)) else Inl ExpertLoad))
      (Inr (replicate (ml_hidden_size L) (f_zero F))) [0..<length (rt_experts r)]"
    unfolding token_combined_def using assms
    by (simp add: zip_as_map route_wf_def foldl_map)
      (rule foldl_cong; auto simp: load_expert_def loadable_def expert_value_def bindE_def
          split: option.splits sum.splits)
  then show ?thesis
    by (simp add: foldl_bindE_if route_mix_def all_set_conv_all_nth)
qed

lemma run_one_expert_eq:
  "run_one_expert F L xs p = (if loadable L (fst p)
     then Inr (map (\<lambda>(row, _). expert_value F L (fst p) (xs ! row)) (snd p)) else Inl ExpertLoad)"
  by (auto simp: run_one_expert_def load_expert_def loadable_def expert_value_def case_prod_unfold
      split: option.splits)

lemma group_routes_experts: "fst ` set (group_routes routes) = (\<Union>r \<in> set routes. set (rt_experts r))"
proof -
  have "fst ` set (group_routes routes) = fst ` entries (group_routes routes)"
  proof (rule set_eqI)
    fix e
    show "e \<in> fst ` set (group_routes routes) \<longleftrightarrow> e \<in> fst ` entries (group_routes routes)"
    proof
      assume "e \<in> fst ` set (group_routes routes)"
      then obtain ps where ps: "(e, ps) \<in> set (group_routes routes)" by auto
      then obtain p where "p \<in> set ps" using group_routes_nonempty [OF ps] by (cases ps) auto
      with ps have "(e, p) \<in> entries (group_routes routes)" by (auto simp: entries_iff)
      then show "e \<in> fst ` entries (group_routes routes)" by force
    qed (force simp: entries_iff)
  qed
  also have "\<dots> = (\<Union>r \<in> set routes. set (rt_experts r))"
    unfolding entries_group_routes assignments_of_def
    by (force simp: in_set_conv_nth image_iff)
  finally show ?thesis .
qed

lemma routed_grouped_is_token_major:
  assumes "\<And>r. r \<in> set routes \<Longrightarrow> route_wf r"
  shows "routed_grouped_by_expert F L xs routes = routed_token_major F L xs routes"
proof -
  let ?m = "group_routes routes"
  let ?ok = "\<forall>r \<in> set routes. \<forall>e \<in> set (rt_experts r). loadable L e"
  let ?ex = "map (\<lambda>p. map (\<lambda>(row, _). expert_value F L (fst p) (xs ! row)) (snd p)) ?m"
  let ?mixed = "map (\<lambda>row. route_mix F L (xs ! row) (routes ! row)) [0..<length routes]"
  have tm: "routed_token_major F L xs routes = (if ?ok then Inr ?mixed else Inl ExpertLoad)"
  proof -
    have "routed_token_major F L xs routes = (if \<forall>p \<in> set (enumerate 0 routes). \<forall>e \<in> set (rt_experts (snd p)). loadable L e
        then Inr (map (\<lambda>p. route_mix F L (xs ! fst p) (snd p)) (enumerate 0 routes)) else Inl ExpertLoad)"
      unfolding routed_token_major_def
      by (rule mapE_if) (use assms in \<open>auto simp: token_combined_eq set_enumerate0\<close>)
    also have "(\<forall>p \<in> set (enumerate 0 routes). \<forall>e \<in> set (rt_experts (snd p)). loadable L e) \<longleftrightarrow> ?ok"
      by (subst (2) map_snd_enumerate [of 0, symmetric]) (simp only: set_map ball_simps)
    finally show ?thesis by (simp add: enumerate_as_map comp_def)
  qed
  have "mapE (run_one_expert F L xs) ?m = (if \<forall>p \<in> set ?m. loadable L (fst p) then Inr ?ex else Inl ExpertLoad)"
    by (rule mapE_if) (rule run_one_expert_eq)
  also have "(\<forall>p \<in> set ?m. loadable L (fst p)) \<longleftrightarrow> (\<forall>e \<in> fst ` set ?m. loadable L e)" by simp
  also have "\<dots> \<longleftrightarrow> ?ok" unfolding group_routes_experts by blast
  finally have runs: "mapE (run_one_expert F L xs) ?m = (if ?ok then Inr ?ex else Inl ExpertLoad)" .
  have row: "combine_row F L ?ex (fill_slots routes ?m ! row) (rt_weights (routes ! row))
      = Inr (route_mix F L (xs ! row) (routes ! row))" if "row < length routes" for row
  proof -
    have wf: "length (rt_weights (routes ! row)) = length (rt_experts (routes ! row))"
      using assms that by (simp add: route_wf_def)
    have slot: "(case fill_slots routes ?m ! row ! i of None \<Rightarrow> Inl MissingAssignment
          | Some (g, r) \<Rightarrow> Inr (zip_mut f out (?ex ! g ! r)))
        = Inr (zip_mut f out (expert_value F L (rt_experts (routes ! row) ! i) (xs ! row)))"
      if "i < length (rt_experts (routes ! row))" for i f and out :: "'a list"
      using fill_slots_spec [OF \<open>row < length routes\<close> that] by auto
    have "combine_row F L ?ex (fill_slots routes ?m ! row) (rt_weights (routes ! row))
      = foldl (\<lambda>acc i. bindE acc (\<lambda>out. if True then Inr (zip_mut (\<lambda>o1 v. f_add F o1 (f_mul F v (rt_weights (routes ! row) ! i))) out
           (expert_value F L (rt_experts (routes ! row) ! i) (xs ! row))) else Inl MissingAssignment))
          (Inr (replicate (ml_hidden_size L) (f_zero F))) [0..<length (rt_experts (routes ! row))]"
      unfolding combine_row_def enumerate_as_map foldl_map wf
      by (rule foldl_cong) (simp_all add: slot)
    then show ?thesis by (simp only: foldl_bindE_if route_mix_def) simp
  qed
  have "mapE (\<lambda>(row, route). combine_row F L ?ex (fill_slots routes ?m ! row) (rt_weights route)) (enumerate 0 routes)
    = Inr ?mixed"
    unfolding enumerate_as_map
    by (subst mapE_if [where P = "\<lambda>_. True" and g = "\<lambda>(row, r). route_mix F L (xs ! row) r"]) (use row in auto)
  with runs tm show ?thesis by (simp add: routed_grouped_by_expert_def Let_def)
qed

section \<open>The block works row by row\<close>

definition moe_row :: "'f fops \<Rightarrow> 'f moe_layer \<Rightarrow> 'f list \<Rightarrow> moe_error + 'f list" where
  "moe_row F L x =
     bindE (top_k_route F (ml_rank L) (ml_experts_per_token L) (ml_normalize_top_k L) (ml_router L x)) (\<lambda>r.
     bindE (token_combined F L x r) (\<lambda>routed.
     Inr (map2 (f_add F) routed (shared_expert F L x))))"

lemma top_k_route_wf: "top_k_route F rank k n row = Inr r \<Longrightarrow> route_wf r"
  by (auto simp: top_k_route_def bindE_Inr_iff Let_def route_wf_def)

lemma mapE_map: "mapE f (map g xs) = mapE (\<lambda>x. f (g x)) xs"
  by (induction xs) simp_all

lemma mapE_Inr_nth:
  "mapE f xs = Inr ys \<longleftrightarrow> length ys = length xs \<and> (\<forall>i < length xs. f (xs ! i) = Inr (ys ! i))"
  by (auto simp: mapE_Inr_iff list_all2_conv_all_nth)

lemma forward_with_execution_irrelevant:
  "forward_with_execution F L xs GroupedByExpert = forward_with_execution F L xs TokenMajor"
proof (cases "top_k_routes F (ml_rank L) (ml_experts_per_token L) (ml_normalize_top_k L) (map (ml_router L) xs)")
  case (Inr routes)
  have "route_wf r" if "r \<in> set routes" for r
    using Inr that by (auto simp: top_k_routes_def mapE_Inr_nth in_set_conv_nth dest: top_k_route_wf)
  with Inr show ?thesis by (simp add: forward_with_execution_def routed_grouped_is_token_major)
qed (simp add: forward_with_execution_def)

lemma moe_forward_rows:
  "(\<exists>routes. moe_forward F L xs = Inr (ys, routes)) \<longleftrightarrow> mapE (moe_row F L) xs = Inr ys"
proof -
  let ?top = "\<lambda>x. top_k_route F (ml_rank L) (ml_experts_per_token L) (ml_normalize_top_k L) (ml_router L x)"
  have tm: "moe_forward F L xs = forward_with_execution F L xs TokenMajor"
    by (simp add: moe_forward_def forward_with_execution_irrelevant)
  have major: "routed_token_major F L xs routes = Inr routed \<longleftrightarrow> length routed = length routes \<and>
      (\<forall>i < length routes. token_combined F L (xs ! i) (routes ! i) = Inr (routed ! i))" for routes routed
    by (simp add: routed_token_major_def mapE_Inr_nth nth_enumerate_eq)
  show ?thesis
  proof
    assume "\<exists>routes. moe_forward F L xs = Inr (ys, routes)"
    then obtain routes routed where "mapE ?top xs = Inr routes" "routed_token_major F L xs routes = Inr routed"
      "ys = map2 (map2 (f_add F)) routed (map (shared_expert F L) xs)"
      by (auto simp: tm forward_with_execution_def bindE_Inr_iff top_k_routes_def mapE_map)
    then show "mapE (moe_row F L) xs = Inr ys"
      by (auto simp: mapE_Inr_nth major moe_row_def)
  next
    assume "mapE (moe_row F L) xs = Inr ys"
    then have len: "length ys = length xs"
      and "\<forall>i < length xs. \<exists>r out. ?top (xs ! i) = Inr r \<and> token_combined F L (xs ! i) r = Inr out
        \<and> ys ! i = map2 (f_add F) out (shared_expert F L (xs ! i))"
      by (auto simp: mapE_Inr_nth moe_row_def bindE_Inr_iff)
    then obtain r out where each: "\<And>i. i < length xs \<Longrightarrow> ?top (xs ! i) = Inr (r i)
        \<and> token_combined F L (xs ! i) (r i) = Inr (out i) \<and> ys ! i = map2 (f_add F) (out i) (shared_expert F L (xs ! i))"
      by metis
    let ?routes = "map r [0..<length xs]" and ?routed = "map out [0..<length xs]"
    have "mapE ?top xs = Inr ?routes" using each by (simp add: mapE_Inr_nth)
    moreover have "routed_token_major F L xs ?routes = Inr ?routed" using each by (simp add: major)
    moreover have "ys = map2 (map2 (f_add F)) ?routed (map (shared_expert F L) xs)"
      by (rule nth_equalityI) (use len each in simp_all)
    ultimately show "\<exists>routes. moe_forward F L xs = Inr (ys, routes)"
      by (simp add: tm forward_with_execution_def top_k_routes_def mapE_map)
  qed
qed

lemma moe_forward_length: "moe_forward F L xs = Inr (ys, routes) \<Longrightarrow> length ys = length xs"
  using moe_forward_rows mapE_length by blast

section \<open>Properties\<close>

text \<open>
  C21. Executing the experts grouped and in parallel is the token-major reference bit for
  bit: same floats, and a failure to load an expert is reported by both or by neither. So a
  wide verification pass mixes the same expert outputs a one-row decode does.
\<close>

theorem grouped_execution_is_token_major:
  assumes "\<forall>r \<in> set routes. length (rt_weights r) = length (rt_experts r)"
  shows "routed_grouped_by_expert F L xs routes = routed_token_major F L xs routes"
  by (rule routed_grouped_is_token_major) (use assms in \<open>simp add: route_wf_def\<close>)

definition example_moe :: "int moe_layer" where
  "example_moe = \<lparr>ml_hidden_size = 1, ml_intermediate_size = 1, ml_expert_count = 3, ml_experts_per_token = 2,
     ml_normalize_top_k = True, ml_rank = (\<lambda>ps. [2, 0, 1]), ml_router = (\<lambda>x. [hd x, 1, 2]),
     ml_shared_gate_up = (\<lambda>x. [hd x, 1]), ml_shared_down = (\<lambda>x. x), ml_shared_selector = hd,
     ml_gate_up = (\<lambda>e. Some (\<lambda>x. [hd x + int e, 1])), ml_down = (\<lambda>e. Some (\<lambda>x. x))\<rparr>"

lemma grouped_execution_is_token_major_witness:
  "let routes = [\<lparr>rt_experts = [2, 0], rt_weights = [1, 2], rt_logits = []\<rparr>,
                 \<lparr>rt_experts = [0, 1], rt_weights = [3, 1], rt_logits = []\<rparr>]
   in routed_grouped_by_expert int_fops example_moe [[4], [5]] routes
      = routed_token_major int_fops example_moe [[4], [5]] routes"
  unfolding Let_def by (rule grouped_execution_is_token_major) simp

end
