(* ===== verification/Greedy.thy ===== *)
theory Greedy
  imports Prelude
begin

text \<open>
  What a turn of greedy generation means, apart from how it is computed. \<open>nxt\<close> gives the
  token the target model chooses after a sequence of evaluated tokens; \<open>greedy\<close> is the turn
  it defines: emit the choice, hand it to the output sink, stop at a stop token, at the token
  limit or when the sink fails, and close the thinking section when its budget is spent. Both
  decoding paths of \<open>src/runtime.rs\<close> are proved to refine it.

  The thinking budget itself (\<open>ThinkingBudget\<close> in \<open>src/runtime.rs\<close>) is here too, and the
  interface \<open>token_runs\<close> through which the decoding proofs see the target model: a relation
  \<open>run\<close> that evaluates tokens, composes over appended sequences and is deterministic.
\<close>

section \<open>The thinking budget\<close>

datatype thinking_boundary = Continue | NaturalClosure | ForceClosure

record thinking =
  th_budget :: nat
  th_committed :: nat
  th_close :: "u32 list"
  th_forced_close :: "u32 list"
  th_recent :: "u32 list"
  th_active :: bool
  th_forced :: bool

definition thinking_from_tokenizer ::
    "(string \<Rightarrow> 'e + u32 list) \<Rightarrow> 'e \<Rightarrow> nat option \<Rightarrow> 'e + thinking option" where
  "thinking_from_tokenizer encode no_closure budget =
     (case budget of None \<Rightarrow> Inr None
      | Some b \<Rightarrow>
          bindE (encode ''</think>'') (\<lambda>close.
          bindE (encode (''</think>'' @ [CHR 0x0A, CHR 0x0A])) (\<lambda>forced.
          bindE (ensure (close \<noteq> [] \<and> forced \<noteq> []) no_closure) (\<lambda>_.
          Inr (Some \<lparr>th_budget = b, th_committed = 0, th_close = close, th_forced_close = forced,
                     th_recent = [], th_active = True, th_forced = False\<rparr>)))))"

definition should_force :: "thinking \<Rightarrow> thinking \<times> bool" where
  "should_force th =
     (if th_active th \<and> th_budget th = 0 then (th\<lparr>th_active := False, th_forced := True\<rparr>, True) else (th, False))"

definition observe_committed :: "thinking \<Rightarrow> u32 \<Rightarrow> bool \<Rightarrow> thinking \<times> thinking_boundary" where
  "observe_committed th token enforce =
     (if \<not> th_active th then (th, Continue)
      else let pushed = th_recent th @ [token];
               recent = (if length (th_close th) < length pushed then tl pushed else pushed);
               th1 = th\<lparr>th_committed := th_committed th + 1, th_recent := recent\<rparr>
           in if recent = th_close th then (th1\<lparr>th_active := False\<rparr>, NaturalClosure)
              else if enforce \<and> th_budget th1 \<le> th_committed th1
              then (th1\<lparr>th_active := False, th_forced := True\<rparr>, ForceClosure)
              else (th1, Continue))"

definition thinking_remaining :: "thinking \<Rightarrow> nat option" where
  "thinking_remaining th = (if th_active th then Some (th_budget th - th_committed th) else None)"

text \<open>\<open>thinking.as_mut().map_or(Continue, |budget| budget.observe_committed(token, enforce))\<close>.\<close>

definition observe_opt :: "thinking option \<Rightarrow> u32 \<Rightarrow> bool \<Rightarrow> thinking option \<times> thinking_boundary" where
  "observe_opt th token enforce = (case th of None \<Rightarrow> (None, Continue)
     | Some t \<Rightarrow> (let (t', b) = observe_committed t token enforce in (Some t', b)))"

definition closure_of :: "thinking option \<Rightarrow> u32 list" where
  "closure_of th = (case th of None \<Rightarrow> [] | Some t \<Rightarrow> th_forced_close t)"

definition should_force_opt :: "thinking option \<Rightarrow> thinking option \<times> bool" where
  "should_force_opt th = (case th of None \<Rightarrow> (None, False)
     | Some t \<Rightarrow> (let (t', b) = should_force t in (Some t', b)))"

definition remaining_opt :: "thinking option \<Rightarrow> nat option" where
  "remaining_opt th = (case th of None \<Rightarrow> None | Some t \<Rightarrow> thinking_remaining t)"

definition inactive :: "thinking option \<Rightarrow> bool" where
  "inactive th \<longleftrightarrow> (case th of None \<Rightarrow> True | Some t \<Rightarrow> \<not> th_active t)"

lemma observe_inactive: "inactive th \<Longrightarrow> observe_opt th t e = (th, Continue)"
  by (auto simp: inactive_def observe_opt_def observe_committed_def split: option.splits)

lemma observe_force_inactive: "observe_opt th t e = (th', ForceClosure) \<Longrightarrow> inactive th' \<and> closure_of th' = closure_of th \<and> e"
  by (auto simp: inactive_def closure_of_def observe_opt_def observe_committed_def Let_def split: option.splits if_splits)

lemma observe_closure: "observe_opt th t e = (th', b) \<Longrightarrow> closure_of th' = closure_of th"
  by (auto simp: closure_of_def observe_opt_def observe_committed_def Let_def split: option.splits if_splits)

lemma should_force_inactive: "should_force_opt th = (th', True) \<Longrightarrow> inactive th'"
  by (auto simp: inactive_def should_force_opt_def should_force_def Let_def split: option.splits if_splits)

lemma observe_force_remaining:
  "observe_opt th t e = (th', ForceClosure) \<Longrightarrow> remaining_opt th = Some n \<Longrightarrow> n \<le> 1"
  by (auto simp: observe_opt_def observe_committed_def remaining_opt_def thinking_remaining_def Let_def
      split: option.splits if_splits)

lemma observe_force_active: "observe_opt th t e = (th', ForceClosure) \<Longrightarrow> \<exists>n. remaining_opt th = Some n"
  by (auto simp: observe_opt_def observe_committed_def remaining_opt_def thinking_remaining_def Let_def
      split: option.splits if_splits)

lemma observe_continue_remaining:
  "observe_opt th t e = (th', b) \<Longrightarrow> remaining_opt th' = Some m \<Longrightarrow> \<exists>n. remaining_opt th = Some n \<and> n \<le> Suc m"
  by (auto simp: observe_opt_def observe_committed_def remaining_opt_def thinking_remaining_def Let_def
      split: option.splits if_splits)

section \<open>A greedy turn\<close>

datatype ('e, 'c) outcome =
    Finished "u32 list" "u32 option" "u32 list" "thinking option" 'c
  | Halted "u32 list" u32 'c
  | Stuck 'e

text \<open>Emit the forced closure, evaluating each token of it; the sink may fail on any.\<close>

fun force_emit :: "(u32 \<Rightarrow> 'c \<Rightarrow> 'c \<times> bool) \<Rightarrow> u32 list \<Rightarrow> u32 list \<Rightarrow> 'c \<Rightarrow> u32 list \<times> 'c \<times> u32 option" where
  "force_emit cb [] h c = (h, c, None)"
| "force_emit cb (t # ts) h c =
     (case cb t c of (c', ok) \<Rightarrow> if ok then force_emit cb ts (h @ [t]) c' else (h, c', Some t))"

text \<open>\<open>h\<close> is what has been evaluated, \<open>g\<close> what the turn has emitted, \<open>c\<close> the sink's state.\<close>

function greedy ::
    "(u32 list \<Rightarrow> 'e + u32) \<Rightarrow> (u32 \<Rightarrow> bool) \<Rightarrow> nat \<Rightarrow> (u32 \<Rightarrow> 'c \<Rightarrow> 'c \<times> bool) \<Rightarrow> u32 list \<Rightarrow> u32 list
      \<Rightarrow> thinking option \<Rightarrow> 'c \<Rightarrow> ('e, 'c) outcome" where
  "greedy nxt stop maxn cb h g th c =
     (if maxn \<le> length g then Finished h None g th c
      else case nxt h of
        Inl e \<Rightarrow> Stuck e
      | Inr t \<Rightarrow>
          (case cb t c of (c1, ok) \<Rightarrow>
             if \<not> ok then Halted h t c1
             else case observe_opt th t (\<not> stop t) of (th1, boundary) \<Rightarrow>
               if stop t then Finished h (Some t) (g @ [t]) th1 c1
               else if boundary = ForceClosure
               then (case force_emit cb (closure_of th1) (h @ [t]) c1 of
                       (h2, c2, Some tok) \<Rightarrow> Halted h2 tok c2
                     | (h2, c2, None) \<Rightarrow> greedy nxt stop maxn cb h2 (g @ [t] @ closure_of th1) th1 c2)
               else if maxn \<le> length (g @ [t]) then Finished h (Some t) (g @ [t]) th1 c1
               else greedy nxt stop maxn cb (h @ [t]) (g @ [t]) th1 c1))"
  by pat_completeness auto
termination
  by (relation "measure (\<lambda>(_, _, maxn, _, _, g, _, _). maxn - length g)") auto

declare greedy.simps [simp del]

text \<open>The turn from its first logits: an exhausted budget closes the section at once.\<close>

definition greedy_turn ::
    "(u32 list \<Rightarrow> 'e + u32) \<Rightarrow> (u32 \<Rightarrow> bool) \<Rightarrow> nat \<Rightarrow> (u32 \<Rightarrow> 'c \<Rightarrow> 'c \<times> bool) \<Rightarrow> u32 list
      \<Rightarrow> thinking option \<Rightarrow> 'c \<Rightarrow> ('e, 'c) outcome" where
  "greedy_turn nxt stop maxn cb h th c =
     (case should_force_opt th of (th1, forced) \<Rightarrow>
        if forced
        then (case force_emit cb (closure_of th1) h c of
                (h2, c2, Some tok) \<Rightarrow> Halted h2 tok c2
              | (h2, c2, None) \<Rightarrow> greedy nxt stop maxn cb h2 (closure_of th1) th1 c2)
        else greedy nxt stop maxn cb h [] th1 c)"

text \<open>The turn as the speculative loop sees it: \<open>pending\<close> is emitted but not evaluated.\<close>

definition resume ::
    "(u32 list \<Rightarrow> 'e + u32) \<Rightarrow> (u32 \<Rightarrow> bool) \<Rightarrow> nat \<Rightarrow> (u32 \<Rightarrow> 'c \<Rightarrow> 'c \<times> bool) \<Rightarrow> u32 list \<Rightarrow> u32 list
      \<Rightarrow> u32 option \<Rightarrow> thinking option \<Rightarrow> 'c \<Rightarrow> ('e, 'c) outcome" where
  "resume nxt stop maxn cb h g pending th c =
     (case pending of
        None \<Rightarrow> Finished h None g th c
      | Some seed \<Rightarrow>
          if maxn \<le> length g \<or> stop seed then Finished h (Some seed) g th c
          else greedy nxt stop maxn cb (h @ [seed]) g th c)"

lemma force_emit_prefix: "force_emit cb ts h c = (h2, c2, r) \<Longrightarrow>
    (case r of None \<Rightarrow> h2 = h @ ts | Some t \<Rightarrow> \<exists>us vs. ts = us @ t # vs \<and> h2 = h @ us)"
proof (induction ts arbitrary: h c)
  case (Cons t ts)
  show ?case
  proof (cases "snd (cb t c)")
    case True
    with Cons.prems have "force_emit cb ts (h @ [t]) (fst (cb t c)) = (h2, c2, r)"
      by (simp add: case_prod_unfold)
    from Cons.IH [OF this] show ?thesis
      by (cases r) (auto intro: exI [of _ "t # us" for us])
  next
    case False
    with Cons.prems show ?thesis by (auto simp: case_prod_unfold)
  qed
qed auto

text \<open>With the budget settled, one greedy step is an emission followed by a resumption.\<close>

lemma greedy_inactive:
  assumes "inactive th"
  shows "greedy nxt stop maxn cb h g th c =
     (if maxn \<le> length g then Finished h None g th c
      else case nxt h of Inl e \<Rightarrow> Stuck e
      | Inr t \<Rightarrow> (case cb t c of (c1, ok) \<Rightarrow>
          if ok then resume nxt stop maxn cb h (g @ [t]) (Some t) th c1 else Halted h t c1))"
  by (subst greedy.simps)
    (auto simp: observe_inactive [OF assms] resume_def split: sum.splits prod.splits)

text \<open>A turn only ever extends the history it starts from.\<close>

fun outcome_history :: "('e, 'c) outcome \<Rightarrow> u32 list option" where
  "outcome_history (Finished h _ _ _ _) = Some h"
| "outcome_history (Halted h _ _) = Some h"
| "outcome_history (Stuck _) = None"

lemma force_emit_extends: "force_emit cb ts h c = (h2, c2, r) \<Longrightarrow> prefix h h2"
  by (drule force_emit_prefix) (auto split: option.splits)

lemma greedy_extends:
  "outcome_history (greedy nxt stop maxn cb h g th c) = Some h2 \<Longrightarrow> prefix h h2"
proof (induction nxt stop maxn cb h g th c rule: greedy.induct)
  case (1 nxt stop maxn cb h g th c)
  show ?case
  proof (cases "maxn \<le> length g")
    case True
    with "1.prems" show ?thesis by (simp add: greedy.simps)
  next
    case False
    with "1.prems" obtain t where t: "nxt h = Inr t" by (cases "nxt h") (simp_all add: greedy.simps)
    obtain c1 ok where cb: "cb t c = (c1, ok)" by (rule prod.exhaust)
    obtain th1 b where obs: "observe_opt th t (\<not> stop t) = (th1, b)" by (rule prod.exhaust)
    note unfolded = "1.prems" [unfolded greedy.simps [of nxt stop maxn cb h]]
    show ?thesis
    proof (cases "ok \<and> \<not> stop t")
      case False
      with unfolded \<open>\<not> maxn \<le> length g\<close> t cb obs show ?thesis by (auto split: if_splits)
    next
      case True
      show ?thesis
      proof (cases "b = ForceClosure")
        case force: True
        obtain h3 c3 r where close: "force_emit cb (closure_of th1) (h @ [t]) c1 = (h3, c3, r)" by (rule prod_cases3)
        from force_emit_extends [OF this] have *: "prefix h h3" by (meson prefix_order.trans prefixI)
        show ?thesis
        proof (cases r)
          case None
          with unfolded True force False t cb obs close
          have "outcome_history (greedy nxt stop maxn cb h3 (g @ [t] @ closure_of th1) th1 c3) = Some h2" by simp
          from "1.IH" (1) [OF False t cb [symmetric] _ obs [symmetric] _ force close [symmetric] refl] None this True *
          show ?thesis by (metis prefix_order.trans)
        next
          case (Some tok)
          with unfolded True force False t cb obs close * show ?thesis by simp
        qed
      next
        case go: False
        show ?thesis
        proof (cases "maxn \<le> length (g @ [t])")
          case last: True
          with unfolded True go False t cb obs show ?thesis by simp
        next
          case more: False
          with unfolded True go False t cb obs
          have "outcome_history (greedy nxt stop maxn cb (h @ [t]) (g @ [t]) th1 c1) = Some h2" by simp
          with "1.IH" (2) [OF False t cb [symmetric] _ obs [symmetric] _ go more] True
          show ?thesis by (meson prefix_order.trans prefixI)
        qed
      qed
    qed
  qed
qed

text \<open>
  Accounting. \<open>feed\<close> hands tokens to a sink that takes them all. A turn that ends has fed the
  sink exactly what it reports, and its history and pending token are the start of the turn
  and the report, in that order; a halted turn has fed what it evaluated.
\<close>

fun feed :: "(u32 \<Rightarrow> 'c \<Rightarrow> 'c \<times> bool) \<Rightarrow> u32 list \<Rightarrow> 'c \<Rightarrow> 'c option" where
  "feed cb [] c = Some c"
| "feed cb (t # ts) c = (case cb t c of (c', ok) \<Rightarrow> if ok then feed cb ts c' else None)"

lemma feed_append: "feed cb (xs @ ys) c = Option.bind (feed cb xs c) (feed cb ys)"
  by (induction xs arbitrary: c) (auto split: prod.split)

definition pending_list :: "u32 option \<Rightarrow> u32 list" where
  "pending_list p = (case p of None \<Rightarrow> [] | Some t \<Rightarrow> [t])"

definition accounts :: "(u32 \<Rightarrow> 'c \<Rightarrow> 'c \<times> bool) \<Rightarrow> u32 list \<Rightarrow> u32 list \<Rightarrow> 'c \<Rightarrow> nat \<Rightarrow> ('e, 'c) outcome \<Rightarrow> bool" where
  "accounts cb h g c limit out = (case out of
       Finished h2 p g2 th2 c2 \<Rightarrow> \<exists>new. g2 = g @ new \<and> h2 @ pending_list p = h @ new \<and> feed cb new c = Some c2
         \<and> length new \<le> limit
     | Halted h2 t c2 \<Rightarrow> \<exists>new c1. h2 = h @ new \<and> feed cb new c = Some c1 \<and> cb t c1 = (c2, False)
         \<and> length new < limit
     | Stuck e \<Rightarrow> True)"

lemma accounts_prepend:
  assumes "accounts cb (h @ xs) (g @ xs) c1 limit out" and "feed cb xs c = Some c1" and "length xs + limit \<le> limit'"
  shows "accounts cb h g c limit' out"
proof (cases out)
  case (Finished h2 p g2 th2 c2)
  with assms obtain new where "g2 = g @ xs @ new" "h2 @ pending_list p = h @ xs @ new" "feed cb new c1 = Some c2"
    "length new \<le> limit"
    by (auto simp: accounts_def)
  with Finished assms(2,3) show ?thesis
    by (auto simp: accounts_def feed_append intro!: exI [of _ "xs @ new"])
next
  case (Halted h2 t c2)
  with assms obtain new c3 where "h2 = h @ xs @ new" "feed cb new c1 = Some c3" "cb t c3 = (c2, False)" "length new < limit"
    by (auto simp: accounts_def)
  with Halted assms(2,3) show ?thesis
    by (auto simp: accounts_def feed_append intro!: exI [of _ "xs @ new"] exI [of _ c3])
qed (simp add: accounts_def)

lemma force_emit_feeds: "force_emit cb ts h c = (h2, c2, r) \<Longrightarrow>
    (case r of None \<Rightarrow> h2 = h @ ts \<and> feed cb ts c = Some c2
     | Some t \<Rightarrow> \<exists>new c1. h2 = h @ new \<and> feed cb new c = Some c1 \<and> cb t c1 = (c2, False) \<and> length new < length ts)"
proof (induction ts arbitrary: h c)
  case (Cons t ts)
  obtain c1 ok where cb: "cb t c = (c1, ok)" by (rule prod.exhaust)
  show ?case
  proof (cases ok)
    case True
    with Cons.prems cb have "force_emit cb ts (h @ [t]) c1 = (h2, c2, r)" by simp
    from Cons.IH [OF this] show ?thesis
    proof (cases r)
      case (Some u)
      with Cons.IH [OF \<open>force_emit cb ts (h @ [t]) c1 = _\<close>] obtain new c3 where
        "h2 = h @ t # new" "feed cb new c1 = Some c3" "cb u c3 = (c2, False)" "length new < length ts" by auto
      with Some cb True show ?thesis by (auto intro!: exI [of _ "t # new"])
    qed (use cb True in simp)
  next
    case False
    with Cons.prems cb show ?thesis by auto
  qed
qed simp

text \<open>How many tokens a turn may emit: its room, and one forced closure while the budget is open.\<close>

definition closure_room :: "thinking option \<Rightarrow> nat" where
  "closure_room th = (if inactive th then 0 else length (closure_of th))"

lemma closure_room_observe: "observe_opt th t e = (th', b) \<Longrightarrow> closure_room th' \<le> closure_room th"
  by (auto simp: closure_room_def inactive_def closure_of_def observe_opt_def observe_committed_def Let_def
      split: option.splits if_splits)

lemma closure_room_force: "observe_opt th t e = (th', ForceClosure) \<Longrightarrow>
    closure_room th' = 0 \<and> length (closure_of th') = closure_room th"
  by (auto simp: closure_room_def inactive_def closure_of_def observe_opt_def observe_committed_def Let_def
      split: option.splits if_splits)

lemma greedy_accounts:
  "accounts cb h g c (maxn - length g + closure_room th) (greedy nxt stop maxn cb h g th c)"
proof (induction nxt stop maxn cb h g th c rule: greedy.induct)
  case (1 nxt stop maxn cb h g th c)
  let ?out = "greedy nxt stop maxn cb h g th c" and ?limit = "maxn - length g + closure_room th"
  note unfold = greedy.simps [of nxt stop maxn cb h g th c]
  show ?case
  proof (cases "maxn \<le> length g")
    case True
    then show ?thesis by (simp add: unfold accounts_def pending_list_def)
  next
    case room: False
    show ?thesis
    proof (cases "nxt h")
      case (Inl e)
      with room show ?thesis by (simp add: unfold accounts_def)
    next
      case t: (Inr t)
      obtain c1 ok where cb: "cb t c = (c1, ok)" by (rule prod.exhaust)
      obtain th1 b where obs: "observe_opt th t (\<not> stop t) = (th1, b)" by (rule prod.exhaust)
      have fed: "ok \<Longrightarrow> feed cb [t] c = Some c1" using cb by simp
      have ended: "accounts cb h g c ?limit (Finished h (Some t) (g @ [t]) th1 c1)" if ok
        using that fed room by (simp add: accounts_def pending_list_def)
      show ?thesis
      proof (cases "ok \<and> \<not> stop t")
        case False
        with room t cb obs ended show ?thesis by (auto simp: unfold accounts_def)
      next
        case go: True
        show ?thesis
        proof (cases "b = ForceClosure")
          case force: True
          obtain h3 c3 r where close: "force_emit cb (closure_of th1) (h @ [t]) c1 = (h3, c3, r)" by (rule prod_cases3)
          note rooms = closure_room_force [OF obs [unfolded force]]
          show ?thesis
          proof (cases r)
            case None
            with close go cb have fed': "h3 = h @ [t] @ closure_of th1" "feed cb ([t] @ closure_of th1) c = Some c3"
              using force_emit_feeds [OF close] by auto
            have "accounts cb h3 (g @ [t] @ closure_of th1) c3 (maxn - length (g @ [t] @ closure_of th1) + closure_room th1)
                (greedy nxt stop maxn cb h3 (g @ [t] @ closure_of th1) th1 c3)"
              using "1.IH" (1) [OF room t cb [symmetric] _ obs [symmetric] _ force close [symmetric] refl] None go by simp
            from accounts_prepend [OF this [unfolded fed'(1)] fed'(2), of ?limit] rooms room
            show ?thesis using room t cb obs go force close None fed'(1) by (simp add: unfold)
          next
            case (Some tok)
            with force_emit_feeds [OF close] obtain new c4 where new: "h3 = (h @ [t]) @ new" "feed cb new c1 = Some c4"
              "cb tok c4 = (c3, False)" "length new < length (closure_of th1)" by auto
            with cb go have "feed cb (t # new) c = Some c4" by simp
            with new rooms room have "accounts cb h g c ?limit (Halted h3 tok c3)"
              by (auto simp: accounts_def simp del: feed.simps intro!: exI [of _ "t # new"] exI [of _ c4])
            then show ?thesis using room t cb obs go force close Some by (simp add: unfold)
          qed
        next
          case plain: False
          show ?thesis
          proof (cases "maxn \<le> length (g @ [t])")
            case True
            with room t cb obs go plain ended show ?thesis by (simp add: unfold)
          next
            case more: False
            have "accounts cb (h @ [t]) (g @ [t]) c1 (maxn - length (g @ [t]) + closure_room th1)
                (greedy nxt stop maxn cb (h @ [t]) (g @ [t]) th1 c1)"
              using "1.IH" (2) [OF room t cb [symmetric] _ obs [symmetric] _ plain more] go by simp
            from accounts_prepend [OF this fed, of ?limit] closure_room_observe [OF obs] room go
            show ?thesis using t cb obs plain more by (simp add: unfold)
          qed
        qed
      qed
    qed
  qed
qed

lemma greedy_turn_accounts:
  "accounts cb h [] c (maxn + closure_room th) (greedy_turn nxt stop maxn cb h th c)"
proof -
  obtain th1 forced where force: "should_force_opt th = (th1, forced)" by (rule prod.exhaust)
  show ?thesis
  proof (cases forced)
    case False
    with force have "th1 = th"
      by (auto simp: should_force_opt_def should_force_def Let_def split: option.splits if_splits)
    with force False greedy_accounts [of cb h "[]" c maxn th nxt stop] show ?thesis by (simp add: greedy_turn_def)
  next
    case True
    with force have rooms: "closure_room th1 = 0" "length (closure_of th1) = closure_room th"
      by (auto simp: closure_room_def inactive_def closure_of_def should_force_opt_def should_force_def Let_def
          split: option.splits if_splits)
    obtain h3 c3 r where close: "force_emit cb (closure_of th1) h c = (h3, c3, r)" by (rule prod_cases3)
    show ?thesis
    proof (cases r)
      case None
      with force_emit_feeds [OF close] have fed: "h3 = h @ closure_of th1" "feed cb (closure_of th1) c = Some c3" by simp_all
      have "accounts cb (h @ closure_of th1) ([] @ closure_of th1) c3 (maxn - length (closure_of th1) + closure_room th1)
          (greedy nxt stop maxn cb h3 (closure_of th1) th1 c3)"
        using greedy_accounts [of cb h3 "closure_of th1" c3 maxn th1 nxt stop] fed(1) by simp
      from accounts_prepend [OF this fed(2), of "maxn + closure_room th"] rooms
      show ?thesis using force True close None by (simp add: greedy_turn_def)
    next
      case (Some tok)
      with force_emit_feeds [OF close] rooms force True close show ?thesis
        by (auto simp: greedy_turn_def accounts_def)
    qed
  qed
qed

section \<open>The target model, as decoding sees it\<close>

locale token_runs =
  fixes run :: "u32 list \<Rightarrow> 's \<Rightarrow> 's \<Rightarrow> 'h list \<Rightarrow> bool"
    and ok :: "'s \<Rightarrow> bool"
  assumes run_Nil: "ok s \<Longrightarrow> run [] s s' hs \<longleftrightarrow> s' = s \<and> hs = []"
    and run_append: "ok s \<Longrightarrow> run (xs @ ys) s s2 hs \<longleftrightarrow>
      (\<exists>s1 h1 h2. run xs s s1 h1 \<and> run ys s1 s2 h2 \<and> hs = h1 @ h2)"
    and run_determ: "run xs s a h \<Longrightarrow> run xs s b k \<Longrightarrow> a = b \<and> h = k"
    and run_ok: "ok s \<Longrightarrow> run xs s s' hs \<Longrightarrow> ok s'"
    and run_length: "ok s \<Longrightarrow> run xs s s' hs \<Longrightarrow> length hs = length xs"
begin

lemma run_take:
  assumes "ok s" and "run xs s s' hs"
  shows "\<exists>s1. run (take n xs) s s1 (take n hs)"
proof -
  from assms have "run (take n xs @ drop n xs) s s' hs" by simp
  then obtain s1 h1 h2 where split: "run (take n xs) s s1 h1" "run (drop n xs) s1 s' h2" "hs = h1 @ h2"
    using run_append [OF assms(1)] by blast
  have "length h1 = min n (length xs)" using run_length [OF assms(1) split(1)] by simp
  then have "take n hs = h1"
    using split(3) run_length [OF assms] run_length [OF run_ok [OF assms(1) split(1)] split(2)] by (cases "n \<le> length xs") auto
  with split(1) show ?thesis by blast
qed

lemma run_prefix: "ok s \<Longrightarrow> run (xs @ ys) s s' hs \<Longrightarrow> \<exists>s1 h1. run xs s s1 h1"
  by (auto simp: run_append)

text \<open>The last row after a sequence does not depend on how the sequence was evaluated.\<close>

lemma run_last:
  assumes "ok s" and "run xs s s1 h1" and "run ys s1 s2 h2" and "ys \<noteq> []" and "run (xs @ ys) s s3 h3"
  shows "s3 = s2 \<and> last h3 = last h2"
proof -
  have "run (xs @ ys) s s2 (h1 @ h2)" using assms run_append by blast
  with assms(5) have "s3 = s2" "h3 = h1 @ h2" using run_determ by blast+
  moreover have "h2 \<noteq> []" using run_length [OF run_ok [OF assms(1,2)] assms(3)] assms(4) by auto
  ultimately show ?thesis by simp
qed

lemma run_compose: "ok s \<Longrightarrow> run xs s s1 h1 \<Longrightarrow> run ys s1 s2 h2 \<Longrightarrow> run (xs @ ys) s s2 (h1 @ h2)"
  by (auto simp: run_append)

lemma run_split_at:
  assumes "ok s" and "run xs s s1 h1" and "run (xs @ ys) s s2 h2"
  shows "\<exists>h. run ys s1 s2 h \<and> h2 = h1 @ h"
  using assms run_append run_determ by blast

end

end
