(* ===== verification/Model_State.thy ===== *)
theory Model_State
  imports DeltaNet Moe Greedy
begin

text \<open>
  The whole target model, \<open>src/qwen/quantized_model.rs\<close> with the layers of
  \<open>src/qwen/quantized_layer.rs\<close>: the sequence state (one cache or recurrent state per layer
  and the position), the pass over all layers, the rollback snapshots of a verification
  pass, images and checkpoints.

  An operation that mutates the state and can fail returns the state it leaves behind with
  its result, so a pass that fails in the middle leaves the layers before the failure
  advanced. The row norms, the embedding and the LM head act row by row and are fields.
\<close>

section \<open>Layers\<close>

record 'f full_layer =
  fl_input_norm :: "'f list \<Rightarrow> 'f list"
  fl_post_attention_norm :: "'f list \<Rightarrow> 'f list"
  fl_attention :: "'f attn_layer"
  fl_moe :: "'f moe_layer"

record 'f linear_layer =
  ll_input_norm :: "'f list \<Rightarrow> 'f list"
  ll_post_attention_norm :: "'f list \<Rightarrow> 'f list"
  ll_delta :: "'f delta_layer"
  ll_moe :: "'f moe_layer"

definition add_rows :: "'f fops \<Rightarrow> 'f list list \<Rightarrow> 'f list list \<Rightarrow> 'f list list" where
  "add_rows F xs ys = map2 (map2 (f_add F)) xs ys"

text \<open>The second half of both layers: the residual, the norm and the experts.\<close>

definition mix_and_route ::
    "'f fops \<Rightarrow> ('f list \<Rightarrow> 'f list) \<Rightarrow> 'f moe_layer \<Rightarrow> 'f list list \<Rightarrow> 'f list list
      \<Rightarrow> model_error + 'f list list" where
  "mix_and_route F post_norm moe xs mixed =
     (let hidden = add_rows F xs mixed
      in case moe_forward F moe (map post_norm hidden) of
           Inl _ \<Rightarrow> Inl ExpertFailure
         | Inr (out, _) \<Rightarrow> Inr (add_rows F hidden out))"

definition full_forward ::
    "'f fops \<Rightarrow> nat \<Rightarrow> 'f full_layer \<Rightarrow> 'f list list \<Rightarrow> nat \<Rightarrow> 'f attn_state
      \<Rightarrow> 'f attn_state \<times> (model_error + 'f list list)" where
  "full_forward F threads L xs pos st =
     (case attn_forward F threads (fl_attention L) (map (fl_input_norm L) xs) pos st of
        Inl e \<Rightarrow> (st, Inl e)
      | Inr (mixed, st') \<Rightarrow> (st', mix_and_route F (fl_post_attention_norm L) (fl_moe L) xs mixed))"

definition linear_forward ::
    "'f fops \<Rightarrow> 'f linear_layer \<Rightarrow> 'f list list \<Rightarrow> 'f delta_state \<Rightarrow> 'f delta_snapshots option
      \<Rightarrow> 'f delta_state \<times> 'f delta_snapshots option \<times> (model_error + 'f list list)" where
  "linear_forward F L xs st sink =
     (case delta_forward F (ll_delta L) (map (ll_input_norm L) xs) st sink of
        Inl e \<Rightarrow> (st, sink, Inl e)
      | Inr (mixed, st', sink') \<Rightarrow>
          (st', sink', mix_and_route F (ll_post_attention_norm L) (ll_moe L) xs mixed))"

section \<open>The model and its state\<close>

datatype 'f decoder_layer = FullLayer "'f full_layer" | LinearLayer "'f linear_layer"

datatype 'f decoder_state = FullState "'f attn_state" | LinearState "'f delta_state"

datatype 'f decoder_checkpoint = FullCheckpoint nat | LinearCheckpoint "'f delta_checkpoint"

datatype 'f layer_image = FullImage "'f attn_image" | LinearImage "'f delta_checkpoint"

record 'f model_state =
  ms_layers :: "'f decoder_state list"
  ms_position :: nat

record 'f model_checkpoint =
  mc_layers :: "'f decoder_checkpoint list"
  mc_position :: nat

record 'f state_image =
  im_layers :: "'f layer_image list"
  im_position :: nat

record 'f state_snapshots =
  qs_linear_layers :: "'f delta_snapshots list"
  qs_position :: nat
  qs_rows :: nat

record 'f model =
  md_layers :: "'f decoder_layer list"
  md_embedding :: "u32 \<Rightarrow> 'f list option"
  md_final_norm :: "'f list \<Rightarrow> 'f list"
  md_lm_head :: "'f list \<Rightarrow> 'f list"
  md_max_position :: nat

definition new_layer_state :: "'f fops \<Rightarrow> 'f decoder_layer \<Rightarrow> 'f decoder_state" where
  "new_layer_state F layer = (case layer of
      FullLayer L \<Rightarrow> FullState attn_new
    | LinearLayer L \<Rightarrow> LinearState (delta_new F (ll_delta L)))"

definition model_new_state :: "'f fops \<Rightarrow> 'f model \<Rightarrow> 'f model_state" where
  "model_new_state F M = \<lparr>ms_layers = map (new_layer_state F) (md_layers M), ms_position = 0\<rparr>"

fun is_linear :: "'f decoder_state \<Rightarrow> bool" where
  "is_linear (LinearState _) = True"
| "is_linear (FullState _) = False"

text \<open>\<open>begin_pass\<close>: one arena per linear layer, sized for the pass.\<close>

fun reserve_layers ::
    "'f fops \<Rightarrow> nat \<Rightarrow> nat \<Rightarrow> 'f decoder_state list \<Rightarrow> 'f delta_snapshots list \<Rightarrow> 'f delta_snapshots list" where
  "reserve_layers F rows index [] arenas = arenas"
| "reserve_layers F rows index (FullState _ # layers) arenas = reserve_layers F rows index layers arenas"
| "reserve_layers F rows index (LinearState st # layers) arenas =
     reserve_layers F rows (index + 1) layers
       (arenas[index := reserve F (arenas ! index) rows (length (ds_conv st)) (length (ds_recurrent st))])"

definition begin_pass :: "'f fops \<Rightarrow> 'f state_snapshots \<Rightarrow> 'f model_state \<Rightarrow> nat \<Rightarrow> 'f state_snapshots" where
  "begin_pass F sn st rows =
     (let linear = length (filter is_linear (ms_layers st));
          arenas = (if length (qs_linear_layers sn) \<noteq> linear
                    then vec_resize (qs_linear_layers sn) linear snapshots_default
                    else qs_linear_layers sn)
      in \<lparr>qs_linear_layers = reserve_layers F rows 0 (ms_layers st) arenas,
          qs_position = ms_position st, qs_rows = rows\<rparr>)"

text \<open>
  The loop over the layers. \<open>arenas\<close> is the snapshot arena of the pass, \<open>None\<close> when the
  pass takes no snapshots.
\<close>

fun layer_loop ::
    "'f fops \<Rightarrow> nat \<Rightarrow> nat \<Rightarrow> nat \<Rightarrow> 'f decoder_layer list \<Rightarrow> 'f decoder_state list \<Rightarrow> 'f list list
      \<Rightarrow> 'f delta_snapshots list option
      \<Rightarrow> 'f decoder_state list \<times> 'f delta_snapshots list option \<times> (model_error + 'f list list)" where
  "layer_loop F threads pos linear_index (FullLayer L # layers) (FullState st # states) hidden arenas =
     (case full_forward F threads L hidden pos st of
        (st', Inl e) \<Rightarrow> (FullState st' # states, arenas, Inl e)
      | (st', Inr out) \<Rightarrow>
          (let (states', arenas', res) = layer_loop F threads pos linear_index layers states out arenas
           in (FullState st' # states', arenas', res)))"
| "layer_loop F threads pos linear_index (LinearLayer L # layers) (LinearState st # states) hidden arenas =
     (let sink = (case arenas of None \<Rightarrow> None
                  | Some as \<Rightarrow> if linear_index < length as then Some (as ! linear_index) else None)
      in case linear_forward F L hidden st sink of (st', sink', res) \<Rightarrow>
         (let arenas' = (case (arenas, sink') of
                 (Some as, Some sn) \<Rightarrow> Some (as[linear_index := sn])
               | _ \<Rightarrow> arenas)
          in case res of
               Inl e \<Rightarrow> (LinearState st' # states, arenas', Inl e)
             | Inr out \<Rightarrow>
                 (let (states', arenas'', res') =
                        layer_loop F threads pos (linear_index + 1) layers states out arenas'
                  in (LinearState st' # states', arenas'', res'))))"
| "layer_loop F threads pos linear_index [] states hidden arenas = (states, arenas, Inr hidden)"
| "layer_loop F threads pos linear_index layers [] hidden arenas = ([], arenas, Inr hidden)"
| "layer_loop F threads pos linear_index (FullLayer L # layers) (LinearState st # states) hidden arenas =
     (LinearState st # states, arenas, Inl LayerTypeMismatch)"
| "layer_loop F threads pos linear_index (LinearLayer L # layers) (FullState st # states) hidden arenas =
     (FullState st # states, arenas, Inl LayerTypeMismatch)"

datatype logit_rows = AllRows | LastRow

record 'f forward_output =
  fo_logits :: "'f list list"
  fo_hidden :: "'f list list"

definition embed_tokens :: "'f model \<Rightarrow> u32 list \<Rightarrow> model_error + 'f list list" where
  "embed_tokens M tokens =
     mapE (\<lambda>t. case md_embedding M t of None \<Rightarrow> Inl DimensionMismatch | Some x \<Rightarrow> Inr x) tokens"

definition forward_inner ::
    "'f fops \<Rightarrow> nat \<Rightarrow> 'f model \<Rightarrow> u32 list \<Rightarrow> 'f model_state \<Rightarrow> 'f state_snapshots option \<Rightarrow> logit_rows
      \<Rightarrow> 'f model_state \<times> 'f state_snapshots option \<times> (model_error + 'f forward_output)" where
  "forward_inner F threads M tokens st snapshots rows =
     (if tokens = [] then (st, snapshots, Inl EmptyForward)
      else if length (ms_layers st) \<noteq> length (md_layers M) then (st, snapshots, Inl WrongModel)
      else if md_max_position M < ms_position st + length tokens then (st, snapshots, Inl PositionLimit)
      else case embed_tokens M tokens of
        Inl e \<Rightarrow> (st, snapshots, Inl e)
      | Inr embedded \<Rightarrow>
          (case layer_loop F threads (ms_position st) 0 (md_layers M) (ms_layers st) embedded
                  (map_option qs_linear_layers snapshots) of
             (layers, arenas, res) \<Rightarrow>
               (let snapshots' = (case (snapshots, arenas) of
                      (Some sn, Some as) \<Rightarrow> Some (sn\<lparr>qs_linear_layers := as\<rparr>)
                    | _ \<Rightarrow> snapshots)
                in case res of
                     Inl e \<Rightarrow> (st\<lparr>ms_layers := layers\<rparr>, snapshots', Inl e)
                   | Inr hidden \<Rightarrow>
                       (let normed = map (md_final_norm M) hidden;
                            logits = (case rows of
                                AllRows \<Rightarrow> map (md_lm_head M) normed
                              | LastRow \<Rightarrow> map (md_lm_head M) (drop (length tokens - 1) normed))
                        in (\<lparr>ms_layers = layers, ms_position = ms_position st + length tokens\<rparr>, snapshots',
                            Inr \<lparr>fo_logits = logits, fo_hidden = normed\<rparr>)))))"

definition forward_detailed_logits ::
    "'f fops \<Rightarrow> nat \<Rightarrow> 'f model \<Rightarrow> u32 list \<Rightarrow> 'f model_state \<Rightarrow> logit_rows
      \<Rightarrow> 'f model_state \<times> (model_error + 'f forward_output)" where
  "forward_detailed_logits F threads M tokens st rows =
     (case forward_inner F threads M tokens st None rows of (st', _, res) \<Rightarrow> (st', res))"

definition forward_detailed ::
    "'f fops \<Rightarrow> nat \<Rightarrow> 'f model \<Rightarrow> u32 list \<Rightarrow> 'f model_state
      \<Rightarrow> 'f model_state \<times> (model_error + 'f forward_output)" where
  "forward_detailed F threads M tokens st = forward_detailed_logits F threads M tokens st AllRows"

definition forward_detailed_with_snapshots ::
    "'f fops \<Rightarrow> nat \<Rightarrow> 'f model \<Rightarrow> u32 list \<Rightarrow> 'f model_state \<Rightarrow> 'f state_snapshots
      \<Rightarrow> 'f model_state \<times> 'f state_snapshots \<times> (model_error + 'f forward_output)" where
  "forward_detailed_with_snapshots F threads M tokens st sn =
     (let sn0 = begin_pass F sn st (length tokens)
      in case forward_inner F threads M tokens st (Some sn0) AllRows of
           (st', sn', res) \<Rightarrow> (st', case sn' of Some s \<Rightarrow> s | None \<Rightarrow> sn0, res))"

section \<open>Rollback, images, checkpoints\<close>

text \<open>
  Mutate the layers in place, in order, until one of them fails. The function sees how many
  linear layers came before.
\<close>

fun try_layers ::
    "(nat \<Rightarrow> 'a \<Rightarrow> 'b \<Rightarrow> model_error + 'a) \<Rightarrow> ('a \<Rightarrow> bool) \<Rightarrow> nat \<Rightarrow> 'a list \<Rightarrow> 'b list
      \<Rightarrow> 'a list \<times> (model_error + unit)" where
  "try_layers f lin index (x # xs) (y # ys) =
     (case f index x y of
        Inl e \<Rightarrow> (x # xs, Inl e)
      | Inr x' \<Rightarrow>
          (let (xs', res) = try_layers f lin (if lin x then index + 1 else index) xs ys in (x' # xs', res)))"
| "try_layers f lin index [] ys = ([], Inr ())"
| "try_layers f lin index xs [] = (xs, Inr ())"

definition rollback_layer ::
    "'f delta_snapshots list \<Rightarrow> nat \<Rightarrow> nat \<Rightarrow> nat \<Rightarrow> 'f decoder_state \<Rightarrow> model_error + 'f decoder_state" where
  "rollback_layer arenas pos committed_rows linear layer = (case layer of
      FullState st \<Rightarrow> bindE (attn_truncate st pos) (\<lambda>st'. Inr (FullState st'))
    | LinearState st \<Rightarrow>
        (if linear < length arenas
         then bindE (restore_into (arenas ! linear) committed_rows st) (\<lambda>st'. Inr (LinearState st'))
         else Inl SnapshotMissing))"

definition rollback ::
    "'f model_state \<Rightarrow> 'f state_snapshots \<Rightarrow> nat \<Rightarrow> 'f model_state \<times> (model_error + unit)" where
  "rollback st sn committed_rows =
     (if \<not> (committed_rows < qs_rows sn \<or> qs_rows sn = 0) then (st, Inl RollbackRange)
      else let pos = qs_position sn + committed_rows
           in case try_layers (\<lambda>linear layer _. rollback_layer (qs_linear_layers sn) pos committed_rows linear layer)
                     is_linear 0 (ms_layers st) (ms_layers st) of
                (layers, Inl e) \<Rightarrow> (st\<lparr>ms_layers := layers\<rparr>, Inl e)
              | (layers, Inr _) \<Rightarrow> (\<lparr>ms_layers = layers, ms_position = pos\<rparr>, Inr ()))"

definition layer_image :: "'f decoder_state \<Rightarrow> 'f layer_image" where
  "layer_image layer = (case layer of
      FullState st \<Rightarrow> FullImage (attn_image st)
    | LinearState st \<Rightarrow> LinearImage (delta_checkpoint st))"

definition model_image :: "'f model_state \<Rightarrow> 'f state_image" where
  "model_image st = \<lparr>im_layers = map layer_image (ms_layers st), im_position = ms_position st\<rparr>"

definition image_validate :: "'f state_image \<Rightarrow> model_error + unit" where
  "image_validate im = bindE (mapE (\<lambda>layer. case layer of
       FullImage a \<Rightarrow> bindE (attn_image_validate a) (\<lambda>_.
          ensure (ai_positions a = im_position im) InconsistentStorage)
     | LinearImage _ \<Rightarrow> Inr ()) (im_layers im)) (\<lambda>_. Inr ())"

definition restore_layer :: "nat \<Rightarrow> 'f decoder_state \<Rightarrow> 'f layer_image \<Rightarrow> model_error + 'f decoder_state" where
  "restore_layer index state saved = (case (state, saved) of
      (FullState st, FullImage im) \<Rightarrow> bindE (attn_restore_image st im) (\<lambda>st'. Inr (FullState st'))
    | (LinearState st, LinearImage im) \<Rightarrow> bindE (delta_restore st im) (\<lambda>st'. Inr (LinearState st'))
    | _ \<Rightarrow> Inl LayerTypeMismatch)"

definition model_restore_image ::
    "'f model_state \<Rightarrow> 'f state_image \<Rightarrow> 'f model_state \<times> (model_error + unit)" where
  "model_restore_image st im =
     (if length (ms_layers st) \<noteq> length (im_layers im) then (st, Inl WrongModel)
      else case image_validate im of
        Inl e \<Rightarrow> (st, Inl e)
      | Inr _ \<Rightarrow>
          (case try_layers restore_layer is_linear 0 (ms_layers st) (im_layers im) of
             (layers, Inl e) \<Rightarrow> (st\<lparr>ms_layers := layers\<rparr>, Inl e)
           | (layers, Inr _) \<Rightarrow> (\<lparr>ms_layers = layers, ms_position = im_position im\<rparr>, Inr ())))"

definition layer_checkpoint :: "'f decoder_state \<Rightarrow> 'f decoder_checkpoint" where
  "layer_checkpoint layer = (case layer of
      FullState st \<Rightarrow> FullCheckpoint (as_positions st)
    | LinearState st \<Rightarrow> LinearCheckpoint (delta_checkpoint st))"

definition model_checkpoint :: "'f model_state \<Rightarrow> 'f model_checkpoint" where
  "model_checkpoint st = \<lparr>mc_layers = map layer_checkpoint (ms_layers st), mc_position = ms_position st\<rparr>"

definition restore_checkpoint_layer ::
    "nat \<Rightarrow> 'f decoder_state \<Rightarrow> 'f decoder_checkpoint \<Rightarrow> model_error + 'f decoder_state" where
  "restore_checkpoint_layer index state saved = (case (state, saved) of
      (FullState st, FullCheckpoint pos) \<Rightarrow> bindE (attn_truncate st pos) (\<lambda>st'. Inr (FullState st'))
    | (LinearState st, LinearCheckpoint cp) \<Rightarrow> bindE (delta_restore st cp) (\<lambda>st'. Inr (LinearState st'))
    | _ \<Rightarrow> Inl LayerTypeMismatch)"

definition model_restore ::
    "'f model_state \<Rightarrow> 'f model_checkpoint \<Rightarrow> 'f model_state \<times> (model_error + unit)" where
  "model_restore st cp =
     (if length (ms_layers st) \<noteq> length (mc_layers cp) then (st, Inl WrongModel)
      else case try_layers restore_checkpoint_layer is_linear 0 (ms_layers st) (mc_layers cp) of
             (layers, Inl e) \<Rightarrow> (st\<lparr>ms_layers := layers\<rparr>, Inl e)
           | (layers, Inr _) \<Rightarrow> (\<lparr>ms_layers = layers, ms_position = mc_position cp\<rparr>, Inr ()))"

section \<open>A layer works row by row\<close>

definition mix_row ::
    "'f fops \<Rightarrow> ('f list \<Rightarrow> 'f list) \<Rightarrow> 'f moe_layer \<Rightarrow> 'f list \<times> 'f list \<Rightarrow> model_error + 'f list" where
  "mix_row F post_norm moe = (\<lambda>(x, m).
     let h = map2 (f_add F) x m
     in case moe_row F moe (post_norm h) of Inl _ \<Rightarrow> Inl ExpertFailure | Inr out \<Rightarrow> Inr (map2 (f_add F) h out))"

lemma mapE_error: "(\<And>x e'. x \<in> set xs \<Longrightarrow> f x = Inl e' \<Longrightarrow> e' = e) \<Longrightarrow> mapE f xs = Inl e' \<Longrightarrow> e' = e"
  using mapE_Inl by metis

lemma mix_and_route_rows:
  assumes len: "length ms = length xs"
  shows "mix_and_route F post_norm moe xs ms = mapE (mix_row F post_norm moe) (zip xs ms)"
proof (cases "mapE (moe_row F moe) (map post_norm (add_rows F xs ms))")
  case (Inl e)
  then have "\<nexists>ys. mapE (mix_row F post_norm moe) (zip xs ms) = Inr ys"
    by (auto simp: mapE_Inr_nth mix_row_def Let_def add_rows_def len dest!: mapE_Inl
        split: sum.splits) (auto simp: in_set_conv_nth len)
  then obtain e' where e': "mapE (mix_row F post_norm moe) (zip xs ms) = Inl e'"
    by (metis obj_sumE)
  then have "e' = ExpertFailure"
    by (auto dest!: mapE_Inl simp: mix_row_def Let_def split: sum.splits)
  moreover have "\<nexists>ys routes. moe_forward F moe (map post_norm (add_rows F xs ms)) = Inr (ys, routes)"
    using Inl moe_forward_rows by (metis sum.distinct(1))
  then have "mix_and_route F post_norm moe xs ms = Inl ExpertFailure"
    unfolding mix_and_route_def Let_def by (auto split: sum.splits)
  ultimately show ?thesis using e' by simp
next
  case (Inr out)
  then obtain routes where "moe_forward F moe (map post_norm (add_rows F xs ms)) = Inr (out, routes)"
    using moe_forward_rows by blast
  then have "mix_and_route F post_norm moe xs ms = Inr (add_rows F (add_rows F xs ms) out)"
    by (simp add: mix_and_route_def Let_def)
  moreover have "mapE (mix_row F post_norm moe) (zip xs ms) = Inr (add_rows F (add_rows F xs ms) out)"
    using Inr by (auto simp: mapE_Inr_nth mix_row_def Let_def add_rows_def len)
  ultimately show ?thesis by simp
qed

definition layer_rows ::
    "'f fops \<Rightarrow> 'f decoder_layer \<Rightarrow> 'f list list \<Rightarrow> 'f decoder_state \<Rightarrow> 'f decoder_state \<times> (model_error + 'f list list)" where
  "layer_rows F layer xs state = (case (layer, state) of
      (FullLayer L, FullState st) \<Rightarrow>
        (let (ms, st') = attn_run F (fl_attention L) (map (fl_input_norm L) xs) st
         in (FullState st', mapE (mix_row F (fl_post_attention_norm L) (fl_moe L)) (zip xs ms)))
    | (LinearLayer L, LinearState st) \<Rightarrow>
        (let (ms, st') = delta_run F (ll_delta L) (map (ll_input_norm L) xs) st
         in (LinearState st', mapE (mix_row F (ll_post_attention_norm L) (ll_moe L)) (zip xs ms)))
    | _ \<Rightarrow> (state, Inl LayerTypeMismatch))"

definition decoder_layer_wf :: "'f decoder_layer \<Rightarrow> bool" where
  "decoder_layer_wf layer = (case layer of
      FullLayer L \<Rightarrow> attn_layer_wf (fl_attention L)
    | LinearLayer L \<Rightarrow> delta_layer_wf (ll_delta L))"

text \<open>A state that belongs to the layer and is at position \<open>pos\<close>.\<close>

definition state_ok :: "nat \<Rightarrow> 'f decoder_layer \<Rightarrow> 'f decoder_state \<Rightarrow> bool" where
  "state_ok pos layer state = (case (layer, state) of
      (FullLayer L, FullState st) \<Rightarrow> attn_layer_wf (fl_attention L) \<and> attn_wf (fl_attention L) st \<and> as_positions st = pos
    | (LinearLayer L, LinearState st) \<Rightarrow> delta_layer_wf (ll_delta L) \<and> delta_wf (ll_delta L) st
    | _ \<Rightarrow> False)"

lemma state_okE:
  assumes "state_ok pos layer state"
  obtains (full) L st where "layer = FullLayer L" "state = FullState st" "attn_layer_wf (fl_attention L)"
      "attn_wf (fl_attention L) st" "as_positions st = pos"
    | (linear) L st where "layer = LinearLayer L" "state = LinearState st" "delta_layer_wf (ll_delta L)"
      "delta_wf (ll_delta L) st"
  using assms by (cases layer; cases state) (auto simp: state_ok_def)

lemma layer_rows_Nil [simp]: "state_ok pos layer state \<Longrightarrow> layer_rows F layer [] state = (state, Inr [])"
  by (erule state_okE) (simp_all add: layer_rows_def)

lemma layer_rows_length:
  "layer_rows F layer xs state = (state', Inr out) \<Longrightarrow> length out = length xs"
  by (auto simp: layer_rows_def Let_def case_prod_unfold split: decoder_layer.splits decoder_state.splits
      dest: mapE_length)

lemma state_ok_rows:
  "state_ok pos layer state \<Longrightarrow> state_ok (pos + length xs) layer (fst (layer_rows F layer xs state))"
  by (erule state_okE)
    (simp_all add: layer_rows_def state_ok_def Let_def case_prod_unfold attn_wf_run attn_run_positions delta_wf_run)

lemma layer_rows_append:
  assumes "state_ok pos layer state"
  shows "layer_rows F layer (xs @ ys) state =
    (case layer_rows F layer xs state of (s1, r1) \<Rightarrow> case layer_rows F layer ys s1 of (s2, r2) \<Rightarrow>
       (s2, bindE r1 (\<lambda>us. bindE r2 (\<lambda>vs. Inr (us @ vs)))))"
  using assms
  by (cases rule: state_okE)
    (simp_all add: layer_rows_def Let_def case_prod_unfold attn_run_append delta_run_append mapE_append)

section \<open>All layers\<close>

fun rows_loop ::
    "'f fops \<Rightarrow> 'f decoder_layer list \<Rightarrow> 'f decoder_state list \<Rightarrow> 'f list list
      \<Rightarrow> 'f decoder_state list \<times> (model_error + 'f list list)" where
  "rows_loop F (layer # layers) (state # states) xs =
     (case layer_rows F layer xs state of
        (s', Inl e) \<Rightarrow> (s' # states, Inl e)
      | (s', Inr out) \<Rightarrow> (let (ss', res) = rows_loop F layers states out in (s' # ss', res)))"
| "rows_loop F layers states xs = (states, Inr xs)"

abbreviation states_ok :: "nat \<Rightarrow> 'f decoder_layer list \<Rightarrow> 'f decoder_state list \<Rightarrow> bool" where
  "states_ok pos \<equiv> list_all2 (state_ok pos)"

lemma rows_loop_Nil [simp]: "states_ok pos layers states \<Longrightarrow> rows_loop F layers states [] = (states, Inr [])"
  by (induction layers states rule: list_all2_induct) simp_all

lemma rows_loop_Cons_Inr:
  "rows_loop F (layer # layers) (state # states) xs = (s2, Inr out) \<longleftrightarrow>
    (\<exists>s' us ss'. layer_rows F layer xs state = (s', Inr us) \<and> rows_loop F layers states us = (ss', Inr out)
       \<and> s2 = s' # ss')"
proof -
  obtain s' r where 1: "layer_rows F layer xs state = (s', r)" by (metis surj_pair)
  show ?thesis
  proof (cases r)
    case (Inr us)
    obtain ss' q where "rows_loop F layers states us = (ss', q)" by (metis surj_pair)
    with 1 Inr show ?thesis by auto
  qed (use 1 in simp)
qed

lemma rows_loop_length:
  "states_ok pos layers states \<Longrightarrow> rows_loop F layers states xs = (states', Inr out) \<Longrightarrow> length out = length xs"
  by (induction layers states arbitrary: xs states' rule: list_all2_induct)
    (auto simp: rows_loop_Cons_Inr simp del: rows_loop.simps(1) dest!: layer_rows_length)

lemma rows_loop_states_ok:
  "states_ok pos layers states \<Longrightarrow> rows_loop F layers states xs = (states', Inr out) \<Longrightarrow>
    states_ok (pos + length xs) layers states'"
proof (induction layers states arbitrary: xs states' rule: list_all2_induct)
  case (Cons layer layers state states)
  from Cons.prems obtain s' us ss' where
    "layer_rows F layer xs state = (s', Inr us)" "rows_loop F layers states us = (ss', Inr out)" "states' = s' # ss'"
    unfolding rows_loop_Cons_Inr by blast
  with Cons.IH [of us ss'] Cons.hyps state_ok_rows [OF Cons.hyps(1), of xs F] layer_rows_length show ?case
    by (metis fst_conv list_all2_Cons)
qed simp

lemma rows_loop_append:
  assumes "states_ok pos layers states"
  shows "rows_loop F layers states (xs @ ys) = (s2, Inr out) \<longleftrightarrow>
    (\<exists>s1 us vs. rows_loop F layers states xs = (s1, Inr us) \<and> rows_loop F layers s1 ys = (s2, Inr vs)
       \<and> out = us @ vs)"
  using assms
proof (induction layers states arbitrary: xs ys s2 out rule: list_all2_induct)
  case Nil
  then show ?case by auto
next
  case (Cons layer layers state states)
  obtain s' r1 where 1: "layer_rows F layer xs state = (s', r1)" by (metis surj_pair)
  obtain s'' r2 where 2: "layer_rows F layer ys s' = (s'', r2)" by (metis surj_pair)
  have app: "layer_rows F layer (xs @ ys) state = (s'', bindE r1 (\<lambda>us. bindE r2 (\<lambda>vs. Inr (us @ vs))))"
    using layer_rows_append [OF Cons.hyps(1), of F xs ys] 1 2 by simp
  show ?case
  proof (cases r1)
    case (Inl e)
    with 1 app show ?thesis by (simp add: rows_loop_Cons_Inr del: rows_loop.simps(1))
  next
    case (Inr us)
    show ?thesis
    proof (cases r2)
      case (Inl e)
      with \<open>r1 = Inr us\<close> 1 2 app show ?thesis
        by (auto simp: rows_loop_Cons_Inr simp del: rows_loop.simps(1))
    next
      case (Inr vs)
      with \<open>r1 = Inr us\<close> 1 2 app Cons.IH [of us vs] show ?thesis
        by (auto simp: rows_loop_Cons_Inr simp del: rows_loop.simps(1))
    qed
  qed
qed

section \<open>The loop runs the rows, whatever it records\<close>

fun arenas_ready ::
    "nat \<Rightarrow> 'f decoder_layer list \<Rightarrow> nat \<Rightarrow> 'f delta_snapshots list \<Rightarrow> bool" where
  "arenas_ready rows [] k arenas = True"
| "arenas_ready rows (FullLayer L # layers) k arenas = arenas_ready rows layers k arenas"
| "arenas_ready rows (LinearLayer L # layers) k arenas =
     (k < length arenas \<and> arena_for (ll_delta L) (arenas ! k) \<and> sn_stored_rows (arenas ! k) = 0
       \<and> rows \<le> sn_rows (arenas ! k) \<and> arenas_ready rows layers (k + 1) arenas)"

lemma arenas_ready_cong:
  "length as = length bs \<Longrightarrow> (\<And>j. k \<le> j \<Longrightarrow> j < length as \<Longrightarrow> as ! j = bs ! j) \<Longrightarrow>
    arenas_ready rows layers k as = arenas_ready rows layers k bs"
  by (induction rows layers k as rule: arenas_ready.induct) auto

lemma full_forward_rows:
  assumes "attn_layer_wf (fl_attention L)" "attn_wf (fl_attention L) st" "as_positions st = pos" "xs \<noteq> []"
  shows "full_forward F threads L xs pos st =
    (snd (attn_run F (fl_attention L) (map (fl_input_norm L) xs) st),
     snd (layer_rows F (FullLayer L) xs (FullState st)))"
  using assms attn_forward_run [OF assms(1,2), of "map (fl_input_norm L) xs" F threads]
  by (simp add: full_forward_def layer_rows_def case_prod_unfold Let_def mix_and_route_rows)

lemma linear_forward_rows:
  assumes "delta_layer_wf (ll_delta L)" "delta_wf (ll_delta L) st"
  shows "linear_forward F L xs st None =
    (snd (delta_run F (ll_delta L) (map (ll_input_norm L) xs) st), None,
     snd (layer_rows F (LinearLayer L) xs (LinearState st)))"
  using assms delta_forward_run [OF assms(2), of F "map (ll_input_norm L) xs"]
  by (simp add: linear_forward_def layer_rows_def case_prod_unfold Let_def mix_and_route_rows)

lemma linear_forward_arena:
  assumes L: "delta_layer_wf (ll_delta L)" and st: "delta_wf (ll_delta L) st"
    and sn: "arena_for (ll_delta L) sn" "sn_stored_rows sn = 0" "length xs \<le> sn_rows sn" and "xs \<noteq> []"
  shows "\<exists>sn'. linear_forward F L xs st (Some sn) =
      (snd (delta_run F (ll_delta L) (map (ll_input_norm L) xs) st), Some sn',
       snd (layer_rows F (LinearLayer L) xs (LinearState st)))
    \<and> arena_for (ll_delta L) sn'
    \<and> (\<forall>r < length xs. \<forall>cur. delta_wf (ll_delta L) cur \<longrightarrow> restore_into sn' r cur
          = Inr (snd (delta_run F (ll_delta L) (map (ll_input_norm L) (take r xs)) st)))"
proof -
  obtain sn' where sn': "delta_forward F (ll_delta L) (map (ll_input_norm L) xs) st (Some sn)
      = Inr (fst (delta_run F (ll_delta L) (map (ll_input_norm L) xs) st),
             snd (delta_run F (ll_delta L) (map (ll_input_norm L) xs) st), Some sn')"
    "arena_for (ll_delta L) sn'" "sn_stored_rows sn' = length xs"
    "\<forall>r < length xs. slot_state sn' r = snd (delta_run F (ll_delta L) (map (ll_input_norm L) (take r xs)) st)"
    using delta_forward_arena [OF L st sn(1,2), of "map (ll_input_norm L) xs" F] sn(3) assms(6)
    by (auto simp: take_map)
  then show ?thesis
    by (intro exI [of _ sn'])
      (simp add: linear_forward_def layer_rows_def case_prod_unfold Let_def mix_and_route_rows restore_into_slot)
qed

lemma layer_loop_plain:
  "states_ok pos layers states \<Longrightarrow> xs \<noteq> [] \<Longrightarrow>
    layer_loop F threads pos k layers states xs None
      = (fst (rows_loop F layers states xs), None, snd (rows_loop F layers states xs))"
proof (induction layers states arbitrary: k xs rule: list_all2_induct)
  case Nil
  then show ?case by simp
next
  case (Cons layer layers state states)
  obtain s' r where row: "layer_rows F layer xs state = (s', r)" by (metis surj_pair)
  have ne: "us \<noteq> []" if "r = Inr us" for us
    using layer_rows_length row that Cons.prems by fastforce
  from Cons.hyps(1) show ?case
  proof (cases rule: state_okE)
    case (full L st)
    have "s' = FullState (snd (attn_run F (fl_attention L) (map (fl_input_norm L) xs) st))"
      using row full by (simp add: layer_rows_def case_prod_unfold Let_def)
    with full row ne Cons.IH Cons.prems full_forward_rows [OF full(3,4,5) Cons.prems, of F threads] show ?thesis
      by (cases r) (simp_all add: case_prod_unfold Let_def)
  next
    case (linear L st)
    have "s' = LinearState (snd (delta_run F (ll_delta L) (map (ll_input_norm L) xs) st))"
      using row linear by (simp add: layer_rows_def case_prod_unfold Let_def)
    with linear row ne Cons.IH Cons.prems linear_forward_rows [OF linear(3,4), of F xs] show ?thesis
      by (cases r) (simp_all add: case_prod_unfold Let_def)
  qed
qed

section \<open>Rolling a pass back\<close>

abbreviation rollback_from ::
    "'f delta_snapshots list \<Rightarrow> nat \<Rightarrow> nat \<Rightarrow> nat \<Rightarrow> 'f decoder_state list \<Rightarrow> 'f decoder_state list \<times> (model_error + unit)" where
  "rollback_from arenas pos r k states \<equiv>
     try_layers (\<lambda>linear layer _. rollback_layer arenas (pos + r) r linear layer) is_linear k states states"

lemma layer_rows_take:
  assumes ok: "state_ok pos layer state" and row: "layer_rows F layer xs state = (s', Inr us)"
  shows "\<exists>s1. layer_rows F layer (take r xs) state = (s1, Inr (take r us))"
proof -
  obtain s1 r1 where 1: "layer_rows F layer (take r xs) state = (s1, r1)" by (metis surj_pair)
  have "(s', Inr us) = (case layer_rows F layer (drop r xs) s1 of (s2, r2) \<Rightarrow>
      (s2, bindE r1 (\<lambda>us. bindE r2 (\<lambda>vs. Inr (us @ vs)))))"
    using layer_rows_append [OF ok, of F "take r xs" "drop r xs"] row 1 by simp
  then obtain us1 vs where "r1 = Inr us1" "us = us1 @ vs"
    by (auto simp: bindE_Inr_iff eq_commute [of "Inr us"] split: prod.splits)
  moreover have "length us1 = length (take r xs)" "length us = length xs"
    using layer_rows_length 1 row \<open>r1 = Inr us1\<close> by blast+
  ultimately have "us1 = take r us" by (metis append_eq_conv_conj length_take min.commute take_take)
  with 1 \<open>r1 = Inr us1\<close> show ?thesis by simp
qed

lemma rollback_untouched:
  "states_ok pos layers states \<Longrightarrow> arenas_ready rows layers k arenas \<Longrightarrow>
    rollback_from arenas pos 0 k states = (states, Inr ())"
proof (induction layers states arbitrary: k rule: list_all2_induct)
  case (Cons layer layers state states)
  from Cons.hyps(1) show ?case
  proof (cases rule: state_okE)
    case (full L st)
    with Cons attn_truncate_prefix [OF full(4), of pos] show ?thesis
      by (simp add: rollback_layer_def kv_prefix_all)
  next
    case (linear L st)
    with Cons show ?thesis by (simp add: rollback_layer_def restore_into_untouched)
  qed
qed simp

text \<open>One layer of a pass with snapshots: what it runs, records and can be rolled back to.\<close>

definition step_arena ::
    "'f fops \<Rightarrow> nat \<Rightarrow> nat \<Rightarrow> nat \<Rightarrow> 'f decoder_layer \<Rightarrow> 'f decoder_state \<Rightarrow> 'f list list
      \<Rightarrow> 'f delta_snapshots list \<Rightarrow> nat \<Rightarrow> 'f delta_snapshots list \<Rightarrow> bool" where
  "step_arena F threads pos k layer state xs arenas k1 arenas1 \<longleftrightarrow>
     (\<forall>layers states. layer_loop F threads pos k (layer # layers) (state # states) xs (Some arenas)
        = (case layer_rows F layer xs state of
             (s', Inl e) \<Rightarrow> (s' # states, Some arenas1, Inl e)
           | (s', Inr us) \<Rightarrow> (case layer_loop F threads pos k1 layers states us (Some arenas1) of
                (ss, a, r) \<Rightarrow> (s' # ss, a, r))))
     \<and> k1 = (if is_linear state then k + 1 else k)
     \<and> length arenas1 = length arenas \<and> (\<forall>j < length arenas. j < k \<or> k1 \<le> j \<longrightarrow> arenas1 ! j = arenas ! j)
     \<and> (\<forall>a \<in> set arenas1. arena_ok a)
     \<and> (\<forall>r < length xs. \<forall>arenas'. length arenas' = length arenas \<and> (\<forall>j < min k1 (length arenas). arenas' ! j = arenas1 ! j) \<longrightarrow>
          rollback_layer arenas' (pos + r) r k (fst (layer_rows F layer xs state))
            = Inr (fst (layer_rows F layer (take r xs) state)))
     \<and> is_linear (fst (layer_rows F layer xs state)) = is_linear state"

lemma rollback_full:
  assumes L: "attn_layer_wf L" "attn_wf L st" and r: "r < length xs"
  shows "attn_truncate (snd (attn_run F L xs st)) (as_positions st + r) = Inr (snd (attn_run F L (take r xs) st))"
proof -
  have "kv_prefix (kv_width L) (kv_width L) (as_positions st + r) (snd (attn_run F L xs st))
      = snd (attn_run F L (take r xs) st)"
    using attn_run_prefix [OF L, of "take r xs" F "drop r xs"] r by (simp add: min_absorb2)
  then show ?thesis
    using attn_truncate_prefix [OF attn_wf_run [OF L], of "as_positions st + r" F xs] r
    by (simp add: attn_run_positions)
qed

lemma step_arena_full:
  assumes "attn_layer_wf (fl_attention L)" "attn_wf (fl_attention L) st" "as_positions st = pos" "xs \<noteq> []"
    "\<forall>a \<in> set arenas. arena_ok a"
  shows "step_arena F threads pos k (FullLayer L) (FullState st) xs arenas k arenas"
proof -
  have run: "fst (layer_rows F (FullLayer L) ys (FullState st))
      = FullState (snd (attn_run F (fl_attention L) (map (fl_input_norm L) ys) st))" for ys
    by (simp add: layer_rows_def case_prod_unfold Let_def)
  have "rollback_layer arenas' (pos + r) r k (fst (layer_rows F (FullLayer L) xs (FullState st)))
      = Inr (fst (layer_rows F (FullLayer L) (take r xs) (FullState st)))" if "r < length xs" for r arenas'
    using rollback_full [OF assms(1,2), of r "map (fl_input_norm L) xs" F] that assms(3)
    by (simp add: run rollback_layer_def take_map)
  then show ?thesis
    using assms(5) full_forward_rows [OF assms(1-4), of F threads] run [of xs]
    by (auto simp: step_arena_def case_prod_unfold Let_def split: sum.splits)
qed

lemma step_arena_linear:
  assumes L: "delta_layer_wf (ll_delta L)" "delta_wf (ll_delta L) st" and "xs \<noteq> []"
    and k: "k < length arenas" "arena_for (ll_delta L) (arenas ! k)" "sn_stored_rows (arenas ! k) = 0"
      "length xs \<le> sn_rows (arenas ! k)"
    and ok: "\<forall>a \<in> set arenas. arena_ok a"
  shows "\<exists>arenas1. step_arena F threads pos k (LinearLayer L) (LinearState st) xs arenas (k + 1) arenas1"
proof -
  let ?rows = "\<lambda>ys. layer_rows F (LinearLayer L) ys (LinearState st)"
  let ?run = "\<lambda>ys. snd (delta_run F (ll_delta L) (map (ll_input_norm L) ys) st)"
  obtain sn' where pass: "linear_forward F L xs st (Some (arenas ! k)) = (?run xs, Some sn', snd (?rows xs))"
    and sn': "arena_for (ll_delta L) sn'"
    and restore: "\<forall>r < length xs. \<forall>cur. delta_wf (ll_delta L) cur \<longrightarrow>
        restore_into sn' r cur = Inr (?run (take r xs))"
    using linear_forward_arena [OF L k(2-4) assms(3), of F] by auto
  have run: "fst (?rows ys) = LinearState (?run ys)" for ys
    by (simp add: layer_rows_def case_prod_unfold Let_def)
  have rows: "?rows xs = (LinearState (?run xs), snd (?rows xs))" using run [of xs] by (metis prod.collapse)
  let ?as1 = "arenas[k := sn']"
  have ok1: "\<forall>a \<in> set ?as1. arena_ok a"
    using ok sn' set_update_subset_insert [of arenas k sn'] by (auto simp: arena_for_def)
  have "rollback_layer arenas' (pos + r) r k (fst (?rows xs)) = Inr (fst (?rows (take r xs)))"
    if "r < length xs" "length arenas' = length arenas" "\<forall>j < min (k + 1) (length arenas). arenas' ! j = ?as1 ! j" for r arenas'
    using that k(1) restore delta_wf_run [OF L] by (simp add: run rollback_layer_def)
  moreover have "layer_loop F threads pos k (LinearLayer L # layers) (LinearState st # states) xs (Some arenas)
      = (case ?rows xs of
           (s', Inl e) \<Rightarrow> (s' # states, Some ?as1, Inl e)
         | (s', Inr us) \<Rightarrow> (case layer_loop F threads pos (Suc k) layers states us (Some ?as1) of
              (ss, a, r) \<Rightarrow> (s' # ss, a, r)))" for layers states
    by (subst rows) (use pass k(1) in \<open>auto simp: case_prod_unfold Let_def split: sum.splits\<close>)
  ultimately show ?thesis
    using ok1 run [of xs] by (intro exI [of _ ?as1]) (simp add: step_arena_def del: layer_loop.simps)
qed

lemma step_arena_exists:
  assumes "state_ok pos layer state" "xs \<noteq> []" "arenas_ready (length xs) (layer # layers) k arenas"
    "\<forall>a \<in> set arenas. arena_ok a"
  shows "\<exists>k1 arenas1. step_arena F threads pos k layer state xs arenas k1 arenas1
    \<and> arenas_ready (length xs) layers k1 arenas1"
  using assms(1)
proof (cases rule: state_okE)
  case (full L st)
  then show ?thesis
    using step_arena_full [OF full(3-5) assms(2,4), of F threads k] assms(3)
    by (intro exI [of _ k] exI [of _ arenas]) simp
next
  case (linear L st)
  with assms(3) have k: "k < length arenas" "arena_for (ll_delta L) (arenas ! k)" "sn_stored_rows (arenas ! k) = 0"
    "length xs \<le> sn_rows (arenas ! k)" "arenas_ready (length xs) layers (k + 1) arenas" by simp_all
  from step_arena_linear [OF linear(3,4) assms(2) k(1-4) assms(4)] obtain arenas1 where
    s: "step_arena F threads pos k layer state xs arenas (k + 1) arenas1"
    using linear(1,2) by blast
  then have "arenas_ready (length xs) layers (k + 1) arenas1"
    using k(5) by (subst arenas_ready_cong [of _ arenas]) (simp_all add: step_arena_def)
  with s show ?thesis by blast
qed

text \<open>
  After a pass with snapshots, whether it ended or failed in the middle, the arena brings
  every layer back to the start, and after a pass that ended, to any row before the last.
\<close>

lemma layer_loop_arena:
  assumes "states_ok pos layers states" "xs \<noteq> []" "arenas_ready (length xs) layers k arenas"
    "\<forall>a \<in> set arenas. arena_ok a"
  shows "\<exists>arenas'. layer_loop F threads pos k layers states xs (Some arenas)
      = (fst (rows_loop F layers states xs), Some arenas', snd (rows_loop F layers states xs))
    \<and> length arenas' = length arenas \<and> (\<forall>j < min k (length arenas). arenas' ! j = arenas ! j)
    \<and> (\<forall>a \<in> set arenas'. arena_ok a)
    \<and> (\<forall>r < length xs. (r = 0 \<or> (\<exists>out. snd (rows_loop F layers states xs) = Inr out)) \<longrightarrow>
        rollback_from arenas' pos r k (fst (rows_loop F layers states xs))
          = (fst (rows_loop F layers states (take r xs)), Inr ()))"
  using assms
proof (induction layers states arbitrary: k xs arenas rule: list_all2_induct)
  case Nil
  then show ?case by auto
next
  case (Cons layer layers state states)
  obtain s' res where row: "layer_rows F layer xs state = (s', res)" by (metis surj_pair)
  obtain k1 arenas1 where step: "step_arena F threads pos k layer state xs arenas k1 arenas1"
    and ready1: "arenas_ready (length xs) layers k1 arenas1"
    using step_arena_exists [OF Cons.hyps(1) Cons.prems] by blast
  note step' = step [unfolded step_arena_def row, simplified]
  show ?case
  proof (cases res)
    case (Inl e)
    have "rollback_layer arenas1 (pos + 0) 0 k s' = Inr (fst (layer_rows F layer (take 0 xs) state))"
      using step' Cons.prems(1) by blast
    then have "rollback_from arenas1 pos 0 k (s' # states) = (state # states, Inr ())"
      using step' rollback_untouched [OF Cons.hyps(2) ready1] Cons.hyps(1) Cons.prems(1) by simp
    moreover have "fst (rows_loop F (layer # layers) (state # states) []) = state # states"
      using rows_loop_Nil [of pos "layer # layers" "state # states"] Cons.hyps by simp
    ultimately show ?thesis
      using step' row Inl by (intro exI [of _ arenas1]) auto
  next
    case (Inr us)
    have us: "us \<noteq> []" "length us = length xs" using layer_rows_length row Inr Cons.prems(1) by fastforce+
    have ready: "arenas_ready (length us) layers k1 arenas1" using ready1 us by simp
    have ok1: "\<forall>a \<in> set arenas1. arena_ok a" using step' by simp
    from Cons.IH [OF us(1) ready ok1] obtain arenas' where
      A: "layer_loop F threads pos k1 layers states us (Some arenas1)
          = (fst (rows_loop F layers states us), Some arenas', snd (rows_loop F layers states us))"
        "length arenas' = length arenas1" "\<forall>j < min k1 (length arenas1). arenas' ! j = arenas1 ! j"
        "\<forall>a \<in> set arenas'. arena_ok a"
      and B: "\<forall>r < length us. (r = 0 \<or> (\<exists>out. snd (rows_loop F layers states us) = Inr out)) \<longrightarrow>
        rollback_from arenas' pos r k1 (fst (rows_loop F layers states us))
          = (fst (rows_loop F layers states (take r us)), Inr ())"
      by blast
    have "rollback_from arenas' pos r k (s' # fst (rows_loop F layers states us))
        = (fst (rows_loop F (layer # layers) (state # states) (take r xs)), Inr ())"
      if r: "r < length xs" and "r = 0 \<or> (\<exists>out. snd (rows_loop F layers states us) = Inr out)" for r
    proof -
      obtain s1 where s1: "layer_rows F layer (take r xs) state = (s1, Inr (take r us))"
        using layer_rows_take [OF Cons.hyps(1)] row Inr by blast
      have "rollback_layer arenas' (pos + r) r k s' = Inr s1"
        using step' A(2,3) r s1 by auto
      moreover have "rollback_from arenas' pos r k1 (fst (rows_loop F layers states us))
          = (fst (rows_loop F layers states (take r us)), Inr ())"
        using B us that by metis
      moreover have "k1 = (if is_linear s' then k + 1 else k)" using step' by simp
      ultimately show ?thesis using s1 by (simp add: case_prod_unfold Let_def)
    qed
    with step' A row Inr show ?thesis
      by (intro exI [of _ arenas']) (auto simp: case_prod_unfold Let_def)
  qed
qed

section \<open>The whole pass\<close>

abbreviation model_ok :: "'f model \<Rightarrow> 'f model_state \<Rightarrow> bool" where
  "model_ok M st \<equiv> states_ok (ms_position st) (md_layers M) (ms_layers st)"

definition snapshots_ok :: "'f state_snapshots \<Rightarrow> bool" where
  "snapshots_ok sn \<longleftrightarrow> (\<forall>a \<in> set (qs_linear_layers sn). arena_ok a)"

text \<open>Evaluating \<open>tokens\<close> takes \<open>st\<close> to \<open>st'\<close> and yields one normed hidden row per token.\<close>

definition runs ::
    "'f fops \<Rightarrow> 'f model \<Rightarrow> u32 list \<Rightarrow> 'f model_state \<Rightarrow> 'f model_state \<Rightarrow> 'f list list \<Rightarrow> bool" where
  "runs F M tokens st st' hidden \<longleftrightarrow> (\<exists>emb raw. embed_tokens M tokens = Inr emb
     \<and> rows_loop F (md_layers M) (ms_layers st) emb = (ms_layers st', Inr raw)
     \<and> ms_position st' = ms_position st + length tokens \<and> hidden = map (md_final_norm M) raw)"

lemma embed_length: "embed_tokens M tokens = Inr emb \<Longrightarrow> length emb = length tokens"
  by (simp add: embed_tokens_def mapE_length)

lemma runs_Nil: "model_ok M st \<Longrightarrow> runs F M [] st st' hidden \<longleftrightarrow> st' = st \<and> hidden = []"
  by (auto simp: runs_def embed_tokens_def)

lemma runs_length: "model_ok M st \<Longrightarrow> runs F M tokens st st' hidden \<Longrightarrow> length hidden = length tokens"
  using rows_loop_length [of "ms_position st" "md_layers M" "ms_layers st" F] embed_length
  by (fastforce simp: runs_def)

lemma runs_ok: "model_ok M st \<Longrightarrow> runs F M tokens st st' hidden \<Longrightarrow> model_ok M st'"
  using rows_loop_states_ok embed_length by (fastforce simp: runs_def)

lemma runs_position: "runs F M tokens st st' hidden \<Longrightarrow> ms_position st' = ms_position st + length tokens"
  by (auto simp: runs_def)

lemma runs_determ: "runs F M tokens st a h \<Longrightarrow> runs F M tokens st b k \<Longrightarrow> a = b \<and> h = k"
  by (auto simp: runs_def)

lemma runs_append:
  assumes ok: "model_ok M st"
  shows "runs F M (xs @ ys) st st2 hidden \<longleftrightarrow>
    (\<exists>st1 h1 h2. runs F M xs st st1 h1 \<and> runs F M ys st1 st2 h2 \<and> hidden = h1 @ h2)"
proof
  assume "runs F M (xs @ ys) st st2 hidden"
  then obtain emb raw where emb: "embed_tokens M (xs @ ys) = Inr emb"
    and loop: "rows_loop F (md_layers M) (ms_layers st) emb = (ms_layers st2, Inr raw)"
    and pos: "ms_position st2 = ms_position st + length (xs @ ys)" and hid: "hidden = map (md_final_norm M) raw"
    by (auto simp: runs_def)
  from emb obtain e1 e2 where e: "embed_tokens M xs = Inr e1" "embed_tokens M ys = Inr e2" "emb = e1 @ e2"
    by (auto simp: embed_tokens_def mapE_append bindE_Inr_iff)
  from loop obtain s1 us vs where "rows_loop F (md_layers M) (ms_layers st) e1 = (s1, Inr us)"
    "rows_loop F (md_layers M) s1 e2 = (ms_layers st2, Inr vs)" "raw = us @ vs"
    unfolding e(3) rows_loop_append [OF ok] by blast
  with e pos hid show "\<exists>st1 h1 h2. runs F M xs st st1 h1 \<and> runs F M ys st1 st2 h2 \<and> hidden = h1 @ h2"
    by (intro exI [of _ "\<lparr>ms_layers = s1, ms_position = ms_position st + length xs\<rparr>"]
        exI [of _ "map (md_final_norm M) us"] exI [of _ "map (md_final_norm M) vs"]) (simp add: runs_def)
next
  assume "\<exists>st1 h1 h2. runs F M xs st st1 h1 \<and> runs F M ys st1 st2 h2 \<and> hidden = h1 @ h2"
  then show "runs F M (xs @ ys) st st2 hidden"
    by (force simp: runs_def embed_tokens_def mapE_append rows_loop_append [OF ok])
qed

text \<open>The target model behind the interface of the decoding proofs.\<close>

interpretation target: token_runs "runs F M" "model_ok M" for F M
  by unfold_locales (fact runs_Nil runs_append runs_determ runs_ok runs_length)+

definition pass_output :: "'f model \<Rightarrow> logit_rows \<Rightarrow> 'f list list \<Rightarrow> 'f forward_output" where
  "pass_output M rows hidden = \<lparr>fo_logits = map (md_lm_head M) (case rows of
       AllRows \<Rightarrow> hidden | LastRow \<Rightarrow> drop (length hidden - 1) hidden), fo_hidden = hidden\<rparr>"

lemma forward_detailed_logits_iff:
  assumes ok: "model_ok M st"
  shows "forward_detailed_logits F threads M tokens st rows = (st', Inr out) \<longleftrightarrow>
    tokens \<noteq> [] \<and> ms_position st + length tokens \<le> md_max_position M
    \<and> runs F M tokens st st' (fo_hidden out) \<and> out = pass_output M rows (fo_hidden out)"
proof (cases "tokens = [] \<or> md_max_position M < ms_position st + length tokens")
  case True
  then show ?thesis
    by (auto simp: forward_detailed_logits_def forward_inner_def)
next
  case False
  have len: "length (ms_layers st) = length (md_layers M)"
    using list_all2_lengthD [OF ok] by simp
  show ?thesis
  proof (cases "embed_tokens M tokens")
    case (Inl e)
    with False len show ?thesis by (simp add: forward_detailed_logits_def forward_inner_def runs_def)
  next
    case (Inr emb)
    have ne: "emb \<noteq> []" using embed_length [OF Inr] False by auto
    obtain ls res where loop: "rows_loop F (md_layers M) (ms_layers st) emb = (ls, res)" by (metis surj_pair)
    show ?thesis
    proof (cases res)
      case (Inl e)
      with False len Inr loop layer_loop_plain [OF ok ne, of F threads 0] show ?thesis
        by (simp add: forward_detailed_logits_def forward_inner_def runs_def)
    next
      case (Inr raw)
      have "length raw = length tokens"
        using rows_loop_length [OF ok, of F emb ls raw] loop Inr embed_length [OF \<open>embed_tokens M tokens = Inr emb\<close>]
        by simp
      with False len \<open>embed_tokens M tokens = Inr emb\<close> loop Inr layer_loop_plain [OF ok ne, of F threads 0]
      show ?thesis
        by (cases out; cases st')
          (auto simp: forward_detailed_logits_def forward_inner_def runs_def pass_output_def Let_def split: logit_rows.splits)
    qed
  qed
qed

lemma forward_detailed_iff:
  "model_ok M st \<Longrightarrow> forward_detailed F threads M tokens st = (st', Inr out) \<longleftrightarrow>
    tokens \<noteq> [] \<and> ms_position st + length tokens \<le> md_max_position M
    \<and> runs F M tokens st st' (fo_hidden out) \<and> out = pass_output M AllRows (fo_hidden out)"
  by (simp add: forward_detailed_def forward_detailed_logits_iff)

section \<open>Snapshots of a pass\<close>

lemma reserve_layers_spec:
  assumes "states_ok pos layers states" "k + length (filter is_linear states) = length arenas"
    "\<forall>a \<in> set arenas. arena_ok a"
  shows "arenas_ready rows layers k (reserve_layers F rows k states arenas)
    \<and> length (reserve_layers F rows k states arenas) = length arenas
    \<and> (\<forall>j < k. reserve_layers F rows k states arenas ! j = arenas ! j)
    \<and> (\<forall>a \<in> set (reserve_layers F rows k states arenas). arena_ok a)"
  using assms
proof (induction layers states arbitrary: k arenas rule: list_all2_induct)
  case Nil
  then show ?case by simp
next
  case (Cons layer layers state states)
  from Cons.hyps(1) show ?case
  proof (cases rule: state_okE)
    case (full L st)
    with Cons show ?thesis by simp
  next
    case (linear L st)
    let ?a = "reserve F (arenas ! k) rows (length (ds_conv st)) (length (ds_recurrent st))"
    let ?as1 = "arenas[k := ?a]"
    have k: "k < length arenas" using Cons.prems(1) linear by simp
    have a: "arena_ok ?a" using Cons.prems(2) k by (simp add: arena_ok_reserve)
    then have ok1: "\<forall>a \<in> set ?as1. arena_ok a"
      using Cons.prems(2) set_update_subset_insert [of arenas k ?a] by auto
    have "k + 1 + length (filter is_linear states) = length ?as1" using Cons.prems(1) linear by simp
    from Cons.IH [OF this ok1] k a linear(1,2,4) show ?thesis
      by (auto simp: arena_for_def delta_wf_def)
  qed
qed

lemma begin_pass_spec:
  assumes ok: "model_ok M st" and sn: "snapshots_ok sn"
  shows "arenas_ready rows (md_layers M) 0 (qs_linear_layers (begin_pass F sn st rows))"
    "snapshots_ok (begin_pass F sn st rows)"
    "qs_position (begin_pass F sn st rows) = ms_position st" "qs_rows (begin_pass F sn st rows) = rows"
proof -
  let ?n = "length (filter is_linear (ms_layers st))"
  let ?as = "if length (qs_linear_layers sn) \<noteq> ?n then vec_resize (qs_linear_layers sn) ?n snapshots_default
    else qs_linear_layers sn"
  have "\<forall>a \<in> set ?as. arena_ok a"
    using sn by (auto simp: snapshots_ok_def vec_resize_def dest: in_set_takeD)
  from reserve_layers_spec [OF ok _ this, of 0 rows F]
  show "arenas_ready rows (md_layers M) 0 (qs_linear_layers (begin_pass F sn st rows))"
    "snapshots_ok (begin_pass F sn st rows)"
    by (simp_all add: begin_pass_def Let_def snapshots_ok_def)
qed (simp_all add: begin_pass_def Let_def)

text \<open>
  What a pass with snapshots does, in one lemma: it computes what the plain pass computes,
  and its snapshots lead back to the start or, once it has ended, to any row of it.
\<close>

lemma forward_snapshots_spec:
  assumes ok: "model_ok M st" and sn: "snapshots_ok sn" and ts: "tokens \<noteq> []"
  shows "\<exists>sn' res st'. forward_detailed_with_snapshots F threads M tokens st sn = (st', sn', res)
    \<and> forward_detailed F threads M tokens st = (st', res) \<and> snapshots_ok sn'
    \<and> (\<forall>r < length tokens. r = 0 \<or> (\<exists>out. res = Inr out) \<longrightarrow>
        (\<exists>st1 h. rollback st' sn' r = (st1, Inr ()) \<and> runs F M (take r tokens) st st1 h))"
proof -
  let ?sn0 = "begin_pass F sn st (length tokens)"
  let ?early = "md_max_position M < ms_position st + length tokens"
  note bp = begin_pass_spec [OF ok sn, where rows = "length tokens" and F = F]
  have len: "length (ms_layers st) = length (md_layers M)" using list_all2_lengthD [OF ok] by simp
  have none: "rollback st ?sn0 0 = (st, Inr ())"
    using rollback_untouched [OF ok bp(1)] ts bp(3,4) by (simp add: rollback_def)
  show ?thesis
  proof (cases "embed_tokens M tokens")
    case (Inl e)
    have "forward_inner F threads M tokens st s AllRows = (st, s, Inl (if ?early then PositionLimit else e))" for s
      using ts len Inl by (simp add: forward_inner_def)
    with none bp(2) ok show ?thesis
      by (auto simp: forward_detailed_with_snapshots_def forward_detailed_def forward_detailed_logits_def Let_def runs_Nil)
  next
    case (Inr emb)
    have emb: "length emb = length tokens" "emb \<noteq> []" using embed_length [OF Inr] ts by auto
    show ?thesis
    proof (cases ?early)
      case True
      have "forward_inner F threads M tokens st s AllRows = (st, s, Inl PositionLimit)" for s
        using ts len True by (simp add: forward_inner_def)
      with none bp(2) ok show ?thesis
        by (auto simp: forward_detailed_with_snapshots_def forward_detailed_def forward_detailed_logits_def Let_def runs_Nil)
    next
      case False
      obtain ls res where loop: "rows_loop F (md_layers M) (ms_layers st) emb = (ls, res)" by (metis surj_pair)
      have "\<forall>a \<in> set (qs_linear_layers ?sn0). arena_ok a" using bp(2) by (simp add: snapshots_ok_def)
      from layer_loop_arena [OF ok emb(2) _ this, where k = 0 and F = F and threads = threads] bp(1) emb(1) loop obtain arenas' where
        A: "layer_loop F threads (ms_position st) 0 (md_layers M) (ms_layers st) emb (Some (qs_linear_layers ?sn0))
            = (ls, Some arenas', res)"
          "\<forall>a \<in> set arenas'. arena_ok a"
        and B: "\<forall>r < length emb. (r = 0 \<or> (\<exists>out. res = Inr out)) \<longrightarrow>
          rollback_from arenas' (ms_position st) r 0 ls = (fst (rows_loop F (md_layers M) (ms_layers st) (take r emb)), Inr ())"
        by auto
      let ?sn' = "?sn0\<lparr>qs_linear_layers := arenas'\<rparr>"
      let ?st' = "case res of Inl e \<Rightarrow> st\<lparr>ms_layers := ls\<rparr>
        | Inr _ \<Rightarrow> \<lparr>ms_layers = ls, ms_position = ms_position st + length tokens\<rparr>"
      let ?res = "case res of Inl e \<Rightarrow> Inl e | Inr raw \<Rightarrow> Inr \<lparr>fo_logits = map (md_lm_head M) (map (md_final_norm M) raw),
        fo_hidden = map (md_final_norm M) raw\<rparr>"
      have "forward_detailed_with_snapshots F threads M tokens st sn = (?st', ?sn', ?res)"
        using ts len False Inr A(1)
        by (simp add: forward_detailed_with_snapshots_def forward_inner_def Let_def split: sum.splits)
      moreover have "forward_detailed F threads M tokens st = (?st', ?res)"
        using ts len False Inr layer_loop_plain [OF ok emb(2), of F threads 0] loop
        by (simp add: forward_detailed_def forward_detailed_logits_def forward_inner_def Let_def split: sum.splits)
      moreover have "snapshots_ok ?sn'" using A(2) by (simp add: snapshots_ok_def)
      moreover have "\<exists>st1 h. rollback ?st' ?sn' r = (st1, Inr ()) \<and> runs F M (take r tokens) st st1 h"
        if r: "r < length tokens" and c: "r = 0 \<or> (\<exists>out. ?res = Inr out)" for r
      proof -
        let ?l1 = "fst (rows_loop F (md_layers M) (ms_layers st) (take r emb))"
        have c': "r = 0 \<or> (\<exists>out. res = Inr out)" using c by (cases res) auto
        have "rollback_from arenas' (ms_position st) r 0 ls = (?l1, Inr ())" using B r emb(1) c' by metis
        moreover have "ms_layers ?st' = ls" by (cases res) simp_all
        ultimately have rb: "rollback ?st' ?sn' r = (\<lparr>ms_layers = ?l1, ms_position = ms_position st + r\<rparr>, Inr ())"
          using r bp(3,4) by (simp add: rollback_def)
        have "\<exists>raw. rows_loop F (md_layers M) (ms_layers st) (take r emb) = (?l1, Inr raw)"
        proof (cases "r = 0")
          case False
          with c' obtain raw where "res = Inr raw" by blast
          with loop have "rows_loop F (md_layers M) (ms_layers st) (take r emb @ drop r emb) = (ls, Inr raw)" by simp
          then show ?thesis unfolding rows_loop_append [OF ok] by auto
        qed (use ok in simp)
        moreover have "embed_tokens M (take r tokens) = Inr (take r emb)"
          using Inr by (auto simp: embed_tokens_def mapE_Inr_nth)
        ultimately have "\<exists>h. runs F M (take r tokens) st \<lparr>ms_layers = ?l1, ms_position = ms_position st + r\<rparr> h"
          using r by (auto simp: runs_def)
        with rb show ?thesis by blast
      qed
      ultimately show ?thesis by blast
    qed
  qed
qed

text \<open>Rolling back in two steps, the second further than the first, is rolling back once.\<close>

lemma attn_truncate_twice:
  assumes "attn_truncate st p = Inr s1" "attn_truncate st p' = Inr s2" "p' \<le> p"
  shows "attn_truncate s1 p' = Inr s2"
proof (cases "p = as_positions st \<or> p = 0")
  case True
  with assms show ?thesis by (auto simp: attn_truncate_def bindE_ensure split: if_splits)
next
  case False
  then have p: "p < as_positions st" "0 < p"
    and kd: "as_positions st dvd length (as_keys st)" and vd: "as_positions st dvd length (as_values st)"
    and s1: "s1 = \<lparr>as_keys = take (p * (length (as_keys st) div as_positions st)) (as_keys st),
      as_values = take (p * (length (as_values st) div as_positions st)) (as_values st), as_positions = p\<rparr>"
    using assms(1) by (auto simp: attn_truncate_def bindE_ensure Let_def split: if_splits)
  have fits: "p * (n div as_positions st) \<le> n" if "as_positions st dvd n" for n
    using p that by (metis dvd_mult_div_cancel less_imp_le mult_le_mono1)
  have len: "length (as_keys s1) = p * (length (as_keys st) div as_positions st)"
    "length (as_values s1) = p * (length (as_values st) div as_positions st)"
    using fits [OF kd] fits [OF vd] by (simp_all add: s1)
  show ?thesis
  proof (cases "p' = p")
    case True
    with assms(1,2) have "s2 = s1" by simp
    with True show ?thesis by (simp add: attn_truncate_def s1 bindE_ensure)
  next
    case False
    with assms(3) p have p': "p' < p" "p' \<noteq> as_positions st" "p' \<le> as_positions st" by auto
    have "min (p' * k) (p * k) = p' * k" for k using p' by (simp add: min_def)
    with assms(2) p p' kd vd len show ?thesis
      by (auto simp: attn_truncate_def bindE_ensure Let_def s1 min_def split: if_splits)
  qed
qed

lemma rollback_layer_twice:
  assumes "state_ok pos layer x" "state_ok pos1 layer x1" "p' \<le> p"
    "rollback_layer arenas p r k x = Inr x1" "rollback_layer arenas p' r' k x = Inr x2"
  shows "rollback_layer arenas p' r' k x1 = Inr x2 \<and> is_linear x1 = is_linear x"
  using assms(1)
proof (cases rule: state_okE)
  case (full L st)
  with assms(4,5) attn_truncate_twice [OF _ _ assms(3), of st] show ?thesis
    by (auto simp: rollback_layer_def bindE_Inr_iff)
next
  case (linear L st)
  with assms(2,4) obtain st1 where x1: "x1 = LinearState st1" "delta_wf (ll_delta L) st1"
    by (auto simp: rollback_layer_def bindE_Inr_iff state_ok_def split: if_splits)
  have len: "length (ds_conv st1) = length (ds_conv st)" "length (ds_recurrent st1) = length (ds_recurrent st)"
    using linear(4) x1(2) by (simp_all add: delta_wf_def)
  have k: "k < length arenas" and r2: "restore_into (arenas ! k) r' st = Inr s2 \<and> x2 = LinearState s2" if "x2 = LinearState s2" for s2
    using assms(5) linear(2) that by (auto simp: rollback_layer_def bindE_Inr_iff split: if_splits)
  obtain s2 where s2: "x2 = LinearState s2"
    using assms(5) linear(2) by (auto simp: rollback_layer_def bindE_Inr_iff split: if_splits)
  have "restore_into (arenas ! k) r' st1 = Inr s2"
  proof (cases "sn_stored_rows (arenas ! k) = 0")
    case True
    with assms(4,5) linear(2) s2 x1 show ?thesis
      by (auto simp: restore_into_def rollback_layer_def split: if_splits)
  next
    case False
    with r2 [OF s2] len show ?thesis by (simp add: restore_into_def bindE_ensure split: if_splits)
  qed
  with k [OF s2] x1 s2 linear(2) show ?thesis by (simp add: rollback_layer_def)
qed

lemma rollback_from_twice:
  assumes "states_ok pos layers xs" "states_ok pos1 layers xs1" "r' \<le> r"
    "rollback_from arenas p r k xs = (xs1, Inr ())" "rollback_from arenas p r' k xs = (xs2, Inr ())"
  shows "rollback_from arenas p r' k xs1 = (xs2, Inr ())"
  using assms
proof (induction layers xs arbitrary: k xs1 xs2 rule: list_all2_induct)
  case Nil
  then show ?case by simp
next
  case (Cons layer layers x xs)
  let ?k = "if is_linear x then k + 1 else k"
  from Cons.prems(3) obtain x1 ys1 where 1: "rollback_layer arenas (p + r) r k x = Inr x1"
    "rollback_from arenas p r ?k xs = (ys1, Inr ())" "xs1 = x1 # ys1"
    by (auto simp: case_prod_unfold Let_def prod_eq_iff split: sum.splits)
  from Cons.prems(4) obtain x2 ys2 where 2: "rollback_layer arenas (p + r') r' k x = Inr x2"
    "rollback_from arenas p r' ?k xs = (ys2, Inr ())" "xs2 = x2 # ys2"
    by (auto simp: case_prod_unfold Let_def prod_eq_iff split: sum.splits)
  have ok1: "state_ok pos1 layer x1" "states_ok pos1 layers ys1" using Cons.prems(1) 1(3) by simp_all
  have "rollback_layer arenas (p + r') r' k x1 = Inr x2 \<and> is_linear x1 = is_linear x"
    using rollback_layer_twice [OF Cons.hyps(1) ok1(1) _ 1(1) 2(1)] Cons.prems(2) by simp
  moreover have "rollback_from arenas p r' ?k ys1 = (ys2, Inr ())"
    using Cons.IH [OF ok1(2) Cons.prems(2) 1(2) 2(2)] .
  ultimately show ?case using 1(3) 2(3) by simp
qed

lemma rollback_twice:
  assumes "model_ok M st" "model_ok M st1" "r' \<le> r"
    "rollback st sn r = (st1, Inr ())" "rollback st sn r' = (st2, Inr ())"
  shows "rollback st1 sn r' = (st2, Inr ())"
  using assms rollback_from_twice [OF assms(1,2,3), of "qs_linear_layers sn" "qs_position sn" 0]
  by (auto simp: rollback_def Let_def split: if_splits prod.splits sum.splits)

section \<open>Images and checkpoints\<close>

lemma restore_layer_image:
  assumes "state_ok pos layer saved" "state_ok pos' layer live"
  shows "restore_layer index live (layer_image saved) = Inr saved"
  using assms(1)
proof (cases rule: state_okE)
  case (full L st)
  with assms(2) obtain st0 where "live = FullState st0" "attn_wf (fl_attention L) st0"
    by (cases live) (auto simp: state_ok_def)
  with full attn_restore_image_image [of _ _ st st0] show ?thesis
    by (simp add: restore_layer_def layer_image_def)
next
  case (linear L st)
  with assms(2) obtain st0 where "live = LinearState st0" "delta_wf (ll_delta L) st0"
    by (cases live) (auto simp: state_ok_def)
  with linear show ?thesis
    by (simp add: restore_layer_def layer_image_def delta_restore_def delta_checkpoint_def delta_wf_def bindE_ensure)
qed

lemma try_layers_restore:
  assumes "states_ok pos layers saved" "states_ok pos' layers live"
  shows "try_layers restore_layer is_linear k live (map layer_image saved) = (saved, Inr ())"
  using assms
proof (induction layers saved arbitrary: k live rule: list_all2_induct)
  case (Cons layer layers s saved)
  then obtain l live' where "live = l # live'" "state_ok pos' layer l" "states_ok pos' layers live'"
    by (auto simp: list_all2_Cons1)
  with Cons show ?case by (simp add: restore_layer_image case_prod_unfold Let_def)
qed simp

lemma model_image_sel:
  "im_layers (model_image st) = map layer_image (ms_layers st)" "im_position (model_image st) = ms_position st"
  by (simp_all add: model_image_def)

lemma image_validate_ok: "model_ok M st \<Longrightarrow> image_validate (model_image st) = Inr ()"
proof -
  assume ok: "model_ok M st"
  have "(case layer_image s of FullImage a \<Rightarrow> bindE (attn_image_validate a) (\<lambda>_.
          ensure (ai_positions a = ms_position st) InconsistentStorage) | LinearImage _ \<Rightarrow> Inr ()) = Inr ()"
    if "s \<in> set (ms_layers st)" for s
  proof -
    obtain l where "state_ok (ms_position st) l s"
      using ok \<open>s \<in> set (ms_layers st)\<close> by (metis in_set_conv_nth list_all2_conv_all_nth)
    then show ?thesis
    proof (cases rule: state_okE)
      case (full L a)
      with attn_image_valid [OF full(4)] show ?thesis
        by (simp add: layer_image_def) (simp add: attn_image_def)
    qed (simp add: layer_image_def)
  qed
  then have "mapE (\<lambda>s. case layer_image s of FullImage a \<Rightarrow> bindE (attn_image_validate a) (\<lambda>_.
          ensure (ai_positions a = ms_position st) InconsistentStorage) | LinearImage _ \<Rightarrow> Inr ()) (ms_layers st)
      = Inr (map (\<lambda>_. ()) (ms_layers st))"
    by (simp add: mapE_Inr_iff list_all2_map_same)
  then show ?thesis
    unfolding image_validate_def model_image_sel mapE_map by simp
qed

lemma length_try_layers: "length (fst (try_layers f lin k xs ys)) = length xs"
  by (induction f lin k xs ys rule: try_layers.induct) (auto simp: case_prod_unfold Let_def split: sum.splits)

lemma restore_checkpoint_rows:
  assumes "state_ok pos layer state"
  shows "restore_checkpoint_layer index (fst (layer_rows F layer xs state)) (layer_checkpoint state) = Inr state"
  using assms
proof (cases rule: state_okE)
  case (full L st)
  then have "attn_truncate (snd (attn_run F (fl_attention L) (map (fl_input_norm L) xs) st)) (as_positions st) = Inr st"
    using attn_truncate_prefix [OF attn_wf_run [OF full(3,4)], of "as_positions st" F "map (fl_input_norm L) xs"]
      attn_run_prefix [OF full(3,4), of "[]" F "map (fl_input_norm L) xs"]
    by (simp add: attn_run_positions)
  with full show ?thesis
    by (simp add: layer_rows_def restore_checkpoint_layer_def layer_checkpoint_def case_prod_unfold Let_def)
next
  case (linear L st)
  with delta_wf_run [OF linear(3,4), of F "map (ll_input_norm L) xs"] show ?thesis
    by (simp add: layer_rows_def restore_checkpoint_layer_def layer_checkpoint_def case_prod_unfold Let_def
        delta_restore_def delta_checkpoint_def delta_wf_def bindE_ensure)
qed

lemma layer_rows_is_linear: "is_linear (fst (layer_rows F layer xs state)) = is_linear state"
  by (auto simp: layer_rows_def case_prod_unfold Let_def split: decoder_layer.splits decoder_state.splits)

lemma try_layers_checkpoint:
  assumes "states_ok pos layers states"
  shows "try_layers restore_checkpoint_layer is_linear k (fst (rows_loop F layers states xs))
    (map layer_checkpoint states) = (states, Inr ())"
  using assms
proof (induction layers states arbitrary: k xs rule: list_all2_induct)
  case (Cons layer layers s states)
  obtain s' res where row: "layer_rows F layer xs s = (s', res)" by (metis surj_pair)
  have head: "restore_checkpoint_layer k s' (layer_checkpoint s) = Inr s"
    using restore_checkpoint_rows [OF Cons.hyps(1), of k F xs] row by simp
  show ?case
  proof (cases res)
    case (Inl e)
    have "fst (rows_loop F layers states []) = states" using rows_loop_Nil [OF Cons.hyps(2)] by simp
    with Cons.IH [of _ "[]"] row Inl head show ?thesis by simp
  next
    case (Inr us)
    with Cons.IH row head show ?thesis by (simp add: case_prod_unfold Let_def)
  qed
qed simp

lemma model_ok_new:
  assumes "\<forall>l \<in> set (md_layers M). decoder_layer_wf l"
  shows "model_ok M (model_new_state F M)"
  using assms
  by (auto simp: model_new_state_def list_all2_conv_all_nth state_ok_def new_layer_state_def decoder_layer_wf_def
      attn_new_def kv_wf_def in_set_conv_nth split: decoder_layer.splits dest!: bspec)

text \<open>A two-layer model on the integers, and the outcomes of passes over it.\<close>

definition example_model :: "int model" where
  "example_model = \<lparr>md_layers =
       [FullLayer \<lparr>fl_input_norm = (\<lambda>x. x), fl_post_attention_norm = (\<lambda>x. x), fl_attention = example_attention,
          fl_moe = example_moe\<rparr>,
        LinearLayer \<lparr>ll_input_norm = (\<lambda>x. x), ll_post_attention_norm = (\<lambda>x. x), ll_delta = example_delta,
          ll_moe = example_moe\<rparr>],
     md_embedding = (\<lambda>t. if t < 100 then Some [uint t] else None), md_final_norm = (\<lambda>x. x),
     md_lm_head = (\<lambda>x. [hd x mod 7, hd x mod 5]), md_max_position = 64\<rparr>"

definition example_failing_model :: "int model" where
  "example_failing_model = example_model\<lparr>md_layers :=
       [FullLayer \<lparr>fl_input_norm = (\<lambda>x. x), fl_post_attention_norm = (\<lambda>x. x), fl_attention = example_attention,
          fl_moe = example_moe\<rparr>,
        LinearLayer \<lparr>ll_input_norm = (\<lambda>x. x), ll_post_attention_norm = (\<lambda>x. x), ll_delta = example_delta,
          ll_moe = example_moe\<lparr>ml_down := (\<lambda>e. None)\<rparr>\<rparr>]\<rparr>"

definition empty_snapshots :: "'f state_snapshots" where
  "empty_snapshots = \<lparr>qs_linear_layers = [], qs_position = 0, qs_rows = 0\<rparr>"

lemma empty_snapshots_ok [simp]: "snapshots_ok empty_snapshots"
  by (simp add: snapshots_ok_def empty_snapshots_def)

lemma example_model_ok [simp]:
  "model_ok example_model (model_new_state F example_model)"
  "model_ok example_failing_model (model_new_state F example_failing_model)"
  by (rule model_ok_new; simp add: example_model_def example_failing_model_def decoder_layer_wf_def)+

text \<open>Every expert of the example loads, so its passes end; in the failing variant none does.\<close>

lemma example_moe_row: "\<exists>y. moe_row int_fops example_moe x = Inr y"
  by (simp add: moe_row_def example_moe_def top_k_route_def Let_def bindE_ensure token_combined_def load_expert_def)

lemma mapE_total: "(\<And>x. \<exists>y. f x = Inr y) \<Longrightarrow> \<exists>ys. mapE f xs = Inr ys"
proof (induction xs)
  case (Cons x xs)
  then show ?case by (metis bindE_simps(2) mapE.simps(2))
qed simp

lemma example_mix: "\<exists>ys. mapE (mix_row int_fops pn example_moe) zs = Inr ys"
proof (rule mapE_total)
  fix z :: "int list \<times> int list"
  show "\<exists>y. mix_row int_fops pn example_moe z = Inr y"
    using example_moe_row [of "pn (map2 (f_add int_fops) (fst z) (snd z))"]
    by (auto simp: mix_row_def Let_def case_prod_unfold)
qed

lemma example_embed: "\<forall>t \<in> set tokens. t < 100 \<Longrightarrow>
    embed_tokens example_model tokens = Inr (map (\<lambda>t. [uint t]) tokens)"
  by (simp add: embed_tokens_def example_model_def mapE_Inr_iff list_all2_map_same)

lemma example_runs:
  assumes "\<forall>t \<in> set tokens. t < 100"
  shows "\<exists>st h. runs int_fops example_model tokens (model_new_state int_fops example_model) st h"
proof -
  have full: "\<exists>s' ys. layer_rows int_fops (FullLayer L) xs (FullState st) = (s', Inr ys)"
    if "fl_moe L = example_moe" for L xs st
    using example_mix that by (simp add: layer_rows_def case_prod_unfold Let_def)
  have linear: "\<exists>s' ys. layer_rows int_fops (LinearLayer L) xs (LinearState st) = (s', Inr ys)"
    if "ll_moe L = example_moe" for L xs st
    using example_mix that by (simp add: layer_rows_def case_prod_unfold Let_def)
  obtain L1 L2 where layers: "md_layers example_model = [FullLayer L1, LinearLayer L2]"
    "fl_moe L1 = example_moe" "ll_moe L2 = example_moe"
    by (simp add: example_model_def)
  obtain s1 us where 1: "layer_rows int_fops (FullLayer L1) (map (\<lambda>t. [uint t]) tokens) (FullState attn_new) = (s1, Inr us)"
    using full [OF layers(2)] by blast
  obtain s2 vs where 2: "layer_rows int_fops (LinearLayer L2) us (LinearState (delta_new int_fops (ll_delta L2))) = (s2, Inr vs)"
    using linear [OF layers(3)] by blast
  obtain ls raw where "rows_loop int_fops (md_layers example_model)
      (ms_layers (model_new_state int_fops example_model)) (map (\<lambda>t. [uint t]) tokens) = (ls, Inr raw)"
    using 1 2 by (simp add: model_new_state_def new_layer_state_def layers)
  with example_embed [OF assms] show ?thesis
    by (intro exI [of _ "\<lparr>ms_layers = ls, ms_position = length tokens\<rparr>"])
      (simp add: runs_def model_new_state_def)
qed

lemma example_forward:
  assumes "\<forall>t \<in> set tokens. t < 100" "tokens \<noteq> []" "length tokens \<le> 64"
  shows "\<exists>st out. forward_detailed int_fops threads example_model tokens (model_new_state int_fops example_model)
    = (st, Inr out)"
proof -
  obtain st h where "runs int_fops example_model tokens (model_new_state int_fops example_model) st h"
    using example_runs [OF assms(1)] by blast
  then have "forward_detailed int_fops threads example_model tokens (model_new_state int_fops example_model)
      = (st, Inr (pass_output example_model AllRows h))"
    using assms(2,3) by (simp add: forward_detailed_iff pass_output_def)
      (simp add: example_model_def model_new_state_def)
  then show ?thesis by blast
qed

section \<open>Properties\<close>

text \<open>
  C17. The target model is a function of the token sequence, not of how it is cut into
  passes: a pass over \<open>xs @ ys\<close> ends exactly when the pass over \<open>xs\<close> and then the pass over
  \<open>ys\<close> end, it leaves the same state, and its logits and hidden rows are theirs, operation for
  operation, whatever attention scans and expert executions the passes pick. The recurrence, the
  attention and the experts are those of the code, which reduce over no other row of the pass; of
  the matrices it is assumed, being functions of one row, and \<open>Matmul.dispatch_is_row_wise\<close> shows
  that for kernels that agree. The comment that a split prefill moves the last bits is a divergence.
\<close>

theorem model_pass_splits:
  assumes "model_ok M st" and "xs \<noteq> []" and "ys \<noteq> []"
  shows "forward_detailed F threads M (xs @ ys) st = (st2, Inr out) \<longleftrightarrow>
    (\<exists>st1 out1 out2. forward_detailed F threads M xs st = (st1, Inr out1)
      \<and> forward_detailed F threads M ys st1 = (st2, Inr out2)
      \<and> out = \<lparr>fo_logits = fo_logits out1 @ fo_logits out2, fo_hidden = fo_hidden out1 @ fo_hidden out2\<rparr>)"
proof
  assume "forward_detailed F threads M (xs @ ys) st = (st2, Inr out)"
  then obtain st1 h1 h2 where *: "runs F M xs st st1 h1" "runs F M ys st1 st2 h2" "fo_hidden out = h1 @ h2"
    "ms_position st + length (xs @ ys) \<le> md_max_position M" "out = pass_output M AllRows (fo_hidden out)"
    by (auto simp: forward_detailed_iff [OF assms(1)] runs_append [OF assms(1)])
  then have "forward_detailed F threads M xs st = (st1, Inr (pass_output M AllRows h1))"
    "forward_detailed F threads M ys st1 = (st2, Inr (pass_output M AllRows h2))"
    using assms(2,3) runs_position [OF *(1)]
    by (simp_all add: forward_detailed_iff [OF assms(1)] forward_detailed_iff [OF runs_ok [OF assms(1) *(1)]]
        pass_output_def)
  moreover have "out = \<lparr>fo_logits = fo_logits (pass_output M AllRows h1) @ fo_logits (pass_output M AllRows h2),
      fo_hidden = fo_hidden (pass_output M AllRows h1) @ fo_hidden (pass_output M AllRows h2)\<rparr>"
    using *(3,5) by (simp add: pass_output_def)
  ultimately show "\<exists>st1 out1 out2. forward_detailed F threads M xs st = (st1, Inr out1)
      \<and> forward_detailed F threads M ys st1 = (st2, Inr out2)
      \<and> out = \<lparr>fo_logits = fo_logits out1 @ fo_logits out2, fo_hidden = fo_hidden out1 @ fo_hidden out2\<rparr>"
    by blast
next
  assume "\<exists>st1 out1 out2. forward_detailed F threads M xs st = (st1, Inr out1)
      \<and> forward_detailed F threads M ys st1 = (st2, Inr out2)
      \<and> out = \<lparr>fo_logits = fo_logits out1 @ fo_logits out2, fo_hidden = fo_hidden out1 @ fo_hidden out2\<rparr>"
  then obtain st1 out1 out2 where 1: "forward_detailed F threads M xs st = (st1, Inr out1)"
    and 2: "forward_detailed F threads M ys st1 = (st2, Inr out2)"
    and out: "out = \<lparr>fo_logits = fo_logits out1 @ fo_logits out2, fo_hidden = fo_hidden out1 @ fo_hidden out2\<rparr>"
    by blast
  from 1 have r1: "runs F M xs st st1 (fo_hidden out1)" "out1 = pass_output M AllRows (fo_hidden out1)"
    by (simp_all add: forward_detailed_iff [OF assms(1)])
  from 2 have r2: "runs F M ys st1 st2 (fo_hidden out2)" "out2 = pass_output M AllRows (fo_hidden out2)"
    "ms_position st1 + length ys \<le> md_max_position M"
    by (simp_all add: forward_detailed_iff [OF runs_ok [OF assms(1) r1(1)]])
  have "fo_logits out1 = map (md_lm_head M) (fo_hidden out1)" "fo_logits out2 = map (md_lm_head M) (fo_hidden out2)"
    using r1(2) r2(2) by (metis forward_output.select_convs(1) logit_rows.simps(3) pass_output_def)+
  with r1(1) r2(1,3) out assms(2) show "forward_detailed F threads M (xs @ ys) st = (st2, Inr out)"
    using runs_position [OF r1(1)]
    by (auto simp: forward_detailed_iff [OF assms(1)] runs_append [OF assms(1)] pass_output_def)
qed

lemma model_pass_splits_witness:
  "\<exists>st1 st2 out1 out2. forward_detailed int_fops 4 example_model [1, 2] (model_new_state int_fops example_model)
        = (st1, Inr out1)
    \<and> forward_detailed int_fops 4 example_model [3] st1 = (st2, Inr out2)
    \<and> forward_detailed int_fops 4 example_model [1, 2, 3] (model_new_state int_fops example_model)
        = (st2, Inr \<lparr>fo_logits = fo_logits out1 @ fo_logits out2, fo_hidden = fo_hidden out1 @ fo_hidden out2\<rparr>)"
proof -
  let ?st = "model_new_state int_fops example_model"
  obtain st2 out where "forward_detailed int_fops 4 example_model ([1, 2] @ [3]) ?st = (st2, Inr out)"
    using example_forward [of "[1, 2, 3]" 4] by auto
  moreover from this model_pass_splits [OF example_model_ok(1) [of int_fops], of "[1, 2]" "[3]" int_fops 4 st2 out]
  obtain st1 out1 out2 where "forward_detailed int_fops 4 example_model [1, 2] ?st = (st1, Inr out1)"
    "forward_detailed int_fops 4 example_model [3] st1 = (st2, Inr out2)"
    "out = \<lparr>fo_logits = fo_logits out1 @ fo_logits out2, fo_hidden = fo_hidden out1 @ fo_hidden out2\<rparr>"
    by auto
  ultimately show ?thesis by auto
qed

text \<open>
  C16. Rolling back a verification pass is exact: after a pass with snapshots over \<open>tokens\<close>,
  rolling back to row \<open>r\<close> leaves the state that decoding only the first \<open>r\<close> tokens leaves
  (the untouched state for \<open>r = 0\<close>), for every row but the last, whatever the arena held from
  earlier passes.
\<close>

theorem rollback_is_the_shorter_pass:
  assumes "model_ok M st" and "snapshots_ok sn"
    and "forward_detailed_with_snapshots F threads M tokens st sn = (st', sn', Inr out)" and "r < length tokens"
  shows "\<exists>st1. rollback st' sn' r = (st1, Inr ()) \<and>
    (if r = 0 then st1 = st else \<exists>out1. forward_detailed F threads M (take r tokens) st = (st1, Inr out1))"
proof -
  have ne: "tokens \<noteq> []" using assms(4) by auto
  from forward_snapshots_spec [OF assms(1,2) ne, of F threads] assms(3,4) obtain st1 h where
    rb: "rollback st' sn' r = (st1, Inr ())" and run: "runs F M (take r tokens) st st1 h"
    and fd: "forward_detailed F threads M tokens st = (st', Inr out)"
    by auto
  have "ms_position st + length tokens \<le> md_max_position M"
    using fd by (simp add: forward_detailed_iff [OF assms(1)])
  then have "forward_detailed F threads M (take r tokens) st = (st1, Inr (pass_output M AllRows h))" if "r \<noteq> 0"
    using run that ne assms(4) by (simp add: forward_detailed_iff [OF assms(1)] pass_output_def)
  with rb run show ?thesis using runs_Nil [OF assms(1)] by auto
qed

lemma rollback_is_the_shorter_pass_witness:
  "case forward_detailed_with_snapshots int_fops 4 example_model [1, 2, 3]
          (model_new_state int_fops example_model) empty_snapshots of
     (st', sn', Inr _) \<Rightarrow> \<exists>st1 out1. rollback st' sn' 2 = (st1, Inr ())
        \<and> forward_detailed int_fops 4 example_model [1, 2] (model_new_state int_fops example_model) = (st1, Inr out1)
   | _ \<Rightarrow> False"
proof -
  let ?p = "forward_detailed_with_snapshots int_fops 4 example_model [1, 2, 3]
          (model_new_state int_fops example_model) empty_snapshots"
  obtain st' sn' out where p: "?p = (st', sn', Inr out)"
    using example_forward [of "[1, 2, 3]" 4] forward_snapshots_spec [OF example_model_ok(1) [of int_fops]
        empty_snapshots_ok, of "[1, 2, 3]" int_fops 4] by auto
  from rollback_is_the_shorter_pass [OF example_model_ok(1) empty_snapshots_ok p, of 2] show ?thesis
    unfolding p by (simp add: numeral_2_eq_2)
qed

text \<open>
  C33. A verification pass that fails in the middle, with some layers advanced and the others
  not, is undone by rolling back to row zero: the state is the one before the pass.
\<close>

theorem failed_pass_rolls_back:
  assumes "model_ok M st" and "snapshots_ok sn" and "tokens \<noteq> []"
    and "forward_detailed_with_snapshots F threads M tokens st sn = (st', sn', Inl e)"
  shows "rollback st' sn' 0 = (st, Inr ())"
  using forward_snapshots_spec [OF assms(1-3), of F threads] assms(3,4) runs_Nil [OF assms(1)] by auto

lemma failed_pass_rolls_back_witness:
  "case forward_detailed_with_snapshots int_fops 4 example_failing_model [1, 2]
          (model_new_state int_fops example_failing_model) empty_snapshots of
     (st', sn', Inl _) \<Rightarrow> rollback st' sn' 0 = (model_new_state int_fops example_failing_model, Inr ())
   | _ \<Rightarrow> False"
proof -
  let ?st = "model_new_state int_fops example_failing_model"
  let ?p = "forward_detailed_with_snapshots int_fops 4 example_failing_model [1, 2] ?st empty_snapshots"
  have never: "snd (rows_loop int_fops (md_layers example_failing_model) (ms_layers ?st) [[1], [2]]) \<noteq> Inr raw" for raw
  proof -
    obtain ys where ys: "mapE (mix_row int_fops (\<lambda>x. x) example_moe) (zip [[1], [2]]
        (fst (attn_run int_fops example_attention [[1], [2]] attn_new))) = Inr ys"
      using example_mix by blast
    moreover obtain y ys' where "ys = y # ys'"
      using mapE_length [OF ys] by (cases ys) (simp_all add: min_def del: attn_run.simps)
    moreover have "mix_row int_fops (\<lambda>x. x) (example_moe\<lparr>ml_down := (\<lambda>e. None)\<rparr>) z = Inl ExpertFailure" for z
      by (simp add: mix_row_def Let_def case_prod_unfold moe_row_def example_moe_def top_k_route_def
          bindE_ensure token_combined_def load_expert_def)
    ultimately show ?thesis
      by (simp add: example_failing_model_def example_model_def model_new_state_def
          new_layer_state_def layer_rows_def case_prod_unfold Let_def del: mapE.simps attn_run.simps)
        (simp add: case_prod_unfold Let_def)
  qed
  have embed: "embed_tokens example_failing_model [1, 2] = Inr [[1], [2]]"
    by (simp add: embed_tokens_def example_failing_model_def example_model_def)
  have "\<not> runs int_fops example_failing_model [1, 2] ?st st' h" for st' h
  proof
    assume "runs int_fops example_failing_model [1, 2] ?st st' h"
    with embed obtain raw where "rows_loop int_fops (md_layers example_failing_model) (ms_layers ?st) [[1], [2]]
        = (ms_layers st', Inr raw)"
      by (auto simp: runs_def)
    with never [of raw] show False by simp
  qed
  then obtain st' sn' e where p: "?p = (st', sn', Inl e)"
    using forward_snapshots_spec [OF example_model_ok(2) empty_snapshots_ok, of "[1, 2]" int_fops 4]
      forward_detailed_iff [OF example_model_ok(2), of int_fops 4 "[1, 2]"]
    by (metis list.distinct(1) obj_sumE)
  from failed_pass_rolls_back [OF example_model_ok(2) empty_snapshots_ok _ p] p show ?thesis by simp
qed

text \<open>
  C37. An image restores the whole sequence state: restoring the image of \<open>st\<close> into any live
  state of the same model, a fresh one or one mid-sequence, succeeds and yields \<open>st\<close>.
\<close>

theorem image_round_trip:
  assumes "model_ok M st" and "model_ok M live"
  shows "model_restore_image live (model_image st) = (st, Inr ())"
  using try_layers_restore [OF assms, of 0] image_validate_ok [OF assms(1)] list_all2_lengthD [OF assms(1)]
    list_all2_lengthD [OF assms(2)]
  by (simp add: model_restore_image_def) (simp add: model_image_def)

lemma image_round_trip_witness:
  "let st = fst (forward_detailed int_fops 4 example_model [1, 2] (model_new_state int_fops example_model))
   in ms_position st = 2 \<and> model_restore_image (model_new_state int_fops example_model) (model_image st) = (st, Inr ())"
proof -
  let ?new = "model_new_state int_fops example_model"
  obtain st out where p: "forward_detailed int_fops 4 example_model [1, 2] ?new = (st, Inr out)"
    using example_forward [of "[1, 2]" 4] by auto
  then have run: "runs int_fops example_model [1, 2] ?new st (fo_hidden out)"
    by (simp add: forward_detailed_iff [OF example_model_ok(1)])
  have "ms_position st = 2" using runs_position [OF run] by (simp add: model_new_state_def)
  with image_round_trip [OF runs_ok [OF example_model_ok(1) run] example_model_ok(1)] show ?thesis
    by (simp add: p Let_def)
qed

text \<open>
  A checkpoint taken before a pass restores the state from before the pass, whether the
  pass ended or failed in the middle.
\<close>

theorem checkpoint_round_trip:
  assumes "model_ok M st" and "forward_detailed F threads M tokens st = (st', res)"
  shows "model_restore st' (model_checkpoint st) = (st, Inr ())"
proof -
  have len: "length (ms_layers st) = length (md_layers M)" using list_all2_lengthD [OF assms(1)] by simp
  have "\<exists>xs. ms_layers st' = fst (rows_loop F (md_layers M) (ms_layers st) xs)"
  proof (cases "tokens = [] \<or> md_max_position M < ms_position st + length tokens \<or> (\<exists>e. embed_tokens M tokens = Inl e)")
    case True
    then have "st' = st" using assms(2) len
      by (auto simp: forward_detailed_def forward_detailed_logits_def forward_inner_def split: if_splits)
    with assms(1) show ?thesis by (intro exI [of _ "[]"]) simp
  next
    case False
    then obtain emb where emb: "embed_tokens M tokens = Inr emb" by (metis obj_sumE)
    then have "emb \<noteq> []" using embed_length [OF emb] False by auto
    from layer_loop_plain [OF assms(1) this, of F threads 0] emb False assms(2) len show ?thesis
      by (intro exI [of _ emb])
        (auto simp: forward_detailed_def forward_detailed_logits_def forward_inner_def Let_def split: sum.splits)
  qed
  then obtain xs where xs: "ms_layers st' = fst (rows_loop F (md_layers M) (ms_layers st) xs)" by blast
  from try_layers_checkpoint [OF assms(1), of 0 F xs] have "length (ms_layers st') = length (ms_layers st)"
    unfolding xs [symmetric] by (metis length_try_layers fst_conv)
  with try_layers_checkpoint [OF assms(1), of 0 F xs] show ?thesis
    by (simp add: model_restore_def model_checkpoint_def xs)
qed

lemma checkpoint_round_trip_witness:
  "let st = model_new_state int_fops example_model
   in model_restore (fst (forward_detailed int_fops 4 example_model [1, 2] st)) (model_checkpoint st) = (st, Inr ())"
proof -
  obtain st' res where
    p: "forward_detailed int_fops 4 example_model [1, 2] (model_new_state int_fops example_model) = (st', res)"
    by (metis surj_pair)
  from checkpoint_round_trip [OF example_model_ok(1) p] show ?thesis by (simp add: p Let_def)
qed

end
