(* ===== verification/Stop_Buffer.thy ===== *)
theory Stop_Buffer
  imports Text_Bytes
begin

text \<open>
  Stop sequences over streamed text (\<open>src/server/stop.rs\<close>).

  \<open>push\<close>, \<open>flush\<close> and \<open>longest_partial_suffix\<close> follow the methods of \<open>StopBuffer\<close> over the byte
  strings of \<open>Text_Bytes\<close>.

  \<open>stream\<close> is what a client receives of a list of chunks; \<open>cut_at_stop\<close> is the reference that
  looks at all text decoded so far. The theorems say that the two agree, that no stop sequence
  is leaked, and that no character is split.
\<close>

section \<open>Several patterns\<close>

text \<open>\<open>Iterator::min\<close>, and of several patterns the earliest occurrence.\<close>

definition iter_min :: "nat list \<Rightarrow> nat option" where
  "iter_min xs = (case xs of [] \<Rightarrow> None | x # xs \<Rightarrow> Some (foldl min x xs))"

lemma foldl_min_in: "foldl min (a :: nat) xs \<in> insert a (set xs)"
  by (induction xs arbitrary: a) (auto simp: min_def split: if_splits)

lemma foldl_min_le: "x \<in> insert a (set xs) \<Longrightarrow> foldl min (a :: nat) xs \<le> x"
proof (induction xs arbitrary: a x)
  case (Cons b xs)
  then show ?case using Cons.IH [of "min a b" "min a b"] Cons.IH [of x "min a b"]
    by auto
qed simp

lemma iter_min_None: "iter_min xs = None \<longleftrightarrow> xs = []"
  by (simp add: iter_min_def split: list.splits)

lemma iter_min_Some: "iter_min xs = Some m \<longleftrightarrow> m \<in> set xs \<and> (\<forall>x \<in> set xs. m \<le> x)"
proof (cases xs)
  case (Cons y ys)
  have "foldl min y ys \<in> set xs" "\<forall>x \<in> set xs. foldl min y ys \<le> x"
    using foldl_min_in [of y ys] foldl_min_le [of _ y ys] by (auto simp: Cons)
  then show ?thesis by (auto simp: iter_min_def Cons intro: antisym)
qed (simp add: iter_min_def)

definition earliest :: "string list \<Rightarrow> string \<Rightarrow> nat option" where
  "earliest stops s = iter_min (List.map_filter (str_find s) stops)"

lemma earliest_None: "earliest stops s = None \<longleftrightarrow> (\<forall>stop \<in> set stops. \<forall>i. \<not> occurs_at stop s i)"
  by (simp add: earliest_def iter_min_None map_filter_def filter_empty_conv str_find_None [symmetric])

lemma earliest_Nil [simp]: "earliest [] s = None"
  by (simp add: earliest_None)

lemma earliest_Some:
  "earliest stops s = Some at \<longleftrightarrow>
     (\<exists>stop \<in> set stops. occurs_at stop s at) \<and> (\<forall>stop \<in> set stops. \<forall>i < at. \<not> occurs_at stop s i)"
proof
  assume l: "earliest stops s = Some at"
  then obtain stop where stop: "stop \<in> set stops" "str_find s stop = Some at"
    and least: "\<And>stop i. stop \<in> set stops \<Longrightarrow> str_find s stop = Some i \<Longrightarrow> at \<le> i"
    by (force simp: earliest_def iter_min_Some map_filter_def)
  have "\<not> occurs_at stop s i" if "stop \<in> set stops" "i < at" for stop i
  proof (cases "str_find s stop")
    case (Some j)
    with least [OF that(1)] that(2) show ?thesis by (auto simp: str_find_Some)
  qed (simp add: str_find_None)
  with stop show "(\<exists>stop \<in> set stops. occurs_at stop s at) \<and> (\<forall>stop \<in> set stops. \<forall>i < at. \<not> occurs_at stop s i)"
    by (auto simp: str_find_Some)
next
  assume r: "(\<exists>stop \<in> set stops. occurs_at stop s at) \<and> (\<forall>stop \<in> set stops. \<forall>i < at. \<not> occurs_at stop s i)"
  then obtain stop where "stop \<in> set stops" "str_find s stop = Some at"
    by (auto simp: str_find_Some)
  moreover have "at \<le> i" if "stop \<in> set stops" "str_find s stop = Some i" for stop i
    using r that by (auto simp: str_find_Some not_less [symmetric])
  ultimately show "earliest stops s = Some at"
    by (force simp: earliest_def iter_min_Some map_filter_def)
qed

section \<open>The stop buffer\<close>

record stop_step =
  ss_emit :: string
  ss_matched :: bool

record stop_buffer =
  sb_stops :: "string list"
  sb_held :: string

definition stop_buffer_new :: "string list \<Rightarrow> stop_buffer" where
  "stop_buffer_new strings = \<lparr>sb_stops = filter (\<lambda>stop. stop \<noteq> []) strings, sb_held = []\<rparr>"

text \<open>
  \<open>for len in (hold + 1..=longest).rev()\<close> with \<open>break\<close> at the first hit: the hits of the
  reversed range are searched from the longest down.
\<close>

definition partial_of :: "string \<Rightarrow> nat \<Rightarrow> string \<Rightarrow> nat" where
  "partial_of text hold stop =
     (let longest = min (length stop - 1) (length text)
      in case find (\<lambda>n. is_char_boundary stop n \<and> suffix (take n stop) text) (rev [hold + 1..<longest + 1]) of
           None \<Rightarrow> hold
         | Some n \<Rightarrow> n)"

definition longest_partial_suffix :: "stop_buffer \<Rightarrow> nat" where
  "longest_partial_suffix sb = foldl (partial_of (sb_held sb)) 0 (sb_stops sb)"

definition push :: "stop_buffer \<Rightarrow> string \<Rightarrow> stop_buffer \<times> stop_step" where
  "push sb chunk =
     (if sb_stops sb = [] then (sb, \<lparr>ss_emit = chunk, ss_matched = False\<rparr>)
      else let text = sb_held sb @ chunk
           in case earliest (sb_stops sb) text of
                Some at \<Rightarrow> (sb\<lparr>sb_held := []\<rparr>, \<lparr>ss_emit = take at text, ss_matched = True\<rparr>)
              | None \<Rightarrow>
                  let sb = sb\<lparr>sb_held := text\<rparr>;
                      cut = length text - longest_partial_suffix sb
                  in (sb\<lparr>sb_held := drop cut text\<rparr>, \<lparr>ss_emit = take cut text, ss_matched = False\<rparr>))"

definition flush :: "stop_buffer \<Rightarrow> stop_buffer \<times> string" where
  "flush sb = (sb\<lparr>sb_held := []\<rparr>, sb_held sb)"

text \<open>
  A partial match: a suffix of the text that is a proper prefix of a stop sequence. Because
  both are whole characters, so is the partial match, and the boundary check of the code
  rejects none.
\<close>

definition partial_match :: "string \<Rightarrow> string \<Rightarrow> nat \<Rightarrow> bool" where
  "partial_match text stop n \<longleftrightarrow> n < length stop \<and> suffix (take n stop) text"

lemma partial_match_utf8:
  assumes "utf8 text" "utf8 stop" "partial_match text stop n"
  shows "utf8 (take n stop)" "utf8 (take (length text - n) text)"
proof -
  from assms(3) obtain x where x: "text = x @ take n stop" "n < length stop"
    by (auto simp: partial_match_def suffix_def)
  have "utf8 (take n stop) \<and> utf8 x"
  proof (cases "n = 0")
    case False
    with x have ne: "take n stop \<noteq> []" "hd (take n stop) = hd stop" by (cases stop; auto)+
    moreover have "\<not> is_continuation (hd stop)" using assms(2) x(2) by (intro utf8_starts) auto
    ultimately show ?thesis
      using assms(1) utf8_occurrence [of x "take n stop" "[]"] by (simp add: x(1))
  qed (use assms(1) x in simp)
  then show "utf8 (take n stop)" "utf8 (take (length text - n) text)"
    using x by simp_all
qed

lemma find_rev_upt:
  "find P (rev [l..<u]) = (if \<exists>n. l \<le> n \<and> n < u \<and> P n then Some (Max {n. l \<le> n \<and> n < u \<and> P n}) else None)"
proof (induction u)
  case (Suc u)
  show ?case
  proof (cases "l \<le> u \<and> P u")
    case True
    then have "Max {n. l \<le> n \<and> n < Suc u \<and> P n} = u" by (intro Max_eqI) auto
    with True show ?thesis by auto
  next
    case False
    then have "{n. l \<le> n \<and> n < Suc u \<and> P n} = {n. l \<le> n \<and> n < u \<and> P n}"
      by (auto simp: less_Suc_eq)
    with False Suc show ?thesis by (auto simp: less_Suc_eq)
  qed
qed simp

lemma partial_of_facts:
  assumes "utf8 text" "utf8 stop" "stop \<noteq> []"
  shows "partial_of text hold stop = hold \<or> partial_match text stop (partial_of text hold stop)"
    and "hold \<le> partial_of text hold stop"
    and "\<forall>n. partial_match text stop n \<longrightarrow> n \<le> partial_of text hold stop"
proof -
  let ?u = "min (length stop - 1) (length text) + 1"
  let ?P = "\<lambda>n. is_char_boundary stop n \<and> suffix (take n stop) text"
  let ?H = "{n. hold + 1 \<le> n \<and> n < ?u \<and> ?P n}"
  have P: "?P n \<and> n < ?u \<longleftrightarrow> partial_match text stop n" for n
  proof
    assume l: "?P n \<and> n < ?u"
    then have "n < length stop" using assms(3) by (cases stop) auto
    with l show "partial_match text stop n" by (simp add: partial_match_def)
  next
    assume r: "partial_match text stop n"
    then have "n < length stop" "n \<le> length text" "suffix (take n stop) text"
      by (auto simp: partial_match_def dest: suffix_length_le)
    moreover have "is_char_boundary stop n"
      using boundary_utf8 [OF assms(2) partial_match_utf8(1) [OF assms(1,2) r]] \<open>n < length stop\<close> by simp
    ultimately show "?P n \<and> n < ?u" by simp
  qed
  have H: "?H = {n. hold < n \<and> partial_match text stop n}"
    using P by (intro Collect_cong) (metis Suc_eq_plus1 Suc_le_eq)
  have eq: "partial_of text hold stop = (if ?H = {} then hold else Max ?H)"
  proof (cases "?H = {}")
    case True
    then have "\<not> (\<exists>n. hold + 1 \<le> n \<and> n < ?u \<and> ?P n)" by blast
    with True show ?thesis by (simp only: partial_of_def Let_def find_rev_upt if_False if_True option.case refl)
  next
    case False
    then have "\<exists>n. hold + 1 \<le> n \<and> n < ?u \<and> ?P n" by blast
    with False show ?thesis by (simp only: partial_of_def Let_def find_rev_upt if_False if_True option.case refl)
  qed
  have "finite ?H" by simp
  with eq H obtain M where M: "finite M" "M = {n. hold < n \<and> partial_match text stop n}"
    and eq: "partial_of text hold stop = (if M = {} then hold else Max M)"
    by metis
  show "partial_of text hold stop = hold \<or> partial_match text stop (partial_of text hold stop)"
    using Max_in [OF M(1)] M(2) eq by auto
  show ge: "hold \<le> partial_of text hold stop"
    using Max_in [OF M(1)] M(2) eq by (cases "M = {}") auto
  have "n \<le> partial_of text hold stop" if "partial_match text stop n" for n
  proof (cases "hold < n")
    case True
    with that have n: "n \<in> M" by (simp add: M)
    with Max_ge [OF M(1) n] eq show ?thesis by auto
  next
    case False
    with ge show ?thesis by simp
  qed
  then show "\<forall>n. partial_match text stop n \<longrightarrow> n \<le> partial_of text hold stop" by blast
qed

lemma longest_partial_facts:
  assumes "utf8 text" "\<And>stop. stop \<in> set ss \<Longrightarrow> utf8 stop \<and> stop \<noteq> []"
  shows "foldl (partial_of text) h ss = h \<or> (\<exists>stop \<in> set ss. partial_match text stop (foldl (partial_of text) h ss))"
    and "h \<le> foldl (partial_of text) h ss"
    and "stop \<in> set ss \<Longrightarrow> partial_match text stop n \<Longrightarrow> n \<le> foldl (partial_of text) h ss"
proof -
  have "(foldl (partial_of text) h ss = h \<or> (\<exists>stop \<in> set ss. partial_match text stop (foldl (partial_of text) h ss)))
    \<and> h \<le> foldl (partial_of text) h ss
    \<and> (\<forall>stop \<in> set ss. \<forall>n. partial_match text stop n \<longrightarrow> n \<le> foldl (partial_of text) h ss)"
    using assms(2)
  proof (induction ss arbitrary: h)
    case (Cons s ss)
    then have s: "utf8 s" "s \<noteq> []" by auto
    note facts = partial_of_facts [OF assms(1) s, of h]
    let ?h = "partial_of text h s"
    have IH: "foldl (partial_of text) ?h ss = ?h \<or> (\<exists>stop \<in> set ss. partial_match text stop (foldl (partial_of text) ?h ss))"
      "?h \<le> foldl (partial_of text) ?h ss"
      "\<forall>stop \<in> set ss. \<forall>n. partial_match text stop n \<longrightarrow> n \<le> foldl (partial_of text) ?h ss"
      using Cons.IH [of ?h] Cons.prems by auto
    then show ?case using facts by (auto intro: le_trans)
  qed simp
  then show "foldl (partial_of text) h ss = h \<or> (\<exists>stop \<in> set ss. partial_match text stop (foldl (partial_of text) h ss))"
    "h \<le> foldl (partial_of text) h ss"
    "stop \<in> set ss \<Longrightarrow> partial_match text stop n \<Longrightarrow> n \<le> foldl (partial_of text) h ss"
    by auto
qed

lemma longest_partial_suffix_facts:
  assumes "utf8 (sb_held sb)" "\<And>stop. stop \<in> set (sb_stops sb) \<Longrightarrow> utf8 stop \<and> stop \<noteq> []"
  shows "longest_partial_suffix sb \<le> length (sb_held sb)"
    and "utf8 (take (length (sb_held sb) - longest_partial_suffix sb) (sb_held sb))"
    and "utf8 (drop (length (sb_held sb) - longest_partial_suffix sb) (sb_held sb))"
    and "stop \<in> set (sb_stops sb) \<Longrightarrow> partial_match (sb_held sb) stop n \<Longrightarrow> n \<le> longest_partial_suffix sb"
proof -
  let ?t = "sb_held sb" and ?n = "longest_partial_suffix sb"
  note facts = longest_partial_facts [OF assms, where h = 0]
  have "?n = 0 \<or> (\<exists>stop \<in> set (sb_stops sb). partial_match ?t stop ?n)"
    unfolding longest_partial_suffix_def by (rule facts)
  then have n: "?n \<le> length ?t \<and> utf8 (take (length ?t - ?n) ?t)"
    using assms partial_match_utf8(2) by (auto simp: partial_match_def dest: suffix_length_le)
  then show "?n \<le> length ?t" "utf8 (take (length ?t - ?n) ?t)" by simp_all
  with assms(1) utf8_append_cancel [of "take (length ?t - ?n) ?t" "drop (length ?t - ?n) ?t"]
  show "utf8 (drop (length ?t - ?n) ?t)" by simp
  show "stop \<in> set (sb_stops sb) \<Longrightarrow> partial_match ?t stop n \<Longrightarrow> n \<le> ?n"
    unfolding longest_partial_suffix_def by (rule facts)
qed

lemma partial_match_append:
  assumes "partial_match (s @ c) stop n" "length c \<le> n"
  shows "partial_match s stop (n - length c)"
proof -
  obtain x where x: "s @ c = x @ take n stop" and n: "n < length stop"
    using assms(1) by (auto simp: partial_match_def suffix_def)
  have "length (s @ c) = length x + n" using n by (simp add: x)
  then have "length s - length x = n - length c" "length x \<le> length s" using assms(2) by simp_all
  then have "s = x @ take (n - length c) stop"
    using arg_cong [OF x, of "take (length s)"] by simp
  with n show ?thesis by (auto simp: partial_match_def suffix_def)
qed

section \<open>What a client receives\<close>

fun stream :: "stop_buffer \<Rightarrow> string list \<Rightarrow> string \<times> bool" where
  "stream sb [] = (snd (flush sb), False)"
| "stream sb (chunk # cs) =
     (case push sb chunk of (sb, step) \<Rightarrow>
        if ss_matched step then (ss_emit step, True)
        else (case stream sb cs of (out, stopped) \<Rightarrow> (ss_emit step @ out, stopped)))"

text \<open>The reference: look for a stop sequence in everything decoded so far.\<close>

fun cut_at_stop :: "string list \<Rightarrow> string \<Rightarrow> string list \<Rightarrow> string \<times> bool" where
  "cut_at_stop strings seen [] = (seen, False)"
| "cut_at_stop strings seen (chunk # cs) =
     (case earliest strings (seen @ chunk) of
        Some at \<Rightarrow> (take at (seen @ chunk), True)
      | None \<Rightarrow> cut_at_stop strings (seen @ chunk) cs)"

text \<open>
  Between two chunks: the text seen is what was released followed by what is held, no stop
  sequence occurs in it, and every partial match at its end is held.
\<close>

definition buffered :: "string list \<Rightarrow> string \<Rightarrow> stop_buffer \<Rightarrow> string \<Rightarrow> bool" where
  "buffered strings out sb seen \<longleftrightarrow> sb_stops sb = strings \<and> seen = out @ sb_held sb \<and> utf8 (sb_held sb)
     \<and> earliest strings seen = None \<and> (strings = [] \<longrightarrow> sb_held sb = [])
     \<and> (\<forall>stop \<in> set strings. \<forall>n. partial_match seen stop n \<longrightarrow> n \<le> length (sb_held sb))"

text \<open>A stop sequence that completes in a new chunk begins in the held text.\<close>

lemma occurrence_in_held:
  assumes inv: "buffered strings out sb seen" and stop: "stop \<in> set strings"
    and occ: "occurs_at stop (seen @ chunk) i"
  shows "length out \<le> i"
proof (rule ccontr)
  assume i: "\<not> length out \<le> i"
  have seen: "seen = out @ sb_held sb" and no: "\<not> occurs_at stop seen i"
    using inv stop by (auto simp: buffered_def earliest_None)
  have len: "\<not> i + length stop \<le> length seen"
    using occ no occurs_at_append by blast
  let ?n = "length seen - i"
  have "take ?n stop = drop i seen"
    using occ i len by (auto simp: occurs_at_def seen min_def dest: arg_cong [where f = "take ?n"])
  moreover have "suffix (drop i seen) seen" by (simp add: suffix_drop)
  ultimately have "partial_match seen stop ?n"
    using i len by (auto simp: partial_match_def seen)
  with inv stop have "?n \<le> length (sb_held sb)" by (auto simp: buffered_def)
  with i show False by (simp add: seen)
qed

lemma earliest_in_held:
  assumes inv: "buffered strings out sb seen"
  shows "earliest strings (seen @ chunk) = map_option ((+) (length out)) (earliest strings (sb_held sb @ chunk))"
proof -
  have seen: "seen = out @ sb_held sb" using inv by (simp add: buffered_def)
  have shift: "occurs_at stop (sb_held sb @ chunk) i \<longleftrightarrow> occurs_at stop (seen @ chunk) (length out + i)" for stop i
    using occurs_at_drop [of "length out" "seen @ chunk" stop i] by (simp add: seen)
  show ?thesis
  proof (cases "earliest strings (sb_held sb @ chunk)")
    case None
    have "\<not> occurs_at stop (seen @ chunk) i" if "stop \<in> set strings" for stop i
    proof
      assume occ: "occurs_at stop (seen @ chunk) i"
      with occurrence_in_held [OF inv that] have "length out \<le> i" by blast
      with occ None that shift [of stop "i - length out"] show False by (simp add: earliest_None)
    qed
    then have "earliest strings (seen @ chunk) = None" by (simp add: earliest_None)
    with None show ?thesis by simp
  next
    case (Some at)
    have "\<not> occurs_at stop (seen @ chunk) i" if "stop \<in> set strings" "i < length out + at" for stop i
    proof
      assume occ: "occurs_at stop (seen @ chunk) i"
      with occurrence_in_held [OF inv that(1)] have "length out \<le> i" by blast
      with occ Some that shift [of stop "i - length out"] show False by (auto simp: earliest_Some)
    qed
    with Some have "earliest strings (seen @ chunk) = Some (length out + at)"
      unfolding earliest_Some shift by blast
    with Some show ?thesis by simp
  qed
qed

text \<open>One chunk.\<close>

lemma push_chunk:
  assumes inv: "buffered strings out sb seen" and utf8: "utf8 chunk"
    and strings: "\<And>stop. stop \<in> set strings \<Longrightarrow> utf8 stop \<and> stop \<noteq> []"
  obtains (matched) sb' at where "earliest strings (seen @ chunk) = Some at"
      "push sb chunk = (sb', \<lparr>ss_emit = drop (length out) (take at (seen @ chunk)), ss_matched = True\<rparr>)"
      "length out \<le> at" "utf8 (drop (length out) (take at (seen @ chunk)))"
  | (held) sb' e where "earliest strings (seen @ chunk) = None"
      "push sb chunk = (sb', \<lparr>ss_emit = e, ss_matched = False\<rparr>)" "buffered strings (out @ e) sb' (seen @ chunk)" "utf8 e"
proof -
  have seen: "seen = out @ sb_held sb" and ss: "sb_stops sb = strings" and utf8_held: "utf8 (sb_held sb)"
    using inv by (auto simp: buffered_def)
  let ?t = "sb_held sb @ chunk"
  have t: "utf8 ?t" using utf8_held utf8 by (rule utf8_append)
  note earliest = earliest_in_held [OF inv, of chunk]
  show thesis
  proof (cases "earliest strings ?t")
    case (Some at)
    then obtain stop where stop: "stop \<in> set strings" "occurs_at stop ?t at" by (auto simp: earliest_Some)
    then have "utf8 (take at ?t)" using t strings by (intro occurrence_boundary) auto
    moreover have "strings \<noteq> []" using stop by auto
    ultimately show thesis
      using Some earliest by (intro matched [of "length out + at" "sb\<lparr>sb_held := []\<rparr>"])
        (simp_all add: push_def ss seen)
  next
    case None
    show thesis
    proof (cases "strings = []")
      case True
      with None inv show thesis
        by (intro held [of sb chunk]) (auto simp: push_def ss buffered_def earliest seen utf8)
    next
      case False
      define t where "t = ?t"
      let ?sb = "sb\<lparr>sb_held := t\<rparr>"
      let ?cut = "length t - longest_partial_suffix ?sb"
      have seen_t: "seen @ chunk = out @ t" by (simp add: t_def seen)
      have "utf8 (sb_held ?sb)" "\<And>stop. stop \<in> set (sb_stops ?sb) \<Longrightarrow> utf8 stop \<and> stop \<noteq> []"
        using t strings by (simp_all add: ss t_def)
      note facts = longest_partial_suffix_facts [OF this, simplified]
      have longest: "n \<le> longest_partial_suffix ?sb" if "stop \<in> set strings" "partial_match (seen @ chunk) stop n" for stop n
      proof (cases "n \<le> length t")
        case True
        with that(2) have "partial_match t stop n"
          unfolding seen_t by (auto simp: partial_match_def intro: suffix_length_suffix suffixI)
        with facts(4) that(1) show ?thesis by (simp add: ss)
      next
        case False
        with partial_match_append [OF that(2)] have "partial_match seen stop (n - length chunk)" by (simp add: t_def)
        with inv that(1) have "n - length chunk \<le> length (sb_held sb)" by (auto simp: buffered_def)
        with False show ?thesis by (simp add: t_def)
      qed
      have "earliest strings (out @ t) = None" using earliest None by (simp add: seen_t)
      with longest have "buffered strings (out @ take ?cut t) (sb\<lparr>sb_held := drop ?cut t\<rparr>) (seen @ chunk)"
        using facts(1,3) False unfolding seen_t by (simp add: buffered_def ss)
      moreover have "push sb chunk = (sb\<lparr>sb_held := drop ?cut t\<rparr>, \<lparr>ss_emit = take ?cut t, ss_matched = False\<rparr>)"
        using None False unfolding push_def ss t_def by (simp only: Let_def ss option.case if_False)
          simp
      moreover have "earliest strings (seen @ chunk) = None" using earliest None by simp
      ultimately show thesis using facts(2) by (intro held)
    qed
  qed
qed

lemma stream_cuts:
  assumes "\<And>stop. stop \<in> set strings \<Longrightarrow> utf8 stop \<and> stop \<noteq> []" "\<And>chunk. chunk \<in> set chunks \<Longrightarrow> utf8 chunk"
    and "buffered strings out sb seen"
  shows "cut_at_stop strings seen chunks = apfst ((@) out) (stream sb chunks)"
  using assms(2,3)
proof (induction chunks arbitrary: out sb seen)
  case Nil
  then show ?case by (simp add: buffered_def flush_def)
next
  case (Cons chunk cs)
  from Cons.prems(1) have "utf8 chunk" by simp
  show ?case
  proof (rule push_chunk [OF Cons.prems(2) \<open>utf8 chunk\<close> assms(1)])
    fix sb' at
    assume "earliest strings (seen @ chunk) = Some at" "length out \<le> at"
      "push sb chunk = (sb', \<lparr>ss_emit = drop (length out) (take at (seen @ chunk)), ss_matched = True\<rparr>)"
    moreover have "take (length out) (take at (seen @ chunk)) = out"
      using Cons.prems(2) \<open>length out \<le> at\<close> by (simp add: buffered_def min_def)
    then have "take at (seen @ chunk) = out @ drop (length out) (take at (seen @ chunk))"
      by (metis append_take_drop_id)
    ultimately show ?case by simp
  next
    fix sb' e
    assume "earliest strings (seen @ chunk) = None" "buffered strings (out @ e) sb' (seen @ chunk)"
      "push sb chunk = (sb', \<lparr>ss_emit = e, ss_matched = False\<rparr>)"
    with Cons.IH [OF _ this(2)] Cons.prems(1) show ?case by (simp split: prod.splits)
  qed
qed

lemma new_stream_cuts:
  assumes "\<And>stop. stop \<in> set strings \<Longrightarrow> utf8 stop" "\<And>chunk. chunk \<in> set chunks \<Longrightarrow> utf8 chunk"
  shows "stream (stop_buffer_new strings) chunks = cut_at_stop (filter (\<lambda>stop. stop \<noteq> []) strings) [] chunks"
proof -
  have "buffered (filter (\<lambda>stop. stop \<noteq> []) strings) [] (stop_buffer_new strings) []"
    by (auto simp: buffered_def stop_buffer_new_def earliest_None partial_match_def)
  with assms show ?thesis
    using stream_cuts [of "filter (\<lambda>stop. stop \<noteq> []) strings" chunks "[]" "stop_buffer_new strings" "[]"]
    by (cases "stream (stop_buffer_new strings) chunks") simp
qed

lemma cut_has_no_stop:
  assumes "earliest strings seen = None" "stop \<in> set strings" "\<And>stop. stop \<in> set strings \<Longrightarrow> stop \<noteq> []"
  shows "\<not> occurs_at stop (fst (cut_at_stop strings seen chunks)) i"
  using assms(1)
proof (induction chunks arbitrary: seen)
  case Nil
  with assms(2) show ?case by (simp add: earliest_None)
next
  case (Cons chunk cs)
  show ?case
  proof (cases "earliest strings (seen @ chunk)")
    case (Some at)
    have "\<not> occurs_at stop (take at (seen @ chunk)) i"
    proof
      assume occ: "occurs_at stop (take at (seen @ chunk)) i"
      then have "i < at" using assms(3) [OF assms(2)] occurs_at_length [OF occ] by (cases stop) auto
      moreover have "occurs_at stop (take at (seen @ chunk) @ drop at (seen @ chunk)) i"
        using occ occurs_at_append [OF occurs_at_length [OF occ]] by blast
      then have "occurs_at stop (seen @ chunk) i" by (simp only: append_take_drop_id)
      ultimately show False using Some assms(2) by (auto simp: earliest_Some)
    qed
    with Some show ?thesis by simp
  qed (simp add: Cons)
qed

lemma cut_at_one_stop:
  assumes "str_find seen stop = None"
  shows "cut_at_stop [stop] seen chunks = (case str_find (seen @ concat chunks) stop of
     None \<Rightarrow> (seen @ concat chunks, False) | Some at \<Rightarrow> (take at (seen @ concat chunks), True))"
  using assms
proof (induction chunks arbitrary: seen)
  case (Cons chunk cs)
  have one: "earliest [stop] s = str_find s stop" for s
    by (cases "str_find s stop") (simp_all add: earliest_def map_filter_def iter_min_def)
  show ?case
  proof (cases "str_find (seen @ chunk) stop")
    case None
    with Cons.IH [OF None] show ?thesis by (simp add: one split: option.splits)
  next
    case (Some at)
    then have len: "at + length stop \<le> length (seen @ chunk)"
      by (auto simp: str_find_Some dest: occurs_at_length)
    have "occurs_at stop ((seen @ chunk) @ concat cs) i \<longleftrightarrow> occurs_at stop (seen @ chunk) i" if "i \<le> at" for i
      using len that by (intro occurs_at_append) simp
    with Some have "str_find ((seen @ chunk) @ concat cs) stop = Some at"
      unfolding str_find_Some by (metis less_imp_le order_refl)
    with Some len show ?thesis by (simp add: one)
  qed
qed simp

section \<open>Properties\<close>

text \<open>
  C34. Streaming is seamless: whatever chunks the decoder produces, the client receives exactly
  the text before the first stop sequence of everything decoded so far, checked chunk by chunk,
  or all of the text when none occurs. Nothing is lost, repeated or reordered by holding text
  back, and the turn is reported as stopped exactly when a sequence completed.
\<close>

theorem stop_streaming_is_seamless:
  assumes "\<And>stop. stop \<in> set strings \<Longrightarrow> utf8 stop" "\<And>chunk. chunk \<in> set chunks \<Longrightarrow> utf8 chunk"
  shows "stream (stop_buffer_new strings) chunks = cut_at_stop (filter (\<lambda>stop. stop \<noteq> []) strings) [] chunks"
  by (rule new_stream_cuts [OF assms])

theorem stop_streaming_is_seamless_witness:
  "stream (stop_buffer_new [''<|stop|>'', [], ''<e'']) [''a <|st'', ''b<|sto'', ''p|>c''] = (''a <|stb'', True)"
proof (rule trans [OF stop_streaming_is_seamless])
  show "cut_at_stop (filter (\<lambda>stop. stop \<noteq> []) [''<|stop|>'', [], ''<e'']) [] [''a <|st'', ''b<|sto'', ''p|>c'']
    = (''a <|stb'', True)"
    by (simp add: earliest_def iter_min_def map_filter_def)
qed (auto simp: is_continuation_def following_bytes_def)

text \<open>
  C35. No stop sequence is ever leaked: the text a client receives contains none of the
  configured sequences, in whole or assembled from several chunks.
\<close>

theorem no_stop_sequence_is_released:
  assumes "\<And>stop. stop \<in> set strings \<Longrightarrow> utf8 stop" "\<And>chunk. chunk \<in> set chunks \<Longrightarrow> utf8 chunk"
    and "stop \<in> set strings" "stop \<noteq> []"
  shows "str_find (fst (stream (stop_buffer_new strings) chunks)) stop = None"
proof -
  let ?ss = "filter (\<lambda>stop. stop \<noteq> []) strings"
  have "\<not> occurs_at stop (fst (cut_at_stop ?ss [] chunks)) i" for i
    using assms(3,4) by (intro cut_has_no_stop) (simp_all add: earliest_None)
  then show ?thesis using new_stream_cuts [OF assms(1,2)] by (simp add: str_find_None)
qed

theorem no_stop_sequence_is_released_witness:
  "str_find (fst (stream (stop_buffer_new [''END'', ''ND!'']) [''go EN'', ''D?''])) ''END'' = None"
  by (rule no_stop_sequence_is_released) (auto simp: is_continuation_def following_bytes_def)

text \<open>
  With one stop sequence the chunks do not matter at all: the client receives the decoded
  text up to the sequence's first occurrence, however the text was divided.
\<close>

theorem one_stop_ignores_chunking:
  assumes "utf8 stop" "stop \<noteq> []" "\<And>chunk. chunk \<in> set chunks \<Longrightarrow> utf8 chunk"
  shows "stream (stop_buffer_new [stop]) chunks = (case str_find (concat chunks) stop of
     None \<Rightarrow> (concat chunks, False) | Some at \<Rightarrow> (take at (concat chunks), True))"
proof -
  have "stream (stop_buffer_new [stop]) chunks = cut_at_stop [stop] [] chunks"
    using new_stream_cuts [of "[stop]" chunks] assms by simp
  with cut_at_one_stop [of "[]" stop chunks] assms(2) show ?thesis by (simp split: option.splits)
qed

theorem one_stop_ignores_chunking_witness:
  "stream (stop_buffer_new [''END'']) [''g'', ''o E'', ''N'', ''D?''] = (''go '', True)"
proof (rule trans [OF one_stop_ignores_chunking])
  show "(case str_find (concat [''g'', ''o E'', ''N'', ''D?'']) ''END'' of
      None \<Rightarrow> (concat [''g'', ''o E'', ''N'', ''D?''], False)
    | Some at \<Rightarrow> (take at (concat [''g'', ''o E'', ''N'', ''D?'']), True)) = (''go '', True)"
    by simp
qed (auto simp: is_continuation_def following_bytes_def)

text \<open>
  \<open>push\<close> cuts only between characters: the released and the retained text are whole
  characters again, so the slices of the code cannot panic and every delta is a \<open>String\<close>.
\<close>

theorem push_splits_at_characters:
  assumes "utf8 (sb_held sb)" "utf8 chunk" "\<And>stop. stop \<in> set (sb_stops sb) \<Longrightarrow> utf8 stop \<and> stop \<noteq> []"
    and "push sb chunk = (sb', step)"
  shows "utf8 (ss_emit step) \<and> utf8 (sb_held sb')"
proof (cases "sb_stops sb = []")
  case False
  have t: "utf8 (sb_held sb @ chunk)" using assms(1,2) by (rule utf8_append)
  show ?thesis
  proof (cases "earliest (sb_stops sb) (sb_held sb @ chunk)")
    case (Some at)
    then obtain stop where "stop \<in> set (sb_stops sb)" "occurs_at stop (sb_held sb @ chunk) at"
      by (auto simp: earliest_Some)
    with t assms(3) have "utf8 (take at (sb_held sb @ chunk))" by (intro occurrence_boundary) auto
    with Some False assms(4) show ?thesis by (auto simp: push_def)
  next
    case None
    define t where "t = sb_held sb @ chunk"
    let ?sb = "sb\<lparr>sb_held := t\<rparr>"
    have "utf8 (sb_held ?sb)" "\<And>stop. stop \<in> set (sb_stops ?sb) \<Longrightarrow> utf8 stop \<and> stop \<noteq> []"
      using t assms(3) by (simp_all add: t_def)
    note facts = longest_partial_suffix_facts(2,3) [OF this, simplified]
    from None False assms(4) have "ss_emit step = take (length t - longest_partial_suffix ?sb) t"
      "sb_held sb' = drop (length t - longest_partial_suffix ?sb) t"
      by (auto simp only: push_def Let_def t_def [symmetric] if_False option.case) (auto simp: t_def)
    with facts show ?thesis by simp
  qed
qed (use assms in \<open>auto simp: push_def\<close>)

theorem push_splits_at_characters_witness:
  "utf8 (ss_emit (snd (push (stop_buffer_new [[CHR 0xE6, CHR 0x97, CHR 0xA5, CHR 0x41]]) [CHR 0x41, CHR 0xE6, CHR 0x97, CHR 0xA5])))
   \<and> utf8 (sb_held (fst (push (stop_buffer_new [[CHR 0xE6, CHR 0x97, CHR 0xA5, CHR 0x41]]) [CHR 0x41, CHR 0xE6, CHR 0x97, CHR 0xA5])))"
  by (rule push_splits_at_characters [OF _ _ _ prod.collapse [symmetric]])
    (auto simp: stop_buffer_new_def is_continuation_def following_bytes_def)

end
