(* ===== verification/Sampling.thy ===== *)
theory Sampling
  imports Floats
begin

text \<open>
  Token sampling (\<open>src/sampling.rs\<close>): \<open>SamplingConfig\<close>, \<open>Sampler::new\<close>, \<open>Sampler::sample\<close> and
  \<open>argmax\<close>. The random generator (\<open>StdRng\<close> of the \<open>rand\<close> crate) is a parameter: its seeding
  \<open>seed_rng\<close> and its draw \<open>draw01\<close>. \<open>sort_unstable_by\<close> leaves the order of equal elements open;
  \<open>rank\<close> is the order it picks. \<open>greedy\<close> is the temperature-zero sampler that the speculative
  policy needs: \<open>argmax\<close>, the last of the greatest finite logits.
\<close>

section \<open>The program\<close>

datatype sampling_error =
    BadTemperature | BadTopP | BadMinP | BadTopK | EmptyLogits | NonFiniteLogits | BadMass

record 'f sampling_config =
  sc_temperature :: 'f
  sc_top_k :: "nat option"
  sc_top_p :: "'f option"
  sc_min_p :: "'f option"
  sc_seed :: u64

definition sampling_default :: "'f fops \<Rightarrow> 'f sampling_config" where
  "sampling_default F = \<lparr>sc_temperature = f_zero F, sc_top_k = None, sc_top_p = None, sc_min_p = None, sc_seed = 0\<rparr>"

record ('f, 'r) sampler =
  sm_config :: "'f sampling_config"
  sm_rng :: 'r

definition sampler_new ::
    "'f fops \<Rightarrow> (u64 \<Rightarrow> 'r) \<Rightarrow> 'f sampling_config \<Rightarrow> sampling_error + ('f, 'r) sampler" where
  "sampler_new F seed_rng config =
     bindE (ensure (f_le F (f_zero F) (sc_temperature config) \<and> f_finite F (sc_temperature config)) BadTemperature) (\<lambda>_.
     bindE (case sc_top_p config of None \<Rightarrow> Inr ()
            | Some p \<Rightarrow> ensure (f_lt F (f_zero F) p \<and> f_le F p (f_one F)) BadTopP) (\<lambda>_.
     bindE (case sc_min_p config of None \<Rightarrow> Inr ()
            | Some p \<Rightarrow> ensure (f_le F (f_zero F) p \<and> f_le F p (f_one F)) BadMinP) (\<lambda>_.
     bindE (case sc_top_k config of None \<Rightarrow> Inr () | Some k \<Rightarrow> ensure (0 < k) BadTopK) (\<lambda>_.
     Inr \<lparr>sm_config = config, sm_rng = seed_rng (sc_seed config)\<rparr>))))"

definition finite_logits :: "'f fops \<Rightarrow> 'f list \<Rightarrow> (nat \<times> 'f) list" where
  "finite_logits F logits = filter (\<lambda>(_, x). f_finite F x) (enumerate 0 logits)"

definition argmax :: "'f fops \<Rightarrow> 'f list \<Rightarrow> sampling_error + nat" where
  "argmax F logits =
     (case max_by (\<lambda>a b. f_lt F (snd a) (snd b)) (finite_logits F logits) of
        None \<Rightarrow> Inl NonFiniteLogits
      | Some (i, _) \<Rightarrow> Inr i)"

text \<open>The running sum of the \<open>top_p\<close> loop: how many candidates it keeps.\<close>

fun nucleus :: "'f fops \<Rightarrow> 'f \<Rightarrow> 'f \<Rightarrow> (nat \<times> 'f) list \<Rightarrow> nat" where
  "nucleus F top_p cumulative [] = 0"
| "nucleus F top_p cumulative ((_, p) # rest) =
     (let sum = f_add F cumulative p
      in if f_le F top_p sum then 1 else Suc (nucleus F top_p sum rest))"

fun draw_from :: "'f fops \<Rightarrow> 'f \<Rightarrow> (nat \<times> 'f) list \<Rightarrow> sampling_error + nat" where
  "draw_from F draw [] = Inl BadMass"
| "draw_from F draw ((i, p) # rest) =
     (if f_le F draw p then Inr i else draw_from F (f_sub F draw p) rest)"

definition softmax_candidates :: "'f fops \<Rightarrow> 'f \<Rightarrow> (nat \<times> 'f) list \<Rightarrow> (nat \<times> 'f) list" where
  "softmax_candidates F temperature candidates =
     (let top = f_div F (snd (hd candidates)) temperature;
          weights = map (\<lambda>(i, x). (i, f_exp F (f_sub F (f_div F x temperature) top))) candidates;
          mass = foldl (f_add F) (f_zero F) (map snd weights)
      in map (\<lambda>(i, p). (i, f_div F p mass)) weights)"

definition candidates_of ::
    "'f fops \<Rightarrow> ((nat \<times> 'f) list \<Rightarrow> (nat \<times> 'f) list) \<Rightarrow> 'f sampling_config \<Rightarrow> 'f list \<Rightarrow> (nat \<times> 'f) list" where
  "candidates_of F rank config logits =
     (let ranked = rank (finite_logits F logits);
          kept = (case sc_top_k config of None \<Rightarrow> ranked | Some k \<Rightarrow> take (min k (length ranked)) ranked);
          weighted = softmax_candidates F (sc_temperature config) kept;
          likely = (case sc_min_p config of None \<Rightarrow> weighted
                    | Some m \<Rightarrow> let cutoff = f_mul F (snd (hd weighted)) m
                                in filter (\<lambda>(_, p). f_le F cutoff p) weighted)
      in case sc_top_p config of None \<Rightarrow> likely
         | Some top_p \<Rightarrow> take (nucleus F top_p (f_zero F) likely) likely)"

definition sample ::
    "'f fops \<Rightarrow> ('r \<Rightarrow> 'f \<times> 'r) \<Rightarrow> ((nat \<times> 'f) list \<Rightarrow> (nat \<times> 'f) list) \<Rightarrow> ('f, 'r) sampler \<Rightarrow> 'f list
      \<Rightarrow> ('f, 'r) sampler \<times> (sampling_error + u32)" where
  "sample F draw01 rank s logits =
     (if logits = [] then (s, Inl EmptyLogits)
      else if f_eq F (sc_temperature (sm_config s)) (f_zero F)
      then (s, bindE (argmax F logits) (\<lambda>i. Inr (word_of_nat i)))
      else if finite_logits F logits = [] then (s, Inl NonFiniteLogits)
      else let candidates = candidates_of F rank (sm_config s) logits;
               mass = f_sum F (map snd candidates);
               (u, rng) = draw01 (sm_rng s)
           in (s\<lparr>sm_rng := rng\<rparr>,
               bindE (draw_from F (f_mul F u mass) candidates) (\<lambda>i. Inr (word_of_nat i))))"

section \<open>The greatest finite logit\<close>

text \<open>What \<open>f32\<close>'s \<open><\<close> is on the finite values: a strict weak order.\<close>

definition finite_order :: "'f fops \<Rightarrow> bool" where
  "finite_order F \<longleftrightarrow>
     (\<forall>a b. f_finite F a \<and> f_finite F b \<and> f_lt F a b \<longrightarrow> \<not> f_lt F b a) \<and>
     (\<forall>a b c. f_finite F a \<and> f_finite F b \<and> f_finite F c \<and> \<not> f_lt F a b \<and> \<not> f_lt F b c \<longrightarrow> \<not> f_lt F a c)"

lemma max_by_snoc:
  "max_by lt (xs @ [x]) =
     (case max_by lt xs of None \<Rightarrow> Some x | Some b \<Rightarrow> Some (if lt x b then b else x))"
  by (simp add: max_by_def)

lemma max_by_None: "max_by lt xs = None \<longleftrightarrow> xs = []"
  by (induction xs rule: rev_induct) (auto simp: max_by_snoc max_by_def split: option.splits)

text \<open>The element picked splits the list: nothing before it is greater, everything after is less.\<close>

lemma max_by_split:
  assumes "max_by lt xs = Some b"
    and asym: "\<And>x y. x \<in> set xs \<Longrightarrow> y \<in> set xs \<Longrightarrow> lt x y \<Longrightarrow> \<not> lt y x"
    and lt_trans: "\<And>x y z. x \<in> set xs \<Longrightarrow> y \<in> set xs \<Longrightarrow> z \<in> set xs \<Longrightarrow> \<not> lt x y \<Longrightarrow> \<not> lt y z \<Longrightarrow> \<not> lt x z"
  shows "\<exists>us vs. xs = us @ b # vs \<and> (\<forall>u \<in> set us. \<not> lt b u) \<and> (\<forall>v \<in> set vs. lt v b)"
  using assms
proof (induction xs arbitrary: b rule: rev_induct)
  case Nil
  show ?case using Nil(1) by (simp add: max_by_def)
next
  case (snoc x xs)
  show ?case
  proof (cases "max_by lt xs")
    case None
    then have "xs = []" by (simp only: max_by_None)
    moreover have "b = x" using snoc.prems(1) by (simp add: max_by_snoc None)
    ultimately show ?thesis by (intro exI [of _ "[]"]) simp
  next
    case (Some c)
    have "\<exists>us vs. xs = us @ c # vs \<and> (\<forall>u \<in> set us. \<not> lt c u) \<and> (\<forall>v \<in> set vs. lt v c)"
    proof (rule snoc.IH [OF Some])
      show "\<not> lt y z" if "z \<in> set xs" "y \<in> set xs" "lt z y" for z y
        using snoc.prems(2) [of z y] that by simp
      show "\<not> lt y z" if "y \<in> set xs" "u \<in> set xs" "z \<in> set xs" "\<not> lt y u" "\<not> lt u z" for y u z
        using snoc.prems(3) [of y u z] that by simp
    qed
    then obtain us vs where xs: "xs = us @ c # vs" and us: "\<forall>u \<in> set us. \<not> lt c u"
      and vs: "\<forall>v \<in> set vs. lt v c"
      by blast
    show ?thesis
    proof (cases "lt x c")
      case True
      then have "b = c" using snoc.prems(1) Some by (simp add: max_by_snoc)
      with True xs us vs show ?thesis by (intro exI [of _ us] exI [of _ "vs @ [x]"]) auto
    next
      case False
      then have b: "b = x" using snoc.prems(1) Some by (simp add: max_by_snoc)
      have "\<not> lt x u" if u: "u \<in> set xs" for u
      proof -
        have c: "c \<in> set xs" using xs by simp
        have "\<not> lt c u"
        proof (cases "u \<in> set vs")
          case True
          then have "lt u c" using vs by blast
          then show ?thesis using snoc.prems(2) [of u c] u c by simp
        next
          case False
          then have "u \<in> set us \<or> u = c" using u xs by auto
          then show ?thesis using us snoc.prems(2) [of c c] c by auto
        qed
        then show ?thesis using snoc.prems(3) [of x c u] u c False by simp
      qed
      with b show ?thesis by (intro exI [of _ xs] exI [of _ "[]"]) auto
    qed
  qed
qed

lemma in_finite_logits: "(i, x) \<in> set (finite_logits F ls) \<longleftrightarrow> i < length ls \<and> x = ls ! i \<and> f_finite F x"
  by (auto simp: finite_logits_def set_enumerate0)

lemma finite_logits_sorted: "sorted_wrt (\<lambda>a b. fst a < fst b) (finite_logits F ls)"
proof -
  have "sorted_wrt (\<lambda>a b. fst a < fst b) (enumerate n ls)" for n
    by (induction ls arbitrary: n) (auto simp: in_set_enumerate_eq)
  then show ?thesis by (simp add: finite_logits_def sorted_wrt_filter)
qed

lemma argmax_range:
  assumes "argmax F ls = Inr i"
  shows "i < length ls \<and> f_finite F (ls ! i)"
proof -
  have mem: "max_by lt xs = Some b \<Longrightarrow> b \<in> set xs" for lt :: "'b \<Rightarrow> 'b \<Rightarrow> bool" and xs b
    by (induction xs arbitrary: b rule: rev_induct) (auto simp: max_by_snoc max_by_def split: option.splits if_splits)
  from assms obtain x where "max_by (\<lambda>a b. f_lt F (snd a) (snd b)) (finite_logits F ls) = Some (i, x)"
    by (auto simp: argmax_def split: option.splits)
  from mem [OF this] show ?thesis by (auto simp: in_finite_logits)
qed

lemma argmax_Inl: "argmax F ls = Inl e \<longleftrightarrow> (\<forall>i < length ls. \<not> f_finite F (ls ! i)) \<and> e = NonFiniteLogits"
proof -
  have "finite_logits F ls = [] \<longleftrightarrow> (\<forall>i < length ls. \<not> f_finite F (ls ! i))"
    using in_finite_logits [of _ _ F ls] by (metis all_not_in_conv in_finite_logits set_empty surj_pair)
  then show ?thesis
    using max_by_None [of "\<lambda>a b. f_lt F (snd a) (snd b)" "finite_logits F ls"]
    by (auto simp: argmax_def split: option.splits)
qed

lemma finite_logits_sublist:
  assumes "finite_logits F ls = us @ (i, x) # vs" and "j < length ls" and "f_finite F (ls ! j)"
  shows "j < i \<Longrightarrow> (j, ls ! j) \<in> set us" and "i < j \<Longrightarrow> (j, ls ! j) \<in> set vs"
proof -
  have "(j, ls ! j) \<in> set us \<union> {(i, x)} \<union> set vs"
    using assms(2,3) in_finite_logits [of j "ls ! j" F ls] assms(1) by auto
  moreover have "\<forall>u \<in> set us. fst u < i" "\<forall>v \<in> set vs. i < fst v"
    using finite_logits_sorted [of F ls] assms(1) by (auto simp: sorted_wrt_append)
  ultimately show "j < i \<Longrightarrow> (j, ls ! j) \<in> set us" "i < j \<Longrightarrow> (j, ls ! j) \<in> set vs"
    by auto
qed

lemma argmax_last_greatest:
  assumes "finite_order F" and "argmax F ls = Inr i" and "j < length ls" and "f_finite F (ls ! j)"
  shows "\<not> f_lt F (ls ! i) (ls ! j)" and "i < j \<Longrightarrow> f_lt F (ls ! j) (ls ! i)"
proof -
  let ?lt = "\<lambda>a b. f_lt F (snd a) (snd b)"
  have fin: "f_finite F (snd p)" if "p \<in> set (finite_logits F ls)" for p
    using that in_finite_logits [of "fst p" "snd p" F ls] by fastforce
  from assms(2) obtain x where some: "max_by ?lt (finite_logits F ls) = Some (i, x)"
    by (auto simp: argmax_def split: option.splits)
  from max_by_split [OF some] assms(1) fin obtain us vs
    where split: "finite_logits F ls = us @ (i, x) # vs"
      and us: "\<forall>u \<in> set us. \<not> f_lt F x (snd u)" and vs: "\<forall>v \<in> set vs. f_lt F (snd v) x"
    unfolding finite_order_def snd_conv by blast
  have x: "x = ls ! i" and xf: "f_finite F x"
    using in_finite_logits [of i x F ls] split by auto
  have asym: "\<not> (f_lt F a c \<and> f_lt F c a)" if "f_finite F a" "f_finite F c" for a c
    using assms(1) that unfolding finite_order_def by blast
  show later: "f_lt F (ls ! j) (ls ! i)" if "i < j"
    using finite_logits_sublist(2) [OF split assms(3,4) that] vs x by fastforce
  have earlier: "\<not> f_lt F (ls ! i) (ls ! j)" if "j < i"
    using finite_logits_sublist(1) [OF split assms(3,4) that] us x by fastforce
  show "\<not> f_lt F (ls ! i) (ls ! j)"
  proof (cases i j rule: linorder_cases)
    case less
    then show ?thesis using later asym [of "ls ! i" "ls ! j"] xf x assms(4) by blast
  next
    case equal
    then show ?thesis using asym [OF assms(4,4)] by blast
  next
    case greater
    then show ?thesis by (rule earlier)
  qed
qed

section \<open>What a draw can return\<close>

lemma draw_from_member: "draw_from F u cs = Inr i \<Longrightarrow> i \<in> fst ` set cs"
  by (induction F u cs rule: draw_from.induct) (auto split: if_splits)

lemma softmax_fst: "map fst (softmax_candidates F t cs) = map fst cs"
  by (simp add: softmax_candidates_def Let_def case_prod_unfold comp_def)

text \<open>Every candidate that can be drawn is a finite logit among the first \<open>top_k\<close> of the ranking.\<close>

definition top_ranked :: "((nat \<times> 'f) list \<Rightarrow> (nat \<times> 'f) list) \<Rightarrow> nat option \<Rightarrow> (nat \<times> 'f) list \<Rightarrow> nat set" where
  "top_ranked rank k cs = fst ` set (case k of None \<Rightarrow> rank cs | Some n \<Rightarrow> take n (rank cs))"

lemma candidates_top_ranked:
  "fst ` set (candidates_of F rank config ls) \<subseteq> top_ranked rank (sc_top_k config) (finite_logits F ls)"
proof -
  let ?ranked = "rank (finite_logits F ls)"
  let ?kept = "case sc_top_k config of None \<Rightarrow> ?ranked | Some k \<Rightarrow> take (min k (length ?ranked)) ?ranked"
  let ?soft = "softmax_candidates F (sc_temperature config) ?kept"
  have "set (candidates_of F rank config ls) \<subseteq> set ?soft"
    unfolding candidates_of_def Let_def
    by (cases "sc_min_p config"; cases "sc_top_p config") (auto dest!: in_set_takeD)
  then have "fst ` set (candidates_of F rank config ls) \<subseteq> set (map fst ?soft)" by auto
  also have "\<dots> = fst ` set ?kept" by (simp only: softmax_fst set_map)
  also have "\<dots> \<subseteq> top_ranked rank (sc_top_k config) (finite_logits F ls)"
    by (cases "sc_top_k config") (auto simp: top_ranked_def min_def split: if_splits)
  finally show ?thesis .
qed

section \<open>Properties\<close>

text \<open>
  The greedy sampler returns the last of the greatest finite logits: no finite logit is
  greater and every later one is less; it fails exactly when no logit is finite. The tie-break
  is what the verifier of a speculative pass must share with the plain decoder.
\<close>

theorem argmax_is_the_last_greatest:
  assumes "finite_order F"
  shows "case argmax F ls of
      Inl _ \<Rightarrow> \<forall>i < length ls. \<not> f_finite F (ls ! i)
    | Inr i \<Rightarrow> i < length ls \<and> f_finite F (ls ! i) \<and>
        (\<forall>j < length ls. f_finite F (ls ! j) \<longrightarrow>
           \<not> f_lt F (ls ! i) (ls ! j) \<and> (i < j \<longrightarrow> f_lt F (ls ! j) (ls ! i)))"
  using argmax_range [of F ls] argmax_Inl [of F ls] argmax_last_greatest [OF assms]
  by (auto split: sum.split)

lemma int_finite_order: "finite_order int_fops"
  by (auto simp: finite_order_def int_fops_def)

theorem argmax_is_the_last_greatest_witness:
  "argmax int_fops [3, 7, -1000, 7, 2] = Inr 3 \<and>
   \<not> f_lt int_fops (7 :: int) 7 \<and> f_lt int_fops (2 :: int) 7"
proof -
  have run: "argmax int_fops [3, 7, -1000, 7, 2] = Inr 3" by code_simp
  have finite: "f_finite int_fops (7 :: int)" "f_finite int_fops (2 :: int)" by code_simp+
  note facts = argmax_is_the_last_greatest [OF int_finite_order, of "[3, 7, -1000, 7, 2]", unfolded run sum.case,
      THEN conjunct2, THEN conjunct2, rule_format]
  from facts [of 1] facts [of 4] run finite show ?thesis by simp
qed

text \<open>
  Sampling never invents a token: a token drawn at any temperature is the index of a
  finite logit, it survives the \<open>top_k\<close> cut of the ranking, and at temperature zero it is the
  \<open>argmax\<close>, with the generator untouched.
\<close>

theorem sample_returns_a_candidate:
  assumes "\<And>cs. set (rank cs) = set cs"
    and "sample F draw01 rank s ls = (s', Inr t)"
  shows "\<exists>i < length ls. t = word_of_nat i \<and> f_finite F (ls ! i) \<and>
     (if f_eq F (sc_temperature (sm_config s)) (f_zero F) then s' = s \<and> argmax F ls = Inr i
      else i \<in> top_ranked rank (sc_top_k (sm_config s)) (finite_logits F ls))"
proof (cases "f_eq F (sc_temperature (sm_config s)) (f_zero F)")
  case True
  with assms(2) obtain i where "argmax F ls = Inr i" "t = word_of_nat i" "s' = s"
    by (auto simp: sample_def bindE_Inr_iff split: if_splits)
  with True argmax_range [of F ls i] show ?thesis by auto
next
  case False
  with assms(2) obtain u i where draw: "draw_from F u (candidates_of F rank (sm_config s) ls) = Inr i"
    and t: "t = word_of_nat i"
    by (auto simp: sample_def bindE_Inr_iff Let_def split: if_splits prod.splits)
  have i: "i \<in> top_ranked rank (sc_top_k (sm_config s)) (finite_logits F ls)"
    using draw_from_member [OF draw] candidates_top_ranked by blast
  moreover have "i \<in> fst ` set (finite_logits F ls)"
    using i assms(1) unfolding top_ranked_def by (auto split: option.splits dest!: in_set_takeD)
  ultimately show ?thesis using False t by (auto simp: in_finite_logits)
qed

definition example_config :: "int sampling_config" where
  "example_config = \<lparr>sc_temperature = 1, sc_top_k = Some 2, sc_top_p = None, sc_min_p = None, sc_seed = 0\<rparr>"

theorem sample_returns_a_candidate_witness:
  "\<exists>i < 3. (1 :: u32) = word_of_nat i \<and> f_finite int_fops ([1, 5, 3 :: int] ! i) \<and>
     i \<in> top_ranked rev (Some 2) (finite_logits int_fops [1, 5, 3])"
proof -
  have run: "sample int_fops (\<lambda>r. (1, r + 1)) rev \<lparr>sm_config = example_config, sm_rng = 0 :: nat\<rparr> [1, 5, 3]
      = (\<lparr>sm_config = example_config, sm_rng = 1\<rparr>, Inr 1)"
    by code_simp
  have not_zero: "\<not> f_eq int_fops 1 (f_zero int_fops)" by code_simp
  show ?thesis
    using sample_returns_a_candidate [OF _ run] not_zero
    by (simp add: example_config_def numeral_3_eq_3)
qed

end
