(* ===== verification/Mtp.thy ===== *)
theory Mtp
  imports Model_State Sampling
begin

text \<open>
  The learned next-token predictor (\<open>src/qwen/quantized_mtp.rs\<close>): its sequence state, an
  attention cache, and its pass, one full-attention layer over the joined embedding and
  target hidden row. \<open>draft_head\<close> is \<open>QuantizedMatrix::leading_rows\<close>: the first rows of the LM
  head, hence the first entries of its output. From \<open>src/runtime.rs\<close>: \<open>top1_with_scores\<close>, the
  draft's choice and confidence, and \<open>shifted_hidden_inputs\<close>, the predictor's inputs.
\<close>

record 'f mtp_head =
  mt_hidden_size :: nat
  mt_embedding :: "u32 \<Rightarrow> 'f list option"
  mt_embedding_norm :: "'f list \<Rightarrow> 'f list"
  mt_hidden_norm :: "'f list \<Rightarrow> 'f list"
  mt_input_projection :: "'f list \<Rightarrow> 'f list"
  mt_layer :: "'f full_layer"
  mt_head_norm :: "'f list \<Rightarrow> 'f list"
  mt_lm_head :: "'f list \<Rightarrow> 'f list"
  mt_vocab_size :: nat

record 'f mtp_output =
  mo_logits :: "'f list list option"
  mo_hidden :: "'f list list"

definition draft_head :: "'f mtp_head \<Rightarrow> nat \<Rightarrow> 'f list \<Rightarrow> 'f list" where
  "draft_head H vocab x = take vocab (mt_lm_head H x)"

definition mtp_new_state :: "'f attn_state" where
  "mtp_new_state = attn_new"

definition mtp_embed :: "'f mtp_head \<Rightarrow> u32 list \<Rightarrow> model_error + 'f list list" where
  "mtp_embed H tokens =
     mapE (\<lambda>t. case mt_embedding H t of None \<Rightarrow> Inl DimensionMismatch | Some x \<Rightarrow> Inr x) tokens"

definition forward_with_head ::
    "'f fops \<Rightarrow> nat \<Rightarrow> 'f mtp_head \<Rightarrow> u32 list \<Rightarrow> 'f list list \<Rightarrow> 'f attn_state \<Rightarrow> bool
      \<Rightarrow> ('f list \<Rightarrow> 'f list) option \<Rightarrow> 'f attn_state \<times> (model_error + 'f mtp_output)" where
  "forward_with_head F threads H tokens hidden_inputs st produce_logits head =
     (if tokens = [] then (st, Inl EmptyForward)
      else if length hidden_inputs \<noteq> length tokens \<or> (\<exists>row \<in> set hidden_inputs. length row \<noteq> mt_hidden_size H)
      then (st, Inl DimensionMismatch)
      else case mtp_embed H tokens of
        Inl e \<Rightarrow> (st, Inl e)
      | Inr embeddings \<Rightarrow>
          (let joined = map2 (@) (map (mt_embedding_norm H) embeddings) (map (mt_hidden_norm H) hidden_inputs);
               projected = map (mt_input_projection H) joined
           in case full_forward F threads (mt_layer H) projected (as_positions st) st of
                (st', Inl e) \<Rightarrow> (st', Inl e)
              | (st', Inr out) \<Rightarrow>
                  (let normalized_hidden = map (mt_head_norm H) out;
                       lm_head = (case head of None \<Rightarrow> mt_lm_head H | Some h \<Rightarrow> h)
                   in (st', Inr \<lparr>mo_logits = (if produce_logits then Some (map lm_head normalized_hidden) else None),
                                 mo_hidden = normalized_hidden\<rparr>))))"

definition mtp_forward ::
    "'f fops \<Rightarrow> nat \<Rightarrow> 'f mtp_head \<Rightarrow> u32 list \<Rightarrow> 'f list list \<Rightarrow> 'f attn_state \<Rightarrow> bool
      \<Rightarrow> 'f attn_state \<times> (model_error + 'f mtp_output)" where
  "mtp_forward F threads H tokens hidden_inputs st produce_logits =
     forward_with_head F threads H tokens hidden_inputs st produce_logits None"

section \<open>Errors of a turn\<close>

datatype run_error =
    ModelFailure model_error
  | SamplingFailure sampling_error
  | CallbackFailure
  | TokenizerFailure
  | ConflictingFlags
  | NoNewTokens
  | NotGreedy
  | MinMatchRange
  | NoPredictor
  | EmptyPrompt
  | PredictorMisaligned
  | NoClosureLogits
  | NoRunnerUp
  | DegenerateSoftmax
  | HiddenShape
  | GapShape
  | CarryMissing
  | PredictorBehind
  | PredictorStale
  | VerifierRows
  | EmptyPrefill
  | PendingUnevaluated
  | ImageTokens
  | ImagePredictor

definition lift_model :: "model_error + 'a \<Rightarrow> run_error + 'a" where
  "lift_model r = (case r of Inl e \<Rightarrow> Inl (ModelFailure e) | Inr x \<Rightarrow> Inr x)"

definition lift_sampling :: "sampling_error + 'a \<Rightarrow> run_error + 'a" where
  "lift_sampling r = (case r of Inl e \<Rightarrow> Inl (SamplingFailure e) | Inr x \<Rightarrow> Inr x)"

lemma lift_Inr [simp]:
  "lift_model r = Inr x \<longleftrightarrow> r = Inr x" "lift_sampling q = Inr y \<longleftrightarrow> q = Inr y"
  by (auto simp: lift_model_def lift_sampling_def split: sum.splits)

lemma lift_simps [simp]:
  "lift_model (Inr x) = Inr x" "lift_model (Inl e) = Inl (ModelFailure e)"
  "lift_sampling (Inr y) = Inr y" "lift_sampling (Inl e') = Inl (SamplingFailure e')"
  by (simp_all add: lift_model_def lift_sampling_def)

section \<open>Scores and inputs\<close>

definition top1_with_scores :: "'f fops \<Rightarrow> 'f list \<Rightarrow> run_error + nat \<times> 'f \<times> 'f" where
  "top1_with_scores F logits =
     bindE (lift_sampling (argmax F logits)) (\<lambda>top.
     let peak = logits ! top;
         others = map snd (filter (\<lambda>(index, _). index \<noteq> top) (finite_logits F logits))
     in bindE (case max_by (f_lt F) others of None \<Rightarrow> Inl NoRunnerUp | Some second \<Rightarrow> Inr second) (\<lambda>second.
        let denominator = f_sum F (map (\<lambda>v. f_exp F (f_sub F v peak)) (filter (f_finite F) logits))
        in bindE (ensure (f_lt F (f_zero F) denominator) DegenerateSoftmax) (\<lambda>_.
           Inr (top, f_sub F peak second, f_div F (f_one F) denominator))))"

definition shifted_hidden_inputs ::
    "'f fops \<Rightarrow> nat \<Rightarrow> 'f list option \<Rightarrow> 'f list list \<Rightarrow> nat \<Rightarrow> nat \<Rightarrow> run_error + 'f list list" where
  "shifted_hidden_inputs F pos previous target_hidden tokens hidden_size =
     bindE (ensure (length target_hidden = tokens \<and> (\<forall>row \<in> set target_hidden. length row = hidden_size)) HiddenShape)
       (\<lambda>_.
     bindE (case previous of
        Some row \<Rightarrow> bindE (ensure (length row = hidden_size) HiddenShape) (\<lambda>_. Inr row)
      | None \<Rightarrow> bindE (ensure (pos = 0) CarryMissing) (\<lambda>_. Inr (replicate hidden_size (f_zero F)))) (\<lambda>first.
     Inr (first # take (tokens - 1) target_hidden)))"

lemma shifted_length:
  "shifted_hidden_inputs F pos previous hs n w = Inr rows \<Longrightarrow> 0 < n \<Longrightarrow> length rows = n \<and> (\<forall>r \<in> set rows. length r = w)"
  by (auto simp: shifted_hidden_inputs_def bindE_Inr_iff split: option.splits dest!: in_set_takeD)

end
