(* ===== verification/Controller.thy ===== *)
theory Controller
  imports Floats
begin

text \<open>
  The decision state of the speculative policy (\<open>src/speculative.rs\<close>): modes and step arms,
  \<open>ArmConfig\<close>, \<open>ArmStats\<close>, the \<open>ArmController\<close> with \<open>poll\<close>, \<open>observe\<close> and \<open>suspend\<close>, the span
  cursor and \<open>chain_span\<close>; and, from \<open>src/runtime.rs\<close>, the options that configure a run
  (\<open>PolicyTuning\<close>, \<open>effective_speculative_mode\<close>, \<open>arm_configs\<close>).

  The controller is a state machine driven by two events, a poll and an observation. Its
  invariants are proved by induction over the reachable states: a draft length inside its
  bounds, a backoff window inside its bounds, a suspension that ends on time, and counters
  that add up. The acceptance EWMA is \<open>f64\<close> arithmetic, over the abstract operations \<open>F\<close>.
\<close>

section \<open>Modes and arms\<close>

datatype speculative_mode = ModeOff | ModeAuto | ModeNgram | ModeMtp

definition is_speculative :: "speculative_mode \<Rightarrow> bool" where
  "is_speculative m \<longleftrightarrow> m \<noteq> ModeOff"

definition allows_ngram :: "speculative_mode \<Rightarrow> bool" where
  "allows_ngram m \<longleftrightarrow> m = ModeAuto \<or> m = ModeNgram"

definition allows_mtp :: "speculative_mode \<Rightarrow> bool" where
  "allows_mtp m \<longleftrightarrow> m = ModeAuto \<or> m = ModeMtp"

datatype step_arm = ArmNgram | ArmNgramSpan | ArmMtp | ArmPlain

definition arm_is_ngram :: "step_arm \<Rightarrow> bool" where
  "arm_is_ngram a \<longleftrightarrow> a = ArmNgram \<or> a = ArmNgramSpan"

section \<open>The controller\<close>

record 'f arm_config =
  ac_enabled :: bool
  ac_floor :: nat
  ac_cap :: nat
  ac_start :: nat
  ac_grow :: nat
  ac_adaptive :: bool
  ac_backoff :: bool
  ac_alpha :: 'f
  ac_suspend_below :: 'f
  ac_backoff_tokens :: nat
  ac_backoff_cap :: nat
  ac_probe_len :: "nat option"
  ac_initial_ewma :: 'f

definition DEFAULT_NGRAM_DRAFT_FLOOR :: nat where "DEFAULT_NGRAM_DRAFT_FLOOR = 4"
definition DEFAULT_NGRAM_DRAFT_CAP :: nat where "DEFAULT_NGRAM_DRAFT_CAP = 7"
definition DEFAULT_MTP_DEPTH_FLOOR :: nat where "DEFAULT_MTP_DEPTH_FLOOR = 2"
definition DEFAULT_MTP_DEPTH_CAP :: nat where "DEFAULT_MTP_DEPTH_CAP = 7"
definition DEFAULT_MTP_DEPTH_START :: nat where "DEFAULT_MTP_DEPTH_START = 4"
definition DEFAULT_BACKOFF_TOKENS :: nat where "DEFAULT_BACKOFF_TOKENS = 64"
definition DEFAULT_BACKOFF_CAP :: nat where "DEFAULT_BACKOFF_CAP = 512"

definition ngram_arm_config :: "'f fops \<Rightarrow> nat \<Rightarrow> 'f arm_config" where
  "ngram_arm_config F cap = \<lparr>ac_enabled = True, ac_floor = DEFAULT_NGRAM_DRAFT_FLOOR, ac_cap = cap, ac_start = cap,
     ac_grow = 2, ac_adaptive = True, ac_backoff = True, ac_alpha = f_lit F 2 1, ac_suspend_below = f_lit F 4 1,
     ac_backoff_tokens = DEFAULT_BACKOFF_TOKENS, ac_backoff_cap = DEFAULT_BACKOFF_CAP,
     ac_probe_len = None, ac_initial_ewma = f_one F\<rparr>"

definition mtp_arm_config :: "'f fops \<Rightarrow> nat \<Rightarrow> 'f arm_config" where
  "mtp_arm_config F cap = \<lparr>ac_enabled = True, ac_floor = DEFAULT_MTP_DEPTH_FLOOR, ac_cap = cap,
     ac_start = DEFAULT_MTP_DEPTH_START, ac_grow = 1, ac_adaptive = True, ac_backoff = True,
     ac_alpha = f_lit F 2 1, ac_suspend_below = f_lit F 5 1,
     ac_backoff_tokens = DEFAULT_BACKOFF_TOKENS, ac_backoff_cap = DEFAULT_BACKOFF_CAP,
     ac_probe_len = Some DEFAULT_MTP_DEPTH_FLOOR, ac_initial_ewma = f_one F\<rparr>"

definition arm_disabled :: "'f fops \<Rightarrow> 'f arm_config" where
  "arm_disabled F = (ngram_arm_config F 0)\<lparr>ac_enabled := False\<rparr>"

definition bounded_floor :: "'f arm_config \<Rightarrow> nat" where
  "bounded_floor c = min (ac_floor c) (ac_cap c)"

definition effective_start :: "'f arm_config \<Rightarrow> nat" where
  "effective_start c = clamp (ac_start c) (bounded_floor c) (ac_cap c)"

record arm_stats =
  st_proposals :: nat
  st_proposed_tokens :: nat
  st_accepted_tokens :: nat
  st_fully_accepted :: nat
  st_rejected_immediately :: nat
  st_suspensions :: nat
  st_probes :: nat
  st_probe_successes :: nat
  st_suspended_steps :: nat

definition arm_stats_default :: arm_stats where
  "arm_stats_default = \<lparr>st_proposals = 0, st_proposed_tokens = 0, st_accepted_tokens = 0, st_fully_accepted = 0,
     st_rejected_immediately = 0, st_suspensions = 0, st_probes = 0, st_probe_successes = 0, st_suspended_steps = 0\<rparr>"

record 'f arm_controller =
  am_config :: "'f arm_config"
  am_len :: nat
  am_ewma :: 'f
  am_suspended_until :: "nat option"
  am_backoff_window :: nat
  am_probing :: bool
  am_stats :: arm_stats

definition controller_new :: "'f arm_config \<Rightarrow> 'f arm_controller" where
  "controller_new config = \<lparr>am_config = config, am_len = effective_start config, am_ewma = ac_initial_ewma config,
     am_suspended_until = None, am_backoff_window = ac_backoff_tokens config, am_probing = False,
     am_stats = arm_stats_default\<rparr>"

definition poll :: "'f arm_controller \<Rightarrow> nat \<Rightarrow> 'f arm_controller \<times> bool" where
  "poll c committed =
     (let cfg = am_config c in
      if \<not> ac_enabled cfg then (c, False)
      else case am_suspended_until c of
        None \<Rightarrow> (c, True)
      | Some until \<Rightarrow>
          (if committed < until
           then (c\<lparr>am_stats := (am_stats c)\<lparr>st_suspended_steps := st_suspended_steps (am_stats c) + 1\<rparr>\<rparr>, False)
           else (c\<lparr>am_suspended_until := None, am_probing := True,
                   am_len := (case ac_probe_len cfg of None \<Rightarrow> am_len c
                              | Some p \<Rightarrow> clamp p (bounded_floor cfg) (ac_cap cfg))\<rparr>, True)))"

definition suspend :: "nat \<Rightarrow> 'f arm_controller \<Rightarrow> 'f arm_controller" where
  "suspend committed c = c\<lparr>am_suspended_until := Some (committed + am_backoff_window c),
     am_stats := (am_stats c)\<lparr>st_suspensions := st_suspensions (am_stats c) + 1\<rparr>\<rparr>"

text \<open>\<open>observe\<close>, in the order of its statements: counters, EWMA, draft length, backoff.\<close>

definition count_proposal :: "nat \<Rightarrow> nat \<Rightarrow> bool \<Rightarrow> arm_stats \<Rightarrow> arm_stats" where
  "count_proposal proposed accepted probing s = s\<lparr>
     st_proposals := st_proposals s + 1,
     st_proposed_tokens := st_proposed_tokens s + proposed,
     st_accepted_tokens := st_accepted_tokens s + accepted,
     st_fully_accepted := st_fully_accepted s + of_bool (accepted = proposed),
     st_rejected_immediately := st_rejected_immediately s + of_bool (accepted = 0),
     st_probes := st_probes s + of_bool probing\<rparr>"

definition next_len :: "'f arm_config \<Rightarrow> nat \<Rightarrow> nat \<Rightarrow> nat \<Rightarrow> nat" where
  "next_len cfg proposed accepted len =
     (if \<not> ac_adaptive cfg then len
      else if accepted = proposed then min (len + ac_grow cfg) (ac_cap cfg)
      else if accepted * 2 < proposed then max (len div 2) (bounded_floor cfg)
      else len)"

definition observe :: "'f fops \<Rightarrow> 'f arm_controller \<Rightarrow> nat \<Rightarrow> nat \<Rightarrow> nat \<Rightarrow> 'f arm_controller" where
  "observe F c proposed accepted committed =
     (if proposed = 0 then c
      else let cfg = am_config c;
               was_probing = am_probing c;
               fraction = f_div F (f_of_nat F accepted) (f_of_nat F proposed);
               c1 = c\<lparr>am_stats := count_proposal proposed accepted was_probing (am_stats c),
                      am_probing := False,
                      am_ewma := (if was_probing then fraction
                        else f_add F (f_mul F (ac_alpha cfg) fraction)
                               (f_mul F (f_sub F (f_one F) (ac_alpha cfg)) (am_ewma c))),
                      am_len := next_len cfg proposed accepted (am_len c)\<rparr>
           in if \<not> ac_backoff cfg then c1
              else if was_probing
              then (if f_le F (ac_suspend_below cfg) fraction
                    then c1\<lparr>am_backoff_window := ac_backoff_tokens cfg,
                            am_stats := (am_stats c1)\<lparr>st_probe_successes := st_probe_successes (am_stats c1) + 1\<rparr>\<rparr>
                    else suspend committed
                      (c1\<lparr>am_backoff_window := min (saturating_mul (am_backoff_window c1) 2) (ac_backoff_cap cfg)\<rparr>))
              else if f_lt F (am_ewma c1) (ac_suspend_below cfg)
              then suspend committed (c1\<lparr>am_backoff_window := ac_backoff_tokens cfg\<rparr>)
              else c1)"

section \<open>Spans\<close>

record span_cursor =
  sp_next :: nat
  sp_match_len :: nat
  sp_links :: nat

definition span_after :: "nat \<Rightarrow> nat \<Rightarrow> nat \<Rightarrow> nat \<Rightarrow> span_cursor" where
  "span_after source_position len match_len links =
     \<lparr>sp_next = source_position + 1 + len, sp_match_len = match_len, sp_links = links\<rparr>"

definition chain_span ::
    "span_cursor option \<Rightarrow> nat \<Rightarrow> nat \<Rightarrow> nat \<Rightarrow> nat \<Rightarrow> u32 option \<Rightarrow> u32 \<Rightarrow> span_cursor option" where
  "chain_span previous source_position proposed accepted match_len follow_token authoritative =
     (if proposed = 0 \<or> accepted \<noteq> proposed then None
      else if follow_token \<noteq> Some authoritative then None
      else Some (span_after source_position (proposed + 1) match_len
                  (case previous of None \<Rightarrow> 1 | Some cursor \<Rightarrow> sp_links cursor + 1)))"

section \<open>Configuring a run\<close>

record 'f policy_tuning =
  pt_ngram_draft_floor :: nat
  pt_mtp_depth_floor :: nat
  pt_mtp_depth_start :: nat
  pt_ngram_suspend_below :: 'f
  pt_mtp_suspend_below :: 'f
  pt_ewma_alpha :: 'f
  pt_backoff_tokens :: nat
  pt_backoff_cap :: nat
  pt_span_continuation :: bool
  pt_adaptive_length :: bool
  pt_ewma_backoff :: bool
  pt_eager_mtp_resync :: bool

definition policy_default :: "'f fops \<Rightarrow> 'f policy_tuning" where
  "policy_default F = \<lparr>pt_ngram_draft_floor = DEFAULT_NGRAM_DRAFT_FLOOR, pt_mtp_depth_floor = DEFAULT_MTP_DEPTH_FLOOR,
     pt_mtp_depth_start = DEFAULT_MTP_DEPTH_START, pt_ngram_suspend_below = f_lit F 4 1,
     pt_mtp_suspend_below = f_lit F 5 1, pt_ewma_alpha = f_lit F 2 1, pt_backoff_tokens = DEFAULT_BACKOFF_TOKENS,
     pt_backoff_cap = DEFAULT_BACKOFF_CAP, pt_span_continuation = True, pt_adaptive_length = True,
     pt_ewma_backoff = True, pt_eager_mtp_resync = False\<rparr>"

text \<open>The arguments are the mode and the two legacy draft-token ceilings (MTP, n-gram).\<close>

definition effective_speculative_mode :: "speculative_mode \<Rightarrow> nat \<Rightarrow> nat \<Rightarrow> speculative_mode" where
  "effective_speculative_mode mode mtp_tokens ngram_tokens =
     (case mode of
        ModeOff \<Rightarrow> (if 0 < mtp_tokens then ModeMtp else if 0 < ngram_tokens then ModeNgram else ModeOff)
      | m \<Rightarrow> m)"

definition arm_configs ::
    "'f fops \<Rightarrow> 'f policy_tuning \<Rightarrow> nat \<Rightarrow> nat \<Rightarrow> speculative_mode \<Rightarrow> bool \<Rightarrow> 'f arm_config \<times> 'f arm_config" where
  "arm_configs F tuning ngram_tokens mtp_tokens mode mtp_usable =
     (let ngram_cap = (if ngram_tokens = 0 then DEFAULT_NGRAM_DRAFT_CAP else ngram_tokens);
          ngram = (ngram_arm_config F ngram_cap)\<lparr>
            ac_enabled := allows_ngram mode \<and> 0 < ngram_cap,
            ac_floor := clamp (pt_ngram_draft_floor tuning) 1 (max ngram_cap 1),
            ac_start := ngram_cap,
            ac_adaptive := pt_adaptive_length tuning,
            ac_backoff := pt_ewma_backoff tuning,
            ac_alpha := pt_ewma_alpha tuning,
            ac_suspend_below := pt_ngram_suspend_below tuning,
            ac_backoff_tokens := pt_backoff_tokens tuning,
            ac_backoff_cap := pt_backoff_cap tuning\<rparr>;
          mtp_cap = (if mtp_tokens = 0 then DEFAULT_MTP_DEPTH_CAP else mtp_tokens);
          mtp_floor = clamp (pt_mtp_depth_floor tuning) 1 (max mtp_cap 1);
          mtp = (mtp_arm_config F mtp_cap)\<lparr>
            ac_enabled := allows_mtp mode \<and> 0 < mtp_cap \<and> mtp_usable,
            ac_floor := mtp_floor,
            ac_start := pt_mtp_depth_start tuning,
            ac_probe_len := Some mtp_floor,
            ac_adaptive := pt_adaptive_length tuning,
            ac_backoff := pt_ewma_backoff tuning,
            ac_alpha := pt_ewma_alpha tuning,
            ac_suspend_below := pt_mtp_suspend_below tuning,
            ac_backoff_tokens := pt_backoff_tokens tuning,
            ac_backoff_cap := pt_backoff_cap tuning\<rparr>
      in (ngram, mtp))"

section \<open>Reachable controller states\<close>

text \<open>
  The policy loop polls an arm at a count of committed tokens that never decreases, and
  observes a proposal only while the arm is not suspended. \<open>committed\<close> is the largest count
  seen so far.
\<close>

inductive reachable :: "'f fops \<Rightarrow> 'f arm_config \<Rightarrow> 'f arm_controller \<Rightarrow> nat \<Rightarrow> bool" for F cfg where
  start: "reachable F cfg (controller_new cfg) 0"
| polled: "reachable F cfg c n \<Longrightarrow> n \<le> m \<Longrightarrow> reachable F cfg (fst (poll c m)) m"
| observed: "reachable F cfg c n \<Longrightarrow> am_suspended_until c = None \<Longrightarrow> n \<le> m \<Longrightarrow> accepted \<le> proposed
    \<Longrightarrow> reachable F cfg (observe F c proposed accepted m) m"

inductive_cases reachable_cases [elim]: "reachable F cfg c n"

definition controller_inv :: "'f arm_config \<Rightarrow> 'f arm_controller \<Rightarrow> nat \<Rightarrow> bool" where
  "controller_inv cfg c n \<longleftrightarrow>
     am_config c = cfg \<and>
     bounded_floor cfg \<le> am_len c \<and> am_len c \<le> ac_cap cfg \<and>
     am_backoff_window c \<le> max (ac_backoff_tokens cfg) (ac_backoff_cap cfg) \<and>
     (case am_suspended_until c of None \<Rightarrow> True
      | Some until \<Rightarrow> until \<le> n + am_backoff_window c \<and> \<not> am_probing c \<and> ac_backoff cfg)"

definition stats_inv :: "'f arm_controller \<Rightarrow> bool" where
  "stats_inv c \<longleftrightarrow> (let s = am_stats c in
     st_accepted_tokens s \<le> st_proposed_tokens s \<and>
     st_proposals s \<le> st_proposed_tokens s \<and>
     st_fully_accepted s + st_rejected_immediately s \<le> st_proposals s \<and>
     st_probe_successes s \<le> st_probes s \<and>
     st_probes s + of_bool (am_probing c) + of_bool (am_suspended_until c \<noteq> None) = st_suspensions s)"

lemma bounded_floor_le_cap [simp, intro]: "bounded_floor c \<le> ac_cap c"
  by (simp add: bounded_floor_def)

lemma next_len_bounds:
  "bounded_floor cfg \<le> len \<Longrightarrow> len \<le> ac_cap cfg \<Longrightarrow>
    bounded_floor cfg \<le> next_len cfg p a len \<and> next_len cfg p a len \<le> ac_cap cfg"
  by (auto simp: next_len_def le_max_iff_disj intro: le_trans [OF div_le_dividend])

lemma controller_inv_new: "controller_inv cfg (controller_new cfg) 0"
  using clamp_bounds [OF bounded_floor_le_cap [of cfg], of "ac_start cfg"]
  by (simp add: controller_inv_def controller_new_def effective_start_def)

lemma controller_inv_poll: "controller_inv cfg c n \<Longrightarrow> n \<le> m \<Longrightarrow> controller_inv cfg (fst (poll c m)) m"
  using clamp_bounds [OF bounded_floor_le_cap [of cfg]]
  by (auto simp: controller_inv_def poll_def Let_def split: option.splits)

lemma controller_inv_observe:
  assumes "controller_inv cfg c n" and "am_suspended_until c = None" and "n \<le> m"
  shows "controller_inv cfg (observe F c p a m) m"
  using assms next_len_bounds [of cfg "am_len c" p a]
  by (auto simp: controller_inv_def observe_def suspend_def Let_def)

lemma reachable_controller_inv: "reachable F cfg c n \<Longrightarrow> controller_inv cfg c n"
  by (induction rule: reachable.induct)
    (auto intro: controller_inv_new controller_inv_poll controller_inv_observe)

lemma stats_inv_poll: "stats_inv c \<Longrightarrow> (\<And>u. am_suspended_until c = Some u \<Longrightarrow> \<not> am_probing c) \<Longrightarrow> stats_inv (fst (poll c m))"
  by (auto simp: stats_inv_def poll_def Let_def split: option.splits)

lemma stats_inv_observe:
  assumes "stats_inv c" and "am_suspended_until c = None" and "a \<le> p"
  shows "stats_inv (observe F c p a m)"
  using assms by (auto simp: stats_inv_def observe_def suspend_def count_proposal_def Let_def)

lemma reachable_stats_inv: "reachable F cfg c n \<Longrightarrow> stats_inv c"
proof (induction rule: reachable.induct)
  case start
  show ?case by (simp add: stats_inv_def controller_new_def arm_stats_default_def)
next
  case (polled c n m)
  then show ?case
    using reachable_controller_inv [OF polled(1)]
    by (intro stats_inv_poll) (auto simp: controller_inv_def)
next
  case (observed c n m a p)
  then show ?case by (intro stats_inv_observe)
qed

text \<open>A suspension is over once the committed count has grown by the window.\<close>

lemma poll_available:
  assumes "controller_inv cfg c n" and "ac_enabled cfg" and "n + max (ac_backoff_tokens cfg) (ac_backoff_cap cfg) \<le> m"
  shows "snd (poll c m)"
  using assms by (auto simp: controller_inv_def poll_def Let_def split: option.splits)

text \<open>A probe that fails: polled when its suspension ends, proposing and losing everything.\<close>

definition failed_probe :: "'f fops \<Rightarrow> nat \<Rightarrow> 'f arm_controller \<Rightarrow> 'f arm_controller" where
  "failed_probe F proposed c =
     (let until = (case am_suspended_until c of Some u \<Rightarrow> u | None \<Rightarrow> 0)
      in observe F (fst (poll c until)) proposed 0 until)"

lemma failed_probe_window:
  assumes "am_suspended_until c = Some u" and "ac_enabled (am_config c)" and "ac_backoff (am_config c)"
    and "0 < p" and "\<not> f_le F (ac_suspend_below (am_config c)) (f_div F (f_of_nat F 0) (f_of_nat F p))"
    and "ac_backoff_cap (am_config c) \<le> usize_max"
  shows "am_backoff_window (failed_probe F p c) = min (am_backoff_window c * 2) (ac_backoff_cap (am_config c))"
    and "am_config (failed_probe F p c) = am_config c"
    and "am_suspended_until (failed_probe F p c) = Some (u + am_backoff_window (failed_probe F p c))"
proof -
  have "min (saturating_mul w 2) (ac_backoff_cap (am_config c)) = min (w * 2) (ac_backoff_cap (am_config c))" for w
    using assms(6) by (simp add: saturating_mul_def min_def)
  then show "am_backoff_window (failed_probe F p c) = min (am_backoff_window c * 2) (ac_backoff_cap (am_config c))"
    "am_config (failed_probe F p c) = am_config c"
    "am_suspended_until (failed_probe F p c) = Some (u + am_backoff_window (failed_probe F p c))"
    using assms by (simp_all add: failed_probe_def poll_def observe_def suspend_def Let_def)
qed

section \<open>Properties\<close>

text \<open>
  C38. In every state a controller can reach, whatever the acceptance history and whatever
  the arithmetic of its EWMA: the draft length lies between the floor (or the cap, when that
  is lower) and the cap, the backoff window is bounded by its configuration, an enabled arm
  is available again at the latest one longest window after the last event, and the counters
  of its report are consistent.
\<close>

theorem controller_stays_in_bounds:
  assumes "reachable F cfg c n"
  shows "min (ac_floor cfg) (ac_cap cfg) \<le> am_len c \<and> am_len c \<le> ac_cap cfg \<and>
    am_backoff_window c \<le> max (ac_backoff_tokens cfg) (ac_backoff_cap cfg) \<and>
    (\<forall>m. ac_enabled cfg \<and> n + max (ac_backoff_tokens cfg) (ac_backoff_cap cfg) \<le> m \<longrightarrow> snd (poll c m)) \<and>
    stats_inv c"
  using reachable_controller_inv [OF assms] reachable_stats_inv [OF assms] poll_available [of cfg c n]
  by (auto simp: controller_inv_def bounded_floor_def)

theorem controller_stays_in_bounds_witness:
  "am_len (observe int_fops (controller_new (ngram_arm_config int_fops 7)) 7 1 8) = 4 \<and>
   stats_inv (observe int_fops (controller_new (ngram_arm_config int_fops 7)) 7 1 8)"
proof -
  let ?cfg = "ngram_arm_config int_fops 7"
  have "reachable int_fops ?cfg (observe int_fops (controller_new ?cfg) 7 1 8) 8"
    by (intro reachable.observed [OF reachable.start]) (simp_all add: controller_new_def)
  from controller_stays_in_bounds [OF this]
  have "stats_inv (observe int_fops (controller_new ?cfg) 7 1 8)" by blast
  moreover have "am_len (observe int_fops (controller_new ?cfg) 7 1 8) = 4" by code_simp
  ultimately show ?thesis by blast
qed

text \<open>
  Exponential backoff: each probe that loses everything doubles the suspension of a
  suspended arm, up to the configured cap, and lifts it only when that many more tokens have
  been committed.
\<close>

theorem failed_probes_double_the_backoff:
  assumes "am_suspended_until c = Some u" and "ac_enabled (am_config c)" and "ac_backoff (am_config c)"
    and "0 < p" and "\<not> f_le F (ac_suspend_below (am_config c)) (f_div F (f_of_nat F 0) (f_of_nat F p))"
    and "ac_backoff_cap (am_config c) \<le> usize_max"
  shows "am_backoff_window ((failed_probe F p ^^ Suc k) c) =
       min (am_backoff_window c * 2 ^ Suc k) (ac_backoff_cap (am_config c)) \<and>
     (\<exists>until. am_suspended_until ((failed_probe F p ^^ Suc k) c) = Some until \<and>
       (\<forall>m. snd (poll ((failed_probe F p ^^ Suc k) c) m) \<longleftrightarrow> until \<le> m))"
proof -
  have "am_config ((failed_probe F p ^^ Suc k) c) = am_config c \<and>
      am_suspended_until ((failed_probe F p ^^ Suc k) c) \<noteq> None \<and>
      am_backoff_window ((failed_probe F p ^^ Suc k) c) =
        min (am_backoff_window c * 2 ^ Suc k) (ac_backoff_cap (am_config c))"
  proof (induction k)
    case 0
    then show ?case using failed_probe_window [OF assms] by simp
  next
    case (Suc k)
    let ?c = "(failed_probe F p ^^ Suc k) c"
    from Suc obtain until where until: "am_suspended_until ?c = Some until" by auto
    have cfg: "am_config ?c = am_config c" using Suc by blast
    show ?case
      using failed_probe_window [OF until, where F = F and p = p] Suc assms unfolding cfg
      by (simp add: min_def mult.commute mult.left_commute)
  qed
  then show ?thesis
    using assms(2) by (auto simp: poll_def Let_def split: if_splits)
qed

definition example_suspended :: "int arm_controller" where
  "example_suspended = (controller_new (ngram_arm_config int_fops 7))\<lparr>
     am_config := (ngram_arm_config int_fops 7)\<lparr>ac_suspend_below := 1\<rparr>, am_suspended_until := Some 70\<rparr>"

theorem failed_probes_double_the_backoff_witness:
  "am_backoff_window ((failed_probe int_fops 7 ^^ 3) example_suspended) = 512 \<and>
   am_backoff_window ((failed_probe int_fops 7 ^^ 5) example_suspended) = 512"
proof -
  have "am_suspended_until example_suspended = Some 70"
    "ac_enabled (am_config example_suspended)" "ac_backoff (am_config example_suspended)"
    "(0::nat) < 7" "\<not> f_le int_fops (ac_suspend_below (am_config example_suspended))
       (f_div int_fops (f_of_nat int_fops 0) (f_of_nat int_fops 7))"
    "ac_backoff_cap (am_config example_suspended) \<le> usize_max"
    by (simp_all add: example_suspended_def ngram_arm_config_def DEFAULT_BACKOFF_CAP_def usize_max_def
        int_fops_def controller_new_def)
  note doubled = failed_probes_double_the_backoff [OF this]
  have "am_backoff_window example_suspended = 64" "ac_backoff_cap (am_config example_suspended) = 512"
    by code_simp+
  then show ?thesis using doubled [of 2] doubled [of 4] by (simp add: eval_nat_numeral)
qed

end
