(* ===== verification/Runtime.thy ===== *)
theory Runtime
  imports Mtp Ngram Controller
begin

text \<open>
  The session of one sequence (\<open>src/runtime.rs\<close>, \<open>QuantizedRuntime\<close>): prefill, reset, session
  images, the carried hidden row and the retained gap of the predictor, and the plain
  decoding loop \<open>generate_tokens_with_callback\<close>. The speculative loop is in \<open>Policy\<close>.

  A method is an action on the session: the runtime's fields and the state of the caller's
  output sink. What a session is built on and never changes (model, predictor, tokenizer,
  end-of-sequence ids, random generator) is the record \<open>env\<close>. Clocks, profiles, counters of
  the report and the routing trace are not modelled, except the two draft counters that
  \<open>last_run_metrics\<close> reports for a halted turn.
\<close>

section \<open>The session\<close>

record ('f, 'r) env =
  ev_fops :: "'f fops"
  ev_threads :: nat
  ev_model :: "'f model"
  ev_mtp :: "'f mtp_head option"
  ev_hidden_size :: nat
  ev_eos :: "u32 list option"
  ev_encode :: "string \<Rightarrow> bool \<Rightarrow> u32 list option"
  ev_decode :: "u32 list \<Rightarrow> string option"
  ev_seed_rng :: "u64 \<Rightarrow> 'r"
  ev_draw01 :: "'r \<Rightarrow> 'f \<times> 'r"
  ev_rank :: "(nat \<times> 'f) list \<Rightarrow> (nat \<times> 'f) list"

record 'f generation_options =
  go_max_new_tokens :: nat
  go_sampling :: "'f sampling_config"
  go_stop_tokens :: "u32 list"
  go_speculative_mode :: speculative_mode
  go_policy :: "'f policy_tuning"
  go_mtp_draft_tokens :: nat
  go_mtp_min_margin :: "'f option"
  go_mtp_draft_vocab :: nat
  go_mtp_min_confidence :: 'f
  go_ngram_draft_tokens :: nat
  go_ngram_min_match :: nat
  go_thinking_budget :: "nat option"
  go_add_special_tokens :: bool

record 'f runtime =
  rt_state :: "'f model_state"
  rt_pending :: "u32 option"
  rt_mtp_state :: "'f attn_state option"
  rt_last_hidden :: "'f list option"
  rt_synced :: nat
  rt_gap_tokens :: "u32 list"
  rt_gap_hidden :: "'f list"
  rt_gap_prior :: "'f list option"
  rt_draft_head :: "nat option"
  rt_gap_valid :: bool
  rt_snapshots :: "'f state_snapshots"
  rt_ngram :: ngram_index
  rt_drafted :: nat
  rt_accepted :: nat

type_synonym ('f, 'c) session = "'f runtime \<times> 'c"
type_synonym ('f, 'c, 'a) run_action = "(('f, 'c) session, run_error, 'a) action"

text \<open>The output sink: its next state, and whether it took the token.\<close>

type_synonym 'c sink = "u32 \<Rightarrow> 'c \<Rightarrow> 'c \<times> bool"

definition upd :: "('f runtime \<Rightarrow> 'f runtime) \<Rightarrow> ('f, 'c, unit) run_action" where
  "upd f = modifyS (\<lambda>(rt, c). (f rt, c))"

definition get :: "('f runtime \<Rightarrow> 'a) \<Rightarrow> ('f, 'c, 'a) run_action" where
  "get f = readS (\<lambda>(rt, c). f rt)"

lemma upd_apply [simp, action_simps]: "upd f (rt, c) = ((f rt, c), Inr ())"
  by (simp add: upd_def)

lemma get_apply [simp, action_simps]: "get f (rt, c) = ((rt, c), Inr (f rt))"
  by (simp add: get_def)

lemma bindS_upd [simp, action_simps]: "bindS (upd f) k (rt, c) = k () (f rt, c)"
  by (simp add: bindS_def)

lemma bindS_get [simp, action_simps]: "bindS (get f) k (rt, c) = k (f rt) (rt, c)"
  by (simp add: bindS_def)

text \<open>Run a pass of the model on the session's state, kept also when the pass fails.\<close>

definition on_state :: "('f model_state \<Rightarrow> 'f model_state \<times> (model_error + 'a)) \<Rightarrow> ('f, 'c, 'a) run_action" where
  "on_state f = (\<lambda>(rt, c). case f (rt_state rt) of (st, r) \<Rightarrow> ((rt\<lparr>rt_state := st\<rparr>, c), lift_model r))"

definition runtime_new :: "('f, 'r) env \<Rightarrow> 'f runtime" where
  "runtime_new E = \<lparr>rt_state = model_new_state (ev_fops E) (ev_model E), rt_pending = None,
     rt_mtp_state = map_option (\<lambda>_. mtp_new_state) (ev_mtp E), rt_last_hidden = None, rt_synced = 0,
     rt_gap_tokens = [], rt_gap_hidden = [], rt_gap_prior = None, rt_draft_head = None, rt_gap_valid = True,
     rt_snapshots = empty_snapshots, rt_ngram = new_index, rt_drafted = 0, rt_accepted = 0\<rparr>"

definition reset :: "('f, 'r) env \<Rightarrow> 'f runtime \<Rightarrow> 'f runtime" where
  "reset E rt = rt\<lparr>rt_state := model_new_state (ev_fops E) (ev_model E), rt_pending := None,
     rt_mtp_state := map_option (\<lambda>_. mtp_new_state) (ev_mtp E), rt_last_hidden := None, rt_synced := 0,
     rt_gap_tokens := [], rt_gap_hidden := [], rt_gap_prior := None, rt_gap_valid := True,
     rt_ngram := ngram_clear (rt_ngram rt)\<rparr>"

definition context_tokens :: "'f runtime \<Rightarrow> nat" where
  "context_tokens rt = ms_position (rt_state rt) + of_bool (rt_pending rt \<noteq> None)"

definition is_stop_token :: "('f, 'r) env \<Rightarrow> 'f generation_options \<Rightarrow> u32 \<Rightarrow> bool" where
  "is_stop_token E opts token \<longleftrightarrow>
     (case ev_eos E of None \<Rightarrow> False | Some ids \<Rightarrow> token \<in> set ids) \<or> token \<in> set (go_stop_tokens opts)"

definition continuation_input :: "u32 list \<Rightarrow> u32 option \<Rightarrow> u32 list" where
  "continuation_input prompt pending = (case pending of None \<Rightarrow> prompt | Some t \<Rightarrow> t # prompt)"

text \<open>Hand a token to the sink; when it fails, the token is left pending.\<close>

definition emit :: "'c sink \<Rightarrow> u32 \<Rightarrow> ('f, 'c, unit) run_action" where
  "emit cb token = (\<lambda>(rt, c). case cb token c of (c', ok) \<Rightarrow>
     if ok then ((rt, c'), Inr ()) else ((rt\<lparr>rt_pending := Some token\<rparr>, c'), Inl CallbackFailure))"

definition last_hidden_row :: "'f list list \<Rightarrow> run_error + 'f list" where
  "last_hidden_row hidden = bindE (ensure (hidden \<noteq> []) HiddenShape) (\<lambda>_. Inr (last hidden))"

definition nth_hidden_row :: "'f list list \<Rightarrow> nat \<Rightarrow> run_error + 'f list" where
  "nth_hidden_row hidden row = bindE (ensure (row < length hidden) HiddenShape) (\<lambda>_. Inr (hidden ! row))"

section \<open>The predictor's gap\<close>

definition retain_mtp_gap :: "('f, 'r) env \<Rightarrow> u32 list \<Rightarrow> 'f list list \<Rightarrow> 'f list option \<Rightarrow> ('f, 'c, unit) run_action" where
  "retain_mtp_gap E tokens hidden prior =
     (if tokens = [] then returnS ()
      else bindS (ensureS (length hidden = length tokens \<and> (\<forall>row \<in> set hidden. length row = ev_hidden_size E)) HiddenShape) (\<lambda>_.
      upd (\<lambda>rt. let rt1 = (if rt_gap_tokens rt = [] then rt\<lparr>rt_gap_prior := prior\<rparr> else rt)
                in rt1\<lparr>rt_gap_tokens := rt_gap_tokens rt1 @ tokens,
                       rt_gap_hidden := rt_gap_hidden rt1 @ concat hidden\<rparr>)))"

definition clear_mtp_gap :: "'f runtime \<Rightarrow> 'f runtime" where
  "clear_mtp_gap rt = rt\<lparr>rt_gap_tokens := [], rt_gap_hidden := [], rt_gap_prior := None\<rparr>"

definition mtp_truncate :: "nat \<Rightarrow> ('f, 'c, unit) run_action" where
  "mtp_truncate pos = (\<lambda>(rt, c). case rt_mtp_state rt of
       None \<Rightarrow> ((rt, c), Inr ())
     | Some st \<Rightarrow> (case attn_truncate st pos of
           Inl e \<Rightarrow> ((rt, c), Inl (ModelFailure e))
         | Inr st' \<Rightarrow> ((rt\<lparr>rt_mtp_state := Some st'\<rparr>, c), Inr ())))"

definition on_mtp :: "('f mtp_head \<Rightarrow> 'f attn_state \<Rightarrow> 'f attn_state \<times> (model_error + 'a)) \<Rightarrow> ('f, 'r) env
    \<Rightarrow> ('f, 'c, 'a) run_action" where
  "on_mtp f E = (\<lambda>(rt, c). case (ev_mtp E, rt_mtp_state rt) of
       (Some H, Some st) \<Rightarrow> (case f H st of (st', r) \<Rightarrow> ((rt\<lparr>rt_mtp_state := Some st'\<rparr>, c), lift_model r))
     | _ \<Rightarrow> ((rt, c), Inl NoPredictor))"

definition synchronize_mtp ::
    "('f, 'r) env \<Rightarrow> nat \<Rightarrow> 'f list option \<Rightarrow> u32 list \<Rightarrow> 'f list list \<Rightarrow> ('f, 'c, unit) run_action" where
  "synchronize_mtp E pos previous tokens target_hidden =
     bindS (liftS (shifted_hidden_inputs (ev_fops E) pos previous target_hidden (length tokens) (ev_hidden_size E))) (\<lambda>inputs.
     bindS (get rt_mtp_state) (\<lambda>state.
     case state of
       None \<Rightarrow> failS NoPredictor
     | Some st \<Rightarrow>
         bindS (ensureS (pos \<le> as_positions st) PredictorBehind) (\<lambda>_.
         bindS (mtp_truncate pos) (\<lambda>_.
         bindS (on_mtp (\<lambda>H st. mtp_forward (ev_fops E) (ev_threads E) H tokens inputs st False) E) (\<lambda>_.
         returnS ())))))"

definition catch_up_mtp :: "('f, 'r) env \<Rightarrow> ('f, 'c, nat) run_action" where
  "catch_up_mtp E =
     bindS (get (\<lambda>rt. (rt_gap_tokens rt, rt_gap_hidden rt, rt_gap_prior rt, rt_synced rt)))
       (\<lambda>(tokens, hidden, prior, synced).
     let rows = length tokens in
     if rows = 0 then returnS 0
     else bindS (upd clear_mtp_gap) (\<lambda>_.
          bindS (ensureS (length hidden = rows * ev_hidden_size E) GapShape) (\<lambda>_.
          bindS (synchronize_mtp E synced prior tokens (chunks (ev_hidden_size E) hidden)) (\<lambda>_.
          bindS (upd (\<lambda>rt. rt\<lparr>rt_synced := rt_synced rt + rows\<rparr>)) (\<lambda>_.
          returnS rows)))))"

datatype gap_after_rollback = Retain nat | TruncatePredictor | Unrecoverable

definition gap_after_rollback :: "nat \<Rightarrow> nat \<Rightarrow> nat \<Rightarrow> gap_after_rollback" where
  "gap_after_rollback synced_position gap_len pos =
     (if pos < synced_position then TruncatePredictor
      else let retained = pos - synced_position
           in if retained \<le> gap_len then Retain retained else Unrecoverable)"

definition truncate_mtp_gap :: "('f, 'r) env \<Rightarrow> nat \<Rightarrow> ('f, 'c, unit) run_action" where
  "truncate_mtp_gap E pos =
     bindS (get (\<lambda>rt. gap_after_rollback (rt_synced rt) (length (rt_gap_tokens rt)) pos)) (\<lambda>gap.
     case gap of
       Retain retained \<Rightarrow>
         upd (\<lambda>rt. rt\<lparr>rt_gap_tokens := take retained (rt_gap_tokens rt),
                       rt_gap_hidden := take (retained * ev_hidden_size E) (rt_gap_hidden rt),
                       rt_gap_prior := (if retained = 0 then None else rt_gap_prior rt)\<rparr>)
     | TruncatePredictor \<Rightarrow>
         bindS (mtp_truncate pos) (\<lambda>_. upd (\<lambda>rt. clear_mtp_gap (rt\<lparr>rt_synced := pos\<rparr>)))
     | Unrecoverable \<Rightarrow> upd (\<lambda>rt. clear_mtp_gap (rt\<lparr>rt_gap_valid := False\<rparr>)))"

definition mtp_arm_ready :: "'f runtime \<Rightarrow> bool" where
  "mtp_arm_ready rt \<longleftrightarrow> rt_gap_valid rt
     \<and> rt_synced rt + length (rt_gap_tokens rt) = ms_position (rt_state rt)
     \<and> (ms_position (rt_state rt) = 0 \<or> rt_last_hidden rt \<noteq> None)"

section \<open>Prefill\<close>

definition PREFILL_PASS_ROWS :: nat where "PREFILL_PASS_ROWS = 512"

fun prefill_passes ::
    "('f, 'r) env \<Rightarrow> bool \<Rightarrow> 'f list option \<Rightarrow> u32 list list \<Rightarrow> 'f forward_output option
      \<Rightarrow> ('f, 'c, 'f forward_output option) run_action" where
  "prefill_passes E track prior [] last_pass = returnS last_pass"
| "prefill_passes E track prior (pass # passes) last_pass =
     bindS (on_state (\<lambda>st. forward_detailed_logits (ev_fops E) (ev_threads E) (ev_model E) pass st LastRow)) (\<lambda>out.
     bindS (if track then retain_mtp_gap E pass (fo_hidden out) prior else returnS ()) (\<lambda>_.
     prefill_passes E track prior passes (Some out)))"

definition prefill_in_passes :: "('f, 'r) env \<Rightarrow> u32 list \<Rightarrow> bool \<Rightarrow> ('f, 'c, 'f forward_output) run_action" where
  "prefill_in_passes E tokens track =
     bindS (get rt_last_hidden) (\<lambda>prior.
     bindS (prefill_passes E track prior (chunks PREFILL_PASS_ROWS tokens) None) (\<lambda>last_pass.
     case last_pass of None \<Rightarrow> failS EmptyPrefill | Some out \<Rightarrow> returnS out))"

text \<open>The index mirrors the context or is reseeded from the tokens of the turn.\<close>

definition index_prompt :: "nat \<Rightarrow> u32 list \<Rightarrow> u32 list \<Rightarrow> 'f runtime \<Rightarrow> 'f runtime" where
  "index_prompt context_before prompt evaluated rt =
     rt\<lparr>rt_ngram := (if length (ng_tokens (rt_ngram rt)) = context_before
                     then Ngram.extend (rt_ngram rt) prompt
                     else Ngram.extend (ngram_clear (rt_ngram rt)) evaluated)\<rparr>"

definition prefill_tokens :: "('f, 'r) env \<Rightarrow> u32 list \<Rightarrow> bool \<Rightarrow> ('f, 'c, unit) run_action" where
  "prefill_tokens E tokens track =
     bindS (ensureS (tokens \<noteq> []) EmptyPrefill) (\<lambda>_.
     bindS (get (\<lambda>rt. (rt_pending rt, context_tokens rt))) (\<lambda>(carried, context_before).
     let evaluated = continuation_input tokens carried in
     bindS (upd (\<lambda>rt. index_prompt context_before tokens evaluated (rt\<lparr>rt_pending := None\<rparr>))) (\<lambda>_.
     bindS (upd (\<lambda>rt. let valid = track \<and> rt_gap_valid rt
                       in (if valid then rt else clear_mtp_gap rt)\<lparr>rt_gap_valid := valid\<rparr>)) (\<lambda>_.
     bindS (get rt_gap_valid) (\<lambda>valid.
     bindS (prefill_in_passes E evaluated valid) (\<lambda>out.
     bindS (liftS (last_hidden_row (fo_hidden out))) (\<lambda>row.
     bindS (upd (\<lambda>rt. rt\<lparr>rt_last_hidden := Some row\<rparr>)) (\<lambda>_.
     bindS (get (\<lambda>rt. rt_gap_valid rt \<and> rt_mtp_state rt \<noteq> None)) (\<lambda>sync.
     if sync then bindS (catch_up_mtp E) (\<lambda>_. returnS ()) else returnS ())))))))))"

section \<open>Session images\<close>

record 'f session_image =
  si_tokens :: "u32 list"
  si_model :: "'f state_image"
  si_mtp :: "'f attn_image option"
  si_last_hidden :: "'f list option"

definition images_mtp_state :: "'f runtime \<Rightarrow> bool" where
  "images_mtp_state rt \<longleftrightarrow> rt_mtp_state rt \<noteq> None \<and> rt_synced rt = ms_position (rt_state rt)"

definition session_image :: "u32 list \<Rightarrow> 'f runtime \<Rightarrow> run_error + 'f session_image" where
  "session_image tokens rt =
     bindE (ensure (rt_pending rt = None) PendingUnevaluated) (\<lambda>_.
     bindE (ensure (length tokens = ms_position (rt_state rt)) ImageTokens) (\<lambda>_.
     Inr \<lparr>si_tokens = tokens, si_model = model_image (rt_state rt),
          si_mtp = (if images_mtp_state rt then map_option attn_image (rt_mtp_state rt) else None),
          si_last_hidden = rt_last_hidden rt\<rparr>))"

definition restore_session :: "('f, 'r) env \<Rightarrow> 'f session_image \<Rightarrow> ('f, 'c, unit) run_action" where
  "restore_session E im =
     bindS (ensureS (length (si_tokens im) = im_position (si_model im)) ImageTokens) (\<lambda>_.
     bindS (on_state (\<lambda>st. model_restore_image st (si_model im))) (\<lambda>_.
     bindS (upd (\<lambda>rt. (clear_mtp_gap (rt\<lparr>rt_pending := None\<rparr>))\<lparr>rt_last_hidden := si_last_hidden im\<rparr>)) (\<lambda>_.
     bindS (get rt_mtp_state) (\<lambda>live.
     bindS (case (ev_mtp E, si_mtp im, live) of
         (Some _, Some saved, Some st) \<Rightarrow>
           bindS (liftS (lift_model (attn_restore_image st saved))) (\<lambda>st'.
           bindS (upd (\<lambda>rt. rt\<lparr>rt_mtp_state := Some st'\<rparr>)) (\<lambda>_.
           bindS (ensureS (as_positions st' = im_position (si_model im)) ImagePredictor) (\<lambda>_.
           returnS True)))
       | _ \<Rightarrow> bindS (upd (\<lambda>rt. rt\<lparr>rt_mtp_state := map_option (\<lambda>_. mtp_new_state) (ev_mtp E)\<rparr>)) (\<lambda>_. returnS False))
       (\<lambda>restored.
     upd (\<lambda>rt. rt\<lparr>rt_synced := (if restored then im_position (si_model im) else 0),
                   rt_gap_valid := restored \<and> rt_last_hidden rt \<noteq> None,
                   rt_ngram := Ngram.extend (ngram_clear (rt_ngram rt)) (si_tokens im)\<rparr>))))))"

section \<open>Plain decoding\<close>

definition lift_tokenizer :: "'a option \<Rightarrow> run_error + 'a" where
  "lift_tokenizer x = (case x of None \<Rightarrow> Inl TokenizerFailure | Some y \<Rightarrow> Inr y)"

lemma lift_tokenizer_Inr [simp]: "lift_tokenizer x = Inr y \<longleftrightarrow> x = Some y"
  by (simp add: lift_tokenizer_def split: option.split)

lemma lift_tokenizer_Inl [simp]: "lift_tokenizer x = Inl e \<longleftrightarrow> x = None \<and> e = TokenizerFailure"
  by (auto simp: lift_tokenizer_def split: option.split)

definition turn_thinking :: "('f, 'r) env \<Rightarrow> 'f generation_options \<Rightarrow> run_error + thinking option" where
  "turn_thinking E opts = thinking_from_tokenizer (\<lambda>text. lift_tokenizer (ev_encode E text False)) TokenizerFailure
     (go_thinking_budget opts)"

lemma turn_thinking_silent [simp]: "turn_thinking E opts \<noteq> Inl CallbackFailure"
  by (auto simp: turn_thinking_def thinking_from_tokenizer_def bindE_Inl_iff ensure_def split: option.splits if_splits)

definition rt_forward :: "('f, 'r) env \<Rightarrow> u32 list \<Rightarrow> ('f, 'c, 'f list list) run_action" where
  "rt_forward E tokens =
     bindS (on_state (\<lambda>st. forward_detailed_logits (ev_fops E) (ev_threads E) (ev_model E) tokens st LastRow)) (\<lambda>out.
     returnS (fo_logits out))"

text \<open>The loop both forced closures share: emit a token of the closure, then evaluate it.\<close>

fun close_loop ::
    "(u32 \<Rightarrow> ('f, 'c, 'l) run_action) \<Rightarrow> u32 list \<Rightarrow> 'l option \<Rightarrow> ('f, 'c, 'l option) run_action" where
  "close_loop step [] logits = returnS logits"
| "close_loop step (token # tokens) logits =
     bindS (step token) (\<lambda>l. close_loop step tokens (Some l))"

definition force_close ::
    "(u32 \<Rightarrow> ('f, 'c, 'l) run_action) \<Rightarrow> (u32 \<Rightarrow> ('f, 'c, unit) run_action) \<Rightarrow> u32 option \<Rightarrow> u32 list
      \<Rightarrow> ('f, 'c, 'l) run_action" where
  "force_close evaluate announce pending closure =
     bindS (case pending of None \<Rightarrow> returnS None | Some t \<Rightarrow> bindS (evaluate t) (\<lambda>l. returnS (Some l))) (\<lambda>logits.
     bindS (close_loop (\<lambda>t. bindS (announce t) (\<lambda>_. evaluate t)) closure logits) (\<lambda>logits.
     case logits of None \<Rightarrow> failS NoClosureLogits | Some l \<Rightarrow> returnS l))"

definition force_close_thinking_target_only ::
    "('f, 'r) env \<Rightarrow> 'c sink \<Rightarrow> u32 option \<Rightarrow> u32 list \<Rightarrow> ('f, 'c, 'f list list) run_action" where
  "force_close_thinking_target_only E cb pending closure =
     force_close (\<lambda>t. rt_forward E [t]) (emit cb) pending closure"

definition sample_row ::
    "('f, 'r) env \<Rightarrow> ('f, 'r) sampler \<Rightarrow> 'f list list \<Rightarrow> ('f, 'r) sampler \<times> (run_error + u32)" where
  "sample_row E s logits =
     (case sample (ev_fops E) (ev_draw01 E) (ev_rank E) s (last logits) of (s', r) \<Rightarrow> (s', lift_sampling r))"

record gen_result =
  gr_generated :: "u32 list"
  gr_pending :: "u32 option"
  gr_thinking :: "thinking option"

function plain_loop ::
    "('f, 'r) env \<Rightarrow> 'f generation_options \<Rightarrow> 'c sink \<Rightarrow> 'f list list \<Rightarrow> u32 list \<Rightarrow> u32 option \<Rightarrow> thinking option
      \<Rightarrow> ('f, 'r) sampler \<Rightarrow> ('f, 'c, gen_result) run_action" where
  "plain_loop E opts cb logits g pending th sampler s =
     (if go_max_new_tokens opts \<le> length g
      then (s, Inr \<lparr>gr_generated = g, gr_pending = pending, gr_thinking = th\<rparr>)
      else case sample_row E sampler logits of
        (sampler1, Inl e) \<Rightarrow> (s, Inl e)
      | (sampler1, Inr token) \<Rightarrow>
          (case emit cb token s of
             (s1, Inl e) \<Rightarrow> (s1, Inl e)
           | (s1, Inr _) \<Rightarrow>
               (let g1 = g @ [token]; stop = is_stop_token E opts token in
                case observe_opt th token (\<not> stop) of (th1, boundary) \<Rightarrow>
                if stop then (s1, Inr \<lparr>gr_generated = g1, gr_pending = Some token, gr_thinking = th1\<rparr>)
                else if boundary = ForceClosure
                then (case force_close_thinking_target_only E cb (Some token) (closure_of th1) s1 of
                        (s2, Inl e) \<Rightarrow> (s2, Inl e)
                      | (s2, Inr logits1) \<Rightarrow>
                          (let g2 = g1 @ closure_of th1 in
                           if go_max_new_tokens opts \<le> length g2
                           then (s2, Inr \<lparr>gr_generated = g2, gr_pending = None, gr_thinking = th1\<rparr>)
                           else plain_loop E opts cb logits1 g2 None th1 sampler1 s2))
                else if go_max_new_tokens opts \<le> length g1
                then (s1, Inr \<lparr>gr_generated = g1, gr_pending = Some token, gr_thinking = th1\<rparr>)
                else case rt_forward E [token] s1 of
                       (s2, Inl e) \<Rightarrow> (s2, Inl e)
                     | (s2, Inr logits1) \<Rightarrow> plain_loop E opts cb logits1 g1 None th1 sampler1 s2)))"
  by pat_completeness auto
termination
  by (relation "measure (\<lambda>(_, opts, _, _, g, _, _, _, _). go_max_new_tokens opts - length g)") auto

declare plain_loop.simps [simp del]

text \<open>What a turn returns: the token lists, the text and the thinking counters.\<close>

record generation_result =
  qr_prompt :: "u32 list"
  qr_evaluated :: "u32 list"
  qr_generated :: "u32 list"
  qr_text :: string
  qr_thinking :: "thinking option"

definition finish_turn ::
    "('f, 'r) env \<Rightarrow> u32 list \<Rightarrow> u32 list \<Rightarrow> gen_result \<Rightarrow> ('f, 'c, generation_result) run_action" where
  "finish_turn E prompt evaluated r =
     bindS (upd (\<lambda>rt. rt\<lparr>rt_pending := gr_pending r\<rparr>)) (\<lambda>_.
     bindS (liftS (lift_tokenizer (ev_decode E (gr_generated r)))) (\<lambda>text.
     returnS \<lparr>qr_prompt = prompt, qr_evaluated = evaluated, qr_generated = gr_generated r, qr_text = text,
              qr_thinking = gr_thinking r\<rparr>))"

definition generate_plain ::
    "('f, 'r) env \<Rightarrow> 'f generation_options \<Rightarrow> 'c sink \<Rightarrow> u32 list \<Rightarrow> ('f, 'c, generation_result) run_action" where
  "generate_plain E opts cb prompt =
     bindS (ensureS (0 < go_max_new_tokens opts) NoNewTokens) (\<lambda>_.
     bindS (ensureS (prompt \<noteq> []) EmptyPrompt) (\<lambda>_.
     bindS (get rt_pending) (\<lambda>carried.
     let evaluated = continuation_input prompt carried in
     bindS (upd (\<lambda>rt. rt\<lparr>rt_pending := None\<rparr>)) (\<lambda>_.
     bindS (liftS (lift_sampling (sampler_new (ev_fops E) (ev_seed_rng E) (go_sampling opts)))) (\<lambda>sampler.
     bindS (upd (\<lambda>rt. rt\<lparr>rt_drafted := 0, rt_accepted := 0\<rparr>)) (\<lambda>_.
     bindS (rt_forward E evaluated) (\<lambda>logits.
     bindS (liftS (turn_thinking E opts)) (\<lambda>thinking.
     case should_force_opt thinking of (th, forced) \<Rightarrow>
     bindS (if forced then force_close_thinking_target_only E cb None (closure_of th) else returnS logits) (\<lambda>logits.
     bindS (plain_loop E opts cb logits (if forced then closure_of th else []) None th sampler) (\<lambda>r.
     finish_turn E prompt evaluated r))))))))))"

end
