(* ===== verification/Policy.thy ===== *)
theory Policy
  imports Runtime
begin

text \<open>
  Speculative decoding (\<open>src/runtime.rs\<close>): the loop \<open>generate_speculative_policy\<close> with its two
  draft sources, the verification pass, acceptance, rollback and the emission of a pass's
  tokens, and \<open>generate_tokens_with_callback\<close>, which picks a decoding path. The theorems
  about it are in \<open>Policy_Correct\<close>.

  One step of the loop is the action \<open>policy_step\<close>; the variables that live across steps are
  the record \<open>policy_locals\<close>. The report counters, the step records and the clocks are left
  out; they are written and never read by the loop.
\<close>

section \<open>Verification\<close>

definition verify_rows ::
    "('f, 'r) env \<Rightarrow> u32 list \<Rightarrow> bool \<Rightarrow> ('f, 'c, 'f forward_output) run_action" where
  "verify_rows E tokens snapshotted =
     (if snapshotted
      then (\<lambda>(rt, c). case forward_detailed_with_snapshots (ev_fops E) (ev_threads E) (ev_model E) tokens
                (rt_state rt) (rt_snapshots rt) of
              (st, sn, r) \<Rightarrow> ((rt\<lparr>rt_state := st, rt_snapshots := sn\<rparr>, c), lift_model r))
      else on_state (forward_detailed (ev_fops E) (ev_threads E) (ev_model E) tokens))"

definition rollback_to :: "nat \<Rightarrow> ('f, 'c, unit) run_action" where
  "rollback_to rows = (\<lambda>(rt, c). case rollback (rt_state rt) (rt_snapshots rt) rows of
     (st, r) \<Rightarrow> ((rt\<lparr>rt_state := st\<rparr>, c), lift_model r))"

definition verify_or_undo ::
    "('f, 'r) env \<Rightarrow> u32 list \<Rightarrow> bool \<Rightarrow> ('f, 'c, 'f forward_output) run_action" where
  "verify_or_undo E tokens snapshotted s =
     (case verify_rows E tokens snapshotted s of
        (s1, Inr out) \<Rightarrow> (s1, Inr out)
      | (s1, Inl e) \<Rightarrow> if snapshotted then bindS (rollback_to 0) (\<lambda>_. failS e) s1 else (s1, Inl e))"

fun accept_loop :: "'f fops \<Rightarrow> u32 list \<Rightarrow> 'f list list \<Rightarrow> sampling_error + nat" where
  "accept_loop F (d # drafts) (row # rows) =
     bindE (argmax F row) (\<lambda>i. if word_of_nat i = d
       then bindE (accept_loop F drafts rows) (\<lambda>n. Inr (Suc n)) else Inr 0)"
| "accept_loop F drafts rows = Inr 0"

definition accepted_draft_prefix :: "'f fops \<Rightarrow> u32 list \<Rightarrow> 'f list list \<Rightarrow> run_error + nat" where
  "accepted_draft_prefix F drafts logits =
     bindE (ensure (length drafts < length logits) VerifierRows) (\<lambda>_. lift_sampling (accept_loop F drafts logits))"

definition speculative_committed_outputs :: "u32 list \<Rightarrow> nat \<Rightarrow> u32 \<Rightarrow> (u32 \<times> bool) list" where
  "speculative_committed_outputs drafts accepted authoritative =
     map (\<lambda>t. (t, True)) (take accepted drafts) @ [(authoritative, False)]"

definition halted_pass_rows :: "nat \<Rightarrow> nat \<Rightarrow> nat" where
  "halted_pass_rows output_index accepted = 1 + min output_index accepted"

section \<open>Drafting with the predictor\<close>

record 'f mtp_candidate =
  dc_token :: u32
  dc_margin :: 'f
  dc_probability :: 'f

fun mtp_draft_loop ::
    "('f, 'r) env \<Rightarrow> 'f generation_options \<Rightarrow> nat option \<Rightarrow> nat \<Rightarrow> u32 \<Rightarrow> 'f list \<Rightarrow> 'f mtp_candidate list
      \<Rightarrow> ('f, 'c, 'f mtp_candidate list \<times> bool) run_action" where
  "mtp_draft_loop E opts head 0 token hidden drafts = returnS (drafts, False)"
| "mtp_draft_loop E opts head (Suc n) token hidden drafts =
     bindS (on_mtp (\<lambda>H st. forward_with_head (ev_fops E) (ev_threads E) H [token] [hidden] st True
              (map_option (draft_head H) head)) E) (\<lambda>out.
     bindS (case mo_logits out of None \<Rightarrow> failS HiddenShape | Some rows \<Rightarrow> returnS (hd rows)) (\<lambda>logits.
     bindS (liftS (top1_with_scores (ev_fops E) logits)) (\<lambda>(top, margin, probability).
     let draft = word_of_nat top in
     if is_stop_token E opts draft then returnS (drafts, False)
     else if f_lt (ev_fops E) probability (go_mtp_min_confidence opts) then returnS (drafts, True)
     else mtp_draft_loop E opts head n draft (hd (mo_hidden out))
            (drafts @ [\<lparr>dc_token = draft, dc_margin = margin, dc_probability = probability\<rparr>]))))"

definition draft_mtp ::
    "('f, 'r) env \<Rightarrow> 'f generation_options \<Rightarrow> u32 \<Rightarrow> 'f list \<Rightarrow> nat \<Rightarrow> ('f, 'c, 'f mtp_candidate list \<times> bool) run_action" where
  "draft_mtp E opts seed target_hidden max_drafts =
     bindS (ensureS (length target_hidden = ev_hidden_size E) HiddenShape) (\<lambda>_.
     bindS (get rt_draft_head) (\<lambda>head.
     mtp_draft_loop E opts head max_drafts seed target_hidden []))"

definition mtp_proposal ::
    "('f, 'r) env \<Rightarrow> 'f generation_options \<Rightarrow> nat \<Rightarrow> u32 \<Rightarrow> ('f, 'c, u32 list) run_action" where
  "mtp_proposal E opts depth seed =
     (if depth = 0 then returnS []
      else bindS (catch_up_mtp E) (\<lambda>_.
        bindS (get (\<lambda>rt. case rt_mtp_state rt of None \<Rightarrow> False
                 | Some st \<Rightarrow> as_positions st = ms_position (rt_state rt))) (\<lambda>aligned.
        bindS (ensureS aligned PredictorStale) (\<lambda>_.
        bindS (get rt_last_hidden) (\<lambda>carry.
        case carry of
          None \<Rightarrow> failS CarryMissing
        | Some prior_hidden \<Rightarrow>
            bindS (draft_mtp E opts seed prior_hidden depth) (\<lambda>(candidates, stopped_early).
            bindS (upd (\<lambda>rt. rt\<lparr>rt_drafted := rt_drafted rt + length candidates\<rparr>)) (\<lambda>_.
            let verified = (case go_mtp_min_margin opts of
                  None \<Rightarrow> candidates
                | Some threshold \<Rightarrow> takeWhile (\<lambda>d. f_le (ev_fops E) threshold (dc_margin d)) candidates)
            in returnS (map dc_token verified))))))))"

section \<open>Choosing a proposal\<close>

definition ngram_proposal ::
    "('f, 'r) env \<Rightarrow> 'f generation_options \<Rightarrow> ngram_index \<Rightarrow> bool \<Rightarrow> nat \<Rightarrow> span_cursor option \<Rightarrow> nat
      \<Rightarrow> step_arm \<times> ngram_draft option" where
  "ngram_proposal E opts ix available len span budget =
     (let stop = is_stop_token E opts;
          requested = (if available then max (min len budget) 1 else 1);
          key_draft = draft ix requested (go_ngram_min_match opts) stop;
          span_draft = (if pt_span_continuation (go_policy opts) \<and> available \<and> 0 < budget
            then (case span of None \<Rightarrow> None
                  | Some cursor \<Rightarrow> continue_from ix (sp_next cursor) (min len budget) (sp_match_len cursor) stop)
            else None)
      in if available \<and> 0 < budget
         then (case span_draft of
                 Some d \<Rightarrow> (ArmNgramSpan, Some d)
               | None \<Rightarrow> (case key_draft of Some d \<Rightarrow> (ArmNgram, Some d) | None \<Rightarrow> (ArmPlain, None)))
         else (ArmPlain, None))"

definition draft_budget :: "'f generation_options \<Rightarrow> u32 list \<Rightarrow> thinking option \<Rightarrow> nat" where
  "draft_budget opts g th =
     (let budget = go_max_new_tokens opts - length g - 1
      in case remaining_opt th of None \<Rightarrow> budget | Some r \<Rightarrow> min budget r)"

section \<open>Committing tokens\<close>

definition push_token :: "u32 \<Rightarrow> 'f runtime \<Rightarrow> 'f runtime" where
  "push_token token rt = rt\<lparr>rt_ngram := Ngram.push (rt_ngram rt) token\<rparr>"

definition announce :: "'c sink \<Rightarrow> u32 \<Rightarrow> ('f, 'c, unit) run_action" where
  "announce cb token = bindS (upd (push_token token)) (\<lambda>_. emit cb token)"

definition sample_and_emit ::
    "('f, 'r) env \<Rightarrow> 'f generation_options \<Rightarrow> 'c sink \<Rightarrow> ('f, 'r) sampler \<Rightarrow> 'f list list \<Rightarrow> u32 list
      \<Rightarrow> ('f, 'c, u32 list \<times> u32 option) run_action" where
  "sample_and_emit E opts cb sampler logits g =
     (if go_max_new_tokens opts \<le> length g then returnS (g, None)
      else bindS (liftS (snd (sample_row E sampler logits))) (\<lambda>token.
        bindS (announce cb token) (\<lambda>_. returnS (g @ [token], Some token))))"

definition evaluate_authoritative :: "('f, 'r) env \<Rightarrow> bool \<Rightarrow> u32 \<Rightarrow> ('f, 'c, 'f list list) run_action" where
  "evaluate_authoritative E track token =
     bindS (get rt_last_hidden) (\<lambda>prior.
     bindS (on_state (forward_detailed (ev_fops E) (ev_threads E) (ev_model E) [token])) (\<lambda>out.
     bindS (if track then retain_mtp_gap E [token] (fo_hidden out) prior else returnS ()) (\<lambda>_.
     bindS (liftS (last_hidden_row (fo_hidden out))) (\<lambda>row.
     bindS (upd (\<lambda>rt. rt\<lparr>rt_last_hidden := Some row\<rparr>)) (\<lambda>_.
     returnS (fo_logits out))))))"

definition force_close_thinking_policy ::
    "('f, 'r) env \<Rightarrow> 'c sink \<Rightarrow> bool \<Rightarrow> u32 option \<Rightarrow> u32 list \<Rightarrow> ('f, 'c, 'f list list) run_action" where
  "force_close_thinking_policy E cb track pending closure =
     force_close (evaluate_authoritative E track) (announce cb) pending closure"

text \<open>Undo the rows of a pass whose output at \<open>output_index\<close> the sink refused.\<close>

definition halt_pass ::
    "('f, 'r) env \<Rightarrow> 'f list list \<Rightarrow> nat \<Rightarrow> nat \<Rightarrow> ('f, 'c, unit) run_action" where
  "halt_pass E committed_hidden output_index accepted =
     (let evaluated = halted_pass_rows output_index accepted in
      if evaluated < 1 + accepted
      then bindS (rollback_to evaluated) (\<lambda>_.
           bindS (get (\<lambda>rt. (rt_gap_valid rt, ms_position (rt_state rt)))) (\<lambda>(valid, pos).
           bindS (if valid then truncate_mtp_gap E pos else returnS ()) (\<lambda>_.
           bindS (liftS (nth_hidden_row committed_hidden (evaluated - 1))) (\<lambda>row.
           upd (\<lambda>rt. rt\<lparr>rt_last_hidden := Some row\<rparr>)))))
      else returnS ())"

record emitted =
  em_generated :: "u32 list"
  em_thinking :: "thinking option"
  em_pending :: "u32 option"
  em_closed :: bool
  em_done :: bool

text \<open>
  Emit the tokens of a pass, from \<open>output_index\<close> on. \<open>em_closed\<close> marks a pass that ended in a
  forced closure (\<open>continue 'generation\<close>), \<open>em_done\<close> one that ends the turn.
\<close>

fun emit_outputs ::
    "('f, 'r) env \<Rightarrow> 'f generation_options \<Rightarrow> 'c sink \<Rightarrow> ('f, 'r) sampler \<Rightarrow> bool \<Rightarrow> 'f list list \<Rightarrow> nat \<Rightarrow> nat
      \<Rightarrow> (u32 \<times> bool) list \<Rightarrow> u32 list \<Rightarrow> thinking option \<Rightarrow> u32 option \<Rightarrow> ('f, 'c, emitted) run_action" where
  "emit_outputs E opts cb sampler track committed_hidden accepted index [] g th pending =
     returnS \<lparr>em_generated = g, em_thinking = th, em_pending = pending, em_closed = False, em_done = False\<rparr>"
| "emit_outputs E opts cb sampler track committed_hidden accepted index ((token, accepted_draft) # outputs) g th pending =
     (\<lambda>(rt, c).
       let rt1 = push_token token rt; g1 = g @ [token] in
       case cb token c of (c1, ok) \<Rightarrow>
         if \<not> ok
         then bindS (halt_pass E committed_hidden index accepted) (\<lambda>_.
              bindS (upd (\<lambda>rt. rt\<lparr>rt_pending := Some token\<rparr>)) (\<lambda>_. failS CallbackFailure)) (rt1, c1)
         else let stop = is_stop_token E opts token in
           case observe_opt th token (\<not> stop) of (th1, boundary) \<Rightarrow>
             let pending1 = (if accepted_draft then None else Some token) in
             if boundary = ForceClosure
             then bindS (force_close_thinking_policy E cb track pending1 (closure_of th1)) (\<lambda>closed.
                  bindS (sample_and_emit E opts cb sampler closed (g1 @ closure_of th1)) (\<lambda>(g2, pending2).
                  returnS \<lparr>em_generated = g2, em_thinking = th1, em_pending = pending2,
                           em_closed = True, em_done = False\<rparr>)) (rt1, c1)
             else if length g1 = go_max_new_tokens opts \<or> stop
             then ((rt1, c1), Inr \<lparr>em_generated = g1, em_thinking = th1, em_pending = pending1,
                                  em_closed = False, em_done = True\<rparr>)
             else emit_outputs E opts cb sampler track committed_hidden accepted (index + 1) outputs g1 th1 pending1
                    (rt1, c1))"

text \<open>For evaluation, the same equations on a session.\<close>

lemma emit_outputs_code [code]:
  "emit_outputs E opts cb sampler track committed_hidden accepted index [] g th pending s =
     (s, Inr \<lparr>em_generated = g, em_thinking = th, em_pending = pending, em_closed = False, em_done = False\<rparr>)"
  "emit_outputs E opts cb sampler track committed_hidden accepted index ((token, accepted_draft) # outputs) g th pending (rt, c) =
     (let rt1 = push_token token rt; g1 = g @ [token] in
       case cb token c of (c1, ok) \<Rightarrow>
         if \<not> ok
         then bindS (halt_pass E committed_hidden index accepted) (\<lambda>_.
              bindS (upd (\<lambda>rt. rt\<lparr>rt_pending := Some token\<rparr>)) (\<lambda>_. failS CallbackFailure)) (rt1, c1)
         else let stop = is_stop_token E opts token in
           case observe_opt th token (\<not> stop) of (th1, boundary) \<Rightarrow>
             let pending1 = (if accepted_draft then None else Some token) in
             if boundary = ForceClosure
             then bindS (force_close_thinking_policy E cb track pending1 (closure_of th1)) (\<lambda>closed.
                  bindS (sample_and_emit E opts cb sampler closed (g1 @ closure_of th1)) (\<lambda>(g2, pending2).
                  returnS \<lparr>em_generated = g2, em_thinking = th1, em_pending = pending2,
                           em_closed = True, em_done = False\<rparr>)) (rt1, c1)
             else if length g1 = go_max_new_tokens opts \<or> stop
             then ((rt1, c1), Inr \<lparr>em_generated = g1, em_thinking = th1, em_pending = pending1,
                                  em_closed = False, em_done = True\<rparr>)
             else emit_outputs E opts cb sampler track committed_hidden accepted (index + 1) outputs g1 th1 pending1
                    (rt1, c1))"
  by simp_all

section \<open>The loop\<close>

record 'f policy_locals =
  pl_generated :: "u32 list"
  pl_thinking :: "thinking option"
  pl_ngram_arm :: "'f arm_controller"
  pl_mtp_arm :: "'f arm_controller"
  pl_span :: "span_cursor option"

definition observe_arms ::
    "'f fops \<Rightarrow> step_arm \<Rightarrow> nat \<Rightarrow> nat \<Rightarrow> nat \<Rightarrow> 'f arm_controller \<times> 'f arm_controller
      \<Rightarrow> 'f arm_controller \<times> 'f arm_controller" where
  "observe_arms F arm proposed accepted committed = (\<lambda>(ngram_arm, mtp_arm).
     (if arm_is_ngram arm then observe F ngram_arm proposed accepted committed else ngram_arm,
      if arm = ArmMtp then observe F mtp_arm proposed accepted committed else mtp_arm))"

definition next_span ::
    "'f generation_options \<Rightarrow> step_arm \<Rightarrow> ngram_draft option \<Rightarrow> span_cursor option \<Rightarrow> nat \<Rightarrow> u32 \<Rightarrow> ngram_index
      \<Rightarrow> span_cursor option" where
  "next_span opts arm proposal span accepted authoritative ix =
     (case proposal of
        Some d \<Rightarrow>
          (if arm_is_ngram arm \<and> pt_span_continuation (go_policy opts)
           then let follow = nd_source_position d + 1 + length (nd_tokens d)
                in chain_span span (nd_source_position d) (length (nd_tokens d)) accepted (nd_match_len d)
                     (if follow < length (ng_tokens ix) then Some (ng_tokens ix ! follow) else None) authoritative
           else None)
      | None \<Rightarrow> None)"

text \<open>After a verified pass: keep the committed rows, roll the others back, carry the last row.\<close>

definition commit_rows ::
    "('f, 'r) env \<Rightarrow> 'f generation_options \<Rightarrow> bool \<Rightarrow> u32 list \<Rightarrow> 'f list list \<Rightarrow> nat \<Rightarrow> 'f list option
      \<Rightarrow> ('f, 'c, 'f list list) run_action" where
  "commit_rows E opts track tokens hidden committed_rows prior =
     bindS (if committed_rows = length tokens then returnS hidden
            else bindS (rollback_to committed_rows) (\<lambda>_. returnS (take committed_rows hidden))) (\<lambda>committed_hidden.
     bindS (if track
            then bindS (retain_mtp_gap E (take committed_rows tokens) committed_hidden prior) (\<lambda>_.
                 if pt_eager_mtp_resync (go_policy opts) then bindS (catch_up_mtp E) (\<lambda>_. returnS ()) else returnS ())
            else returnS ()) (\<lambda>_.
     bindS (liftS (last_hidden_row committed_hidden)) (\<lambda>row.
     bindS (upd (\<lambda>rt. rt\<lparr>rt_last_hidden := Some row\<rparr>)) (\<lambda>_.
     returnS committed_hidden))))"

text \<open>A step's draft: poll both arms, ask the index, and fall back to the predictor.\<close>

record 'f drafted =
  df_drafts :: "u32 list"
  df_arm :: step_arm
  df_proposal :: "ngram_draft option"
  df_ngram_arm :: "'f arm_controller"
  df_mtp_arm :: "'f arm_controller"

definition draft_step ::
    "('f, 'r) env \<Rightarrow> 'f generation_options \<Rightarrow> 'f policy_locals \<Rightarrow> u32 \<Rightarrow> ('f, 'c, 'f drafted) run_action" where
  "draft_step E opts loc seed =
     (let budget = draft_budget opts (pl_generated loc) (pl_thinking loc);
          committed_before = length (pl_generated loc);
          (ngram_arm, ngram_available) = poll (pl_ngram_arm loc) committed_before;
          (mtp_arm, mtp_available) = poll (pl_mtp_arm loc) committed_before in
      bindS (get (\<lambda>rt. ngram_proposal E opts (rt_ngram rt) ngram_available (am_len ngram_arm) (pl_span loc) budget))
        (\<lambda>(choice, proposal).
      bindS (if choice = ArmPlain \<and> mtp_available \<and> 0 < budget
             then mtp_proposal E opts (min (am_len mtp_arm) budget) seed
             else returnS (case proposal of None \<Rightarrow> [] | Some d \<Rightarrow> nd_tokens d)) (\<lambda>drafts.
      returnS \<lparr>df_drafts = drafts,
               df_arm = (if choice = ArmPlain \<and> drafts \<noteq> [] then ArmMtp else choice),
               df_proposal = proposal, df_ngram_arm = ngram_arm, df_mtp_arm = mtp_arm\<rparr>)))"

text \<open>The pass over the pending token and its drafts: how much of the draft the target agrees with.\<close>

definition verify_step ::
    "('f, 'r) env \<Rightarrow> 'f generation_options \<Rightarrow> bool \<Rightarrow> u32 \<Rightarrow> u32 list \<Rightarrow> step_arm
      \<Rightarrow> ('f, 'c, nat \<times> u32 \<times> 'f list list) run_action" where
  "verify_step E opts track seed drafts arm =
     (let tokens = seed # drafts in
      bindS (get rt_last_hidden) (\<lambda>prior.
      bindS (verify_or_undo E tokens (drafts \<noteq> [])) (\<lambda>verified.
      bindS (ensureS (length (fo_logits verified) = length tokens) VerifierRows) (\<lambda>_.
      bindS (liftS (accepted_draft_prefix (ev_fops E) drafts (fo_logits verified))) (\<lambda>accepted.
      bindS (liftS (lift_sampling (argmax (ev_fops E) (fo_logits verified ! accepted)))) (\<lambda>i.
      bindS (upd (\<lambda>rt. rt\<lparr>rt_accepted := rt_accepted rt + accepted,
                 rt_drafted := rt_drafted rt + (if arm_is_ngram arm then length drafts else 0)\<rparr>)) (\<lambda>_.
      bindS (commit_rows E opts track tokens (fo_hidden verified) (1 + accepted) prior) (\<lambda>committed_hidden.
      returnS (accepted, word_of_nat i, committed_hidden)))))))))"

definition policy_step ::
    "('f, 'r) env \<Rightarrow> 'f generation_options \<Rightarrow> 'c sink \<Rightarrow> ('f, 'r) sampler \<Rightarrow> bool \<Rightarrow> 'f policy_locals \<Rightarrow> u32
      \<Rightarrow> ('f, 'c, 'f policy_locals \<times> u32 option \<times> bool) run_action" where
  "policy_step E opts cb sampler track loc seed =
     bindS (draft_step E opts loc seed) (\<lambda>d.
     bindS (verify_step E opts track seed (df_drafts d) (df_arm d)) (\<lambda>(accepted, authoritative, committed_hidden).
     bindS (get rt_ngram) (\<lambda>ix.
     let arms = observe_arms (ev_fops E) (df_arm d) (length (df_drafts d)) accepted
           (length (pl_generated loc) + (1 + accepted)) (df_ngram_arm d, df_mtp_arm d);
         span = next_span opts (df_arm d) (df_proposal d) (pl_span loc) accepted authoritative ix in
     bindS (emit_outputs E opts cb sampler track committed_hidden accepted 0
              (speculative_committed_outputs (df_drafts d) accepted authoritative)
              (pl_generated loc) (pl_thinking loc) (Some seed)) (\<lambda>em.
     returnS (\<lparr>pl_generated = em_generated em, pl_thinking = em_thinking em,
               pl_ngram_arm = fst arms, pl_mtp_arm = snd arms,
               pl_span = (if em_closed em then None else span)\<rparr>, em_pending em, \<not> em_done em)))))"

text \<open>Every step emits at least one token, so the loop ends within the token limit.\<close>

lemma sample_and_emit_grows:
  "sample_and_emit E opts cb sampler logits g s = (s', Inr (g2, p)) \<Longrightarrow> length g \<le> length g2"
  by (auto simp: sample_and_emit_def bindS_Inr_iff split: if_splits)

lemma emit_outputs_grows:
  "emit_outputs E opts cb sampler track hidden accepted index outputs g th pending s = (s', Inr em) \<Longrightarrow>
    length g + of_bool (outputs \<noteq> []) \<le> length (em_generated em)"
proof (induction E opts cb sampler track hidden accepted index outputs g th pending arbitrary: s rule: emit_outputs.induct)
  case (1 E opts cb sampler track hidden accepted index g th pending)
  then show ?case by auto
next
  case (2 E opts cb sampler track hidden accepted index token accepted_draft outputs g th pending)
  obtain rt c where s: "s = (rt, c)" by (cases s)
  obtain c1 ok where cb: "cb token c = (c1, ok)" by (metis surj_pair)
  show ?case
  proof (cases ok)
    case False
    with "2.prems" s cb show ?thesis by (auto simp: bindS_Inr_iff Let_def)
  next
    case True
    obtain th1 b where obs: "observe_opt th token (\<not> is_stop_token E opts token) = (th1, b)" by (metis surj_pair)
    note run = "2.prems" [unfolded s, simplified, unfolded cb Let_def obs, simplified]
    show ?thesis
    proof (cases "b = ForceClosure")
      case True
      with run \<open>ok\<close> show ?thesis
        by (fastforce simp: bindS_Inr_iff dest: sample_and_emit_grows)
    next
      case False
      show ?thesis
      proof (cases "length (g @ [token]) = go_max_new_tokens opts \<or> is_stop_token E opts token")
        case True
        with run \<open>ok\<close> False show ?thesis by auto
      next
        case goes: False
        with run \<open>ok\<close> False have "emit_outputs E opts cb sampler track hidden accepted (index + 1) outputs (g @ [token])
            th1 (if accepted_draft then None else Some token) (push_token token rt, c1) = (s', Inr em)"
          by simp
        from "2.IH" [OF refl refl cb [symmetric] _ refl obs [symmetric] refl False goes this] \<open>ok\<close> show ?thesis by simp
      qed
    qed
  qed
qed

lemma policy_step_grows:
  assumes "policy_step E opts cb sampler track loc seed s = (s', Inr (loc', pending, cont))"
  shows "length (pl_generated loc) < length (pl_generated loc')"
  using assms unfolding policy_step_def Let_def case_prod_unfold bindS_Inr_iff
  by (auto dest!: emit_outputs_grows simp: speculative_committed_outputs_def)

function policy_loop ::
    "('f, 'r) env \<Rightarrow> 'f generation_options \<Rightarrow> 'c sink \<Rightarrow> ('f, 'r) sampler \<Rightarrow> bool \<Rightarrow> 'f policy_locals \<Rightarrow> u32 option
      \<Rightarrow> ('f, 'c, gen_result) run_action" where
  "policy_loop E opts cb sampler track loc pending s =
     (let result = (\<lambda>loc pending. \<lparr>gr_generated = pl_generated loc, gr_pending = pending, gr_thinking = pl_thinking loc\<rparr>) in
      case pending of
        None \<Rightarrow> (s, Inr (result loc None))
      | Some seed \<Rightarrow>
          if go_max_new_tokens opts \<le> length (pl_generated loc) \<or> is_stop_token E opts seed
          then (s, Inr (result loc (Some seed)))
          else case policy_step E opts cb sampler track loc seed s of
                 (s1, Inl e) \<Rightarrow> (s1, Inl e)
               | (s1, Inr (loc1, pending1, cont)) \<Rightarrow>
                   if cont then policy_loop E opts cb sampler track loc1 pending1 s1
                   else (s1, Inr (result loc1 pending1)))"
  by pat_completeness auto
termination
  by (relation "measure (\<lambda>(_, opts, _, _, _, loc, _, _). go_max_new_tokens opts - length (pl_generated loc))")
    (auto dest!: policy_step_grows [OF sym])

declare policy_loop.simps [simp del]

section \<open>A turn\<close>

definition mtp_draft_vocab :: "('f, 'r) env \<Rightarrow> 'f generation_options \<Rightarrow> bool \<Rightarrow> nat option" where
  "mtp_draft_vocab E opts mtp_enabled =
     (let full = (case ev_mtp E of None \<Rightarrow> 0 | Some H \<Rightarrow> mt_vocab_size H);
          vocab = (if mtp_enabled \<and> ev_mtp E \<noteq> None
                   then (if go_mtp_draft_vocab opts = 0 then full else min (go_mtp_draft_vocab opts) full) else 0)
      in if vocab = 0 \<or> full \<le> vocab then None else Some vocab)"

definition speculative_checks :: "('f, 'r) env \<Rightarrow> 'f generation_options \<Rightarrow> speculative_mode \<Rightarrow> u32 list \<Rightarrow> 'f runtime
    \<Rightarrow> run_error + unit" where
  "speculative_checks E opts mode prompt rt =
     bindE (ensure (0 < go_max_new_tokens opts) NoNewTokens) (\<lambda>_.
     bindE (ensure (f_eq (ev_fops E) (sc_temperature (go_sampling opts)) (f_zero (ev_fops E))) NotGreedy) (\<lambda>_.
     bindE (ensure (MIN_MATCH_LEN \<le> go_ngram_min_match opts \<and> go_ngram_min_match opts \<le> MAX_MATCH_LEN) MinMatchRange) (\<lambda>_.
     bindE (ensure (ev_mtp E \<noteq> None \<and> rt_mtp_state rt \<noteq> None \<or> mode \<noteq> ModeMtp) NoPredictor) (\<lambda>_.
     bindE (ensure (prompt \<noteq> []) EmptyPrompt) (\<lambda>_.
     ensure (mtp_arm_ready rt \<or> mode \<noteq> ModeMtp) PredictorMisaligned)))))"

definition first_token ::
    "('f, 'r) env \<Rightarrow> 'f generation_options \<Rightarrow> 'c sink \<Rightarrow> ('f, 'r) sampler \<Rightarrow> bool \<Rightarrow> 'f list list \<Rightarrow> u32 list
      \<Rightarrow> thinking option \<Rightarrow> ('f, 'c, u32 list \<times> u32 option \<times> thinking option) run_action" where
  "first_token E opts cb sampler track logits g th =
     bindS (sample_and_emit E opts cb sampler logits g) (\<lambda>(g1, pending).
     case pending of
       None \<Rightarrow> returnS (g1, None, th)
     | Some first \<Rightarrow>
         (case observe_opt th first (\<not> is_stop_token E opts first) of (th1, boundary) \<Rightarrow>
          if boundary = ForceClosure
          then bindS (force_close_thinking_policy E cb track (Some first) (closure_of th1)) (\<lambda>closed.
               bindS (sample_and_emit E opts cb sampler closed (g1 @ closure_of th1)) (\<lambda>(g2, pending2).
               returnS (g2, pending2, th1)))
          else returnS (g1, Some first, th1)))"

definition generate_speculative_policy ::
    "('f, 'r) env \<Rightarrow> 'f generation_options \<Rightarrow> speculative_mode \<Rightarrow> 'c sink \<Rightarrow> u32 list
      \<Rightarrow> ('f, 'c, generation_result) run_action" where
  "generate_speculative_policy E opts mode cb prompt =
     bindS (get (speculative_checks E opts mode prompt)) (\<lambda>checks.
     bindS (liftS checks) (\<lambda>_.
     bindS (get (\<lambda>rt. (rt_pending rt, context_tokens rt, ev_mtp E \<noteq> None \<and> rt_mtp_state rt \<noteq> None \<and> mtp_arm_ready rt)))
       (\<lambda>(carried, context_before, mtp_usable).
     let evaluated = continuation_input prompt carried in
     case arm_configs (ev_fops E) (go_policy opts) (go_ngram_draft_tokens opts) (go_mtp_draft_tokens opts) mode mtp_usable of
       (ngram_config, mtp_config) \<Rightarrow>
     let track = ac_enabled mtp_config in
     bindS (upd (\<lambda>rt. index_prompt context_before prompt evaluated
         (rt\<lparr>rt_pending := None, rt_draft_head := mtp_draft_vocab E opts track, rt_gap_valid := track,
            rt_drafted := 0, rt_accepted := 0\<rparr>))) (\<lambda>_.
     bindS (prefill_in_passes E evaluated track) (\<lambda>out.
     bindS (liftS (last_hidden_row (fo_hidden out))) (\<lambda>row.
     bindS (upd (\<lambda>rt. rt\<lparr>rt_last_hidden := Some row\<rparr>)) (\<lambda>_.
     bindS (liftS (lift_sampling (sampler_new (ev_fops E) (ev_seed_rng E) (go_sampling opts)))) (\<lambda>sampler.
     bindS (liftS (turn_thinking E opts)) (\<lambda>thinking.
     case should_force_opt thinking of (th, forced) \<Rightarrow>
     bindS (if forced then force_close_thinking_policy E cb track None (closure_of th) else returnS (fo_logits out)) (\<lambda>logits.
     bindS (first_token E opts cb sampler track logits (if forced then closure_of th else []) th) (\<lambda>(g, pending, th1).
     bindS (policy_loop E opts cb sampler track
         \<lparr>pl_generated = g, pl_thinking = th1, pl_ngram_arm = controller_new ngram_config,
          pl_mtp_arm = controller_new mtp_config, pl_span = None\<rparr> pending) (\<lambda>r.
     finish_turn E prompt evaluated r))))))))))))"

definition generate_tokens_with_callback ::
    "('f, 'r) env \<Rightarrow> 'f generation_options \<Rightarrow> 'c sink \<Rightarrow> u32 list \<Rightarrow> ('f, 'c, generation_result) run_action" where
  "generate_tokens_with_callback E opts cb prompt =
     bindS (ensureS (go_speculative_mode opts \<noteq> ModeOff \<or> go_mtp_draft_tokens opts = 0
                     \<or> go_ngram_draft_tokens opts = 0) ConflictingFlags) (\<lambda>_.
     let mode = effective_speculative_mode (go_speculative_mode opts) (go_mtp_draft_tokens opts) (go_ngram_draft_tokens opts)
     in if is_speculative mode then generate_speculative_policy E opts mode cb prompt
        else generate_plain E opts cb prompt)"

end
