(* ===== verification/Policy_Correct.thy ===== *)
theory Policy_Correct
  imports Policy
begin

text \<open>
  What the two decoding paths of \<open>Runtime\<close> and \<open>Policy\<close> compute. \<open>model_next\<close> is the target
  model as an oracle for \<open>Greedy\<close>: the arg max of the last row of logits after a history.
  The plain path computes the greedy turn of that oracle, and so does the speculative path,
  whatever its drafts, arms and spans: hence they agree.
\<close>

section \<open>Steps that cannot be a refused token\<close>

text \<open>
  The only failure that leaves a turn in an orderly state is the sink's. \<open>silent\<close> actions
  never report it; \<open>proper\<close> results are success and that failure.
\<close>

definition silent :: "('s, run_error, 'a) action \<Rightarrow> bool" where
  "silent m \<longleftrightarrow> (\<forall>s. snd (m s) \<noteq> Inl CallbackFailure)"

definition proper :: "run_error + 'a \<Rightarrow> bool" where
  "proper r \<longleftrightarrow> (case r of Inl e \<Rightarrow> e = CallbackFailure | Inr _ \<Rightarrow> True)"

named_theorems silent_intros \<open>actions that never report a refused token\<close>

lemma proper_simps [simp]: "proper (Inr x)" "proper (Inl e) \<longleftrightarrow> e = CallbackFailure"
  by (simp_all add: proper_def)

lemma silent_bindS [silent_intros]: "silent m \<Longrightarrow> (\<And>x. silent (f x)) \<Longrightarrow> silent (bindS m f)"
  by (auto simp: silent_def bindS_def split: prod.splits sum.splits) (metis snd_conv)+

lemma silent_returnS [silent_intros]: "silent (returnS x)"
  by (simp add: silent_def)

lemma silent_readS [silent_intros]: "silent (readS f)"
  by (simp add: silent_def)

lemma silent_modifyS [silent_intros]: "silent (modifyS f)"
  by (simp add: silent_def)

lemma silent_failS [silent_intros]: "e \<noteq> CallbackFailure \<Longrightarrow> silent (failS e)"
  by (simp add: silent_def)

lemma silent_ensureS [silent_intros]: "e \<noteq> CallbackFailure \<Longrightarrow> silent (ensureS b e)"
  by (simp add: silent_def ensure_def)

lemma silent_liftS: "r \<noteq> Inl CallbackFailure \<Longrightarrow> silent (liftS r)"
  by (simp add: silent_def)

lemma silent_if [silent_intros]: "(b \<Longrightarrow> silent m) \<Longrightarrow> (\<not> b \<Longrightarrow> silent n) \<Longrightarrow> silent (if b then m else n)"
  by simp

lemma silent_option [silent_intros]:
  "silent m \<Longrightarrow> (\<And>x. silent (f x)) \<Longrightarrow> silent (case z of None \<Rightarrow> m | Some x \<Rightarrow> f x)"
  by (cases z) simp_all

lemma silent_prod [silent_intros]: "(\<And>a b. silent (f a b)) \<Longrightarrow> silent (case p of (a, b) \<Rightarrow> f a b)"
  by (cases p) simp

lemma quiet_prod [quiet_intros]: "(\<And>a b. quiet v (f a b)) \<Longrightarrow> quiet v (case p of (a, b) \<Rightarrow> f a b)"
  by (cases p) simp

text \<open>A proper result of a sequence whose first step is silent passed that step.\<close>

lemma silent_then:
  assumes "silent m" and "bindS m f s = (s', r)" and "proper r"
  obtains s1 x where "m s = (s1, Inr x)" "f x s1 = (s', r)"
  using assms by (auto simp: bindS_iff silent_def) (metis snd_conv)

lemma lift_not_callback [simp]:
  "lift_model r \<noteq> Inl CallbackFailure" "lift_sampling q \<noteq> Inl CallbackFailure"
  by (auto simp: lift_model_def lift_sampling_def split: sum.splits)

text \<open>What a session's side of the contract is about; the rest serves speed.\<close>

definition core :: "('f, 'c) session \<Rightarrow> 'f model_state \<times> u32 option \<times> 'f state_snapshots \<times> 'c" where
  "core = (\<lambda>(rt, c). (rt_state rt, rt_pending rt, rt_snapshots rt, c))"

lemma core_simp: "core (rt, c) = (rt_state rt, rt_pending rt, rt_snapshots rt, c)"
  by (simp add: core_def)

lemma silent_upd [silent_intros]: "silent (upd f)"
  by (simp add: silent_def upd_def)

lemma silent_get [silent_intros]: "silent (get f)"
  by (simp add: silent_def get_def)

lemma quiet_get [quiet_intros]: "quiet v (get f)"
  by (simp add: quiet_def get_def)

lemma quiet_upd: "(\<And>rt c. v (f rt, c) = v (rt, c)) \<Longrightarrow> quiet v (upd f)"
  by (auto simp: quiet_def upd_def)

lemma silent_on_state [silent_intros]: "silent (on_state f)"
  by (simp add: silent_def on_state_def split: prod.splits)

lemma silent_on_mtp [silent_intros]: "silent (on_mtp f E)"
  by (simp add: silent_def on_mtp_def split: prod.splits option.splits)

lemma quiet_on_mtp [quiet_intros]: "quiet core (on_mtp f E)"
  by (simp add: quiet_def on_mtp_def core_def split: prod.splits option.splits)

lemma silent_mtp_truncate [silent_intros]: "silent (mtp_truncate n)"
  by (simp add: silent_def mtp_truncate_def split: prod.splits option.splits sum.splits)

lemma quiet_mtp_truncate [quiet_intros]: "quiet core (mtp_truncate n)"
  by (simp add: quiet_def mtp_truncate_def core_def split: prod.splits option.splits sum.splits)

lemma shifted_not_callback [simp]: "shifted_hidden_inputs F p q hs n w \<noteq> Inl CallbackFailure"
  by (auto simp: shifted_hidden_inputs_def bindE_Inl_iff split: option.splits)

lemma top1_not_callback [simp]: "top1_with_scores F l \<noteq> Inl CallbackFailure"
  by (auto simp: top1_with_scores_def bindE_Inl_iff Let_def split: option.splits)

lemma rows_not_callback [simp]: "last_hidden_row h \<noteq> Inl CallbackFailure" "nth_hidden_row h n \<noteq> Inl CallbackFailure"
  "accepted_draft_prefix F ds ls \<noteq> Inl CallbackFailure"
  by (auto simp: last_hidden_row_def nth_hidden_row_def accepted_draft_prefix_def bindE_Inl_iff)

lemmas silent_lifts [silent_intros] =
  silent_liftS [OF shifted_not_callback] silent_liftS [OF top1_not_callback] silent_liftS [OF rows_not_callback(1)]
  silent_liftS [OF rows_not_callback(2)] silent_liftS [OF rows_not_callback(3)]
  silent_liftS [OF lift_not_callback(1)] silent_liftS [OF lift_not_callback(2)]

lemma clear_mtp_gap_core [simp]:
  "rt_state (clear_mtp_gap rt) = rt_state rt" "rt_pending (clear_mtp_gap rt) = rt_pending rt"
  "rt_snapshots (clear_mtp_gap rt) = rt_snapshots rt"
  by (simp_all add: clear_mtp_gap_def)

lemma push_token_core [simp]:
  "rt_state (push_token t rt) = rt_state rt" "rt_pending (push_token t rt) = rt_pending rt"
  "rt_snapshots (push_token t rt) = rt_snapshots rt"
  by (simp_all add: push_token_def)

lemma silent_synchronize_mtp [silent_intros]: "silent (synchronize_mtp E p q ts hs)"
  unfolding synchronize_mtp_def by (intro silent_intros) simp_all

lemma quiet_synchronize_mtp [quiet_intros]: "quiet core (synchronize_mtp E p q ts hs)"
  unfolding synchronize_mtp_def by (intro quiet_intros)

lemma silent_catch_up_mtp [silent_intros]: "silent (catch_up_mtp E)"
  unfolding catch_up_mtp_def Let_def by (intro silent_intros) simp_all

lemma quiet_catch_up_mtp [quiet_intros]: "quiet core (catch_up_mtp E)"
  unfolding catch_up_mtp_def Let_def by (intro quiet_intros quiet_upd) (simp_all add: core_simp)

lemma silent_retain_mtp_gap [silent_intros]: "silent (retain_mtp_gap E ts hs p)"
  unfolding retain_mtp_gap_def by (intro silent_intros) simp_all

lemma quiet_retain_mtp_gap [quiet_intros]: "quiet core (retain_mtp_gap E ts hs p)"
  unfolding retain_mtp_gap_def by (intro quiet_intros quiet_upd) (simp_all add: core_simp Let_def)

lemma silent_truncate_mtp_gap [silent_intros]: "silent (truncate_mtp_gap E p)"
proof -
  have "silent (case gap of
       Retain retained \<Rightarrow> upd (a retained)
     | TruncatePredictor \<Rightarrow> bindS (mtp_truncate p) (\<lambda>_. upd b)
     | Unrecoverable \<Rightarrow> upd c)" for gap a b c
    by (cases gap) (simp_all add: silent_intros)
  then show ?thesis unfolding truncate_mtp_gap_def by (intro silent_bindS silent_get)
qed

lemma quiet_truncate_mtp_gap [quiet_intros]: "quiet core (truncate_mtp_gap E p)"
  unfolding truncate_mtp_gap_def
  by (intro quiet_bindS quiet_get) (auto split: gap_after_rollback.split simp: core_simp
      intro!: quiet_upd quiet_bindS quiet_mtp_truncate)

lemma silent_mtp_draft_loop [silent_intros]: "silent (mtp_draft_loop E opts head n t hs ds)"
  by (induction n arbitrary: t hs ds) (auto simp: Let_def intro!: silent_intros)

lemma quiet_mtp_draft_loop [quiet_intros]: "quiet core (mtp_draft_loop E opts head n t hs ds)"
  by (induction n arbitrary: t hs ds) (auto simp: Let_def intro!: quiet_intros)

lemma silent_mtp_proposal [silent_intros]: "silent (mtp_proposal E opts d t)"
  unfolding mtp_proposal_def draft_mtp_def Let_def by (intro silent_intros) simp_all

lemma quiet_mtp_proposal [quiet_intros]: "quiet core (mtp_proposal E opts d t)"
  unfolding mtp_proposal_def draft_mtp_def Let_def by (intro quiet_intros quiet_upd) (simp_all add: core_simp)

lemma silent_draft_step [silent_intros]: "silent (draft_step E opts loc t)"
  unfolding draft_step_def Let_def by (intro silent_intros)

lemma quiet_draft_step [quiet_intros]: "quiet core (draft_step E opts loc t)"
  unfolding draft_step_def Let_def by (intro quiet_intros)

lemma silent_rollback_to [silent_intros]: "silent (rollback_to n)"
  by (simp add: silent_def rollback_to_def split: prod.splits)

lemma silent_verify_rows [silent_intros]: "silent (verify_rows E ts b)"
  by (simp add: silent_def verify_rows_def on_state_def split: prod.splits)

lemma silent_undo:
  assumes "e \<noteq> CallbackFailure"
  shows "snd (bindS (rollback_to 0) (\<lambda>_. failS e) s) \<noteq> Inl CallbackFailure"
  using silent_bindS [OF silent_rollback_to silent_failS [OF assms], of 0] unfolding silent_def by blast

lemma silent_verify_or_undo [silent_intros]: "silent (verify_or_undo E ts b)"
  unfolding silent_def
proof
  fix s
  obtain s1 r where run: "verify_rows E ts b s = (s1, r)" by (metis surj_pair)
  then have r: "r \<noteq> Inl CallbackFailure" using silent_verify_rows [of E ts b] unfolding silent_def by (metis snd_conv)
  show "snd (verify_or_undo E ts b s) \<noteq> Inl CallbackFailure"
  proof (cases r)
    case (Inl e)
    with r run show ?thesis by (simp add: verify_or_undo_def silent_undo)
  next
    case (Inr out)
    with run show ?thesis by (simp add: verify_or_undo_def)
  qed
qed

lemma silent_commit_rows [silent_intros]: "silent (commit_rows E opts track ts hs n p)"
  unfolding commit_rows_def by (intro silent_intros)

lemma silent_verify_step [silent_intros]: "silent (verify_step E opts track t ds arm)"
  unfolding verify_step_def Let_def by (intro silent_intros; simp)

lemma silent_evaluate_authoritative [silent_intros]: "silent (evaluate_authoritative E track t)"
  unfolding evaluate_authoritative_def by (intro silent_intros)

lemma silent_halt_pass [silent_intros]: "silent (halt_pass E hs i a)"
  unfolding halt_pass_def Let_def by (intro silent_intros)

lemma silent_prefill_passes [silent_intros]: "silent (prefill_passes E track p passes out)"
  by (induction passes arbitrary: out) (auto intro!: silent_intros)

lemma silent_prefill_in_passes [silent_intros]: "silent (prefill_in_passes E ts track)"
  unfolding prefill_in_passes_def by (intro silent_intros) simp_all

lemma silent_rt_forward [silent_intros]: "silent (rt_forward E ts)"
  unfolding rt_forward_def by (intro silent_intros)

section \<open>The target model as an oracle\<close>

definition score :: "'f fops \<Rightarrow> 'f list \<Rightarrow> run_error + u32" where
  "score F row = bindE (lift_sampling (argmax F row)) (\<lambda>i. Inr (word_of_nat i))"

definition model_next :: "('f, 'r) env \<Rightarrow> 'f model_state \<Rightarrow> u32 list \<Rightarrow> run_error + u32" where
  "model_next E st h =
     (case forward_detailed (ev_fops E) (ev_threads E) (ev_model E) h st of
        (_, Inl e) \<Rightarrow> Inl (ModelFailure e)
      | (_, Inr out) \<Rightarrow> score (ev_fops E) (last (fo_logits out)))"

text \<open>\<open>st\<close> is what evaluating \<open>h\<close> from the start of the turn, \<open>st0\<close>, leaves.\<close>

definition at_history :: "('f, 'r) env \<Rightarrow> 'f model_state \<Rightarrow> u32 list \<Rightarrow> 'f model_state \<Rightarrow> bool" where
  "at_history E st0 h st \<longleftrightarrow> model_ok (ev_model E) st0 \<and> (\<exists>hid. runs (ev_fops E) (ev_model E) h st0 st hid)
     \<and> (h = [] \<or> ms_position st \<le> md_max_position (ev_model E))"

lemma at_start: "model_ok (ev_model E) st0 \<Longrightarrow> at_history E st0 [] st0"
  by (simp add: at_history_def runs_Nil)

lemma at_ok: "at_history E st0 h st \<Longrightarrow> model_ok (ev_model E) st"
  by (auto simp: at_history_def intro: runs_ok)

lemma at_determ: "at_history E st0 h st \<Longrightarrow> at_history E st0 h st' \<Longrightarrow> st' = st"
  by (auto simp: at_history_def dest: runs_determ)

lemma at_run:
  assumes "at_history E st0 h st" and "runs (ev_fops E) (ev_model E) xs st st' hid"
    and "xs \<noteq> [] \<Longrightarrow> ms_position st' \<le> md_max_position (ev_model E)"
  shows "at_history E st0 (h @ xs) st'"
proof -
  from assms(1) obtain hid0 where *: "model_ok (ev_model E) st0" "runs (ev_fops E) (ev_model E) h st0 st hid0"
    by (auto simp: at_history_def)
  have "runs (ev_fops E) (ev_model E) (h @ xs) st0 st' (hid0 @ hid)" using target.run_compose [OF * assms(2)] .
  moreover have "st' = st" if "xs = []" using that assms(1,2) at_ok runs_Nil by blast
  ultimately show ?thesis using *(1) assms(1,3) by (auto simp: at_history_def)
qed

lemma at_prefix:
  assumes "at_history E st0 (h @ xs) st"
  shows "\<exists>st1 hid. at_history E st0 h st1 \<and> runs (ev_fops E) (ev_model E) xs st1 st hid
    \<and> (xs \<noteq> [] \<longrightarrow> ms_position st1 + length xs \<le> md_max_position (ev_model E))"
proof -
  from assms have ok: "model_ok (ev_model E) st0" by (simp add: at_history_def)
  from assms obtain st1 h1 h2 where *: "runs (ev_fops E) (ev_model E) h st0 st1 h1" "runs (ev_fops E) (ev_model E) xs st1 st h2"
    by (auto simp: at_history_def runs_append [OF ok])
  with ok assms runs_position [OF *(2)] show ?thesis
    by (intro exI [of _ st1] exI [of _ h2]) (auto simp: at_history_def)
qed

text \<open>The oracle reads the last logits row of any pass that ends the history.\<close>

lemma model_next_run:
  assumes "at_history E st0 h st" and "h \<noteq> []" and "runs (ev_fops E) (ev_model E) h st0 st hid"
  shows "model_next E st0 h = score (ev_fops E) (md_lm_head (ev_model E) (last hid))"
proof -
  from assms(1) have ok: "model_ok (ev_model E) st0" by (simp add: at_history_def)
  have "forward_detailed (ev_fops E) (ev_threads E) (ev_model E) h st0 = (st, Inr (pass_output (ev_model E) AllRows hid))"
    using assms runs_position [OF assms(3)]
    by (auto simp: forward_detailed_iff [OF ok] pass_output_def at_history_def)
  moreover have "hid \<noteq> []" using runs_length [OF ok assms(3)] assms(2) by auto
  ultimately show ?thesis by (simp add: model_next_def pass_output_def last_map)
qed

lemma model_next_rows:
  assumes at: "at_history E st0 h st" and run: "runs (ev_fops E) (ev_model E) xs st st' hid" and i: "i < length xs"
    and pos: "ms_position st' \<le> md_max_position (ev_model E)"
  shows "model_next E st0 (h @ take (Suc i) xs) = score (ev_fops E) (md_lm_head (ev_model E) (hid ! i))"
proof -
  have ok: "model_ok (ev_model E) st" using at by (rule at_ok)
  from target.run_take [OF ok run, of "Suc i"] obtain s1
    where s1: "runs (ev_fops E) (ev_model E) (take (Suc i) xs) st s1 (take (Suc i) hid)" by blast
  have len: "length hid = length xs" using runs_length [OF ok run] .
  have "ms_position s1 \<le> md_max_position (ev_model E)"
    using runs_position [OF s1] runs_position [OF run] pos i by simp
  with at s1 have at1: "at_history E st0 (h @ take (Suc i) xs) s1" by (rule at_run)
  from at obtain hid0 where "runs (ev_fops E) (ev_model E) h st0 st hid0" by (auto simp: at_history_def)
  with at s1 have "runs (ev_fops E) (ev_model E) (h @ take (Suc i) xs) st0 s1 (hid0 @ take (Suc i) hid)"
    by (intro target.run_compose) (auto simp: at_history_def)
  moreover have "last (hid0 @ take (Suc i) hid) = hid ! i" using len i by (simp add: take_Suc_conv_app_nth)
  ultimately show ?thesis using model_next_run [OF at1] i by fastforce
qed

lemma drop_last_one: "xs \<noteq> [] \<Longrightarrow> drop (length xs - Suc 0) xs = [last xs]"
  by (induction xs rule: rev_induct) auto

text \<open>What a successful pass over \<open>xs\<close> tells about the oracle.\<close>

lemma pass_facts:
  assumes at: "at_history E st0 h st"
    and pass: "forward_detailed_logits (ev_fops E) (ev_threads E) (ev_model E) xs st rows = (st', Inr out)"
  shows "at_history E st0 (h @ xs) st'" and "xs \<noteq> []"
    and "score (ev_fops E) (last (fo_logits out)) = model_next E st0 (h @ xs)"
    and "rows = AllRows \<Longrightarrow> length (fo_logits out) = length xs"
    and "rows = AllRows \<Longrightarrow> i < length xs \<Longrightarrow> score (ev_fops E) (fo_logits out ! i) = model_next E st0 (h @ take (Suc i) xs)"
    and "length (fo_hidden out) = length xs"
proof -
  have ok: "model_ok (ev_model E) st" using at by (rule at_ok)
  from pass have ne: "xs \<noteq> []" and pos: "ms_position st + length xs \<le> md_max_position (ev_model E)"
    and run: "runs (ev_fops E) (ev_model E) xs st st' (fo_hidden out)"
    and out: "out = pass_output (ev_model E) rows (fo_hidden out)"
    by (simp_all add: forward_detailed_logits_iff [OF ok])
  have pos': "ms_position st' \<le> md_max_position (ev_model E)" using runs_position [OF run] pos by simp
  show len: "length (fo_hidden out) = length xs" using runs_length [OF ok run] .
  have hne: "fo_hidden out \<noteq> []" using ne len by auto
  have logits: "fo_logits out = map (md_lm_head (ev_model E)) (case rows of AllRows \<Rightarrow> fo_hidden out
      | LastRow \<Rightarrow> drop (length (fo_hidden out) - 1) (fo_hidden out))"
    using out by (metis forward_output.select_convs(1) pass_output_def)
  show "at_history E st0 (h @ xs) st'" using at_run [OF at run] pos' by blast
  show "xs \<noteq> []" by (fact ne)
  have row: "score (ev_fops E) (md_lm_head (ev_model E) (fo_hidden out ! i)) = model_next E st0 (h @ take (Suc i) xs)"
    if "i < length xs" for i
    using model_next_rows [OF at run that pos'] by simp
  have "last (fo_logits out) = md_lm_head (ev_model E) (last (fo_hidden out))"
    using hne by (cases rows) (simp_all add: logits last_map drop_last_one)
  then show "score (ev_fops E) (last (fo_logits out)) = model_next E st0 (h @ xs)"
    using row [of "length xs - 1"] ne len by (simp add: last_conv_nth [OF hne])
  show "rows = AllRows \<Longrightarrow> length (fo_logits out) = length xs" using len by (simp add: logits)
  show "rows = AllRows \<Longrightarrow> i < length xs \<Longrightarrow> score (ev_fops E) (fo_logits out ! i) = model_next E st0 (h @ take (Suc i) xs)"
    using row [of i] len by (simp add: logits)
qed

text \<open>Conversely, a pass to a history that can be reached succeeds.\<close>

lemma pass_reaches:
  assumes "at_history E st0 h st" and "at_history E st0 (h @ xs) st'" and "xs \<noteq> []"
  shows "\<exists>out. forward_detailed_logits (ev_fops E) (ev_threads E) (ev_model E) xs st rows = (st', Inr out)"
proof -
  from at_prefix [OF assms(2)] obtain st1 hid where *: "at_history E st0 h st1"
    "runs (ev_fops E) (ev_model E) xs st1 st' hid" "ms_position st1 + length xs \<le> md_max_position (ev_model E)"
    using assms(3) by blast
  have "st1 = st" using at_determ [OF assms(1) *(1)] .
  with * assms(3) show ?thesis
    by (intro exI [of _ "pass_output (ev_model E) rows hid"])
      (simp add: forward_detailed_logits_iff [OF at_ok [OF assms(1)]] pass_output_def)
qed

lemma greedy_sampler:
  assumes "f_eq (ev_fops E) (sc_temperature (sm_config sampler)) (f_zero (ev_fops E))"
  shows "snd (sample_row E sampler logits) = Inr t \<longleftrightarrow> score (ev_fops E) (last logits) = Inr t"
    and "fst (sample_row E sampler logits) = sampler"
proof -
  have "argmax (ev_fops E) [] = Inl NonFiniteLogits" by (simp add: argmax_def finite_logits_def max_by_def)
  with assms show "snd (sample_row E sampler logits) = Inr t \<longleftrightarrow> score (ev_fops E) (last logits) = Inr t"
    and "fst (sample_row E sampler logits) = sampler"
    by (auto simp: sample_row_def sample_def score_def lift_sampling_def bindE_def split: sum.splits)
qed

section \<open>Evaluating, announcing and closing\<close>

text \<open>
  The two paths evaluate a token and announce one with different actions. What the proofs
  use of them is the same: an evaluation extends the history and yields logits the oracle
  agrees with; an announcement hands the token to the sink and touches nothing else.
\<close>

definition evaluates ::
    "('f, 'r) env \<Rightarrow> 'f model_state \<Rightarrow> (u32 \<Rightarrow> ('f, 'c, 'f list list) run_action) \<Rightarrow> bool" where
  "evaluates E st0 ev \<longleftrightarrow> (\<forall>t. silent (ev t)) \<and>
     (\<forall>h t rt c s' l. at_history E st0 h (rt_state rt) \<and> ev t (rt, c) = (s', Inr l) \<longrightarrow>
        (\<exists>rt'. s' = (rt', c) \<and> at_history E st0 (h @ [t]) (rt_state rt') \<and> rt_snapshots rt' = rt_snapshots rt
           \<and> score (ev_fops E) (last l) = model_next E st0 (h @ [t])))"

definition announces :: "'c sink \<Rightarrow> (u32 \<Rightarrow> ('f, 'c, unit) run_action) \<Rightarrow> bool" where
  "announces cb ann \<longleftrightarrow> (\<forall>t rt c. \<exists>rt'. rt_state rt' = rt_state rt \<and> rt_snapshots rt' = rt_snapshots rt \<and>
     ann t (rt, c) = (case cb t c of (c', ok) \<Rightarrow> if ok then ((rt', c'), Inr ())
        else ((rt'\<lparr>rt_pending := Some t\<rparr>, c'), Inl CallbackFailure)))"

lemma evaluatesD:
  assumes "evaluates E st0 ev" "at_history E st0 h (rt_state rt)" "ev t (rt, c) = (s', r)" "proper r"
  obtains rt' l where "r = Inr l" "s' = (rt', c)" "at_history E st0 (h @ [t]) (rt_state rt')"
    "rt_snapshots rt' = rt_snapshots rt" "score (ev_fops E) (last l) = model_next E st0 (h @ [t])"
proof (cases r)
  case (Inl e)
  with assms(1,3,4) have "snd (ev t (rt, c)) = Inl CallbackFailure" by simp
  with assms(1) show ?thesis unfolding evaluates_def silent_def by blast
next
  case (Inr l)
  with assms(2,3) have "at_history E st0 h (rt_state rt) \<and> ev t (rt, c) = (s', Inr l)" by simp
  with assms(1) obtain rt' where "s' = (rt', c)" "at_history E st0 (h @ [t]) (rt_state rt')"
    "rt_snapshots rt' = rt_snapshots rt" "score (ev_fops E) (last l) = model_next E st0 (h @ [t])"
    unfolding evaluates_def by meson
  with Inr show ?thesis by (rule that)
qed

lemma announcesE:
  assumes "announces cb ann" "ann t (rt, c) = (s', r)"
  obtains (taken) rt' c' where "cb t c = (c', True)" "s' = (rt', c')" "r = Inr ()" "rt_state rt' = rt_state rt"
      "rt_snapshots rt' = rt_snapshots rt"
    | (refused) rt' c' where "cb t c = (c', False)" "s' = (rt', c')" "r = Inl CallbackFailure"
      "rt_state rt' = rt_state rt" "rt_snapshots rt' = rt_snapshots rt" "rt_pending rt' = Some t"
proof -
  obtain c' ok where cb: "cb t c = (c', ok)" by (metis surj_pair)
  have "\<exists>rt'. rt_state rt' = rt_state rt \<and> rt_snapshots rt' = rt_snapshots rt \<and>
     ann t (rt, c) = (case cb t c of (c', ok) \<Rightarrow> if ok then ((rt', c'), Inr ())
        else ((rt'\<lparr>rt_pending := Some t\<rparr>, c'), Inl CallbackFailure))"
    using assms(1) unfolding announces_def by blast
  then obtain rt' where rt': "rt_state rt' = rt_state rt" "rt_snapshots rt' = rt_snapshots rt"
    "ann t (rt, c) = (if ok then ((rt', c'), Inr ()) else ((rt'\<lparr>rt_pending := Some t\<rparr>, c'), Inl CallbackFailure))"
    unfolding cb case_prod_conv by blast
  show thesis
  proof (cases ok)
    case True
    with cb rt' assms(2) show thesis by (intro taken [where rt' = rt' and c' = c']) simp_all
  next
    case False
    with cb rt' assms(2) show thesis
      by (intro refused [where rt' = "rt'\<lparr>rt_pending := Some t\<rparr>" and c' = c']) simp_all
  qed
qed

lemma close_loop_proper:
  assumes ev: "evaluates E st0 ev" and ann: "announces cb ann"
    and "at_history E st0 h (rt_state rt)"
    and "\<forall>l. logits = Some l \<longrightarrow> score (ev_fops E) (last l) = model_next E st0 h"
    and "close_loop (\<lambda>t. bindS (ann t) (\<lambda>_. ev t)) closure logits (rt, c) = (s', r)" and "proper r"
  shows "\<exists>h2 c2 rt2. s' = (rt2, c2) \<and> at_history E st0 h2 (rt_state rt2) \<and> rt_snapshots rt2 = rt_snapshots rt \<and>
    ((\<exists>l. r = Inr l \<and> force_emit cb closure h c = (h2, c2, None)
        \<and> (\<forall>l'. l = Some l' \<longrightarrow> score (ev_fops E) (last l') = model_next E st0 h2)) \<or>
     (\<exists>t. r = Inl CallbackFailure \<and> force_emit cb closure h c = (h2, c2, Some t) \<and> rt_pending rt2 = Some t))"
  using assms(3-)
proof (induction closure arbitrary: h rt c logits)
  case Nil
  then show ?case by auto
next
  case (Cons t closure)
  obtain s1 r1 where 1: "ann t (rt, c) = (s1, r1)" by (metis surj_pair)
  from ann 1 show ?case
  proof (cases rule: announcesE)
    case (taken rt1 c1)
    obtain s2 r2 where 2: "ev t (rt1, c1) = (s2, r2)" by (metis surj_pair)
    have "bindS (ann t) (\<lambda>_. ev t) (rt, c) = (s2, r2)"
      using 1 2 taken by (simp add: bindS_Inr)
    then have rest: "case r2 of Inl e \<Rightarrow> s' = s2 \<and> r = Inl e
         | Inr l \<Rightarrow> close_loop (\<lambda>t. bindS (ann t) (\<lambda>_. ev t)) closure (Some l) s2 = (s', r)"
      using Cons.prems(3) by (cases r2) (simp_all add: bindS_Inr bindS_Inl)
    have "proper r2" using rest Cons.prems(4) by (cases r2) auto
    with ev Cons.prems(1) 2 taken obtain rt2 l where l: "r2 = Inr l" "s2 = (rt2, c1)"
      "at_history E st0 (h @ [t]) (rt_state rt2)" "rt_snapshots rt2 = rt_snapshots rt1"
      "score (ev_fops E) (last l) = model_next E st0 (h @ [t])"
      by (metis evaluatesD)
    from rest l have "close_loop (\<lambda>t. bindS (ann t) (\<lambda>_. ev t)) closure (Some l) (rt2, c1) = (s', r)" by simp
    from Cons.IH [OF l(3) _ this Cons.prems(4)] l(4,5) taken show ?thesis by auto
  next
    case (refused rt1 c1)
    with 1 have "bindS (ann t) (\<lambda>_. ev t) (rt, c) = (s1, Inl CallbackFailure)" by (simp add: bindS_Inl)
    with Cons.prems(3) have "s' = s1" "r = Inl CallbackFailure" by (simp_all add: bindS_Inl)
    with refused Cons.prems(1) show ?thesis by auto
  qed
qed

lemma force_close_proper:
  assumes ev: "evaluates E st0 ev" and ann: "announces cb ann"
    and at: "at_history E st0 h (rt_state rt)"
    and run: "force_close ev ann pending closure (rt, c) = (s', r)" and r: "proper r"
    and h1: "h1 = h @ (case pending of None \<Rightarrow> [] | Some t \<Rightarrow> [t])"
  shows "\<exists>h2 c2 rt2. s' = (rt2, c2) \<and> at_history E st0 h2 (rt_state rt2) \<and> rt_snapshots rt2 = rt_snapshots rt \<and>
    ((\<exists>l. r = Inr l \<and> force_emit cb closure h1 c = (h2, c2, None) \<and> score (ev_fops E) (last l) = model_next E st0 h2) \<or>
     (\<exists>t. r = Inl CallbackFailure \<and> force_emit cb closure h1 c = (h2, c2, Some t) \<and> rt_pending rt2 = Some t))"
proof -
  have start: "\<exists>rt1 logits. at_history E st0 h1 (rt_state rt1) \<and> rt_snapshots rt1 = rt_snapshots rt
      \<and> (\<forall>l. logits = Some l \<longrightarrow> score (ev_fops E) (last l) = model_next E st0 h1)
      \<and> bindS (close_loop (\<lambda>t. bindS (ann t) (\<lambda>_. ev t)) closure logits)
          (\<lambda>l. case l of None \<Rightarrow> failS NoClosureLogits | Some l \<Rightarrow> returnS l) (rt1, c) = (s', r)"
  proof (cases pending)
    case None
    with at run h1 show ?thesis by (intro exI [of _ rt] exI [of _ None]) (simp add: force_close_def)
  next
    case (Some t)
    obtain s1 r1 where 1: "ev t (rt, c) = (s1, r1)" by (metis surj_pair)
    have "proper r1" using run r Some 1 by (cases r1) (auto simp: force_close_def bindS_def)
    with ev at 1 obtain rt1 l where l: "r1 = Inr l" "s1 = (rt1, c)" "at_history E st0 (h @ [t]) (rt_state rt1)"
      "rt_snapshots rt1 = rt_snapshots rt" "score (ev_fops E) (last l) = model_next E st0 (h @ [t])"
      by (metis evaluatesD)
    with run Some 1 h1 show ?thesis
      by (intro exI [of _ rt1] exI [of _ "Some l"]) (simp add: force_close_def bindS_def)
  qed
  then obtain rt1 logits where at1: "at_history E st0 h1 (rt_state rt1)" and sn1: "rt_snapshots rt1 = rt_snapshots rt"
    and sc: "\<forall>l. logits = Some l \<longrightarrow> score (ev_fops E) (last l) = model_next E st0 h1"
    and run1: "bindS (close_loop (\<lambda>t. bindS (ann t) (\<lambda>_. ev t)) closure logits)
          (\<lambda>l. case l of None \<Rightarrow> failS NoClosureLogits | Some l \<Rightarrow> returnS l) (rt1, c) = (s', r)"
    by blast
  obtain s2 r2 where 2: "close_loop (\<lambda>t. bindS (ann t) (\<lambda>_. ev t)) closure logits (rt1, c) = (s2, r2)"
    by (rule prod.exhaust)
  have "proper r2" using run1 r 2 by (cases r2) (auto simp: bindS_Inl)
  from close_loop_proper [OF ev ann at1 sc 2 this] obtain h2 c2 rt2 where *: "s2 = (rt2, c2) \<and>
     at_history E st0 h2 (rt_state rt2) \<and> rt_snapshots rt2 = rt_snapshots rt1 \<and>
     ((\<exists>l. r2 = Inr l \<and> force_emit cb closure h1 c = (h2, c2, None)
        \<and> (\<forall>l'. l = Some l' \<longrightarrow> score (ev_fops E) (last l') = model_next E st0 h2)) \<or>
     (\<exists>t. r2 = Inl CallbackFailure \<and> force_emit cb closure h1 c = (h2, c2, Some t) \<and> rt_pending rt2 = Some t))"
    by (elim exE)
  note s2 = * [THEN conjunct1] * [THEN conjunct2, THEN conjunct1] * [THEN conjunct2, THEN conjunct2, THEN conjunct1]
  note out = * [THEN conjunct2, THEN conjunct2, THEN conjunct2]
  from out show ?thesis
  proof (elim disjE exE conjE)
    fix l assume l: "r2 = Inr l" "force_emit cb closure h1 c = (h2, c2, None)"
      "\<forall>l'. l = Some l' \<longrightarrow> score (ev_fops E) (last l') = model_next E st0 h2"
    with run1 r 2 s2 sn1 show ?thesis by (cases l) (auto simp: bindS_Inr)
  next
    fix t assume "r2 = Inl CallbackFailure" "force_emit cb closure h1 c = (h2, c2, Some t)" "rt_pending rt2 = Some t"
    with run1 2 s2 sn1 show ?thesis by (auto simp: bindS_Inl)
  qed
qed

lemma announces_emit: "announces cb (emit cb)"
  unfolding announces_def emit_def by (auto split: prod.splits)

lemma announces_announce: "announces cb (announce cb)"
  unfolding announces_def announce_def emit_def
proof (intro allI)
  fix t rt c
  show "\<exists>rt'. rt_state rt' = rt_state rt \<and> rt_snapshots rt' = rt_snapshots rt \<and>
     bindS (upd (push_token t)) (\<lambda>_ (rt, c). case cb t c of (c', ok) \<Rightarrow> if ok then ((rt, c'), Inr ())
        else ((rt\<lparr>rt_pending := Some t\<rparr>, c'), Inl CallbackFailure)) (rt, c) =
     (case cb t c of (c', ok) \<Rightarrow> if ok then ((rt', c'), Inr ())
        else ((rt'\<lparr>rt_pending := Some t\<rparr>, c'), Inl CallbackFailure))"
    by (intro exI [of _ "push_token t rt"]) simp
qed

lemma evaluates_forward: "evaluates E st0 (\<lambda>t. rt_forward E [t])"
proof -
  have "\<exists>rt'. s' = (rt', c) \<and> at_history E st0 (h @ [t]) (rt_state rt') \<and> rt_snapshots rt' = rt_snapshots rt
           \<and> score (ev_fops E) (last l) = model_next E st0 (h @ [t])"
    if at: "at_history E st0 h (rt_state rt)" and run: "rt_forward E [t] (rt, c) = (s', Inr l)" for h t s' l and rt :: "'a runtime" and c :: 'c
  proof -
    from run obtain st out where "forward_detailed_logits (ev_fops E) (ev_threads E) (ev_model E) [t] (rt_state rt) LastRow
        = (st, Inr out)" "s' = (rt\<lparr>rt_state := st\<rparr>, c)" "l = fo_logits out"
      by (auto simp: rt_forward_def bindS_Inr_iff on_state_def split: prod.splits)
    with pass_facts [OF at this(1)] show ?thesis by simp
  qed
  then show ?thesis unfolding evaluates_def using silent_rt_forward by blast
qed

lemma evaluates_authoritative: "evaluates E st0 (evaluate_authoritative E track)"
proof -
  have "\<exists>rt'. s' = (rt', c) \<and> at_history E st0 (h @ [t]) (rt_state rt') \<and> rt_snapshots rt' = rt_snapshots rt
           \<and> score (ev_fops E) (last l) = model_next E st0 (h @ [t])"
    if at: "at_history E st0 h (rt_state rt)" and run: "evaluate_authoritative E track t (rt, c) = (s', Inr l)" for h t s' l and rt :: "'a runtime" and c :: 'c
  proof -
    from run obtain st out s1 row where fwd: "forward_detailed (ev_fops E) (ev_threads E) (ev_model E) [t] (rt_state rt)
        = (st, Inr out)"
      and gap: "(if track then retain_mtp_gap E [t] (fo_hidden out) (rt_last_hidden rt) else returnS ())
          (rt\<lparr>rt_state := st\<rparr>, c) = (s1, Inr ())"
      and s': "s' = ((fst s1)\<lparr>rt_last_hidden := Some row\<rparr>, snd s1)" and l: "l = fo_logits out"
      by (auto simp: evaluate_authoritative_def bindS_Inr_iff on_state_def split: prod.splits)
    have "core s1 = core (rt\<lparr>rt_state := st\<rparr>, c)"
    proof -
      let ?m = "if track then retain_mtp_gap E [t] (fo_hidden out) (rt_last_hidden rt) else returnS ()"
      have "quiet core ?m" by (intro quiet_intros)
      then show ?thesis using gap by (rule quietD [of core ?m])
    qed
    then have "rt_state (fst s1) = st" "rt_snapshots (fst s1) = rt_snapshots rt" "snd s1 = c"
      by (auto simp: core_def split: prod.splits)
    with s' l pass_facts [OF at fwd [unfolded forward_detailed_def]] show ?thesis by simp
  qed
  then show ?thesis unfolding evaluates_def using silent_evaluate_authoritative by blast
qed

end
