(* ===== verification/Policy_Turn.thy ===== *)
theory Policy_Turn
  imports Policy_Correct
begin

text \<open>
  The speculative turn computes the greedy turn of the target model. Bottom up: a sampled
  token, a forced closure and the token after it, a draft, a verified pass, the emission of a
  pass, the loop, the turn. \<open>greedy_at\<close> and \<open>resume_at\<close> are \<open>greedy\<close> and \<open>resume\<close> with the
  model as the oracle and the turn's options; every lemma gives the outcome left to reach.
\<close>

section \<open>Outcomes\<close>

abbreviation greedy_at ::
    "('f, 'r) env \<Rightarrow> 'f generation_options \<Rightarrow> 'c sink \<Rightarrow> 'f model_state \<Rightarrow> u32 list \<Rightarrow> u32 list \<Rightarrow> thinking option
      \<Rightarrow> 'c \<Rightarrow> (run_error, 'c) outcome" where
  "greedy_at E opts cb st0 \<equiv> greedy (model_next E st0) (is_stop_token E opts) (go_max_new_tokens opts) cb"

abbreviation resume_at ::
    "('f, 'r) env \<Rightarrow> 'f generation_options \<Rightarrow> 'c sink \<Rightarrow> 'f model_state \<Rightarrow> u32 list \<Rightarrow> u32 list \<Rightarrow> u32 option
      \<Rightarrow> thinking option \<Rightarrow> 'c \<Rightarrow> (run_error, 'c) outcome" where
  "resume_at E opts cb st0 \<equiv> resume (model_next E st0) (is_stop_token E opts) (go_max_new_tokens opts) cb"

text \<open>The forced closure after \<open>h\<close>, then the rest of the turn.\<close>

definition closed_at ::
    "('f, 'r) env \<Rightarrow> 'f generation_options \<Rightarrow> 'c sink \<Rightarrow> 'f model_state \<Rightarrow> u32 list \<Rightarrow> u32 list \<Rightarrow> u32 list
      \<Rightarrow> thinking option \<Rightarrow> 'c \<Rightarrow> (run_error, 'c) outcome" where
  "closed_at E opts cb st0 closure h g th c =
     (case force_emit cb closure h c of
        (h2, c2, Some tok) \<Rightarrow> Halted h2 tok c2
      | (h2, c2, None) \<Rightarrow> greedy_at E opts cb st0 h2 g th c2)"

text \<open>A session the sink halted: the refused token is pending, what precedes it evaluated.\<close>

definition halted_at ::
    "('f, 'r) env \<Rightarrow> 'f model_state \<Rightarrow> (run_error, 'c) outcome \<Rightarrow> ('f, 'c) session \<Rightarrow> bool" where
  "halted_at E st0 out s \<longleftrightarrow> (\<exists>h t. out = Halted h t (snd s) \<and> rt_pending (fst s) = Some t
     \<and> at_history E st0 h (rt_state (fst s)))"

definition session_at ::
    "('f, 'r) env \<Rightarrow> 'f model_state \<Rightarrow> u32 list \<Rightarrow> ('f, 'c) session \<Rightarrow> bool" where
  "session_at E st0 h s \<longleftrightarrow> at_history E st0 h (rt_state (fst s)) \<and> snapshots_ok (rt_snapshots (fst s))"

text \<open>
  A proper result of an action whose outcome is \<open>out\<close>: the sink halted the turn, or the
  action returned and \<open>cont\<close> of its value is the outcome left.
\<close>

definition meets ::
    "('f, 'r) env \<Rightarrow> 'f model_state \<Rightarrow> (run_error, 'c) outcome
      \<Rightarrow> (u32 list \<Rightarrow> 'a \<Rightarrow> 'c \<Rightarrow> (run_error, 'c) outcome) \<Rightarrow> ('f, 'c) session \<times> (run_error + 'a) \<Rightarrow> bool" where
  "meets E st0 out cont = (\<lambda>(s, r). snapshots_ok (rt_snapshots (fst s)) \<and>
     (case r of Inl e \<Rightarrow> e = CallbackFailure \<and> halted_at E st0 out s
      | Inr x \<Rightarrow> \<exists>h. session_at E st0 h s \<and> out = cont h x (snd s)))"

lemma meets_Inl [simp]: "meets E st0 out cont (s, Inl e) \<longleftrightarrow>
    snapshots_ok (rt_snapshots (fst s)) \<and> e = CallbackFailure \<and> halted_at E st0 out s"
  by (simp add: meets_def)

lemma meets_Inr [simp]: "meets E st0 out cont (s, Inr x) \<longleftrightarrow> (\<exists>h. session_at E st0 h s \<and> out = cont h x (snd s))"
  by (auto simp: meets_def session_at_def)

text \<open>Sequencing: the outcome left by the first action is the outcome of the second.\<close>

lemma meets_bind:
  assumes run: "bindS m f s = (s', r)" and r: "proper r"
    and first: "\<And>s1 r1. m s = (s1, r1) \<Longrightarrow> proper r1 \<Longrightarrow> meets E st0 out mid (s1, r1)"
    and second: "\<And>h x s1. session_at E st0 h s1 \<Longrightarrow> out = mid h x (snd s1) \<Longrightarrow> f x s1 = (s', r) \<Longrightarrow>
      meets E st0 out cont (s', r)"
  shows "meets E st0 out cont (s', r)"
proof -
  obtain s1 r1 where m: "m s = (s1, r1)" by (rule prod.exhaust)
  show ?thesis
  proof (cases r1)
    case (Inl e)
    with m run have eq: "s' = s1" "r = Inl e" by (simp_all add: bindS_Inl)
    with first [OF m] r Inl show ?thesis by simp
  next
    case (Inr x)
    with m run have rest: "f x s1 = (s', r)" by (simp add: bindS_Inr)
    from first [OF m] Inr obtain h where "session_at E st0 h s1" "out = mid h x (snd s1)" by auto
    then show ?thesis using rest by (rule second)
  qed
qed

section \<open>Sampling and closing\<close>

lemma sample_not_callback: "snd (sample_row E sampler logits) \<noteq> Inl CallbackFailure"
  by (simp add: sample_row_def split: prod.split)

lemma sample_and_emit_meets:
  assumes at: "session_at E st0 h (rt, c)" and th: "inactive th"
    and zero: "f_eq (ev_fops E) (sc_temperature (sm_config sampler)) (f_zero (ev_fops E))"
    and sc: "score (ev_fops E) (last logits) = model_next E st0 h"
    and run: "sample_and_emit E opts cb sampler logits g (rt, c) = (s', r)" and r: "proper r"
  shows "meets E st0 (greedy_at E opts cb st0 h g th c) (\<lambda>h (g, p). resume_at E opts cb st0 h g p th) (s', r)"
proof (cases "go_max_new_tokens opts \<le> length g")
  case True
  with run at show ?thesis by (auto simp: sample_and_emit_def greedy_inactive [OF th] resume_def)
next
  case False
  show ?thesis
  proof (cases "snd (sample_row E sampler logits)")
    case (Inl e)
    with run False r sample_not_callback [of E sampler logits] show ?thesis
      by (auto simp: sample_and_emit_def bindS_lift)
  next
    case (Inr t)
    then have nxt: "model_next E st0 h = Inr t" using greedy_sampler(1) [OF zero] sc by metis
    obtain s1 r1 where ann: "announce cb t (rt, c) = (s1, r1)" by (rule prod.exhaust)
    from announces_announce ann show ?thesis
    proof (cases rule: announcesE)
      case (taken rt' c')
      with run False Inr ann have "s' = (rt', c')" "r = Inr (g @ [t], Some t)"
        by (simp_all add: sample_and_emit_def bindS_lift bindS_Inr)
      with taken at False nxt show ?thesis
        by (auto simp: session_at_def greedy_inactive [OF th])
    next
      case (refused rt' c')
      with run False Inr ann have "s' = (rt', c')" "r = Inl CallbackFailure"
        by (simp_all add: sample_and_emit_def bindS_lift bindS_Inl)
      with refused at False nxt show ?thesis
        by (simp add: session_at_def halted_at_def greedy_inactive [OF th])
    qed
  qed
qed

text \<open>A forced closure leaves a session at the closure, or halts in it.\<close>

lemma force_close_meets:
  assumes ev: "evaluates E st0 ev" and ann: "announces cb ann" and at: "session_at E st0 h (rt, c)"
    and run: "force_close ev ann pending closure (rt, c) = (s', r)" and r: "proper r"
    and h1: "h1 = h @ (case pending of None \<Rightarrow> [] | Some t \<Rightarrow> [t])"
  shows "snapshots_ok (rt_snapshots (fst s')) \<and> (case r of
      Inl e \<Rightarrow> e = CallbackFailure \<and> halted_at E st0 (closed_at E opts cb st0 closure h1 g th c) s'
    | Inr l \<Rightarrow> \<exists>h2. session_at E st0 h2 s' \<and> score (ev_fops E) (last l) = model_next E st0 h2 \<and>
        closed_at E opts cb st0 closure h1 g th c = greedy_at E opts cb st0 h2 g th (snd s'))"
proof -
  have at': "at_history E st0 h (rt_state rt)" and sn: "snapshots_ok (rt_snapshots rt)"
    using at by (simp_all add: session_at_def)
  from force_close_proper [OF ev ann at' run r h1]
  obtain h2 c2 rt2 where *: "s' = (rt2, c2)" "at_history E st0 h2 (rt_state rt2)" "rt_snapshots rt2 = rt_snapshots rt"
    and out: "(\<exists>l. r = Inr l \<and> force_emit cb closure h1 c = (h2, c2, None) \<and> score (ev_fops E) (last l) = model_next E st0 h2) \<or>
     (\<exists>t. r = Inl CallbackFailure \<and> force_emit cb closure h1 c = (h2, c2, Some t) \<and> rt_pending rt2 = Some t)"
    by blast
  from out show ?thesis
  proof (elim disjE exE conjE)
    fix l assume "r = Inr l" "force_emit cb closure h1 c = (h2, c2, None)" "score (ev_fops E) (last l) = model_next E st0 h2"
    with * sn show ?thesis by (auto simp: closed_at_def session_at_def)
  next
    fix t assume "r = Inl CallbackFailure" "force_emit cb closure h1 c = (h2, c2, Some t)" "rt_pending rt2 = Some t"
    with * sn show ?thesis by (auto simp: closed_at_def halted_at_def)
  qed
qed

lemmas force_close_policy_meets = force_close_meets [OF evaluates_authoritative announces_announce,
    folded force_close_thinking_policy_def]

lemmas force_close_target_meets = force_close_meets [OF evaluates_forward announces_emit,
    folded force_close_thinking_target_only_def]

lemma close_and_sample_meets:
  assumes at: "session_at E st0 h (rt, c)" and th: "inactive th"
    and zero: "f_eq (ev_fops E) (sc_temperature (sm_config sampler)) (f_zero (ev_fops E))"
    and h1: "h1 = h @ (case pending of None \<Rightarrow> [] | Some t \<Rightarrow> [t])"
    and run: "bindS (force_close_thinking_policy E cb track pending closure) (\<lambda>closed.
        bindS (sample_and_emit E opts cb sampler closed g) (\<lambda>(g2, p2). returnS (k g2 p2))) (rt, c) = (s', r)"
    and r: "proper r"
    and resumes: "\<And>h g2 p2 c. cont h (k g2 p2) c = resume_at E opts cb st0 h g2 p2 th c"
  shows "meets E st0 (closed_at E opts cb st0 closure h1 g th c) cont (s', r)"
proof -
  let ?out = "closed_at E opts cb st0 closure h1 g th c"
  obtain s1 r1 where close: "force_close_thinking_policy E cb track pending closure (rt, c) = (s1, r1)"
    by (rule prod.exhaust)
  show ?thesis
  proof (cases r1)
    case (Inl e)
    with close run have "s' = s1" "r = Inl e" by (simp_all add: bindS_Inl)
    with force_close_policy_meets [OF at close _ h1] r Inl show ?thesis by simp
  next
    case (Inr l)
    with force_close_policy_meets [OF at close _ h1, of opts g th] obtain h2 where
      at2: "session_at E st0 h2 s1" "score (ev_fops E) (last l) = model_next E st0 h2"
      and out: "?out = greedy_at E opts cb st0 h2 g th (snd s1)"
      by auto
    have rest: "bindS (sample_and_emit E opts cb sampler l g) (\<lambda>(g2, p2). returnS (k g2 p2)) s1 = (s', r)"
      using run close Inr by (simp add: bindS_Inr)
    have at2': "session_at E st0 h2 (fst s1, snd s1)" using at2(1) by simp
    show ?thesis
    proof (rule meets_bind [OF rest r])
      fix s2 r2 assume "sample_and_emit E opts cb sampler l g s1 = (s2, r2)" "proper r2"
      with sample_and_emit_meets [OF at2' th zero at2(2), of opts cb g]
      show "meets E st0 ?out (\<lambda>h (g2, p2). resume_at E opts cb st0 h g2 p2 th) (s2, r2)"
        unfolding out by simp
    next
      fix h x s2
      assume "session_at E st0 h s2" "?out = (case x of (g2, p2) \<Rightarrow> resume_at E opts cb st0 h g2 p2 th) (snd s2)"
        "(case x of (g2, p2) \<Rightarrow> returnS (k g2 p2)) s2 = (s', r)"
      then show "meets E st0 ?out cont (s', r)" using resumes by (cases x) auto
    qed
  qed
qed

text \<open>One unfolding of the specification, in the three ways a pass can go on from a token.\<close>

lemma greedy_step:
  assumes "length g < go_max_new_tokens opts" and "model_next E st0 h = Inr t" and "cb t c = (c1, ok)"
    and "observe_opt th t (\<not> is_stop_token E opts t) = (th1, b)"
  shows "greedy_at E opts cb st0 h g th c =
    (if \<not> ok then Halted h t c1
     else if b = ForceClosure then closed_at E opts cb st0 (closure_of th1) (h @ [t]) (g @ [t] @ closure_of th1) th1 c1
     else resume_at E opts cb st0 h (g @ [t]) (Some t) th1 c1)"
proof -
  have "\<not> is_stop_token E opts t" if "b = ForceClosure"
    using that assms(4) observe_force_inactive by fastforce
  with assms show ?thesis
    by (subst greedy.simps) (auto simp: resume_def closed_at_def split: prod.splits option.splits)
qed

lemma first_token_meets:
  assumes at: "session_at E st0 h (rt, c)"
    and zero: "f_eq (ev_fops E) (sc_temperature (sm_config sampler)) (f_zero (ev_fops E))"
    and sc: "score (ev_fops E) (last logits) = model_next E st0 h"
    and run: "first_token E opts cb sampler track logits g th (rt, c) = (s', r)" and r: "proper r"
  shows "meets E st0 (greedy_at E opts cb st0 h g th c) (\<lambda>h (g, p, th). resume_at E opts cb st0 h g p th) (s', r)"
proof (cases "go_max_new_tokens opts \<le> length g")
  case True
  with run at show ?thesis
    by (auto simp: first_token_def sample_and_emit_def resume_def greedy.simps)
next
  case False
  show ?thesis
  proof (cases "snd (sample_row E sampler logits)")
    case (Inl e)
    with run False r sample_not_callback [of E sampler logits] show ?thesis
      by (auto simp: first_token_def sample_and_emit_def bindS_lift bindS_Inl)
  next
    case (Inr t)
    then have nxt: "model_next E st0 h = Inr t" using greedy_sampler(1) [OF zero] sc by metis
    obtain s1 r1 where ann: "announce cb t (rt, c) = (s1, r1)" by (rule prod.exhaust)
    obtain th1 b where obs: "observe_opt th t (\<not> is_stop_token E opts t) = (th1, b)" by (rule prod.exhaust)
    from announces_announce ann show ?thesis
    proof (cases rule: announcesE)
      case (taken rt' c')
      note step = greedy_step [of g opts E st0 h t cb c c' True th th1 b, OF _ nxt taken(1) obs]
      from at taken have at': "session_at E st0 h (rt', c')" by (simp add: session_at_def)
      from taken ann False Inr have "sample_and_emit E opts cb sampler logits g (rt, c) = ((rt', c'), Inr (g @ [t], Some t))"
        by (simp add: sample_and_emit_def bindS_lift bindS_Inr)
      with run obs have rest: "(if b = ForceClosure
          then bindS (force_close_thinking_policy E cb track (Some t) (closure_of th1)) (\<lambda>closed.
               bindS (sample_and_emit E opts cb sampler closed ((g @ [t]) @ closure_of th1)) (\<lambda>(g2, pending2).
               returnS (g2, pending2, th1)))
          else returnS (g @ [t], Some t, th1)) (rt', c') = (s', r)"
        by (simp add: first_token_def bindS_Inr del: append_assoc)
      show ?thesis
      proof (cases "b = ForceClosure")
        case True
        with obs have "inactive th1" using observe_force_inactive by blast
        from close_and_sample_meets [OF at' this zero refl rest [unfolded if_P [OF True]] r,
            where cont = "\<lambda>h (g, p, th). resume_at E opts cb st0 h g p th"] True False
        show ?thesis unfolding step [OF False [unfolded not_le]] by simp
      next
        case go: False
        with rest have "s' = (rt', c')" "r = Inr (g @ [t], Some t, th1)" by simp_all
        with go False at' show ?thesis unfolding step [OF False [unfolded not_le]] by auto
      qed
    next
      case (refused rt' c')
      with ann False Inr have "sample_and_emit E opts cb sampler logits g (rt, c) = ((rt', c'), Inl CallbackFailure)"
        by (simp add: sample_and_emit_def bindS_lift bindS_Inl)
      with run have "s' = (rt', c')" "r = Inl CallbackFailure" by (simp_all add: first_token_def bindS_Inl)
      moreover from greedy_step [of g opts E st0 h t cb c c' False th th1 b, OF _ nxt refused(1) obs] False
      have "greedy_at E opts cb st0 h g th c = Halted h t c'" by simp
      ultimately show ?thesis using at refused by (simp add: session_at_def halted_at_def)
    qed
  qed
qed

section \<open>Drafts\<close>

text \<open>A draft of either source fits the budget and holds no stop token.\<close>

lemma mtp_draft_loop_bounded:
  assumes "mtp_draft_loop E opts head n t hs ds s = (s', Inr (ds', b))"
    and "\<forall>d \<in> set ds. \<not> is_stop_token E opts (dc_token d)"
  shows "length ds' \<le> length ds + n \<and> (\<forall>d \<in> set ds'. \<not> is_stop_token E opts (dc_token d))"
  using assms
proof (induction n arbitrary: t hs ds s)
  case 0
  then show ?case by simp
next
  case (Suc n)
  from Suc.prems(1) obtain s1 s2 s3 hid rows top margin probability where
    run: "(let draft = word_of_nat top in
     if is_stop_token E opts draft then returnS (ds, False)
     else if f_lt (ev_fops E) probability (go_mtp_min_confidence opts) then returnS (ds, True)
     else mtp_draft_loop E opts head n draft hid
            (ds @ [\<lparr>dc_token = draft, dc_margin = margin, dc_probability = probability\<rparr>])) s3 = (s', Inr (ds', b))"
    unfolding mtp_draft_loop.simps bindS_Inr_iff by (auto simp: Let_def)
  show ?case
  proof (cases "is_stop_token E opts (word_of_nat top)")
    case True
    with run Suc.prems show ?thesis by (simp add: Let_def)
  next
    case False
    show ?thesis
    proof (cases "f_lt (ev_fops E) probability (go_mtp_min_confidence opts)")
      case True
      with run False Suc.prems show ?thesis by (auto simp: Let_def)
    next
      case keep: False
      from run False keep have "mtp_draft_loop E opts head n (word_of_nat top) hid
            (ds @ [\<lparr>dc_token = word_of_nat top, dc_margin = margin, dc_probability = probability\<rparr>]) s3 = (s', Inr (ds', b))"
        by (simp add: Let_def)
      from Suc.IH [OF this] False Suc.prems(2) show ?thesis by auto
    qed
  qed
qed

lemma mtp_proposal_bounded:
  fixes s :: "('f, 'c) session"
  assumes "mtp_proposal E opts depth seed s = (s', Inr drafts)"
  shows "length drafts \<le> depth \<and> (\<forall>t \<in> set drafts. \<not> is_stop_token E opts t)"
proof (cases "depth = 0")
  case True
  with assms show ?thesis by (simp add: mtp_proposal_def)
next
  case False
  have pick: "length (map dc_token (case m of None \<Rightarrow> ds | Some th \<Rightarrow> takeWhile (\<lambda>d. f_le F th (dc_margin d)) ds)) \<le> length ds"
    "set (map dc_token (case m of None \<Rightarrow> ds | Some th \<Rightarrow> takeWhile (\<lambda>d. f_le F th (dc_margin d)) ds)) \<subseteq> dc_token ` set ds"
    for m ds and F :: "'f fops"
    by (auto split: option.split simp: length_takeWhile_le dest: set_takeWhileD)
  from assms False obtain head s2 hs ds b and s1 :: "('f, 'c) session" where
    loop: "mtp_draft_loop E opts head depth seed hs [] s1 = (s2, Inr (ds, b))" and
    drafts: "drafts = map dc_token (case go_mtp_min_margin opts of None \<Rightarrow> ds
      | Some th \<Rightarrow> takeWhile (\<lambda>d. f_le (ev_fops E) th (dc_margin d)) ds)"
    by (auto simp: mtp_proposal_def draft_mtp_def bindS_Inr_iff Let_def split: option.splits if_splits)
  from mtp_draft_loop_bounded [OF loop] pick [of ds "ev_fops E" "go_mtp_min_margin opts"] show ?thesis
    unfolding drafts by force
qed

lemma ngram_proposal_bounded:
  assumes "ngram_proposal E opts ix available len span budget = (choice, Some d)"
  shows "0 < budget \<and> length (nd_tokens d) \<le> budget \<and> (\<forall>t \<in> set (nd_tokens d). \<not> is_stop_token E opts t)"
proof -
  have "0 < budget \<and> ((\<exists>cursor :: span_cursor. continue_from ix (sp_next cursor) (min len budget) (sp_match_len cursor) (is_stop_token E opts) = Some d)
      \<or> draft ix (max (min len budget) 1) (go_ngram_min_match opts) (is_stop_token E opts) = Some d)"
    using assms by (auto simp: ngram_proposal_def Let_def split: if_splits option.splits)
  then show ?thesis
    using draft_bounded draft_stop_free continue_from_bounded continue_from_stop_free by fastforce
qed

lemma ngram_proposal_plain:
  "ngram_proposal E opts ix available len span budget = (ArmPlain, p) \<Longrightarrow> p = None"
  by (auto simp: ngram_proposal_def Let_def split: if_splits option.splits)

lemma draft_step_bounded:
  fixes s :: "('f, 'c) session"
  assumes "draft_step E opts loc seed s = (s', Inr d)"
  shows "length (df_drafts d) \<le> draft_budget opts (pl_generated loc) (pl_thinking loc)
    \<and> (\<forall>t \<in> set (df_drafts d). \<not> is_stop_token E opts t)"
proof -
  obtain na nav ma mav where polls: "poll (pl_ngram_arm loc) (length (pl_generated loc)) = (na, nav)"
      "poll (pl_mtp_arm loc) (length (pl_generated loc)) = (ma, mav)"
    by (metis surj_pair)
  obtain rt c where s: "s = (rt, c)" by (rule prod.exhaust)
  let ?b = "draft_budget opts (pl_generated loc) (pl_thinking loc)"
  obtain choice p where chosen: "ngram_proposal E opts (rt_ngram rt) nav (am_len na) (pl_span loc) ?b = (choice, p)"
    by (rule prod.exhaust)
  from assms polls chosen s obtain drafts and s1 :: "('f, 'c) session" where
    run: "(if choice = ArmPlain \<and> mav \<and> 0 < ?b then mtp_proposal E opts (min (am_len ma) ?b) seed
             else returnS (case p of None \<Rightarrow> [] | Some d \<Rightarrow> nd_tokens d)) (rt, c) = (s1, Inr drafts)"
    and d: "df_drafts d = drafts"
    by (auto simp: draft_step_def Let_def bindS_Inr_iff)
  show ?thesis
  proof (cases "choice = ArmPlain \<and> mav \<and> 0 < ?b")
    case True
    with run have "mtp_proposal E opts (min (am_len ma) ?b) seed (rt, c) = (s1, Inr drafts)" by simp
    with mtp_proposal_bounded d show ?thesis by fastforce
  next
    case False
    with run have "drafts = (case p of None \<Rightarrow> [] | Some d \<Rightarrow> nd_tokens d)" by simp
    with ngram_proposal_bounded [of E opts "rt_ngram rt" nav "am_len na" "pl_span loc" ?b choice] chosen d show ?thesis
      by (cases p) auto
  qed
qed

section \<open>A verified pass\<close>

lemma accept_loop_sound:
  "accept_loop F drafts rows = Inr n \<Longrightarrow> length drafts \<le> length rows \<Longrightarrow>
    n \<le> length drafts \<and> (\<forall>j < n. score F (rows ! j) = Inr (drafts ! j))"
proof (induction F drafts rows arbitrary: n rule: accept_loop.induct)
  case (1 F d drafts row rows)
  from "1.prems"(1) obtain i where i: "argmax F row = Inr i"
    and rest: "(if word_of_nat i = d then bindE (accept_loop F drafts rows) (\<lambda>n. Inr (Suc n)) else Inr 0) = Inr n"
    by (auto simp: bindE_Inr_iff)
  show ?case
  proof (cases "word_of_nat i = d")
    case True
    with rest obtain k where k: "accept_loop F drafts rows = Inr k" "n = Suc k" by (auto simp: bindE_Inr_iff)
    from "1.IH" [OF i True k(1)] "1.prems"(2) k(2) i True show ?thesis
      by (auto simp: score_def less_Suc_eq_0_disj)
  next
    case False
    with rest show ?thesis by simp
  qed
qed auto

text \<open>
  A rollback on a session at \<open>h @ xs\<close> to a row of the last snapshotted pass restores the
  session at the prefix of that row.
\<close>

definition can_undo ::
    "('f, 'r) env \<Rightarrow> 'f model_state \<Rightarrow> u32 list \<Rightarrow> nat \<Rightarrow> u32 list \<Rightarrow> 'f runtime \<Rightarrow> bool" where
  "can_undo E st0 h base xs rt \<longleftrightarrow> (\<forall>j < length xs. \<exists>st1.
     rollback (rt_state rt) (rt_snapshots rt) (base + j) = (st1, Inr ()) \<and> at_history E st0 (h @ take j xs) st1)"

lemma can_undo_Cons: "can_undo E st0 h base (x # xs) rt \<Longrightarrow> can_undo E st0 (h @ [x]) (Suc base) xs rt"
  unfolding can_undo_def
proof (intro allI impI)
  fix j assume all: "\<forall>j < length (x # xs). \<exists>st1. rollback (rt_state rt) (rt_snapshots rt) (base + j) = (st1, Inr ())
      \<and> at_history E st0 (h @ take j (x # xs)) st1" and "j < length xs"
  then have "Suc j < length (x # xs)" by simp
  with all show "\<exists>st1. rollback (rt_state rt) (rt_snapshots rt) (Suc base + j) = (st1, Inr ())
      \<and> at_history E st0 ((h @ [x]) @ take j xs) st1"
    by fastforce
qed

lemma can_undo_Nil [simp]: "can_undo E st0 h base [] rt"
  by (simp add: can_undo_def)

text \<open>The rows of a successful pass, rolled back to the committed ones.\<close>

lemma pass_commits:
  assumes at: "at_history E st0 h st" and sn: "snapshots_ok sn" and ts: "tokens = seed # drafts"
    and pass: "forward_detailed_with_snapshots (ev_fops E) (ev_threads E) (ev_model E) tokens st sn = (st', sn', Inr fwd)"
    and a: "a \<le> length drafts"
    and st2: "if a = length drafts then st2 = st' else rollback st' sn' (Suc a) = (st2, Inr ())"
    and rt: "rt_state rt = st2" "rt_snapshots rt = sn'"
  shows "at_history E st0 (h @ seed # take a drafts) st2" and "snapshots_ok sn'"
    and "can_undo E st0 (h @ [seed]) 1 (take a drafts) rt"
proof -
  let ?F = "ev_fops E" and ?M = "ev_model E"
  have ok: "model_ok ?M st" using at by (rule at_ok)
  have "tokens \<noteq> []" using ts by simp
  from forward_snapshots_spec [OF ok sn this, of ?F "ev_threads E"] pass
  have fwd: "forward_detailed ?F (ev_threads E) ?M tokens st = (st', Inr fwd)" and sn': "snapshots_ok sn'"
    and undo: "\<forall>r < length tokens. \<exists>st1 hid. rollback st' sn' r = (st1, Inr ()) \<and> runs ?F ?M (take r tokens) st st1 hid"
    by auto
  have whole: "at_history E st0 (h @ tokens) st'" using pass_facts(1) [OF at fwd [unfolded forward_detailed_def]] .
  then have pos: "ms_position st + length tokens \<le> md_max_position ?M"
    using at_prefix [OF whole] at_determ [OF at] ts by blast
  have prefix: "\<exists>st1. rollback st' sn' r = (st1, Inr ()) \<and> at_history E st0 (h @ take r tokens) st1"
    if "r < length tokens" for r
  proof -
    from undo that obtain st1 hid where *: "rollback st' sn' r = (st1, Inr ())" "runs ?F ?M (take r tokens) st st1 hid"
      by blast
    with at have "at_history E st0 (h @ take r tokens) st1"
      using runs_position [OF *(2)] pos that by (intro at_run) auto
    with * show ?thesis by blast
  qed
  have st2_at: "at_history E st0 (h @ take (Suc a) tokens) st2"
  proof (cases "a = length drafts")
    case True
    with whole st2 ts show ?thesis by simp
  next
    case False
    with prefix [of "Suc a"] st2 a ts show ?thesis by auto
  qed
  then show "at_history E st0 (h @ seed # take a drafts) st2" using ts by simp
  show "snapshots_ok sn'" by (fact sn')
  have "\<exists>st1. rollback st2 sn' (Suc j) = (st1, Inr ()) \<and> at_history E st0 ((h @ [seed]) @ take j drafts) st1" if j: "j < a" for j
  proof -
    from prefix [of "Suc j"] j a ts obtain st1 where
      st1: "rollback st' sn' (Suc j) = (st1, Inr ())" "at_history E st0 (h @ seed # take j drafts) st1"
      by auto
    have "rollback st2 sn' (Suc j) = (st1, Inr ())"
    proof (cases "a = length drafts")
      case True
      with st1 st2 show ?thesis by simp
    next
      case False
      with st2 have "rollback st' sn' (Suc a) = (st2, Inr ())" by simp
      with st1(1) j show ?thesis
        by (intro rollback_twice [OF at_ok [OF whole] at_ok [OF st2_at]]) simp_all
    qed
    with st1(2) show ?thesis by auto
  qed
  with a rt show "can_undo E st0 (h @ [seed]) 1 (take a drafts) rt"
    by (simp add: can_undo_def min_def)
qed

lemma verify_or_undo_Inr: "verify_or_undo E ts b s = (s1, Inr x) \<longleftrightarrow> verify_rows E ts b s = (s1, Inr x)"
  by (auto simp: verify_or_undo_def bindS_Inr_iff split: prod.splits sum.splits if_splits)

text \<open>What \<open>commit_rows\<close> does to the core: the rollback of the rejected rows.\<close>

lemma commit_rows_core:
  fixes s :: "('f, 'c) session"
  assumes "commit_rows E opts track tokens hidden rows prior (rt, c) = (s', Inr ch)"
  shows "\<exists>st. (if rows = length tokens then st = rt_state rt
      else rollback (rt_state rt) (rt_snapshots rt) rows = (st, Inr ())) \<and>
    rt_state (fst s') = st \<and> rt_snapshots (fst s') = rt_snapshots rt \<and> snd s' = c"
proof -
  let ?gap = "\<lambda>ch. if track
            then bindS (retain_mtp_gap E (take rows tokens) ch prior) (\<lambda>_.
                 if pt_eager_mtp_resync (go_policy opts) then bindS (catch_up_mtp E) (\<lambda>_. returnS ()) else returnS ())
            else returnS ()"
  from assms obtain s1 s2 row where
    first: "(if rows = length tokens then returnS hidden
            else bindS (rollback_to rows) (\<lambda>_. returnS (take rows hidden))) (rt, c) = (s1, Inr ch)"
    and gap: "?gap ch s1 = (s2, Inr ())" and s': "s' = ((fst s2)\<lparr>rt_last_hidden := Some row\<rparr>, snd s2)"
    unfolding commit_rows_def bindS_Inr_iff by (auto simp: Let_def)
  have "quiet core (?gap ch)" by (intro quiet_intros)
  from quietD [OF this gap] s' have core: "core s' = core s1" by (simp add: core_def split: prod.splits)
  show ?thesis
  proof (cases "rows = length tokens")
    case True
    with first core show ?thesis by (auto simp: core_def split: prod.splits)
  next
    case False
    with first obtain st where "rollback (rt_state rt) (rt_snapshots rt) rows = (st, Inr ())"
      "s1 = (rt\<lparr>rt_state := st\<rparr>, c)"
      by (auto simp: bindS_Inr_iff rollback_to_def split: prod.splits)
    with core False show ?thesis by (auto simp: core_def split: prod.splits)
  qed
qed

lemma verify_step_facts:
  fixes s' :: "('f, 'c) session"
  assumes at: "session_at E st0 h (rt, c)"
    and run: "verify_step E opts track seed drafts arm (rt, c) = (s', Inr (a, auth, ch))"
  shows "session_at E st0 (h @ seed # take a drafts) s'" and "snd s' = c" and "a \<le> length drafts"
    and "\<forall>j < a. model_next E st0 (h @ seed # take j drafts) = Inr (drafts ! j)"
    and "model_next E st0 (h @ seed # take a drafts) = Inr auth"
    and "can_undo E st0 (h @ [seed]) 1 (take a drafts) (fst s')"
proof -
  let ?F = "ev_fops E" and ?M = "ev_model E" and ?ts = "seed # drafts"
  have at': "at_history E st0 h (rt_state rt)" and sn: "snapshots_ok (rt_snapshots rt)"
    using at by (simp_all add: session_at_def)
  from run obtain s1 fwd i where
    rows: "verify_rows E ?ts (drafts \<noteq> []) (rt, c) = (s1, Inr fwd)"
    and len: "length (fo_logits fwd) = length ?ts"
    and acc: "accept_loop ?F drafts (fo_logits fwd) = Inr a"
    and i: "argmax ?F (fo_logits fwd ! a) = Inr i" and auth: "auth = word_of_nat i"
    and commit: "commit_rows E opts track ?ts (fo_hidden fwd) (1 + a) (rt_last_hidden rt)
      (case s1 of (rt, c) \<Rightarrow> (rt\<lparr>rt_accepted := rt_accepted rt + a,
                 rt_drafted := rt_drafted rt + (if arm_is_ngram arm then length drafts else 0)\<rparr>, c)) = (s', Inr ch)"
    by (auto simp: verify_step_def Let_def bindS_Inr_iff verify_or_undo_Inr accepted_draft_prefix_def bindE_Inr_iff
        split: if_splits)
  obtain st' sn' where pass: "forward_detailed ?F (ev_threads E) ?M ?ts (rt_state rt) = (st', Inr fwd)"
    and s1: "s1 = (rt\<lparr>rt_state := st', rt_snapshots := sn'\<rparr>, c)"
    and how: "if drafts = [] then sn' = rt_snapshots rt
      else forward_detailed_with_snapshots ?F (ev_threads E) ?M ?ts (rt_state rt) (rt_snapshots rt) = (st', sn', Inr fwd)"
  proof (cases "drafts = []")
    case True
    with rows that [of st' "rt_snapshots rt" for st'] show thesis
      by (auto simp: verify_rows_def on_state_def split: prod.splits)
  next
    case False
    with rows obtain st' sn' where *: "forward_detailed_with_snapshots ?F (ev_threads E) ?M ?ts (rt_state rt) (rt_snapshots rt)
        = (st', sn', Inr fwd)" "s1 = (rt\<lparr>rt_state := st', rt_snapshots := sn'\<rparr>, c)"
      by (auto simp: verify_rows_def split: prod.splits)
    have "forward_detailed ?F (ev_threads E) ?M ?ts (rt_state rt) = (st', Inr fwd)"
      using forward_snapshots_spec [OF at_ok [OF at'] sn, of ?ts ?F "ev_threads E"] *(1) by auto
    with * False that show thesis by simp
  qed
  have a: "a \<le> length drafts" and sc: "\<forall>j < a. score ?F (fo_logits fwd ! j) = Inr (drafts ! j)"
    using accept_loop_sound [OF acc] len by simp_all
  have row: "score ?F (fo_logits fwd ! j) = model_next E st0 (h @ seed # take j drafts)" if "j \<le> length drafts" for j
    using pass_facts(5) [OF at' pass [unfolded forward_detailed_def] refl, of j] that by simp
  show "a \<le> length drafts" by (fact a)
  show "\<forall>j < a. model_next E st0 (h @ seed # take j drafts) = Inr (drafts ! j)"
    using sc row a by simp
  show "model_next E st0 (h @ seed # take a drafts) = Inr auth"
    using row [OF a] i auth by (simp add: score_def)
  from commit_rows_core [OF commit [unfolded s1 case_prod_conv]] obtain st where
    st: "if 1 + a = length ?ts then st = st' else rollback st' sn' (1 + a) = (st, Inr ())"
    and s': "rt_state (fst s') = st" "rt_snapshots (fst s') = sn'" "snd s' = c"
    by (cases "a = length drafts") auto
  show "snd s' = c" by (fact s'(3))
  have "at_history E st0 (h @ seed # take a drafts) st \<and> snapshots_ok sn' \<and>
    can_undo E st0 (h @ [seed]) 1 (take a drafts) (fst s')"
  proof (cases "drafts = []")
    case True
    with st a how sn pass_facts(1) [OF at' pass [unfolded forward_detailed_def]] show ?thesis by simp
  next
    case False
    with how have "forward_detailed_with_snapshots ?F (ev_threads E) ?M ?ts (rt_state rt) (rt_snapshots rt) = (st', sn', Inr fwd)"
      by simp
    have "if a = length drafts then st = st' else rollback st' sn' (Suc a) = (st, Inr ())"
      using st by (cases "a = length drafts") simp_all
    from pass_commits [OF at' sn refl \<open>forward_detailed_with_snapshots _ _ _ _ _ _ = _\<close> a this s'(1,2)] show ?thesis by simp
  qed
  then show "session_at E st0 (h @ seed # take a drafts) s'"
    and "can_undo E st0 (h @ [seed]) 1 (take a drafts) (fst s')"
    using s' by (simp_all add: session_at_def)
qed

section \<open>Emitting a pass\<close>

lemma halt_pass_undoes:
  fixes s' :: "('f, 'c) session"
  assumes "can_undo E st0 h (Suc index) (t # ds) rt" and "accepted = index + length (t # ds)"
    and "halt_pass E hidden index accepted (rt, c) = (s', Inr ())"
  shows "at_history E st0 h (rt_state (fst s')) \<and> rt_snapshots (fst s') = rt_snapshots rt \<and> snd s' = c"
proof -
  let ?rows = "halted_pass_rows index accepted"
  let ?rest = "\<lambda>_. bindS (get (\<lambda>rt. (rt_gap_valid rt, ms_position (rt_state rt)))) (\<lambda>(valid, pos).
           bindS (if valid then truncate_mtp_gap E pos else returnS ()) (\<lambda>_.
           bindS (liftS (nth_hidden_row hidden (?rows - 1))) (\<lambda>row.
           upd (\<lambda>rt. rt\<lparr>rt_last_hidden := Some row\<rparr>))))"
  have rows: "?rows = Suc index" "?rows < 1 + accepted" using assms(2) by (simp_all add: halted_pass_rows_def)
  from assms(1) obtain st1 where st1: "rollback (rt_state rt) (rt_snapshots rt) (Suc index) = (st1, Inr ())"
    "at_history E st0 h st1"
    unfolding can_undo_def by fastforce
  from assms(3) rows st1 have rest: "?rest () (rt\<lparr>rt_state := st1\<rparr>, c) = (s', Inr ())"
    by (auto simp: halt_pass_def Let_def bindS_Inr_iff rollback_to_def)
  have "quiet core (?rest ())"
    by (intro quiet_intros quiet_upd) (simp add: core_simp)
  from quietD [OF this rest] st1(2) show ?thesis by (auto simp: core_def split: prod.splits)
qed

definition emitted_outcome ::
    "('f, 'r) env \<Rightarrow> 'f generation_options \<Rightarrow> 'c sink \<Rightarrow> 'f model_state \<Rightarrow> u32 list \<Rightarrow> emitted \<Rightarrow> 'c
      \<Rightarrow> (run_error, 'c) outcome" where
  "emitted_outcome E opts cb st0 h em c =
     (if em_done em then Finished h (em_pending em) (em_generated em) (em_thinking em) c
      else resume_at E opts cb st0 h (em_generated em) (em_pending em) (em_thinking em) c)"

lemma emitted_resumes [simp]:
  "\<not> em_done em \<Longrightarrow> emitted_outcome E opts cb st0 h em c =
     resume_at E opts cb st0 h (em_generated em) (em_pending em) (em_thinking em) c"
  by (simp add: emitted_outcome_def)

lemma refused_meets:
  assumes "halt_pass E hidden index accepted (rt, c1) = (s1, r1)"
    and "bindS (halt_pass E hidden index accepted) (\<lambda>_.
              bindS (upd (\<lambda>rt. rt\<lparr>rt_pending := Some t\<rparr>)) (\<lambda>_. failS CallbackFailure)) (rt, c1) = (s', r)"
    and "proper r"
    and "r1 = Inr () \<Longrightarrow> at_history E st0 h (rt_state (fst s1)) \<and> rt_snapshots (fst s1) = rt_snapshots rt \<and> snd s1 = c1"
    and "snapshots_ok (rt_snapshots rt)"
  shows "meets E st0 (Halted h t c1) cont (s', r)"
proof (cases r1)
  case (Inl e)
  have "e \<noteq> CallbackFailure" using silent_halt_pass [of E hidden index accepted] assms(1) Inl
    unfolding silent_def by (metis snd_conv)
  moreover have "r = Inl e" using assms(1,2) Inl by (simp add: bindS_Inl)
  ultimately show ?thesis using assms(3) by simp
next
  case (Inr u)
  then have at: "at_history E st0 h (rt_state (fst s1))" "rt_snapshots (fst s1) = rt_snapshots rt" "snd s1 = c1"
    using assms(4) by simp_all
  have "bindS (upd (\<lambda>rt. rt\<lparr>rt_pending := Some t\<rparr>)) (\<lambda>_. failS CallbackFailure) s1 = (s', r)"
    using assms(1,2) Inr by (simp add: bindS_Inr)
  with at assms(5) show ?thesis by (cases s1) (auto simp: halted_at_def)
qed

lemma emit_outputs_meets:
  assumes at: "session_at E st0 (h @ ds) (rt, c)"
    and zero: "f_eq (ev_fops E) (sc_temperature (sm_config sampler)) (f_zero (ev_fops E))"
    and next1: "\<forall>j < length ds. model_next E st0 (h @ take j ds) = Inr (ds ! j)"
    and next2: "model_next E st0 (h @ ds) = Inr auth"
    and undo: "can_undo E st0 h (Suc index) ds rt"
    and index: "accepted = index + length ds"
    and stops: "\<forall>t \<in> set ds. \<not> is_stop_token E opts t"
    and room: "length g + length ds < go_max_new_tokens opts"
    and budget: "\<forall>n. remaining_opt th = Some n \<longrightarrow> length ds \<le> n"
    and run: "emit_outputs E opts cb sampler track hidden accepted index (map (\<lambda>t. (t, True)) ds @ [(auth, False)]) g th pending
      (rt, c) = (s', r)" and r: "proper r"
  shows "meets E st0 (greedy_at E opts cb st0 h g th c) (emitted_outcome E opts cb st0) (s', r)"
  using assms(1,3-)
proof (induction ds arbitrary: h rt c index g th pending)
  case Nil
  obtain c1 ok where cb: "cb auth c = (c1, ok)" by (rule prod.exhaust)
  obtain th1 b where obs: "observe_opt th auth (\<not> is_stop_token E opts auth) = (th1, b)" by (rule prod.exhaust)
  let ?rt = "push_token auth rt"
  have at': "session_at E st0 h (?rt, c1)" using Nil.prems(1) by (simp add: session_at_def)
  have step: "greedy_at E opts cb st0 h g th c = (if \<not> ok then Halted h auth c1
     else if b = ForceClosure then closed_at E opts cb st0 (closure_of th1) (h @ [auth]) (g @ [auth] @ closure_of th1) th1 c1
     else resume_at E opts cb st0 h (g @ [auth]) (Some auth) th1 c1)"
    using Nil.prems by (intro greedy_step [where ok = ok, OF _ _ _ obs] cb) simp_all
  show ?case
  proof (cases ok)
    case False
    from Nil.prems(5) have "halt_pass E hidden index accepted (?rt, c1) = ((?rt, c1), Inr ())"
      by (simp add: halt_pass_def halted_pass_rows_def)
    with Nil.prems(9) cb False at' Nil.prems(10) show ?thesis unfolding step
      by (auto simp: session_at_def halted_at_def bindS_Inr)
  next
    case True
    note run = Nil.prems(9) [simplified, unfolded cb Let_def obs, simplified]
    show ?thesis
    proof (cases "b = ForceClosure")
      case force: True
      with obs have "inactive th1" using observe_force_inactive by blast
      from run True force have "bindS (force_close_thinking_policy E cb track (Some auth) (closure_of th1)) (\<lambda>closed.
                  bindS (sample_and_emit E opts cb sampler closed (g @ auth # closure_of th1)) (\<lambda>(g2, pending2).
                  returnS \<lparr>em_generated = g2, em_thinking = th1, em_pending = pending2,
                           em_closed = True, em_done = False\<rparr>)) (?rt, c1) = (s', r)"
        by simp
      from close_and_sample_meets [OF at' \<open>inactive th1\<close> zero refl this Nil.prems(10),
          where cont = "emitted_outcome E opts cb st0"] True force
      show ?thesis unfolding step by simp
    next
      case go: False
      from at' run True go Nil.prems(7) show ?thesis
        unfolding step by (auto simp: emitted_outcome_def resume_def split: if_splits)
    qed
  qed
next
  case (Cons t ds)
  obtain c1 ok where cb: "cb t c = (c1, ok)" by (rule prod.exhaust)
  obtain th1 b where obs: "observe_opt th t (\<not> is_stop_token E opts t) = (th1, b)" by (rule prod.exhaust)
  let ?rt = "push_token t rt"
  have nostop: "\<not> is_stop_token E opts t" using Cons.prems(6) by simp
  have nxt: "model_next E st0 h = Inr t" using Cons.prems(2) by force
  have step: "greedy_at E opts cb st0 h g th c = (if \<not> ok then Halted h t c1
     else if b = ForceClosure then closed_at E opts cb st0 (closure_of th1) (h @ [t]) (g @ [t] @ closure_of th1) th1 c1
     else resume_at E opts cb st0 h (g @ [t]) (Some t) th1 c1)"
    using Cons.prems(7) nxt by (intro greedy_step [OF _ _ _ obs] cb) simp_all
  have undo': "can_undo E st0 h (Suc index) (t # ds) ?rt" using Cons.prems(4) by (simp add: can_undo_def)
  note run = Cons.prems(9) [simplified, unfolded cb Let_def obs, simplified]
  show ?case
  proof (cases ok)
    case False
    obtain s1 r1 where halt: "halt_pass E hidden index accepted (?rt, c1) = (s1, r1)" by (rule prod.exhaust)
    from run False have "bindS (halt_pass E hidden index accepted) (\<lambda>_.
              bindS (upd (\<lambda>rt. rt\<lparr>rt_pending := Some t\<rparr>)) (\<lambda>_. failS CallbackFailure)) (?rt, c1) = (s', r)"
      by simp
    from halt this Cons.prems(10) have "meets E st0 (Halted h t c1) (emitted_outcome E opts cb st0) (s', r)"
    proof (rule refused_meets)
      assume "r1 = Inr ()"
      with halt_pass_undoes [OF undo' Cons.prems(5)] halt
      show "at_history E st0 h (rt_state (fst s1)) \<and> rt_snapshots (fst s1) = rt_snapshots ?rt \<and> snd s1 = c1" by simp
    qed (use Cons.prems(1) in \<open>simp add: session_at_def\<close>)
    with False show ?thesis unfolding step by simp
  next
    case True
    show ?thesis
    proof (cases "b = ForceClosure")
      case force: True
      with obs have "inactive th1" using observe_force_inactive by blast
      from observe_force_active [OF obs [unfolded force]] obtain n where n: "remaining_opt th = Some n" by blast
      have "ds = []" using observe_force_remaining [OF obs [unfolded force] n] Cons.prems(8) n by (cases ds) auto
      with Cons.prems(1) have at': "session_at E st0 (h @ [t]) (?rt, c1)" by (simp add: session_at_def)
      from run True force have "bindS (force_close_thinking_policy E cb track None (closure_of th1)) (\<lambda>closed.
                  bindS (sample_and_emit E opts cb sampler closed (g @ t # closure_of th1)) (\<lambda>(g2, pending2).
                  returnS \<lparr>em_generated = g2, em_thinking = th1, em_pending = pending2,
                           em_closed = True, em_done = False\<rparr>)) (?rt, c1) = (s', r)"
        by simp
      from close_and_sample_meets [OF at' \<open>inactive th1\<close> zero refl this Cons.prems(10),
          where cont = "emitted_outcome E opts cb st0"] True force
      show ?thesis unfolding step by simp
    next
      case go: False
      have left: "\<forall>n. remaining_opt th1 = Some n \<longrightarrow> length ds \<le> n"
        using observe_continue_remaining [OF obs] Cons.prems(8) by fastforce
      from run True go nostop Cons.prems(7) have rest: "emit_outputs E opts cb sampler track hidden accepted (index + 1)
          (map (\<lambda>t. (t, True)) ds @ [(auth, False)]) (g @ [t]) th1 None (?rt, c1) = (s', r)"
        by simp
      have "meets E st0 (greedy_at E opts cb st0 (h @ [t]) (g @ [t]) th1 c1) (emitted_outcome E opts cb st0) (s', r)"
      proof (rule Cons.IH [where rt = ?rt and index = "Suc index" and pending = None])
        show "\<forall>j < length ds. model_next E st0 ((h @ [t]) @ take j ds) = Inr (ds ! j)"
          using Cons.prems(2) by fastforce
      qed (use Cons.prems can_undo_Cons [OF undo'] left rest
          in \<open>simp_all add: session_at_def\<close>)
      with Cons.prems(7) nostop True go show ?thesis unfolding step by (simp add: resume_def)
    qed
  qed
qed

section \<open>The loop\<close>

lemma policy_step_meets:
  fixes s' :: "('f, 'c) session"
  assumes at: "session_at E st0 h (rt, c)"
    and zero: "f_eq (ev_fops E) (sc_temperature (sm_config sampler)) (f_zero (ev_fops E))"
    and room: "length (pl_generated loc) < go_max_new_tokens opts" and seed: "\<not> is_stop_token E opts seed"
    and run: "policy_step E opts cb sampler track loc seed (rt, c) = (s', r)" and r: "proper r"
  shows "meets E st0 (resume_at E opts cb st0 h (pl_generated loc) (Some seed) (pl_thinking loc) c)
    (\<lambda>h (loc, p, more) c. if more then resume_at E opts cb st0 h (pl_generated loc) p (pl_thinking loc) c
       else Finished h p (pl_generated loc) (pl_thinking loc) c) (s', r)"
proof -
  let ?out = "resume_at E opts cb st0 h (pl_generated loc) (Some seed) (pl_thinking loc) c"
  let ?cont = "\<lambda>h (loc, p, more) c. if more then resume_at E opts cb st0 h (pl_generated loc) p (pl_thinking loc) c
       else Finished h p (pl_generated loc) (pl_thinking loc) c"
  from silent_then [OF silent_draft_step run [unfolded policy_step_def] r] obtain s1 d where
    draft: "draft_step E opts loc seed (rt, c) = (s1, Inr d)"
    and run1: "bindS (verify_step E opts track seed (df_drafts d) (df_arm d)) (\<lambda>(accepted, authoritative, committed_hidden).
     bindS (get rt_ngram) (\<lambda>ix.
     let arms = observe_arms (ev_fops E) (df_arm d) (length (df_drafts d)) accepted
           (length (pl_generated loc) + (1 + accepted)) (df_ngram_arm d, df_mtp_arm d);
         span = next_span opts (df_arm d) (df_proposal d) (pl_span loc) accepted authoritative ix in
     bindS (emit_outputs E opts cb sampler track committed_hidden accepted 0
              (speculative_committed_outputs (df_drafts d) accepted authoritative)
              (pl_generated loc) (pl_thinking loc) (Some seed)) (\<lambda>em.
     returnS (\<lparr>pl_generated = em_generated em, pl_thinking = em_thinking em,
               pl_ngram_arm = fst arms, pl_mtp_arm = snd arms,
               pl_span = (if em_closed em then None else span)\<rparr>, em_pending em, \<not> em_done em)))) s1 = (s', r)"
    by blast
  from quietD [OF quiet_draft_step draft] obtain rt1 where s1: "s1 = (rt1, c)"
    and at1: "session_at E st0 h (rt1, c)"
    using at by (cases s1) (auto simp: core_def session_at_def)
  from draft_step_bounded [OF draft] have bound: "length (df_drafts d) \<le> draft_budget opts (pl_generated loc) (pl_thinking loc)"
    and stops: "\<forall>t \<in> set (df_drafts d). \<not> is_stop_token E opts t" by simp_all
  obtain s2 v where v: "verify_step E opts track seed (df_drafts d) (df_arm d) s1 = (s2, Inr v)"
    and run2: "(case v of (accepted, authoritative, committed_hidden) \<Rightarrow>
     bindS (get rt_ngram) (\<lambda>ix.
     let arms = observe_arms (ev_fops E) (df_arm d) (length (df_drafts d)) accepted
           (length (pl_generated loc) + (1 + accepted)) (df_ngram_arm d, df_mtp_arm d);
         span = next_span opts (df_arm d) (df_proposal d) (pl_span loc) accepted authoritative ix in
     bindS (emit_outputs E opts cb sampler track committed_hidden accepted 0
              (speculative_committed_outputs (df_drafts d) accepted authoritative)
              (pl_generated loc) (pl_thinking loc) (Some seed)) (\<lambda>em.
     returnS (\<lparr>pl_generated = em_generated em, pl_thinking = em_thinking em,
               pl_ngram_arm = fst arms, pl_mtp_arm = snd arms,
               pl_span = (if em_closed em then None else span)\<rparr>, em_pending em, \<not> em_done em)))) s2 = (s', r)"
    by (rule silent_then [OF silent_verify_step run1 r])
  obtain a auth ch where v': "v = (a, auth, ch)" by (rule prod_cases3)
  have verify: "verify_step E opts track seed (df_drafts d) (df_arm d) (rt1, c) = (s2, Inr (a, auth, ch))"
    using v unfolding s1 v' .
  have "\<exists>k. bindS (emit_outputs E opts cb sampler track ch a 0 (speculative_committed_outputs (df_drafts d) a auth)
              (pl_generated loc) (pl_thinking loc) (Some seed)) (\<lambda>em. returnS (k em, em_pending em, \<not> em_done em)) s2 = (s', r)
      \<and> (\<forall>em. pl_generated (k em) = em_generated em \<and> pl_thinking (k em) = em_thinking em)"
    using run2 unfolding v' by (cases s2) (fastforce simp: Let_def)
  then obtain k where run3: "bindS (emit_outputs E opts cb sampler track ch a 0 (speculative_committed_outputs (df_drafts d) a auth)
              (pl_generated loc) (pl_thinking loc) (Some seed)) (\<lambda>em. returnS (k em, em_pending em, \<not> em_done em)) s2 = (s', r)"
    and k: "\<And>em. pl_generated (k em) = em_generated em" "\<And>em. pl_thinking (k em) = em_thinking em"
    by blast
  let ?ds = "take a (df_drafts d)"
  note facts = verify_step_facts [OF at1 verify]
  have outputs: "speculative_committed_outputs (df_drafts d) a auth = map (\<lambda>t. (t, True)) ?ds @ [(auth, False)]"
    by (simp add: speculative_committed_outputs_def)
  have out: "?out = greedy_at E opts cb st0 (h @ [seed]) (pl_generated loc) (pl_thinking loc) c"
    using room seed by (simp add: resume_def)
  show ?thesis
  proof (rule meets_bind [OF run3 r])
    fix s3 r3
    assume emit: "emit_outputs E opts cb sampler track ch a 0 (speculative_committed_outputs (df_drafts d) a auth)
              (pl_generated loc) (pl_thinking loc) (Some seed) s2 = (s3, r3)" and r3: "proper r3"
    have s2: "(fst s2, c) = s2" using facts(2) by auto
    have budget: "\<forall>n. remaining_opt (pl_thinking loc) = Some n \<longrightarrow> length ?ds \<le> n"
      and fits: "length (pl_generated loc) + length ?ds < go_max_new_tokens opts"
      using bound room by (auto simp: draft_budget_def Let_def split: option.splits)
    show "meets E st0 ?out (emitted_outcome E opts cb st0) (s3, r3)"
      unfolding out
    proof (rule emit_outputs_meets [OF _ zero, where rt = "fst s2" and c = c and index = 0 and accepted = a and ds = ?ds])
      show "can_undo E st0 (h @ [seed]) (Suc 0) ?ds (fst s2)" using facts(6) by simp
      show "emit_outputs E opts cb sampler track ch a 0 (map (\<lambda>t. (t, True)) ?ds @ [(auth, False)])
              (pl_generated loc) (pl_thinking loc) (Some seed) (fst s2, c) = (s3, r3)"
        using emit unfolding outputs s2 .
      show "session_at E st0 ((h @ [seed]) @ ?ds) (fst s2, c)" using facts(1) unfolding s2 by simp
    qed (use facts(3-5) stops budget fits r3 in \<open>auto dest: in_set_takeD\<close>)
  next
    fix h2 em s3
    assume "session_at E st0 h2 s3" "?out = emitted_outcome E opts cb st0 h2 em (snd s3)"
      "returnS (k em, em_pending em, \<not> em_done em) s3 = (s', r)"
    then show "meets E st0 ?out ?cont (s', r)"
      by (auto simp: emitted_outcome_def k)
  qed
qed

text \<open>What a finished loop returns, as an outcome.\<close>

definition result_outcome :: "u32 list \<Rightarrow> gen_result \<Rightarrow> 'c \<Rightarrow> (run_error, 'c) outcome" where
  "result_outcome h r c = Finished h (gr_pending r) (gr_generated r) (gr_thinking r) c"

lemma policy_loop_meets:
  assumes "session_at E st0 h (rt, c)"
    and "f_eq (ev_fops E) (sc_temperature (sm_config sampler)) (f_zero (ev_fops E))"
    and "policy_loop E opts cb sampler track loc pending (rt, c) = (s', r)" and "proper r"
  shows "meets E st0 (resume_at E opts cb st0 h (pl_generated loc) pending (pl_thinking loc) c) result_outcome (s', r)"
  using assms
proof (induction E opts cb sampler track loc pending "(rt, c)" arbitrary: h rt c rule: policy_loop.induct)
  case (1 E opts cb sampler track loc pending rt c)
  show ?case
  proof (cases pending)
    case None
    with "1.prems" show ?thesis
      by (auto simp: policy_loop.simps Let_def resume_def result_outcome_def)
  next
    case (Some seed)
    show ?thesis
    proof (cases "go_max_new_tokens opts \<le> length (pl_generated loc) \<or> is_stop_token E opts seed")
      case True
      with "1.prems" Some show ?thesis
        by (auto simp: policy_loop.simps Let_def resume_def result_outcome_def)
    next
      case False
      obtain s1 r1 where step: "policy_step E opts cb sampler track loc seed (rt, c) = (s1, r1)" by (rule prod.exhaust)
      show ?thesis
      proof (cases r1)
        case (Inl e)
        with "1.prems"(3) Some False step have "s' = s1" "r = Inl e"
          by (simp_all add: policy_loop.simps [of _ _ _ _ _ _ "Some seed"] Let_def)
        with policy_step_meets [OF "1.prems"(1,2) _ _ step] "1.prems"(4) Inl False Some show ?thesis by simp
      next
        case (Inr x)
        obtain loc1 p1 more where x: "x = (loc1, p1, more)" by (rule prod_cases3)
        obtain rt1 c1 where s1: "s1 = (rt1, c1)" by (rule prod.exhaust)
        from policy_step_meets [OF "1.prems"(1,2) _ _ step] Inr x False s1 obtain h1 where
          at1: "session_at E st0 h1 (rt1, c1)" and out: "resume_at E opts cb st0 h (pl_generated loc) (Some seed) (pl_thinking loc) c
            = (if more then resume_at E opts cb st0 h1 (pl_generated loc1) p1 (pl_thinking loc1) c1
               else Finished h1 p1 (pl_generated loc1) (pl_thinking loc1) c1)"
          by auto
        show ?thesis
        proof (cases more)
          case True
          with "1.prems"(3) Some False step Inr x s1
          have rest: "policy_loop E opts cb sampler track loc1 p1 (rt1, c1) = (s', r)"
            by (simp add: policy_loop.simps [of _ _ _ _ _ _ "Some seed"] Let_def)
          from "1.hyps" [OF refl Some False step [symmetric, unfolded s1 Inr x] refl refl refl _ at1 "1.prems"(2) rest "1.prems"(4)] True
          show ?thesis unfolding Some out by simp
        next
          case ended: False
          with "1.prems"(3) Some False step Inr x s1 have "s' = (rt1, c1)"
            "r = Inr \<lparr>gr_generated = pl_generated loc1, gr_pending = p1, gr_thinking = pl_thinking loc1\<rparr>"
            by (simp_all add: policy_loop.simps [of _ _ _ _ _ _ "Some seed"] Let_def)
          with ended at1 show ?thesis unfolding Some out by (auto simp: result_outcome_def)
        qed
      qed
    qed
  qed
qed

end
