(* ===== verification/Turn_Accounts.thy ===== *)
theory Turn_Accounts
  imports Policy_Turn
begin

text \<open>
  The accounts of a plain turn at any temperature. Which token a sampler picks is not a function
  of the history, so there is no greedy turn to compare with; what the sink is handed, what the
  model evaluates and what is left pending is accounted for all the same.
\<close>

lemma should_force_closure: "should_force_opt th = (th', b) \<Longrightarrow> closure_of th' = closure_of th"
  by (auto simp: closure_of_def should_force_opt_def should_force_def Let_def split: option.splits if_splits)

lemma closure_room_le: "closure_room th \<le> length (closure_of th)"
  by (simp add: closure_room_def)

definition accounted ::
    "('f, 'r) env \<Rightarrow> 'f model_state \<Rightarrow> 'c sink \<Rightarrow> u32 list \<Rightarrow> u32 list \<Rightarrow> 'c \<Rightarrow> nat
      \<Rightarrow> ('f, 'c) session \<times> (run_error + gen_result) \<Rightarrow> bool" where
  "accounted E st0 cb h g c limit = (\<lambda>(s, r).
     \<exists>out. accounts cb h g c limit out \<and> (case r of
        Inl e \<Rightarrow> e = CallbackFailure \<and> halted_at E st0 out s
      | Inr res \<Rightarrow> \<exists>h2. at_history E st0 h2 (rt_state (fst s)) \<and> out = result_outcome h2 res (snd s)))"

lemma accounted_halted:
  assumes "at_history E st0 (h @ new) (rt_state rt)" "rt_pending rt = Some t" "feed cb new c = Some d"
    "cb t d = (c', False)" "length new < limit"
  shows "accounted E st0 cb h g c limit ((rt, c'), Inl CallbackFailure)"
  using assms by (auto simp: accounted_def accounts_def halted_at_def intro!: exI [of _ "Halted (h @ new) t c'"])

lemma accounted_finished:
  assumes "at_history E st0 h2 (rt_state rt)" "h2 @ pending_list p = h @ new" "feed cb new c = Some c'" "length new \<le> limit"
  shows "accounted E st0 cb h g c limit ((rt, c'), Inr \<lparr>gr_generated = g @ new, gr_pending = p, gr_thinking = th\<rparr>)"
  using assms by (auto simp: accounted_def accounts_def result_outcome_def intro!: exI [of _ "Finished h2 p (g @ new) th c'"])

lemma accounted_prepend:
  assumes "accounted E st0 cb (h @ xs) (g @ xs) c1 limit p" and "feed cb xs c = Some c1" and "length xs + limit \<le> limit'"
  shows "accounted E st0 cb h g c limit' p"
  using assms(1) accounts_prepend [OF _ assms(2,3)] by (auto simp: accounted_def)

lemma plain_loop_accounts:
  fixes s' :: "('f, 'c) session"
  assumes "at_history E st0 h (rt_state rt)"
    and "plain_loop E opts cb logits g None th sampler (rt, c) = (s', r)" and r: "proper r"
  shows "accounted E st0 cb h g c (go_max_new_tokens opts - length g + closure_room th) (s', r)"
  using assms(1,2)
proof (induction "go_max_new_tokens opts - length g" arbitrary: h rt logits g th sampler c rule: less_induct)
  case less
  let ?stop = "is_stop_token E opts" and ?max = "go_max_new_tokens opts"
  note at = less.prems(1)
  show ?case
  proof (cases "?max \<le> length g")
    case True
    with less.prems(2) have "s' = (rt, c)" "r = Inr \<lparr>gr_generated = g @ [], gr_pending = None, gr_thinking = th\<rparr>"
      by (simp_all add: plain_loop.simps)
    with at show ?thesis by (simp only:) (rule accounted_finished [where new = "[]"], simp_all add: pending_list_def)
  next
    case room: False
    obtain sampler1 q where sample: "sample_row E sampler logits = (sampler1, q)" by (rule prod.exhaust)
    obtain t where t: "q = Inr t"
    proof (cases q)
      case (Inl e)
      with sample less.prems(2) room have "r = Inl e" by (simp add: plain_loop.simps)
      with r Inl sample sample_not_callback [of E sampler logits] show thesis by simp
    qed
    obtain c1 ok where cb: "cb t c = (c1, ok)" by (rule prod.exhaust)
    obtain th1 b where obs: "observe_opt th t (\<not> ?stop t) = (th1, b)" by (rule prod.exhaust)
    note plain = less.prems(2) [unfolded plain_loop.simps [of E opts cb logits g None th sampler "(rt, c)"] sample t Let_def, simplified]
    show ?thesis
    proof (cases ok)
      case False
      with plain room cb have "s' = (rt\<lparr>rt_pending := Some t\<rparr>, c1)" "r = Inl CallbackFailure"
        by (simp_all add: emit_def)
      with at cb False room show ?thesis by (simp only:) (rule accounted_halted [where new = "[]"], simp_all)
    next
      case ok: True
      have emit: "emit cb t (rt, c) = ((rt, c1), Inr ())" using cb ok by (simp add: emit_def)
      have fed: "feed cb [t] c = Some c1" using cb ok by simp
      show ?thesis
      proof (cases "b = ForceClosure")
        case force: True
        then have nostop: "\<not> ?stop t" using obs observe_force_inactive by fastforce
        let ?g2 = "g @ [t] @ closure_of th1"
        obtain s1 r1 where close: "force_close_thinking_target_only E cb (Some t) (closure_of th1) (rt, c1) = (s1, r1)"
          by (rule prod.exhaust)
        have r1: "proper r1"
          using plain room emit obs nostop force close r by (cases r1) auto
        have room2: "closure_room th1 = 0" "length (closure_of th1) = closure_room th"
          using closure_room_force [of th t _ th1] obs force by blast+
        from force_close_proper [OF evaluates_forward announces_emit at close [unfolded force_close_thinking_target_only_def] r1, of "h @ [t]"]
        obtain h2 c2 rt2 where s1: "s1 = (rt2, c2)" and at2: "at_history E st0 h2 (rt_state rt2)" and
          cases: "(\<exists>l. r1 = Inr l \<and> force_emit cb (closure_of th1) (h @ [t]) c1 = (h2, c2, None)) \<or>
            (\<exists>u. r1 = Inl CallbackFailure \<and> force_emit cb (closure_of th1) (h @ [t]) c1 = (h2, c2, Some u) \<and> rt_pending rt2 = Some u)"
          by auto
        from cases show ?thesis
        proof (elim disjE exE conjE)
          fix u
          assume halt: "r1 = Inl CallbackFailure" "force_emit cb (closure_of th1) (h @ [t]) c1 = (h2, c2, Some u)" "rt_pending rt2 = Some u"
          with plain room emit obs nostop force close s1 have "s' = (rt2, c2)" "r = Inl CallbackFailure" by simp_all
          moreover from force_emit_feeds [OF halt(2)] obtain new c3 where
            "h2 = h @ [t] @ new" "feed cb new c1 = Some c3" "cb u c3 = (c2, False)" "length new < length (closure_of th1)" by auto
          ultimately show ?thesis using at2 halt(3) cb ok room room2
            by (simp only:) (rule accounted_halted [where new = "t # new" and d = c3], simp_all)
        next
          fix l
          assume closed: "r1 = Inr l" "force_emit cb (closure_of th1) (h @ [t]) c1 = (h2, c2, None)"
          from force_emit_feeds [OF closed(2)] have h2: "h2 = h @ [t] @ closure_of th1" "feed cb ([t] @ closure_of th1) c = Some c2"
            using cb ok by simp_all
          show ?thesis
          proof (cases "?max \<le> length ?g2")
            case True
            with plain room emit obs nostop force close closed s1
            have "s' = (rt2, c2)" "r = Inr \<lparr>gr_generated = g @ [t] @ closure_of th1, gr_pending = None, gr_thinking = th1\<rparr>" by simp_all
            with at2 h2 room room2 show ?thesis
              by (simp only:) (rule accounted_finished, simp_all add: pending_list_def)
          next
            case False
            with plain room emit obs nostop force close closed s1
            have "plain_loop E opts cb l ?g2 None th1 sampler1 (rt2, c2) = (s', r)" by simp
            with less.hyps [of ?g2 h2 rt2 l th1 sampler1 c2] room at2
            have "accounted E st0 cb h2 ?g2 c2 (?max - length ?g2 + closure_room th1) (s', r)" by simp
            with h2 room False room2 show ?thesis
              by (intro accounted_prepend [of E st0 cb h "[t] @ closure_of th1" g c2]) (simp_all, arith)
          qed
        qed
      next
        case go: False
        have le: "closure_room th1 \<le> closure_room th" using obs by (rule closure_room_observe)
        show ?thesis
        proof (cases "?stop t \<or> ?max \<le> length (g @ [t])")
          case True
          with plain room emit obs go
          have "s' = (rt, c1) \<and> r = Inr \<lparr>gr_generated = g @ [t], gr_pending = Some t, gr_thinking = th1\<rparr>"
            by (cases "?stop t") simp_all
          with at fed room show ?thesis
            by (elim conjE, simp only:) (rule accounted_finished [of _ _ h], simp_all add: pending_list_def)
        next
          case more: False
          obtain s1 r1 where fwd: "rt_forward E [t] (rt, c1) = (s1, r1)" by (rule prod.exhaust)
          have "proper r1"
            using plain room emit obs go more fwd r by (cases r1) auto
          from evaluatesD [OF evaluates_forward at fwd this] obtain rt1 l where
            l: "r1 = Inr l" "s1 = (rt1, c1)" "at_history E st0 (h @ [t]) (rt_state rt1)" by metis
          with plain room emit obs go more fwd have "plain_loop E opts cb l (g @ [t]) None th1 sampler1 (rt1, c1) = (s', r)" by simp
          with less.hyps [of "g @ [t]" "h @ [t]" rt1 l th1 sampler1 c1] room l(3)
          have "accounted E st0 cb (h @ [t]) (g @ [t]) c1 (?max - length (g @ [t]) + closure_room th1) (s', r)" by simp
          with fed room more le show ?thesis
            by (intro accounted_prepend [of E st0 cb h "[t]" g c1]) (simp_all, arith)
        qed
      qed
    qed
  qed
qed

text \<open>The turn: the closure that may come first, the loop, and what \<open>finish_turn\<close> keeps.\<close>

definition turn_accounted ::
    "('f, 'r) env \<Rightarrow> 'f model_state \<Rightarrow> 'c sink \<Rightarrow> u32 list \<Rightarrow> 'c \<Rightarrow> nat
      \<Rightarrow> ('f, 'c) session \<times> (run_error + generation_result) \<Rightarrow> bool" where
  "turn_accounted E st0 cb h c limit = (\<lambda>((rt, c'), r). case r of
       Inl e \<Rightarrow> \<exists>t new c1. e = CallbackFailure \<and> rt_pending rt = Some t \<and> feed cb new c = Some c1 \<and> cb t c1 = (c', False)
         \<and> at_history E st0 (h @ new) (rt_state rt)
     | Inr res \<Rightarrow> \<exists>h2. feed cb (qr_generated res) c = Some c' \<and> at_history E st0 h2 (rt_state rt)
         \<and> h2 @ pending_list (rt_pending rt) = h @ qr_generated res \<and> length (qr_generated res) \<le> limit)"

lemma finish_accounted:
  fixes s1 s' :: "('f, 'c) session"
  assumes "accounted E st0 cb h g c limit (s1, Inr res)" and "h @ drop (length g) (gr_generated res) = h0 @ gr_generated res"
    and "feed cb g c0 = Some c" and "limit + length g \<le> limit'"
    and "finish_turn E prompt evaluated res s1 = (s', r)" and "proper r"
  shows "turn_accounted E st0 cb h0 c0 limit' (s', r)"
proof -
  from assms(1) obtain h2 where at: "at_history E st0 h2 (rt_state (fst s1))"
    and acc: "accounts cb h g c limit (result_outcome h2 res (snd s1))" by (auto simp: accounted_def)
  then obtain new where new: "gr_generated res = g @ new" "h2 @ pending_list (gr_pending res) = h @ new"
    "feed cb new c = Some (snd s1)" "length new \<le> limit"
    by (auto simp: accounts_def result_outcome_def)
  from assms(5,6) obtain decoded where "s' = ((fst s1)\<lparr>rt_pending := gr_pending res\<rparr>, snd s1)"
    "r = Inr \<lparr>qr_prompt = prompt, qr_evaluated = evaluated, qr_generated = gr_generated res, qr_text = decoded,
              qr_thinking = gr_thinking res\<rparr>"
    by (cases s1) (auto simp: finish_turn_def bindS_lift lift_tokenizer_def split: option.splits)
  moreover have "feed cb (g @ new) c0 = Some (snd s1)"
    using assms(3) new(3) by (simp add: feed_append)
  ultimately show ?thesis
    using at new assms(2,4) by (auto simp: turn_accounted_def)
qed

lemma plain_turn_accounts:
  fixes s' :: "('f, 'c) session"
  assumes ok: "model_ok (ev_model E) (rt_state rt)"
    and run: "generate_plain E opts cb prompt (rt, c) = (s', r)" and r: "proper r"
  shows "\<exists>thinking. turn_thinking E opts = Inr thinking \<and> turn_accounted E (rt_state rt) cb
      (continuation_input prompt (rt_pending rt)) c (go_max_new_tokens opts + length (closure_of thinking)) (s', r)"
proof -
  let ?st0 = "rt_state rt" and ?ev = "continuation_input prompt (rt_pending rt)"
  let ?rt = "rt\<lparr>rt_pending := None, rt_drafted := 0, rt_accepted := 0\<rparr>"
  from run r have guards: "0 < go_max_new_tokens opts" "prompt \<noteq> []"
    by (auto simp: generate_plain_def split: if_splits)
  obtain sampler where sampler: "sampler_new (ev_fops E) (ev_seed_rng E) (go_sampling opts) = Inr sampler"
    using run r guards by (auto simp: generate_plain_def bindS_lift Let_def lift_sampling_def split: sum.splits)
  note start = run [unfolded generate_plain_def, simplified guards sampler Let_def not_False_eq_True bindS_ensureS bindS_get bindS_upd if_True
      bindS_lift lift_simps sum.case]
  have at0: "at_history E ?st0 [] (rt_state ?rt)" using ok by (simp add: at_start)
  show ?thesis
  proof (cases rule: silent_then [OF silent_rt_forward start r])
    case (1 s1 l)
    obtain rt1 where s1: "s1 = (rt1, c)" and at1: "at_history E ?st0 ?ev (rt_state rt1)"
    proof -
      from 1(1) obtain st out where fwd: "forward_detailed_logits (ev_fops E) (ev_threads E) (ev_model E) ?ev ?st0 LastRow
          = (st, Inr out)" "s1 = (?rt\<lparr>rt_state := st\<rparr>, c)" "l = fo_logits out"
        by (auto simp: rt_forward_def bindS_Inr_iff on_state_def split: prod.splits)
      from at0 have "at_history E ?st0 [] ?st0" by simp
      from pass_facts(1) [OF this fwd(1)] fwd that show thesis by simp
    qed
    show ?thesis
    proof (cases rule: silent_then [OF silent_liftS [OF turn_thinking_silent] 1(2) r])
      case thk: (1 s2 thinking)
      obtain th forced where force: "should_force_opt thinking = (th, forced)" by (rule prod.exhaust)
      have closure: "closure_of th = closure_of thinking" using force by (rule should_force_closure)
      from thk(1) s1 have s2: "s2 = (rt1, c)" "turn_thinking E opts = Inr thinking" by simp_all
      note rest = thk(2) [unfolded s2 force case_prod_conv]
      let ?limit = "go_max_new_tokens opts + length (closure_of thinking)"
      have "turn_accounted E ?st0 cb ?ev c ?limit (s', r)"
      proof (cases forced)
        case False
        obtain s3 q where loop: "plain_loop E opts cb l [] None th sampler (rt1, c) = (s3, q)" by (rule prod.exhaust)
        have q: "proper q" using rest False loop r by (cases q) (auto simp: bindS_Inl)
        note acc = plain_loop_accounts [OF at1 loop q]
        show ?thesis
        proof (cases q)
          case (Inl e)
          with rest False loop have "s' = s3" "r = Inl e" by (simp_all add: bindS_Inl)
          with acc Inl show ?thesis by (cases s3) (fastforce simp: accounted_def accounts_def halted_at_def turn_accounted_def)
        next
          case (Inr res)
          with rest False loop have "finish_turn E prompt ?ev res s3 = (s', r)" by (simp add: bindS_Inr)
          from finish_accounted [OF acc [unfolded Inr] _ _ _ this r, of ?ev c ?limit]
          show ?thesis using closure_room_le [of th] by (simp add: closure)
        qed
      next
        case True
        obtain s3 q where close: "force_close_thinking_target_only E cb None (closure_of th) (rt1, c) = (s3, q)"
          by (rule prod.exhaust)
        have q: "proper q" using rest True close r by (cases q) (auto simp: bindS_Inl)
        from force_close_proper [OF evaluates_forward announces_emit at1 close [unfolded force_close_thinking_target_only_def] q refl]
        obtain h2 c2 rt2 where s3: "s3 = (rt2, c2)" and at2: "at_history E ?st0 h2 (rt_state rt2)" and
          cases: "(\<exists>l. q = Inr l \<and> force_emit cb (closure_of th) ?ev c = (h2, c2, None)) \<or>
            (\<exists>u. q = Inl CallbackFailure \<and> force_emit cb (closure_of th) ?ev c = (h2, c2, Some u) \<and> rt_pending rt2 = Some u)"
          by auto
        from cases show ?thesis
        proof (elim disjE exE conjE)
          fix u
          assume halt: "q = Inl CallbackFailure" "force_emit cb (closure_of th) ?ev c = (h2, c2, Some u)" "rt_pending rt2 = Some u"
          with rest True close s3 have "s' = (rt2, c2)" "r = Inl CallbackFailure" by (simp_all add: bindS_Inl)
          with force_emit_feeds [OF halt(2)] at2 halt(3) show ?thesis by (auto simp: turn_accounted_def)
        next
          fix l2
          assume closed: "q = Inr l2" "force_emit cb (closure_of th) ?ev c = (h2, c2, None)"
          from force_emit_feeds [OF closed(2)] have h2: "h2 = ?ev @ closure_of th" "feed cb (closure_of th) c = Some c2" by simp_all
          have room: "closure_room th = 0" using True force by (auto simp: closure_room_def dest: should_force_inactive)
          obtain s4 q2 where loop: "plain_loop E opts cb l2 (closure_of th) None th sampler (rt2, c2) = (s4, q2)" by (rule prod.exhaust)
          from rest True close closed s3 loop have rest2:
            "bindS (\<lambda>s. (s4, q2)) (\<lambda>r. finish_turn E prompt ?ev r) (rt2, c2) = (s', r)" by (simp add: bindS_Inr bindS_def)
          have q2: "proper q2" using rest2 r by (cases q2) (auto simp: bindS_def)
          note acc = plain_loop_accounts [OF at2 loop q2]
          show ?thesis
          proof (cases q2)
            case (Inl e)
            with rest2 have "s' = s4" "r = Inl e" by (simp_all add: bindS_def)
            moreover obtain t new d where "rt_pending (fst s4) = Some t" "feed cb new c2 = Some d" "cb t d = (snd s4, False)"
              "at_history E ?st0 (h2 @ new) (rt_state (fst s4))" "e = CallbackFailure"
              using acc Inl by (auto simp: accounted_def accounts_def halted_at_def)
            ultimately show ?thesis using h2
              by (cases s4) (auto simp: turn_accounted_def feed_append intro!: exI [of _ "closure_of th @ new"] exI [of _ d])
          next
            case (Inr res)
            with rest2 have fin: "finish_turn E prompt ?ev res s4 = (s', r)" by (simp add: bindS_def)
            have "h2 @ drop (length (closure_of th)) (gr_generated res) = ?ev @ gr_generated res"
              using acc Inr h2 by (auto simp: accounted_def accounts_def result_outcome_def)
            from finish_accounted [OF acc [unfolded Inr] this _ _ fin r, of c ?limit] h2 room
            show ?thesis by (auto simp: closure)
          qed
        qed
      qed
      with s2 show ?thesis by blast
    qed
  qed
qed

end
