(* ===== verification/Turns.thy ===== *)
theory Turns
  imports Turn_Accounts
begin

text \<open>
  Whole turns. A turn of either path computes \<open>greedy_turn\<close> of the target model: for the
  speculative path whenever it does not fail in the model or the predictor, for the plain path
  whenever the outcome can be evaluated at all. Since the outcome does not mention drafts,
  arms, spans or the predictor, the two paths agree on the tokens, on the model's state, on
  the pending token and on what the sink has seen.
\<close>

section \<open>What a turn returns\<close>

definition turn_spec ::
    "('f, 'r) env \<Rightarrow> 'f generation_options \<Rightarrow> 'c sink \<Rightarrow> 'f model_state \<Rightarrow> u32 list \<Rightarrow> thinking option \<Rightarrow> 'c
      \<Rightarrow> (run_error, 'c) outcome" where
  "turn_spec E opts cb st0 h th c =
     greedy_turn (model_next E st0) (is_stop_token E opts) (go_max_new_tokens opts) cb h th c"

definition turn_result ::
    "('f, 'r) env \<Rightarrow> 'f model_state \<Rightarrow> u32 list \<Rightarrow> u32 list \<Rightarrow> (run_error, 'c) outcome
      \<Rightarrow> ('f, 'c) session \<times> (run_error + generation_result) \<Rightarrow> bool" where
  "turn_result E st0 prompt evaluated out = (\<lambda>(s, r). case r of
       Inl e \<Rightarrow> e = CallbackFailure \<and> halted_at E st0 out s
     | Inr res \<Rightarrow> \<exists>h. out = Finished h (rt_pending (fst s)) (qr_generated res) (qr_thinking res) (snd s)
         \<and> at_history E st0 h (rt_state (fst s)) \<and> ev_decode E (qr_generated res) = Some (qr_text res)
         \<and> qr_prompt res = prompt \<and> qr_evaluated res = evaluated)"

text \<open>An outcome fixes everything about a turn but the caches that serve speed.\<close>

lemma turn_result_unique:
  assumes "turn_result E st0 prompt evaluated out (s1, r1)" and "turn_result E st0 prompt evaluated out (s2, r2)"
  shows "r1 = r2 \<and> snd s1 = snd s2 \<and> rt_state (fst s1) = rt_state (fst s2) \<and> rt_pending (fst s1) = rt_pending (fst s2)"
proof (cases r1)
  case (Inl e1)
  with assms show ?thesis
    by (cases r2) (auto simp: turn_result_def halted_at_def dest: at_determ)
next
  case (Inr res1)
  with assms obtain res2 where res2: "r2 = Inr res2"
    by (cases r2) (auto simp: turn_result_def halted_at_def)
  with Inr assms obtain h where "at_history E st0 h (rt_state (fst s1))" "at_history E st0 h (rt_state (fst s2))"
    "rt_pending (fst s1) = rt_pending (fst s2)" "snd s1 = snd s2" "qr_generated res1 = qr_generated res2"
    "qr_thinking res1 = qr_thinking res2" "qr_text res1 = qr_text res2" "qr_prompt res1 = qr_prompt res2"
    "qr_evaluated res1 = qr_evaluated res2"
    by (auto simp: turn_result_def)
  moreover from this have "res1 = res2" by simp
  ultimately show ?thesis using Inr res2 at_determ by simp
qed

lemma finish_turn_result:
  fixes s :: "('f, 'c) session"
  assumes "finish_turn E prompt evaluated g (rt, c) = (s', r)" and "proper r" and "at_history E st0 h (rt_state rt)"
  shows "turn_result E st0 prompt evaluated (result_outcome h g c) (s', r)"
  using assms
  by (auto simp: finish_turn_def bindS_lift turn_result_def result_outcome_def split: sum.splits)

section \<open>The speculative turn\<close>

lemma prefill_passes_at:
  fixes s' :: "('f, 'c) session"
  assumes "at_history E st0 h (rt_state rt)"
    and "prefill_passes E track p passes last_pass (rt, c) = (s', Inr out)"
    and "\<forall>l. last_pass = Some l \<longrightarrow> score (ev_fops E) (last (fo_logits l)) = model_next E st0 h"
  shows "at_history E st0 (h @ concat passes) (rt_state (fst s')) \<and> rt_snapshots (fst s') = rt_snapshots rt \<and> snd s' = c
    \<and> (\<forall>l. out = Some l \<longrightarrow> score (ev_fops E) (last (fo_logits l)) = model_next E st0 (h @ concat passes))"
  using assms
proof (induction passes arbitrary: h rt last_pass)
  case Nil
  then show ?case by auto
next
  case (Cons pass passes)
  let ?gap = "\<lambda>fwd. if track then retain_mtp_gap E pass (fo_hidden fwd) p else returnS ()"
  from Cons.prems(2) obtain st fwd s1 where
    fwd: "forward_detailed_logits (ev_fops E) (ev_threads E) (ev_model E) pass (rt_state rt) LastRow = (st, Inr fwd)"
    and gap: "?gap fwd (rt\<lparr>rt_state := st\<rparr>, c) = (s1, Inr ())"
    and rest: "prefill_passes E track p passes (Some fwd) s1 = (s', Inr out)"
    by (auto simp: bindS_Inr_iff on_state_def split: prod.splits)
  have "quiet core (?gap fwd)" by (intro quiet_intros)
  from quietD [OF this gap] obtain rt1 where s1: "s1 = (rt1, c)" "rt_state rt1 = st" "rt_snapshots rt1 = rt_snapshots rt"
    by (cases s1) (auto simp: core_def)
  note facts = pass_facts [OF Cons.prems(1) fwd]
  from Cons.IH [of "h @ pass" rt1 "Some fwd"] rest s1 facts(1,3) show ?case by simp
qed

lemma prefill_in_passes_at:
  fixes s' :: "('f, 'c) session"
  assumes "at_history E st0 h (rt_state rt)" and "prefill_in_passes E tokens track (rt, c) = (s', Inr out)"
  shows "at_history E st0 (h @ tokens) (rt_state (fst s'))" and "rt_snapshots (fst s') = rt_snapshots rt" and "snd s' = c"
    and "score (ev_fops E) (last (fo_logits out)) = model_next E st0 (h @ tokens)"
proof -
  from assms(2) have "prefill_passes E track (rt_last_hidden rt) (chunks PREFILL_PASS_ROWS tokens) None (rt, c) = (s', Inr (Some out))"
    by (auto simp: prefill_in_passes_def bindS_Inr_iff split: option.splits)
  from prefill_passes_at [OF assms(1) this] show "at_history E st0 (h @ tokens) (rt_state (fst s'))"
    and "rt_snapshots (fst s') = rt_snapshots rt" and "snd s' = c"
    and "score (ev_fops E) (last (fo_logits out)) = model_next E st0 (h @ tokens)"
    by (simp_all add: concat_chunks PREFILL_PASS_ROWS_def)
qed

lemma index_prompt_core [simp]:
  "rt_state (index_prompt n p e rt) = rt_state rt" "rt_snapshots (index_prompt n p e rt) = rt_snapshots rt"
  by (simp_all add: index_prompt_def)

lemma speculative_checks_silent: "speculative_checks E opts mode prompt rt \<noteq> Inl CallbackFailure"
  by (auto simp: speculative_checks_def bindE_Inl_iff ensure_def split: if_splits)

lemma sampler_new_config: "sampler_new F seed cfg = Inr sampler \<Longrightarrow> sm_config sampler = cfg"
  by (auto simp: sampler_new_def bindE_Inr_iff)

definition turn_meets ::
    "('f, 'r) env \<Rightarrow> 'f model_state \<Rightarrow> u32 list \<Rightarrow> u32 list \<Rightarrow> (run_error, 'c) outcome
      \<Rightarrow> ('f, 'c) session \<times> (run_error + generation_result) \<Rightarrow> bool" where
  "turn_meets E st0 prompt evaluated out p \<longleftrightarrow>
     turn_result E st0 prompt evaluated out p \<and> snapshots_ok (rt_snapshots (fst (fst p)))"

lemma turn_meets_bind:
  assumes run: "bindS m f s = (s', r)" and r: "proper r"
    and first: "\<And>s1 r1. m s = (s1, r1) \<Longrightarrow> proper r1 \<Longrightarrow> meets E st0 out mid (s1, r1)"
    and second: "\<And>h x s1. session_at E st0 h s1 \<Longrightarrow> out = mid h x (snd s1) \<Longrightarrow> f x s1 = (s', r) \<Longrightarrow>
      turn_meets E st0 prompt evaluated out (s', r)"
  shows "turn_meets E st0 prompt evaluated out (s', r)"
proof -
  obtain s1 r1 where m: "m s = (s1, r1)" by (rule prod.exhaust)
  show ?thesis
  proof (cases r1)
    case (Inl e)
    with m run have eq: "s' = s1" "r = Inl e" by (simp_all add: bindS_Inl)
    with first [OF m] r Inl show ?thesis by (simp add: turn_meets_def turn_result_def)
  next
    case (Inr x)
    with m run have rest: "f x s1 = (s', r)" by (simp add: bindS_Inr)
    from first [OF m] Inr obtain h where "session_at E st0 h s1" "out = mid h x (snd s1)" by auto
    then show ?thesis using rest by (rule second)
  qed
qed

lemma finish_meets:
  assumes at: "session_at E st0 h s" and out: "out = result_outcome h g (snd s)"
    and fin: "finish_turn E prompt evaluated g s = (s', r)" and r: "proper r"
  shows "turn_meets E st0 prompt evaluated out (s', r)"
proof -
  obtain rt c where s: "s = (rt, c)" by (rule prod.exhaust)
  have "snapshots_ok (rt_snapshots (fst s'))"
    using at fin s by (auto simp: finish_turn_def bindS_lift session_at_def split: sum.splits)
  with finish_turn_result [of E prompt evaluated g rt c] at out fin s r show ?thesis
    by (simp add: turn_meets_def session_at_def)
qed

text \<open>The first tokens and the loop, from the logits of the prompt.\<close>

lemma loop_and_finish_meets:
  assumes at: "session_at E st0 h s"
    and zero: "f_eq (ev_fops E) (sc_temperature (sm_config sampler)) (f_zero (ev_fops E))"
    and out: "out = resume_at E opts cb st0 h (pl_generated loc) pending (pl_thinking loc) (snd s)"
    and run: "bindS (policy_loop E opts cb sampler track loc pending) (\<lambda>r. finish_turn E prompt evaluated r) s = (s', r)"
    and r: "proper r"
  shows "turn_meets E st0 prompt evaluated out (s', r)"
proof (rule turn_meets_bind [OF run r])
  fix s1 r1 assume "policy_loop E opts cb sampler track loc pending s = (s1, r1)" "proper r1"
  with policy_loop_meets [of E st0 h "fst s" "snd s"] at zero out
  show "meets E st0 out result_outcome (s1, r1)" by simp
qed (use r in \<open>simp add: finish_meets\<close>)

lemma tokens_and_finish_meets:
  assumes at: "session_at E st0 h s"
    and zero: "f_eq (ev_fops E) (sc_temperature (sm_config sampler)) (f_zero (ev_fops E))"
    and sc: "score (ev_fops E) (last logits) = model_next E st0 h"
    and out: "out = greedy_at E opts cb st0 h g th (snd s)"
    and run: "bindS (first_token E opts cb sampler track logits g th) (\<lambda>(g, pending, th1).
     bindS (policy_loop E opts cb sampler track
         \<lparr>pl_generated = g, pl_thinking = th1, pl_ngram_arm = na, pl_mtp_arm = ma, pl_span = None\<rparr> pending) (\<lambda>r.
     finish_turn E prompt evaluated r)) s = (s', r)"
    and r: "proper r"
  shows "turn_meets E st0 prompt evaluated out (s', r)"
proof (rule turn_meets_bind [OF run r])
  fix s1 r1 assume "first_token E opts cb sampler track logits g th s = (s1, r1)" "proper r1"
  with first_token_meets [of E st0 h "fst s" "snd s" sampler logits opts cb track g th] at zero sc out
  show "meets E st0 out (\<lambda>h (g, p, th). resume_at E opts cb st0 h g p th) (s1, r1)" by simp
next
  fix h2 x s1
  assume at2: "session_at E st0 h2 s1" and o: "out = (case x of (g, p, th) \<Rightarrow> resume_at E opts cb st0 h2 g p th) (snd s1)"
    and rest: "(case x of (g, pending, th1) \<Rightarrow> bindS (policy_loop E opts cb sampler track
         \<lparr>pl_generated = g, pl_thinking = th1, pl_ngram_arm = na, pl_mtp_arm = ma, pl_span = None\<rparr> pending) (\<lambda>r.
     finish_turn E prompt evaluated r)) s1 = (s', r)"
  obtain g2 p th2 where x: "x = (g2, p, th2)" by (rule prod_cases3)
  show "turn_meets E st0 prompt evaluated out (s', r)"
    by (rule loop_and_finish_meets [OF at2 zero _ _ r])
      (use o rest x in simp_all)
qed

lemma speculative_rest_meets:
  assumes at: "session_at E st0 h (rt, c)"
    and zero: "f_eq (ev_fops E) (sc_temperature (sm_config sampler)) (f_zero (ev_fops E))"
    and sc: "score (ev_fops E) (last logits) = model_next E st0 h"
    and force: "should_force_opt thinking = (th, forced)"
    and run: "bindS (if forced then force_close_thinking_policy E cb track None (closure_of th) else returnS logits) (\<lambda>logits.
     bindS (first_token E opts cb sampler track logits (if forced then closure_of th else []) th) (\<lambda>(g, pending, th1).
     bindS (policy_loop E opts cb sampler track
         \<lparr>pl_generated = g, pl_thinking = th1, pl_ngram_arm = na, pl_mtp_arm = ma, pl_span = None\<rparr> pending) (\<lambda>r.
     finish_turn E prompt evaluated r))) (rt, c) = (s', r)" and r: "proper r"
   
  shows "turn_meets E st0 prompt evaluated (turn_spec E opts cb st0 h thinking c) (s', r)"
proof (cases forced)
  case False
  with force run show ?thesis
    by (intro tokens_and_finish_meets [OF at zero sc _ _ r]) (simp_all add: turn_spec_def greedy_turn_def)
next
  case True
  let ?out = "closed_at E opts cb st0 (closure_of th) h (closure_of th) th c"
  have spec: "turn_spec E opts cb st0 h thinking c = ?out"
    using True force by (simp add: turn_spec_def greedy_turn_def closed_at_def)
  obtain s1 r1 where close: "force_close_thinking_policy E cb track None (closure_of th) (rt, c) = (s1, r1)"
    by (rule prod.exhaust)
  show ?thesis
  proof (cases r1)
    case (Inl e)
    with close True run have "s' = s1" "r = Inl e" by (simp_all add: bindS_Inl)
    with force_close_policy_meets [OF at close _ refl] r Inl show ?thesis
      unfolding spec by (simp add: turn_meets_def turn_result_def)
  next
    case (Inr l)
    from force_close_policy_meets [OF at close _ refl, of opts "closure_of th" th] Inr obtain h2 where
      at2: "session_at E st0 h2 s1" and sc2: "score (ev_fops E) (last l) = model_next E st0 h2"
      and out: "?out = greedy_at E opts cb st0 h2 (closure_of th) th (snd s1)"
      by auto
    from close Inr True run show ?thesis
      unfolding spec by (intro tokens_and_finish_meets [OF at2 zero sc2 out _ r]) (simp add: bindS_Inr)
  qed
qed

text \<open>A speculative turn that neither the model nor the predictor fails computes the specification.\<close>

lemma speculative_turn_meets:
  fixes s' :: "('f, 'c) session"
  assumes ok: "model_ok (ev_model E) (rt_state rt)" and sn: "snapshots_ok (rt_snapshots rt)"

    and run: "generate_speculative_policy E opts mode cb prompt (rt, c) = (s', r)" and r: "proper r"
  shows "\<exists>thinking. turn_thinking E opts = Inr thinking
    \<and> turn_meets E (rt_state rt) prompt (continuation_input prompt (rt_pending rt))
        (turn_spec E opts cb (rt_state rt) (continuation_input prompt (rt_pending rt)) thinking c) (s', r)
    \<and> 0 < go_max_new_tokens opts \<and> prompt \<noteq> []
    \<and> f_eq (ev_fops E) (sc_temperature (go_sampling opts)) (f_zero (ev_fops E))
    \<and> (\<exists>sampler. sampler_new (ev_fops E) (ev_seed_rng E) (go_sampling opts) = Inr sampler)"
proof -
  let ?ev = "continuation_input prompt (rt_pending rt)"
  note start = run [unfolded generate_speculative_policy_def bindS_get]
  show ?thesis
  proof (cases rule: silent_then [OF silent_liftS [OF speculative_checks_silent] start r])
    case (1 s1 u)
    then have checks: "speculative_checks E opts mode prompt rt = Inr u" and s1: "s1 = (rt, c)" by simp_all
    obtain nc mc where arms: "arm_configs (ev_fops E) (go_policy opts) (go_ngram_draft_tokens opts) (go_mtp_draft_tokens opts) mode
        (ev_mtp E \<noteq> None \<and> rt_mtp_state rt \<noteq> None \<and> mtp_arm_ready rt) = (nc, mc)" by (rule prod.exhaust)
    let ?rt = "index_prompt (context_tokens rt) prompt ?ev (rt\<lparr>rt_pending := None,
        rt_draft_head := mtp_draft_vocab E opts (ac_enabled mc), rt_gap_valid := ac_enabled mc, rt_drafted := 0, rt_accepted := 0\<rparr>)"
    from checks have guards: "0 < go_max_new_tokens opts \<and> prompt \<noteq> []
      \<and> f_eq (ev_fops E) (sc_temperature (go_sampling opts)) (f_zero (ev_fops E))"
      by (auto simp: speculative_checks_def bindE_Inr_iff)
    note prefill = 1(2) [unfolded s1 bindS_get case_prod_conv Let_def arms bindS_upd]
    show ?thesis
    proof (cases rule: silent_then [OF silent_prefill_in_passes prefill r])
      case pre: (1 s2 out)
      have at0: "at_history E (rt_state rt) [] (rt_state ?rt)" using ok by (simp add: at_start)
      note filled = prefill_in_passes_at [OF at0 pre(1)]
      obtain rt2 where s2: "s2 = (rt2, c)" using filled(3) by (cases s2) auto
      show ?thesis
      proof (cases rule: silent_then [OF silent_liftS [OF rows_not_callback(1)] pre(2) r])
        case row: (1 s3 row)
        then have s3: "s3 = (rt2, c)" using s2 by simp
        note sampling = row(2) [unfolded s3 bindS_upd]
        show ?thesis
        proof (cases rule: silent_then [OF silent_liftS [OF lift_not_callback(2)] sampling r])
          case sam: (1 s4 sampler)
          have new: "sampler_new (ev_fops E) (ev_seed_rng E) (go_sampling opts) = Inr sampler" using sam(1) by simp
          show ?thesis
          proof (cases rule: silent_then [OF silent_liftS [OF turn_thinking_silent] sam(2) r])
            case thk: (1 s5 thinking)
            obtain th forced where force: "should_force_opt thinking = (th, forced)" by (rule prod.exhaust)
            from thk(1) sam(1) have s5: "s5 = (rt2\<lparr>rt_last_hidden := Some row\<rparr>, c)" by simp
            have at2: "session_at E (rt_state rt) ?ev (rt2\<lparr>rt_last_hidden := Some row\<rparr>, c)"
              using filled(1,2) s2 sn by (simp add: session_at_def)
            have "f_eq (ev_fops E) (sc_temperature (sm_config sampler)) (f_zero (ev_fops E))"
              using guards sampler_new_config [OF new] by simp
            from speculative_rest_meets [OF at2 this filled(4) [unfolded append_Nil] force thk(2) [unfolded s5 force case_prod_conv] r]
              thk(1) new guards show ?thesis by auto
          qed
        qed
      qed
    qed
  qed
qed

section \<open>The plain turn\<close>

text \<open>An outcome that can be evaluated, and what an action that computes it leaves.\<close>

definition reachable_outcome ::
    "('f, 'r) env \<Rightarrow> 'f model_state \<Rightarrow> (run_error, 'c) outcome \<Rightarrow> bool" where
  "reachable_outcome E st0 out \<longleftrightarrow> (\<exists>h st. outcome_history out = Some h \<and> at_history E st0 h st)"

definition computes ::
    "('f, 'r) env \<Rightarrow> 'f model_state \<Rightarrow> (run_error, 'c) outcome \<Rightarrow> ('f, 'c) session \<times> (run_error + gen_result) \<Rightarrow> bool" where
  "computes E st0 out = (\<lambda>(s, r). case r of
       Inl e \<Rightarrow> e = CallbackFailure \<and> halted_at E st0 out s
     | Inr g \<Rightarrow> \<exists>h. at_history E st0 h (rt_state (fst s)) \<and> out = result_outcome h g (snd s))"

lemma at_reachable_prefix:
  "reachable_outcome E st0 out \<Longrightarrow> outcome_history out = Some h2 \<Longrightarrow> prefix h h2 \<Longrightarrow> \<exists>st. at_history E st0 h st"
  using at_prefix by (fastforce simp: reachable_outcome_def prefix_def)

lemma reachable_greedy:
  assumes "reachable_outcome E st0 (greedy_at E opts cb st0 h g th c)"
  shows "\<exists>st. at_history E st0 h st"
proof -
  from assms obtain h2 where h2: "outcome_history (greedy_at E opts cb st0 h g th c) = Some h2"
    by (auto simp: reachable_outcome_def)
  show ?thesis using at_reachable_prefix [OF assms h2 greedy_extends [OF h2]] .
qed

lemma rt_forward_reaches:
  assumes at: "at_history E st0 h (rt_state rt)" and "\<exists>st. at_history E st0 (h @ xs) st" and "xs \<noteq> []"
  shows "\<exists>rt' l. rt_forward E xs (rt, c) = ((rt', c), Inr l) \<and> at_history E st0 (h @ xs) (rt_state rt')
    \<and> score (ev_fops E) (last l) = model_next E st0 (h @ xs)"
proof -
  from assms obtain st' out where
    fwd: "forward_detailed_logits (ev_fops E) (ev_threads E) (ev_model E) xs (rt_state rt) LastRow = (st', Inr out)"
    using pass_reaches by blast
  from pass_facts(1,3) [OF at fwd] show ?thesis
    by (intro exI [of _ "rt\<lparr>rt_state := st'\<rparr>"] exI [of _ "fo_logits out"])
      (simp add: rt_forward_def on_state_def fwd bindS_Inr)
qed

lemma close_loop_reaches:
  assumes "at_history E st0 h (rt_state rt)" and "force_emit cb closure h c = (h2, c2, r)"
    and "\<exists>st. at_history E st0 h2 st" and "\<forall>l. logits = Some l \<longrightarrow> score (ev_fops E) (last l) = model_next E st0 h"
  shows "\<exists>rt2. at_history E st0 h2 (rt_state rt2) \<and>
    (case r of
       None \<Rightarrow> \<exists>logits'. close_loop (\<lambda>t. bindS (emit cb t) (\<lambda>_. rt_forward E [t])) closure logits (rt, c) = ((rt2, c2), Inr logits')
         \<and> (logits' = None \<longrightarrow> logits = None \<and> closure = [])
         \<and> (\<forall>l. logits' = Some l \<longrightarrow> score (ev_fops E) (last l) = model_next E st0 h2)
     | Some t \<Rightarrow> close_loop (\<lambda>t. bindS (emit cb t) (\<lambda>_. rt_forward E [t])) closure logits (rt, c)
           = ((rt2, c2), Inl CallbackFailure) \<and> rt_pending rt2 = Some t)"
  using assms
proof (induction closure arbitrary: h rt c logits)
  case Nil
  then show ?case by auto
next
  case (Cons t closure)
  obtain c1 ok where cb: "cb t c = (c1, ok)" by (rule prod.exhaust)
  show ?case
  proof (cases ok)
    case False
    with Cons.prems cb show ?thesis
      by (intro exI [of _ "rt\<lparr>rt_pending := Some t\<rparr>"]) (auto simp: emit_def bindS_Inl)
  next
    case True
    with Cons.prems(2) cb have rest: "force_emit cb closure (h @ [t]) c1 = (h2, c2, r)" by simp
    have "\<exists>st. at_history E st0 (h @ [t]) st"
      using Cons.prems(3) force_emit_extends [OF rest] at_prefix unfolding prefix_def by metis
    from rt_forward_reaches [OF Cons.prems(1) this, of c1] obtain rt1 l where
      fwd: "rt_forward E [t] (rt, c1) = ((rt1, c1), Inr l)" "at_history E st0 (h @ [t]) (rt_state rt1)"
      and sc: "score (ev_fops E) (last l) = model_next E st0 (h @ [t])" by auto
    have head: "bindS (bindS (emit cb t) (\<lambda>_. rt_forward E [t])) k (rt, c) = k l (rt1, c1)" for k
      using True cb fwd(1) by (simp add: bindS_Inr emit_def)
    from Cons.IH [OF fwd(2) rest Cons.prems(3), of "Some l"] sc show ?thesis
      unfolding close_loop.simps head by (auto split: option.splits)
  qed
qed

lemma force_close_reaches:
  fixes rt :: "'f runtime" and c :: 'c
  assumes at: "at_history E st0 h (rt_state rt)" and h1: "h1 = h @ (case pending of None \<Rightarrow> [] | Some t \<Rightarrow> [t])"
    and emit: "force_emit cb closure h1 c = (h2, c2, r)" and h2: "\<exists>st. at_history E st0 h2 st"
    and ne: "pending = None \<Longrightarrow> closure \<noteq> []"
  shows "\<exists>rt2. at_history E st0 h2 (rt_state rt2) \<and>
    (case r of
       None \<Rightarrow> \<exists>l. force_close_thinking_target_only E cb pending closure (rt, c) = ((rt2, c2), Inr l)
         \<and> score (ev_fops E) (last l) = model_next E st0 h2
     | Some t \<Rightarrow> force_close_thinking_target_only E cb pending closure (rt, c) = ((rt2, c2), Inl CallbackFailure)
         \<and> rt_pending rt2 = Some t)"
proof -
  have "\<exists>rt1 logits. at_history E st0 h1 (rt_state rt1) \<and> (logits = None \<longrightarrow> pending = None)
      \<and> (\<forall>l. logits = Some l \<longrightarrow> score (ev_fops E) (last l) = model_next E st0 h1)
      \<and> (\<forall>k :: _ \<Rightarrow> ('f, 'c, 'f list list) run_action. bindS (case pending of None \<Rightarrow> returnS None
            | Some t \<Rightarrow> bindS (rt_forward E [t]) (\<lambda>l. returnS (Some l))) k (rt, c) = k logits (rt1, c))"
  proof (cases pending)
    case None
    with at h1 show ?thesis by (intro exI [of _ rt] exI [of _ None]) simp
  next
    case (Some t)
    have "\<exists>st. at_history E st0 h1 st"
      using h2 force_emit_extends [OF emit] at_prefix unfolding prefix_def by metis
    with rt_forward_reaches [OF at, of "[t]" c] Some h1 obtain rt1 l where
      "rt_forward E [t] (rt, c) = ((rt1, c), Inr l)" "at_history E st0 h1 (rt_state rt1)"
      "score (ev_fops E) (last l) = model_next E st0 h1" by auto
    with Some show ?thesis by (intro exI [of _ rt1] exI [of _ "Some l"]) (simp add: bindS_Inr)
  qed
  then obtain rt1 logits where at1: "at_history E st0 h1 (rt_state rt1)" and given: "logits = None \<longrightarrow> pending = None"
    and sc: "\<forall>l. logits = Some l \<longrightarrow> score (ev_fops E) (last l) = model_next E st0 h1"
    and head: "\<And>k :: _ \<Rightarrow> ('f, 'c, 'f list list) run_action. bindS (case pending of None \<Rightarrow> returnS None
            | Some t \<Rightarrow> bindS (rt_forward E [t]) (\<lambda>l. returnS (Some l))) k (rt, c) = k logits (rt1, c)" by blast
  note body = force_close_thinking_target_only_def force_close_def head
  from close_loop_reaches [OF at1 emit h2 sc] obtain rt2 where at2: "at_history E st0 h2 (rt_state rt2)"
    and loop: "case r of
       None \<Rightarrow> \<exists>logits'. close_loop (\<lambda>t. bindS (emit cb t) (\<lambda>_. rt_forward E [t])) closure logits (rt1, c) = ((rt2, c2), Inr logits')
         \<and> (logits' = None \<longrightarrow> logits = None \<and> closure = [])
         \<and> (\<forall>l. logits' = Some l \<longrightarrow> score (ev_fops E) (last l) = model_next E st0 h2)
     | Some t \<Rightarrow> close_loop (\<lambda>t. bindS (emit cb t) (\<lambda>_. rt_forward E [t])) closure logits (rt1, c)
           = ((rt2, c2), Inl CallbackFailure) \<and> rt_pending rt2 = Some t"
    by blast
  show ?thesis
  proof (cases r)
    case None
    with loop obtain logits' where *: "close_loop (\<lambda>t. bindS (emit cb t) (\<lambda>_. rt_forward E [t])) closure logits (rt1, c)
        = ((rt2, c2), Inr logits')" "logits' = None \<longrightarrow> logits = None \<and> closure = []"
      "\<forall>l. logits' = Some l \<longrightarrow> score (ev_fops E) (last l) = model_next E st0 h2" by auto
    with given ne obtain l where "logits' = Some l" by (cases logits') auto
    with * None at2 show ?thesis unfolding body by (intro exI [of _ rt2]) (simp add: bindS_Inr)
  next
    case (Some t)
    with loop at2 show ?thesis unfolding body by (intro exI [of _ rt2]) (simp add: bindS_Inl)
  qed
qed

lemma computes_halted: "at_history E st0 h (rt_state rt) \<Longrightarrow> rt_pending rt = Some t \<Longrightarrow> computes E st0 (Halted h t c) ((rt, c), Inl CallbackFailure)"
  by (auto simp: computes_def halted_at_def)

text \<open>The plain loop computes every outcome that can be evaluated.\<close>

lemma plain_loop_computes:
  assumes "at_history E st0 h (rt_state rt)"
    and zero: "f_eq (ev_fops E) (sc_temperature (sm_config sampler)) (f_zero (ev_fops E))"
    and "score (ev_fops E) (last logits) = model_next E st0 h"
    and "reachable_outcome E st0 (greedy_at E opts cb st0 h g th c)"
  shows "computes E st0 (greedy_at E opts cb st0 h g th c) (plain_loop E opts cb logits g None th sampler (rt, c))"
  using assms(1,3-)
proof (induction "go_max_new_tokens opts - length g" arbitrary: h rt logits g th c rule: less_induct)
  case less
  let ?out = "greedy_at E opts cb st0 h g th c" and ?stop = "is_stop_token E opts"
  note at = less.prems(1)
  show ?case
  proof (cases "go_max_new_tokens opts \<le> length g")
    case True
    with at show ?thesis
      by (simp add: plain_loop.simps greedy.simps computes_def result_outcome_def)
  next
    case room: False
    with less.prems(3) obtain t where nxt: "model_next E st0 h = Inr t"
      by (cases "model_next E st0 h") (auto simp: reachable_outcome_def greedy.simps)
    have sample: "sample_row E sampler logits = (sampler, Inr t)"
      using greedy_sampler [OF zero, of logits] less.prems(2) nxt by (metis prod.collapse)
    obtain c1 ok where cb: "cb t c = (c1, ok)" by (rule prod.exhaust)
    obtain th1 b where obs: "observe_opt th t (\<not> ?stop t) = (th1, b)" by (rule prod.exhaust)
    have out: "?out = (if \<not> ok then Halted h t c1
       else if b = ForceClosure then closed_at E opts cb st0 (closure_of th1) (h @ [t]) (g @ [t] @ closure_of th1) th1 c1
       else resume_at E opts cb st0 h (g @ [t]) (Some t) th1 c1)"
      using room by (intro greedy_step [where ok = ok, OF _ nxt _ obs] cb) simp
    note plain = plain_loop.simps [of E opts cb logits g None th sampler "(rt, c)", unfolded sample Let_def, simplified]
    show ?thesis
    proof (cases ok)
      case False
      with room cb have "plain_loop E opts cb logits g None th sampler (rt, c) = ((rt\<lparr>rt_pending := Some t\<rparr>, c1), Inl CallbackFailure)"
        by (simp add: plain emit_def)
      with at out False show ?thesis by (simp add: computes_halted)
    next
      case ok: True
      have emit: "emit cb t (rt, c) = ((rt, c1), Inr ())" using cb ok by (simp add: emit_def)
      show ?thesis
      proof (cases "b = ForceClosure")
        case force: True
        then have nostop: "\<not> ?stop t" using obs observe_force_inactive by fastforce
        obtain h2 c2 r where close: "force_emit cb (closure_of th1) (h @ [t]) c1 = (h2, c2, r)" by (rule prod_cases3)
        have out': "?out = (case r of Some tok \<Rightarrow> Halted h2 tok c2
            | None \<Rightarrow> greedy_at E opts cb st0 h2 (g @ [t] @ closure_of th1) th1 c2)"
          using out ok force close by (auto simp: closed_at_def split: option.split)
        have reach: "\<exists>st. at_history E st0 h2 st"
          using less.prems(3) out' reachable_greedy unfolding reachable_outcome_def by (cases r) fastforce+
        from force_close_reaches [OF at refl _ reach, where pending = "Some t" and cb = cb and closure = "closure_of th1" and c = c1] close obtain rt2 where
          at2: "at_history E st0 h2 (rt_state rt2)" and run: "case r of
             None \<Rightarrow> \<exists>l. force_close_thinking_target_only E cb (Some t) (closure_of th1) (rt, c1) = ((rt2, c2), Inr l)
               \<and> score (ev_fops E) (last l) = model_next E st0 h2
           | Some tok \<Rightarrow> force_close_thinking_target_only E cb (Some t) (closure_of th1) (rt, c1) = ((rt2, c2), Inl CallbackFailure)
               \<and> rt_pending rt2 = Some tok" by auto
        show ?thesis
        proof (cases r)
          case (Some tok)
          with run room emit obs nostop force have "plain_loop E opts cb logits g None th sampler (rt, c) = ((rt2, c2), Inl CallbackFailure)"
            "rt_pending rt2 = Some tok" by (simp_all add: plain)
          with at2 out' Some show ?thesis by (simp add: computes_halted)
        next
          case None
          with run obtain l where l: "force_close_thinking_target_only E cb (Some t) (closure_of th1) (rt, c1) = ((rt2, c2), Inr l)"
            "score (ev_fops E) (last l) = model_next E st0 h2" by auto
          let ?g2 = "g @ [t] @ closure_of th1"
          show ?thesis
          proof (cases "go_max_new_tokens opts \<le> length ?g2")
            case True
            with l room emit obs nostop force have "plain_loop E opts cb logits g None th sampler (rt, c)
                = ((rt2, c2), Inr \<lparr>gr_generated = ?g2, gr_pending = None, gr_thinking = th1\<rparr>)" by (simp add: plain)
            moreover have "?out = Finished h2 None ?g2 th1 c2"
              using out' None True by (simp add: greedy.simps [of _ _ _ _ h2])
            ultimately show ?thesis using at2 by (simp add: computes_def result_outcome_def)
          next
            case False
            with l room emit obs nostop force have "plain_loop E opts cb logits g None th sampler (rt, c)
                = plain_loop E opts cb l ?g2 None th1 sampler (rt2, c2)" by (simp add: plain)
            moreover have "computes E st0 (greedy_at E opts cb st0 h2 ?g2 th1 c2) (plain_loop E opts cb l ?g2 None th1 sampler (rt2, c2))"
              using room less.prems(3) out' None at2 l(2) by (intro less.hyps) simp_all
            ultimately show ?thesis using out' None by simp
          qed
        qed
      next
        case go: False
        show ?thesis
        proof (cases "?stop t \<or> go_max_new_tokens opts \<le> length (g @ [t])")
          case True
          with room emit obs go have "plain_loop E opts cb logits g None th sampler (rt, c)
              = ((rt, c1), Inr \<lparr>gr_generated = g @ [t], gr_pending = Some t, gr_thinking = th1\<rparr>)" by (auto simp: plain)
          moreover have "?out = Finished h (Some t) (g @ [t]) th1 c1"
            using out ok go True by (auto simp: resume_def)
          ultimately show ?thesis using at by (simp add: computes_def result_outcome_def)
        next
          case more: False
          then have out': "?out = greedy_at E opts cb st0 (h @ [t]) (g @ [t]) th1 c1" using out ok go by (simp add: resume_def)
          from rt_forward_reaches [OF at reachable_greedy [OF less.prems(3) [unfolded out']], of c1] obtain rt1 l where
            fwd: "rt_forward E [t] (rt, c1) = ((rt1, c1), Inr l)" "at_history E st0 (h @ [t]) (rt_state rt1)"
            "score (ev_fops E) (last l) = model_next E st0 (h @ [t])" by auto
          from more room emit obs go fwd(1) have "plain_loop E opts cb logits g None th sampler (rt, c)
              = plain_loop E opts cb l (g @ [t]) None th1 sampler (rt1, c1)" by (simp add: plain)
          moreover have "computes E st0 (greedy_at E opts cb st0 (h @ [t]) (g @ [t]) th1 c1)
              (plain_loop E opts cb l (g @ [t]) None th1 sampler (rt1, c1))"
            using room less.prems(3) out' fwd by (intro less.hyps) simp_all
          ultimately show ?thesis using out' by simp
        qed
      qed
    qed
  qed
qed

lemma plain_turn_computes:
  fixes rt :: "'f runtime" and c :: 'c
  assumes ok: "model_ok (ev_model E) (rt_state rt)" and opts: "0 < go_max_new_tokens opts" "prompt \<noteq> []"
    and zero: "f_eq (ev_fops E) (sc_temperature (go_sampling opts)) (f_zero (ev_fops E))"
    and sampler: "sampler_new (ev_fops E) (ev_seed_rng E) (go_sampling opts) = Inr sampler"
    and thk: "turn_thinking E opts = Inr thinking"
    and ev: "evaluated = continuation_input prompt (rt_pending rt)"
    and out: "out = turn_spec E opts cb (rt_state rt) evaluated thinking c" and reach: "reachable_outcome E (rt_state rt) out"
  shows "\<exists>s1 g. generate_plain E opts cb prompt (rt, c) =
      (case g of Inl e \<Rightarrow> (s1, Inl e) | Inr res \<Rightarrow> finish_turn E prompt evaluated res s1) \<and> computes E (rt_state rt) out (s1, g)"
proof -
  let ?st0 = "rt_state rt"
  obtain th forced where force: "should_force_opt thinking = (th, forced)" by (rule prod.exhaust)
  have ne: "evaluated \<noteq> []" using ev opts(2) by (simp add: continuation_input_def split: option.splits)
  have spec: "out = (if forced then closed_at E opts cb ?st0 (closure_of th) evaluated (closure_of th) th c
      else greedy_at E opts cb ?st0 evaluated [] th c)"
    using out force by (simp add: turn_spec_def greedy_turn_def closed_at_def)
  have closure: "forced \<Longrightarrow> closure_of th \<noteq> []"
    using force thk by (auto simp: should_force_opt_def should_force_def turn_thinking_def thinking_from_tokenizer_def closure_of_def bindE_Inr_iff Let_def
        split: option.splits if_splits)
  let ?rt = "rt\<lparr>rt_pending := None, rt_drafted := 0, rt_accepted := 0\<rparr>"
  have at0: "at_history E ?st0 [] (rt_state ?rt)" using ok by (simp add: at_start)
  obtain h2 c2 r where close: "force_emit cb (closure_of th) evaluated c = (h2, c2, r)" by (rule prod_cases3)
  have reach_ev: "\<exists>st. at_history E ?st0 ([] @ evaluated) st"
  proof (cases forced)
    case False
    with reach spec reachable_greedy show ?thesis by fastforce
  next
    case True
    then have "\<exists>h3. outcome_history out = Some h3 \<and> prefix h2 h3"
      using reach spec close greedy_extends by (auto simp: reachable_outcome_def closed_at_def split: option.splits)
    with at_reachable_prefix [OF reach] force_emit_extends [OF close] show ?thesis
      using prefix_order.trans by fastforce
  qed
  from rt_forward_reaches [OF at0 this ne, of c] obtain rt1 l where
    fwd: "rt_forward E evaluated (?rt, c) = ((rt1, c), Inr l)" and at1: "at_history E ?st0 evaluated (rt_state rt1)"
    and sc: "score (ev_fops E) (last l) = model_next E ?st0 evaluated" by auto
  have zero': "f_eq (ev_fops E) (sc_temperature (sm_config sampler)) (f_zero (ev_fops E))"
    using zero sampler_new_config [OF sampler] by simp
  have start: "generate_plain E opts cb prompt (rt, c) =
    bindS (if forced then force_close_thinking_target_only E cb None (closure_of th) else returnS l) (\<lambda>logits.
     bindS (plain_loop E opts cb logits (if forced then closure_of th else []) None th sampler) (\<lambda>r.
     finish_turn E prompt evaluated r)) (rt1, c)"
    using opts sampler thk force fwd
    by (simp add: generate_plain_def ev [symmetric] Let_def bindS_lift bindS_Inr)
  show ?thesis
  proof (cases forced)
    case False
    obtain s1 g where run: "plain_loop E opts cb l [] None th sampler (rt1, c) = (s1, g)" by (rule prod.exhaust)
    have "computes E ?st0 out (s1, g)"
      using plain_loop_computes [OF at1 zero' sc, of opts cb "[]" th c] reach spec False run by simp
    with start False run show ?thesis by (intro exI [of _ s1] exI [of _ g]) (auto simp: bindS_def split: sum.splits)
  next
    case True
    have reach2: "\<exists>st. at_history E ?st0 h2 st"
      using reach spec True close reachable_greedy unfolding reachable_outcome_def closed_at_def by (cases r) fastforce+
    from force_close_reaches [OF at1 _ close reach2, of None] closure [OF True] obtain rt2 where
      at2: "at_history E ?st0 h2 (rt_state rt2)" and run: "case r of
       None \<Rightarrow> \<exists>l. force_close_thinking_target_only E cb None (closure_of th) (rt1, c) = ((rt2, c2), Inr l)
         \<and> score (ev_fops E) (last l) = model_next E ?st0 h2
     | Some t \<Rightarrow> force_close_thinking_target_only E cb None (closure_of th) (rt1, c) = ((rt2, c2), Inl CallbackFailure)
         \<and> rt_pending rt2 = Some t" by auto
    show ?thesis
    proof (cases r)
      case (Some t)
      with run start True have "generate_plain E opts cb prompt (rt, c) = ((rt2, c2), Inl CallbackFailure)" "rt_pending rt2 = Some t"
        by (simp_all add: bindS_Inl)
      moreover have "out = Halted h2 t c2" using spec True close Some by (simp add: closed_at_def)
      ultimately show ?thesis using at2
        by (intro exI [of _ "(rt2, c2)"] exI [of _ "Inl CallbackFailure"]) (simp add: computes_halted)
    next
      case None
      with run obtain l2 where l2: "force_close_thinking_target_only E cb None (closure_of th) (rt1, c) = ((rt2, c2), Inr l2)"
        "score (ev_fops E) (last l2) = model_next E ?st0 h2" by auto
      obtain s1 g where loop: "plain_loop E opts cb l2 (closure_of th) None th sampler (rt2, c2) = (s1, g)" by (rule prod.exhaust)
      have "out = greedy_at E opts cb ?st0 h2 (closure_of th) th c2" using spec True close None by (simp add: closed_at_def)
      with plain_loop_computes [OF at2 zero' l2(2), of opts cb "closure_of th" th c2] reach loop
      have "computes E ?st0 out (s1, g)" by simp
      with start True l2(1) loop show ?thesis
        by (intro exI [of _ s1] exI [of _ g]) (auto simp: bindS_def split: sum.splits)
    qed
  qed
qed

text \<open>Conversely, whatever the plain path returns is the specification's outcome.\<close>

lemma plain_loop_meets:
  fixes s' :: "('f, 'c) session"
  assumes "session_at E st0 h (rt, c)"
    and zero: "f_eq (ev_fops E) (sc_temperature (sm_config sampler)) (f_zero (ev_fops E))"
    and "score (ev_fops E) (last logits) = model_next E st0 h"
    and "plain_loop E opts cb logits g None th sampler (rt, c) = (s', r)" and r: "proper r"
  shows "meets E st0 (greedy_at E opts cb st0 h g th c) result_outcome (s', r)"
  using assms(1,3,4)
proof (induction "go_max_new_tokens opts - length g" arbitrary: h rt logits g th c rule: less_induct)
  case less
  let ?out = "greedy_at E opts cb st0 h g th c" and ?stop = "is_stop_token E opts"
  note at = less.prems(1)
  show ?case
  proof (cases "go_max_new_tokens opts \<le> length g")
    case True
    with less.prems show ?thesis
      by (auto simp: plain_loop.simps greedy.simps result_outcome_def)
  next
    case room: False
    obtain t where sample: "sample_row E sampler logits = (sampler, Inr t)" and nxt: "model_next E st0 h = Inr t"
    proof (cases "snd (sample_row E sampler logits)")
      case (Inl e)
      then have "sample_row E sampler logits = (sampler, Inl e)" using greedy_sampler(2) [OF zero] by (metis prod.collapse)
      with less.prems(3) room have "r = Inl e" by (simp add: plain_loop.simps)
      with r Inl sample_not_callback [of E sampler logits] show thesis by simp
    next
      case (Inr t)
      with greedy_sampler [OF zero, of logits] less.prems(2) that show thesis by (metis prod.collapse)
    qed
    obtain c1 ok where cb: "cb t c = (c1, ok)" by (rule prod.exhaust)
    obtain th1 b where obs: "observe_opt th t (\<not> ?stop t) = (th1, b)" by (rule prod.exhaust)
    have out: "?out = (if \<not> ok then Halted h t c1
       else if b = ForceClosure then closed_at E opts cb st0 (closure_of th1) (h @ [t]) (g @ [t] @ closure_of th1) th1 c1
       else resume_at E opts cb st0 h (g @ [t]) (Some t) th1 c1)"
      using room by (intro greedy_step [where ok = ok, OF _ nxt _ obs] cb) simp
    note plain = less.prems(3) [unfolded plain_loop.simps [of E opts cb logits g None th sampler "(rt, c)"] sample Let_def, simplified]
    have at1: "session_at E st0 h (rt, c1)" using at by (simp add: session_at_def)
    show ?thesis
    proof (cases ok)
      case False
      with plain room cb have "s' = (rt\<lparr>rt_pending := Some t\<rparr>, c1)" "r = Inl CallbackFailure"
        by (simp_all add: emit_def)
      with at out False show ?thesis by (simp add: session_at_def halted_at_def)
    next
      case ok: True
      have emit: "emit cb t (rt, c) = ((rt, c1), Inr ())" using cb ok by (simp add: emit_def)
      show ?thesis
      proof (cases "b = ForceClosure")
        case force: True
        then have nostop: "\<not> ?stop t" using obs observe_force_inactive by fastforce
        let ?g2 = "g @ [t] @ closure_of th1"
        obtain s1 r1 where close: "force_close_thinking_target_only E cb (Some t) (closure_of th1) (rt, c1) = (s1, r1)"
          by (rule prod.exhaust)
        have out': "?out = closed_at E opts cb st0 (closure_of th1) (h @ [t]) ?g2 th1 c1" using out ok force by simp
        note closed = force_close_target_meets [OF at1 close, of "h @ [t]" opts ?g2 th1]
        show ?thesis
        proof (cases r1)
          case (Inl e)
          with plain room emit obs nostop force close have "s' = s1" "r = Inl e" by simp_all
          with closed r Inl out' show ?thesis by simp
        next
          case (Inr l)
          with closed obtain h2 where at2: "session_at E st0 h2 s1" and sc2: "score (ev_fops E) (last l) = model_next E st0 h2"
            and next2: "?out = greedy_at E opts cb st0 h2 ?g2 th1 (snd s1)" using out' by auto
          show ?thesis
          proof (cases "go_max_new_tokens opts \<le> length ?g2")
            case True
            with plain room emit obs nostop force close Inr
            have "s' = s1" "r = Inr \<lparr>gr_generated = ?g2, gr_pending = None, gr_thinking = th1\<rparr>" by simp_all
            moreover have "?out = Finished h2 None ?g2 th1 (snd s1)"
              using next2 True by (simp add: greedy.simps [of _ _ _ _ h2])
            ultimately show ?thesis using at2 by (auto simp: result_outcome_def)
          next
            case False
            with plain room emit obs nostop force close Inr
            have "plain_loop E opts cb l ?g2 None th1 sampler (fst s1, snd s1) = (s', r)" by simp
            with less.hyps [of ?g2 h2 "fst s1" "snd s1" l th1] room at2 sc2 next2 show ?thesis by simp
          qed
        qed
      next
        case go: False
        show ?thesis
        proof (cases "?stop t \<or> go_max_new_tokens opts \<le> length (g @ [t])")
          case True
          with plain room emit obs go
          have "s' = (rt, c1) \<and> r = Inr \<lparr>gr_generated = g @ [t], gr_pending = Some t, gr_thinking = th1\<rparr>"
            by (cases "?stop t") simp_all
          moreover have "?out = Finished h (Some t) (g @ [t]) th1 c1"
            using out ok go True by (auto simp: resume_def)
          ultimately show ?thesis using at1 by (auto simp: result_outcome_def)
        next
          case more: False
          then have out': "?out = greedy_at E opts cb st0 (h @ [t]) (g @ [t]) th1 c1" using out ok go by (simp add: resume_def)
          obtain s1 r1 where fwd: "rt_forward E [t] (rt, c1) = (s1, r1)" by (rule prod.exhaust)
          have proper: "proper r1"
          proof (cases r1)
            case (Inl e)
            with plain room emit obs go more fwd have "r = Inl e" by simp
            with r Inl show ?thesis by simp
          qed simp
          have at0: "at_history E st0 h (rt_state rt)" using at1 by (simp add: session_at_def)
          obtain rt1 l where l: "r1 = Inr l" "s1 = (rt1, c1)"
            "at_history E st0 (h @ [t]) (rt_state rt1)" "rt_snapshots rt1 = rt_snapshots rt"
            "score (ev_fops E) (last l) = model_next E st0 (h @ [t])"
            by (rule evaluatesD [OF evaluates_forward at0 fwd proper])
          with plain room emit obs go more fwd have "plain_loop E opts cb l (g @ [t]) None th1 sampler (rt1, c1) = (s', r)" by simp
          with less.hyps [of "g @ [t]" "h @ [t]" rt1 c1 l th1] room at1 l out' show ?thesis by (simp add: session_at_def)
        qed
      qed
    qed
  qed
qed

lemma plain_loop_and_finish_meets:
  assumes at: "session_at E st0 h s"
    and zero: "f_eq (ev_fops E) (sc_temperature (sm_config sampler)) (f_zero (ev_fops E))"
    and sc: "score (ev_fops E) (last logits) = model_next E st0 h"
    and out: "out = greedy_at E opts cb st0 h g th (snd s)"
    and run: "bindS (plain_loop E opts cb logits g None th sampler) (\<lambda>r. finish_turn E prompt evaluated r) s = (s', r)"
    and r: "proper r"
  shows "turn_meets E st0 prompt evaluated out (s', r)"
proof (rule turn_meets_bind [OF run r])
  fix s1 r1 assume "plain_loop E opts cb logits g None th sampler s = (s1, r1)" "proper r1"
  with plain_loop_meets [of E st0 h "fst s" "snd s"] at zero sc out
  show "meets E st0 out result_outcome (s1, r1)" by simp
qed (use r in \<open>simp add: finish_meets\<close>)

lemma plain_rest_meets:
  assumes at: "session_at E st0 h (rt, c)"
    and zero: "f_eq (ev_fops E) (sc_temperature (sm_config sampler)) (f_zero (ev_fops E))"
    and sc: "score (ev_fops E) (last logits) = model_next E st0 h"
    and force: "should_force_opt thinking = (th, forced)"
    and run: "bindS (if forced then force_close_thinking_target_only E cb None (closure_of th) else returnS logits) (\<lambda>logits.
     bindS (plain_loop E opts cb logits (if forced then closure_of th else []) None th sampler) (\<lambda>r.
     finish_turn E prompt evaluated r)) (rt, c) = (s', r)" and r: "proper r"
  shows "turn_meets E st0 prompt evaluated (turn_spec E opts cb st0 h thinking c) (s', r)"
proof (cases forced)
  case False
  with force run show ?thesis
    by (intro plain_loop_and_finish_meets [OF at zero sc _ _ r]) (simp_all add: turn_spec_def greedy_turn_def)
next
  case True
  let ?out = "closed_at E opts cb st0 (closure_of th) h (closure_of th) th c"
  have spec: "turn_spec E opts cb st0 h thinking c = ?out"
    using True force by (simp add: turn_spec_def greedy_turn_def closed_at_def)
  obtain s1 r1 where close: "force_close_thinking_target_only E cb None (closure_of th) (rt, c) = (s1, r1)"
    by (rule prod.exhaust)
  show ?thesis
  proof (cases r1)
    case (Inl e)
    with close True run have "s' = s1" "r = Inl e" by (simp_all add: bindS_Inl)
    with force_close_target_meets [OF at close _ refl] r Inl show ?thesis
      unfolding spec by (simp add: turn_meets_def turn_result_def)
  next
    case (Inr l)
    from force_close_target_meets [OF at close _ refl, of opts "closure_of th" th] Inr obtain h2 where
      at2: "session_at E st0 h2 s1" and sc2: "score (ev_fops E) (last l) = model_next E st0 h2"
      and out: "?out = greedy_at E opts cb st0 h2 (closure_of th) th (snd s1)"
      by auto
    from close Inr True run show ?thesis
      unfolding spec by (intro plain_loop_and_finish_meets [OF at2 zero sc2 out _ r]) (simp add: bindS_Inr)
  qed
qed

lemma plain_turn_meets:
  fixes s' :: "('f, 'c) session"
  assumes ok: "model_ok (ev_model E) (rt_state rt)" and sn: "snapshots_ok (rt_snapshots rt)"
    and zero: "f_eq (ev_fops E) (sc_temperature (go_sampling opts)) (f_zero (ev_fops E))"
    and run: "generate_plain E opts cb prompt (rt, c) = (s', r)" and r: "proper r"
  shows "\<exists>thinking. turn_thinking E opts = Inr thinking
    \<and> turn_meets E (rt_state rt) prompt (continuation_input prompt (rt_pending rt))
        (turn_spec E opts cb (rt_state rt) (continuation_input prompt (rt_pending rt)) thinking c) (s', r)"
proof -
  let ?st0 = "rt_state rt" and ?ev = "continuation_input prompt (rt_pending rt)"
  let ?rt = "rt\<lparr>rt_pending := None, rt_drafted := 0, rt_accepted := 0\<rparr>"
  from run r have guards: "0 < go_max_new_tokens opts" "prompt \<noteq> []"
    by (auto simp: generate_plain_def split: if_splits)
  obtain sampler where sampler: "sampler_new (ev_fops E) (ev_seed_rng E) (go_sampling opts) = Inr sampler"
    using run r guards by (auto simp: generate_plain_def bindS_lift Let_def lift_sampling_def split: sum.splits)
  note start = run [unfolded generate_plain_def, simplified guards sampler Let_def not_False_eq_True bindS_ensureS bindS_get bindS_upd if_True
      bindS_lift lift_simps sum.case]
  show ?thesis
  proof (cases rule: silent_then [OF silent_rt_forward start r])
    case (1 s1 l)
    have at0: "at_history E ?st0 [] (rt_state ?rt)" using ok by (simp add: at_start)
    obtain rt1 where s1: "s1 = (rt1, c)" and at1: "session_at E ?st0 ?ev (rt1, c)"
      and sc: "score (ev_fops E) (last l) = model_next E ?st0 ?ev"
    proof -
      from 1(1) obtain st out where fwd: "forward_detailed_logits (ev_fops E) (ev_threads E) (ev_model E) ?ev ?st0 LastRow
          = (st, Inr out)" "s1 = (?rt\<lparr>rt_state := st\<rparr>, c)" "l = fo_logits out"
        by (auto simp: rt_forward_def bindS_Inr_iff on_state_def split: prod.splits)
      from at0 have "at_history E ?st0 [] ?st0" by simp
      from pass_facts(1,3) [OF this fwd(1)] fwd sn that show thesis by (simp add: session_at_def)
    qed
    show ?thesis
    proof (cases rule: silent_then [OF silent_liftS [OF turn_thinking_silent] 1(2) r])
      case thk: (1 s2 thinking)
      obtain th forced where force: "should_force_opt thinking = (th, forced)" by (rule prod.exhaust)
      from thk(1) s1 have s2: "s2 = (rt1, c)" by simp
      have "f_eq (ev_fops E) (sc_temperature (sm_config sampler)) (f_zero (ev_fops E))"
        using zero sampler_new_config [OF sampler] by simp
      from plain_rest_meets [OF at1 this sc force thk(2) [unfolded s2 force case_prod_conv] r] thk(1) show ?thesis by auto
    qed
  qed
qed

section \<open>Any turn\<close>

lemma generate_tokens_cases:
  assumes "generate_tokens_with_callback E opts cb prompt s = (s', r)" and "proper r"
  shows "generate_plain E opts cb prompt s = (s', r) \<or> (\<exists>mode. generate_speculative_policy E opts mode cb prompt s = (s', r))"
  using assms by (auto simp: generate_tokens_with_callback_def Let_def split: if_splits)

lemma turn_meets_spec:
  fixes s' :: "('f, 'c) session"
  assumes "model_ok (ev_model E) (rt_state rt)" and "snapshots_ok (rt_snapshots rt)"
    and zero: "f_eq (ev_fops E) (sc_temperature (go_sampling opts)) (f_zero (ev_fops E))"
    and "generate_tokens_with_callback E opts cb prompt (rt, c) = (s', r)" and "proper r"
  obtains thinking where "turn_thinking E opts = Inr thinking"
    "turn_meets E (rt_state rt) prompt (continuation_input prompt (rt_pending rt))
        (turn_spec E opts cb (rt_state rt) (continuation_input prompt (rt_pending rt)) thinking c) (s', r)"
proof (cases "generate_plain E opts cb prompt (rt, c) = (s', r)")
  case True
  from plain_turn_meets [OF assms(1,2) zero this assms(5)] that show thesis by blast
next
  case False
  with generate_tokens_cases [OF assms(4,5)] obtain mode where
    "generate_speculative_policy E opts mode cb prompt (rt, c) = (s', r)" by blast
  from speculative_turn_meets [OF assms(1,2) this assms(5)] that show thesis by blast
qed

lemma continuation_pending: "continuation_input prompt p = pending_list p @ prompt"
  by (simp add: continuation_input_def pending_list_def split: option.split)

lemma length_pending_list: "length (pending_list p) = of_bool (p \<noteq> None)"
  by (simp add: pending_list_def split: option.split)

lemma at_history_position: "at_history E st0 h st \<Longrightarrow> ms_position st = ms_position st0 + length h"
  by (auto simp: at_history_def dest: runs_position)

text \<open>
  The accounts of a turn, at any temperature: those of the specification when it is speculative,
  and its own when it is plain.
\<close>

lemma turn_meets_accounted:
  fixes s' :: "('f, 'c) session"
  assumes meets: "turn_meets E st0 prompt evaluated (turn_spec E opts cb st0 evaluated thinking c) (s', r)" and r: "proper r"
  shows "turn_accounted E st0 cb evaluated c (go_max_new_tokens opts + length (closure_of thinking)) (s', r)"
proof -
  have acc: "accounts cb evaluated [] c (go_max_new_tokens opts + closure_room thinking)
      (turn_spec E opts cb st0 evaluated thinking c)"
    unfolding turn_spec_def by (rule greedy_turn_accounts)
  show ?thesis
  proof (cases r)
    case (Inl e)
    with meets obtain h t where "e = CallbackFailure" "turn_spec E opts cb st0 evaluated thinking c = Halted h t (snd s')"
      "rt_pending (fst s') = Some t" "at_history E st0 h (rt_state (fst s'))"
      by (auto simp: turn_meets_def turn_result_def halted_at_def)
    with acc Inl show ?thesis
      by (cases s') (auto simp: accounts_def turn_accounted_def)
  next
    case (Inr res)
    with meets obtain h where "turn_spec E opts cb st0 evaluated thinking c
        = Finished h (rt_pending (fst s')) (qr_generated res) (qr_thinking res) (snd s')"
      "at_history E st0 h (rt_state (fst s'))"
      by (auto simp: turn_meets_def turn_result_def)
    note fin = this
    from fin(1) acc have "feed cb (qr_generated res) c = Some (snd s')"
      and "h @ pending_list (rt_pending (fst s')) = evaluated @ qr_generated res"
      and "length (qr_generated res) \<le> go_max_new_tokens opts + closure_room thinking"
      by (simp_all add: accounts_def)
    moreover have "closure_room thinking \<le> length (closure_of thinking)" by (rule closure_room_le)
    ultimately have "length (qr_generated res) \<le> go_max_new_tokens opts + length (closure_of thinking)"
      and "feed cb (qr_generated res) c = Some (snd s')"
      and "h @ pending_list (rt_pending (fst s')) = evaluated @ qr_generated res"
      by (simp_all only: le_trans [OF _ add_left_mono])
    with fin(2) have "\<exists>h2. feed cb (qr_generated res) c = Some (snd s') \<and> at_history E st0 h2 (rt_state (fst s'))
      \<and> h2 @ pending_list (rt_pending (fst s')) = evaluated @ qr_generated res
      \<and> length (qr_generated res) \<le> go_max_new_tokens opts + length (closure_of thinking)" by blast
    then show ?thesis unfolding Inr turn_accounted_def by (cases s') simp
  qed
qed

lemma turn_accounts:
  fixes s' :: "('f, 'c) session"
  assumes ok: "model_ok (ev_model E) (rt_state rt)" and sn: "snapshots_ok (rt_snapshots rt)"
    and run: "generate_tokens_with_callback E opts cb prompt (rt, c) = (s', r)" and r: "proper r"
  obtains thinking where "turn_thinking E opts = Inr thinking"
    "turn_accounted E (rt_state rt) cb (pending_list (rt_pending rt) @ prompt) c
       (go_max_new_tokens opts + length (closure_of thinking)) (s', r)"
proof (cases "generate_plain E opts cb prompt (rt, c) = (s', r)")
  case True
  from plain_turn_accounts [OF ok this r] that show thesis unfolding continuation_pending by blast
next
  case False
  with generate_tokens_cases [OF run r] obtain mode where
    "generate_speculative_policy E opts mode cb prompt (rt, c) = (s', r)" by blast
  from speculative_turn_meets [OF ok sn this r] obtain thinking where thinking: "turn_thinking E opts = Inr thinking"
    and meets: "turn_meets E (rt_state rt) prompt (continuation_input prompt (rt_pending rt))
        (turn_spec E opts cb (rt_state rt) (continuation_input prompt (rt_pending rt)) thinking c) (s', r)" by (elim exE conjE)
  from that [OF thinking turn_meets_accounted [OF meets r, unfolded continuation_pending]] show thesis .
qed

text \<open>A turn on the integers: a model that counts modulo four, and an index that drafts.\<close>

definition counting_model :: "int model" where
  "counting_model = \<lparr>md_layers = [], md_embedding = (\<lambda>t. if t < 8 then Some [uint t] else None), md_final_norm = (\<lambda>x. x),
     md_lm_head = (\<lambda>x. map (\<lambda>i. if i = (hd x + 1) mod 4 then 9 else 0) [0, 1, 2, 3, 4, 5, 6, 7]), md_max_position = 64\<rparr>"

definition counting_env :: "(int, nat) env" where
  "counting_env = \<lparr>ev_fops = int_fops, ev_threads = 2, ev_model = counting_model, ev_mtp = None, ev_hidden_size = 1,
     ev_eos = None, ev_encode = (\<lambda>_ _. Some [6]), ev_decode = (\<lambda>_. Some []), ev_seed_rng = (\<lambda>_. 0),
     ev_draw01 = (\<lambda>r. (1, r)), ev_rank = id\<rparr>"

definition counting_options :: "int generation_options" where
  "counting_options = \<lparr>go_max_new_tokens = 3, go_sampling = (sampling_default int_fops)\<lparr>sc_temperature := 0\<rparr>,
     go_stop_tokens = [], go_speculative_mode = ModeNgram, go_policy = policy_default int_fops, go_mtp_draft_tokens = 0,
     go_mtp_min_margin = None, go_mtp_draft_vocab = 0, go_mtp_min_confidence = 0, go_ngram_draft_tokens = 4,
     go_ngram_min_match = 3, go_thinking_budget = None, go_add_special_tokens = False\<rparr>"

definition counting_runtime :: "int runtime" where
  "counting_runtime = (runtime_new counting_env)\<lparr>rt_ngram := with_hasher (\<lambda>w. ucast (hd w))\<rparr>"

definition recording_sink :: "u32 \<Rightarrow> u32 list sink" where
  "recording_sink refused = (\<lambda>t c. (c @ [t], t \<noteq> refused))"

lemma counting_ok: "model_ok (ev_model counting_env) (rt_state counting_runtime)" "snapshots_ok (rt_snapshots counting_runtime)"
  by (simp_all add: counting_env_def counting_runtime_def runtime_new_def model_new_state_def counting_model_def)

lemma counting_greedy: "f_eq (ev_fops counting_env) (sc_temperature (go_sampling counting_options)) (f_zero (ev_fops counting_env))"
  by code_simp

text \<open>The turn drafts one token, the target accepts it, and the third token is the target's.\<close>

lemma counting_turn:
  obtains rt res where "generate_tokens_with_callback counting_env counting_options (recording_sink 7) [0, 1, 2, 3, 0, 1, 2]
      (counting_runtime, []) = ((rt, [3, 0, 1]), Inr res)"
    "rt_accepted rt = 1" "rt_pending rt = Some 1" "qr_generated res = [3, 0, 1]"
proof -
  have "case generate_tokens_with_callback counting_env counting_options (recording_sink 7) [0, 1, 2, 3, 0, 1, 2]
      (counting_runtime, []) of ((rt, c), r) \<Rightarrow> c = [3, 0, 1] \<and> rt_accepted rt = 1 \<and> rt_pending rt = Some 1 \<and>
        (case r of Inl e \<Rightarrow> False | Inr res \<Rightarrow> qr_generated res = [3, 0, 1])"
    by code_simp
  then show thesis using that by (auto split: prod.splits sum.splits)
qed

text \<open>The same turn with a sink that refuses the accepted draft.\<close>

lemma counting_halt:
  obtains rt where "generate_tokens_with_callback counting_env counting_options (recording_sink 0) [0, 1, 2, 3, 0, 1, 2]
      (counting_runtime, []) = ((rt, [3, 0]), Inl CallbackFailure)"
    "rt_pending rt = Some 0" "ms_position (rt_state rt) = 8"
proof -
  have "case generate_tokens_with_callback counting_env counting_options (recording_sink 0) [0, 1, 2, 3, 0, 1, 2]
      (counting_runtime, []) of ((rt, c), r) \<Rightarrow> c = [3, 0] \<and> rt_pending rt = Some 0 \<and> ms_position (rt_state rt) = 8
        \<and> r = Inl CallbackFailure"
    by code_simp
  then show thesis using that by (auto split: prod.splits)
qed

text \<open>A turn, whatever its path, agrees with the plain path of the same prompt from the same session.\<close>

lemma turn_as_plain:
  assumes ok: "model_ok (ev_model E) (rt_state rt)" and sn: "snapshots_ok (rt_snapshots rt)"
    and run: "generate_tokens_with_callback E opts cb prompt (rt, c) = ((rt1, c1), r)" and r: "proper r"
  shows "\<exists>rt2. generate_plain E opts cb prompt (rt, c) = ((rt2, c1), r)
    \<and> rt_state rt2 = rt_state rt1 \<and> rt_pending rt2 = rt_pending rt1"
proof (cases "generate_plain E opts cb prompt (rt, c) = ((rt1, c1), r)")
  case False
  with generate_tokens_cases [OF run r] obtain mode where
    spec: "generate_speculative_policy E opts mode cb prompt (rt, c) = ((rt1, c1), r)" by blast
  let ?ev = "continuation_input prompt (rt_pending rt)"
  from speculative_turn_meets [OF ok sn spec r] obtain thinking sampler where
    thk: "turn_thinking E opts = Inr thinking" and
    meets: "turn_meets E (rt_state rt) prompt ?ev (turn_spec E opts cb (rt_state rt) ?ev thinking c) ((rt1, c1), r)" and
    opts: "0 < go_max_new_tokens opts" "prompt \<noteq> []" and
    zero: "f_eq (ev_fops E) (sc_temperature (go_sampling opts)) (f_zero (ev_fops E))" and
    sampler: "sampler_new (ev_fops E) (ev_seed_rng E) (go_sampling opts) = Inr sampler"
    by blast
  let ?out = "turn_spec E opts cb (rt_state rt) ?ev thinking c"
  have result: "turn_result E (rt_state rt) prompt ?ev ?out ((rt1, c1), r)" using meets by (simp add: turn_meets_def)
  then have "reachable_outcome E (rt_state rt) ?out"
    using r by (cases r) (auto simp: turn_result_def halted_at_def reachable_outcome_def)
  from plain_turn_computes [OF ok opts zero sampler thk refl refl this] obtain s2 g where
    plain: "generate_plain E opts cb prompt (rt, c) = (case g of Inl e \<Rightarrow> (s2, Inl e) | Inr res \<Rightarrow> finish_turn E prompt ?ev res s2)"
    and comp: "computes E (rt_state rt) ?out (s2, g)" by blast
  have "\<exists>s3 r3. generate_plain E opts cb prompt (rt, c) = (s3, r3) \<and> turn_result E (rt_state rt) prompt ?ev ?out (s3, r3)"
  proof (cases g)
    case (Inl e)
    with plain comp show ?thesis by (auto simp: computes_def turn_result_def)
  next
    case (Inr res)
    with comp obtain h where h: "at_history E (rt_state rt) h (rt_state (fst s2))" "?out = result_outcome h res (snd s2)"
      by (auto simp: computes_def)
    with result r obtain decoded where "ev_decode E (gr_generated res) = Some decoded"
      by (cases r) (auto simp: turn_result_def halted_at_def result_outcome_def)
    with Inr plain h show ?thesis
      by (cases s2) (auto simp: finish_turn_def bindS_lift turn_result_def result_outcome_def lift_tokenizer_def)
  qed
  then obtain s3 r3 where 3: "generate_plain E opts cb prompt (rt, c) = (s3, r3)"
    "turn_result E (rt_state rt) prompt ?ev ?out (s3, r3)" by blast
  from turn_result_unique [OF 3(2) result] 3(1) show ?thesis by (cases s3) simp
qed blast

section \<open>Properties\<close>

text \<open>
  C2. Speculation changes nothing a caller can see. When a turn ends, or its sink halts it,
  plain decoding of the same prompt from the same session gives the same result (the same
  tokens, text and thinking counters, or the same refusal), leaves the model in the same
  state with the same token pending, and has handed the sink the same tokens: whatever the
  mode, the drafts of the index and of the predictor, the arms' controllers, the spans and
  the lengths of the passes. This is for kernels that compute a row of a pass as they compute that
  row alone (\<open>Matmul.dispatch_is_row_wise\<close>); where they do, neither a verification pass nor the
  512-row passes of a prefill are a numerical change, whatever the remarks on last bits say.
\<close>

theorem speculation_changes_nothing:
  assumes ok: "model_ok (ev_model E) (rt_state rt)" and sn: "snapshots_ok (rt_snapshots rt)"
    and run: "generate_tokens_with_callback E opts cb prompt (rt, c) = ((rt1, c1), r)" and r: "proper r"
  shows "\<exists>rt2. generate_plain E opts cb prompt (rt, c) = ((rt2, c1), r)
    \<and> rt_state rt2 = rt_state rt1 \<and> rt_pending rt2 = rt_pending rt1"
  using assms by (rule turn_as_plain)

lemma speculation_changes_nothing_witness:
  "case generate_tokens_with_callback counting_env counting_options (recording_sink 7) [0, 1, 2, 3, 0, 1, 2]
      (counting_runtime, []) of
     ((rt1, c1), r) \<Rightarrow> rt_accepted rt1 = 1 \<and> c1 = [3, 0, 1] \<and>
       (\<exists>rt2. generate_plain counting_env counting_options (recording_sink 7) [0, 1, 2, 3, 0, 1, 2] (counting_runtime, [])
          = ((rt2, [3, 0, 1]), r) \<and> rt_pending rt2 = Some 1)"
proof (rule counting_turn)
  fix rt res
  assume run: "generate_tokens_with_callback counting_env counting_options (recording_sink 7) [0, 1, 2, 3, 0, 1, 2]
      (counting_runtime, []) = ((rt, [3, 0, 1]), Inr res)"
    and rt: "rt_accepted rt = 1" "rt_pending rt = Some 1" "qr_generated res = [3, 0, 1]"
  from speculation_changes_nothing [OF counting_ok run] rt show ?thesis unfolding run by auto
qed

text \<open>
  C3. At temperature zero a turn is greedy decoding of the target model. What a turn returns,
  what its sink has seen and where it leaves the session is the outcome of \<open>greedy_turn\<close>: from
  the tokens evaluated so far take the arg max of the model's last logits row, emit it, stop
  at a stop token, at the token limit or at a refusal, and force the closure of the thinking
  section when its budget is spent. It holds for plain decoding and for every speculative mode.
\<close>

theorem turn_is_greedy_decoding:
  assumes "model_ok (ev_model E) (rt_state rt)" and "snapshots_ok (rt_snapshots rt)"
    and "f_eq (ev_fops E) (sc_temperature (go_sampling opts)) (f_zero (ev_fops E))"
    and "generate_tokens_with_callback E opts cb prompt (rt, c) = ((rt', c'), Inr res)"
  shows "\<exists>thinking h. turn_thinking E opts = Inr thinking \<and>
    greedy_turn (model_next E (rt_state rt)) (is_stop_token E opts) (go_max_new_tokens opts) cb
        (continuation_input prompt (rt_pending rt)) thinking c
      = Finished h (rt_pending rt') (qr_generated res) (qr_thinking res) c' \<and>
    at_history E (rt_state rt) h (rt_state rt')"
  by (rule turn_meets_spec [OF assms]) (auto simp: turn_meets_def turn_result_def turn_spec_def)

lemma turn_is_greedy_decoding_witness:
  "\<exists>h th (rt' :: int runtime). greedy_turn (model_next counting_env (rt_state counting_runtime)) (is_stop_token counting_env counting_options) 3
      (recording_sink 7) [0, 1, 2, 3, 0, 1, 2] None [] = Finished h (Some 1) [3, 0, 1] th [3, 0, 1] \<and>
    at_history counting_env (rt_state counting_runtime) h (rt_state rt')"
proof (rule counting_turn)
  fix rt res
  assume run: "generate_tokens_with_callback counting_env counting_options (recording_sink 7) [0, 1, 2, 3, 0, 1, 2]
      (counting_runtime, []) = ((rt, [3, 0, 1]), Inr res)"
    and rt: "rt_accepted rt = 1" "rt_pending rt = Some 1" "qr_generated res = [3, 0, 1]"
  have "turn_thinking counting_env counting_options = Inr None" "go_max_new_tokens counting_options = 3"
    "continuation_input [0, 1, 2, 3, 0, 1, 2] (rt_pending counting_runtime) = [0, 1, 2, 3, 0, 1, 2]"
    by code_simp+
  with turn_is_greedy_decoding [OF counting_ok counting_greedy run] rt show ?thesis by fastforce
qed

text \<open>
  C9. Every token of a turn is accounted for. The sink has been handed exactly the generated
  tokens, in order and once each; the model has evaluated the prompt (after the token the
  previous turn left pending) and the generated tokens, all of them or all but the last, which
  is then the one left pending; and the context of the session has grown by exactly the prompt
  and the generated tokens.
\<close>

theorem turn_accounts_for_every_token:
  assumes "model_ok (ev_model E) (rt_state rt)" and "snapshots_ok (rt_snapshots rt)"
    and "generate_tokens_with_callback E opts cb prompt (rt, c) = ((rt', c'), Inr res)"
  shows "feed cb (qr_generated res) c = Some c' \<and>
    (\<exists>h. at_history E (rt_state rt) h (rt_state rt') \<and>
       h @ pending_list (rt_pending rt') = pending_list (rt_pending rt) @ prompt @ qr_generated res) \<and>
    context_tokens rt' = context_tokens rt + length prompt + length (qr_generated res)"
proof -
  from turn_accounts [OF assms proper_simps(1)] obtain h where
    h: "feed cb (qr_generated res) c = Some c'" "at_history E (rt_state rt) h (rt_state rt')"
      "h @ pending_list (rt_pending rt') = pending_list (rt_pending rt) @ prompt @ qr_generated res"
    by (auto simp: turn_accounted_def)
  from arg_cong [OF h(3), of length] at_history_position [OF h(2)]
  have "context_tokens rt' = context_tokens rt + length prompt + length (qr_generated res)"
    by (simp add: context_tokens_def length_pending_list)
  with h show ?thesis by blast
qed

lemma turn_accounts_for_every_token_witness:
  "\<exists>(rt' :: int runtime) h. feed (recording_sink 7) [3, 0, 1] [] = Some [3, 0, 1] \<and>
    at_history counting_env (rt_state counting_runtime) h (rt_state rt') \<and>
    h @ [1] = [0, 1, 2, 3, 0, 1, 2, 3, 0, 1] \<and> context_tokens rt' = 10"
proof (rule counting_turn)
  fix rt res
  assume run: "generate_tokens_with_callback counting_env counting_options (recording_sink 7) [0, 1, 2, 3, 0, 1, 2]
      (counting_runtime, []) = ((rt, [3, 0, 1]), Inr res)"
    and rt: "rt_accepted rt = 1" "rt_pending rt = Some 1" "qr_generated res = [3, 0, 1]"
  have "rt_pending counting_runtime = None" "context_tokens counting_runtime = 0" by code_simp+
  with turn_accounts_for_every_token [OF counting_ok run] rt show ?thesis
    by (fastforce simp: pending_list_def)
qed

text \<open>
  C10. A turn its sink halts leaves a session that can go on. The refused token is pending, the
  tokens before it were all taken by the sink, and the model has evaluated exactly the prompt
  and those tokens: rows a verification pass had computed beyond them are undone.
\<close>

theorem halted_turn_is_resumable:
  assumes "model_ok (ev_model E) (rt_state rt)" and "snapshots_ok (rt_snapshots rt)"
    and "generate_tokens_with_callback E opts cb prompt (rt, c) = ((rt', c'), Inl CallbackFailure)"
  shows "\<exists>t taken c1. rt_pending rt' = Some t \<and> feed cb taken c = Some c1 \<and> cb t c1 = (c', False) \<and>
    at_history E (rt_state rt) (pending_list (rt_pending rt) @ prompt @ taken) (rt_state rt') \<and>
    context_tokens rt' = context_tokens rt + length prompt + length taken + 1"
proof -
  obtain thinking where "turn_accounted E (rt_state rt) cb (pending_list (rt_pending rt) @ prompt) c
       (go_max_new_tokens opts + length (closure_of thinking)) ((rt', c'), Inl CallbackFailure)"
    by (rule turn_accounts [OF assms]) simp_all
  then obtain t new c1 where
    *: "rt_pending rt' = Some t" "feed cb new c = Some c1" "cb t c1 = (c', False)"
      "at_history E (rt_state rt) (pending_list (rt_pending rt) @ prompt @ new) (rt_state rt')"
    by (auto simp: turn_accounted_def)
  from at_history_position [OF *(4)] *(1)
  have "context_tokens rt' = context_tokens rt + length prompt + length new + 1"
    by (simp add: context_tokens_def length_pending_list)
  with * show ?thesis by blast
qed

lemma halted_turn_is_resumable_witness:
  "\<exists>(rt' :: int runtime) taken. rt_pending rt' = Some (0 :: u32) \<and> feed (recording_sink 0) taken [] = Some [3] \<and>
    at_history counting_env (rt_state counting_runtime) ([0, 1, 2, 3, 0, 1, 2] @ taken) (rt_state rt') \<and>
    ms_position (rt_state rt') = 8"
proof (rule counting_halt)
  fix rt
  assume run: "generate_tokens_with_callback counting_env counting_options (recording_sink 0) [0, 1, 2, 3, 0, 1, 2]
      (counting_runtime, []) = ((rt, [3, 0]), Inl CallbackFailure)"
    and rt: "rt_pending rt = Some 0" "ms_position (rt_state rt) = 8"
  have "rt_pending counting_runtime = None" by code_simp
  with halted_turn_is_resumable [OF counting_ok run] rt obtain taken c1 where
    *: "feed (recording_sink 0) taken [] = Some c1" "recording_sink 0 0 c1 = ([3, 0], False)"
      "at_history counting_env (rt_state counting_runtime) ([0, 1, 2, 3, 0, 1, 2] @ taken) (rt_state rt)"
    by (auto simp: pending_list_def)
  from *(2) have "c1 = [3]" by (simp add: recording_sink_def)
  with * rt show ?thesis by blast
qed

text \<open>
  A turn generates at most \<open>max_new_tokens\<close> tokens, and one forced closure more when it has
  a thinking budget.
\<close>

theorem turn_length_bounded:
  assumes "model_ok (ev_model E) (rt_state rt)" and "snapshots_ok (rt_snapshots rt)"
    and "generate_tokens_with_callback E opts cb prompt (rt, c) = ((rt', c'), Inr res)"
  shows "length (qr_generated res) \<le> go_max_new_tokens opts +
    (case turn_thinking E opts of Inl _ \<Rightarrow> 0 | Inr thinking \<Rightarrow> length (closure_of thinking))"
  by (rule turn_accounts [OF assms proper_simps(1)]) (auto simp: turn_accounted_def)

lemma turn_length_bounded_witness: "length [3, 0, 1 :: u32] \<le> go_max_new_tokens counting_options"
proof (rule counting_turn)
  fix rt res
  assume run: "generate_tokens_with_callback counting_env counting_options (recording_sink 7) [0, 1, 2, 3, 0, 1, 2]
      (counting_runtime, []) = ((rt, [3, 0, 1]), Inr res)"
    and rt: "qr_generated res = [3, 0, 1]"
  have "turn_thinking counting_env counting_options = Inr None" by code_simp
  with turn_length_bounded [OF counting_ok run] rt show ?thesis by (simp add: closure_of_def)
qed

end
