(* ===== verification/Snapshots_Kept.thy ===== *)
theory Snapshots_Kept
  imports Turns
begin

text \<open>
  A turn leaves the snapshot arenas well formed whatever happens in it, a failing pass included.
  That is what lets the next turn verify drafts again after a failed one.
\<close>

definition snaps :: "('f, 'c) session \<Rightarrow> 'f state_snapshots" where
  "snaps s = rt_snapshots (fst s)"

lemma quiet_core_snaps: "quiet core m \<Longrightarrow> quiet snaps m"
  unfolding quiet_def snaps_def core_def by (simp add: case_prod_unfold)

lemmas quiet_snaps_core [quiet_intros] =
  quiet_core_snaps [OF quiet_get] quiet_core_snaps [OF quiet_synchronize_mtp] quiet_core_snaps [OF quiet_catch_up_mtp]
  quiet_core_snaps [OF quiet_retain_mtp_gap] quiet_core_snaps [OF quiet_truncate_mtp_gap] quiet_core_snaps [OF quiet_draft_step]

lemma quiet_snaps_upd [quiet_intros]: "(\<And>rt. rt_snapshots (f rt) = rt_snapshots rt) \<Longrightarrow> quiet snaps (upd f)"
  by (intro quiet_upd) (simp add: snaps_def)

lemma quiet_snaps_emit [quiet_intros]: "quiet snaps (emit cb t)"
  by (auto simp: quiet_def snaps_def emit_def split: prod.split)

lemma quiet_snaps_on_state [quiet_intros]: "quiet snaps (on_state f)"
  by (auto simp: quiet_def snaps_def on_state_def split: prod.split)

lemma quiet_snaps_rollback [quiet_intros]: "quiet snaps (rollback_to n)"
  by (auto simp: quiet_def snaps_def rollback_to_def split: prod.split)

lemma quiet_snaps_forward [quiet_intros]: "quiet snaps (rt_forward E ts)"
  unfolding rt_forward_def by (intro quiet_intros)

lemma quiet_close_loop: "(\<And>t. quiet v (step t)) \<Longrightarrow> quiet v (close_loop step ts l)"
  by (induction ts arbitrary: l) (auto intro: quiet_intros)

lemma quiet_snaps_announce [quiet_intros]: "quiet snaps (announce cb t)"
  unfolding announce_def by (intro quiet_intros) (simp add: push_token_def)

lemma quiet_snaps_authoritative [quiet_intros]: "quiet snaps (evaluate_authoritative E track t)"
  unfolding evaluate_authoritative_def by (intro quiet_intros) simp

lemma quiet_snaps_close_target [quiet_intros]: "quiet snaps (force_close_thinking_target_only E cb p closure)"
  unfolding force_close_thinking_target_only_def force_close_def by (intro quiet_intros quiet_close_loop)

lemma quiet_snaps_close_policy [quiet_intros]: "quiet snaps (force_close_thinking_policy E cb track p closure)"
  unfolding force_close_thinking_policy_def force_close_def by (intro quiet_intros quiet_close_loop)

lemma quiet_snaps_sample [quiet_intros]: "quiet snaps (sample_and_emit E opts cb sampler logits g)"
  unfolding sample_and_emit_def by (intro quiet_intros)

lemma quiet_snaps_first [quiet_intros]: "quiet snaps (first_token E opts cb sampler track logits g th)"
  unfolding first_token_def by (intro quiet_intros)

lemma quiet_snaps_finish [quiet_intros]: "quiet snaps (finish_turn E prompt evaluated r)"
  unfolding finish_turn_def by (intro quiet_intros) simp

lemma quiet_snaps_passes [quiet_intros]: "quiet snaps (prefill_passes E track prior passes out)"
  by (induction passes arbitrary: out) (auto intro!: quiet_intros)

lemma quiet_snaps_prefill [quiet_intros]: "quiet snaps (prefill_in_passes E ts track)"
  unfolding prefill_in_passes_def by (intro quiet_intros)

lemma quiet_snaps_halt [quiet_intros]: "quiet snaps (halt_pass E hidden i a)"
  unfolding halt_pass_def Let_def by (intro quiet_intros) simp

lemma quiet_snaps_commit [quiet_intros]: "quiet snaps (commit_rows E opts track ts hs n prior)"
  unfolding commit_rows_def by (intro quiet_intros) simp

lemma quiet_snaps_outputs [quiet_intros]:
  fixes cb :: "'c sink" and E :: "('f, 'r) env"
  shows "quiet snaps (emit_outputs E opts cb sampler track hidden accepted index outputs g th pending)"
proof (induction outputs arbitrary: index g th pending)
  case (Cons shown outputs)
  obtain token accepted_draft where shown: "shown = (token, accepted_draft)" by (rule prod.exhaust)
  show ?case
    unfolding quiet_def
  proof
    fix s :: "('f, 'c) session"
    obtain rt c where s: "s = (rt, c)" by (rule prod.exhaust)
    obtain c1 ok where cb: "cb token c = (c1, ok)" by (rule prod.exhaust)
    obtain th1 b where obs: "observe_opt th token (\<not> is_stop_token E opts token) = (th1, b)" by (rule prod.exhaust)
    let ?p = "if accepted_draft then None else Some token"
    have pushed: "snaps (push_token token rt, c1) = snaps (rt, c)" by (simp add: snaps_def push_token_def)
    have q1: "quiet snaps (bindS (halt_pass E hidden index accepted) (\<lambda>_.
        bindS (upd (\<lambda>rt. rt\<lparr>rt_pending := Some token\<rparr>)) (\<lambda>_. failS CallbackFailure)) :: ('f, 'c, emitted) run_action)"
      by (intro quiet_intros) simp
    have q2: "quiet snaps (bindS (force_close_thinking_policy E cb track ?p (closure_of th1)) (\<lambda>closed.
        bindS (sample_and_emit E opts cb sampler closed ((g @ [token]) @ closure_of th1)) (\<lambda>(g2, pending2).
        returnS \<lparr>em_generated = g2, em_thinking = th1, em_pending = pending2, em_closed = True, em_done = False\<rparr>)))"
      by (intro quiet_intros)
    consider (refused) "\<not> ok" | (close) "ok" "b = ForceClosure" | (ends) "ok" "b \<noteq> ForceClosure"
        "length (g @ [token]) = go_max_new_tokens opts \<or> is_stop_token E opts token"
      | (more) "ok" "b \<noteq> ForceClosure" "\<not> (length (g @ [token]) = go_max_new_tokens opts \<or> is_stop_token E opts token)"
      by blast
    then show "snaps (fst (emit_outputs E opts cb sampler track hidden accepted index (shown # outputs) g th pending s)) = snaps s"
    proof cases
      case refused
      with q1 [unfolded quiet_def, rule_format, of "(push_token token rt, c1)"] pushed show ?thesis
        by (simp add: shown s cb)
    next
      case close
      with q2 [unfolded quiet_def, rule_format, of "(push_token token rt, c1)"] pushed obs show ?thesis
        by (simp add: shown s cb Let_def)
    next
      case ends
      with pushed obs show ?thesis by (auto simp: shown s cb Let_def)
    next
      case more
      with Cons.IH [unfolded quiet_def, rule_format, of _ _ _ _ "(push_token token rt, c1)"] pushed obs show ?thesis
        by (simp add: shown s cb Let_def)
    qed
  qed
qed (simp add: quiet_basic)

section \<open>Verification passes\<close>

lemma quietE: "quiet v m \<Longrightarrow> v (fst (m s)) = v s"
  by (simp add: quiet_def)

lemma verify_rows_snaps:
  assumes ok: "model_ok (ev_model E) (rt_state rt)" and sn: "snapshots_ok (rt_snapshots rt)" and ts: "tokens \<noteq> []"
  shows "snapshots_ok (snaps (fst (verify_rows E tokens b (rt, c))))"
  using forward_snapshots_spec [OF ok sn ts, of "ev_fops E" "ev_threads E"] sn
  by (auto simp: verify_rows_def snaps_def on_state_def split: prod.splits)

lemma bindS_snaps:
  assumes "P (snaps (fst (m s)))" and "\<And>x. quiet snaps (f x)"
  shows "P (snaps (fst (bindS m f s)))"
  using assms quietE [OF assms(2)] by (auto simp: bindS_def split: prod.splits sum.splits)

lemma verify_step_snaps:
  assumes ok: "model_ok (ev_model E) (rt_state rt)" and sn: "snapshots_ok (rt_snapshots rt)"
  shows "snapshots_ok (snaps (fst (verify_step E opts track seed drafts arm (rt, c))))"
  unfolding verify_step_def Let_def bindS_get
proof (rule bindS_snaps)
  let ?v = "verify_rows E (seed # drafts) (drafts \<noteq> []) (rt, c)"
  have v: "snapshots_ok (snaps (fst ?v))" by (rule verify_rows_snaps [OF ok sn]) simp
  obtain s1 r where p: "?v = (s1, r)" by (rule prod.exhaust)
  have "quiet snaps (bindS (rollback_to 0) (\<lambda>_. failS e) :: ('a, 'c, 'a forward_output) run_action)" for e
    by (intro quiet_intros)
  from quietE [OF this, of _ s1] v p
  show "snapshots_ok (snaps (fst (verify_or_undo E (seed # drafts) (drafts \<noteq> []) (rt, c))))"
    by (cases r) (auto simp: verify_or_undo_def)
next
  fix out :: "'a forward_output"
  show "quiet snaps (bindS (ensureS (length (fo_logits out) = length (seed # drafts)) VerifierRows) (\<lambda>_.
      bindS (liftS (accepted_draft_prefix (ev_fops E) drafts (fo_logits out))) (\<lambda>accepted.
      bindS (liftS (lift_sampling (argmax (ev_fops E) (fo_logits out ! accepted)))) (\<lambda>i.
      bindS (upd (\<lambda>rt. rt\<lparr>rt_accepted := rt_accepted rt + accepted,
                 rt_drafted := rt_drafted rt + (if arm_is_ngram arm then length drafts else 0)\<rparr>)) (\<lambda>_.
      bindS (commit_rows E opts track (seed # drafts) (fo_hidden out) (1 + accepted) (rt_last_hidden rt)) (\<lambda>committed_hidden.
      returnS (accepted, word_of_nat i, committed_hidden)))))))"
    by (intro quiet_intros) simp
qed

lemma policy_step_snaps:
  fixes s' :: "('f, 'c) session"
  assumes at: "session_at E st0 h (rt, c)" and run: "policy_step E opts cb sampler track loc seed (rt, c) = (s', r)"
  shows "snapshots_ok (snaps s')"
proof -
  obtain s1 q where draft: "draft_step E opts loc seed (rt, c) = (s1, q)" by (rule prod.exhaust)
  from quietD [OF quiet_draft_step draft] obtain rt1 where s1: "s1 = (rt1, c)" and at1: "session_at E st0 h (rt1, c)"
    using at by (cases s1) (auto simp: core_def session_at_def)
  then have ok: "model_ok (ev_model E) (rt_state rt1)" and sn: "snapshots_ok (rt_snapshots rt1)"
    by (auto simp: session_at_def dest: at_ok)
  show ?thesis
  proof (cases q)
    case (Inl e)
    with run draft s1 sn show ?thesis by (auto simp: policy_step_def bindS_Inl snaps_def)
  next
    case (Inr d)
    let ?rest = "\<lambda>(accepted, authoritative, committed_hidden).
     bindS (get rt_ngram) (\<lambda>ix.
     let arms = observe_arms (ev_fops E) (df_arm d) (length (df_drafts d)) accepted
           (length (pl_generated loc) + (1 + accepted)) (df_ngram_arm d, df_mtp_arm d);
         span = next_span opts (df_arm d) (df_proposal d) (pl_span loc) accepted authoritative ix in
     bindS (emit_outputs E opts cb sampler track committed_hidden accepted 0
              (speculative_committed_outputs (df_drafts d) accepted authoritative)
              (pl_generated loc) (pl_thinking loc) (Some seed)) (\<lambda>em.
     returnS (\<lparr>pl_generated = em_generated em, pl_thinking = em_thinking em,
               pl_ngram_arm = fst arms, pl_mtp_arm = snd arms,
               pl_span = (if em_closed em then None else span)\<rparr>, em_pending em, \<not> em_done em)))"
    have quiet: "quiet snaps (?rest x)" for x
      unfolding Let_def by (intro quiet_intros)
    have "snapshots_ok (snaps (fst (bindS (verify_step E opts track seed (df_drafts d) (df_arm d)) ?rest (rt1, c))))"
      by (rule bindS_snaps) (rule verify_step_snaps [OF ok sn], rule quiet)
    with run draft Inr s1 show ?thesis by (simp add: policy_step_def bindS_Inr)
  qed
qed

lemma policy_loop_snaps:
  assumes "session_at E st0 h (rt, c)"
    and "f_eq (ev_fops E) (sc_temperature (sm_config sampler)) (f_zero (ev_fops E))"
  shows "snapshots_ok (snaps (fst (policy_loop E opts cb sampler track loc pending (rt, c))))"
  using assms
proof (induction E opts cb sampler track loc pending "(rt, c)" arbitrary: h rt c rule: policy_loop.induct)
  case (1 E opts cb sampler track loc pending rt c)
  have here: "snapshots_ok (snaps (rt, c))" using "1.prems"(1) by (simp add: session_at_def snaps_def)
  show ?case
  proof (cases pending)
    case None
    with here show ?thesis by (simp add: policy_loop.simps Let_def)
  next
    case (Some seed)
    show ?thesis
    proof (cases "go_max_new_tokens opts \<le> length (pl_generated loc) \<or> is_stop_token E opts seed")
      case True
      with here Some show ?thesis by (simp add: policy_loop.simps Let_def)
    next
      case False
      obtain s1 r1 where step: "policy_step E opts cb sampler track loc seed (rt, c) = (s1, r1)" by (rule prod.exhaust)
      note kept = policy_step_snaps [OF "1.prems"(1) step]
      note run = policy_loop.simps [of E opts cb sampler track loc "Some seed" "(rt, c)"]
      show ?thesis
      proof (cases r1)
        case (Inl e)
        with kept Some False step show ?thesis by (simp add: run Let_def)
      next
        case (Inr x)
        obtain loc1 p1 more where x: "x = (loc1, p1, more)" by (rule prod_cases3)
        obtain rt1 c1 where s1: "s1 = (rt1, c1)" by (rule prod.exhaust)
        show ?thesis
        proof (cases more)
          case True
          from policy_step_meets [OF "1.prems"(1,2) _ _ step] Inr x False s1 obtain h1 where
            at1: "session_at E st0 h1 (rt1, c1)" by auto
          from "1.hyps" [OF refl Some False step [symmetric, unfolded s1 Inr x] refl refl refl True at1 "1.prems"(2)]
          show ?thesis using Some False step Inr x s1 True by (simp add: run Let_def)
        next
          case ended: False
          with kept Some False step Inr x show ?thesis by (simp add: run Let_def)
        qed
      qed
    qed
  qed
qed

section \<open>The whole turn\<close>

lemma bindS_keep:
  assumes "snapshots_ok (snaps (fst (m s)))" and "\<And>s1 x. m s = (s1, Inr x) \<Longrightarrow> snapshots_ok (snaps (fst (f x s1)))"
  shows "snapshots_ok (snaps (fst (bindS m f s)))"
  using assms by (cases "m s"; cases "snd (m s)") (auto simp: bindS_def)

lemma quiet_keep: "quiet snaps m \<Longrightarrow> snapshots_ok (snaps s) \<Longrightarrow> snapshots_ok (snaps (fst (m s)))"
  by (simp add: quietE)

lemma quiet_next: "quiet snaps m \<Longrightarrow> snapshots_ok (snaps s) \<Longrightarrow> m s = (s1, r) \<Longrightarrow> snapshots_ok (snaps s1)"
  by (drule quietE [of snaps m s]) simp

lemma tokens_and_finish_snaps:
  assumes at: "session_at E st0 h s"
    and zero: "f_eq (ev_fops E) (sc_temperature (sm_config sampler)) (f_zero (ev_fops E))"
    and sc: "score (ev_fops E) (last logits) = model_next E st0 h"
  shows "snapshots_ok (snaps (fst (bindS (first_token E opts cb sampler track logits g th) (\<lambda>(g, pending, th1).
     bindS (policy_loop E opts cb sampler track
         \<lparr>pl_generated = g, pl_thinking = th1, pl_ngram_arm = na, pl_mtp_arm = ma, pl_span = None\<rparr> pending) (\<lambda>r.
     finish_turn E prompt evaluated r)) s)))"
proof (rule bindS_keep)
  have here: "snapshots_ok (snaps s)" using at by (simp add: session_at_def snaps_def)
  show "snapshots_ok (snaps (fst (first_token E opts cb sampler track logits g th s)))"
    by (rule quiet_keep [OF quiet_snaps_first here])
  fix s1 x
  assume first: "first_token E opts cb sampler track logits g th s = (s1, Inr x)"
  obtain g1 p1 th1 where x: "x = (g1, p1, th1)" by (rule prod_cases3)
  from first_token_meets [of E st0 h "fst s" "snd s" sampler logits opts cb track g th s1 "Inr x"] at zero sc first x
  obtain h1 where at1: "session_at E st0 h1 (fst s1, snd s1)" by auto
  show "snapshots_ok (snaps (fst ((case x of (g, pending, th1) \<Rightarrow>
     bindS (policy_loop E opts cb sampler track
         \<lparr>pl_generated = g, pl_thinking = th1, pl_ngram_arm = na, pl_mtp_arm = ma, pl_span = None\<rparr> pending) (\<lambda>r.
     finish_turn E prompt evaluated r)) s1)))"
    unfolding x case_prod_conv
    by (rule bindS_snaps) (use policy_loop_snaps [OF at1 zero] in \<open>simp_all add: quiet_snaps_finish\<close>)
qed

lemma speculative_rest_snaps:
  assumes at: "session_at E st0 h (rt, c)"
    and zero: "f_eq (ev_fops E) (sc_temperature (sm_config sampler)) (f_zero (ev_fops E))"
    and sc: "score (ev_fops E) (last logits) = model_next E st0 h"
  shows "snapshots_ok (snaps (fst (bindS (if forced then force_close_thinking_policy E cb track None (closure_of th)
      else returnS logits) (\<lambda>logits.
     bindS (first_token E opts cb sampler track logits (if forced then closure_of th else []) th) (\<lambda>(g, pending, th1).
     bindS (policy_loop E opts cb sampler track
         \<lparr>pl_generated = g, pl_thinking = th1, pl_ngram_arm = na, pl_mtp_arm = ma, pl_span = None\<rparr> pending) (\<lambda>r.
     finish_turn E prompt evaluated r))) (rt, c))))"
proof (cases forced)
  case False
  then show ?thesis using tokens_and_finish_snaps [OF at zero sc] by simp
next
  case True
  have here: "snapshots_ok (snaps (rt, c))" using at by (simp add: session_at_def snaps_def)
  show ?thesis
    unfolding if_P [OF True]
  proof (rule bindS_keep, goal_cases)
    case 1
    show ?case by (rule quiet_keep [OF quiet_snaps_close_policy here])
  next
    case (2 s1 l)
    from force_close_policy_meets [OF at 2, of "h" opts "closure_of th" th] obtain h2 where
      "session_at E st0 h2 s1" "score (ev_fops E) (last l) = model_next E st0 h2" by auto
    then show ?case by (rule tokens_and_finish_snaps [OF _ zero])
  qed
qed

lemma speculative_turn_snaps:
  assumes ok: "model_ok (ev_model E) (rt_state rt)" and sn: "snapshots_ok (rt_snapshots rt)"
  shows "snapshots_ok (snaps (fst (generate_speculative_policy E opts mode cb prompt (rt, c))))"
  unfolding generate_speculative_policy_def bindS_get
proof (rule bindS_keep, goal_cases)
  case 1
  show ?case using sn by (simp add: snaps_def)
next
  case (2 s1 u)
  let ?ev = "continuation_input prompt (rt_pending rt)"
  have checks: "speculative_checks E opts mode prompt rt = Inr u" and s1: "s1 = (rt, c)" using 2 by simp_all
  obtain nc mc where arms: "arm_configs (ev_fops E) (go_policy opts) (go_ngram_draft_tokens opts) (go_mtp_draft_tokens opts) mode
      (ev_mtp E \<noteq> None \<and> rt_mtp_state rt \<noteq> None \<and> mtp_arm_ready rt) = (nc, mc)" by (rule prod.exhaust)
  from checks have zero: "f_eq (ev_fops E) (sc_temperature (go_sampling opts)) (f_zero (ev_fops E))"
    by (auto simp: speculative_checks_def bindE_Inr_iff)
  let ?rt = "index_prompt (context_tokens rt) prompt ?ev (rt\<lparr>rt_pending := None,
        rt_draft_head := mtp_draft_vocab E opts (ac_enabled mc), rt_gap_valid := ac_enabled mc, rt_drafted := 0, rt_accepted := 0\<rparr>)"
  have here: "snapshots_ok (snaps (?rt, c))" using sn by (simp add: snaps_def)
  show ?case
    unfolding s1 bindS_get case_prod_conv Let_def arms bindS_upd
  proof (rule bindS_keep, goal_cases)
    case 1
    show ?case by (rule quiet_keep [OF quiet_snaps_prefill here])
  next
    case (2 s2 out)
    have at0: "at_history E (rt_state rt) [] (rt_state ?rt)" using ok by (simp add: at_start)
    note filled = prefill_in_passes_at [OF at0 2]
    obtain rt2 where s2: "s2 = (rt2, c)" using filled(3) by (cases s2) auto
    have sn2: "snapshots_ok (snaps s2)" using quiet_next [OF quiet_snaps_prefill here 2] .
    show ?case
    proof (rule bindS_keep, goal_cases)
      case 1
      show ?case using sn2 by simp
    next
      case (2 s3 row)
      let ?s4 = "(rt2\<lparr>rt_last_hidden := Some row\<rparr>, c)"
      have s3: "s3 = (rt2, c)" using 2 s2 by simp
      have sn4: "snapshots_ok (snaps ?s4)" using sn2 s2 by (simp add: snaps_def)
      have at4: "session_at E (rt_state rt) ?ev ?s4"
        using filled(1) s2 sn4 by (simp add: session_at_def snaps_def)
      show ?case
        unfolding s3 bindS_upd
      proof (rule bindS_keep, goal_cases)
        case 1
        show ?case using sn4 by simp
      next
        case (2 s5 sampler)
        then have s5: "s5 = ?s4" and new: "sampler_new (ev_fops E) (ev_seed_rng E) (go_sampling opts) = Inr sampler" by simp_all
        show ?case
          unfolding s5
        proof (rule bindS_keep, goal_cases)
          case 1
          show ?case using sn4 by simp
        next
          case (2 s6 thinking)
          then have s6: "s6 = ?s4" by simp
          obtain th forced where force: "should_force_opt thinking = (th, forced)" by (rule prod.exhaust)
          have "score (ev_fops E) (last (fo_logits out)) = model_next E (rt_state rt) ?ev" using filled(4) by simp
          moreover have "f_eq (ev_fops E) (sc_temperature (sm_config sampler)) (f_zero (ev_fops E))"
            using zero sampler_new_config [OF new] by simp
          ultimately show ?case
            unfolding s6 force case_prod_conv using at4 by (intro speculative_rest_snaps)
        qed
      qed
    qed
  qed
qed

lemma plain_loop_snaps: "snaps (fst (plain_loop E opts cb logits g pending th sampler s)) = snaps s"
proof (induction E opts cb logits g pending th sampler s rule: plain_loop.induct)
  case (1 E opts cb logits g pending th sampler s)
  note run = plain_loop.simps [of E opts cb logits g pending th sampler s]
  obtain sampler1 q where sample: "sample_row E sampler logits = (sampler1, q)" by (rule prod.exhaust)
  consider (full) "go_max_new_tokens opts \<le> length g" | (failed) e where "q = Inl e"
    | (token) t where "\<not> go_max_new_tokens opts \<le> length g" "q = Inr t" by (cases q) auto
  then show ?case
  proof cases
    case (token t)
    let ?stop = "is_stop_token E opts t" and ?g1 = "g @ [t]"
    obtain s1 q1 where emit: "emit cb t s = (s1, q1)" by (rule prod.exhaust)
    have kept1: "snaps s1 = snaps s" using quietD [OF quiet_snaps_emit emit] .
    obtain th1 b where obs: "observe_opt th t (\<not> ?stop) = (th1, b)" by (rule prod.exhaust)
    show ?thesis
    proof (cases q1)
      case (Inl e)
      with token sample emit kept1 show ?thesis by (simp add: run)
    next
      case (Inr u)
      note facts = token sample emit Inr obs
      obtain s2 q2 where close: "force_close_thinking_target_only E cb (Some t) (closure_of th1) s1 = (s2, q2)" by (rule prod.exhaust)
      obtain s3 q3 where fwd: "rt_forward E [t] s1 = (s3, q3)" by (rule prod.exhaust)
      have kept2: "snaps s2 = snaps s" using quietD [OF quiet_snaps_close_target close] kept1 by simp
      have kept3: "snaps s3 = snaps s" using quietD [OF quiet_snaps_forward fwd] kept1 by simp
      consider (stop) "?stop" | (force) "\<not> ?stop" "b = ForceClosure"
        | (end_turn) "\<not> ?stop" "b \<noteq> ForceClosure" "go_max_new_tokens opts \<le> length ?g1"
        | (more) "\<not> ?stop" "b \<noteq> ForceClosure" "\<not> go_max_new_tokens opts \<le> length ?g1" by blast
      then show ?thesis
      proof cases
        case force
        show ?thesis
        proof (cases q2)
          case (Inl e)
          with facts force close kept2 show ?thesis by (simp add: run)
        next
          case q2: (Inr l)
          show ?thesis
          proof (cases "go_max_new_tokens opts \<le> length (?g1 @ closure_of th1)")
            case False
            from "1.IH"(1) [OF token(1) sample [symmetric] token(2) emit [symmetric] Inr refl refl obs [symmetric] force
                close [symmetric] q2 refl False]
            show ?thesis using facts force close q2 False kept2 by (simp add: run)
          qed (use facts force close q2 kept2 in \<open>simp add: run\<close>)
        qed
      next
        case more
        show ?thesis
        proof (cases q3)
          case (Inl e)
          with facts more fwd kept3 show ?thesis by (simp add: run)
        next
          case q3: (Inr l)
          from "1.IH"(2) [OF token(1) sample [symmetric] token(2) emit [symmetric] Inr refl refl obs [symmetric] more
              fwd [symmetric] q3]
          show ?thesis using facts more fwd q3 kept3 by (simp add: run)
        qed
      qed (use facts kept1 in \<open>simp_all add: run\<close>)
    qed
  qed (use sample in \<open>simp_all add: run\<close>)
qed

lemma quiet_snaps_plain [quiet_intros]: "quiet snaps (generate_plain E opts cb prompt)"
proof -
  have "quiet snaps (plain_loop E opts cb logits g pending th sampler)" for logits g pending th sampler
    by (simp add: quiet_def plain_loop_snaps)
  then show ?thesis
    unfolding generate_plain_def Let_def by (intro quiet_intros) simp_all
qed

lemma turn_snaps:
  assumes "model_ok (ev_model E) (rt_state rt)" and "snapshots_ok (rt_snapshots rt)"
  shows "snapshots_ok (snaps (fst (generate_tokens_with_callback E opts cb prompt (rt, c))))"
proof -
  have here: "snapshots_ok (snaps (rt, c))" using assms(2) by (simp add: snaps_def)
  show ?thesis
    using speculative_turn_snaps [OF assms, of opts _ cb prompt c]
      quiet_keep [OF quiet_snaps_plain here, of E opts cb prompt] here
    by (simp add: generate_tokens_with_callback_def Let_def)
qed

end
