(* ===== verification/Session_Reuse.thy ===== *)
theory Session_Reuse
  imports Snapshots_Kept
begin

text \<open>
  Starting a turn from state that was not computed for it. A session \<open>represents\<close> a token list
  when its model state is the one those tokens lead to from a fresh session (the last of them
  may still be pending). Everything a later turn returns is a function of that list and the
  prompt: it does not matter how many passes, drafts, rollbacks or restored images led there.
\<close>

section \<open>What a session represents\<close>

definition fresh_state :: "('f, 'r) env \<Rightarrow> 'f model_state" where
  "fresh_state E = model_new_state (ev_fops E) (ev_model E)"

definition represents :: "('f, 'r) env \<Rightarrow> u32 list \<Rightarrow> 'f runtime \<Rightarrow> bool" where
  "represents E ts rt \<longleftrightarrow> (\<exists>h. at_history E (fresh_state E) h (rt_state rt) \<and> h @ pending_list (rt_pending rt) = ts)"

lemma at_history_compose:
  assumes "at_history E st0 h st" "at_history E st k st'"
  shows "at_history E st0 (h @ k) st'"
proof -
  from assms(2) obtain hid where "runs (ev_fops E) (ev_model E) k st st' hid"
    and "k \<noteq> [] \<Longrightarrow> ms_position st' \<le> md_max_position (ev_model E)"
    by (auto simp: at_history_def)
  with assms(1) show ?thesis by (rule at_run)
qed

lemma represents_ok: "represents E ts rt \<Longrightarrow> model_ok (ev_model E) (rt_state rt)"
  by (auto simp: represents_def dest: at_ok)

lemma represents_context: "represents E ts rt \<Longrightarrow> context_tokens rt = length ts"
  by (auto simp: represents_def context_tokens_def length_pending_list fresh_state_def model_new_state_def
      dest: at_history_position)

lemma represents_nothing:
  assumes "\<forall>layer \<in> set (md_layers (ev_model E)). decoder_layer_wf layer"
    and "rt_state rt = fresh_state E" "rt_pending rt = None"
  shows "represents E [] rt"
  using assms model_ok_new [of "ev_model E" "ev_fops E"]
  by (simp add: represents_def fresh_state_def at_start pending_list_def)

section \<open>The plain path reads only the model state\<close>

text \<open>Two sessions that differ only in what serves speculation.\<close>

definition alike :: "('f, 'c) session \<Rightarrow> ('f, 'c) session \<Rightarrow> bool" where
  "alike s1 s2 \<longleftrightarrow> rt_state (fst s1) = rt_state (fst s2) \<and> rt_pending (fst s1) = rt_pending (fst s2) \<and> snd s1 = snd s2"

definition oblivious :: "('f, 'c, 'a) run_action \<Rightarrow> bool" where
  "oblivious m \<longleftrightarrow> (\<forall>rt1 rt2 c. rt_state rt1 = rt_state rt2 \<and> rt_pending rt1 = rt_pending rt2 \<longrightarrow>
     alike (fst (m (rt1, c))) (fst (m (rt2, c))) \<and> snd (m (rt1, c)) = snd (m (rt2, c)))"

named_theorems oblivious_intros \<open>actions that read only the model state, the pending token and the sink\<close>

lemma obliviousI:
  "(\<And>rt1 rt2 c. rt_state rt1 = rt_state rt2 \<Longrightarrow> rt_pending rt1 = rt_pending rt2 \<Longrightarrow>
     alike (fst (m (rt1, c))) (fst (m (rt2, c))) \<and> snd (m (rt1, c)) = snd (m (rt2, c))) \<Longrightarrow> oblivious m"
  unfolding oblivious_def by blast

lemma obliviousD:
  fixes s1 s2 s1' :: "('f, 'c) session" and m :: "('f, 'c, 'a) run_action"
  assumes "oblivious m" "alike s1 s2" "m s1 = (s1', r)"
  obtains s2' where "m s2 = (s2', r)" "alike s1' s2'"
proof -
  obtain rt1 rt2 c where "s1 = (rt1, c)" "s2 = (rt2, c)" "rt_state rt1 = rt_state rt2" "rt_pending rt1 = rt_pending rt2"
    using assms(2) by (cases s1; cases s2) (simp add: alike_def)
  with assms(1) have "alike (fst (m s1)) (fst (m s2)) \<and> snd (m s1) = snd (m s2)"
    unfolding oblivious_def by blast
  with assms(3) that show thesis by (cases "m s2") simp
qed

lemma oblivious_bindS [oblivious_intros]:
  fixes m :: "('f, 'c, 'a) run_action" and f :: "'a \<Rightarrow> ('f, 'c, 'b) run_action"
  assumes "oblivious m" "\<And>x. oblivious (f x)"
  shows "oblivious (bindS m f)"
proof (rule obliviousI)
  fix rt1 rt2 :: "'f runtime" and c :: 'c
  assume eq: "rt_state rt1 = rt_state rt2" "rt_pending rt1 = rt_pending rt2"
  obtain s1 q where m1: "m (rt1, c) = (s1, q)" by (rule prod.exhaust)
  have "alike (rt1, c) (rt2, c)" using eq by (simp add: alike_def)
  from obliviousD [OF assms(1) this m1] obtain s2 where m2: "m (rt2, c) = (s2, q)" and alike: "alike s1 s2" .
  show "alike (fst (bindS m f (rt1, c))) (fst (bindS m f (rt2, c))) \<and> snd (bindS m f (rt1, c)) = snd (bindS m f (rt2, c))"
  proof (cases q)
    case (Inl e)
    with m1 m2 alike show ?thesis by (simp add: bindS_Inl)
  next
    case (Inr x)
    obtain s3 r where f1: "f x s1 = (s3, r)" by (rule prod.exhaust)
    from obliviousD [OF assms(2) alike f1] obtain s4 where "f x s2 = (s4, r)" "alike s3 s4" .
    with m1 m2 Inr f1 show ?thesis by (simp add: bindS_Inr)
  qed
qed

lemma oblivious_basic [oblivious_intros]:
  "oblivious (returnS x)" "oblivious (failS e)" "oblivious (liftS r)" "oblivious (ensureS b e)"
  by (rule obliviousI, simp add: alike_def)+

lemma oblivious_if [oblivious_intros]: "oblivious m \<Longrightarrow> oblivious n \<Longrightarrow> oblivious (if b then m else n)"
  by simp

lemma oblivious_option [oblivious_intros]:
  "oblivious m \<Longrightarrow> (\<And>x. oblivious (f x)) \<Longrightarrow> oblivious (case z of None \<Rightarrow> m | Some x \<Rightarrow> f x)"
  by (cases z) simp_all

lemma oblivious_upd [oblivious_intros]:
  fixes f :: "'f runtime \<Rightarrow> 'f runtime"
  assumes "\<And>rt1 rt2. rt_state rt1 = rt_state rt2 \<Longrightarrow> rt_pending rt1 = rt_pending rt2 \<Longrightarrow>
     rt_state (f rt1) = rt_state (f rt2) \<and> rt_pending (f rt1) = rt_pending (f rt2)"
  shows "oblivious (upd f)"
proof (rule obliviousI)
  fix rt1 rt2 :: "'f runtime" and c
  assume "rt_state rt1 = rt_state rt2" "rt_pending rt1 = rt_pending rt2"
  from assms [OF this] show "alike (fst (upd f (rt1, c))) (fst (upd f (rt2, c))) \<and> snd (upd f (rt1, c)) = snd (upd f (rt2, c))"
    by (simp only: alike_def upd_apply fst_conv snd_conv refl simp_thms)
qed

lemma oblivious_emit [oblivious_intros]: "oblivious (emit cb token)"
  by (rule obliviousI) (simp add: emit_def alike_def split: prod.split)

lemma oblivious_on_state [oblivious_intros]: "oblivious (on_state f)"
  by (rule obliviousI) (simp add: on_state_def alike_def split: prod.split)

lemma oblivious_rt_forward [oblivious_intros]: "oblivious (rt_forward E ts)"
  unfolding rt_forward_def by (intro oblivious_intros)

lemma oblivious_close_loop: "(\<And>t. oblivious (step t)) \<Longrightarrow> oblivious (close_loop step ts l)"
  by (induction ts arbitrary: l) (auto intro: oblivious_intros)

lemma oblivious_force_close [oblivious_intros]: "oblivious (force_close_thinking_target_only E cb p closure)"
  unfolding force_close_thinking_target_only_def force_close_def
  by (intro oblivious_intros oblivious_close_loop)

lemma oblivious_finish [oblivious_intros]: "oblivious (finish_turn E prompt evaluated r)"
  unfolding finish_turn_def by (intro oblivious_intros) simp

lemma plain_loop_oblivious:
  fixes s1 s2 :: "('f, 'c) session"
  assumes "alike s1 s2" "plain_loop E opts cb logits g pending th sampler s1 = (s1', r)"
  shows "\<exists>s2'. plain_loop E opts cb logits g pending th sampler s2 = (s2', r) \<and> alike s1' s2'"
  using assms
proof (induction E opts cb logits g pending th sampler s1 arbitrary: s2 rule: plain_loop.induct)
  case (1 E opts cb logits g pending th sampler s1)
  note unfold1 = plain_loop.simps [of E opts cb logits g pending th sampler]
  show ?case
  proof (cases "go_max_new_tokens opts \<le> length g")
    case True
    with "1.prems" show ?thesis by (simp add: unfold1)
  next
    case more: False
    obtain sampler1 q where sample: "sample_row E sampler logits = (sampler1, q)" by (rule prod.exhaust)
    show ?thesis
    proof (cases q)
      case (Inl e)
      with more sample "1.prems" show ?thesis by (simp add: unfold1)
    next
      case (Inr token)
      obtain s3 q1 where emit1: "emit cb token s1 = (s3, q1)" by (rule prod.exhaust)
      from obliviousD [OF oblivious_emit "1.prems"(1) this] obtain s4 where
        emit2: "emit cb token s2 = (s4, q1)" and alike: "alike s3 s4" .
      obtain rt3 c3 rt4 where s34: "s3 = (rt3, c3)" "s4 = (rt4, c3)" and eq34: "rt_state rt3 = rt_state rt4"
        "rt_pending rt3 = rt_pending rt4"
        using alike by (cases s3; cases s4) (simp add: alike_def)
      show ?thesis
      proof (cases q1)
        case (Inl e)
        with more sample Inr emit1 emit2 alike "1.prems" show ?thesis by (auto simp: unfold1)
      next
        case (Inr u)
        let ?stop = "is_stop_token E opts token" and ?g1 = "g @ [token]"
        obtain th1 boundary where obs: "observe_opt th token (\<not> ?stop) = (th1, boundary)" by (rule prod.exhaust)
        note facts = more sample \<open>q = Inr token\<close> emit1 emit2 Inr obs
        consider (stop) "?stop" | (full) "\<not> ?stop" "boundary \<noteq> ForceClosure" "go_max_new_tokens opts \<le> length ?g1"
          | (close) "\<not> ?stop" "boundary = ForceClosure"
          | (go) "\<not> ?stop" "boundary \<noteq> ForceClosure" "\<not> go_max_new_tokens opts \<le> length ?g1" by blast
        then show ?thesis
        proof cases
          case stop
          with facts "1.prems"(2) have "s1' = s3" "plain_loop E opts cb logits g pending th sampler s2 = (s4, r)"
            by (simp_all add: unfold1 Let_def)
          with alike show ?thesis by blast
        next
          case full
          with facts "1.prems"(2) have "s1' = s3" "plain_loop E opts cb logits g pending th sampler s2 = (s4, r)"
            by (simp_all add: unfold1 Let_def)
          with alike show ?thesis by blast
        next
          case close
          obtain s5 q5 where c1: "force_close_thinking_target_only E cb (Some token) (closure_of th1) s3 = (s5, q5)"
            by (rule prod.exhaust)
          from obliviousD [OF oblivious_force_close alike this] obtain s6 where
            c2: "force_close_thinking_target_only E cb (Some token) (closure_of th1) s4 = (s6, q5)" and alike6: "alike s5 s6" .
          show ?thesis
          proof (cases q5)
            case (Inl e)
            with facts close c1 c2 "1.prems"(2) have "s1' = s5" "plain_loop E opts cb logits g pending th sampler s2 = (s6, r)"
              by (simp_all add: unfold1 Let_def)
            with alike6 show ?thesis by blast
          next
            case (Inr logits1)
            let ?g2 = "?g1 @ closure_of th1"
            show ?thesis
            proof (cases "go_max_new_tokens opts \<le> length ?g2")
              case True
              with facts close c1 c2 Inr "1.prems"(2)
              have "s1' = s5" "plain_loop E opts cb logits g pending th sampler s2 = (s6, r)"
                by (simp_all add: unfold1 Let_def)
              with alike6 show ?thesis by blast
            next
              case False
              from facts close c1 Inr False "1.prems" have
                "plain_loop E opts cb logits1 ?g2 None th1 sampler1 s5 = (s1', r)" by (simp add: unfold1)
              from "1.IH"(1) [OF more sample [symmetric] \<open>q = Inr token\<close> emit1 [symmetric] \<open>q1 = Inr u\<close> refl refl obs [symmetric]
                  close(1,2) c1 [symmetric] Inr refl False alike6 this]
              show ?thesis using facts close c2 Inr False by (simp add: unfold1)
            qed
          qed
        next
          case go
          obtain s5 q5 where c1: "rt_forward E [token] s3 = (s5, q5)" by (rule prod.exhaust)
          from obliviousD [OF oblivious_rt_forward alike this] obtain s6 where
            c2: "rt_forward E [token] s4 = (s6, q5)" and alike6: "alike s5 s6" .
          show ?thesis
          proof (cases q5)
            case (Inl e)
            with facts go c1 c2 "1.prems"(2) have "s1' = s5" "plain_loop E opts cb logits g pending th sampler s2 = (s6, r)"
              by (simp_all add: unfold1 Let_def)
            with alike6 show ?thesis by blast
          next
            case (Inr logits1)
            from facts go c1 Inr "1.prems" have
              "plain_loop E opts cb logits1 ?g1 None th1 sampler1 s5 = (s1', r)" by (simp add: unfold1)
            from "1.IH"(2) [OF more sample [symmetric] \<open>q = Inr token\<close> emit1 [symmetric] \<open>q1 = Inr u\<close> refl refl obs [symmetric]
                go c1 [symmetric] Inr alike6 this]
            show ?thesis using facts go c2 Inr by (simp add: unfold1)
          qed
        qed
      qed
    qed
  qed
qed

section \<open>A turn depends on the represented tokens alone\<close>

text \<open>A pass to a reachable history succeeds with the same logits from wherever it starts.\<close>

lemma rt_forward_same:
  assumes a: "at_history E st0 h (rt_state rt1)" and b: "at_history E st0 k (rt_state rt2)"
    and eq: "h @ xs = k @ ys" and ys: "ys \<noteq> []"
    and run: "rt_forward E xs (rt1, c) = (s1, Inr l)"
  shows "\<exists>rt2'. rt_forward E ys (rt2, c) = ((rt2', c), Inr l) \<and> rt2' = rt2\<lparr>rt_state := rt_state (fst s1)\<rparr>
    \<and> s1 = (rt1\<lparr>rt_state := rt_state (fst s1)\<rparr>, c) \<and> at_history E st0 (h @ xs) (rt_state (fst s1))"
proof -
  let ?F = "ev_fops E" and ?M = "ev_model E"
  note okA = at_ok [OF a] and okB = at_ok [OF b]
  from run obtain st1 out1 where f1: "forward_detailed_logits ?F (ev_threads E) ?M xs (rt_state rt1) LastRow = (st1, Inr out1)"
    and s1: "s1 = (rt1\<lparr>rt_state := st1\<rparr>, c)" "l = fo_logits out1"
    by (auto simp: rt_forward_def on_state_def bindS_Inr_iff split: prod.splits)
  from f1 have ne: "xs \<noteq> []" and run1: "runs ?F ?M xs (rt_state rt1) st1 (fo_hidden out1)"
    and out1: "out1 = pass_output ?M LastRow (fo_hidden out1)"
    by (simp_all add: forward_detailed_logits_iff [OF okA])
  from pass_facts(1) [OF a f1] have at1: "at_history E st0 (h @ xs) st1" .
  then have "at_history E st0 (k @ ys) st1" by (simp add: eq)
  from pass_reaches [OF b this ys] obtain out2 where
    f2: "forward_detailed_logits ?F (ev_threads E) ?M ys (rt_state rt2) LastRow = (st1, Inr out2)" by blast
  then have run2: "runs ?F ?M ys (rt_state rt2) st1 (fo_hidden out2)" and out2: "out2 = pass_output ?M LastRow (fo_hidden out2)"
    by (simp_all add: forward_detailed_logits_iff [OF okB])
  have len1: "length (fo_hidden out1) = length xs" and len2: "length (fo_hidden out2) = length ys"
    using runs_length [OF okA run1] runs_length [OF okB run2] by simp_all
  obtain ha where ha: "runs ?F ?M h st0 (rt_state rt1) ha" and ok0: "model_ok ?M st0" using a by (auto simp: at_history_def)
  obtain hb where hb: "runs ?F ?M k st0 (rt_state rt2) hb" using b by (auto simp: at_history_def)
  have "runs ?F ?M (h @ xs) st0 st1 (ha @ fo_hidden out1)" using target.run_compose [OF ok0 ha run1] .
  moreover have "runs ?F ?M (k @ ys) st0 st1 (hb @ fo_hidden out2)" using target.run_compose [OF ok0 hb run2] .
  ultimately have "ha @ fo_hidden out1 = hb @ fo_hidden out2" using eq runs_determ by metis
  moreover have "fo_hidden out1 \<noteq> []" "fo_hidden out2 \<noteq> []" using ne ys len1 len2 by auto
  ultimately have last: "last (fo_hidden out1) = last (fo_hidden out2)" by (metis last_appendR)
  have "fo_logits out = [md_lm_head ?M (last (fo_hidden out))]"
    if "out = pass_output ?M LastRow (fo_hidden out)" "fo_hidden out \<noteq> []" for out
    using that(2) by (subst that(1)) (simp add: pass_output_def drop_last_one)
  with out1 out2 last \<open>fo_hidden out1 \<noteq> []\<close> \<open>fo_hidden out2 \<noteq> []\<close> have "fo_logits out2 = fo_logits out1" by metis
  with f2 s1 at1 show ?thesis
    by (simp add: rt_forward_def on_state_def bindS_def)
qed

text \<open>Results that differ only in how the prompt was split into what was evaluated before.\<close>

definition same_answer :: "run_error + generation_result \<Rightarrow> run_error + generation_result \<Rightarrow> bool" where
  "same_answer r1 r2 = (case (r1, r2) of
      (Inl e1, Inl e2) \<Rightarrow> e1 = e2
    | (Inr g1, Inr g2) \<Rightarrow> qr_generated g1 = qr_generated g2 \<and> qr_text g1 = qr_text g2 \<and> qr_thinking g1 = qr_thinking g2
    | _ \<Rightarrow> False)"

lemma finish_turn_same:
  fixes s1 s2 s1' :: "('f, 'c) session"
  assumes "alike s1 s2" "finish_turn E p1 e1 g s1 = (s1', r1)"
  shows "\<exists>s2' r2. finish_turn E p2 e2 g s2 = (s2', r2) \<and> alike s1' s2' \<and> same_answer r1 r2"
  using assms
  by (cases s1; cases s2; cases "ev_decode E (gr_generated g)")
    (auto simp: finish_turn_def alike_def same_answer_def bindS_lift lift_tokenizer_def)

lemma plain_turns_agree:
  fixes s1 :: "('f, 'c) session"
  assumes a: "at_history E st0 h (rt_state rt1)" and b: "at_history E st0 k (rt_state rt2)"
    and eq: "h @ continuation_input p1 (rt_pending rt1) = k @ continuation_input p2 (rt_pending rt2)" and p2: "p2 \<noteq> []"
    and run: "generate_plain E opts cb p1 (rt1, c) = (s1, r1)" and r1: "proper r1"
  shows "\<exists>s2 r2. generate_plain E opts cb p2 (rt2, c) = (s2, r2) \<and> alike s1 s2 \<and> same_answer r1 r2"
proof -
  let ?e1 = "continuation_input p1 (rt_pending rt1)" and ?e2 = "continuation_input p2 (rt_pending rt2)"
  let ?rt1 = "rt1\<lparr>rt_pending := None, rt_drafted := 0, rt_accepted := 0\<rparr>"
  let ?rt2 = "rt2\<lparr>rt_pending := None, rt_drafted := 0, rt_accepted := 0\<rparr>"
  have opts: "0 < go_max_new_tokens opts" "p1 \<noteq> []"
    using run r1 by (auto simp: generate_plain_def split: if_splits)
  obtain sampler where sampler: "sampler_new (ev_fops E) (ev_seed_rng E) (go_sampling opts) = Inr sampler"
  proof (cases "sampler_new (ev_fops E) (ev_seed_rng E) (go_sampling opts)")
    case (Inl e)
    with run r1 opts have False
      by (auto simp: generate_plain_def Let_def bindS_lift lift_sampling_def)
    then show thesis ..
  qed
  obtain s3 q where fwd1: "rt_forward E ?e1 (?rt1, c) = (s3, q)" by (rule prod.exhaust)
  obtain l where q: "q = Inr l"
  proof (cases q)
    case (Inl e)
    then have "r1 = Inl e" using run opts sampler fwd1
      by (simp add: generate_plain_def Let_def bindS_lift lift_sampling_def bindS_Inl)
    moreover have "e \<noteq> CallbackFailure" using silent_rt_forward [of E ?e1] fwd1 Inl
      unfolding silent_def by (metis snd_conv)
    ultimately show thesis using r1 by simp
  qed
  have e2: "?e2 \<noteq> []" using p2 by (simp add: continuation_input_def split: option.split)
  have a': "at_history E st0 h (rt_state ?rt1)" and b': "at_history E st0 k (rt_state ?rt2)" using a b by simp_all
  obtain rt4 where
    fwd2: "rt_forward E ?e2 (?rt2, c) = ((rt4, c), Inr l)" and rt4: "rt4 = ?rt2\<lparr>rt_state := rt_state (fst s3)\<rparr>"
    and s3: "s3 = (?rt1\<lparr>rt_state := rt_state (fst s3)\<rparr>, c)"
    using rt_forward_same [OF a' b' eq e2 fwd1 [unfolded q]] by (elim exE conjE) (rule that)
  have alike3: "alike s3 (rt4, c)" by (subst s3) (simp add: alike_def rt4)
  let ?rest = "\<lambda>p e. bindS (liftS (turn_thinking E opts)) (\<lambda>thinking.
     case should_force_opt thinking of (th, forced) \<Rightarrow>
     bindS (if forced then force_close_thinking_target_only E cb None (closure_of th) else returnS l) (\<lambda>logits.
     bindS (plain_loop E opts cb logits (if forced then closure_of th else []) None th sampler) (\<lambda>r.
     finish_turn E p e r)))"
  have start: "generate_plain E opts cb p1 (rt1, c) = ?rest p1 ?e1 s3" "generate_plain E opts cb p2 (rt2, c) = ?rest p2 ?e2 (rt4, c)"
    using opts p2 sampler fwd1 fwd2 q
    by (simp_all add: generate_plain_def Let_def bindS_lift lift_sampling_def bindS_Inr)
  show ?thesis
  proof (cases "turn_thinking E opts")
    case (Inl e)
    with start(1) have "generate_plain E opts cb p1 (rt1, c) = (s3, Inl e)" by (simp add: bindS_lift)
    with run have "r1 = Inl e" by simp
    with r1 Inl turn_thinking_silent [of E opts] show ?thesis by simp
  next
    case (Inr thinking)
    obtain th forced where force: "should_force_opt thinking = (th, forced)" by (rule prod.exhaust)
    let ?close = "if forced then force_close_thinking_target_only E cb None (closure_of th) else returnS l"
    let ?g = "if forced then closure_of th else []"
    have unfold: "?rest p e s = bindS ?close (\<lambda>logits. bindS (plain_loop E opts cb logits ?g None th sampler) (\<lambda>r.
       finish_turn E p e r)) s" for p e and s :: "('f, 'c) session"
      using Inr force by (simp add: bindS_lift)
    obtain s5 q5 where c1: "?close s3 = (s5, q5)" by (rule prod.exhaust)
    have "oblivious ?close" by (intro oblivious_intros)
    from obliviousD [OF this alike3 c1] obtain s6 where c2: "?close (rt4, c) = (s6, q5)" and alike6: "alike s5 s6" .
    show ?thesis
    proof (cases q5)
      case (Inl e)
      with start unfold c1 c2 run alike6 show ?thesis by (simp add: bindS_Inl same_answer_def)
    next
      case (Inr logits)
      obtain s7 q7 where l1: "plain_loop E opts cb logits ?g None th sampler s5 = (s7, q7)" by (rule prod.exhaust)
      from plain_loop_oblivious [OF alike6 l1] obtain s8 where
        l2: "plain_loop E opts cb logits ?g None th sampler s6 = (s8, q7)" and alike8: "alike s7 s8" by blast
      show ?thesis
      proof (cases q7)
        case (Inl e)
        with start unfold c1 c2 Inr l1 l2 run alike8 show ?thesis by (simp add: bindS_Inr bindS_Inl same_answer_def)
      next
        case q7: (Inr g)
        with start unfold c1 c2 Inr l1 l2 run
        have "finish_turn E p1 ?e1 g s7 = (s1, r1)" "generate_plain E opts cb p2 (rt2, c) = finish_turn E p2 ?e2 g s8"
          by (simp_all add: bindS_Inr)
        with finish_turn_same [OF alike8] show ?thesis by metis
      qed
    qed
  qed
qed

text \<open>
  The session of a turn may represent any prefix of the tokens: what the turn returns, what its
  sink sees and where it leaves the model are those of the plain path from a fresh session over
  all of them.
\<close>

lemma turn_from_prefix:
  fixes s1 :: "('f, 'c) session"
  assumes rep: "represents E pre rt" and sn: "snapshots_ok (rt_snapshots rt)"
    and run: "generate_tokens_with_callback E opts cb rest (rt, c) = (s1, r1)" and r1: "proper r1"
    and fresh: "rt_state rt0 = fresh_state E" "rt_pending rt0 = None"
  shows "\<exists>s2 r2. generate_plain E opts cb (pre @ rest) (rt0, c) = (s2, r2) \<and> alike s1 s2 \<and> same_answer r1 r2"
proof -
  obtain rt1 c1 where s1: "s1 = (rt1, c1)" by (rule prod.exhaust)
  from turn_as_plain [OF represents_ok [OF rep] sn run [unfolded s1] r1] obtain rt2 where
    plain: "generate_plain E opts cb rest (rt, c) = ((rt2, c1), r1)" and eq: "rt_state rt2 = rt_state rt1"
      "rt_pending rt2 = rt_pending rt1" by blast
  from rep obtain h where h: "at_history E (fresh_state E) h (rt_state rt)" "h @ pending_list (rt_pending rt) = pre"
    by (auto simp: represents_def)
  then have "model_ok (ev_model E) (fresh_state E)" by (simp add: at_history_def)
  with fresh have b: "at_history E (fresh_state E) [] (rt_state rt0)" by (simp add: at_start)
  have "rest \<noteq> []" using plain r1 by (auto simp: generate_plain_def split: if_splits)
  moreover have "h @ continuation_input rest (rt_pending rt) = [] @ continuation_input (pre @ rest) (rt_pending rt0)"
    using h(2) fresh(2) by (simp add: continuation_pending) (simp add: pending_list_def)
  ultimately obtain s2 r2 where "generate_plain E opts cb (pre @ rest) (rt0, c) = (s2, r2)" "alike (rt2, c1) s2" "same_answer r1 r2"
    using plain_turns_agree [OF h(1) b _ _ plain r1] by blast
  with eq s1 show ?thesis by (auto simp: alike_def)
qed

text \<open>What a session represents after a turn: what it did before, the prompt and the tokens handed over.\<close>

lemma turn_represents:
  fixes s1 :: "('f, 'c) session"
  assumes rep: "represents E pre rt" and sn: "snapshots_ok (rt_snapshots rt)"
    and run: "generate_tokens_with_callback E opts cb rest (rt, c) = (s1, Inr res)"
  shows "represents E (pre @ rest @ qr_generated res) (fst s1)"
proof -
  obtain rt1 c1 where s1: "s1 = (rt1, c1)" by (rule prod.exhaust)
  from turn_accounts [OF represents_ok [OF rep] sn run [unfolded s1] proper_simps(1)] obtain h2 where
    2: "at_history E (rt_state rt) h2 (rt_state (fst s1))"
      "h2 @ pending_list (rt_pending (fst s1)) = pending_list (rt_pending rt) @ rest @ qr_generated res"
    unfolding s1 by (auto simp: turn_accounted_def)
  from rep obtain h where h: "at_history E (fresh_state E) h (rt_state rt)" "h @ pending_list (rt_pending rt) = pre"
    by (auto simp: represents_def)
  from at_history_compose [OF h(1) 2(1)] 2(2) h(2) [symmetric] show ?thesis
    by (auto simp: represents_def intro!: exI [of _ "h @ h2"])
qed

section \<open>Properties\<close>

text \<open>
  C5. A session can be continued from whatever it holds. When the session represents the tokens
  \<open>pre\<close> (whichever passes, drafts, rollbacks or restored images led there, the last token
  evaluated or still pending), a turn over the prompt \<open>rest\<close> gives the sink and the caller what
  plain decoding of \<open>pre @ rest\<close> gives on a fresh session: the same generated tokens, text and
  thinking counters, or the same refusal, with the model in the same state and the same token
  pending. A matrix is a function of one row, which the dispatch of the kernels justifies where they
  agree (\<open>Matmul.dispatch_is_row_wise\<close>); the documented last-bits caveat on reused prefixes has no
  place in the code then, and is recorded as a divergence.
\<close>

theorem reuse_is_transparent:
  fixes s1 :: "('f, 'c) session"
  assumes "represents E pre rt" and "snapshots_ok (rt_snapshots rt)"
    and "generate_tokens_with_callback E opts cb rest (rt, c) = (s1, r1)" and "proper r1"
    and "rt_state rt0 = fresh_state E" "rt_pending rt0 = None"
  shows "\<exists>s2 r2. generate_plain E opts cb (pre @ rest) (rt0, c) = (s2, r2) \<and> alike s1 s2 \<and> same_answer r1 r2"
  using assms by (rule turn_from_prefix)

text \<open>A second turn on the session a drafting turn left, one token pending.\<close>

lemma reuse_is_transparent_witness:
  "case generate_tokens_with_callback counting_env counting_options (recording_sink 7) [0, 1, 2, 3, 0, 1, 2]
      (counting_runtime, []) of
     ((rt, _), _) \<Rightarrow> rt_pending rt = Some 1 \<and>
       (case generate_tokens_with_callback counting_env counting_options (recording_sink 7) [2] (rt, []) of
          (s1, r1) \<Rightarrow> snd s1 = [3, 0, 1] \<and>
            (\<exists>s2 r2. generate_plain counting_env counting_options (recording_sink 7) [0, 1, 2, 3, 0, 1, 2, 3, 0, 1, 2]
               (counting_runtime, []) = (s2, r2) \<and> alike s1 s2 \<and> same_answer r1 r2))"
proof (rule counting_turn)
  fix rt res
  assume run: "generate_tokens_with_callback counting_env counting_options (recording_sink 7) [0, 1, 2, 3, 0, 1, 2]
      (counting_runtime, []) = ((rt, [3, 0, 1]), Inr res)"
    and rt: "rt_accepted rt = 1" "rt_pending rt = Some 1" "qr_generated res = [3, 0, 1]"
  have fresh: "rt_state counting_runtime = fresh_state counting_env" "rt_pending counting_runtime = None"
    by (simp_all add: counting_runtime_def runtime_new_def fresh_state_def)
  have "represents counting_env [] counting_runtime"
    by (rule represents_nothing [OF _ fresh]) (simp add: counting_env_def counting_model_def)
  from turn_represents [OF this counting_ok(2) run] rt have rep: "represents counting_env [0, 1, 2, 3, 0, 1, 2, 3, 0, 1] rt"
    by simp
  have "(let p = generate_tokens_with_callback counting_env counting_options (recording_sink 7) [0, 1, 2, 3, 0, 1, 2]
      (counting_runtime, []); q = generate_tokens_with_callback counting_env counting_options (recording_sink 7) [2]
      (fst (fst p), []) in snd (fst q) = [3, 0, 1] \<and> proper (snd q))"
    by code_simp
  then have q: "snd (fst (generate_tokens_with_callback counting_env counting_options (recording_sink 7) [2] (rt, []))) = [3, 0, 1]"
    "proper (snd (generate_tokens_with_callback counting_env counting_options (recording_sink 7) [2] (rt, [])))"
    by (simp_all add: run Let_def)
  obtain s1 r1 where second: "generate_tokens_with_callback counting_env counting_options (recording_sink 7) [2] (rt, []) = (s1, r1)"
    by (rule prod.exhaust)
  have sn: "snapshots_ok (rt_snapshots rt)"
    using turn_snaps [OF counting_ok, of counting_options "recording_sink 7" "[0, 1, 2, 3, 0, 1, 2]" "[]"] run by (simp add: snaps_def)
  from q second have "proper r1" "snd s1 = [3, 0, 1]" by simp_all
  with reuse_is_transparent [OF rep sn second _ fresh] rt show ?thesis by (simp add: run second)
qed

end
