(* ===== verification/Entry_Format.thy ===== *)
theory Entry_Format
  imports Runtime Text_Bytes
begin

text \<open>
  The on-disk representation of one cached prefix (\<open>src/prompt_cache/format.rs\<close>): writing a
  session image as named tensors with metadata, publishing it by rename, and reading it back
  with every check of the reader.

  The \<open>safetensors\<close> container itself is a library: its serialization, its two parsers and the
  byte encoding of a float are the parameter \<open>container\<close>, and what it promises is
  \<open>container_ok\<close>. A file's content is a value of the opaque type \<open>'b\<close>. What the operating
  system answers is the parameter \<open>os\<close>. A path is a file name in the cache's directory.
\<close>

section \<open>Files\<close>

record 'b stored_file =
  fl_data :: 'b
  fl_modified :: nat

type_synonym 'b disk = "string \<rightharpoonup> 'b stored_file"

text \<open>A write either completes or fails and may leave a partial file.\<close>

datatype 'b write_outcome = Written | Partial "'b option"

record 'b os =
  os_open :: "string \<Rightarrow> bool"
  os_write :: "string \<Rightarrow> 'b write_outcome"
  os_stat :: "string \<Rightarrow> bool"
  os_rename :: "string \<Rightarrow> bool"
  os_remove :: "string \<Rightarrow> bool"
  os_now :: nat

text \<open>\<open>Path::file_stem\<close> and \<open>Path::extension\<close>: a leading dot starts no extension.\<close>

definition split_extension :: "string \<Rightarrow> string \<times> string option" where
  "split_extension name = (case rsplit_once name ''.'' of
      None \<Rightarrow> (name, None)
    | Some (stem, ext) \<Rightarrow> if stem = [] then (name, None) else (stem, Some ext))"

definition with_extension :: "string \<Rightarrow> string \<Rightarrow> string" where
  "with_extension name ext = fst (split_extension name) @ ''.'' @ ext"

section \<open>Tensors\<close>

datatype dtype = F32 | U32 | OtherDtype

record tensor =
  tn_dtype :: dtype
  tn_shape :: "nat list"
  tn_data :: "8 word list"

datatype entry_error = ViewMismatch | CannotSerialize | CannotWrite | CannotStat | CannotPublish
  | CannotOpen | NotReadable | NoMetadata | NoMetadataKey string | WrongFormat | WrongCheckpoint
  | BadNumber string | MissingTensor string | WrongDtype string | PartialElement string
  | TokenCount | LayerCount | WrongWidth | InconsistentImage | IndexPoisoned

type_synonym tensors = "(string \<times> tensor) list"
type_synonym metadata = "(string \<times> string) list"

record ('f, 'b) container =
  ct_serialize :: "tensors \<Rightarrow> metadata \<Rightarrow> 'b option"
  ct_deserialize :: "'b \<Rightarrow> tensors option"
  ct_metadata :: "'b \<Rightarrow> metadata option option"
  ct_size :: "'b \<Rightarrow> nat"
  ct_f32_bytes :: "'f \<Rightarrow> 8 word list"
  ct_f32_of :: "8 word list \<Rightarrow> 'f"

text \<open>
  What is relied on: a float is four bytes that can be read back, and a file that serialization
  produced from tensors of distinct names deserializes to those tensors and that metadata.
\<close>

definition container_ok :: "('f, 'b) container \<Rightarrow> bool" where
  "container_ok C \<longleftrightarrow>
     (\<forall>x. length (ct_f32_bytes C x) = 4 \<and> ct_f32_of C (ct_f32_bytes C x) = x)
   \<and> (\<forall>ts md b. ct_serialize C ts md = Some b \<and> distinct (map fst ts) \<and> distinct (map fst md) \<longrightarrow>
        (\<exists>ts' md'. ct_deserialize C b = Some ts' \<and> map_of ts' = map_of ts
           \<and> ct_metadata C b = Some (Some md') \<and> map_of md' = map_of md))"

text \<open>\<open>TensorView::new\<close> refuses a buffer whose size is not that of the shape; both element types are four bytes.\<close>

definition tensor_view :: "dtype \<Rightarrow> nat \<Rightarrow> 8 word list \<Rightarrow> entry_error + tensor" where
  "tensor_view dt n data =
     bindE (ensure (length data = 4 * n) ViewMismatch) (\<lambda>_. Inr \<lparr>tn_dtype = dt, tn_shape = [n], tn_data = data\<rparr>)"

definition f32_view :: "('f, 'b) container \<Rightarrow> 'f list \<Rightarrow> entry_error + tensor" where
  "f32_view C values = tensor_view F32 (length values) (concat (map (ct_f32_bytes C) values))"

unbundle bit_operations_syntax

definition u32_to_le :: "u32 \<Rightarrow> 8 word list" where
  "u32_to_le w = map (\<lambda>i. ucast (drop_bit (8 * i) w)) [0..<4]"

definition u32_from_le :: "8 word list \<Rightarrow> u32" where
  "u32_from_le bytes = foldr (\<lambda>b w. push_bit 8 w OR ucast b) bytes 0"

lemma u32_le_round_trip [simp]: "u32_from_le (u32_to_le w) = w"
proof (rule bit_word_eqI)
  fix n
  assume "n < LENGTH(32)"
  then have n: "n < 32" by simp
  have four: "[0..<4] = [0, 1, 2, 3::nat]" by (simp add: upt_conv_Cons)
  show "bit (u32_from_le (u32_to_le w)) n = bit w n"
  proof -
    consider "n < 8" | "8 \<le> n" "n < 16" | "16 \<le> n" "n < 24" | "24 \<le> n" using n by linarith
    then show ?thesis
      using n by cases (auto simp: u32_from_le_def u32_to_le_def four bit_simps)
  qed
qed

lemma length_u32_to_le [simp]: "length (u32_to_le w) = 4"
  by (simp add: u32_to_le_def)

definition u32_view :: "u32 list \<Rightarrow> entry_error + tensor" where
  "u32_view values = tensor_view U32 (length values) (concat (map u32_to_le values))"

definition read_f32 :: "('f, 'b) container \<Rightarrow> tensors \<Rightarrow> string \<Rightarrow> entry_error + 'f list" where
  "read_f32 C ts name = (case map_of ts name of
      None \<Rightarrow> Inl (MissingTensor name)
    | Some view \<Rightarrow>
        bindE (ensure (tn_dtype view = F32) (WrongDtype name)) (\<lambda>_.
        bindE (ensure (4 dvd length (tn_data view)) (PartialElement name)) (\<lambda>_.
        Inr (map (ct_f32_of C) (chunks 4 (tn_data view))))))"

definition read_tokens :: "tensors \<Rightarrow> entry_error + u32 list" where
  "read_tokens ts = (case map_of ts ''tokens'' of
      None \<Rightarrow> Inl (MissingTensor ''tokens'')
    | Some view \<Rightarrow>
        bindE (ensure (tn_dtype view = U32) (WrongDtype ''tokens'')) (\<lambda>_.
        bindE (ensure (4 dvd length (tn_data view)) (PartialElement ''tokens'')) (\<lambda>_.
        Inr (map u32_from_le (chunks 4 (tn_data view))))))"

section \<open>Writing an entry\<close>

definition FORMAT :: string where "FORMAT = ''inferq-prompt-cache-1''"
definition EXTENSION :: string where "EXTENSION = ''inferq-prompt''"

definition layer_name :: "nat \<Rightarrow> string \<Rightarrow> string" where
  "layer_name index field = ''layer.'' @ show_nat index @ ''.'' @ field"

definition pair_tensors ::
    "('f, 'b) container \<Rightarrow> string \<Rightarrow> 'f list \<Rightarrow> string \<Rightarrow> 'f list \<Rightarrow> entry_error + tensors" where
  "pair_tensors C n1 v1 n2 v2 =
     bindE (f32_view C v1) (\<lambda>t1. bindE (f32_view C v2) (\<lambda>t2. Inr [(n1, t1), (n2, t2)]))"

fun layer_tensors :: "('f, 'b) container \<Rightarrow> nat \<Rightarrow> 'f layer_image list \<Rightarrow> entry_error + tensors" where
  "layer_tensors C index [] = Inr []"
| "layer_tensors C index (layer # layers) =
     bindE (case layer of
         FullImage st \<Rightarrow> pair_tensors C (layer_name index ''keys'') (ai_keys st) (layer_name index ''values'') (ai_values st)
       | LinearImage st \<Rightarrow> pair_tensors C (layer_name index ''conv'') (dc_conv st) (layer_name index ''recurrent'') (dc_recurrent st))
       (\<lambda>ts. bindE (layer_tensors C (index + 1) layers) (\<lambda>rest. Inr (ts @ rest)))"

definition entry_tensors :: "('f, 'b) container \<Rightarrow> 'f session_image \<Rightarrow> entry_error + tensors" where
  "entry_tensors C im =
     bindE (u32_view (si_tokens im)) (\<lambda>tokens.
     bindE (layer_tensors C 0 (im_layers (si_model im))) (\<lambda>layers.
     bindE (case si_mtp im of None \<Rightarrow> Inr []
            | Some mtp \<Rightarrow> pair_tensors C ''mtp.keys'' (ai_keys mtp) ''mtp.values'' (ai_values mtp)) (\<lambda>mtp.
     bindE (case si_last_hidden im of None \<Rightarrow> Inr []
            | Some hidden \<Rightarrow> bindE (f32_view C hidden) (\<lambda>t. Inr [(''last_hidden'', t)])) (\<lambda>hidden.
     Inr ((''tokens'', tokens) # layers @ mtp @ hidden)))))"

definition entry_metadata :: "string \<Rightarrow> string \<Rightarrow> nat \<Rightarrow> 'f session_image \<Rightarrow> metadata" where
  "entry_metadata model_fingerprint quantization created_unix im =
     [(''inferq_format'', FORMAT), (''model_fingerprint'', model_fingerprint), (''quantization'', quantization),
      (''position'', show_nat (im_position (si_model im))), (''layer_count'', show_nat (length (im_layers (si_model im)))),
      (''created_unix'', show_nat created_unix)]"

text \<open>
  The file is written under a temporary name and renamed. The result is the directory after the
  call and the size of the entry.
\<close>

definition write_entry ::
    "('f, 'b) container \<Rightarrow> 'b os \<Rightarrow> string \<Rightarrow> 'f session_image \<Rightarrow> string \<Rightarrow> string \<Rightarrow> nat \<Rightarrow> 'b disk
      \<Rightarrow> 'b disk \<times> (entry_error + nat)" where
  "write_entry C os path im model_fingerprint quantization created_unix disk =
     (case entry_tensors C im of
        Inl e \<Rightarrow> (disk, Inl e)
      | Inr tensors \<Rightarrow>
          let temporary = with_extension path ''writing''
          in case ct_serialize C tensors (entry_metadata model_fingerprint quantization created_unix im) of
               None \<Rightarrow> (disk, Inl CannotSerialize)
             | Some data \<Rightarrow>
                 (case os_write os temporary of
                    Partial None \<Rightarrow> (disk, Inl CannotWrite)
                  | Partial (Some part) \<Rightarrow> (disk(temporary \<mapsto> \<lparr>fl_data = part, fl_modified = os_now os\<rparr>), Inl CannotWrite)
                  | Written \<Rightarrow>
                      let disk1 = disk(temporary \<mapsto> \<lparr>fl_data = data, fl_modified = os_now os\<rparr>)
                      in if \<not> os_stat os temporary then (disk1, Inl CannotStat)
                         else if \<not> os_rename os temporary then (disk1, Inl CannotPublish)
                         else ((disk1(temporary := None))(path \<mapsto> \<lparr>fl_data = data, fl_modified = os_now os\<rparr>), Inr (ct_size C data))))"

section \<open>Reading an entry\<close>

definition mapped_open :: "'b os \<Rightarrow> 'b disk \<Rightarrow> string \<Rightarrow> entry_error + 'b" where
  "mapped_open os disk path = (case disk path of
      None \<Rightarrow> Inl CannotOpen
    | Some f \<Rightarrow> if os_open os path then Inr (fl_data f) else Inl CannotOpen)"

definition metadata_map :: "('f, 'b) container \<Rightarrow> 'b \<Rightarrow> entry_error + metadata" where
  "metadata_map C data = (case ct_metadata C data of
      None \<Rightarrow> Inl NotReadable
    | Some None \<Rightarrow> Inl NoMetadata
    | Some (Some md) \<Rightarrow> Inr md)"

definition metadata_value :: "metadata \<Rightarrow> string \<Rightarrow> entry_error + string" where
  "metadata_value md key = (case map_of md key of None \<Rightarrow> Inl (NoMetadataKey key) | Some v \<Rightarrow> Inr v)"

definition metadata_number :: "metadata \<Rightarrow> string \<Rightarrow> entry_error + nat" where
  "metadata_number md key = bindE (metadata_value md key) (\<lambda>v.
     case parse_usize v of None \<Rightarrow> Inl (BadNumber key) | Some n \<Rightarrow> Inr n)"

definition check_identity :: "metadata \<Rightarrow> string \<Rightarrow> entry_error + unit" where
  "check_identity md model_fingerprint =
     bindE (metadata_value md ''inferq_format'') (\<lambda>format.
     bindE (ensure (format = FORMAT) WrongFormat) (\<lambda>_.
     bindE (metadata_value md ''model_fingerprint'') (\<lambda>fingerprint.
     ensure (fingerprint = model_fingerprint) WrongCheckpoint)))"

definition deserialize :: "('f, 'b) container \<Rightarrow> 'b \<Rightarrow> entry_error + tensors" where
  "deserialize C data = (case ct_deserialize C data of None \<Rightarrow> Inl NotReadable | Some ts \<Rightarrow> Inr ts)"

text \<open>\<open>EntryHeader\<close>: the tokens and the position, which are checked to agree.\<close>

record entry_header =
  eh_tokens :: "u32 list"
  eh_position :: nat

definition read_header :: "('f, 'b) container \<Rightarrow> 'b os \<Rightarrow> 'b disk \<Rightarrow> string \<Rightarrow> string \<Rightarrow> entry_error + entry_header" where
  "read_header C os disk path model_fingerprint =
     bindE (mapped_open os disk path) (\<lambda>data.
     bindE (metadata_map C data) (\<lambda>md.
     bindE (check_identity md model_fingerprint) (\<lambda>_.
     bindE (deserialize C data) (\<lambda>ts.
     bindE (metadata_number md ''position'') (\<lambda>pos.
     bindE (read_tokens ts) (\<lambda>tokens.
     bindE (ensure (length tokens = pos) TokenCount) (\<lambda>_.
     Inr \<lparr>eh_tokens = tokens, eh_position = pos\<rparr>)))))))"

datatype layer_kind = FullKind nat | LinearKind

definition read_layer :: "('f, 'b) container \<Rightarrow> tensors \<Rightarrow> nat \<Rightarrow> nat \<Rightarrow> layer_kind \<Rightarrow> entry_error + 'f layer_image" where
  "read_layer C ts pos index kind = (case kind of
      FullKind stride \<Rightarrow>
        bindE (read_f32 C ts (layer_name index ''keys'')) (\<lambda>keys.
        bindE (read_f32 C ts (layer_name index ''values'')) (\<lambda>values.
        bindE (ensure (length keys = pos * stride \<and> length values = pos * stride) WrongWidth) (\<lambda>_.
        Inr (FullImage \<lparr>ai_keys = keys, ai_values = values, ai_positions = pos\<rparr>))))
    | LinearKind \<Rightarrow>
        bindE (read_f32 C ts (layer_name index ''conv'')) (\<lambda>conv.
        bindE (read_f32 C ts (layer_name index ''recurrent'')) (\<lambda>recurrent.
        Inr (LinearImage \<lparr>dc_conv = conv, dc_recurrent = recurrent\<rparr>))))"

fun read_layers :: "('f, 'b) container \<Rightarrow> tensors \<Rightarrow> nat \<Rightarrow> nat \<Rightarrow> layer_kind list \<Rightarrow> entry_error + 'f layer_image list" where
  "read_layers C ts pos index [] = Inr []"
| "read_layers C ts pos index (kind # kinds) =
     bindE (read_layer C ts pos index kind) (\<lambda>layer.
     bindE (read_layers C ts pos (index + 1) kinds) (\<lambda>layers. Inr (layer # layers)))"

definition full_stride :: "layer_kind list \<Rightarrow> nat option" where
  "full_stride kinds = (case find (\<lambda>k. k \<noteq> LinearKind) kinds of Some (FullKind stride) \<Rightarrow> Some stride | _ \<Rightarrow> None)"

definition read_mtp :: "('f, 'b) container \<Rightarrow> tensors \<Rightarrow> nat \<Rightarrow> layer_kind list \<Rightarrow> entry_error + 'f attn_image option" where
  "read_mtp C ts pos kinds =
     (if ''mtp.keys'' \<in> set (map fst ts)
      then bindE (read_f32 C ts ''mtp.keys'') (\<lambda>keys.
           bindE (read_f32 C ts ''mtp.values'') (\<lambda>values.
           bindE (case full_stride kinds of None \<Rightarrow> Inr ()
                  | Some stride \<Rightarrow> ensure (length keys = pos * stride \<and> length values = pos * stride) WrongWidth) (\<lambda>_.
           Inr (Some \<lparr>ai_keys = keys, ai_values = values, ai_positions = pos\<rparr>))))
      else Inr None)"

definition read_hidden :: "('f, 'b) container \<Rightarrow> tensors \<Rightarrow> entry_error + 'f list option" where
  "read_hidden C ts = (if ''last_hidden'' \<in> set (map fst ts)
     then bindE (read_f32 C ts ''last_hidden'') (\<lambda>h. Inr (Some h)) else Inr None)"

definition read_entry ::
    "('f, 'b) container \<Rightarrow> 'b os \<Rightarrow> 'b disk \<Rightarrow> string \<Rightarrow> string \<Rightarrow> layer_kind list \<Rightarrow> entry_error + 'f session_image" where
  "read_entry C os disk path model_fingerprint kinds =
     bindE (mapped_open os disk path) (\<lambda>data.
     bindE (metadata_map C data) (\<lambda>md.
     bindE (check_identity md model_fingerprint) (\<lambda>_.
     bindE (deserialize C data) (\<lambda>ts.
     bindE (metadata_number md ''position'') (\<lambda>pos.
     bindE (metadata_number md ''layer_count'') (\<lambda>layer_count.
     bindE (ensure (layer_count = length kinds) LayerCount) (\<lambda>_.
     bindE (read_tokens ts) (\<lambda>tokens.
     bindE (ensure (length tokens = pos) TokenCount) (\<lambda>_.
     bindE (read_layers C ts pos 0 kinds) (\<lambda>layers.
     bindE (case image_validate \<lparr>im_layers = layers, im_position = pos\<rparr> of
              Inl _ \<Rightarrow> Inl InconsistentImage | Inr u \<Rightarrow> Inr u) (\<lambda>_.
     bindE (read_mtp C ts pos kinds) (\<lambda>mtp.
     bindE (read_hidden C ts) (\<lambda>hidden.
     Inr \<lparr>si_tokens = tokens, si_model = \<lparr>im_layers = layers, im_position = pos\<rparr>,
          si_mtp = mtp, si_last_hidden = hidden\<rparr>)))))))))))))"

definition is_entry :: "string \<Rightarrow> bool" where
  "is_entry path \<longleftrightarrow> snd (split_extension path) = Some EXTENSION"

section \<open>Names\<close>

definition digits_nat :: "string \<Rightarrow> nat" where
  "digits_nat s = foldl (\<lambda>a c. a * 10 + (of_char c - 48)) 0 s"

lemma digits_nat_show: "digits_nat (show_nat n) = n"
proof (induction n rule: show_nat.induct)
  case (1 n)
  show ?case
  proof (cases "n < 10")
    case True
    then show ?thesis by (subst show_nat.simps) (simp add: digits_nat_def digit_def)
  next
    case False
    with 1 have "digits_nat (show_nat (n div 10)) = n div 10" by simp
    with False show ?thesis by (subst show_nat.simps) (simp add: digits_nat_def digit_def)
  qed
qed

lemma show_nat_inj: "show_nat m = show_nat n \<longleftrightarrow> m = n"
  by (metis digits_nat_show)

lemma show_nat_digits: "c \<in> set (show_nat n) \<Longrightarrow> digit_value c \<noteq> None"
proof (induction n rule: show_nat.induct)
  case (1 n)
  then show ?case by (subst (asm) (2) show_nat.simps) (auto split: if_splits)
qed

lemma digit_not_dot [simp]: "digit_value c \<noteq> None \<Longrightarrow> c \<noteq> CHR ''.''"
  by (auto simp: digit_value_def)

lemma append_separator_inj:
  assumes "c \<notin> set xs" "c \<notin> set xs'"
  shows "xs @ c # ys = xs' @ c # ys' \<longleftrightarrow> xs = xs' \<and> ys = ys'"
proof
  assume eq: "xs @ c # ys = xs' @ c # ys'"
  have "takeWhile (\<lambda>x. x \<noteq> c) (zs @ c # ws) = zs" if "c \<notin> set zs" for zs ws
    using that by (induction zs) auto
  with eq assms have "xs = xs'" by metis
  with eq show "xs = xs' \<and> ys = ys'" by simp
qed simp

lemma layer_name_inj [simp]: "layer_name i f = layer_name j g \<longleftrightarrow> i = j \<and> f = g"
proof -
  have "CHR ''.'' \<notin> set (show_nat n)" for n using show_nat_digits digit_not_dot by blast
  from append_separator_inj [OF this this] show ?thesis
    by (auto simp: layer_name_def show_nat_inj)
qed

lemma layer_name_other [simp]:
  "layer_name i f \<noteq> ''tokens''" "layer_name i f \<noteq> ''mtp.keys''" "layer_name i f \<noteq> ''mtp.values''"
  "layer_name i f \<noteq> ''last_hidden''"
  by (simp_all add: layer_name_def)

section \<open>What was written is read back\<close>

text \<open>A lookup that answers for every tensor of a list.\<close>

definition holds :: "(string \<rightharpoonup> tensor) \<Rightarrow> tensors \<Rightarrow> bool" where
  "holds M ts \<longleftrightarrow> (\<forall>(n, t) \<in> set ts. M n = Some t)"

lemma holds_simps [simp]:
  "holds M []" "holds M ((n, t) # ts) \<longleftrightarrow> M n = Some t \<and> holds M ts" "holds M (ts @ us) \<longleftrightarrow> holds M ts \<and> holds M us"
  by (auto simp: holds_def)

lemma holds_map_of: "distinct (map fst ts) \<Longrightarrow> holds (map_of ts) ts"
  by (auto simp: holds_def)

lemma bytes_concat:
  assumes "\<And>x. length (enc x) = 4" "\<And>x. dec (enc x) = x"
  shows "length (concat (map enc xs)) = 4 * length xs" "map dec (chunks 4 (concat (map enc xs))) = xs"
proof -
  show "length (concat (map enc xs)) = 4 * length xs" using assms(1) by (induction xs) simp_all
  have "chunks 4 (concat (map enc xs)) = map enc xs" using assms(1) by (intro chunks_concat) auto
  then show "map dec (chunks 4 (concat (map enc xs))) = xs" using assms(2) by (simp add: map_idI)
qed

lemma f32_view_read:
  assumes "container_ok C" "f32_view C v = Inr t" "map_of ts name = Some t"
  shows "read_f32 C ts name = Inr v"
proof -
  have "\<And>x. length (ct_f32_bytes C x) = 4" "\<And>x. ct_f32_of C (ct_f32_bytes C x) = x"
    using assms(1) by (simp_all add: container_ok_def)
  from bytes_concat [OF this] assms(2,3) show ?thesis
    by (auto simp: f32_view_def tensor_view_def read_f32_def bindE_Inr_iff bindE_ensure)
qed

lemma tokens_read:
  assumes "u32_view v = Inr t" "map_of ts ''tokens'' = Some t"
  shows "read_tokens ts = Inr v"
  using bytes_concat [of u32_to_le u32_from_le v] assms
  by (auto simp: u32_view_def tensor_view_def read_tokens_def bindE_Inr_iff bindE_ensure)

lemma pair_tensors_Inr:
  "pair_tensors C n1 v1 n2 v2 = Inr ts \<longleftrightarrow> (\<exists>t1 t2. f32_view C v1 = Inr t1 \<and> f32_view C v2 = Inr t2 \<and> ts = [(n1, t1), (n2, t2)])"
  by (auto simp: pair_tensors_def bindE_Inr_iff)

text \<open>The layers of an image have the kinds and widths of the model.\<close>

definition layer_fits :: "nat \<Rightarrow> layer_kind \<Rightarrow> 'f layer_image \<Rightarrow> bool" where
  "layer_fits pos kind layer = (case (kind, layer) of
      (FullKind stride, FullImage im) \<Rightarrow> ai_positions im = pos \<and> length (ai_keys im) = pos * stride \<and> length (ai_values im) = pos * stride
    | (LinearKind, LinearImage im) \<Rightarrow> True
    | _ \<Rightarrow> False)"

lemma read_layers_written:
  assumes "container_ok C" and "list_all2 (layer_fits pos) kinds layers"
    and "layer_tensors C index layers = Inr ts" and "holds (map_of all) ts"
  shows "read_layers C all pos index kinds = Inr layers"
  using assms(2-4)
proof (induction kinds layers arbitrary: index ts rule: list_all2_induct)
  case (Cons kind kinds layer layers)
  obtain us rest where split: "ts = us @ rest" "layer_tensors C (index + 1) layers = Inr rest"
    and us: "(case layer of
         FullImage st \<Rightarrow> pair_tensors C (layer_name index ''keys'') (ai_keys st) (layer_name index ''values'') (ai_values st)
       | LinearImage st \<Rightarrow> pair_tensors C (layer_name index ''conv'') (dc_conv st) (layer_name index ''recurrent'') (dc_recurrent st)) = Inr us"
    using Cons.prems(1) by (auto simp: bindE_Inr_iff)
  have "holds (map_of all) us" using Cons.prems(2) split by simp
  with us Cons.hyps(1) have "read_layer C all pos index kind = Inr layer"
    using f32_view_read [OF assms(1)]
    by (auto simp: read_layer_def layer_fits_def pair_tensors_Inr bindE_Inr_iff split: layer_kind.splits layer_image.splits)
  with Cons split show ?case by simp
qed simp

lemma layer_tensors_names:
  "layer_tensors C index layers = Inr ts \<Longrightarrow>
    distinct (map fst ts) \<and> (\<forall>n \<in> set (map fst ts). \<exists>i f. index \<le> i \<and> n = layer_name i f)"
proof (induction layers arbitrary: index ts)
  case (Cons layer layers)
  then obtain us rest where ts: "ts = us @ rest" and rest: "layer_tensors C (index + 1) layers = Inr rest"
    and us: "(case layer of
         FullImage st \<Rightarrow> pair_tensors C (layer_name index ''keys'') (ai_keys st) (layer_name index ''values'') (ai_values st)
       | LinearImage st \<Rightarrow> pair_tensors C (layer_name index ''conv'') (dc_conv st) (layer_name index ''recurrent'') (dc_recurrent st)) = Inr us"
    unfolding layer_tensors.simps bindE_Inr_iff by (elim exE conjE) (rule that, simp_all)
  note ih = Cons.IH [OF rest]
  obtain f g where fg: "f \<noteq> g" "map fst us = [layer_name index f, layer_name index g]"
  proof (cases layer)
    case (FullImage st)
    with us that [of "''keys''" "''values''"] show thesis by (auto simp: pair_tensors_Inr)
  next
    case (LinearImage st)
    with us that [of "''conv''" "''recurrent''"] show thesis by (auto simp: pair_tensors_Inr)
  qed
  have "layer_name index h \<notin> set (map fst rest)" for h using ih by force
  with fg ih have "distinct (map fst ts)" unfolding ts by simp
  moreover have "\<forall>n \<in> set (map fst ts). \<exists>i f. index \<le> i \<and> n = layer_name i f"
  proof
    fix n
    assume "n \<in> set (map fst ts)"
    then consider "n \<in> set (map fst us)" | "n \<in> set (map fst rest)" unfolding ts by auto
    then show "\<exists>i f. index \<le> i \<and> n = layer_name i f"
    proof cases
      case 1
      then show ?thesis using fg(2) by auto
    next
      case 2
      with ih obtain i f where "index + 1 \<le> i" "n = layer_name i f" by blast
      then show ?thesis by (auto intro!: exI [of _ i])
    qed
  qed
  ultimately show ?case by blast
qed simp

text \<open>An image as a session of the model has it, and as the reader demands it.\<close>

definition image_fits :: "layer_kind list \<Rightarrow> 'f session_image \<Rightarrow> bool" where
  "image_fits kinds im \<longleftrightarrow>
     (let pos = im_position (si_model im)
      in length (si_tokens im) = pos \<and> list_all2 (layer_fits pos) kinds (im_layers (si_model im))
       \<and> (case si_mtp im of None \<Rightarrow> True
          | Some mtp \<Rightarrow> ai_positions mtp = pos
              \<and> (\<forall>stride. full_stride kinds = Some stride \<longrightarrow>
                   length (ai_keys mtp) = pos * stride \<and> length (ai_values mtp) = pos * stride)))"

lemma layer_fits_valid:
  assumes "list_all2 (layer_fits pos) kinds layers"
  shows "image_validate \<lparr>im_layers = layers, im_position = pos\<rparr> = Inr ()"
proof -
  have "(case layer of FullImage a \<Rightarrow> bindE (attn_image_validate a) (\<lambda>_. ensure (ai_positions a = pos) InconsistentStorage)
      | LinearImage _ \<Rightarrow> Inr ()) = Inr ()" if "layer_fits pos kind layer" for kind and layer :: "'a layer_image"
    using that by (auto simp: layer_fits_def attn_image_validate_def bindE_ensure split: layer_kind.splits layer_image.splits)
  with assms have "mapE (\<lambda>layer. case layer of FullImage a \<Rightarrow> bindE (attn_image_validate a)
      (\<lambda>_. ensure (ai_positions a = pos) InconsistentStorage) | LinearImage _ \<Rightarrow> Inr ()) layers = Inr (map (\<lambda>_. ()) layers)"
    by (auto simp: mapE_Inr_iff list_all2_conv_all_nth in_set_conv_nth)
  then show ?thesis unfolding image_validate_def state_image.simps by simp
qed

lemma entry_tensors_parts:
  assumes "entry_tensors C im = Inr ts"
  obtains tokens layers mtp hidden where "u32_view (si_tokens im) = Inr tokens"
    "layer_tensors C 0 (im_layers (si_model im)) = Inr layers"
    "(case si_mtp im of None \<Rightarrow> Inr [] | Some mtp \<Rightarrow> pair_tensors C ''mtp.keys'' (ai_keys mtp) ''mtp.values'' (ai_values mtp)) = Inr mtp"
    "(case si_last_hidden im of None \<Rightarrow> Inr [] | Some hidden \<Rightarrow> bindE (f32_view C hidden) (\<lambda>t. Inr [(''last_hidden'', t)])) = Inr hidden"
    "ts = (''tokens'', tokens) # layers @ mtp @ hidden"
  using assms unfolding entry_tensors_def bindE_Inr_iff
  by (elim exE conjE) (rule that, assumption+, rule sym, simp only: sum.inject)

lemma entry_tensors_names:
  assumes "entry_tensors C im = Inr ts"
  shows "distinct (map fst ts)"
    and "''mtp.keys'' \<in> set (map fst ts) \<longleftrightarrow> si_mtp im \<noteq> None"
    and "''last_hidden'' \<in> set (map fst ts) \<longleftrightarrow> si_last_hidden im \<noteq> None"
proof -
  obtain tokens layers mtp hidden where u: "u32_view (si_tokens im) = Inr tokens"
    and parts: "layer_tensors C 0 (im_layers (si_model im)) = Inr layers"
    and m: "(case si_mtp im of None \<Rightarrow> Inr [] | Some mtp \<Rightarrow> pair_tensors C ''mtp.keys'' (ai_keys mtp) ''mtp.values'' (ai_values mtp)) = Inr mtp"
    and h: "(case si_last_hidden im of None \<Rightarrow> Inr [] | Some hidden \<Rightarrow> bindE (f32_view C hidden) (\<lambda>t. Inr [(''last_hidden'', t)])) = Inr hidden"
    and split: "ts = (''tokens'', tokens) # layers @ mtp @ hidden"
    using assms by (rule entry_tensors_parts)
  have mtp: "map fst mtp = (if si_mtp im = None then [] else [''mtp.keys'', ''mtp.values''])"
    using m by (auto simp: pair_tensors_Inr split: option.splits)
  have hidden: "map fst hidden = (if si_last_hidden im = None then [] else [''last_hidden''])"
    using h by (auto simp: bindE_Inr_iff split: option.splits)
  from layer_tensors_names [OF parts] have names: "distinct (map fst layers)"
    "n \<in> set (map fst layers) \<Longrightarrow> \<exists>i f. n = layer_name i f" for n by blast+
  have fresh: "''tokens'' \<notin> set (map fst layers)" "''mtp.keys'' \<notin> set (map fst layers)"
    "''mtp.values'' \<notin> set (map fst layers)" "''last_hidden'' \<notin> set (map fst layers)"
    using names(2) layer_name_other by metis+
  show "distinct (map fst ts)" "''mtp.keys'' \<in> set (map fst ts) \<longleftrightarrow> si_mtp im \<noteq> None"
    "''last_hidden'' \<in> set (map fst ts) \<longleftrightarrow> si_last_hidden im \<noteq> None"
    unfolding split map_append list.map mtp hidden using names(1) fresh by auto
qed

lemma entry_tensors_read:
  assumes C: "container_ok C" and im: "image_fits kinds im" and ts: "entry_tensors C im = Inr ts"
    and all: "map_of all = map_of ts"
  shows "read_tokens all = Inr (si_tokens im)"
    and "read_layers C all (im_position (si_model im)) 0 kinds = Inr (im_layers (si_model im))"
    and "read_mtp C all (im_position (si_model im)) kinds = Inr (si_mtp im)"
    and "read_hidden C all = Inr (si_last_hidden im)"
proof -
  have dom: "n \<in> set (map fst all) \<longleftrightarrow> n \<in> set (map fst ts)" for n
    using all by (metis dom_map_of_conv_image_fst list.set_map)
  note names = entry_tensors_names [OF ts]
  have "holds (map_of all) ts" unfolding all by (rule holds_map_of [OF names(1)])
  moreover obtain tokens layers mtp hidden where
    parts: "u32_view (si_tokens im) = Inr tokens" "layer_tensors C 0 (im_layers (si_model im)) = Inr layers"
      "(case si_mtp im of None \<Rightarrow> Inr [] | Some mtp \<Rightarrow> pair_tensors C ''mtp.keys'' (ai_keys mtp) ''mtp.values'' (ai_values mtp)) = Inr mtp"
      "(case si_last_hidden im of None \<Rightarrow> Inr [] | Some hidden \<Rightarrow> bindE (f32_view C hidden) (\<lambda>t. Inr [(''last_hidden'', t)])) = Inr hidden"
    and ts_eq: "ts = (''tokens'', tokens) # layers @ mtp @ hidden"
    using ts by (rule entry_tensors_parts)
  ultimately have h: "map_of all ''tokens'' = Some tokens" "holds (map_of all) layers" "holds (map_of all) mtp"
    "holds (map_of all) hidden" by simp_all
  show "read_tokens all = Inr (si_tokens im)" by (rule tokens_read [OF parts(1) h(1)])
  show "read_layers C all (im_position (si_model im)) 0 kinds = Inr (im_layers (si_model im))"
    using im by (intro read_layers_written [OF C _ parts(2) h(2)]) (simp add: image_fits_def Let_def)
  show "read_mtp C all (im_position (si_model im)) kinds = Inr (si_mtp im)"
  proof (cases "si_mtp im")
    case None
    with names dom show ?thesis by (simp add: read_mtp_def)
  next
    case (Some m)
    with parts(3) h(3) obtain t1 t2 where "f32_view C (ai_keys m) = Inr t1" "map_of all ''mtp.keys'' = Some t1"
      "f32_view C (ai_values m) = Inr t2" "map_of all ''mtp.values'' = Some t2"
      by (auto simp: pair_tensors_Inr)
    then have "read_f32 C all ''mtp.keys'' = Inr (ai_keys m)" "read_f32 C all ''mtp.values'' = Inr (ai_values m)"
      by (simp_all add: f32_view_read [OF C])
    with Some names dom im show ?thesis
      by (auto simp: read_mtp_def image_fits_def Let_def bindE_ensure split: option.splits)
  qed
  show "read_hidden C all = Inr (si_last_hidden im)"
  proof (cases "si_last_hidden im")
    case None
    with names dom show ?thesis by (simp add: read_hidden_def)
  next
    case (Some v)
    with parts(4) h(4) obtain t where "f32_view C v = Inr t" "map_of all ''last_hidden'' = Some t"
      by (auto simp: bindE_Inr_iff)
    then have "read_f32 C all ''last_hidden'' = Inr v" by (rule f32_view_read [OF C])
    with Some names dom show ?thesis by (simp add: read_hidden_def)
  qed
qed

lemma entry_metadata_read:
  assumes "map_of md' = map_of (entry_metadata fp q created im)"
    and "im_position (si_model im) \<le> usize_max" "length (im_layers (si_model im)) \<le> usize_max"
  shows "check_identity md' fp' = (if fp' = fp then Inr () else Inl WrongCheckpoint)"
    and "metadata_number md' ''position'' = Inr (im_position (si_model im))"
    and "metadata_number md' ''layer_count'' = Inr (length (im_layers (si_model im)))"
  using assms(2,3)
  by (auto simp: check_identity_def metadata_number_def metadata_value_def assms(1) entry_metadata_def bindE_ensure
      parse_show_usize ensure_def)

text \<open>What a successful write leaves: the entry under its name, nothing under the temporary one.\<close>

lemma write_entry_ok:
  assumes "write_entry C os path im fp q created disk = (disk', Inr bytes)"
  obtains ts data where "entry_tensors C im = Inr ts" "ct_serialize C ts (entry_metadata fp q created im) = Some data"
    "bytes = ct_size C data" "disk' path = Some \<lparr>fl_data = data, fl_modified = os_now os\<rparr>"
    "\<And>p. p \<noteq> path \<Longrightarrow> p \<noteq> with_extension path ''writing'' \<Longrightarrow> disk' p = disk p"
    "with_extension path ''writing'' \<noteq> path \<Longrightarrow> disk' (with_extension path ''writing'') = None"
  using assms
  by (auto simp: write_entry_def Let_def split: sum.splits option.splits write_outcome.splits if_splits)

lemma distinct_entry_metadata: "distinct (map fst (entry_metadata fp q created im))"
  by (simp add: entry_metadata_def)

lemma written_entry_reads:
  assumes C: "container_ok C" and im: "image_fits kinds im"
    and bounds: "im_position (si_model im) \<le> usize_max" "length kinds \<le> usize_max"
    and ts: "entry_tensors C im = Inr ts" "ct_serialize C ts (entry_metadata fp q created im) = Some data"
    and stored: "disk path = Some \<lparr>fl_data = data, fl_modified = m\<rparr>" "os_open os path"
  shows "read_entry C os disk path fp kinds = Inr im"
    and "read_header C os disk path fp = Inr \<lparr>eh_tokens = si_tokens im, eh_position = im_position (si_model im)\<rparr>"
    and "fp' \<noteq> fp \<Longrightarrow> read_entry C os disk path fp' kinds = Inl WrongCheckpoint"
proof -
  have layers: "length (im_layers (si_model im)) = length kinds"
    using im by (auto simp: image_fits_def Let_def dest: list_all2_lengthD)
  from C ts(2) entry_tensors_names(1) [OF ts(1)] distinct_entry_metadata obtain all md where
    all: "ct_deserialize C data = Some all" "map_of all = map_of ts" and
    md: "ct_metadata C data = Some (Some md)" "map_of md = map_of (entry_metadata fp q created im)"
    unfolding container_ok_def by blast
  note read = entry_tensors_read [OF C im ts(1) all(2)]
  note meta = entry_metadata_read [OF md(2) bounds(1)]
  have eta2: "\<lparr>si_tokens = si_tokens im, si_model = si_model im, si_mtp = si_mtp im, si_last_hidden = si_last_hidden im\<rparr> = im"
    by simp
  have eta: "\<lparr>im_layers = im_layers (si_model im), im_position = im_position (si_model im)\<rparr> = si_model im" by simp
  have valid: "image_validate (si_model im) = Inr ()"
  proof -
    have "list_all2 (layer_fits (im_position (si_model im))) kinds (im_layers (si_model im))"
      using im by (simp add: image_fits_def Let_def)
    from layer_fits_valid [OF this] show ?thesis unfolding eta .
  qed
  have len: "length (si_tokens im) = im_position (si_model im)" using im by (simp add: image_fits_def Let_def)
  have opened: "mapped_open os disk path = Inr data" "metadata_map C data = Inr md" "deserialize C data = Inr all"
    using stored all md by (simp_all add: mapped_open_def metadata_map_def deserialize_def)
  show "read_entry C os disk path fp kinds = Inr im"
    using layers bounds(2) by (simp add: read_entry_def opened meta read len valid bindE_ensure eta eta2)
  show "read_header C os disk path fp = Inr \<lparr>eh_tokens = si_tokens im, eh_position = im_position (si_model im)\<rparr>"
    using layers bounds(2) by (simp add: read_header_def opened meta read len bindE_ensure)
  show "read_entry C os disk path fp' kinds = Inl WrongCheckpoint" if "fp' \<noteq> fp"
    using layers bounds(2) that by (simp add: read_entry_def opened meta)
qed

lemma read_layer_fits: "read_layer C ts pos index kind = Inr layer \<Longrightarrow> layer_fits pos kind layer"
  by (auto simp: bindE_Inr_iff read_layer_def layer_fits_def split: layer_kind.splits)

lemma read_layers_fit:
  "read_layers C ts pos index kinds = Inr layers \<Longrightarrow> list_all2 (layer_fits pos) kinds layers"
proof (induction kinds arbitrary: index layers)
  case (Cons kind kinds)
  then show ?case by (auto simp: bindE_Inr_iff dest: read_layer_fits)
qed simp

text \<open>Whatever the file holds, an image that is read fits the model.\<close>

lemma read_entry_fits: "read_entry C os disk path fp kinds = Inr im \<Longrightarrow> image_fits kinds im"
proof -
  assume "read_entry C os disk path fp kinds = Inr im"
  then obtain ts pos tokens layers mtp hidden where
    parts: "length tokens = pos" "read_layers C ts pos 0 kinds = Inr layers" "read_mtp C ts pos kinds = Inr mtp"
    and im: "im = \<lparr>si_tokens = tokens, si_model = \<lparr>im_layers = layers, im_position = pos\<rparr>, si_mtp = mtp, si_last_hidden = hidden\<rparr>"
    unfolding read_entry_def bindE_Inr_iff ensure_Inr by (elim exE conjE) (rule that, assumption+, rule sym, simp only: sum.inject)
  have "case mtp of None \<Rightarrow> True | Some m \<Rightarrow> ai_positions m = pos
      \<and> (\<forall>stride. full_stride kinds = Some stride \<longrightarrow> length (ai_keys m) = pos * stride \<and> length (ai_values m) = pos * stride)"
    using parts(3) by (auto simp: read_mtp_def bindE_Inr_iff split: if_splits option.splits)
  with parts(1) read_layers_fit [OF parts(2)] show "image_fits kinds im" by (simp add: im image_fits_def)
qed

text \<open>The header and the entry of one file hold the same tokens.\<close>

lemma read_header_entry:
  assumes "read_header C os disk path fp = Inr header" "read_entry C os disk path fp kinds = Inr im"
  shows "eh_tokens header = si_tokens im"
  using assms unfolding read_header_def read_entry_def by (auto simp: bindE_Inr_iff)

text \<open>Describing an image never fails: every float and every id takes four bytes.\<close>

lemma f32_view_total: "container_ok C \<Longrightarrow> \<exists>t. f32_view C v = Inr t"
  using bytes_concat(1) [of "ct_f32_bytes C" "ct_f32_of C" v]
  by (simp add: container_ok_def f32_view_def tensor_view_def bindE_ensure)

lemma pair_tensors_total: "container_ok C \<Longrightarrow> \<exists>ts. pair_tensors C n1 v1 n2 v2 = Inr ts"
  using f32_view_total [of C v1] f32_view_total [of C v2] by (auto simp: pair_tensors_Inr)

lemma layer_tensors_total: "container_ok C \<Longrightarrow> \<exists>ts. layer_tensors C index layers = Inr ts"
proof (induction layers arbitrary: index)
  case (Cons layer layers)
  then obtain rest where "layer_tensors C (index + 1) layers = Inr rest" by blast
  moreover obtain ts where "(case layer of
         FullImage st \<Rightarrow> pair_tensors C (layer_name index ''keys'') (ai_keys st) (layer_name index ''values'') (ai_values st)
       | LinearImage st \<Rightarrow> pair_tensors C (layer_name index ''conv'') (dc_conv st) (layer_name index ''recurrent'') (dc_recurrent st)) = Inr ts"
    using pair_tensors_total [OF Cons.prems] by (cases layer) (simp only: layer_image.case, blast)+
  ultimately show ?case by simp
qed simp

lemma entry_tensors_total:
  assumes "container_ok C"
  obtains ts where "entry_tensors C im = Inr ts"
proof -
  obtain tokens where 1: "u32_view (si_tokens im) = Inr tokens"
    using bytes_concat(1) [of u32_to_le u32_from_le "si_tokens im"]
    by (simp add: u32_view_def tensor_view_def bindE_ensure)
  obtain layers where 2: "layer_tensors C 0 (im_layers (si_model im)) = Inr layers"
    using layer_tensors_total [OF assms] by blast
  obtain mtp where 3: "(case si_mtp im of None \<Rightarrow> Inr [] | Some mtp \<Rightarrow> pair_tensors C ''mtp.keys'' (ai_keys mtp) ''mtp.values'' (ai_values mtp)) = Inr mtp"
  proof (cases "si_mtp im")
    case (Some m)
    from pair_tensors_total [OF assms] obtain ts where
      "pair_tensors C ''mtp.keys'' (ai_keys m) ''mtp.values'' (ai_values m) = Inr ts" by blast
    with Some that show thesis by simp
  qed (use that in simp)
  obtain hidden where 4: "(case si_last_hidden im of None \<Rightarrow> Inr [] | Some hidden \<Rightarrow> bindE (f32_view C hidden) (\<lambda>t. Inr [(''last_hidden'', t)])) = Inr hidden"
  proof (cases "si_last_hidden im")
    case (Some v)
    from f32_view_total [OF assms] obtain t where "f32_view C v = Inr t" by blast
    with Some that show thesis by simp
  qed (use that in simp)
  have "entry_tensors C im = Inr ((''tokens'', tokens) # layers @ mtp @ hidden)"
    unfolding entry_tensors_def 1 2 3 4 bindE_simps ..
  then show thesis by (rule that)
qed

section \<open>Properties\<close>

text \<open>
  C23. An entry that was written is read back exactly. After a write that reports success, reading
  the file under the same checkpoint fingerprint gives the image that was written, tokens, layer
  states, predictor cache and carried hidden row; the header alone gives its tokens; the reader
  refuses the file under any other fingerprint; and no other entry of the directory has changed.
\<close>

theorem entry_round_trip:
  assumes "container_ok C" and "image_fits kinds im"
    and "im_position (si_model im) \<le> usize_max" and "length kinds \<le> usize_max"
    and "write_entry C os path im fp quantization created disk = (disk', Inr bytes)" and "os_open os' path"
  shows "read_entry C os' disk' path fp kinds = Inr im
    \<and> read_header C os' disk' path fp = Inr \<lparr>eh_tokens = si_tokens im, eh_position = im_position (si_model im)\<rparr>
    \<and> (\<forall>fp'. fp' = fp \<or> read_entry C os' disk' path fp' kinds = Inl WrongCheckpoint)
    \<and> (\<forall>p. p = path \<or> p = with_extension path ''writing'' \<or> disk' p = disk p)"
proof -
  from assms(5) obtain ts data where w: "entry_tensors C im = Inr ts"
    "ct_serialize C ts (entry_metadata fp quantization created im) = Some data"
    "disk' path = Some \<lparr>fl_data = data, fl_modified = os_now os\<rparr>"
    "\<And>p. p \<noteq> path \<Longrightarrow> p \<noteq> with_extension path ''writing'' \<Longrightarrow> disk' p = disk p"
    by (rule write_entry_ok) blast
  note read = written_entry_reads [where disk = disk' and path = path and os = os', OF assms(1-4) w(1-3) assms(6)]
  show ?thesis using read w(4) by blast
qed

text \<open>A container on the structures themselves, with the float bits as words.\<close>

definition plain_container :: "(u32, tensors \<times> metadata) container" where
  "plain_container = \<lparr>ct_serialize = (\<lambda>ts md. Some (ts, md)), ct_deserialize = (\<lambda>(ts, md). Some ts),
     ct_metadata = (\<lambda>(ts, md). Some (Some md)), ct_size = (\<lambda>_. 4),
     ct_f32_bytes = u32_to_le, ct_f32_of = u32_from_le\<rparr>"

lemma plain_container_ok: "container_ok plain_container"
  by (simp add: container_ok_def plain_container_def)

definition calm_os :: "'b os" where
  "calm_os = \<lparr>os_open = (\<lambda>_. True), os_write = (\<lambda>_. Written), os_stat = (\<lambda>_. True), os_rename = (\<lambda>_. True),
     os_remove = (\<lambda>_. True), os_now = 7\<rparr>"

definition sample_image :: "u32 session_image" where
  "sample_image = \<lparr>si_tokens = [1, 8],
     si_model = \<lparr>im_layers = [LinearImage \<lparr>dc_conv = [5, 6], dc_recurrent = [9]\<rparr>,
       FullImage \<lparr>ai_keys = [1, 2, 3, 4], ai_values = [5, 6, 7, 8], ai_positions = 2\<rparr>], im_position = 2\<rparr>,
     si_mtp = Some \<lparr>ai_keys = [4, 3, 2, 1], ai_values = [8, 7, 6, 5], ai_positions = 2\<rparr>, si_last_hidden = Some [3, 9]\<rparr>"

lemma write_entry_calm:
  assumes "container_ok C" "\<And>ts md. ct_serialize C ts md \<noteq> None"
  obtains disk' bytes where "write_entry C calm_os path im fp quantization created disk = (disk', Inr bytes)"
proof -
  obtain ts where "entry_tensors C im = Inr ts" by (rule entry_tensors_total [OF assms(1)])
  moreover obtain data where "ct_serialize C ts (entry_metadata fp quantization created im) = Some data"
    using assms(2) by fastforce
  ultimately show thesis using that by (simp add: write_entry_def calm_os_def Let_def)
qed

lemma sample_image_fits: "image_fits [LinearKind, FullKind 2] sample_image"
  by (simp add: image_fits_def sample_image_def layer_fits_def full_stride_def)

lemma entry_round_trip_witness:
  "\<exists>disk' bytes. write_entry plain_container calm_os ''m-2-0f.inferq-prompt'' sample_image ''m'' ''q4'' 7 Map.empty = (disk', Inr bytes)
     \<and> read_entry plain_container calm_os disk' ''m-2-0f.inferq-prompt'' ''m'' [LinearKind, FullKind 2] = Inr sample_image
     \<and> read_entry plain_container calm_os disk' ''m-2-0f.inferq-prompt'' ''other'' [LinearKind, FullKind 2] = Inl WrongCheckpoint"
proof -
  obtain disk' bytes where w: "write_entry plain_container calm_os ''m-2-0f.inferq-prompt'' sample_image ''m'' ''q4'' 7 Map.empty = (disk', Inr bytes)"
    by (rule write_entry_calm [OF plain_container_ok]) (simp add: plain_container_def)
  have "os_open calm_os ''m-2-0f.inferq-prompt''" by (simp add: calm_os_def)
  from entry_round_trip [OF plain_container_ok sample_image_fits _ _ w this] w show ?thesis
    by (auto simp: sample_image_def usize_max_def)
qed

text \<open>
  Whatever bytes a file holds, an image read from it has as many tokens as its position, one layer
  image per layer of the right kind, rows of the right width in every full-attention layer and in
  the predictor cache. Nothing is said of the widths of a linear layer: the reader does not check
  them (\<open>restore\<close> does).
\<close>

theorem reader_checks_the_image:
  assumes "read_entry C os disk path fp kinds = Inr im"
  shows "image_fits kinds im \<and> image_validate (si_model im) = Inr ()"
proof -
  have fits: "image_fits kinds im" by (rule read_entry_fits [OF assms])
  have "\<lparr>im_layers = im_layers (si_model im), im_position = im_position (si_model im)\<rparr> = si_model im" by simp
  with fits layer_fits_valid [of "im_position (si_model im)" kinds "im_layers (si_model im)"] show ?thesis
    by (simp add: image_fits_def Let_def)
qed

lemma reader_checks_the_image_witness:
  "\<exists>disk' bytes. write_entry plain_container calm_os ''m-2-0f.inferq-prompt'' sample_image ''m'' ''q4'' 7 Map.empty = (disk', Inr bytes)
     \<and> (\<exists>im. read_entry plain_container calm_os disk' ''m-2-0f.inferq-prompt'' ''m'' [LinearKind, FullKind 2] = Inr im
          \<and> im_position (si_model im) = 2 \<and> image_validate (si_model im) = Inr ())"
proof -
  obtain disk' bytes where w: "write_entry plain_container calm_os ''m-2-0f.inferq-prompt'' sample_image ''m'' ''q4'' 7 Map.empty = (disk', Inr bytes)"
    by (rule write_entry_calm [OF plain_container_ok]) (simp add: plain_container_def)
  from w obtain ts data m where e: "entry_tensors plain_container sample_image = Inr ts"
    "ct_serialize plain_container ts (entry_metadata ''m'' ''q4'' 7 sample_image) = Some data"
    "disk' ''m-2-0f.inferq-prompt'' = Some \<lparr>fl_data = data, fl_modified = m\<rparr>"
    by (rule write_entry_ok) (rule that, assumption+)
  have read: "read_entry plain_container calm_os disk' ''m-2-0f.inferq-prompt'' ''m'' [LinearKind, FullKind 2] = Inr sample_image"
  proof (rule written_entry_reads(1) [where disk = disk' and path = "''m-2-0f.inferq-prompt''", OF plain_container_ok sample_image_fits _ _ e])
    show "im_position (si_model sample_image) \<le> usize_max" by (simp add: sample_image_def usize_max_def)
    show "length [LinearKind, FullKind 2] \<le> usize_max" by (simp add: usize_max_def)
    show "os_open calm_os ''m-2-0f.inferq-prompt''" by (simp add: calm_os_def)
  qed
  have "im_position (si_model sample_image) = 2" by (simp add: sample_image_def)
  with w read reader_checks_the_image [OF read] show ?thesis by blast
qed

end
