(* ===== verification/Prompt_Cache.thy ===== *)
theory Prompt_Cache
  imports Entry_Format "HOL-Library.AList" "HOL-Library.Product_Lexorder" "HOL-Library.List_Lexorder" "HOL-Library.Char_ord"
begin

text \<open>
  The prompt cache (\<open>src/prompt_cache/mod.rs\<close>): boundaries, keys and file names, the index of
  what is on disk, lookup, writing, eviction, the scan of the directory at start, and the one
  writer thread behind a channel of one place.

  The mutex around the index and the relaxed counters make each access one step here; a
  poisoned mutex (a thread that panicked holding it) is not modelled, and neither are the log
  lines. A \<open>HashMap\<close> is an association list with distinct keys.
\<close>

section \<open>Configuration and boundaries\<close>

record cache_config =
  cc_budget_bytes :: nat
  cc_block_tokens :: nat
  cc_min_tokens :: nat

definition DEFAULT_BLOCK_TOKENS :: nat where "DEFAULT_BLOCK_TOKENS = 256"
definition DEFAULT_MIN_TOKENS :: nat where "DEFAULT_MIN_TOKENS = 512"
definition DEFAULT_BUDGET_MIB :: nat where "DEFAULT_BUDGET_MIB = 20 * 1024"

definition config_new :: cache_config where
  "config_new = \<lparr>cc_budget_bytes = DEFAULT_BUDGET_MIB * 1024 * 1024, cc_block_tokens = DEFAULT_BLOCK_TOKENS,
     cc_min_tokens = DEFAULT_MIN_TOKENS\<rparr>"

datatype cache_error = ZeroBlock | MinBelowBlock | CannotList | EntryError entry_error

definition config_validate :: "cache_config \<Rightarrow> cache_error + unit" where
  "config_validate c =
     bindE (ensure (0 < cc_block_tokens c) ZeroBlock) (\<lambda>_.
     ensure (cc_block_tokens c \<le> cc_min_tokens c) MinBelowBlock)"

text \<open>\<open>(0..=highest).rev().step_by(block.max(1))\<close>, filtered.\<close>

definition boundaries :: "nat \<Rightarrow> nat \<Rightarrow> nat \<Rightarrow> nat list" where
  "boundaries len block low =
     (let highest = (if block = 0 then 0 else (len - 1) div block * block);
          stride = max block 1
      in filter (\<lambda>b. low \<le> b \<and> 0 < b) (map (\<lambda>i. highest - i * stride) [0..<highest div stride + 1]))"

definition store_boundary_at :: "nat \<Rightarrow> nat \<Rightarrow> nat option \<Rightarrow> nat \<Rightarrow> nat \<Rightarrow> nat option" where
  "store_boundary_at len reused repeated block low =
     (let ceiling = (case repeated of None \<Rightarrow> len | Some s \<Rightarrow> min s len)
      in find (\<lambda>b. reused < b) (filter (\<lambda>b. b \<le> ceiling) (boundaries len block low)))"

section \<open>Keys and file names\<close>

record entry_key =
  ek_tokens :: nat
  ek_hash :: u64

definition key_of :: "u32 list \<Rightarrow> entry_key" where
  "key_of tokens = \<lparr>ek_tokens = length tokens, ek_hash = fnv1a_tokens tokens\<rparr>"

definition short_fingerprint :: "string \<Rightarrow> string" where
  "short_fingerprint fp = (case rsplit_once fp '':'' of None \<Rightarrow> fp | Some (_, h) \<Rightarrow> h)"

definition hex_digit :: "nat \<Rightarrow> char" where
  "hex_digit n = (if n < 10 then digit n else char_of (87 + n))"

text \<open>The low \<open>k\<close> hexadecimal digits; \<open>{:016x}\<close> of a \<open>u64\<close> has exactly sixteen.\<close>

fun hex_pad :: "nat \<Rightarrow> nat \<Rightarrow> string" where
  "hex_pad 0 n = []"
| "hex_pad (Suc k) n = hex_pad k (n div 16) @ [hex_digit (n mod 16)]"

definition zero_pad :: "nat \<Rightarrow> string \<Rightarrow> string" where
  "zero_pad width s = replicate (width - length s) (CHR ''0'') @ s"

definition file_name :: "string \<Rightarrow> entry_key \<Rightarrow> string" where
  "file_name fp key = short_fingerprint fp @ ''-'' @ zero_pad 8 (show_nat (ek_tokens key)) @ ''-''
     @ hex_pad 16 (unat (ek_hash key)) @ ''.'' @ EXTENSION"

fun split_char :: "char \<Rightarrow> string \<Rightarrow> string list" where
  "split_char c [] = [[]]"
| "split_char c (x # xs) = (if x = c then [] # split_char c xs
     else (case split_char c xs of [] \<Rightarrow> [[x]] | p # ps \<Rightarrow> (x # p) # ps))"

definition hex_value :: "char \<Rightarrow> nat option" where
  "hex_value c = (let n = (of_char c :: nat) in
     if 48 \<le> n \<and> n \<le> 57 then Some (n - 48) else if 97 \<le> n \<and> n \<le> 102 then Some (n - 87)
     else if 65 \<le> n \<and> n \<le> 70 then Some (n - 55) else None)"

fun hex_digits_value :: "nat \<Rightarrow> string \<Rightarrow> nat option" where
  "hex_digits_value acc [] = Some acc"
| "hex_digits_value acc (c # cs) = (case hex_value c of
     None \<Rightarrow> None
   | Some d \<Rightarrow> if acc * 16 + d \<le> usize_max then hex_digits_value (acc * 16 + d) cs else None)"

text \<open>\<open>u64::from_str_radix(_, 16)\<close>.\<close>

definition parse_hex :: "string \<Rightarrow> u64 option" where
  "parse_hex s = (let t = (case s of c # cs \<Rightarrow> if c = CHR ''+'' then cs else s | [] \<Rightarrow> [])
     in if t = [] then None else map_option of_nat (hex_digits_value 0 t))"

definition parse_file_name :: "string \<Rightarrow> string \<Rightarrow> entry_key option" where
  "parse_file_name path fp = (case split_char (CHR ''-'') (fst (split_extension path)) of
      [file_fingerprint, tokens, hash] \<Rightarrow>
        (case (parse_usize tokens, parse_hex hash) of
           (Some n, Some h) \<Rightarrow> if file_fingerprint = short_fingerprint fp then Some \<lparr>ek_tokens = n, ek_hash = h\<rparr> else None
         | _ \<Rightarrow> None)
    | _ \<Rightarrow> None)"

section \<open>The index\<close>

record entry_meta =
  em_path :: string
  em_bytes :: nat
  em_used :: nat

record cache_index =
  ix_entries :: "(entry_key \<times> entry_meta) list"
  ix_foreign :: "entry_meta list"
  ix_bytes :: nat

definition index_default :: cache_index where
  "index_default = \<lparr>ix_entries = [], ix_foreign = [], ix_bytes = 0\<rparr>"

definition index_insert :: "entry_key \<Rightarrow> entry_meta \<Rightarrow> cache_index \<Rightarrow> cache_index" where
  "index_insert key meta ix =
     (let bytes = (case map_of (ix_entries ix) key of None \<Rightarrow> ix_bytes ix | Some previous \<Rightarrow> ix_bytes ix - em_bytes previous)
      in ix\<lparr>ix_entries := AList.update key meta (ix_entries ix), ix_bytes := saturating_add bytes (em_bytes meta)\<rparr>)"

definition index_remove :: "entry_key \<Rightarrow> cache_index \<Rightarrow> cache_index \<times> entry_meta option" where
  "index_remove key ix = (case map_of (ix_entries ix) key of
      None \<Rightarrow> (ix, None)
    | Some meta \<Rightarrow> (ix\<lparr>ix_entries := AList.delete key (ix_entries ix), ix_bytes := ix_bytes ix - em_bytes meta\<rparr>, Some meta))"

record cache_stats =
  st_hits :: u64
  st_misses :: u64
  st_reused_tokens :: u64
  st_writes :: u64
  st_write_skips :: u64
  st_evictions :: u64
  st_failures :: u64

definition stats_default :: cache_stats where
  "stats_default = \<lparr>st_hits = 0, st_misses = 0, st_reused_tokens = 0, st_writes = 0, st_write_skips = 0,
     st_evictions = 0, st_failures = 0\<rparr>"

text \<open>What the cache is built on, and what it changes: the index, the counters and the directory.\<close>

record ('f, 'b) cache_env =
  ce_container :: "('f, 'b) container"
  ce_config :: cache_config
  ce_fingerprint :: string
  ce_quantization :: string
  ce_layer_kinds :: "layer_kind list"

record 'b cache =
  ca_index :: cache_index
  ca_stats :: cache_stats
  ca_disk :: "'b disk"

definition count_stat :: "(cache_stats \<Rightarrow> cache_stats) \<Rightarrow> 'b cache \<Rightarrow> 'b cache" where
  "count_stat f ca = ca\<lparr>ca_stats := f (ca_stats ca)\<rparr>"

text \<open>\<open>fs::remove_file\<close>.\<close>

definition remove_file :: "'b os \<Rightarrow> string \<Rightarrow> 'b disk \<Rightarrow> 'b disk option" where
  "remove_file os path disk = (if disk path \<noteq> None \<and> os_remove os path then Some (disk(path := None)) else None)"

definition discard :: "'b os \<Rightarrow> entry_key \<Rightarrow> string \<Rightarrow> 'b cache \<Rightarrow> 'b cache" where
  "discard os key path ca =
     (let ca1 = count_stat (\<lambda>st. st\<lparr>st_failures := st_failures st + 1\<rparr>) ca;
          disk = (case remove_file os path (ca_disk ca1) of None \<Rightarrow> ca_disk ca1 | Some d \<Rightarrow> d)
      in ca1\<lparr>ca_disk := disk, ca_index := fst (index_remove key (ca_index ca1))\<rparr>)"

section \<open>Eviction\<close>

type_synonym candidate = "nat \<times> entry_key option \<times> string \<times> nat"

definition candidates :: "cache_index \<Rightarrow> entry_key option \<Rightarrow> candidate list" where
  "candidates ix keep = sort_key (\<lambda>(used, _, path, _). (used, path))
     (map (\<lambda>m. (0, None, em_path m, em_bytes m)) (ix_foreign ix)
      @ map (\<lambda>(key, m). (em_used m, Some key, em_path m, em_bytes m)) (filter (\<lambda>(key, m). Some key \<noteq> keep) (ix_entries ix)))"

definition forget :: "entry_key option \<Rightarrow> string \<Rightarrow> nat \<Rightarrow> cache_index \<Rightarrow> cache_index" where
  "forget key path bytes ix = (case key of
      Some k \<Rightarrow> fst (index_remove k ix)
    | None \<Rightarrow> ix\<lparr>ix_foreign := filter (\<lambda>m. em_path m \<noteq> path) (ix_foreign ix), ix_bytes := ix_bytes ix - bytes\<rparr>)"

fun evict_loop :: "'b os \<Rightarrow> nat \<Rightarrow> candidate list \<Rightarrow> 'b cache \<Rightarrow> 'b cache" where
  "evict_loop os budget [] ca = ca"
| "evict_loop os budget ((used, key, path, bytes) # cs) ca =
     (if ix_bytes (ca_index ca) \<le> budget then ca
      else case remove_file os path (ca_disk ca) of
             None \<Rightarrow> evict_loop os budget cs ca
           | Some disk \<Rightarrow>
               evict_loop os budget cs
                 (count_stat (\<lambda>st. st\<lparr>st_evictions := st_evictions st + 1\<rparr>)
                   (ca\<lparr>ca_disk := disk, ca_index := forget key path bytes (ca_index ca)\<rparr>)))"

definition evict :: "('f, 'b) cache_env \<Rightarrow> 'b os \<Rightarrow> entry_key option \<Rightarrow> 'b cache \<Rightarrow> 'b cache" where
  "evict E os keep ca =
     (let budget = cc_budget_bytes (ce_config E)
      in if ix_bytes (ca_index ca) \<le> budget then ca else evict_loop os budget (candidates (ca_index ca) keep) ca)"

section \<open>Writing, looking up\<close>

definition path_for :: "('f, 'b) cache_env \<Rightarrow> entry_key \<Rightarrow> string" where
  "path_for E key = file_name (ce_fingerprint E) key"

definition cache_write :: "('f, 'b) cache_env \<Rightarrow> 'b os \<Rightarrow> 'f session_image \<Rightarrow> 'b cache \<Rightarrow> 'b cache \<times> (cache_error + unit)" where
  "cache_write E os im ca =
     (let key = key_of (si_tokens im);
          path = path_for E key
      in case write_entry (ce_container E) os path im (ce_fingerprint E) (ce_quantization E) (os_now os div 1000000000) (ca_disk ca) of
           (disk, Inl e) \<Rightarrow> (ca\<lparr>ca_disk := disk\<rparr>, Inl (EntryError e))
         | (disk, Inr bytes) \<Rightarrow>
             let ca1 = ca\<lparr>ca_disk := disk,
                   ca_index := index_insert key \<lparr>em_path = path, em_bytes = bytes, em_used = os_now os\<rparr> (ca_index ca)\<rparr>;
                 ca2 = count_stat (\<lambda>st. st\<lparr>st_writes := st_writes st + 1\<rparr>) ca1
             in (evict E os (Some key) ca2, Inr ()))"

definition entry_path :: "entry_key \<Rightarrow> 'b cache \<Rightarrow> string option" where
  "entry_path key ca = map_option em_path (map_of (ix_entries (ca_index ca)) key)"

text \<open>The use is recorded in the index and, as far as possible, in the file's modification time.\<close>

definition touch :: "'b os \<Rightarrow> entry_key \<Rightarrow> string \<Rightarrow> 'b cache \<Rightarrow> 'b cache" where
  "touch os key path ca =
     (let ix = ca_index ca;
          entries = (case map_of (ix_entries ix) key of None \<Rightarrow> ix_entries ix
                     | Some m \<Rightarrow> AList.update key (m\<lparr>em_used := os_now os\<rparr>) (ix_entries ix));
          disk = (case ca_disk ca path of
                    Some f \<Rightarrow> if os_open os path then (ca_disk ca)(path \<mapsto> f\<lparr>fl_modified := os_now os\<rparr>) else ca_disk ca
                  | None \<Rightarrow> ca_disk ca)
      in ca\<lparr>ca_index := ix\<lparr>ix_entries := entries\<rparr>, ca_disk := disk\<rparr>)"

fun lookup_loop :: "('f, 'b) cache_env \<Rightarrow> 'b os \<Rightarrow> u32 list \<Rightarrow> nat \<Rightarrow> nat list \<Rightarrow> 'b cache \<Rightarrow> 'b cache \<times> 'f session_image option" where
  "lookup_loop E os tokens beyond [] ca = (ca, None)"
| "lookup_loop E os tokens beyond (b # bs) ca =
     (if b \<le> beyond then (ca, None)
      else let key = key_of (take b tokens)
           in case entry_path key ca of
                None \<Rightarrow> lookup_loop E os tokens beyond bs ca
              | Some path \<Rightarrow>
                  (case read_header (ce_container E) os (ca_disk ca) path (ce_fingerprint E) of
                     Inl e \<Rightarrow> lookup_loop E os tokens beyond bs (discard os key path ca)
                   | Inr header \<Rightarrow>
                       if eh_tokens header \<noteq> take b tokens then lookup_loop E os tokens beyond bs (discard os key path ca)
                       else case read_entry (ce_container E) os (ca_disk ca) path (ce_fingerprint E) (ce_layer_kinds E) of
                              Inl e \<Rightarrow> lookup_loop E os tokens beyond bs (discard os key path ca)
                            | Inr im \<Rightarrow>
                                (count_stat (\<lambda>st. st\<lparr>st_hits := st_hits st + 1, st_reused_tokens := st_reused_tokens st + of_nat b\<rparr>)
                                   (touch os key path ca), Some im)))"

definition cache_lookup :: "('f, 'b) cache_env \<Rightarrow> 'b os \<Rightarrow> u32 list \<Rightarrow> nat \<Rightarrow> 'b cache \<Rightarrow> 'b cache \<times> 'f session_image option" where
  "cache_lookup E os tokens beyond ca =
     (case lookup_loop E os tokens beyond
             (boundaries (length tokens) (cc_block_tokens (ce_config E)) (cc_min_tokens (ce_config E))) ca of
        (ca', Some im) \<Rightarrow> (ca', Some im)
      | (ca', None) \<Rightarrow> (count_stat (\<lambda>st. st\<lparr>st_misses := st_misses st + 1\<rparr>) ca', None))"

definition cache_store_boundary :: "('f, 'b) cache_env \<Rightarrow> u32 list \<Rightarrow> nat \<Rightarrow> nat option \<Rightarrow> 'b cache \<Rightarrow> nat option" where
  "cache_store_boundary E tokens reused repeated ca =
     (case store_boundary_at (length tokens) reused repeated (cc_block_tokens (ce_config E)) (cc_min_tokens (ce_config E)) of
        None \<Rightarrow> None
      | Some b \<Rightarrow> if entry_path (key_of (take b tokens)) ca = None then Some b else None)"

section \<open>Opening a directory\<close>

text \<open>One directory entry: its metadata may be unreadable, and so may its modification time.\<close>

record dir_entry =
  de_name :: string
  de_metadata :: "(bool \<times> nat \<times> nat option) option"

fun scan :: "'b os \<Rightarrow> string \<Rightarrow> dir_entry list \<Rightarrow> cache_index \<times> 'b disk \<Rightarrow> cache_index \<times> 'b disk" where
  "scan os fp [] s = s"
| "scan os fp (e # es) (ix, disk) =
     (if snd (split_extension (de_name e)) = Some ''writing''
      then scan os fp es (ix, case remove_file os (de_name e) disk of None \<Rightarrow> disk | Some d \<Rightarrow> d)
      else if \<not> is_entry (de_name e) then scan os fp es (ix, disk)
      else case de_metadata e of
             Some (True, bytes, modified) \<Rightarrow>
               let meta = \<lparr>em_path = de_name e, em_bytes = bytes, em_used = (case modified of None \<Rightarrow> 0 | Some t \<Rightarrow> t)\<rparr>;
                   ix1 = ix\<lparr>ix_bytes := saturating_add (ix_bytes ix) bytes\<rparr>
               in scan os fp es
                    ((case parse_file_name (de_name e) fp of
                        Some key \<Rightarrow> ix1\<lparr>ix_entries := AList.update key meta (ix_entries ix1)\<rparr>
                      | None \<Rightarrow> ix1\<lparr>ix_foreign := ix_foreign ix1 @ [meta]\<rparr>), disk)
           | _ \<Rightarrow> scan os fp es (ix, disk))"

definition cache_open :: "('f, 'b) cache_env \<Rightarrow> 'b os \<Rightarrow> dir_entry list option \<Rightarrow> 'b disk \<Rightarrow> cache_error + 'b cache" where
  "cache_open E os listing disk =
     bindE (config_validate (ce_config E)) (\<lambda>_.
     case listing of
       None \<Rightarrow> Inl CannotList
     | Some es \<Rightarrow>
         let (ix, disk') = scan os (ce_fingerprint E) es (index_default, disk)
         in Inr (evict E os None \<lparr>ca_index = ix, ca_stats = stats_default, ca_disk = disk'\<rparr>))"

text \<open>What \<open>/health\<close> and the logs are told.\<close>

record cache_report =
  cr_entries :: nat
  cr_bytes :: nat
  cr_budget_bytes :: nat
  cr_counters :: cache_stats

definition cache_report_of :: "('f, 'b) cache_env \<Rightarrow> 'b cache \<Rightarrow> cache_report" where
  "cache_report_of E ca = \<lparr>cr_entries = length (ix_entries (ca_index ca)), cr_bytes = ix_bytes (ca_index ca),
     cr_budget_bytes = cc_budget_bytes (ce_config E), cr_counters = ca_stats ca\<rparr>"

section \<open>The writer\<close>

text \<open>
  The channel of one place, the image the writer holds, and the count a shutdown waits for. A
  writer step receives an image or finishes the write of the one received.
\<close>

record ('f, 'b) cache_world =
  cw_cache :: "'b cache"
  cw_queue :: "'f session_image option"
  cw_writing :: "'f session_image option"
  cw_outstanding :: nat
  cw_alive :: bool

definition cache_store :: "'f session_image \<Rightarrow> ('f, 'b) cache_world \<Rightarrow> ('f, 'b) cache_world \<times> bool" where
  "cache_store im w =
     (let w1 = w\<lparr>cw_outstanding := cw_outstanding w + 1\<rparr>;
          skip = count_stat (\<lambda>st. st\<lparr>st_write_skips := st_write_skips st + 1\<rparr>) (cw_cache w)
      in if \<not> cw_alive w then (w1\<lparr>cw_cache := skip\<rparr>, False)
         else if cw_queue w = None then (w1\<lparr>cw_queue := Some im\<rparr>, True)
         else (w1\<lparr>cw_outstanding := cw_outstanding w1 - 1, cw_cache := skip\<rparr>, False))"

definition writer_step :: "('f, 'b) cache_env \<Rightarrow> 'b os \<Rightarrow> ('f, 'b) cache_world \<Rightarrow> ('f, 'b) cache_world" where
  "writer_step E os w =
     (if \<not> cw_alive w then w
      else case cw_writing w of
        Some im \<Rightarrow>
          (case cache_write E os im (cw_cache w) of
             (ca, r) \<Rightarrow>
               let ca' = (case r of Inl e \<Rightarrow> count_stat (\<lambda>st. st\<lparr>st_failures := st_failures st + 1\<rparr>) ca | Inr _ \<Rightarrow> ca)
               in w\<lparr>cw_cache := ca', cw_writing := None, cw_outstanding := cw_outstanding w - 1\<rparr>)
      | None \<Rightarrow>
          (case cw_queue w of
             None \<Rightarrow> w
           | Some im \<Rightarrow> w\<lparr>cw_queue := None, cw_writing := Some im\<rparr>))"

text \<open>
  \<open>wait_for_writes\<close>: polls until nothing is outstanding or the deadline has passed; between two
  polls the writer makes the given numbers of steps.
\<close>

fun wait_for_writes :: "('f, 'b) cache_env \<Rightarrow> 'b os \<Rightarrow> nat list \<Rightarrow> ('f, 'b) cache_world \<Rightarrow> ('f, 'b) cache_world \<times> bool" where
  "wait_for_writes E os [] w = (w, cw_outstanding w = 0)"
| "wait_for_writes E os (n # ns) w =
     (if cw_outstanding w = 0 then (w, True)
      else wait_for_writes E os ns ((writer_step E os ^^ n) w))"

end
