(* ===== verification/Cache_Names.thy ===== *)
theory Cache_Names
  imports Prompt_Cache
begin

text \<open>
  The boundaries of the prompt cache as a set and in order, and the file names of its entries:
  a name identifies its key, and the scan of a later process reads the key back.
\<close>

section \<open>Boundaries\<close>

lemma boundaries_eq:
  assumes "0 < block"
  shows "boundaries len block low = filter (\<lambda>b. low \<le> b \<and> 0 < b)
    (map (\<lambda>i. ((len - 1) div block - i) * block) [0..<(len - 1) div block + 1])"
proof -
  have "max block 1 = block" "block \<noteq> 0" using assms by simp_all
  then show ?thesis unfolding boundaries_def Let_def by (simp only: if_False diff_mult_distrib) simp
qed

lemma set_boundaries:
  assumes "0 < block"
  shows "set (boundaries len block low) = {b. 0 < b \<and> b < len \<and> low \<le> b \<and> block dvd b}"
proof (intro set_eqI iffI)
  fix b
  assume "b \<in> set (boundaries len block low)"
  then obtain j where j: "b = j * block" "j \<le> (len - 1) div block" "low \<le> b" "0 < b"
    using assms by (auto simp: boundaries_eq)
  then have "b \<le> (len - 1) div block * block" by simp
  also have "\<dots> \<le> len - 1" by (rule div_times_less_eq_dividend)
  finally have "b < len" using j(4) by linarith
  moreover have "block dvd b" by (simp add: j(1))
  ultimately show "b \<in> {b. 0 < b \<and> b < len \<and> low \<le> b \<and> block dvd b}" using j(3,4) by blast
next
  fix b
  assume "b \<in> {b. 0 < b \<and> b < len \<and> low \<le> b \<and> block dvd b}"
  then have b: "block dvd b" "0 < b" "b \<le> len - 1" "low \<le> b" by auto
  then obtain j where "b = block * j" by (auto elim: dvdE)
  with b have j: "b = j * block" "0 < b" "b \<le> len - 1" "low \<le> b" by simp_all
  have "j \<le> (len - 1) div block" using j(1,3) assms by (simp add: less_eq_div_iff_mult_less_eq)
  then show "b \<in> set (boundaries len block low)"
    using j assms by (auto simp: boundaries_eq image_iff intro!: bexI [of _ "(len - 1) div block - j"])
qed

lemma boundaries_descend: "0 < block \<Longrightarrow> sorted_wrt (>) (boundaries len block low)"
proof -
  assume "0 < block"
  let ?k = "(len - 1) div block"
  have "sorted_wrt (>) (map (\<lambda>i. (?k - i) * block) [0..<?k + 1])"
    unfolding sorted_wrt_map
    by (rule sorted_wrt_mono_rel [OF _ sorted_wrt_upt]) (use \<open>0 < block\<close> in auto)
  then show ?thesis unfolding boundaries_eq [OF \<open>0 < block\<close>] by (rule sorted_wrt_filter)
qed

lemma find_descending:
  assumes "sorted_wrt (>) xs"
  shows "find P xs = Some x \<longleftrightarrow> x \<in> set xs \<and> P x \<and> (\<forall>y \<in> set xs. P y \<longrightarrow> y \<le> (x::nat))"
  using assms by (induction xs) force+

section \<open>Names\<close>

lemma split_char_cons: "c \<notin> set xs \<Longrightarrow> split_char c (xs @ c # ys) = xs # split_char c ys"
proof (induction xs)
  case (Cons x xs)
  then show ?case by (cases "split_char c ys") auto
qed simp

lemma split_char_none: "c \<notin> set xs \<Longrightarrow> split_char c xs = [xs]"
  by (induction xs) auto

lemma str_rfind_single: "c \<notin> set s \<Longrightarrow> str_rfind s [c] = None"
  by (induction s) auto

lemma rsplit_last: "c \<notin> set ys \<Longrightarrow> rsplit_once (xs @ c # ys) [c] = Some (xs, ys)"
proof -
  assume "c \<notin> set ys"
  then have "str_rfind (xs @ c # ys) [c] = Some (length xs)"
    by (induction xs) (simp_all add: str_rfind_single)
  then show ?thesis by (simp add: rsplit_once_def)
qed

lemma split_extension_last:
  "CHR ''.'' \<notin> set ext \<Longrightarrow> stem \<noteq> [] \<Longrightarrow> split_extension (stem @ ''.'' @ ext) = (stem, Some ext)"
  by (simp add: split_extension_def rsplit_last)

lemma hex_value_digit [simp]: "n < 16 \<Longrightarrow> hex_value (hex_digit n) = Some n"
  by (auto simp: hex_value_def hex_digit_def digit_def Let_def)

lemma hex_digits_append:
  "hex_digits_value acc (xs @ ys) = (case hex_digits_value acc xs of None \<Rightarrow> None | Some a \<Rightarrow> hex_digits_value a ys)"
  by (induction xs arbitrary: acc) (simp_all split: option.splits)

lemma hex_digits_pad: "n < 16 ^ k \<Longrightarrow> n \<le> usize_max \<Longrightarrow> hex_digits_value 0 (hex_pad k n) = Some n"
proof (induction k arbitrary: n)
  case (Suc k)
  then have "hex_digits_value 0 (hex_pad k (n div 16)) = Some (n div 16)"
    by (intro Suc.IH) (simp_all add: less_mult_imp_div_less mult.commute)
  with Suc.prems show ?case by (simp add: hex_digits_append)
qed simp

lemma length_hex_pad: "length (hex_pad k n) = k"
  by (induction k arbitrary: n) simp_all

lemma hex_pad_characters: "c \<in> set (hex_pad k n) \<Longrightarrow> hex_value c \<noteq> None"
  by (induction k arbitrary: n) auto

lemma hex_value_other [simp]:
  "hex_value c \<noteq> None \<Longrightarrow> c \<noteq> CHR ''-''" "hex_value c \<noteq> None \<Longrightarrow> c \<noteq> CHR ''+''"
  by (auto simp: hex_value_def)

lemma parse_hex_pad:
  fixes h :: u64
  shows "parse_hex (hex_pad 16 (unat h)) = Some h"
proof -
  have bound: "unat h < 16 ^ 16" "unat h \<le> usize_max" using unsigned_less [of h, where ?'a = nat] by (simp_all add: usize_max_def)
  obtain c cs where cs: "hex_pad 16 (unat h) = c # cs" using length_hex_pad [of 16 "unat h"] by (cases "hex_pad 16 (unat h)") simp_all
  have "c \<noteq> CHR ''+''" by (rule hex_value_other(2) [OF hex_pad_characters [of _ 16 "unat h"]], unfold cs) (rule list.set_intros)
  moreover have "hex_digits_value 0 (c # cs) = Some (unat h)" using hex_digits_pad [OF bound] unfolding cs .
  ultimately show ?thesis unfolding parse_hex_def cs Let_def by (simp del: hex_digits_value.simps)
qed

lemma digits_value_zeros: "digits_value 0 (replicate n (CHR ''0'') @ s) = digits_value 0 s"
proof (induction n)
  case (Suc n)
  have "digit_value (CHR ''0'') = Some 0" by (simp add: digit_value_def)
  with Suc show ?case by simp
qed simp

lemma parse_zero_pad: "n \<le> usize_max \<Longrightarrow> parse_usize (zero_pad width (show_nat n)) = Some n"
  using show_nat_head [of n] digits_value_show [of n] digits_value_zeros [of "width - length (show_nat n)" "show_nat n"]
  by (cases "width - length (show_nat n)"; cases "show_nat n") (auto simp: parse_usize_def zero_pad_def)

lemma zero_pad_characters: "c \<in> set (zero_pad width (show_nat n)) \<Longrightarrow> c \<noteq> CHR ''-''"
  using show_nat_digits [of c n] by (auto simp: zero_pad_def digit_value_def)

lemma extension_characters: "CHR ''.'' \<notin> set EXTENSION"
  by (simp add: EXTENSION_def)

text \<open>A fingerprint whose short form has no dash, as those of checkpoints have.\<close>

definition dashless :: "string \<Rightarrow> bool" where
  "dashless fp \<longleftrightarrow> CHR ''-'' \<notin> set (short_fingerprint fp)"

lemma split_file_name:
  "split_extension (file_name fp key) = (short_fingerprint fp @ ''-'' @ zero_pad 8 (show_nat (ek_tokens key)) @ ''-''
     @ hex_pad 16 (unat (ek_hash key)), Some EXTENSION)"
  using split_extension_last [OF extension_characters, of "short_fingerprint fp @ ''-'' @ zero_pad 8 (show_nat (ek_tokens key)) @ ''-''
     @ hex_pad 16 (unat (ek_hash key))"]
  by (simp add: file_name_def)

lemma parse_file_name_name:
  assumes "dashless fp" "ek_tokens key \<le> usize_max"
  shows "parse_file_name (file_name fp key) fp = Some key"
proof -
  have "split_char (CHR ''-'') (fst (split_extension (file_name fp key)))
      = [short_fingerprint fp, zero_pad 8 (show_nat (ek_tokens key)), hex_pad 16 (unat (ek_hash key))]"
  proof -
    have "CHR ''-'' \<notin> set (short_fingerprint fp)" using assms(1) by (simp add: dashless_def)
    moreover have "CHR ''-'' \<notin> set (zero_pad 8 (show_nat (ek_tokens key)))" using zero_pad_characters by blast
    moreover have "CHR ''-'' \<notin> set (hex_pad 16 (unat (ek_hash key)))" using hex_pad_characters hex_value_other(1) by blast
    ultimately show ?thesis unfolding split_file_name fst_conv append_Cons append_Nil by (simp only: split_char_cons split_char_none simp_thms)
  qed
  then show ?thesis
    using parse_zero_pad [OF assms(2)] by (simp add: parse_file_name_def parse_hex_pad)
qed

lemma file_name_round_trip':
  assumes "dashless fp" "ek_tokens key \<le> usize_max" "ek_tokens key' \<le> usize_max"
  shows "file_name fp key = file_name fp key' \<longleftrightarrow> key = key'"
  using parse_file_name_name [OF assms(1,2)] parse_file_name_name [OF assms(1,3)] by (metis option.inject)

lemma is_entry_file_name: "is_entry (file_name fp key)"
  by (simp add: is_entry_def split_file_name)

lemma with_extension_file_name: "with_extension (file_name fp key) ''writing'' \<noteq> file_name fp key'"
proof
  assume eq: "with_extension (file_name fp key) ''writing'' = file_name fp key'"
  have "split_extension (with_extension (file_name fp key) ''writing'') = (fst (split_extension (file_name fp key)), Some ''writing'')"
    unfolding with_extension_def by (rule split_extension_last) (simp_all add: split_file_name)
  with split_file_name [of fp key'] show False unfolding eq by (simp add: EXTENSION_def)
qed

section \<open>Properties\<close>

text \<open>
  C39. A name identifies its entry. The file name written for a key is an entry's name, and the scan
  of a directory by a later process reads back exactly that key, whatever the token count and the
  hash; so two entries of a checkpoint never share a file.
\<close>

theorem file_name_round_trip:
  assumes "dashless fp" and "ek_tokens key \<le> usize_max" and "ek_tokens key' \<le> usize_max"
  shows "is_entry (file_name fp key) \<and> parse_file_name (file_name fp key) fp = Some key
    \<and> (file_name fp key = file_name fp key' \<longleftrightarrow> key = key')"
  using parse_file_name_name [OF assms(1,2)] parse_file_name_name [OF assms(1,3)] is_entry_file_name
  by (metis option.inject)

lemma file_name_round_trip_witness:
  "file_name ''fnv:00ab'' \<lparr>ek_tokens = 512, ek_hash = 255\<rparr> = ''00ab-00000512-00000000000000ff.inferq-prompt''
   \<and> parse_file_name ''00ab-00000512-00000000000000ff.inferq-prompt'' ''fnv:00ab'' = Some \<lparr>ek_tokens = 512, ek_hash = 255\<rparr>"
proof -
  have name: "file_name ''fnv:00ab'' \<lparr>ek_tokens = 512, ek_hash = 255\<rparr> = ''00ab-00000512-00000000000000ff.inferq-prompt''"
    by code_simp
  have "dashless ''fnv:00ab''" by code_simp
  from file_name_round_trip [OF this, of "\<lparr>ek_tokens = 512, ek_hash = 255\<rparr>" "\<lparr>ek_tokens = 512, ek_hash = 255\<rparr>"]
  show ?thesis by (simp add: name usize_max_def)
qed

text \<open>
  Where a request leaves an entry. A boundary is chosen exactly when one exists that is a
  multiple of the block, at least the minimum, strictly inside the prompt, beyond what was
  reused and within the part a later request repeats; it is then the highest such.
\<close>

theorem store_boundary_is_the_highest:
  assumes "0 < block"
  shows "store_boundary_at len reused repeated block low = Some b \<longleftrightarrow>
    (let ok = (\<lambda>b. 0 < b \<and> b < len \<and> low \<le> b \<and> block dvd b \<and> reused < b \<and> (\<forall>s. repeated = Some s \<longrightarrow> b \<le> s))
     in ok b \<and> (\<forall>b'. ok b' \<longrightarrow> b' \<le> b))"
proof -
  have "sorted_wrt (>) (filter (\<lambda>b. b \<le> c) (boundaries len block low))" for c
    by (rule sorted_wrt_filter [OF boundaries_descend [OF assms]])
  note found = find_descending [OF this]
  show ?thesis
  proof (cases repeated)
    case None
    have eq: "store_boundary_at len reused repeated block low = find (\<lambda>b. reused < b) (filter (\<lambda>b. b \<le> len) (boundaries len block low))"
      by (simp only: store_boundary_at_def Let_def None option.case)
    show ?thesis unfolding eq found by (auto simp: None set_boundaries [OF assms])
  next
    case (Some r)
    have eq: "store_boundary_at len reused repeated block low = find (\<lambda>b. reused < b) (filter (\<lambda>b. b \<le> min r len) (boundaries len block low))"
      by (simp only: store_boundary_at_def Let_def Some option.case)
    show ?thesis unfolding eq found by (auto simp: Some set_boundaries [OF assms])
  qed
qed

lemma store_boundary_is_the_highest_witness:
  "store_boundary_at 1000 256 (Some 700) 256 256 = Some 512 \<and> store_boundary_at 1000 512 (Some 700) 256 256 \<noteq> Some 512"
proof -
  have "b \<le> 512" if "256 dvd b" "b \<le> 700" for b :: nat
    using that by (auto elim!: dvdE)
  then show ?thesis by (simp add: store_boundary_is_the_highest [of 256 1000 256 "Some 700" 256 512]
      store_boundary_is_the_highest [of 256 1000 512 "Some 700" 256 512] Let_def)
qed

end
