(* ===== verification/Cache_Evict.thy ===== *)
theory Cache_Evict
  imports Cache_Names "HOL-Library.Multiset"
begin

text \<open>
  The accounting of the index and what eviction does to it: the least recently used removable
  files go first, only while the directory is over its budget, and never the entry just written.
\<close>

section \<open>Accounting\<close>

definition entry_bytes :: "cache_index \<Rightarrow> nat" where
  "entry_bytes ix = sum_list (map (em_bytes \<circ> snd) (ix_entries ix)) + sum_list (map em_bytes (ix_foreign ix))"

definition index_ok :: "string \<Rightarrow> cache_index \<Rightarrow> bool" where
  "index_ok fp ix \<longleftrightarrow> dashless fp \<and> distinct (map fst (ix_entries ix)) \<and> distinct (map em_path (ix_foreign ix))
     \<and> (\<forall>(k, m) \<in> set (ix_entries ix). ek_tokens k \<le> usize_max \<and> em_path m = file_name fp k)
     \<and> (\<forall>m \<in> set (ix_foreign ix). parse_file_name (em_path m) fp = None)
     \<and> ix_bytes ix = entry_bytes ix \<and> entry_bytes ix \<le> usize_max"

lemma sum_update:
  "distinct (map fst al) \<Longrightarrow> sum_list (map (f \<circ> snd) (AList.update k v al)) + (case map_of al k of None \<Rightarrow> 0 | Some p \<Rightarrow> f p)
     = sum_list (map (f \<circ> snd) al) + (f v :: nat)"
  by (induction al) auto

lemma delete_absent: "k \<notin> fst ` set al \<Longrightarrow> AList.delete k al = al"
  by (induction al) (auto simp: AList.delete_eq)

lemma sum_delete:
  "distinct (map fst al) \<Longrightarrow> sum_list (map (f \<circ> snd) (AList.delete k al)) + (case map_of al k of None \<Rightarrow> 0 | Some p \<Rightarrow> f p)
     = sum_list (map (f \<circ> snd) al :: nat list)"
  by (induction al) (auto simp: delete_absent)

lemma set_delete: "set (AList.delete k al) = {(k', v) \<in> set al. k' \<noteq> k}"
  by (auto simp: AList.delete_eq)

lemma set_update_subset: "set (AList.update k v al) \<subseteq> insert (k, v) (set al)"
  by (induction al) auto

lemma index_default_ok: "dashless fp \<Longrightarrow> index_ok fp index_default"
  by (simp add: index_ok_def index_default_def entry_bytes_def)

lemma index_insert_ok:
  assumes "index_ok fp ix" and "ek_tokens key \<le> usize_max" and "em_path meta = file_name fp key"
    and "entry_bytes ix + em_bytes meta \<le> usize_max"
  shows "index_ok fp (index_insert key meta ix)"
    and "map_of (ix_entries (index_insert key meta ix)) = (map_of (ix_entries ix))(key \<mapsto> meta)"
proof -
  let ?old = "case map_of (ix_entries ix) key of None \<Rightarrow> 0 | Some p \<Rightarrow> em_bytes p"
  have dist: "distinct (map fst (ix_entries ix))" using assms(1) by (simp add: index_ok_def)
  from sum_update [OF dist, of em_bytes key meta] have sum: "sum_list (map (em_bytes \<circ> snd) (AList.update key meta (ix_entries ix))) + ?old
      = sum_list (map (em_bytes \<circ> snd) (ix_entries ix)) + em_bytes meta" .
  have le: "?old \<le> sum_list (map (em_bytes \<circ> snd) (ix_entries ix))"
    using sum_delete [OF dist, of em_bytes key] by simp
  have bytes: "ix_bytes (index_insert key meta ix) = saturating_add (ix_bytes ix - ?old) (em_bytes meta)"
    by (simp add: index_insert_def Let_def split: option.split)
  have new: "entry_bytes (index_insert key meta ix) + ?old = entry_bytes ix + em_bytes meta"
    using sum by (simp add: entry_bytes_def index_insert_def Let_def)
  have same: "ix_bytes ix = entry_bytes ix" "?old \<le> entry_bytes ix" using assms(1) le by (simp_all add: index_ok_def entry_bytes_def)
  have "ix_bytes (index_insert key meta ix) = entry_bytes (index_insert key meta ix)"
    using bytes new assms(4) same by (simp add: saturating_add_def)
  moreover have "entry_bytes (index_insert key meta ix) \<le> usize_max" using new assms(4) same(2) by linarith
  moreover have "set (AList.update key meta (ix_entries ix)) \<subseteq> insert (key, meta) (set (ix_entries ix))" by (rule set_update_subset)
  ultimately show "index_ok fp (index_insert key meta ix)"
    using assms(1-3) distinct_update [OF dist] by (auto simp: index_ok_def index_insert_def Let_def)
  show "map_of (ix_entries (index_insert key meta ix)) = (map_of (ix_entries ix))(key \<mapsto> meta)"
    by (simp add: index_insert_def Let_def update_conv')
qed

lemma index_remove_ok:
  assumes "index_ok fp ix"
  shows "index_ok fp (fst (index_remove key ix))"
    and "ix_entries (fst (index_remove key ix)) = AList.delete key (ix_entries ix)"
    and "ix_foreign (fst (index_remove key ix)) = ix_foreign ix"
    and "ix_bytes (fst (index_remove key ix)) + (case map_of (ix_entries ix) key of None \<Rightarrow> 0 | Some p \<Rightarrow> em_bytes p) = ix_bytes ix"
proof -
  have dist: "distinct (map fst (ix_entries ix))" using assms by (simp add: index_ok_def)
  note sum = sum_delete [OF dist, of em_bytes key]
  have absent: "AList.delete key (ix_entries ix) = ix_entries ix" if "map_of (ix_entries ix) key = None"
    using that by (simp add: delete_absent map_of_eq_None_iff)
  show 1: "ix_entries (fst (index_remove key ix)) = AList.delete key (ix_entries ix)"
    using absent by (simp add: index_remove_def split: option.split)
  show 2: "ix_foreign (fst (index_remove key ix)) = ix_foreign ix"
    by (simp add: index_remove_def split: option.split)
  show 3: "ix_bytes (fst (index_remove key ix)) + (case map_of (ix_entries ix) key of None \<Rightarrow> 0 | Some p \<Rightarrow> em_bytes p) = ix_bytes ix"
    using sum assms by (auto simp: index_remove_def index_ok_def entry_bytes_def split: option.split)
  have "entry_bytes (fst (index_remove key ix)) + (case map_of (ix_entries ix) key of None \<Rightarrow> 0 | Some p \<Rightarrow> em_bytes p) = entry_bytes ix"
    using sum by (simp add: entry_bytes_def 1 2)
  with 3 assms show "index_ok fp (fst (index_remove key ix))"
    by (auto simp: index_ok_def 1 2 set_delete distinct_delete)
qed

section \<open>One eviction\<close>

lemma mem_candidates:
  "(used, key, path, bytes) \<in> set (candidates ix keep) \<longleftrightarrow>
    (key = None \<and> used = 0 \<and> (\<exists>m \<in> set (ix_foreign ix). path = em_path m \<and> bytes = em_bytes m))
    \<or> (\<exists>k m. key = Some k \<and> (k, m) \<in> set (ix_entries ix) \<and> Some k \<noteq> keep \<and> used = em_used m \<and> path = em_path m \<and> bytes = em_bytes m)"
  by (auto simp: candidates_def)

lemma candidate_paths:
  assumes "index_ok fp ix"
  shows "distinct (map (\<lambda>(used, key, path, bytes). path) (candidates ix keep))"
proof -
  let ?own = "filter (\<lambda>(key, m). Some key \<noteq> keep) (ix_entries ix)"
  have keys: "distinct (map fst ?own)" using assms by (simp add: index_ok_def distinct_map_filter)
  have "inj_on (em_path \<circ> snd) (set ?own)"
  proof (rule inj_onI)
    fix x y
    assume x: "x \<in> set ?own" and y: "y \<in> set ?own" and eq: "(em_path \<circ> snd) x = (em_path \<circ> snd) y"
    obtain k m where xm: "x = (k, m)" by (rule prod.exhaust)
    obtain l n where yn: "y = (l, n)" by (rule prod.exhaust)
    have k: "ek_tokens k \<le> usize_max" "em_path m = file_name fp k" "dashless fp" "(k, m) \<in> set ?own"
      using assms x xm by (auto simp: index_ok_def)
    have l: "ek_tokens l \<le> usize_max" "em_path n = file_name fp l" "(l, n) \<in> set ?own"
      using assms y yn by (auto simp: index_ok_def)
    have names: "file_name fp k = file_name fp l" using eq k(2) l(2) by (simp add: xm yn)
    have "k = l"
      using parse_file_name_name [OF k(3,1)] unfolding names parse_file_name_name [OF k(3) l(1)] by simp
    with keys k(4) l(3) xm yn show "x = y" by (metis eq_key_imp_eq_value)
  qed
  moreover have "distinct ?own" using keys by (simp only: distinct_map)
  ultimately have own: "distinct (map (em_path \<circ> snd) ?own)" by (simp add: distinct_map)
  have apart: "em_path m \<noteq> em_path (snd e)" if "m \<in> set (ix_foreign ix)" "e \<in> set ?own" for m e
  proof
    assume eq: "em_path m = em_path (snd e)"
    obtain k n where e: "e = (k, n)" by (rule prod.exhaust)
    have "parse_file_name (em_path n) fp = Some k"
      using that(2) assms parse_file_name_name by (auto simp: index_ok_def e)
    moreover have "parse_file_name (em_path m) fp = None" using that(1) assms by (simp add: index_ok_def)
    ultimately show False using eq by (simp add: e)
  qed
  let ?all = "map (\<lambda>m. (0::nat, None :: entry_key option, em_path m, em_bytes m)) (ix_foreign ix)
        @ map (\<lambda>(key, m). (em_used m, Some key, em_path m, em_bytes m)) ?own"
  have paths: "map (\<lambda>(used, key, path, bytes). path) ?all = map em_path (ix_foreign ix) @ map (em_path \<circ> snd) ?own"
    by (simp add: comp_def case_prod_unfold)
  have "set (map em_path (ix_foreign ix)) \<inter> set (map (em_path \<circ> snd) ?own) = {}"
    using apart unfolding set_map comp_def by blast
  moreover have "distinct (map em_path (ix_foreign ix))" using assms by (simp add: index_ok_def)
  ultimately have all: "distinct (map (\<lambda>(used, key, path, bytes). path) ?all)"
    unfolding paths distinct_append using own by blast
  have "mset (map (\<lambda>(used, key, path, bytes). path) (candidates ix keep)) = mset (map (\<lambda>(used, key, path, bytes). path) ?all)"
    unfolding candidates_def mset_map mset_sort ..
  from mset_eq_imp_distinct_iff [OF this] all show ?thesis by blast
qed

lemma forget_ok:
  assumes ok: "index_ok fp ix" and mem: "(used, key, path, bytes) \<in> set (candidates ix keep)"
  shows "index_ok fp (forget key path bytes ix)"
    and "set (candidates (forget key path bytes ix) keep) = set (candidates ix keep) - {(used, key, path, bytes)}"
    and "ix_bytes (forget key path bytes ix) + bytes = ix_bytes ix"
    and "keep = Some k \<Longrightarrow> map_of (ix_entries (forget key path bytes ix)) k = map_of (ix_entries ix) k"
proof -
  have dist: "distinct (map fst (ix_entries ix))" "distinct (map em_path (ix_foreign ix))" using ok by (simp_all add: index_ok_def)
  have all: "index_ok fp (forget key path bytes ix)
    \<and> set (candidates (forget key path bytes ix) keep) = set (candidates ix keep) - {(used, key, path, bytes)}
    \<and> ix_bytes (forget key path bytes ix) + bytes = ix_bytes ix
    \<and> (keep = Some k \<longrightarrow> map_of (ix_entries (forget key path bytes ix)) k = map_of (ix_entries ix) k)"
    for k
  proof (cases key)
    case (Some l)
    with mem obtain m where m: "(l, m) \<in> set (ix_entries ix)" "Some l \<noteq> keep" "used = em_used m" "path = em_path m" "bytes = em_bytes m"
      by (auto simp: mem_candidates)
    note rem = index_remove_ok [OF ok, of l]
    have of_l: "map_of (ix_entries ix) l = Some m" using m(1) dist(1) by simp
    have "set (candidates (forget key path bytes ix) keep) = set (candidates ix keep) - {(used, key, path, bytes)}"
    proof (intro set_eqI)
      fix c :: candidate
      obtain u k' p b where c: "c = (u, k', p, b)" by (cases c) auto
      show "c \<in> set (candidates (forget key path bytes ix) keep) \<longleftrightarrow> c \<in> set (candidates ix keep) - {(used, key, path, bytes)}"
      proof (cases k')
        case None
        then show ?thesis using Some by (simp add: c mem_candidates forget_def rem(2,3))
      next
        case k': (Some n)
        have uniq: "m' = m" if "(l, m') \<in> set (ix_entries ix)" for m' using that of_l dist(1) by simp
        show ?thesis
        proof (cases "n = l")
          case True
          have "c \<notin> set (candidates (forget key path bytes ix) keep)"
            by (simp add: c k' True Some mem_candidates forget_def rem(2,3) set_delete)
          moreover have "c = (used, key, path, bytes)" if "c \<in> set (candidates ix keep)"
          proof -
            from that obtain m' where "(l, m') \<in> set (ix_entries ix)" "u = em_used m'" "p = em_path m'" "b = em_bytes m'"
              by (auto simp: c k' True mem_candidates)
            with uniq m(3-5) show ?thesis by (simp add: c k' True Some)
          qed
          ultimately show ?thesis by blast
        next
          case False
          with Some k' show ?thesis by (simp add: c mem_candidates forget_def rem(2,3) set_delete)
        qed
      qed
    qed
    moreover have "map_of (ix_entries (forget key path bytes ix)) k = map_of (ix_entries ix) k" if "keep = Some k"
      using that m(2) Some by (auto simp: forget_def rem(2) delete_conv')
    ultimately show ?thesis using rem(1,4) of_l Some m(5) by (simp add: forget_def)
  next
    case None
    with mem obtain m where m: "m \<in> set (ix_foreign ix)" "used = 0" "path = em_path m" "bytes = em_bytes m"
      by (auto simp: mem_candidates)
    have sum: "sum_list (map em_bytes (filter (\<lambda>x. em_path x \<noteq> em_path m) fs)) + em_bytes m = sum_list (map em_bytes fs)"
      if "distinct (map em_path fs)" "m \<in> set fs" for fs
      using that
    proof (induction fs)
      case (Cons f fs)
      show ?case
      proof (cases "f = m")
        case True
        with Cons.prems(1) have "filter (\<lambda>x. em_path x \<noteq> em_path m) fs = fs" by (intro filter_True ballI) (metis distinct.simps(2) image_eqI list.set_map list.simps(9))
        with True show ?thesis by simp
      next
        case False
        with Cons show ?thesis by (auto simp: image_iff)
      qed
    qed simp
    let ?ix = "forget key path bytes ix"
    have ix: "ix_entries ?ix = ix_entries ix" "ix_foreign ?ix = filter (\<lambda>x. em_path x \<noteq> em_path m) (ix_foreign ix)"
      "ix_bytes ?ix = ix_bytes ix - em_bytes m"
      using None m by (simp_all add: forget_def)
    have eb: "entry_bytes ?ix + em_bytes m = entry_bytes ix" using sum [OF dist(2) m(1)] by (simp add: entry_bytes_def ix)
    have "set (candidates ?ix keep) = set (candidates ix keep) - {(used, key, path, bytes)}"
    proof (intro set_eqI)
      fix c :: candidate
      obtain u k' p b where c: "c = (u, k', p, b)" by (cases c) auto
      have "x = m" if "x \<in> set (ix_foreign ix)" "em_path x = em_path m" for x
        using that m(1) dist(2) by (metis distinct_map inj_on_def)
      note uniq = this
      have "c \<in> set (candidates ?ix keep) \<longleftrightarrow>
          (k' = None \<and> u = 0 \<and> (\<exists>x \<in> set (ix_foreign ix). em_path x \<noteq> em_path m \<and> p = em_path x \<and> b = em_bytes x))
          \<or> (\<exists>k x. k' = Some k \<and> (k, x) \<in> set (ix_entries ix) \<and> Some k \<noteq> keep \<and> u = em_used x \<and> p = em_path x \<and> b = em_bytes x)"
        unfolding c mem_candidates ix by auto
      also have "\<dots> \<longleftrightarrow> c \<in> set (candidates ix keep) - {(used, key, path, bytes)}"
      proof (cases k')
        case k': None
        show ?thesis using uniq m None k' by (auto simp: c mem_candidates)
      next
        case (Some k)
        then show ?thesis using None by (simp add: c mem_candidates)
      qed
      finally show "c \<in> set (candidates ?ix keep) \<longleftrightarrow> c \<in> set (candidates ix keep) - {(used, key, path, bytes)}" .
    qed
    moreover have "index_ok fp ?ix" using ok eb by (auto simp: index_ok_def ix distinct_map_filter)
    ultimately show ?thesis using ok eb ix m(4) by (simp add: index_ok_def)
  qed
  show "index_ok fp (forget key path bytes ix)"
    "set (candidates (forget key path bytes ix) keep) = set (candidates ix keep) - {(used, key, path, bytes)}"
    "ix_bytes (forget key path bytes ix) + bytes = ix_bytes ix"
    "keep = Some k \<Longrightarrow> map_of (ix_entries (forget key path bytes ix)) k = map_of (ix_entries ix) k"
    using all by blast+
qed

section \<open>The loop\<close>

definition cand_path :: "candidate \<Rightarrow> string" where
  "cand_path = (\<lambda>(used, key, path, bytes). path)"

definition cand_used :: "candidate \<Rightarrow> nat" where
  "cand_used = (\<lambda>(used, key, path, bytes). used)"

definition removable :: "'b os \<Rightarrow> 'b disk \<Rightarrow> candidate \<Rightarrow> bool" where
  "removable os disk c \<longleftrightarrow> disk (cand_path c) \<noteq> None \<and> os_remove os (cand_path c)"

definition cand_bytes :: "candidate \<Rightarrow> nat" where
  "cand_bytes = (\<lambda>(used, key, path, bytes). bytes)"

text \<open>
  What the loop did: it removed the removable ones \<open>gone\<close> of the first \<open>n\<close> candidates, stopping
  as soon as the rest fits.
\<close>

definition evicted :: "string \<Rightarrow> nat \<Rightarrow> entry_key option \<Rightarrow> bool \<Rightarrow> candidate list \<Rightarrow> 'b cache \<Rightarrow> 'b cache \<Rightarrow> bool" where
  "evicted fp budget keep stopped gone ca ca' \<longleftrightarrow>
    index_ok fp (ca_index ca')
    \<and> set (candidates (ca_index ca') keep) = set (candidates (ca_index ca) keep) - set gone
    \<and> ix_bytes (ca_index ca') + sum_list (map cand_bytes gone) = ix_bytes (ca_index ca)
    \<and> (stopped \<longrightarrow> ix_bytes (ca_index ca') \<le> budget)
    \<and> (\<forall>k. keep = Some k \<longrightarrow> map_of (ix_entries (ca_index ca')) k = map_of (ix_entries (ca_index ca)) k)
    \<and> ca_disk ca' = (\<lambda>p. if p \<in> cand_path ` set gone then None else ca_disk ca p)
    \<and> (gone \<noteq> [] \<longrightarrow> budget < ix_bytes (ca_index ca') + cand_bytes (last gone))"

lemma evict_loop_spec:
  assumes "index_ok fp (ca_index ca)" and "set cs \<subseteq> set (candidates (ca_index ca) keep)" and "distinct (map cand_path cs)"
  shows "\<exists>n \<le> length cs. evicted fp budget keep (n < length cs) (filter (removable os (ca_disk ca)) (take n cs)) ca
    (evict_loop os budget cs ca)"
  using assms
proof (induction cs arbitrary: ca)
  case Nil
  then show ?case by (simp add: evicted_def)
next
  case (Cons c cs)
  obtain used key path bytes where c: "c = (used, key, path, bytes)" by (cases c) auto
  show ?case
  proof (cases "ix_bytes (ca_index ca) \<le> budget")
    case True
    then show ?thesis using Cons.prems by (intro exI [of _ 0]) (simp add: c evicted_def)
  next
    case over: False
    show ?thesis
    proof (cases "remove_file os path (ca_disk ca)")
      case None
      then have not: "\<not> removable os (ca_disk ca) c" by (simp add: remove_file_def removable_def cand_path_def c split: if_splits)
      have step: "evict_loop os budget (c # cs) ca = evict_loop os budget cs ca" using over None by (simp add: c)
      have "set cs \<subseteq> set (candidates (ca_index ca) keep)" "distinct (map cand_path cs)" using Cons.prems by simp_all
      from Cons.IH [OF Cons.prems(1) this] obtain n where "n \<le> length cs"
        "evicted fp budget keep (n < length cs) (filter (removable os (ca_disk ca)) (take n cs)) ca (evict_loop os budget cs ca)"
        by blast
      with not show ?thesis unfolding step by (intro exI [of _ "Suc n"]) simp
    next
      case (Some disk)
      then have yes: "removable os (ca_disk ca) c" and disk: "disk = (ca_disk ca)(path := None)"
        by (simp_all add: remove_file_def removable_def cand_path_def c split: if_splits)
      let ?ca = "count_stat (\<lambda>st. st\<lparr>st_evictions := st_evictions st + 1\<rparr>)
                   (ca\<lparr>ca_disk := disk, ca_index := forget key path bytes (ca_index ca)\<rparr>)"
      have step: "evict_loop os budget (c # cs) ca = evict_loop os budget cs ?ca" using over Some by (simp add: c)
      have sel: "ca_index ?ca = forget key path bytes (ca_index ca)" "ca_disk ?ca = disk" by (simp_all add: count_stat_def)
      have mem: "(used, key, path, bytes) \<in> set (candidates (ca_index ca) keep)" using Cons.prems(2) by (simp add: c)
      note f = forget_ok [OF Cons.prems(1) mem]
      have outside: "cand_path c \<notin> cand_path ` set cs" "distinct (map cand_path cs)" using Cons.prems(3) by simp_all
      have "cand_path c = path" by (simp add: cand_path_def c)
      with outside have fresh: "path \<notin> cand_path ` set cs" "distinct (map cand_path cs)" "c \<notin> set cs" by auto
      have "set cs \<subseteq> set (candidates (ca_index ?ca) keep)"
        using Cons.prems(2) fresh(3) by (auto simp: sel(1) f(2) c)
      from Cons.IH [OF _ this fresh(2)] f(1) obtain n where n: "n \<le> length cs"
        and ih: "evicted fp budget keep (n < length cs) (filter (removable os disk) (take n cs)) ?ca (evict_loop os budget cs ?ca)"
        unfolding sel by blast
      have "removable os disk x = removable os (ca_disk ca) x" if "x \<in> set (take n cs)" for x
        using that fresh(1) in_set_takeD [of x n cs] by (force simp: removable_def disk)
      then have same: "filter (removable os disk) (take n cs) = filter (removable os (ca_disk ca)) (take n cs)"
        by (rule filter_cong [OF refl])
      let ?g = "filter (removable os (ca_disk ca)) (take n cs)" and ?ca' = "evict_loop os budget cs ?ca"
      note ih = ih [unfolded same evicted_def sel f(2)]
      have bytes: "ix_bytes (forget key path bytes (ca_index ca)) + bytes = ix_bytes (ca_index ca)" by (rule f(3))
      have total: "ix_bytes (ca_index ?ca') + sum_list (map cand_bytes (c # ?g)) = ix_bytes (ca_index ca)"
        using ih bytes by (simp add: cand_bytes_def c)
      have last_ok: "budget < ix_bytes (ca_index ?ca') + cand_bytes (last (c # ?g))"
      proof (cases "?g = []")
        case True
        with total over show ?thesis by (simp only: list.map sum_list.Cons sum_list.Nil last.simps if_True) simp
      qed (use ih in simp)
      have d: "ca_disk ?ca' = (\<lambda>p. if p \<in> cand_path ` set (c # ?g) then None else ca_disk ca p)"
        using ih by (auto simp: disk cand_path_def c)
      have s: "set (candidates (ca_index ?ca') keep) = set (candidates (ca_index ca) keep) - set (c # ?g)"
        using ih by (auto simp: c)
      have k: "\<forall>k. keep = Some k \<longrightarrow> map_of (ix_entries (ca_index ?ca')) k = map_of (ix_entries (ca_index ca)) k"
        using ih f(4) by simp
      have g: "filter (removable os (ca_disk ca)) (take (Suc n) (c # cs)) = c # ?g" using yes by simp
      have "evicted fp budget keep (Suc n < length (c # cs)) (c # ?g) ca ?ca'"
        unfolding evicted_def using ih total last_ok d s k by (simp del: sum_list.Cons list.map)
      with n show ?thesis unfolding step by (intro exI [of _ "Suc n"]) (simp only: g length_Cons Suc_le_mono simp_thms)
    qed
  qed
qed

lemma evict_spec:
  assumes "index_ok fp (ca_index ca)"
  obtains n where "let cs = candidates (ca_index ca) keep; budget = cc_budget_bytes (ce_config E) in
    n \<le> length cs \<and> evicted fp budget keep (n < length cs \<or> ix_bytes (ca_index ca) \<le> budget)
      (filter (removable os (ca_disk ca)) (take n cs)) ca (evict E os keep ca)"
proof (cases "ix_bytes (ca_index ca) \<le> cc_budget_bytes (ce_config E)")
  case True
  with assms that [of 0] show thesis by (simp add: evict_def evicted_def)
next
  case False
  have "distinct (map cand_path (candidates (ca_index ca) keep))"
    using candidate_paths [OF assms] by (simp add: cand_path_def)
  from evict_loop_spec [OF assms order_refl this] False that show thesis
    by (auto simp: evict_def Let_def)
qed

lemma candidates_sorted:
  "sorted (map (\<lambda>c. (cand_used c, cand_path c)) (candidates ix keep))"
proof -
  have "(\<lambda>c. (cand_used c, cand_path c)) = (\<lambda>(used, _, path, _). (used, path))"
    by (auto simp: cand_used_def cand_path_def)
  then show ?thesis by (simp add: candidates_def)
qed

section \<open>Properties\<close>

text \<open>
  C25. Eviction removes the least recently used entries, and no more than it must. It leaves the
  accounting of the index exact; it never touches the entry to keep; the directory fits its
  budget afterwards unless every other file left cannot be removed; what it removed was used no
  later than any removable file it left (files of other checkpoints first); the last file it
  removed was still needed to fit; and only the removed files are gone from the disk.
\<close>

theorem eviction_is_least_recently_used:
  assumes "index_ok fp (ca_index ca)"
  shows "\<exists>gone. let ca' = evict E os keep ca; budget = cc_budget_bytes (ce_config E) in
    index_ok fp (ca_index ca')
    \<and> set gone \<subseteq> set (candidates (ca_index ca) keep) \<and> set (candidates (ca_index ca') keep) = set (candidates (ca_index ca) keep) - set gone
    \<and> (\<forall>k. keep = Some k \<longrightarrow> map_of (ix_entries (ca_index ca')) k = map_of (ix_entries (ca_index ca)) k)
    \<and> (ix_bytes (ca_index ca') \<le> budget \<or> (\<forall>c \<in> set (candidates (ca_index ca') keep). \<not> removable os (ca_disk ca) c))
    \<and> (\<forall>r \<in> set gone. \<forall>c \<in> set (candidates (ca_index ca') keep). removable os (ca_disk ca) c \<longrightarrow> cand_used r \<le> cand_used c)
    \<and> (gone \<noteq> [] \<longrightarrow> budget < ix_bytes (ca_index ca') + cand_bytes (last gone))
    \<and> ca_disk ca' = (\<lambda>p. if p \<in> cand_path ` set gone then None else ca_disk ca p)"
proof -
  let ?cs = "candidates (ca_index ca) keep" and ?budget = "cc_budget_bytes (ce_config E)"
  from evict_spec [OF assms, of keep E os] obtain n where n: "n \<le> length ?cs"
    and ev: "evicted fp ?budget keep (n < length ?cs \<or> ix_bytes (ca_index ca) \<le> ?budget)
      (filter (removable os (ca_disk ca)) (take n ?cs)) ca (evict E os keep ca)" (is "evicted _ _ _ _ ?gone _ ?ca'")
    unfolding Let_def by blast
  note ev = ev [unfolded evicted_def]
  have split: "set ?cs = set (take n ?cs) \<union> set (drop n ?cs)" by (metis append_take_drop_id set_append)
  have left: "c \<in> set (drop n ?cs)" if "c \<in> set (candidates (ca_index ?ca') keep)" "removable os (ca_disk ca) c" for c
    using that ev split by auto
  have "ix_bytes (ca_index ?ca') \<le> ?budget \<or> (\<forall>c \<in> set (candidates (ca_index ?ca') keep). \<not> removable os (ca_disk ca) c)"
  proof (cases "n < length ?cs")
    case False
    then show ?thesis using left by fastforce
  qed (use ev in simp)
  moreover have "cand_used r \<le> cand_used c"
    if "r \<in> set ?gone" "c \<in> set (candidates (ca_index ?ca') keep)" "removable os (ca_disk ca) c" for r c
  proof -
    have "sorted (map (\<lambda>c. (cand_used c, cand_path c)) (take n ?cs @ drop n ?cs))"
      using candidates_sorted [of "ca_index ca" keep] by simp
    then have "\<forall>x \<in> set (take n ?cs). \<forall>y \<in> set (drop n ?cs). (cand_used x, cand_path x) \<le> (cand_used y, cand_path y)"
      unfolding map_append sorted_append by auto
    with that(1) left [OF that(2,3)] have "(cand_used r, cand_path r) \<le> (cand_used c, cand_path c)" by auto
    then show ?thesis by (auto simp: less_eq_prod_def)
  qed
  moreover have "set ?gone \<subseteq> set ?cs" using split by auto
  ultimately show ?thesis using ev by (intro exI [of _ ?gone]) (simp only: Let_def, blast)
qed

text \<open>A directory of two entries and a foreign file: the foreign file and the older entry go.\<close>

definition small_env :: "(u32, tensors \<times> metadata) cache_env" where
  "small_env = \<lparr>ce_container = plain_container, ce_config = \<lparr>cc_budget_bytes = 12, cc_block_tokens = 2, cc_min_tokens = 2\<rparr>,
     ce_fingerprint = ''f'', ce_quantization = ''q4'', ce_layer_kinds = [LinearKind, FullKind 2]\<rparr>"

definition key_a :: entry_key where "key_a = \<lparr>ek_tokens = 2, ek_hash = 1\<rparr>"
definition key_b :: entry_key where "key_b = \<lparr>ek_tokens = 4, ek_hash = 2\<rparr>"

definition small_cache :: "(tensors \<times> metadata) cache" where
  "small_cache = \<lparr>ca_index = \<lparr>ix_entries = [(key_b, \<lparr>em_path = file_name ''f'' key_b, em_bytes = 10, em_used = 9\<rparr>),
        (key_a, \<lparr>em_path = file_name ''f'' key_a, em_bytes = 10, em_used = 5\<rparr>)],
       ix_foreign = [\<lparr>em_path = ''x.inferq-prompt'', em_bytes = 4, em_used = 30\<rparr>], ix_bytes = 24\<rparr>,
     ca_stats = stats_default, ca_disk = (\<lambda>_. Some \<lparr>fl_data = ([], []), fl_modified = 0\<rparr>)\<rparr>"

lemma small_index_ok: "index_ok ''f'' (ca_index small_cache)"
proof -
  have "dashless ''f''" "parse_file_name ''x.inferq-prompt'' ''f'' = None" by code_simp+
  then show ?thesis by (simp add: index_ok_def small_cache_def key_a_def key_b_def entry_bytes_def usize_max_def)
qed

lemma eviction_is_least_recently_used_witness:
  "ix_bytes (ca_index (evict small_env calm_os None small_cache)) = 10
   \<and> map fst (ix_entries (ca_index (evict small_env calm_os None small_cache))) = [key_b]
   \<and> index_ok ''f'' (ca_index (evict small_env calm_os None small_cache))"
proof -
  have "ix_bytes (ca_index (evict small_env calm_os None small_cache)) = 10"
    "map fst (ix_entries (ca_index (evict small_env calm_os None small_cache))) = [key_b]"
    by code_simp+
  with eviction_is_least_recently_used [OF small_index_ok, of small_env calm_os None] show ?thesis
    by (auto simp: Let_def)
qed

end
