(* ===== verification/Cache_Lookup.thy ===== *)
theory Cache_Lookup
  imports Cache_Evict
begin

text \<open>
  What a lookup returns, what a write leaves behind for later lookups, and the writer thread: the
  count a shutdown waits for, and that waiting ends.
\<close>

section \<open>Lookups\<close>

lemma read_entry_cong: "disk path = disk' path \<Longrightarrow> read_entry C os disk path fp kinds = read_entry C os disk' path fp kinds"
  by (simp add: read_entry_def mapped_open_def)

lemma read_header_cong: "disk path = disk' path \<Longrightarrow> read_header C os disk path fp = read_header C os disk' path fp"
  by (simp add: read_header_def mapped_open_def)

text \<open>The entry a boundary would be served from, in the current index and directory.\<close>

definition served :: "('f, 'b) cache_env \<Rightarrow> 'b os \<Rightarrow> u32 list \<Rightarrow> 'b cache \<Rightarrow> nat \<Rightarrow> 'f session_image option" where
  "served E os tokens ca b =
     (case entry_path (key_of (take b tokens)) ca of
        None \<Rightarrow> None
      | Some path \<Rightarrow>
          (case read_header (ce_container E) os (ca_disk ca) path (ce_fingerprint E) of
             Inl e \<Rightarrow> None
           | Inr header \<Rightarrow>
               if eh_tokens header \<noteq> take b tokens then None
               else case read_entry (ce_container E) os (ca_disk ca) path (ce_fingerprint E) (ce_layer_kinds E) of
                      Inl e \<Rightarrow> None | Inr im \<Rightarrow> Some im))"

lemma served_tokens: "served E os tokens ca b = Some im \<Longrightarrow> si_tokens im = take b tokens"
  by (auto simp: served_def dest: read_header_entry split: option.splits sum.splits if_splits)

lemma served_fits: "served E os tokens ca b = Some im \<Longrightarrow> image_fits (ce_layer_kinds E) im"
  by (auto simp: served_def dest: read_entry_fits split: option.splits sum.splits if_splits)

lemma lookup_loop_Cons:
  "lookup_loop E os tokens beyond (b # bs) ca =
     (if b \<le> beyond then (ca, None)
      else case served E os tokens ca b of
        Some im \<Rightarrow>
          (count_stat (\<lambda>st. st\<lparr>st_hits := st_hits st + 1, st_reused_tokens := st_reused_tokens st + of_nat b\<rparr>)
             (touch os (key_of (take b tokens)) (the (entry_path (key_of (take b tokens)) ca)) ca), Some im)
      | None \<Rightarrow> lookup_loop E os tokens beyond bs
          (case entry_path (key_of (take b tokens)) ca of None \<Rightarrow> ca | Some path \<Rightarrow> discard os (key_of (take b tokens)) path ca))"
  by (simp add: served_def Let_def split: option.split sum.split)

declare lookup_loop.simps(2) [simp del]

lemma discard_sel:
  "ca_index (discard os key path ca) = fst (index_remove key (ca_index ca))"
  "ca_disk (discard os key path ca) p = (if p = path \<and> removable os (ca_disk ca) (0, None, path, 0) then None else ca_disk ca p)"
  by (auto simp: discard_def count_stat_def Let_def remove_file_def removable_def cand_path_def split: option.split)

lemma entry_path_name:
  assumes "index_ok fp (ca_index ca)" "entry_path key ca = Some path"
  shows "path = file_name fp key" "ek_tokens key \<le> usize_max"
  using assms by (auto simp: entry_path_def index_ok_def dest!: map_of_SomeD)

lemma discard_other:
  assumes ok: "index_ok (ce_fingerprint E) (ca_index ca)" and path: "entry_path (key_of (take b tokens)) ca = Some path"
    and b: "b \<le> length tokens" "b' \<le> length tokens" "b' \<noteq> b"
  shows "served E os tokens (discard os (key_of (take b tokens)) path ca) b' = served E os tokens ca b'"
proof -
  let ?key = "key_of (take b tokens)" and ?key' = "key_of (take b' tokens)" and ?ca = "discard os (key_of (take b tokens)) path ca"
  have keys: "?key' \<noteq> ?key" using b by (simp add: key_of_def min_def)
  have same: "entry_path ?key' ?ca = entry_path ?key' ca"
    using keys index_remove_ok(2) [OF ok, of ?key] by (simp add: entry_path_def discard_sel delete_conv')
  show ?thesis
  proof (cases "entry_path ?key' ca")
    case None
    with same show ?thesis by (simp add: served_def)
  next
    case (Some p)
    note p = entry_path_name [OF ok path] entry_path_name [OF ok Some]
    have "dashless (ce_fingerprint E)" using ok by (simp add: index_ok_def)
    from file_name_round_trip' [OF this p(4,2)] keys p(1,3) have "p \<noteq> path" by simp
    then have disk: "ca_disk ?ca p = ca_disk ca p" by (simp add: discard_sel)
    have eqs: "read_header (ce_container E) os (ca_disk ?ca) p (ce_fingerprint E) = read_header (ce_container E) os (ca_disk ca) p (ce_fingerprint E)"
      "read_entry (ce_container E) os (ca_disk ?ca) p (ce_fingerprint E) (ce_layer_kinds E)
        = read_entry (ce_container E) os (ca_disk ca) p (ce_fingerprint E) (ce_layer_kinds E)"
      by (rule read_header_cong, rule disk) (rule read_entry_cong, rule disk)
    show ?thesis unfolding served_def same Some option.case eqs ..
  qed
qed

text \<open>The result is that of a search from the longest boundary down.\<close>

lemma lookup_loop_spec:
  assumes "index_ok (ce_fingerprint E) (ca_index ca)" and "sorted_wrt (>) bs" and "\<forall>b \<in> set bs. b \<le> length tokens"
  shows "snd (lookup_loop E os tokens beyond bs ca)
    = (case find (\<lambda>b. served E os tokens ca b \<noteq> None) (filter (\<lambda>b. beyond < b) bs) of
         None \<Rightarrow> None | Some b \<Rightarrow> served E os tokens ca b)"
  using assms
proof (induction bs arbitrary: ca)
  case (Cons b bs)
  let ?key = "key_of (take b tokens)"
  show ?case
  proof (cases "b \<le> beyond")
    case True
    with Cons.prems(2) have "filter (\<lambda>b. beyond < b) (b # bs) = []" by (auto simp: filter_empty_conv)
    with True show ?thesis by (simp add: lookup_loop_Cons)
  next
    case far: False
    show ?thesis
    proof (cases "served E os tokens ca b")
      case None
      define ca1 where "ca1 = (case entry_path ?key ca of None \<Rightarrow> ca | Some path \<Rightarrow> discard os ?key path ca)"
      have ok1: "index_ok (ce_fingerprint E) (ca_index ca1)"
        using Cons.prems(1) index_remove_ok(1) by (auto simp: ca1_def discard_sel split: option.split)
      have same: "served E os tokens ca1 b' = served E os tokens ca b'" if "b' \<in> set bs" for b'
        using that Cons.prems discard_other [OF Cons.prems(1)] by (fastforce simp: ca1_def split: option.split)
      have "find (\<lambda>b. served E os tokens ca1 b \<noteq> None) (filter (\<lambda>b. beyond < b) bs)
          = find (\<lambda>b. served E os tokens ca b \<noteq> None) (filter (\<lambda>b. beyond < b) bs)"
        by (rule find_cong) (auto simp: same)
      moreover have "(case find P (filter Q bs) of None \<Rightarrow> None | Some b \<Rightarrow> served E os tokens ca1 b)
          = (case find P (filter Q bs) of None \<Rightarrow> None | Some b \<Rightarrow> served E os tokens ca b)" for P Q
      proof (cases "find P (filter Q bs)")
        case (Some x)
        then obtain i where "i < length (filter Q bs)" "x = filter Q bs ! i" by (auto simp: find_Some_iff)
        then have "x \<in> set bs" using nth_mem by fastforce
        with Some same show ?thesis by simp
      qed simp
      ultimately have "snd (lookup_loop E os tokens beyond bs ca1)
          = (case find (\<lambda>b. served E os tokens ca b \<noteq> None) (filter (\<lambda>b. beyond < b) bs) of
               None \<Rightarrow> None | Some b \<Rightarrow> served E os tokens ca b)"
        using Cons.IH [OF ok1] Cons.prems(2,3) by simp
      with far None show ?thesis by (simp add: lookup_loop_Cons ca1_def)
    next
      case (Some im)
      with far show ?thesis by (simp add: lookup_loop_Cons)
    qed
  qed
qed simp

lemma cache_lookup_snd: "snd (cache_lookup E os tokens beyond ca)
    = snd (lookup_loop E os tokens beyond (boundaries (length tokens) (cc_block_tokens (ce_config E)) (cc_min_tokens (ce_config E))) ca)"
  by (simp add: cache_lookup_def split: prod.split option.split)

definition usable_boundaries :: "cache_config \<Rightarrow> u32 list \<Rightarrow> nat \<Rightarrow> nat set" where
  "usable_boundaries c tokens beyond =
     {b. 0 < b \<and> b < length tokens \<and> cc_min_tokens c \<le> b \<and> cc_block_tokens c dvd b \<and> beyond < b}"

lemma cache_lookup_longest:
  assumes ok: "index_ok (ce_fingerprint E) (ca_index ca)" and block: "0 < cc_block_tokens (ce_config E)"
  shows "case snd (cache_lookup E os tokens beyond ca) of
      None \<Rightarrow> \<forall>b \<in> usable_boundaries (ce_config E) tokens beyond. served E os tokens ca b = None
    | Some im \<Rightarrow> \<exists>b \<in> usable_boundaries (ce_config E) tokens beyond. served E os tokens ca b = Some im
        \<and> (\<forall>b' \<in> usable_boundaries (ce_config E) tokens beyond. b < b' \<longrightarrow> served E os tokens ca b' = None)"
proof -
  let ?bs = "boundaries (length tokens) (cc_block_tokens (ce_config E)) (cc_min_tokens (ce_config E))"
  have sorted: "sorted_wrt (>) ?bs" by (rule boundaries_descend [OF block])
  have bound: "\<forall>b \<in> set ?bs. b \<le> length tokens" by (auto simp: set_boundaries [OF block])
  have set_eq: "set (filter (\<lambda>b. beyond < b) ?bs) = usable_boundaries (ce_config E) tokens beyond"
    by (auto simp: set_boundaries [OF block] usable_boundaries_def)
  show ?thesis
  proof (cases "find (\<lambda>b. served E os tokens ca b \<noteq> None) (filter (\<lambda>b. beyond < b) ?bs)")
    case None
    then have "\<forall>b \<in> usable_boundaries (ce_config E) tokens beyond. served E os tokens ca b = None"
      unfolding find_None_iff set_eq [symmetric] by blast
    with None show ?thesis by (simp add: cache_lookup_snd lookup_loop_spec [OF ok sorted bound])
  next
    case (Some b)
    then have "b \<in> usable_boundaries (ce_config E) tokens beyond" "served E os tokens ca b \<noteq> None"
      "\<forall>b' \<in> usable_boundaries (ce_config E) tokens beyond. served E os tokens ca b' \<noteq> None \<longrightarrow> b' \<le> b"
      unfolding find_descending [OF sorted_wrt_filter [OF sorted]] set_eq by blast+
    then have "\<exists>b \<in> usable_boundaries (ce_config E) tokens beyond. served E os tokens ca b = Some im
        \<and> (\<forall>b' \<in> usable_boundaries (ce_config E) tokens beyond. b < b' \<longrightarrow> served E os tokens ca b' = None)"
      if "served E os tokens ca b = Some im" for im using that by (metis linorder_not_le)
    with Some \<open>served E os tokens ca b \<noteq> None\<close> show ?thesis
      by (auto simp: cache_lookup_snd lookup_loop_spec [OF ok sorted bound])
  qed
qed

section \<open>Writing\<close>

lemma candidate_not_kept:
  assumes "index_ok fp ix" "c \<in> set (candidates ix (Some key))" "ek_tokens key \<le> usize_max"
  shows "cand_path c \<noteq> file_name fp key"
proof
  assume eq: "cand_path c = file_name fp key"
  have dash: "dashless fp" using assms(1) by (simp add: index_ok_def)
  note parse = parse_file_name_name [OF dash assms(3)]
  obtain used k path bytes where c: "c = (used, k, path, bytes)" by (cases c) auto
  then have path: "path = file_name fp key" using eq by (simp add: cand_path_def)
  from assms(2) consider m where "m \<in> set (ix_foreign ix)" "path = em_path m"
    | l m where "(l, m) \<in> set (ix_entries ix)" "l \<noteq> key" "path = em_path m"
    by (auto simp: c mem_candidates)
  then show False
  proof cases
    case 1
    with assms(1) path parse show False by (auto simp: index_ok_def)
  next
    case (2 l m)
    then have "path = file_name fp l" "ek_tokens l \<le> usize_max" using assms(1) by (auto simp: index_ok_def)
    with 2(2) path file_name_round_trip' [OF dash this(2) assms(3)] show False by simp
  qed
qed

lemma cache_write_serves:
  assumes C: "container_ok (ce_container E)" and ok: "index_ok (ce_fingerprint E) (ca_index ca)"
    and im: "image_fits (ce_layer_kinds E) im" "im_position (si_model im) \<le> usize_max" "length (ce_layer_kinds E) \<le> usize_max"
    and room: "\<forall>ts md data. entry_tensors (ce_container E) im = Inr ts \<longrightarrow> ct_serialize (ce_container E) ts md = Some data \<longrightarrow>
        entry_bytes (ca_index ca) + ct_size (ce_container E) data \<le> usize_max"
    and run: "cache_write E os im ca = (ca', Inr ())" and opened: "\<And>p. os_open os' p"
    and tokens: "take (length (si_tokens im)) tokens = si_tokens im"
  shows "index_ok (ce_fingerprint E) (ca_index ca')"
    and "served E os' tokens ca' (length (si_tokens im)) = Some im"
proof -
  let ?key = "key_of (si_tokens im)" and ?fp = "ce_fingerprint E"
  let ?path = "file_name ?fp ?key"
  from run obtain disk bytes where w: "write_entry (ce_container E) os ?path im ?fp (ce_quantization E) (os_now os div 1000000000) (ca_disk ca)
      = (disk, Inr bytes)"
    and ca': "ca' = evict E os (Some ?key) (count_stat (\<lambda>st. st\<lparr>st_writes := st_writes st + 1\<rparr>) (ca\<lparr>ca_disk := disk,
        ca_index := index_insert ?key \<lparr>em_path = ?path, em_bytes = bytes, em_used = os_now os\<rparr> (ca_index ca)\<rparr>))"
    by (auto simp: cache_write_def path_for_def Let_def split: prod.splits sum.splits)
  from w obtain ts data m where e: "entry_tensors (ce_container E) im = Inr ts"
      "ct_serialize (ce_container E) ts (entry_metadata ?fp (ce_quantization E) (os_now os div 1000000000) im) = Some data"
      "disk ?path = Some \<lparr>fl_data = data, fl_modified = m\<rparr>" and bytes: "bytes = ct_size (ce_container E) data"
    by (rule write_entry_ok) (rule that, assumption+)
  have len: "length (si_tokens im) = im_position (si_model im)" using im(1) by (simp add: image_fits_def Let_def)
  have key: "ek_tokens ?key \<le> usize_max" using im(2) by (simp add: key_of_def len)
  let ?meta = "\<lparr>em_path = ?path, em_bytes = bytes, em_used = os_now os\<rparr>"
  let ?ca2 = "count_stat (\<lambda>st. st\<lparr>st_writes := st_writes st + 1\<rparr>) (ca\<lparr>ca_disk := disk,
        ca_index := index_insert ?key ?meta (ca_index ca)\<rparr>)"
  have sel: "ca_index ?ca2 = index_insert ?key ?meta (ca_index ca)" "ca_disk ?ca2 = disk" by (simp_all add: count_stat_def)
  note ins = index_insert_ok [OF ok key, of ?meta]
  have ok2: "index_ok ?fp (ca_index ?ca2)" unfolding sel by (rule ins(1)) (use room [rule_format, OF e(1,2)] bytes in simp_all)
  have here: "map_of (ix_entries (ca_index ?ca2)) ?key = Some ?meta"
    unfolding sel using ins(2) room [rule_format, OF e(1,2)] bytes by simp
  from evict_spec [OF ok2, of "Some ?key" E os] obtain n where
    ev: "evicted ?fp (cc_budget_bytes (ce_config E)) (Some ?key) (n < length (candidates (ca_index ?ca2) (Some ?key))
          \<or> ix_bytes (ca_index ?ca2) \<le> cc_budget_bytes (ce_config E))
      (filter (removable os (ca_disk ?ca2)) (take n (candidates (ca_index ?ca2) (Some ?key)))) ?ca2 ca'"
    unfolding Let_def ca' by blast
  let ?gone = "filter (removable os (ca_disk ?ca2)) (take n (candidates (ca_index ?ca2) (Some ?key)))"
  show "index_ok ?fp (ca_index ca')" using ev by (simp add: evicted_def)
  have "?path \<notin> cand_path ` set ?gone"
  proof
    assume "?path \<in> cand_path ` set ?gone"
    then obtain c where "c \<in> set (candidates (ca_index ?ca2) (Some ?key))" "cand_path c = ?path"
      by (auto dest: in_set_takeD)
    with candidate_not_kept [OF ok2 _ key] show False by blast
  qed
  then have there: "ca_disk ca' ?path = Some \<lparr>fl_data = data, fl_modified = m\<rparr>"
    using ev e(3) sel by (simp add: evicted_def)
  have "entry_path ?key ca' = Some ?path" using ev here by (simp add: evicted_def entry_path_def)
  moreover have "read_entry (ce_container E) os' (ca_disk ca') ?path ?fp (ce_layer_kinds E) = Inr im"
    by (rule written_entry_reads(1) [where disk = "ca_disk ca'" and path = ?path, OF C im e(1,2) there opened])
  moreover have "read_header (ce_container E) os' (ca_disk ca') ?path ?fp
      = Inr \<lparr>eh_tokens = si_tokens im, eh_position = im_position (si_model im)\<rparr>"
    by (rule written_entry_reads(2) [where disk = "ca_disk ca'" and path = ?path, OF C im e(1,2) there opened])
  ultimately show "served E os' tokens ca' (length (si_tokens im)) = Some im"
    unfolding served_def tokens by simp
qed

section \<open>The writer thread\<close>

definition world_open :: "'b cache \<Rightarrow> ('f, 'b) cache_world" where
  "world_open ca = \<lparr>cw_cache = ca, cw_queue = None, cw_writing = None, cw_outstanding = 0, cw_alive = True\<rparr>"

text \<open>Stores of the engine and steps of the writer, in any order, with any answers of the system.\<close>

inductive cache_run :: "('f, 'b) cache_env \<Rightarrow> ('f, 'b) cache_world \<Rightarrow> ('f, 'b) cache_world \<Rightarrow> bool" for E where
  start: "cache_run E w w"
| stored: "cache_run E w w1 \<Longrightarrow> cache_run E w (fst (cache_store im w1))"
| wrote: "cache_run E w w1 \<Longrightarrow> cache_run E w (writer_step E os w1)"

definition in_hand :: "('f, 'b) cache_world \<Rightarrow> nat" where
  "in_hand w = of_bool (cw_queue w \<noteq> None) + of_bool (cw_writing w \<noteq> None)"

definition steps_left :: "('f, 'b) cache_world \<Rightarrow> nat" where
  "steps_left w = 2 * of_bool (cw_queue w \<noteq> None) + of_bool (cw_writing w \<noteq> None)"

definition counted :: "('f, 'b) cache_world \<Rightarrow> bool" where
  "counted w \<longleftrightarrow> cw_alive w \<and> cw_outstanding w = in_hand w"

lemma counted_idle: "counted w \<Longrightarrow> cw_outstanding w = 0 \<longleftrightarrow> steps_left w = 0"
  by (auto simp: counted_def in_hand_def steps_left_def)

lemma store_counted: "counted w \<Longrightarrow> counted (fst (cache_store im w))"
  by (auto simp: counted_def in_hand_def cache_store_def Let_def)

lemma writer_step_counted:
  assumes "counted w"
  shows "counted (writer_step E os w)" and "steps_left (writer_step E os w) = steps_left w - 1"
  using assms by (auto simp: counted_def in_hand_def steps_left_def writer_step_def Let_def split: option.splits prod.splits)

lemma cache_run_counted: "cache_run E w w' \<Longrightarrow> counted w \<Longrightarrow> counted w'"
  by (induction rule: cache_run.induct) (auto intro: store_counted writer_step_counted)

lemma writer_steps: "counted w \<Longrightarrow> counted ((writer_step E os ^^ n) w) \<and> steps_left ((writer_step E os ^^ n) w) = steps_left w - n"
  by (induction n) (auto simp: writer_step_counted)

lemma wait_ends: "counted w \<Longrightarrow> steps_left w \<le> sum_list ns \<Longrightarrow> snd (wait_for_writes E os ns w)"
proof (induction ns arbitrary: w)
  case (Cons n ns)
  then show ?case using writer_steps [OF Cons.prems(1), where E = E and os = os and n = n] by simp
qed (simp add: counted_idle)

section \<open>Properties\<close>

text \<open>
  C8. A lookup serves the longest usable entry. In any directory, whatever its files hold, the image
  returned has exactly the tokens of a boundary of the prompt beyond what the session covers,
  fits the model, and no longer boundary has a readable entry for its tokens; nothing is returned
  only when no boundary has one. A hash collision or a damaged file is passed over.
\<close>

theorem lookup_serves_the_longest_entry:
  assumes "index_ok (ce_fingerprint E) (ca_index ca)" and "0 < cc_block_tokens (ce_config E)"
  shows "case snd (cache_lookup E os tokens beyond ca) of
      None \<Rightarrow> \<forall>b \<in> usable_boundaries (ce_config E) tokens beyond. served E os tokens ca b = None
    | Some im \<Rightarrow> \<exists>b \<in> usable_boundaries (ce_config E) tokens beyond. si_tokens im = take b tokens
        \<and> image_fits (ce_layer_kinds E) im \<and> served E os tokens ca b = Some im
        \<and> (\<forall>b' \<in> usable_boundaries (ce_config E) tokens beyond. b < b' \<longrightarrow> served E os tokens ca b' = None)"
  using cache_lookup_longest [OF assms, where os = os and tokens = tokens and beyond = beyond]
  by (auto split: option.splits dest: served_tokens served_fits)

definition empty_cache :: "'b cache" where
  "empty_cache = \<lparr>ca_index = index_default, ca_stats = stats_default, ca_disk = Map.empty\<rparr>"

lemma empty_cache_ok: "index_ok ''f'' (ca_index empty_cache)"
  by (simp add: empty_cache_def index_default_ok dashless_def short_fingerprint_def rsplit_once_def)

lemma small_env_simps: "ce_container small_env = plain_container" "ce_fingerprint small_env = ''f''"
  "ce_layer_kinds small_env = [LinearKind, FullKind 2]" "ce_config small_env = \<lparr>cc_budget_bytes = 12, cc_block_tokens = 2, cc_min_tokens = 2\<rparr>"
  by (simp_all add: small_env_def)

lemma small_write:
  obtains ca' where "cache_write small_env calm_os sample_image empty_cache = (ca', Inr ())"
    "index_ok ''f'' (ca_index ca')" "take 2 tokens = [1, 8] \<longrightarrow> served small_env calm_os tokens ca' 2 = Some sample_image"
proof -
  obtain disk bytes where w: "write_entry plain_container calm_os (path_for small_env (key_of (si_tokens sample_image))) sample_image ''f''
      (ce_quantization small_env) (os_now (calm_os :: (tensors \<times> metadata) os) div 1000000000) Map.empty = (disk, Inr bytes)"
    by (rule write_entry_calm [OF plain_container_ok]) (simp add: plain_container_def)
  obtain ca' where run: "cache_write small_env calm_os sample_image empty_cache = (ca', Inr ())"
    by (simp add: cache_write_def small_env_simps w empty_cache_def Let_def)
  have fits: "image_fits (ce_layer_kinds small_env) sample_image" by (simp only: small_env_simps sample_image_fits)
  have pos: "im_position (si_model sample_image) \<le> usize_max" "length (ce_layer_kinds small_env) \<le> usize_max"
    by (simp_all add: sample_image_def small_env_def usize_max_def)
  have room: "\<forall>ts md data. entry_tensors (ce_container small_env) sample_image = Inr ts
      \<longrightarrow> ct_serialize (ce_container small_env) ts md = Some data
      \<longrightarrow> entry_bytes (ca_index (empty_cache :: (tensors \<times> metadata) cache)) + ct_size (ce_container small_env) data \<le> usize_max"
    by (simp add: small_env_simps plain_container_def empty_cache_def entry_bytes_def index_default_def usize_max_def)
  have calm: "os_open (calm_os :: (tensors \<times> metadata) os) p" for p by (simp add: calm_os_def)
  have C: "container_ok (ce_container small_env)" by (simp only: small_env_simps plain_container_ok)
  have ix: "index_ok (ce_fingerprint small_env) (ca_index (empty_cache :: (tensors \<times> metadata) cache))"
    by (simp only: small_env_simps empty_cache_ok)
  note serves = cache_write_serves [OF C ix fits pos room run calm]
  have two: "length (si_tokens sample_image) = 2" "si_tokens sample_image = [1, 8]" by (simp_all add: sample_image_def)
  show thesis
  proof (rule that [OF run])
    show "index_ok ''f'' (ca_index ca')" using serves(1) [of "si_tokens sample_image"] by (simp add: small_env_simps)
    have "length [1, 8 :: u32] = 2" by simp
    with serves(2) [of tokens] show "take 2 tokens = [1, 8] \<longrightarrow> served small_env calm_os tokens ca' 2 = Some sample_image"
      unfolding two(2) by metis
  qed
qed

lemma lookup_serves_the_longest_entry_witness:
  "\<exists>ca'. cache_write small_env calm_os sample_image empty_cache = (ca', Inr ())
     \<and> snd (cache_lookup small_env calm_os [1, 8, 3] 0 ca') = Some sample_image"
proof -
  obtain ca' where w: "cache_write small_env calm_os sample_image empty_cache = (ca', Inr ())"
    "index_ok ''f'' (ca_index ca')" "take 2 [1, 8, 3] = [1, 8 :: u32] \<longrightarrow> served small_env calm_os [1, 8, 3] ca' 2 = Some sample_image"
    by (rule small_write [where tokens = "[1, 8, 3]"])
  have only: "usable_boundaries (ce_config small_env) [1, 8, 3] 0 = {2}"
    by (auto simp: usable_boundaries_def small_env_simps)
  have "index_ok (ce_fingerprint small_env) (ca_index ca')" "0 < cc_block_tokens (ce_config small_env)"
    using w(2) by (simp_all add: small_env_simps)
  from lookup_serves_the_longest_entry [OF this, where os = calm_os and tokens = "[1, 8, 3]" and beyond = 0] w(1,3)
  show ?thesis unfolding only by (auto split: option.splits)
qed

text \<open>
  C7. What was stored is found again. After an image has been written, a lookup for any prompt that
  continues its tokens returns it or a longer entry, even when the write made the cache evict:
  the entry just written is never the one that goes.
\<close>

theorem stored_prefix_is_found:
  assumes "container_ok (ce_container E)" and "index_ok (ce_fingerprint E) (ca_index ca)"
    and "image_fits (ce_layer_kinds E) im" and "im_position (si_model im) \<le> usize_max" and "length (ce_layer_kinds E) \<le> usize_max"
    and "\<forall>ts md data. entry_tensors (ce_container E) im = Inr ts \<longrightarrow> ct_serialize (ce_container E) ts md = Some data \<longrightarrow>
        entry_bytes (ca_index ca) + ct_size (ce_container E) data \<le> usize_max"
    and "cache_write E os im ca = (ca', Inr ())" and "\<And>p. os_open os' p"
    and "take (length (si_tokens im)) tokens = si_tokens im"
    and "length (si_tokens im) \<in> usable_boundaries (ce_config E) tokens beyond" and "0 < cc_block_tokens (ce_config E)"
  shows "\<exists>im'. snd (cache_lookup E os' tokens beyond ca') = Some im' \<and> take (length (si_tokens im')) tokens = si_tokens im'
    \<and> length (si_tokens im) \<le> length (si_tokens im') \<and> (length (si_tokens im') = length (si_tokens im) \<longrightarrow> im' = im)"
proof -
  note w = cache_write_serves [OF assms(1-9)]
  show ?thesis
  proof (cases "snd (cache_lookup E os' tokens beyond ca')")
    case None
    with cache_lookup_longest [OF w(1) assms(11), where os = os' and tokens = tokens and beyond = beyond] assms(10) w(2) show ?thesis by simp
  next
    case (Some im')
    with cache_lookup_longest [OF w(1) assms(11), where os = os' and tokens = tokens and beyond = beyond] obtain b where
      b: "b \<in> usable_boundaries (ce_config E) tokens beyond" "served E os' tokens ca' b = Some im'"
        "\<forall>b' \<in> usable_boundaries (ce_config E) tokens beyond. b < b' \<longrightarrow> served E os' tokens ca' b' = None" by auto
    have im': "si_tokens im' = take b tokens" "b < length tokens"
      using served_tokens [OF b(2)] b(1) by (simp_all add: usable_boundaries_def)
    have "length (si_tokens im) \<le> b" using b(3) assms(10) w(2) by (metis linorder_not_le option.distinct(1))
    moreover have "im' = im" if "b = length (si_tokens im)" using that b(2) w(2) by simp
    ultimately show ?thesis using Some im' by (auto simp: min_def)
  qed
qed

lemma stored_prefix_is_found_witness:
  "\<exists>ca' im'. cache_write small_env calm_os sample_image empty_cache = (ca', Inr ())
     \<and> snd (cache_lookup small_env calm_os [1, 8, 3] 0 ca') = Some im' \<and> 2 \<le> length (si_tokens im')"
proof -
  obtain ca' where w: "cache_write small_env calm_os sample_image empty_cache = (ca', Inr ())"
    by (rule small_write)
  have two: "si_tokens sample_image = [1, 8]" by (simp add: sample_image_def)
  have fits: "image_fits (ce_layer_kinds small_env) sample_image" by (simp only: small_env_simps sample_image_fits)
  have pos: "im_position (si_model sample_image) \<le> usize_max" "length (ce_layer_kinds small_env) \<le> usize_max"
    by (simp_all add: sample_image_def small_env_def usize_max_def)
  have room: "\<forall>ts md data. entry_tensors (ce_container small_env) sample_image = Inr ts
      \<longrightarrow> ct_serialize (ce_container small_env) ts md = Some data
      \<longrightarrow> entry_bytes (ca_index (empty_cache :: (tensors \<times> metadata) cache)) + ct_size (ce_container small_env) data \<le> usize_max"
    by (simp add: small_env_simps plain_container_def empty_cache_def entry_bytes_def index_default_def usize_max_def)
  have calm: "os_open (calm_os :: (tensors \<times> metadata) os) p" for p by (simp add: calm_os_def)
  have C: "container_ok (ce_container small_env)" by (simp only: small_env_simps plain_container_ok)
  have ix: "index_ok (ce_fingerprint small_env) (ca_index (empty_cache :: (tensors \<times> metadata) cache))"
    by (simp only: small_env_simps empty_cache_ok)
  have t: "take (length (si_tokens sample_image)) [1, 8, 3] = si_tokens sample_image" by (simp add: two)
  have u: "length (si_tokens sample_image) \<in> usable_boundaries (ce_config small_env) [1, 8, 3] 0"
    by (simp add: two usable_boundaries_def small_env_simps)
  have b: "0 < cc_block_tokens (ce_config small_env)" by (simp add: small_env_simps)
  from stored_prefix_is_found [OF C ix fits pos room w calm t u b] w show ?thesis by (auto simp: two)
qed

text \<open>
  C28. Waiting for writes ends. In whatever order the engine stores images and the writer works, while
  the writer lives the count of outstanding writes is the number of images in its hands, and once
  it has made at most three more steps a shutdown that waits is told that everything has landed.
\<close>

theorem waiting_for_writes_ends:
  assumes "cache_run E (world_open ca) w" and "3 \<le> sum_list ns"
  shows "cw_outstanding w = in_hand w \<and> in_hand w \<le> 2 \<and> snd (wait_for_writes E os ns w)"
proof -
  have "counted (world_open ca)" by (simp add: counted_def world_open_def in_hand_def)
  from cache_run_counted [OF assms(1) this] have c: "counted w" .
  have "steps_left w \<le> 3" "in_hand w \<le> 2" by (simp_all add: steps_left_def in_hand_def)
  with assms(2) wait_ends [OF c] c show ?thesis by (simp add: counted_def)
qed

lemma waiting_for_writes_ends_witness:
  "let w = fst (cache_store sample_image (writer_step small_env calm_os (fst (cache_store sample_image (world_open empty_cache)))))
   in cw_outstanding w = 2 \<and> snd (wait_for_writes small_env calm_os [2, 1] w)"
proof -
  let ?w1 = "fst (cache_store sample_image (world_open empty_cache))"
  let ?w = "fst (cache_store sample_image (writer_step small_env calm_os ?w1))"
  have "cache_run small_env (world_open empty_cache) ?w"
    by (intro cache_run.stored cache_run.wrote cache_run.start)
  from waiting_for_writes_ends [OF this, where ns = "[2, 1]" and os = calm_os]
  have "cw_outstanding ?w = in_hand ?w" "snd (wait_for_writes small_env calm_os [2, 1] ?w)" by (simp_all del: wait_for_writes.simps)
  moreover have "in_hand ?w = 2" by (simp add: in_hand_def cache_store_def writer_step_def world_open_def Let_def)
  ultimately show ?thesis by (simp only: Let_def simp_thms)
qed

text \<open>
  C40. A store after the writer thread has died is never waited out: the count is raised and nothing
  lowers it, so every later wait runs to its deadline and reports work outstanding, although the
  store itself reported that the image was dropped.
\<close>

theorem dead_writer_is_waited_for:
  assumes "\<not> cw_alive w"
  shows "case cache_store im w of (w', kept) \<Rightarrow> \<not> kept \<and> (\<forall>os ns. \<not> snd (wait_for_writes E os ns w'))"
proof -
  have stuck: "\<not> snd (wait_for_writes E os ns v)" if "\<not> cw_alive v" "0 < cw_outstanding v" for os ns and v :: "('a, 'b) cache_world"
  proof -
    have "writer_step E os v = v" using that(1) by (simp add: writer_step_def)
    then have "(writer_step E os ^^ n) v = v" for n by (induction n) simp_all
    with that(2) show ?thesis by (induction ns) simp_all
  qed
  show ?thesis using assms by (auto simp: cache_store_def Let_def stuck)
qed

lemma dead_writer_is_waited_for_witness:
  "case cache_store sample_image ((world_open empty_cache)\<lparr>cw_alive := False\<rparr>) of
     (w, kept) \<Rightarrow> \<not> kept \<and> \<not> snd (wait_for_writes small_env calm_os [9, 9] w)"
  using dead_writer_is_waited_for [where w = "(world_open empty_cache)\<lparr>cw_alive := False\<rparr>" and im = sample_image and E = small_env]
  by (simp add: case_prod_unfold del: wait_for_writes.simps)

end
