(* ===== verification/Cache_Invariant.thy ===== *)
theory Cache_Invariant
  imports Cache_Lookup
begin

text \<open>
  The index accounts for the files it names from the scan of a directory on, through every lookup,
  write and eviction.
\<close>

lemma touch_index_ok:
  assumes "index_ok fp (ca_index ca)"
  shows "index_ok fp (ca_index (touch os key path ca))"
proof (cases "map_of (ix_entries (ca_index ca)) key")
  case None
  with assms show ?thesis by (simp add: touch_def index_ok_def entry_bytes_def Let_def)
next
  case (Some m)
  let ?m = "m\<lparr>em_used := os_now os\<rparr>" and ?ix = "ca_index ca"
  have dist: "distinct (map fst (ix_entries ?ix))" using assms by (simp add: index_ok_def)
  from Some have mem: "(key, m) \<in> set (ix_entries ?ix)" by (rule map_of_SomeD)
  have "set (AList.update key ?m (ix_entries ?ix)) \<subseteq> insert (key, ?m) (set (ix_entries ?ix))" by (rule set_update_subset)
  moreover have "sum_list (map (em_bytes \<circ> snd) (AList.update key ?m (ix_entries ?ix))) = sum_list (map (em_bytes \<circ> snd) (ix_entries ?ix))"
    using sum_update [OF dist, of em_bytes key ?m] Some by simp
  ultimately have sub: "set (AList.update key ?m (ix_entries ?ix)) \<subseteq> insert (key, ?m) (set (ix_entries ?ix))"
    and sum: "sum_list (map (em_bytes \<circ> snd) (AList.update key ?m (ix_entries ?ix))) = sum_list (map (em_bytes \<circ> snd) (ix_entries ?ix))"
    by blast+
  have "ek_tokens k \<le> usize_max \<and> em_path x = file_name fp k" if "(k, x) \<in> set (AList.update key ?m (ix_entries ?ix))" for k x
  proof -
    from that sub consider "k = key" "x = ?m" | "(k, x) \<in> set (ix_entries ?ix)" by blast
    then show ?thesis using assms mem by cases (auto simp: index_ok_def)
  qed
  then show ?thesis
    using assms distinct_update [OF dist] Some sum
    by (auto simp: touch_def index_ok_def entry_bytes_def Let_def)
qed

lemma discard_index_ok: "index_ok fp (ca_index ca) \<Longrightarrow> index_ok fp (ca_index (discard os key path ca))"
  by (simp add: discard_sel index_remove_ok(1))

lemma lookup_loop_index_ok: "index_ok fp (ca_index ca) \<Longrightarrow> index_ok fp (ca_index (fst (lookup_loop E os tokens beyond bs ca)))"
proof (induction bs arbitrary: ca)
  case (Cons b bs)
  then show ?case
    by (auto simp: lookup_loop_Cons touch_index_ok discard_index_ok count_stat_def split: option.splits)
qed simp

lemma cache_lookup_index_ok: "index_ok fp (ca_index ca) \<Longrightarrow> index_ok fp (ca_index (fst (cache_lookup E os tokens beyond ca)))"
  using lookup_loop_index_ok [of fp ca E os tokens beyond
      "boundaries (length tokens) (cc_block_tokens (ce_config E)) (cc_min_tokens (ce_config E))"]
  by (auto simp: cache_lookup_def count_stat_def split: prod.splits option.splits)

lemma evict_index_ok: "index_ok fp (ca_index ca) \<Longrightarrow> index_ok fp (ca_index (evict E os keep ca))"
  by (rule evict_spec [of fp ca keep E os]) (simp_all add: Let_def evicted_def)

lemma cache_write_index_ok:
  assumes ok: "index_ok (ce_fingerprint E) (ca_index ca)" and len: "length (si_tokens im) \<le> usize_max"
    and room: "\<forall>ts md data. entry_tensors (ce_container E) im = Inr ts \<longrightarrow> ct_serialize (ce_container E) ts md = Some data
        \<longrightarrow> entry_bytes (ca_index ca) + ct_size (ce_container E) data \<le> usize_max"
  shows "index_ok (ce_fingerprint E) (ca_index (fst (cache_write E os im ca)))"
proof -
  let ?key = "key_of (si_tokens im)"
  obtain disk r where w: "write_entry (ce_container E) os (path_for E ?key) im (ce_fingerprint E) (ce_quantization E)
      (os_now os div 1000000000) (ca_disk ca) = (disk, r)" by (rule prod.exhaust)
  show ?thesis
  proof (cases r)
    case (Inl e)
    with w ok show ?thesis by (simp add: cache_write_def Let_def)
  next
    case (Inr bytes)
    with w obtain ts data where "entry_tensors (ce_container E) im = Inr ts"
      "ct_serialize (ce_container E) ts (entry_metadata (ce_fingerprint E) (ce_quantization E) (os_now os div 1000000000) im) = Some data"
      "bytes = ct_size (ce_container E) data"
      by (auto elim!: write_entry_ok)
    with room have "entry_bytes (ca_index ca) + bytes \<le> usize_max" by blast
    with ok len have "index_ok (ce_fingerprint E) (index_insert ?key \<lparr>em_path = path_for E ?key, em_bytes = bytes, em_used = os_now os\<rparr> (ca_index ca))"
      by (intro index_insert_ok(1)) (simp_all add: key_of_def path_for_def)
    then show ?thesis using w Inr by (simp add: cache_write_def Let_def evict_index_ok count_stat_def)
  qed
qed

section \<open>The scan\<close>

definition scanned_bytes :: "dir_entry list \<Rightarrow> nat" where
  "scanned_bytes es = sum_list (map (\<lambda>e. case de_metadata e of Some (True, bytes, _) \<Rightarrow> bytes | _ \<Rightarrow> 0) es)"

text \<open>Names are distinct in a directory; here, every entry of this checkpoint bears the name it was written under.\<close>

definition listing_ok :: "string \<Rightarrow> dir_entry list \<Rightarrow> bool" where
  "listing_ok fp es \<longleftrightarrow> dashless fp \<and> distinct (map de_name es) \<and> scanned_bytes es \<le> usize_max
     \<and> (\<forall>e \<in> set es. \<forall>key. parse_file_name (de_name e) fp = Some key \<longrightarrow> ek_tokens key \<le> usize_max \<and> de_name e = file_name fp key)"

lemma scan_index_ok:
  assumes "index_ok fp ix" and "listing_ok fp es" and "entry_bytes ix + scanned_bytes es \<le> usize_max"
    and "\<forall>e \<in> set es. de_name e \<notin> em_path ` (set (ix_foreign ix) \<union> snd ` set (ix_entries ix))"
  shows "index_ok fp (fst (scan os fp es (ix, disk)))"
  using assms
proof (induction es arbitrary: ix disk)
  case (Cons e es)
  have tail: "listing_ok fp es" using Cons.prems(2) by (simp add: listing_ok_def scanned_bytes_def)
  have keep: "index_ok fp (fst (scan os fp es (ix, disk')))" for disk'
    using Cons.prems(3,4) by (intro Cons.IH [OF Cons.prems(1) tail]) (auto simp: scanned_bytes_def)
  show ?case
  proof (cases "snd (split_extension (de_name e)) = Some ''writing'' \<or> \<not> is_entry (de_name e)")
    case True
    with keep show ?thesis by auto
  next
    case False
    then have entry: "snd (split_extension (de_name e)) \<noteq> Some ''writing''" "is_entry (de_name e)" by simp_all
    show ?thesis
    proof (cases "\<exists>bytes modified. de_metadata e = Some (True, bytes, modified)")
      case False
      with entry keep show ?thesis by (auto split: option.splits prod.splits bool.splits)
    next
      case True
      then obtain bytes modified where md: "de_metadata e = Some (True, bytes, modified)" by blast
      let ?m = "\<lparr>em_path = de_name e, em_bytes = bytes, em_used = (case modified of None \<Rightarrow> 0 | Some t \<Rightarrow> t)\<rparr>"
      have room: "entry_bytes ix + bytes + scanned_bytes es \<le> usize_max" using Cons.prems(3) md by (simp add: scanned_bytes_def)
      have bytes: "saturating_add (ix_bytes ix) bytes = entry_bytes ix + bytes"
        using Cons.prems(1) room by (simp add: saturating_add_def index_ok_def)
      have away: "\<forall>e' \<in> set es. de_name e' \<noteq> de_name e" 
      proof -
        have "distinct (map de_name (e # es))" using Cons.prems(2) unfolding listing_ok_def by blast
        then show ?thesis unfolding list.map distinct.simps set_map by (metis imageI)
      qed
      show ?thesis
      proof (cases "parse_file_name (de_name e) fp")
        case None
        let ?ix = "ix\<lparr>ix_bytes := saturating_add (ix_bytes ix) bytes, ix_foreign := ix_foreign ix @ [?m]\<rparr>"
        have eb: "entry_bytes ?ix = entry_bytes ix + bytes" by (simp add: entry_bytes_def)
        have "index_ok fp ?ix" using Cons.prems(1,4) room None bytes eb by (auto simp: index_ok_def)
        then have "index_ok fp (fst (scan os fp es (?ix, disk)))"
          using Cons.prems(4) away room eb by (intro Cons.IH [OF _ tail]) auto
        then show ?thesis using entry md None by (simp add: Let_def)
      next
        case (Some key)
        let ?ix = "ix\<lparr>ix_bytes := saturating_add (ix_bytes ix) bytes, ix_entries := AList.update key ?m (ix_entries ix)\<rparr>"
        have name: "ek_tokens key \<le> usize_max" "de_name e = file_name fp key"
          using Cons.prems(2) Some by (auto simp: listing_ok_def)
        have new: "map_of (ix_entries ix) key = None"
        proof (rule ccontr)
          assume "map_of (ix_entries ix) key \<noteq> None"
          then obtain m where m: "(key, m) \<in> set (ix_entries ix)" by (auto dest: map_of_SomeD)
          with Cons.prems(1) name(2) have "de_name e = em_path m" by (auto simp: index_ok_def)
          moreover have "m \<in> snd ` set (ix_entries ix)" using m by force
          ultimately show False using Cons.prems(4) by auto
        qed
        have dist: "distinct (map fst (ix_entries ix))" using Cons.prems(1) by (simp add: index_ok_def)
        have eb: "entry_bytes ?ix = entry_bytes ix + bytes"
          using sum_update [OF dist, of em_bytes key ?m] new by (simp add: entry_bytes_def)
        have sub: "set (AList.update key ?m (ix_entries ix)) \<subseteq> insert (key, ?m) (set (ix_entries ix))" by (rule set_update_subset)
        have all: "ek_tokens k \<le> usize_max \<and> em_path x = file_name fp k" if "(k, x) \<in> set (AList.update key ?m (ix_entries ix))" for k x
        proof -
          from that sub consider "k = key" "x = ?m" | "(k, x) \<in> set (ix_entries ix)" by blast
          then show ?thesis
          proof cases
            case 1
            have "em_path ?m = file_name fp key" by (simp only: entry_meta.select_convs name(2))
            with 1 name(1) show ?thesis by (simp only:)
          qed (use Cons.prems(1) in \<open>auto simp: index_ok_def\<close>)
        qed
        have parts: "ix_entries ?ix = AList.update key ?m (ix_entries ix)" "ix_foreign ?ix = ix_foreign ix"
          "ix_bytes ?ix = entry_bytes ?ix" "entry_bytes ?ix \<le> usize_max"
          using bytes eb room by simp_all
        have "index_ok fp ?ix"
          unfolding index_ok_def parts(1,2)
        proof (intro conjI ballI)
          show "case x of (k, m) \<Rightarrow> ek_tokens k \<le> usize_max \<and> em_path m = file_name fp k"
            if "x \<in> set (AList.update key ?m (ix_entries ix))" for x
          proof -
            obtain k y where x: "x = (k, y)" by (rule prod.exhaust)
            show ?thesis using all [OF that [unfolded x]] unfolding x prod.case .
          qed
        qed (use Cons.prems(1) parts(3,4) distinct_update [OF dist] in \<open>unfold index_ok_def, blast+\<close>)
        then have "index_ok fp (fst (scan os fp es (?ix, disk)))"
        proof (rule Cons.IH [OF _ tail])
          show "entry_bytes ?ix + scanned_bytes es \<le> usize_max" using eb room by simp
          show "\<forall>e' \<in> set es. de_name e' \<notin> em_path ` (set (ix_foreign ?ix) \<union> snd ` set (ix_entries ?ix))"
          proof
            fix e'
            assume e': "e' \<in> set es"
            have "em_path ` snd ` set (ix_entries ?ix) \<subseteq> insert (de_name e) (em_path ` snd ` set (ix_entries ix))"
              using sub unfolding parts(1) by (force simp only: image_insert insert_iff image_iff snd_conv entry_meta.select_convs)
            moreover have "de_name e' \<notin> em_path ` (set (ix_foreign ix) \<union> snd ` set (ix_entries ix))" "de_name e' \<noteq> de_name e"
              using Cons.prems(4) e' away by (auto simp del: image_Un)
            ultimately show "de_name e' \<notin> em_path ` (set (ix_foreign ?ix) \<union> snd ` set (ix_entries ?ix))"
              unfolding image_Un parts(2) by blast
          qed
        qed
        then show ?thesis using entry md Some by (simp add: Let_def)
      qed
    qed
  qed
qed simp

section \<open>Properties\<close>

text \<open>
  C31. The index accounts for the files. Opening a directory whose entries bear the names they were
  written under gives an index with one entry per key, each under its own name, whose byte count
  is the sum over its files; every lookup keeps that, and so does every write that leaves the
  directory below the range of the counter, successful or not.
\<close>

theorem index_accounts_for_the_files:
  assumes "listing_ok (ce_fingerprint E) es" and "cache_open E os (Some es) disk = Inr ca"
  shows "index_ok (ce_fingerprint E) (ca_index ca)
    \<and> (\<forall>ca os' tokens beyond. index_ok (ce_fingerprint E) (ca_index ca) \<longrightarrow>
         index_ok (ce_fingerprint E) (ca_index (fst (cache_lookup E os' tokens beyond ca))))
    \<and> (\<forall>ca os' im m. index_ok (ce_fingerprint E) (ca_index ca) \<and> length (si_tokens im) \<le> usize_max
         \<and> (\<forall>ts md data. entry_tensors (ce_container E) im = Inr ts \<longrightarrow> ct_serialize (ce_container E) ts md = Some data
              \<longrightarrow> entry_bytes (ca_index ca) + ct_size (ce_container E) data \<le> usize_max)
         \<longrightarrow> index_ok (ce_fingerprint E) (ca_index (fst (cache_write E os' im ca))))"
proof (intro conjI allI impI)
  obtain ix disk' where s: "scan os (ce_fingerprint E) es (index_default, disk) = (ix, disk')" by (rule prod.exhaust)
  have dash: "dashless (ce_fingerprint E)" using assms(1) by (simp add: listing_ok_def)
  have zero: "entry_bytes index_default = 0" "ix_entries index_default = []" "ix_foreign index_default = []"
    by (simp_all add: index_default_def entry_bytes_def)
  have "entry_bytes index_default + scanned_bytes es \<le> usize_max" using assms(1) zero by (simp add: listing_ok_def)
  from scan_index_ok [OF index_default_ok [OF dash] assms(1) this, where os = os and disk = disk]
  have "index_ok (ce_fingerprint E) ix" by (simp add: s zero)
  then show "index_ok (ce_fingerprint E) (ca_index ca)"
    using assms(2) by (auto simp: cache_open_def bindE_Inr_iff s evict_index_ok)
qed (use cache_lookup_index_ok cache_write_index_ok in blast)+

lemma index_accounts_for_the_files_witness:
  "case cache_open small_env calm_os (Some [\<lparr>de_name = ''f-00000002-0000000000000001.inferq-prompt'', de_metadata = Some (True, 9, Some 3)\<rparr>,
       \<lparr>de_name = ''notes.txt'', de_metadata = None\<rparr>]) Map.empty of
     Inl _ \<Rightarrow> False
   | Inr ca \<Rightarrow> ix_bytes (ca_index ca) = 9 \<and> index_ok ''f'' (ca_index ca)"
proof -
  let ?es = "[\<lparr>de_name = ''f-00000002-0000000000000001.inferq-prompt'', de_metadata = Some (True, 9, Some 3)\<rparr>,
       \<lparr>de_name = ''notes.txt'', de_metadata = None\<rparr>]"
  let ?key = "\<lparr>ek_tokens = 2, ek_hash = 1\<rparr>"
  have name: "file_name ''f'' ?key = ''f-00000002-0000000000000001.inferq-prompt''" and dash: "dashless ''f''"
    and other: "parse_file_name ''notes.txt'' ''f'' = None"
    and kinds: "snd (split_extension ''f-00000002-0000000000000001.inferq-prompt'') \<noteq> Some ''writing''"
      "is_entry ''f-00000002-0000000000000001.inferq-prompt''" "snd (split_extension ''notes.txt'') \<noteq> Some ''writing''" "\<not> is_entry ''notes.txt''"
    by code_simp+
  have parse: "parse_file_name ''f-00000002-0000000000000001.inferq-prompt'' ''f'' = Some ?key"
    unfolding name [symmetric] by (rule parse_file_name_name [OF dash]) (simp add: usize_max_def)
  have ok: "listing_ok (ce_fingerprint small_env) ?es"
    using dash parse other name by (simp add: listing_ok_def scanned_bytes_def small_env_simps usize_max_def)
  have "\<exists>ca. cache_open small_env calm_os (Some ?es) Map.empty = Inr ca \<and> ix_bytes (ca_index ca) = 9"
    using parse kinds by (simp add: cache_open_def config_validate_def small_env_simps bindE_ensure index_default_def saturating_add_def
        usize_max_def evict_def Let_def)
  then obtain ca where "cache_open small_env calm_os (Some ?es) Map.empty = Inr ca" "ix_bytes (ca_index ca) = 9" by blast
  with index_accounts_for_the_files [OF ok this(1)] show ?thesis by (simp add: small_env_simps)
qed

text \<open>
  Two names that parse to one key (a count without its zeros, say) are counted twice while only
  the later one stays in the index: no eviction can reclaim the other.
\<close>

lemma scan_counts_a_shadowed_file:
  "case scan calm_os ''f'' [\<lparr>de_name = ''f-2-1.inferq-prompt'', de_metadata = Some (True, 9, Some 3)\<rparr>,
       \<lparr>de_name = ''f-02-1.inferq-prompt'', de_metadata = Some (True, 8, Some 4)\<rparr>] (index_default, Map.empty) of
     (ix, disk) \<Rightarrow> ix_bytes ix = 17 \<and> length (ix_entries ix) = 1 \<and> ix_foreign ix = []"
proof -
  have ext: "split_extension ''f-2-1.inferq-prompt'' = (''f-2-1'', Some ''inferq-prompt'')"
    "split_extension ''f-02-1.inferq-prompt'' = (''f-02-1'', Some ''inferq-prompt'')"
    "split_char (CHR ''-'') ''f-2-1'' = [''f'', ''2'', ''1'']" "split_char (CHR ''-'') ''f-02-1'' = [''f'', ''02'', ''1'']"
    "short_fingerprint ''f'' = ''f''"
    by code_simp+
  have num: "parse_usize ''2'' = Some 2" "parse_usize ''02'' = Some 2" "parse_hex ''1'' = Some 1"
    by (simp_all add: parse_usize_def digit_value_def parse_hex_def hex_value_def usize_max_def)
  have parse: "parse_file_name ''f-2-1.inferq-prompt'' ''f'' = Some \<lparr>ek_tokens = 2, ek_hash = 1\<rparr>"
    "parse_file_name ''f-02-1.inferq-prompt'' ''f'' = Some \<lparr>ek_tokens = 2, ek_hash = 1\<rparr>"
    unfolding parse_file_name_def ext fst_conv by (simp_all add: num)
  show ?thesis
    by (simp add: ext parse is_entry_def EXTENSION_def index_default_def saturating_add_def usize_max_def Let_def)
qed

end
