(* ===== verification/Sink_Reached.thy ===== *)
theory Sink_Reached
  imports Snapshots_Kept
begin

text \<open>
  Whatever happens in a turn, a failing pass included, the sink is only ever driven by tokens, and
  never again once it has refused one: its state after the turn is reached from its state before
  by handing it tokens one at a time, all of which it took but possibly the last of a turn that
  failed.
\<close>

inductive reaches :: "'c sink \<Rightarrow> bool \<Rightarrow> 'c \<Rightarrow> 'c \<Rightarrow> bool" for cb where
  here: "reaches cb b c c"
| token: "reaches cb True c d \<Longrightarrow> cb t d = (e, ok) \<Longrightarrow> (b \<longrightarrow> ok) \<Longrightarrow> reaches cb b c e"

lemma reaches_trans:
  assumes "reaches cb b d e" "reaches cb True c d"
  shows "reaches cb b c e"
  using assms
proof (induction b d e rule: reaches.induct)
  case (here b d)
  then show ?case by (cases rule: reaches.cases) (auto intro: reaches.intros)
qed (auto intro: reaches.token)

lemma reaches_weaken: "reaches cb True c d \<Longrightarrow> reaches cb b c d"
  by (erule reaches_trans [OF reaches.here])

lemma reaches_step: "cb t c = (c', ok) \<Longrightarrow> (b \<longrightarrow> ok) \<Longrightarrow> reaches cb b c c'"
  by (rule reaches.token [OF reaches.here])

text \<open>
  What holds of the sink before the turn and through every token it takes holds when the turn
  returns; what a refused token leaves holds when the turn fails.
\<close>

lemma reaches_invariant:
  assumes "reaches cb b c d" "P c" "\<And>t c d. P c \<Longrightarrow> cb t c = (d, True) \<Longrightarrow> P d"
    and "\<And>t c d. P c \<Longrightarrow> cb t c = (d, False) \<Longrightarrow> Q d"
  shows "P d \<or> (\<not> b \<and> Q d)"
  using assms(1,2)
proof (induction b c d rule: reaches.induct)
  case (token c d t e ok b)
  then have "P d" by blast
  show ?case
  proof (cases ok)
    case True
    with token.hyps(2) assms(3) [OF \<open>P d\<close>] show ?thesis by simp
  next
    case False
    with token.hyps(2,3) assms(4) [OF \<open>P d\<close>] show ?thesis by simp
  qed
qed blast

text \<open>Actions that drive the sink by tokens alone.\<close>

definition returns :: "'e + 'a \<Rightarrow> bool" where
  "returns r = (case r of Inl _ \<Rightarrow> False | Inr _ \<Rightarrow> True)"

lemma returns_simps [simp]: "returns (Inr x)" "\<not> returns (Inl e)"
  by (simp_all add: returns_def)

definition drives :: "'c sink \<Rightarrow> ('f, 'c, 'a) run_action \<Rightarrow> bool" where
  "drives cb m \<longleftrightarrow> (\<forall>s. reaches cb (returns (snd (m s))) (snd s) (snd (fst (m s))))"

named_theorems drives_intros \<open>actions that drive the sink by tokens alone\<close>

lemma drivesI: "(\<And>rt c. reaches cb (returns (snd (m (rt, c)))) c (snd (fst (m (rt, c))))) \<Longrightarrow> drives cb m"
  by (auto simp: drives_def)

lemma drivesD: "drives cb m \<Longrightarrow> m (rt, c) = ((rt', c'), r) \<Longrightarrow> reaches cb (returns r) c c'"
  unfolding drives_def by (metis fst_conv snd_conv)

lemma drives_at: "drives cb m \<Longrightarrow> m s = (s', r) \<Longrightarrow> reaches cb (returns r) (snd s) (snd s')"
  unfolding drives_def by (metis fst_conv snd_conv)

text \<open>Actions that leave the sink alone.\<close>

lemma quiet_core_sink: "quiet core m \<Longrightarrow> quiet snd m"
  unfolding quiet_def core_def by (simp add: case_prod_unfold)

lemma quiet_sink_basic [quiet_intros]: "quiet snd (upd f)" "quiet snd (get g)" "quiet snd (on_state h)" "quiet snd (rollback_to n)"
  by (auto simp: quiet_def upd_def get_def on_state_def rollback_to_def split: prod.splits)

lemma quiet_sink_halt [quiet_intros]: "quiet snd (halt_pass E hidden i a)"
  unfolding halt_pass_def Let_def by (intro quiet_intros quiet_core_sink [OF quiet_truncate_mtp_gap])

lemma quiet_sink_verify [quiet_intros]: "quiet snd (verify_rows E ts b)"
  by (auto simp: quiet_def verify_rows_def on_state_def split: prod.split)

lemma drives_quiet_sink: "quiet snd m \<Longrightarrow> drives cb m"
  unfolding quiet_def drives_def by (auto intro: reaches.here)

lemma drives_core: "quiet core m \<Longrightarrow> drives cb m"
  by (intro drives_quiet_sink quiet_core_sink)

lemma drives_bindS [drives_intros]:
  fixes m :: "('f, 'c, 'a) run_action" and f :: "'a \<Rightarrow> ('f, 'c, 'b) run_action"
  assumes "drives cb m" "\<And>x. drives cb (f x)"
  shows "drives cb (bindS m f)"
proof (rule drivesI)
  fix rt :: "'f runtime" and c :: 'c
  obtain rt1 c1 q where m: "m (rt, c) = ((rt1, c1), q)" by (metis surj_pair)
  show "reaches cb (returns (snd (bindS m f (rt, c)))) c (snd (fst (bindS m f (rt, c))))"
  proof (cases q)
    case (Inl e)
    with drivesD [OF assms(1) m] m show ?thesis by (simp add: bindS_def)
  next
    case (Inr x)
    obtain rt2 c2 q2 where f: "f x (rt1, c1) = ((rt2, c2), q2)" by (metis surj_pair)
    have "reaches cb True c c1" using drivesD [OF assms(1) m] Inr by simp
    from reaches_trans [OF drivesD [OF assms(2) f] this] m f Inr show ?thesis by (simp add: bindS_def)
  qed
qed

lemma drives_basic [drives_intros]:
  "drives cb (returnS x)" "drives cb (failS e)" "drives cb (liftS r)" "drives cb (ensureS b e)" "drives cb (upd f)" "drives cb (get g)"
  by (rule drivesI, simp add: reaches.here)+

lemma drives_if [drives_intros]: "drives cb m \<Longrightarrow> drives cb n \<Longrightarrow> drives cb (if b then m else n)"
  by simp

lemma drives_option [drives_intros]:
  "drives cb m \<Longrightarrow> (\<And>x. drives cb (f x)) \<Longrightarrow> drives cb (case z of None \<Rightarrow> m | Some x \<Rightarrow> f x)"
  by (cases z) simp_all

lemma drives_pair [drives_intros]: "(\<And>a b. drives cb (f a b)) \<Longrightarrow> drives cb (case z of (a, b) \<Rightarrow> f a b)"
  by (cases z) simp

lemma drives_emit [drives_intros]: "drives cb (emit cb t)"
  by (rule drivesI) (auto simp: emit_def split: prod.split intro!: reaches_step)

lemma drives_sinkless [drives_intros]:
  "drives cb (on_state h)" "drives cb (rollback_to n)" "drives cb (verify_rows E ts b)" "drives cb (halt_pass E hidden i a)"
  by (intro drives_quiet_sink quiet_intros)+

lemma drives_verify_or_undo [drives_intros]: "drives cb (verify_or_undo E ts b :: ('f, 'c, 'f forward_output) run_action)"
proof (rule drives_quiet_sink, unfold quiet_def, rule allI)
  fix s :: "('f, 'c) session"
  obtain s1 q where v: "verify_rows E ts b s = (s1, q)" by (rule prod.exhaust)
  have undo: "quiet snd (bindS (rollback_to 0) (\<lambda>_. failS e) :: ('f, 'c, 'f forward_output) run_action)" for e
    by (intro quiet_intros)
  then have "snd (fst ((bindS (rollback_to 0) (\<lambda>_. failS e) :: ('f, 'c, 'f forward_output) run_action) s1)) = snd s1" for e
    unfolding quiet_def by blast
  with quietD [OF quiet_sink_verify v] v show "snd (fst ((verify_or_undo E ts b :: ('f, 'c, 'f forward_output) run_action) s)) = snd s"
    by (cases q) (simp_all add: verify_or_undo_def)
qed

lemmas drives_quiet [drives_intros] =
  drives_core [OF quiet_synchronize_mtp] drives_core [OF quiet_catch_up_mtp] drives_core [OF quiet_retain_mtp_gap]
  drives_core [OF quiet_truncate_mtp_gap] drives_core [OF quiet_draft_step]

lemma drives_forward [drives_intros]: "drives cb (rt_forward E ts)"
  unfolding rt_forward_def by (intro drives_intros)

lemma drives_close_loop: "(\<And>t. drives cb (step t)) \<Longrightarrow> drives cb (close_loop step ts l)"
  by (induction ts arbitrary: l) (auto intro: drives_intros)

lemma drives_announce [drives_intros]: "drives cb (announce cb t)"
  unfolding announce_def by (intro drives_intros)

lemma drives_authoritative [drives_intros]: "drives cb (evaluate_authoritative E track t)"
  unfolding evaluate_authoritative_def by (intro drives_intros)

lemma drives_close_target [drives_intros]: "drives cb (force_close_thinking_target_only E cb p closure)"
  unfolding force_close_thinking_target_only_def force_close_def by (intro drives_intros drives_close_loop)

lemma drives_close_policy [drives_intros]: "drives cb (force_close_thinking_policy E cb track p closure)"
  unfolding force_close_thinking_policy_def force_close_def by (intro drives_intros drives_close_loop)

lemma drives_sample [drives_intros]: "drives cb (sample_and_emit E opts cb sampler logits g)"
  unfolding sample_and_emit_def by (intro drives_intros)

lemma drives_first [drives_intros]: "drives cb (first_token E opts cb sampler track logits g th)"
  unfolding first_token_def by (intro drives_intros)

lemma drives_finish [drives_intros]: "drives cb (finish_turn E prompt evaluated r)"
  unfolding finish_turn_def by (intro drives_intros)

lemma drives_passes [drives_intros]: "drives cb (prefill_passes E track prior passes out)"
  by (induction passes arbitrary: out) (auto intro!: drives_intros)

lemma drives_prefill [drives_intros]: "drives cb (prefill_in_passes E ts track)"
  unfolding prefill_in_passes_def by (intro drives_intros)

lemma drives_commit [drives_intros]: "drives cb (commit_rows E opts track ts hs n prior)"
  unfolding commit_rows_def by (intro drives_intros)

lemma drives_verify_step [drives_intros]: "drives cb (verify_step E opts track seed drafts arm)"
  unfolding verify_step_def Let_def by (intro drives_intros)

text \<open>From the state the sink is left in by one token, an action drives it on.\<close>

lemma drives_after:
  assumes "drives cb m" "cb t c = (c1, ok)" "ok" "m (rt1, c1) = ((rt2, c2), r)"
  shows "reaches cb (returns r) c c2"
  using drivesD [OF assms(1,4)] reaches_step [of cb, OF assms(2), of True] assms(3) by (auto intro: reaches_trans)

lemma drives_outputs [drives_intros]:
  fixes cb :: "'c sink" and E :: "('f, 'r) env"
  shows "drives cb (emit_outputs E opts cb sampler track hidden accepted index outputs g th pending)"
proof (induction outputs arbitrary: index g th pending)
  case (Cons shown outputs)
  obtain token accepted_draft where shown: "shown = (token, accepted_draft)" by (rule prod.exhaust)
  show ?case
  proof (rule drivesI)
    fix rt :: "'f runtime" and c :: 'c
    obtain c1 ok where cb: "cb token c = (c1, ok)" by (rule prod.exhaust)
    obtain th1 b where obs: "observe_opt th token (\<not> is_stop_token E opts token) = (th1, b)" by (rule prod.exhaust)
    let ?p = "if accepted_draft then None else Some token"
    let ?refuse = "bindS (halt_pass E hidden index accepted) (\<lambda>_.
        bindS (upd (\<lambda>rt. rt\<lparr>rt_pending := Some token\<rparr>)) (\<lambda>_. failS CallbackFailure)) :: ('f, 'c, emitted) run_action"
    let ?close = "bindS (force_close_thinking_policy E cb track ?p (closure_of th1)) (\<lambda>closed.
        bindS (sample_and_emit E opts cb sampler closed ((g @ [token]) @ closure_of th1)) (\<lambda>(g2, pending2).
        returnS \<lparr>em_generated = g2, em_thinking = th1, em_pending = pending2, em_closed = True, em_done = False\<rparr>))"
    have alone: "quiet snd ?refuse" and refuses: "\<not> returns (snd (?refuse s))" for s
      by (intro quiet_intros) (auto simp: bindS_def returns_def upd_def split: prod.split sum.split)
    have q: "drives cb ?close" by (intro drives_intros)
    consider (refused) "\<not> ok" | (close) "ok" "b = ForceClosure" | (ends) "ok" "b \<noteq> ForceClosure"
        "length (g @ [token]) = go_max_new_tokens opts \<or> is_stop_token E opts token"
      | (more) "ok" "b \<noteq> ForceClosure" "\<not> (length (g @ [token]) = go_max_new_tokens opts \<or> is_stop_token E opts token)"
      by blast
    then show "reaches cb (returns (snd (emit_outputs E opts cb sampler track hidden accepted index (shown # outputs) g th pending (rt, c))))
      c (snd (fst (emit_outputs E opts cb sampler track hidden accepted index (shown # outputs) g th pending (rt, c))))"
    proof cases
      case refused
      obtain s2 r2 where m: "?refuse (push_token token rt, c1) = (s2, r2)" by (rule prod.exhaust)
      have "snd s2 = c1" "\<not> returns r2" using quietD [OF alone m] refuses [of "(push_token token rt, c1)"] m by simp_all
      with refused m reaches_step [of cb, OF cb, of False] show ?thesis by (simp add: shown cb)
    next
      case close
      then show ?thesis using drives_after [OF q cb close(1), of "push_token token rt"] obs
        by (cases "?close (push_token token rt, c1)") (auto simp: shown cb Let_def)
    next
      case ends
      with reaches_step [of cb, OF cb, of True] obs show ?thesis by (auto simp: shown cb Let_def)
    next
      case more
      let ?m = "emit_outputs E opts cb sampler track hidden accepted (index + 1) outputs (g @ [token]) th1 ?p"
      from more show ?thesis using drives_after [OF Cons.IH cb more(1), of "index + 1" "g @ [token]" th1 ?p "push_token token rt"] obs
        by (cases "?m (push_token token rt, c1)") (auto simp: shown cb Let_def)
    qed
  qed
qed (auto intro!: drivesI reaches.here)

lemma drives_policy_step [drives_intros]: "drives cb (policy_step E opts cb sampler track loc seed)"
  unfolding policy_step_def Let_def by (intro drives_intros)

lemma drives_policy_loop [drives_intros]:
  fixes cb :: "'c sink" and E :: "('f, 'r) env"
  shows "drives cb (policy_loop E opts cb sampler track loc pending)"
  unfolding drives_def
proof
  fix s :: "('f, 'c) session"
  show "reaches cb (returns (snd (policy_loop E opts cb sampler track loc pending s))) (snd s) (snd (fst (policy_loop E opts cb sampler track loc pending s)))"
  proof (induction E opts cb sampler track loc pending s rule: policy_loop.induct)
    case (1 E opts cb sampler track loc pending s)
    note run = policy_loop.simps [of E opts cb sampler track loc pending s]
    show ?case
    proof (cases "\<exists>seed. pending = Some seed \<and> \<not> (go_max_new_tokens opts \<le> length (pl_generated loc) \<or> is_stop_token E opts seed)")
      case False
      then have "fst (policy_loop E opts cb sampler track loc pending s) = s" unfolding run by (cases pending) (auto simp: Let_def)
      then show ?thesis by (simp add: reaches.here)
    next
      case True
      then obtain seed where seed: "pending = Some seed" "\<not> (go_max_new_tokens opts \<le> length (pl_generated loc) \<or> is_stop_token E opts seed)"
        by blast
      note run' = policy_loop.simps [of E opts cb sampler track loc "Some seed" s]
      obtain s1 r1 where step: "policy_step E opts cb sampler track loc seed s = (s1, r1)" by (rule prod.exhaust)
      note first = drives_at [OF drives_policy_step step]
      show ?thesis
      proof (cases r1)
        case (Inl e)
        with seed step first show ?thesis by (simp add: run' Let_def)
      next
        case (Inr x)
        with first have first: "reaches cb True (snd s) (snd s1)" by simp
        obtain loc1 p1 more where x: "x = (loc1, p1, more)" by (rule prod_cases3)
        show ?thesis
        proof (cases more)
          case True
          from "1.IH" [OF refl seed step [symmetric] Inr x [symmetric] refl True] first seed step Inr x True show ?thesis
            by (simp add: run' Let_def) (blast intro: reaches_trans)
        next
          case False
          with seed step reaches_weaken [OF first] Inr x show ?thesis by (simp add: run' Let_def)
        qed
      qed
    qed
  qed
qed

lemma drives_plain_loop [drives_intros]:
  fixes cb :: "'c sink" and E :: "('f, 'r) env"
  shows "drives cb (plain_loop E opts cb logits g pending th sampler)"
  unfolding drives_def
proof
  fix s :: "('f, 'c) session"
  show "reaches cb (returns (snd (plain_loop E opts cb logits g pending th sampler s))) (snd s) (snd (fst (plain_loop E opts cb logits g pending th sampler s)))"
  proof (induction E opts cb logits g pending th sampler s rule: plain_loop.induct)
    case (1 E opts cb logits g pending th sampler s)
    note run = plain_loop.simps [of E opts cb logits g pending th sampler s]
    obtain sampler1 q where sample: "sample_row E sampler logits = (sampler1, q)" by (rule prod.exhaust)
    show ?case
    proof (cases "\<exists>token. \<not> go_max_new_tokens opts \<le> length g \<and> q = Inr token")
      case False
      with sample show ?thesis by (cases q) (auto simp: run intro: reaches.here)
    next
      case True
      then obtain token where more: "\<not> go_max_new_tokens opts \<le> length g" "q = Inr token" by blast
      obtain s1 q1 where emit: "emit cb token s = (s1, q1)" by (rule prod.exhaust)
      note r1 = drives_at [OF drives_emit emit]
      show ?thesis
      proof (cases q1)
        case (Inl e)
        with more sample emit r1 show ?thesis by (simp add: run)
      next
        case (Inr u)
        with r1 have r1: "reaches cb True (snd s) (snd s1)" by simp
        let ?stop = "is_stop_token E opts token" and ?g1 = "g @ [token]"
        obtain th1 b where obs: "observe_opt th token (\<not> ?stop) = (th1, b)" by (rule prod.exhaust)
        note facts = more sample emit Inr obs
        note ih = "1.IH" [OF more(1) sample [symmetric] more(2) emit [symmetric] Inr refl refl obs [symmetric]]
        show ?thesis
        proof (cases "?stop \<or> (b \<noteq> ForceClosure \<and> go_max_new_tokens opts \<le> length ?g1)")
          case True
          with facts r1 reaches_weaken [OF r1] show ?thesis by (auto simp: run Let_def)
        next
          case go: False
          show ?thesis
          proof (cases "b = ForceClosure")
            case True
            obtain s2 q2 where close: "force_close_thinking_target_only E cb (Some token) (closure_of th1) s1 = (s2, q2)" by (rule prod.exhaust)
            have r2: "reaches cb (returns q2) (snd s) (snd s2)"
              using drives_at [OF drives_close_target close] r1 by (rule reaches_trans)
            show ?thesis
            proof (cases "\<exists>l. q2 = Inr l \<and> \<not> go_max_new_tokens opts \<le> length (?g1 @ closure_of th1)")
              case False
              with facts go True close r2 show ?thesis by (cases q2) (auto simp: run Let_def)
            next
              case looping: True
              then obtain l where l: "q2 = Inr l" "\<not> go_max_new_tokens opts \<le> length (?g1 @ closure_of th1)" by blast
              have "\<not> ?stop" using go by blast
              from r2 l have "reaches cb True (snd s) (snd s2)" by simp
              from reaches_trans [OF ih(1) [OF \<open>\<not> ?stop\<close> True close [symmetric] l(1) refl l(2)] this] facts go True close l
              show ?thesis by (auto simp: run Let_def)
            qed
          next
            case noclose: False
            with go have nostop: "\<not> ?stop" "\<not> go_max_new_tokens opts \<le> length ?g1" by blast+
            obtain s2 q2 where fwd: "rt_forward E [token] s1 = (s2, q2)" by (rule prod.exhaust)
            have r2: "reaches cb (returns q2) (snd s) (snd s2)"
              using drives_at [OF drives_forward fwd] r1 by (rule reaches_trans)
            show ?thesis
            proof (cases q2)
              case (Inl e)
              with facts nostop noclose fwd r2 show ?thesis by (simp add: run Let_def)
            next
              case (Inr l)
              with r2 have "reaches cb True (snd s) (snd s2)" by simp
              from reaches_trans [OF ih(2) [OF nostop(1) noclose nostop(2) fwd [symmetric] Inr] this] facts nostop noclose fwd Inr
              show ?thesis by (auto simp: run Let_def)
            qed
          qed
        qed
      qed
    qed
  qed
qed

lemma drives_turn: "drives cb (generate_tokens_with_callback E opts cb prompt)"
  unfolding generate_tokens_with_callback_def generate_speculative_policy_def generate_plain_def Let_def by (intro drives_intros)

lemma turn_reaches:
  "generate_tokens_with_callback E opts cb prompt (rt, c) = ((rt', c'), r) \<Longrightarrow> reaches cb (returns r) c c'"
  by (rule drivesD [OF drives_turn])

end
