(* ===== verification/Tool_Calls.thy ===== *)
theory Tool_Calls
  imports Text_Bytes
begin

text \<open>
  The tool-call syntax of the model (\<open>src/tool_calls.rs\<close>): reading the calls of a generated turn.
\<close>

section \<open>Reading calls\<close>

definition CALL_OPEN :: string where "CALL_OPEN = ''<tool_call>''"
definition CALL_CLOSE :: string where "CALL_CLOSE = ''</tool_call>''"
definition FUNCTION_OPEN :: string where "FUNCTION_OPEN = ''<function=''"
definition FUNCTION_CLOSE :: string where "FUNCTION_CLOSE = ''</function>''"
definition PARAMETER_OPEN :: string where "PARAMETER_OPEN = ''<parameter=''"
definition PARAMETER_CLOSE :: string where "PARAMETER_CLOSE = ''</parameter>''"

lemmas markers = CALL_OPEN_def CALL_CLOSE_def FUNCTION_OPEN_def FUNCTION_CLOSE_def PARAMETER_OPEN_def PARAMETER_CLOSE_def

record tool_call =
  tc_name :: string
  tc_parameters :: "(string \<times> string) list"

text \<open>The template frames a value with a newline on each side.\<close>

definition unframe :: "string \<Rightarrow> string" where
  "unframe value_text =
     (let v = (case strip_prefix value_text [CHR 0x0A] of None \<Rightarrow> value_text | Some t \<Rightarrow> t)
      in case strip_suffix v [CHR 0x0A] of None \<Rightarrow> v | Some t \<Rightarrow> t)"

text \<open>The loop over the parameters; both \<open>break\<close>s keep what was read so far.\<close>

function parse_parameters :: "string \<Rightarrow> (string \<times> string) list" where
  "parse_parameters cursor =
     (case str_find cursor PARAMETER_OPEN of
        None \<Rightarrow> []
      | Some start \<Rightarrow>
          let after = drop (start + length PARAMETER_OPEN) cursor
          in case str_find after ''>'' of
               None \<Rightarrow> []
             | Some key_end \<Rightarrow>
                 let key = trim (take key_end after);
                     value_text = drop (key_end + 1) after
                 in case str_find value_text PARAMETER_CLOSE of
                      None \<Rightarrow> []
                    | Some value_end \<Rightarrow>
                        (key, unframe (take value_end value_text))
                          # parse_parameters (drop (value_end + length PARAMETER_CLOSE) value_text))"
  by auto
termination
  by (relation "measure length") (auto dest!: str_find_bound simp: PARAMETER_OPEN_def)

declare parse_parameters.simps [simp del]

definition parse_call :: "string \<Rightarrow> tool_call option" where
  "parse_call body =
     (case str_find body FUNCTION_OPEN of
        None \<Rightarrow> None
      | Some open_at \<Rightarrow>
          let after_open = drop (open_at + length FUNCTION_OPEN) body
          in case str_find after_open ''>'' of
               None \<Rightarrow> None
             | Some name_end \<Rightarrow>
                 let name = trim (take name_end after_open)
                 in if name = [] then None
                    else let inner = drop (name_end + 1) after_open
                         in case str_find inner FUNCTION_CLOSE of
                              None \<Rightarrow> None
                            | Some close \<Rightarrow>
                                Some \<lparr>tc_name = name, tc_parameters = parse_parameters (take close inner)\<rparr>)"

function parse_blocks :: "string \<Rightarrow> tool_call list" where
  "parse_blocks rest =
     (case str_find rest CALL_OPEN of
        None \<Rightarrow> []
      | Some start \<Rightarrow>
          let body = drop (start + length CALL_OPEN) rest
          in case str_find body CALL_CLOSE of
               None \<Rightarrow> (case parse_call body of None \<Rightarrow> [] | Some call \<Rightarrow> [call])
             | Some block_end \<Rightarrow>
                 (case parse_call (take block_end body) of None \<Rightarrow> [] | Some call \<Rightarrow> [call])
                   @ parse_blocks (drop (block_end + length CALL_CLOSE) body))"
  by auto
termination
  by (relation "measure length") (auto dest!: str_find_bound simp: CALL_OPEN_def)

declare parse_blocks.simps [simp del]

definition parse :: "string \<Rightarrow> string \<times> tool_call list" where
  "parse text_in =
     (case str_find text_in CALL_OPEN of
        None \<Rightarrow> (text_in, [])
      | Some first \<Rightarrow>
          let calls = parse_blocks (drop first text_in)
          in if calls = [] then (text_in, []) else (trim_end (take first text_in), calls))"

end
