(* ===== verification/Engine.thy ===== *)
theory Engine
  imports Policy Stop_Buffer Tool_Calls Prompt_Cache
begin

text \<open>
  The inference engine behind the HTTP surface (\<open>src/server/engine.rs\<close>): one job at a time on one
  session. \<open>generate\<close> encodes the prompt, puts the session into the longest state it can prove to
  be a prefix of it, stores a cache entry at a boundary, decodes with the token callback
  \<open>on_token\<close>, and keeps the tokens the session then represents in \<open>live\<close>.

  The tokenizer's streaming decoder is a parameter, a state and a step. The receiver of a job's
  events may go away at any time: \<open>ch_left\<close> counts the sends it still takes. The cache's writer
  thread runs beside the job; \<open>moments\<close> says which steps it has made, and what the operating
  system answers, at each point where the job touches the cache. Durations and log lines are not
  modelled.
\<close>

section \<open>Counting the thinking section\<close>

definition THINK_CLOSE :: string where "THINK_CLOSE = ''</think>''"

record thinking_counter =
  tn_open :: bool
  tn_tokens :: nat
  tn_scanned :: nat

definition thinking_counter_new :: "bool \<Rightarrow> thinking_counter" where
  "thinking_counter_new is_open = \<lparr>tn_open = is_open, tn_tokens = 0, tn_scanned = 0\<rparr>"

text \<open>\<open>while resume > 0 && !raw.is_char_boundary(resume) { resume -= 1 }\<close>\<close>

primrec back_to_boundary :: "string \<Rightarrow> nat \<Rightarrow> nat" where
  "back_to_boundary raw 0 = 0"
| "back_to_boundary raw (Suc n) = (if is_char_boundary raw (Suc n) then Suc n else back_to_boundary raw n)"

definition observe_text :: "string \<Rightarrow> thinking_counter \<Rightarrow> thinking_counter" where
  "observe_text raw tn =
     (if \<not> tn_open tn then tn
      else let tn1 = tn\<lparr>tn_tokens := tn_tokens tn + 1\<rparr>
           in if str_contains (drop (tn_scanned tn1) raw) THINK_CLOSE then tn1\<lparr>tn_open := False\<rparr>
              else tn1\<lparr>tn_scanned := back_to_boundary raw (length raw - (length THINK_CLOSE - 1))\<rparr>)"

section \<open>Jobs and their events\<close>

datatype finish_reason = FinishStop | FinishLength | FinishToolCalls

datatype reuse = ReuseNone | ReuseLive | ReuseCache

record completion =
  cp_finish_reason :: finish_reason
  cp_prompt_tokens :: nat
  cp_completion_tokens :: nat
  cp_reused_tokens :: nat
  cp_reuse :: reuse
  cp_tool_calls :: "tool_call list"
  cp_reasoning_tokens :: "nat option"
  cp_prefill_tokens :: nat

datatype engine_error =
    EncodeFailure
  | NoPromptTokens
  | RestoreFailure run_error
  | BoundaryFailure run_error
  | TurnFailure run_error

datatype event = Delta string | Done completion | Failed engine_error

text \<open>The sending half of a job's channel.\<close>

record channel =
  ch_sent :: "event list"
  ch_left :: "nat option"

definition is_closed :: "channel \<Rightarrow> bool" where
  "is_closed ch \<longleftrightarrow> ch_left ch = Some 0"

definition send :: "event \<Rightarrow> channel \<Rightarrow> channel \<times> bool" where
  "send e ch = (if is_closed ch then (ch, False)
     else (\<lparr>ch_sent = ch_sent ch @ [e], ch_left = map_option (\<lambda>n. n - 1) (ch_left ch)\<rparr>, True))"

record 'f job_request =
  jr_prompt :: string
  jr_stable_prefix :: "string option"
  jr_options :: "'f generation_options"
  jr_stop_strings :: "string list"
  jr_tools_enabled :: bool
  jr_thinking_open :: bool

datatype halt = StopString | Disconnected

section \<open>The engine\<close>

record ('f, 'r, 'd, 'b) engine_env =
  ee_run :: "('f, 'r) env"
  ee_decoder :: 'd
  ee_decode_step :: "'d \<Rightarrow> u32 \<Rightarrow> 'd \<times> (unit + string option)"
  ee_cache :: "('f, 'b) cache_env option"
  ee_prefix_reuse :: bool

record ('f, 'b) engine =
  en_runtime :: "'f runtime"
  en_live :: "u32 list option"
  en_world :: "('f, 'b) cache_world"

text \<open>
  When a job looks up an entry, asks for a boundary and stores an image, the writer has made these
  steps since the previous access, each with its own answers of the operating system.
\<close>

record 'b moments =
  mo_before_lookup :: "'b os list"
  mo_lookup :: "'b os"
  mo_before_boundary :: "'b os list"
  mo_before_store :: "'b os list"

definition writer_runs :: "('f, 'b) cache_env \<Rightarrow> 'b os list \<Rightarrow> ('f, 'b) cache_world \<Rightarrow> ('f, 'b) cache_world" where
  "writer_runs CE oss w = foldl (\<lambda>w os. writer_step CE os w) w oss"

text \<open>\<open>prompt_cache.as_deref().filter(|_| config.prefix_reuse)\<close>\<close>

definition active_cache :: "('f, 'r, 'd, 'b) engine_env \<Rightarrow> ('f, 'b) cache_env option" where
  "active_cache EE = (if ee_prefix_reuse EE then ee_cache EE else None)"

definition requested_mode :: "'f generation_options \<Rightarrow> speculative_mode" where
  "requested_mode opts = effective_speculative_mode (go_speculative_mode opts) (go_mtp_draft_tokens opts) (go_ngram_draft_tokens opts)"

definition serves_requested_arms :: "'f runtime \<Rightarrow> 'f generation_options \<Rightarrow> bool" where
  "serves_requested_arms rt opts \<longleftrightarrow> requested_mode opts \<noteq> ModeMtp \<or> mtp_arm_ready rt"

section \<open>Where a job starts\<close>

text \<open>An action of the runtime outside a turn: there is no output sink.\<close>

definition on_runtime :: "('f, unit, 'a) run_action \<Rightarrow> ('f, 'b) engine \<Rightarrow> ('f, 'b) engine \<times> (run_error + 'a)" where
  "on_runtime m es = (case m (en_runtime es, ()) of ((rt, _), r) \<Rightarrow> (es\<lparr>en_runtime := rt\<rparr>, r))"

definition live_tokens :: "u32 list \<Rightarrow> u32 list option \<Rightarrow> nat" where
  "live_tokens tokens live = (case live of
      Some history \<Rightarrow> if history \<noteq> [] \<and> length history < length tokens \<and> prefix history tokens then length history else 0
    | None \<Rightarrow> 0)"

text \<open>The lookup of a job: the writer's steps up to it, then the lookup itself.\<close>

definition job_lookup ::
    "('f, 'r, 'd, 'b) engine_env \<Rightarrow> 'b moments \<Rightarrow> u32 list \<Rightarrow> nat \<Rightarrow> ('f, 'b) engine \<Rightarrow> ('f, 'b) engine \<times> 'f session_image option" where
  "job_lookup EE mo tokens beyond es = (case active_cache EE of
      None \<Rightarrow> (es, None)
    | Some CE \<Rightarrow>
        let w = writer_runs CE (mo_before_lookup mo) (en_world es)
        in case cache_lookup CE (mo_lookup mo) tokens beyond (cw_cache w) of
             (ca, found) \<Rightarrow> (es\<lparr>en_world := w\<lparr>cw_cache := ca\<rparr>\<rparr>, found))"

definition start_over :: "('f, 'r, 'd, 'b) engine_env \<Rightarrow> ('f, 'b) engine \<Rightarrow> ('f, 'b) engine \<times> (engine_error + reuse \<times> nat)" where
  "start_over EE es = (es\<lparr>en_runtime := reset (ee_run EE) (en_runtime es), en_live := None\<rparr>, Inr (ReuseNone, 0))"

definition prepare_session ::
    "('f, 'r, 'd, 'b) engine_env \<Rightarrow> 'b moments \<Rightarrow> 'f generation_options \<Rightarrow> u32 list \<Rightarrow> ('f, 'b) engine
      \<Rightarrow> ('f, 'b) engine \<times> (engine_error + reuse \<times> nat)" where
  "prepare_session EE mo opts tokens es =
     (if \<not> ee_prefix_reuse EE then start_over EE es
      else let held = live_tokens tokens (en_live es)
           in case job_lookup EE mo tokens held es of
                (es1, Some im) \<Rightarrow>
                  (case on_runtime (restore_session (ee_run EE) im) es1 of
                     (es2, Inl e) \<Rightarrow> (es2, Inl (RestoreFailure e))
                   | (es2, Inr _) \<Rightarrow>
                       if serves_requested_arms (en_runtime es2) opts
                       then (es2\<lparr>en_live := Some (si_tokens im)\<rparr>, Inr (ReuseCache, im_position (si_model im)))
                       else start_over EE es2)
              | (es1, None) \<Rightarrow>
                  if 0 < held \<and> serves_requested_arms (en_runtime es1) opts then (es1, Inr (ReuseLive, held))
                  else start_over EE es1)"

text \<open>Storing an image at the boundary the session now sits at, when the session can supply it.\<close>

definition store_here ::
    "('f, 'r, 'd, 'b) engine_env \<Rightarrow> ('f, 'b) cache_env \<Rightarrow> 'b moments \<Rightarrow> bool \<Rightarrow> u32 list \<Rightarrow> ('f, 'b) engine
      \<Rightarrow> ('f, 'b) engine \<times> (engine_error + unit)" where
  "store_here EE CE mo wants_mtp tokens es =
     (if wants_mtp \<and> \<not> images_mtp_state (en_runtime es) then (es, Inr ())
      else case session_image tokens (en_runtime es) of
        Inl e \<Rightarrow> (es, Inl (BoundaryFailure e))
      | Inr im \<Rightarrow> (es\<lparr>en_world := fst (cache_store im (writer_runs CE (mo_before_store mo) (en_world es)))\<rparr>, Inr ()))"

definition store_boundary_entry ::
    "('f, 'r, 'd, 'b) engine_env \<Rightarrow> ('f, 'b) cache_env \<Rightarrow> 'b moments \<Rightarrow> 'f generation_options \<Rightarrow> u32 list \<Rightarrow> nat \<Rightarrow> nat option
      \<Rightarrow> ('f, 'b) engine \<Rightarrow> ('f, 'b) engine \<times> (engine_error + nat)" where
  "store_boundary_entry EE CE mo opts tokens reused repeated es =
     (let es1 = es\<lparr>en_world := writer_runs CE (mo_before_boundary mo) (en_world es)\<rparr>
      in case cache_store_boundary CE tokens reused repeated (cw_cache (en_world es1)) of
           None \<Rightarrow> (es1, Inr reused)
         | Some boundary \<Rightarrow>
             let wants_mtp = allows_mtp (requested_mode opts) \<and> ev_mtp (ee_run EE) \<noteq> None
             in case on_runtime (prefill_tokens (ee_run EE) (slice tokens reused boundary) wants_mtp) es1 of
                  (es2, Inl e) \<Rightarrow> (es2, Inl (BoundaryFailure e))
                | (es2, Inr _) \<Rightarrow>
                    (case store_here EE CE mo wants_mtp (take boundary tokens) es2 of
                       (es3, Inl e) \<Rightarrow> (es3, Inl e)
                     | (es3, Inr _) \<Rightarrow> (es3, Inr boundary)))"

text \<open>The prefix of a job that a later request repeats, re-encoded and checked.\<close>

definition stable_token_count :: "('f, 'r) env \<Rightarrow> string \<Rightarrow> u32 list \<Rightarrow> nat option" where
  "stable_token_count E stable_prefix tokens = (case ev_encode E stable_prefix False of
      None \<Rightarrow> None
    | Some pre \<Rightarrow> if prefix pre tokens then Some (length pre) else None)"

section \<open>The token callback\<close>

record 'd generation =
  gn_completion :: nat
  gn_generated :: "u32 list"
  gn_decoder :: 'd
  gn_raw :: string
  gn_reasoning :: thinking_counter
  gn_tools :: "stop_buffer option"
  gn_calling :: bool
  gn_stops :: stop_buffer
  gn_halted :: "halt option"
  gn_channel :: channel

definition generation_new :: "('f, 'r, 'd, 'b) engine_env \<Rightarrow> 'f job_request \<Rightarrow> channel \<Rightarrow> 'd generation" where
  "generation_new EE req ch = \<lparr>gn_completion = 0, gn_generated = [], gn_decoder = ee_decoder EE, gn_raw = [],
     gn_reasoning = thinking_counter_new (jr_thinking_open req),
     gn_tools = (if jr_tools_enabled req then Some (stop_buffer_new [CALL_OPEN]) else None), gn_calling = False,
     gn_stops = stop_buffer_new (jr_stop_strings req), gn_halted = None, gn_channel = ch\<rparr>"

text \<open>What of a chunk is part of the visible answer.\<close>

definition visible_part :: "string \<Rightarrow> 'd generation \<Rightarrow> 'd generation \<times> string" where
  "visible_part chunk gn = (case gn_tools gn of
      None \<Rightarrow> (gn, chunk)
    | Some guard \<Rightarrow>
        if gn_calling gn then (gn, [])
        else case Stop_Buffer.push guard chunk of
               (guard', step) \<Rightarrow> (gn\<lparr>gn_tools := Some guard', gn_calling := ss_matched step\<rparr>, ss_emit step))"

definition call_closed :: "string \<Rightarrow> bool" where
  "call_closed raw = (case str_rfind raw CALL_OPEN of
      None \<Rightarrow> False
    | Some start \<Rightarrow> str_contains (drop start raw) CALL_CLOSE)"

definition deliver :: "string \<Rightarrow> 'd generation \<Rightarrow> 'd generation \<times> bool" where
  "deliver visible gn = (case Stop_Buffer.push (gn_stops gn) visible of
      (stops, step) \<Rightarrow>
        let gn1 = gn\<lparr>gn_stops := stops\<rparr>;
            (ch, taken) = (if ss_emit step = [] then (gn_channel gn1, True) else send (Delta (ss_emit step)) (gn_channel gn1))
        in if \<not> taken then (gn1\<lparr>gn_channel := ch, gn_halted := Some Disconnected\<rparr>, False)
           else if ss_matched step then (gn1\<lparr>gn_channel := ch, gn_halted := Some StopString\<rparr>, False)
           else (gn1\<lparr>gn_channel := ch\<rparr>, True))"

definition on_chunk :: "string \<Rightarrow> 'd generation \<Rightarrow> 'd generation \<times> bool" where
  "on_chunk chunk gn =
     (let raw = gn_raw gn @ chunk
      in case visible_part chunk (gn\<lparr>gn_raw := raw, gn_reasoning := observe_text raw (gn_reasoning gn)\<rparr>) of
           (gn1, visible) \<Rightarrow>
             if gn_calling gn1 \<and> call_closed raw then (gn1\<lparr>gn_halted := Some StopString\<rparr>, False)
             else if visible = [] then (gn1, True)
             else deliver visible gn1)"

definition on_token :: "('f, 'r, 'd, 'b) engine_env \<Rightarrow> 'd generation sink" where
  "on_token EE token gn =
     (let gn1 = gn\<lparr>gn_completion := gn_completion gn + 1, gn_generated := gn_generated gn @ [token]\<rparr>
      in case ee_decode_step EE (gn_decoder gn1) token of
           (d, Inl _) \<Rightarrow> (gn1\<lparr>gn_decoder := d\<rparr>, False)
         | (d, Inr None) \<Rightarrow> (gn1\<lparr>gn_decoder := d\<rparr>, True)
         | (d, Inr (Some chunk)) \<Rightarrow> on_chunk chunk (gn1\<lparr>gn_decoder := d\<rparr>))"

section \<open>Ending a turn\<close>

definition parsed_calls :: "'f job_request \<Rightarrow> 'd generation \<Rightarrow> tool_call list" where
  "parsed_calls req gn = (if jr_tools_enabled req then snd (parse (gn_raw gn)) else [])"

definition completion_of ::
    "'f job_request \<Rightarrow> nat \<Rightarrow> reuse \<times> nat \<Rightarrow> finish_reason \<Rightarrow> 'd generation \<Rightarrow> completion" where
  "completion_of req prompt_tokens start reason gn = \<lparr>cp_finish_reason = reason, cp_prompt_tokens = prompt_tokens,
     cp_completion_tokens = gn_completion gn, cp_reused_tokens = snd start, cp_reuse = fst start,
     cp_tool_calls = parsed_calls req gn,
     cp_reasoning_tokens = (if jr_thinking_open req then Some (tn_tokens (gn_reasoning gn)) else None),
     cp_prefill_tokens = prompt_tokens - snd start\<rparr>"

text \<open>What both buffers still hold when a turn ends by itself is output; \<open>False\<close> when the client is gone.\<close>

definition flush_held :: "'d generation \<Rightarrow> 'd generation \<times> bool" where
  "flush_held gn =
     (let held = (case gn_tools gn of Some guard \<Rightarrow> if gn_calling gn then [] else snd (flush guard) | None \<Rightarrow> [])
      in if held = [] then (gn, True)
         else case Stop_Buffer.push (gn_stops gn) held of
                (stops, step) \<Rightarrow>
                  if ss_emit step = [] then (gn\<lparr>gn_stops := stops\<rparr>, True)
                  else case send (Delta (ss_emit step)) (gn_channel gn) of
                         (ch, ok) \<Rightarrow> (gn\<lparr>gn_stops := stops, gn_channel := ch\<rparr>, ok))"

definition flush_tail :: "'d generation \<Rightarrow> 'd generation \<times> bool" where
  "flush_tail gn =
     (case flush (gn_stops gn) of
        (stops, tail) \<Rightarrow>
          if tail = [] then (gn\<lparr>gn_stops := stops\<rparr>, True)
          else case send (Delta tail) (gn_channel gn) of
                 (ch, ok) \<Rightarrow> (gn\<lparr>gn_stops := stops, gn_channel := ch\<rparr>, ok))"

definition ended_reason ::
    "('f, 'r) env \<Rightarrow> 'f job_request \<Rightarrow> generation_result \<Rightarrow> 'd generation \<Rightarrow> finish_reason" where
  "ended_reason E req res gn =
     (let stopped_on_token = qr_generated res \<noteq> [] \<and> is_stop_token E (jr_options req) (last (qr_generated res))
      in if parsed_calls req gn \<noteq> [] then FinishToolCalls
         else if \<not> stopped_on_token \<and> go_max_new_tokens (jr_options req) \<le> gn_completion gn then FinishLength
         else FinishStop)"

text \<open>The outcome of the turn: a completion, \<open>None\<close> for a client that went away, or an error.\<close>

definition conclude ::
    "('f, 'r) env \<Rightarrow> 'f job_request \<Rightarrow> nat \<Rightarrow> reuse \<times> nat \<Rightarrow> run_error + generation_result \<Rightarrow> 'd generation
      \<Rightarrow> 'd generation \<times> (engine_error + completion option)" where
  "conclude E req prompt_tokens start result gn = (case result of
      Inr res \<Rightarrow>
        (case flush_held gn of
           (gn1, False) \<Rightarrow> (gn1, Inr None)
         | (gn1, True) \<Rightarrow>
             (case flush_tail gn1 of
                (gn2, False) \<Rightarrow> (gn2, Inr None)
              | (gn2, True) \<Rightarrow> (gn2, Inr (Some (completion_of req prompt_tokens start (ended_reason E req res gn2) gn2)))))
    | Inl e \<Rightarrow>
        (case gn_halted gn of
           Some Disconnected \<Rightarrow> (gn, Inr None)
         | Some StopString \<Rightarrow> (gn, Inr (Some (completion_of req prompt_tokens start
               (if parsed_calls req gn = [] then FinishStop else FinishToolCalls) gn)))
         | None \<Rightarrow> (gn, Inl (TurnFailure e))))"

section \<open>A job\<close>

text \<open>The turn of a job, from the prepared session.\<close>

definition job_turn ::
    "('f, 'r, 'd, 'b) engine_env \<Rightarrow> 'f job_request \<Rightarrow> u32 list \<Rightarrow> channel \<Rightarrow> ('f, 'b) engine
      \<Rightarrow> ('f, 'd generation) session \<times> (run_error + generation_result)" where
  "job_turn EE req rest ch es = generate_tokens_with_callback (ee_run EE) (jr_options req) (on_token EE) rest
     (en_runtime es, generation_new EE req ch)"

text \<open>\<open>live\<close> is what the session now represents, and is dropped when the turn failed without a halt.\<close>

definition decode_job ::
    "('f, 'r, 'd, 'b) engine_env \<Rightarrow> 'f job_request \<Rightarrow> u32 list \<Rightarrow> reuse \<times> nat \<Rightarrow> nat \<Rightarrow> channel \<Rightarrow> ('f, 'b) engine
      \<Rightarrow> (('f, 'b) engine \<times> channel) \<times> (engine_error + completion option)" where
  "decode_job EE req tokens start prefilled_to ch es =
     (case job_turn EE req (drop prefilled_to tokens) ch es of
        ((rt, gn), result) \<Rightarrow>
          (case conclude (ee_run EE) req (length tokens) start result gn of
             (gn1, r) \<Rightarrow>
               let live = (case r of Inl _ \<Rightarrow> None | Inr _ \<Rightarrow> Some (tokens @ gn_generated gn))
               in ((es\<lparr>en_runtime := rt, en_live := live\<rparr>, gn_channel gn1), r)))"

text \<open>The pass up to a boundary of the cache, when there is a cache.\<close>

definition prefill_boundary ::
    "('f, 'r, 'd, 'b) engine_env \<Rightarrow> 'b moments \<Rightarrow> 'f job_request \<Rightarrow> u32 list \<Rightarrow> nat \<Rightarrow> ('f, 'b) engine
      \<Rightarrow> ('f, 'b) engine \<times> (engine_error + nat)" where
  "prefill_boundary EE mo req tokens reused es = (case active_cache EE of
      None \<Rightarrow> (es, Inr reused)
    | Some CE \<Rightarrow>
        (case store_boundary_entry EE CE mo (jr_options req) tokens reused
                (Option.bind (jr_stable_prefix req) (\<lambda>pre. stable_token_count (ee_run EE) pre tokens)) es of
           (es1, Inl e) \<Rightarrow> (es1\<lparr>en_live := None\<rparr>, Inl e)
         | (es1, Inr boundary) \<Rightarrow>
             if reused < boundary then (es1\<lparr>en_live := Some (take boundary tokens)\<rparr>, Inr boundary)
             else (es1, Inr reused)))"

text \<open>
  Everything before the turn: the tokens of the prompt, where the job starts, up to where its
  prompt has been evaluated, and the opening tag. \<open>Inr None\<close> is a client that went away.
\<close>

definition prepare_job ::
    "('f, 'r, 'd, 'b) engine_env \<Rightarrow> 'b moments \<Rightarrow> 'f job_request \<Rightarrow> channel \<Rightarrow> ('f, 'b) engine
      \<Rightarrow> (('f, 'b) engine \<times> channel) \<times> (engine_error + (u32 list \<times> (reuse \<times> nat) \<times> nat) option)" where
  "prepare_job EE mo req ch es =
     (case ev_encode (ee_run EE) (jr_prompt req) (go_add_special_tokens (jr_options req)) of
        None \<Rightarrow> ((es, ch), Inl EncodeFailure)
      | Some tokens \<Rightarrow>
          if tokens = [] then ((es, ch), Inl NoPromptTokens)
          else case prepare_session EE mo (jr_options req) tokens es of
                 (es1, Inl e) \<Rightarrow> ((es1\<lparr>en_live := None\<rparr>, ch), Inl e)
               | (es1, Inr start) \<Rightarrow>
                   (case prefill_boundary EE mo req tokens (snd start) es1 of
                      (es2, Inl e) \<Rightarrow> ((es2, ch), Inl e)
                    | (es2, Inr prefilled_to) \<Rightarrow>
                        if jr_thinking_open req
                        then (case send (Delta (''<think>'' @ [CHR 0x0A])) ch of
                                (ch1, ok) \<Rightarrow> ((es2, ch1), Inr (if ok then Some (tokens, start, prefilled_to) else None)))
                        else ((es2, ch), Inr (Some (tokens, start, prefilled_to)))))"

definition generate ::
    "('f, 'r, 'd, 'b) engine_env \<Rightarrow> 'b moments \<Rightarrow> 'f job_request \<Rightarrow> channel \<Rightarrow> ('f, 'b) engine
      \<Rightarrow> (('f, 'b) engine \<times> channel) \<times> (engine_error + completion option)" where
  "generate EE mo req ch es =
     (case prepare_job EE mo req ch es of
        (s1, Inl e) \<Rightarrow> (s1, Inl e)
      | (s1, Inr None) \<Rightarrow> (s1, Inr None)
      | ((es1, ch1), Inr (Some (tokens, start, prefilled_to))) \<Rightarrow> decode_job EE req tokens start prefilled_to ch1 es1)"

definition run_job ::
    "('f, 'r, 'd, 'b) engine_env \<Rightarrow> 'b moments \<Rightarrow> 'f job_request \<Rightarrow> channel \<Rightarrow> ('f, 'b) engine \<Rightarrow> ('f, 'b) engine \<times> channel" where
  "run_job EE mo req ch es =
     (if is_closed ch then (es, ch)
      else case generate EE mo req ch es of
             ((es1, ch1), Inr (Some done_with)) \<Rightarrow> (es1, fst (send (Done done_with) ch1))
           | ((es1, ch1), Inr None) \<Rightarrow> (es1, ch1)
           | ((es1, ch1), Inl e) \<Rightarrow> (es1, fst (send (Failed e) ch1)))"

section \<open>What the engine is set up with\<close>

text \<open>The tokens that end a turn; refused when there are none.\<close>

definition end_of_turn_tokens :: "u32 list option \<Rightarrow> u32 option \<Rightarrow> u32 list option" where
  "end_of_turn_tokens config_eos tokenizer_eos =
     (let tokens = (case config_eos of None \<Rightarrow> [] | Some ids \<Rightarrow> ids);
          tokens = (case tokenizer_eos of Some eos \<Rightarrow> if eos \<in> set tokens then tokens else tokens @ [eos] | None \<Rightarrow> tokens)
      in if tokens = [] then None else Some tokens)"

definition inherit_stop_tokens :: "u32 list \<Rightarrow> 'f generation_options \<Rightarrow> 'f generation_options" where
  "inherit_stop_tokens = fold (\<lambda>token opts.
     if token \<in> set (go_stop_tokens opts) then opts else opts\<lparr>go_stop_tokens := go_stop_tokens opts @ [token]\<rparr>)"

definition disable_speculation_for_sampling :: "'f fops \<Rightarrow> 'f generation_options \<Rightarrow> 'f generation_options" where
  "disable_speculation_for_sampling F opts =
     (if f_lt F (f_zero F) (sc_temperature (go_sampling opts)) \<and> is_speculative (requested_mode opts)
      then opts\<lparr>go_speculative_mode := ModeOff, go_mtp_draft_tokens := 0, go_ngram_draft_tokens := 0\<rparr>
      else opts)"

text \<open>FNV-1a over the serialized configuration, which \<open>serde_json\<close> produces.\<close>

definition config_hash :: "8 word list \<Rightarrow> u64" where
  "config_hash bytes = foldl (\<lambda>hash byte. (xor hash (ucast byte)) * 0x100000001b3) 0xcbf29ce484222325 bytes"

definition state_fingerprint :: "string \<Rightarrow> 8 word list \<Rightarrow> string" where
  "state_fingerprint layout serialized = layout @ ''+cfg'' @ hex_pad 16 (unat (config_hash serialized))"

end
