(* ===== verification/Token_Callback.thy ===== *)
theory Token_Callback
  imports Engine
begin

text \<open>
  The token callback of a job: the thinking section is counted exactly, every token a turn commits
  is recorded, and what refuses a token is a halt or a decoder error.
\<close>

section \<open>The thinking counter\<close>

lemma str_contains_iff: "str_contains s pat \<longleftrightarrow> (\<exists>i. occurs_at pat s i)"
  by (auto simp: str_contains_def str_find_None)

lemma str_contains_append: "str_contains s pat \<Longrightarrow> str_contains (s @ t) pat"
  by (auto simp: str_contains_iff) (metis occurs_at_append occurs_at_length)

lemma back_to_boundary_facts: "back_to_boundary raw n \<le> n \<and> is_char_boundary raw (back_to_boundary raw n)"
  by (induction n) (auto simp: is_char_boundary_def)

lemma boundary_append:
  assumes "is_char_boundary raw n" "n \<le> length raw" "utf8 chunk"
  shows "is_char_boundary (raw @ chunk) n"
  using assms utf8_starts [OF assms(3)]
  by (cases "chunk = []") (auto simp: is_char_boundary_def nth_append hd_conv_nth)

text \<open>
  While the section is open the marker is not in the text, and the search can resume at
  \<open>tn_scanned\<close>: a character boundary, with less than a marker after it.
\<close>

definition scanning :: "string \<Rightarrow> thinking_counter \<Rightarrow> bool" where
  "scanning raw tn \<longleftrightarrow> \<not> str_contains raw THINK_CLOSE \<and> tn_scanned tn \<le> length raw - (length THINK_CLOSE - 1)
     \<and> is_char_boundary raw (tn_scanned tn)"

lemma scanned_le: "scanning raw tn \<Longrightarrow> tn_scanned tn \<le> length raw"
  unfolding scanning_def by linarith

lemma resumed_search:
  assumes "scanning raw tn"
  shows "str_contains (drop (tn_scanned tn) (raw @ chunk)) THINK_CLOSE \<longleftrightarrow> str_contains (raw @ chunk) THINK_CLOSE"
proof
  assume "str_contains (drop (tn_scanned tn) (raw @ chunk)) THINK_CLOSE"
  moreover have "tn_scanned tn \<le> length (raw @ chunk)" using scanned_le [OF assms] by simp
  ultimately show "str_contains (raw @ chunk) THINK_CLOSE" by (auto simp: str_contains_iff occurs_at_drop simp del: drop_append)
next
  assume "str_contains (raw @ chunk) THINK_CLOSE"
  then obtain i where i: "occurs_at THINK_CLOSE (raw @ chunk) i" by (auto simp: str_contains_iff)
  have "tn_scanned tn \<le> i"
  proof (rule ccontr)
    assume "\<not> tn_scanned tn \<le> i"
    then have "i + length THINK_CLOSE \<le> length raw" using assms by (auto simp: scanning_def THINK_CLOSE_def)
    with i have "occurs_at THINK_CLOSE raw i" by (simp add: occurs_at_append)
    with assms show False by (auto simp: scanning_def str_contains_iff)
  qed
  then obtain j where "i = tn_scanned tn + j" by (auto simp: le_iff_add)
  moreover have "tn_scanned tn \<le> length (raw @ chunk)" using scanned_le [OF assms] by simp
  ultimately show "str_contains (drop (tn_scanned tn) (raw @ chunk)) THINK_CLOSE"
    using i by (auto simp: str_contains_iff occurs_at_drop simp del: drop_append)
qed

lemma observe_open:
  assumes "scanning raw tn" "tn_open tn"
  shows "tn_tokens (observe_text (raw @ chunk) tn) = tn_tokens tn + 1"
    and "tn_open (observe_text (raw @ chunk) tn) \<longleftrightarrow> \<not> str_contains (raw @ chunk) THINK_CLOSE"
    and "tn_open (observe_text (raw @ chunk) tn) \<Longrightarrow> scanning (raw @ chunk) (observe_text (raw @ chunk) tn)"
  using assms(2) resumed_search [OF assms(1), of chunk] back_to_boundary_facts [of "raw @ chunk"]
  by (auto simp: observe_text_def Let_def scanning_def)

text \<open>The counter over the chunks of a turn, as the callback drives it.\<close>

fun count_chunks :: "string list \<Rightarrow> string \<times> thinking_counter \<Rightarrow> string \<times> thinking_counter" where
  "count_chunks [] s = s"
| "count_chunks (chunk # texts) (raw, tn) = count_chunks texts (raw @ chunk, observe_text (raw @ chunk) tn)"

lemma count_closed: "\<not> tn_open tn \<Longrightarrow> snd (count_chunks texts (raw, tn)) = tn"
  by (induction texts arbitrary: raw) (simp_all add: observe_text_def)

text \<open>How many chunks there are up to the one that completes the marker.\<close>

fun chunks_until :: "string \<Rightarrow> string \<Rightarrow> string list \<Rightarrow> nat" where
  "chunks_until pat raw [] = 0"
| "chunks_until pat raw (chunk # texts) =
     (if str_contains (raw @ chunk) pat then 1 else 1 + chunks_until pat (raw @ chunk) texts)"

lemma count_open:
  assumes "scanning raw tn" "tn_open tn"
  shows "tn_tokens (snd (count_chunks texts (raw, tn))) = tn_tokens tn + chunks_until THINK_CLOSE raw texts"
  using assms
proof (induction texts arbitrary: raw tn)
  case (Cons chunk texts)
  let ?tn = "observe_text (raw @ chunk) tn"
  show ?case
  proof (cases "str_contains (raw @ chunk) THINK_CLOSE")
    case True
    with observe_open [OF Cons.prems, of chunk] show ?thesis by (simp add: count_closed)
  next
    case False
    with observe_open [OF Cons.prems, of chunk] Cons.IH [of "raw @ chunk" ?tn] show ?thesis by simp
  qed
qed simp

lemma scanning_new: "scanning [] (thinking_counter_new b)"
  by (simp add: scanning_def thinking_counter_new_def is_char_boundary_def str_contains_def THINK_CLOSE_def)

text \<open>Every slice the counter takes begins at a character boundary, so none panics.\<close>

lemma count_boundaries:
  assumes "scanning raw tn" "tn_open tn" "\<forall>c \<in> set (texts @ [chunk]). utf8 c"
    and "count_chunks texts (raw, tn) = (raw', tn')" "tn_open tn'"
  shows "is_char_boundary (raw' @ chunk) (tn_scanned tn') \<and> tn_scanned tn' \<le> length raw'"
  using assms
proof (induction texts arbitrary: raw tn)
  case Nil
  then show ?case using boundary_append [of raw' "tn_scanned tn'" chunk] scanned_le [of raw' tn'] by (auto simp: scanning_def)
next
  case (Cons c texts)
  show ?case
  proof (cases "tn_open (observe_text (raw @ c) tn)")
    case True
    with observe_open(3) [OF Cons.prems(1,2) True] Cons.IH [of "raw @ c" "observe_text (raw @ c) tn"] Cons.prems(3,4,5)
    show ?thesis by simp
  next
    case False
    with count_closed [OF this, of texts "raw @ c"] Cons.prems(4,5) show ?thesis by simp
  qed
qed

section \<open>What the callback records\<close>

lemma deliver_keeps:
  "deliver visible gn = (gn', ok) \<Longrightarrow> gn_generated gn' = gn_generated gn \<and> gn_completion gn' = gn_completion gn
     \<and> gn_raw gn' = gn_raw gn \<and> gn_reasoning gn' = gn_reasoning gn \<and> gn_calling gn' = gn_calling gn
     \<and> (ok \<longrightarrow> gn_halted gn' = gn_halted gn) \<and> (\<not> ok \<longrightarrow> gn_halted gn' \<noteq> None)"
  by (auto simp: deliver_def Let_def split: prod.splits if_splits)

lemma visible_part_keeps:
  "visible_part chunk gn = (gn', visible) \<Longrightarrow> gn_generated gn' = gn_generated gn \<and> gn_completion gn' = gn_completion gn
     \<and> gn_raw gn' = gn_raw gn \<and> gn_reasoning gn' = gn_reasoning gn \<and> gn_halted gn' = gn_halted gn"
  by (auto simp: visible_part_def split: option.splits prod.splits if_splits)

lemma on_chunk_keeps:
  assumes "on_chunk chunk gn = (gn', ok)"
  shows "gn_generated gn' = gn_generated gn \<and> gn_completion gn' = gn_completion gn
     \<and> gn_raw gn' = gn_raw gn @ chunk \<and> gn_reasoning gn' = observe_text (gn_raw gn @ chunk) (gn_reasoning gn)
     \<and> (ok \<longrightarrow> gn_halted gn' = gn_halted gn) \<and> (\<not> ok \<longrightarrow> gn_halted gn' \<noteq> None)"
proof -
  let ?gn = "gn\<lparr>gn_raw := gn_raw gn @ chunk, gn_reasoning := observe_text (gn_raw gn @ chunk) (gn_reasoning gn)\<rparr>"
  obtain gn1 visible where v: "visible_part chunk ?gn = (gn1, visible)" by (rule prod.exhaust)
  from visible_part_keeps [OF v] assms v deliver_keeps [of visible gn1 gn' ok] show ?thesis
    by (auto simp: on_chunk_def Let_def split: if_splits)
qed

lemma on_token_generated:
  "on_token EE token gn = (gn', ok) \<Longrightarrow> gn_generated gn' = gn_generated gn @ [token] \<and> gn_completion gn' = gn_completion gn + 1"
  by (auto simp: on_token_def Let_def split: prod.splits sum.splits option.splits dest: on_chunk_keeps)

lemma feed_generated:
  "feed (on_token EE) ts gn = Some gn' \<Longrightarrow> gn_generated gn' = gn_generated gn @ ts \<and> gn_completion gn' = gn_completion gn + length ts"
proof (induction ts arbitrary: gn)
  case (Cons t ts)
  then show ?case by (auto split: prod.splits if_splits dest!: on_token_generated)
qed simp

section \<open>Properties\<close>

text \<open>
  C36. The reasoning count is exact: over the chunks of a turn whose prompt left the thinking
  section open, the counter reports the number of chunks up to and including the one that
  completes the first \<open></think>\<close>, however the marker is split across chunks, although each
  search resumes where the marker can still begin; and no search starts inside a character.
\<close>

theorem reasoning_count_is_exact:
  assumes "\<forall>c \<in> set (texts @ [chunk]). utf8 c"
    and "count_chunks texts ([], thinking_counter_new is_open) = (raw, tn)"
  shows "raw = concat texts \<and> tn_tokens tn = (if is_open then chunks_until THINK_CLOSE [] texts else 0)
    \<and> (tn_open tn \<longrightarrow> is_char_boundary (raw @ chunk) (tn_scanned tn))"
proof -
  let ?new = "thinking_counter_new is_open"
  have raw: "fst (count_chunks cs (r, t)) = r @ concat cs" for cs r t
    by (induction cs arbitrary: r t) simp_all
  show ?thesis
  proof (cases is_open)
    case True
    then have is_open: "tn_open ?new" "tn_tokens ?new = 0" by (simp_all add: thinking_counter_new_def)
    show ?thesis
      using raw [of texts "[]" ?new] count_open [OF scanning_new is_open(1), of texts] is_open(2) assms(2) True
        count_boundaries [OF scanning_new is_open(1) assms(1,2)] by simp
  next
    case False
    then have "\<not> tn_open ?new" "tn_tokens ?new = 0" by (simp_all add: thinking_counter_new_def)
    with count_closed [OF this(1), of texts "[]"] raw [of texts "[]" ?new] assms(2) False show ?thesis by simp
  qed
qed

lemma reasoning_count_is_exact_witness:
  "tn_tokens (snd (count_chunks [''a'', ''</thi'', ''nk>b'', ''c''] ([], thinking_counter_new True))) = 3"
proof -
  obtain raw tn where r: "count_chunks [''a'', ''</thi'', ''nk>b'', ''c''] ([], thinking_counter_new True) = (raw, tn)"
    by (rule prod.exhaust)
  have "\<forall>c \<in> set ([''a'', ''</thi'', ''nk>b'', ''c''] @ [[]]). utf8 c" by (simp add: is_continuation_def following_bytes_def)
  from reasoning_count_is_exact [OF this r] r show ?thesis by (simp add: THINK_CLOSE_def str_contains_def)
qed

end
