(* ===== verification/Config.thy ===== *)
theory Config
  imports Prompt_Cache
begin

text \<open>
  The model configuration (\<open>src/config.rs\<close>): its validation, the layer pattern, the tokens that
  end a sequence; and \<open>LayerKind::for_config\<close> of \<open>src/prompt_cache/format.rs\<close>, the layer sequence
  a stored entry must have. A field that only the loader reads is left out, and so is the JSON
  deserialization; \<open>rotary\<close> stands for \<open>(head_dim as f64 * partial_rotary_factor) as usize\<close>.
\<close>

datatype layer_type = LinearAttention | FullAttention

datatype eos_token_id = EosOne u32 | EosMany "u32 list"

record model_config =
  mc_model_type :: string
  mc_vocab_size :: nat
  mc_hidden_size :: nat
  mc_num_hidden_layers :: nat
  mc_mtp_num_hidden_layers :: nat
  mc_mtp_use_dedicated_embeddings :: bool
  mc_num_attention_heads :: nat
  mc_num_key_value_heads :: nat
  mc_head_dim :: nat
  mc_linear_conv_kernel_dim :: nat
  mc_linear_num_key_heads :: nat
  mc_linear_num_value_heads :: nat
  mc_num_experts_per_tok :: nat
  mc_num_experts :: nat
  mc_decoder_sparse_step :: nat
  mc_mlp_only_layers :: "nat list"
  mc_layer_types :: "layer_type list option"
  mc_full_attention_interval :: nat
  mc_hidden_act :: string
  mc_attn_output_gate :: bool
  mc_rotary :: nat

definition eos_contains :: "eos_token_id \<Rightarrow> u32 \<Rightarrow> bool" where
  "eos_contains eos token = (case eos of EosOne i \<Rightarrow> i = token | EosMany ids \<Rightarrow> token \<in> set ids)"

definition eos_ids :: "eos_token_id \<Rightarrow> u32 list" where
  "eos_ids eos = (case eos of EosOne i \<Rightarrow> [i] | EosMany ids \<Rightarrow> ids)"

lemma eos_ids_contains: "token \<in> set (eos_ids eos) \<longleftrightarrow> eos_contains eos token"
  by (auto simp: eos_ids_def eos_contains_def split: eos_token_id.split)

datatype config_error =
    UnsupportedModelType | UnsupportedActivation | NoOutputGate | ZeroField string | HeadsNotDivisible
  | LinearHeadsNotDivisible | TooManyExpertsPerToken | ZeroSparseStep | ZeroInterval | ZeroKernel
  | RotaryDimension | LayerTypesLength | TooManyMtpLayers | DedicatedEmbeddings | LayerOutOfRange nat

text \<open>\<open>usize::is_multiple_of\<close>: zero is the only multiple of zero.\<close>

definition is_multiple_of :: "nat \<Rightarrow> nat \<Rightarrow> bool" where
  "is_multiple_of a b = (if b = 0 then a = 0 else a mod b = 0)"

lemma is_multiple_of_dvd: "is_multiple_of a b \<longleftrightarrow> b dvd a"
  by (auto simp: is_multiple_of_def)

definition validate :: "model_config \<Rightarrow> config_error + unit" where
  "validate cfg =
     bindE (ensure (mc_model_type cfg \<in> {''qwen3_next'', ''qwen3_5_moe_text''}) UnsupportedModelType) (\<lambda>_.
     bindE (ensure (mc_hidden_act cfg = ''silu'') UnsupportedActivation) (\<lambda>_.
     bindE (ensure (mc_attn_output_gate cfg) NoOutputGate) (\<lambda>_.
     bindE (mapE (\<lambda>(name, value). ensure (0 < value) (ZeroField name))
       [(''vocab_size'', mc_vocab_size cfg), (''hidden_size'', mc_hidden_size cfg),
        (''num_hidden_layers'', mc_num_hidden_layers cfg), (''num_attention_heads'', mc_num_attention_heads cfg),
        (''num_key_value_heads'', mc_num_key_value_heads cfg), (''head_dim'', mc_head_dim cfg),
        (''num_experts'', mc_num_experts cfg), (''num_experts_per_tok'', mc_num_experts_per_tok cfg)]) (\<lambda>_.
     bindE (ensure (is_multiple_of (mc_num_attention_heads cfg) (mc_num_key_value_heads cfg)) HeadsNotDivisible) (\<lambda>_.
     bindE (ensure (is_multiple_of (mc_linear_num_value_heads cfg) (mc_linear_num_key_heads cfg)) LinearHeadsNotDivisible) (\<lambda>_.
     bindE (ensure (mc_num_experts_per_tok cfg \<le> mc_num_experts cfg) TooManyExpertsPerToken) (\<lambda>_.
     bindE (ensure (0 < mc_decoder_sparse_step cfg) ZeroSparseStep) (\<lambda>_.
     bindE (ensure (0 < mc_full_attention_interval cfg) ZeroInterval) (\<lambda>_.
     bindE (ensure (0 < mc_linear_conv_kernel_dim cfg) ZeroKernel) (\<lambda>_.
     bindE (ensure (0 < mc_rotary cfg \<and> is_multiple_of (mc_rotary cfg) 2) RotaryDimension) (\<lambda>_.
     bindE (case mc_layer_types cfg of
              None \<Rightarrow> Inr ()
            | Some types \<Rightarrow> ensure (length types = mc_num_hidden_layers cfg) LayerTypesLength) (\<lambda>_.
     bindE (ensure (mc_mtp_num_hidden_layers cfg \<le> 1) TooManyMtpLayers) (\<lambda>_.
     bindE (ensure (\<not> mc_mtp_use_dedicated_embeddings cfg) DedicatedEmbeddings) (\<lambda>_.
     bindE (mapE (\<lambda>layer. ensure (layer < mc_num_hidden_layers cfg) (LayerOutOfRange layer)) (mc_mlp_only_layers cfg)) (\<lambda>_.
     Inr ())))))))))))))))"

text \<open>\<open>v[layer]\<close> panics out of range, which validation rules out for the layers of the model.\<close>

definition layer_type :: "model_config \<Rightarrow> nat \<Rightarrow> layer_type" where
  "layer_type cfg layer = (case mc_layer_types cfg of
      Some types \<Rightarrow> types ! layer
    | None \<Rightarrow> if is_multiple_of (layer + 1) (mc_full_attention_interval cfg) then FullAttention else LinearAttention)"

definition layer_is_moe :: "model_config \<Rightarrow> nat \<Rightarrow> bool" where
  "layer_is_moe cfg layer \<longleftrightarrow> layer \<notin> set (mc_mlp_only_layers cfg) \<and> 0 < mc_num_experts cfg
     \<and> is_multiple_of (layer + 1) (mc_decoder_sparse_step cfg)"

definition kinds_for_config :: "model_config \<Rightarrow> layer_kind list" where
  "kinds_for_config cfg =
     (let stride = mc_num_key_value_heads cfg * mc_head_dim cfg
      in map (\<lambda>layer. case layer_type cfg layer of FullAttention \<Rightarrow> FullKind stride | LinearAttention \<Rightarrow> LinearKind)
           [0..<mc_num_hidden_layers cfg])"

section \<open>A model of a configuration\<close>

text \<open>The loader builds each layer by its type, a full one with the heads of the configuration.\<close>

definition layer_of_config :: "model_config \<Rightarrow> nat \<Rightarrow> 'f decoder_layer \<Rightarrow> bool" where
  "layer_of_config cfg i layer = (case layer of
      FullLayer L \<Rightarrow> layer_type cfg i = FullAttention \<and> al_kv_heads (fl_attention L) = mc_num_key_value_heads cfg
        \<and> al_head_dim (fl_attention L) = mc_head_dim cfg
    | LinearLayer L \<Rightarrow> layer_type cfg i = LinearAttention)"

definition model_of_config :: "model_config \<Rightarrow> 'f model \<Rightarrow> bool" where
  "model_of_config cfg M \<longleftrightarrow> length (md_layers M) = mc_num_hidden_layers cfg
     \<and> (\<forall>i < length (md_layers M). layer_of_config cfg i (md_layers M ! i))"

text \<open>The images of such a model have the kinds and widths the reader asks for.\<close>

lemma image_of_config:
  assumes "model_of_config cfg M" and "model_ok M st"
  shows "list_all2 (layer_fits (ms_position st)) (kinds_for_config cfg) (im_layers (model_image st))"
  unfolding list_all2_conv_all_nth
proof (intro conjI allI impI)
  have len: "length (ms_layers st) = length (md_layers M)" using list_all2_lengthD [OF assms(2)] by simp
  then show "length (kinds_for_config cfg) = length (im_layers (model_image st))"
    using assms(1) by (simp add: kinds_for_config_def model_image_def model_of_config_def)
  fix i
  assume "i < length (kinds_for_config cfg)"
  then have i: "i < length (md_layers M)" using assms(1) by (simp add: kinds_for_config_def model_of_config_def)
  with assms(1) have layer: "layer_of_config cfg i (md_layers M ! i)" and n: "i < mc_num_hidden_layers cfg"
    by (auto simp: model_of_config_def)
  have "state_ok (ms_position st) (md_layers M ! i) (ms_layers st ! i)"
    using assms(2) i len by (simp add: list_all2_conv_all_nth)
  then show "layer_fits (ms_position st) (kinds_for_config cfg ! i) (im_layers (model_image st) ! i)"
    using layer n i len
    by (auto elim!: state_okE simp: kinds_for_config_def model_image_def layer_image_def layer_of_config_def
        layer_fits_def attn_image_def kv_wf_def)
qed

text \<open>Validation leaves no layer of the model without a type, and no head without a group.\<close>

lemma validated:
  assumes "validate cfg = Inr ()"
  shows "0 < mc_num_hidden_layers cfg" "mc_num_key_value_heads cfg dvd mc_num_attention_heads cfg"
    "mc_layer_types cfg = Some types \<Longrightarrow> length types = mc_num_hidden_layers cfg"
  using assms by (auto simp: validate_def bindE_Inr_iff is_multiple_of_dvd)

end
