(* ===== verification/Honest_Cache.thy ===== *)
theory Honest_Cache
  imports Config Cache_Invariant Session_Reuse
begin

text \<open>
  The prompt cache never serves a state that its tokens do not lead to. An image is \<open>honest\<close> when
  its model part is the image of the state its tokens lead to from a fresh session; every entry
  the cache can read back stays honest through lookups, writes, evictions and the writer thread.
\<close>

section \<open>Honest images\<close>

definition honest :: "('f, 'r) env \<Rightarrow> 'f session_image \<Rightarrow> bool" where
  "honest E im \<longleftrightarrow> (\<exists>st. at_history E (fresh_state E) (si_tokens im) st \<and> si_model im = model_image st)"

lemma try_layers_exact:
  assumes "try_layers restore_layer is_linear k live (map layer_image saved) = (layers, Inr ())" "length live = length saved"
  shows "layers = saved"
  using assms
proof (induction saved arbitrary: k live layers)
  case (Cons s saved)
  then obtain l live' where live: "live = l # live'" "length live' = length saved" by (cases live) auto
  obtain x where x: "restore_layer k l (layer_image s) = Inr x"
    using Cons.prems(1) live by (cases "restore_layer k l (layer_image s)") auto
  obtain rest r where rest: "try_layers restore_layer is_linear (if is_linear l then k + 1 else k) live' (map layer_image saved) = (rest, r)"
    by (rule prod.exhaust)
  from Cons.prems(1) live x rest have "r = Inr ()" "layers = x # rest" by simp_all
  moreover have "x = s"
    using x by (cases l; cases s)
      (auto simp: restore_layer_def layer_image_def attn_restore_image_def attn_image_def delta_restore_def delta_checkpoint_def
        bindE_Inr_iff)
  ultimately show ?case using Cons.IH [OF _ live(2)] rest by simp
qed simp

text \<open>Whatever state it is restored into, an image that restores at all restores exactly.\<close>

lemma restore_exact:
  assumes "model_restore_image live (model_image st) = (st', Inr ())"
  shows "st' = st"
proof -
  have len: "length (ms_layers live) = length (ms_layers st)" using assms by (simp add: model_restore_image_def model_image_def split: if_splits)
  have valid: "\<exists>u. image_validate (model_image st) = Inr u" using assms len
    by (simp add: model_restore_image_def model_image_def split: sum.splits)
  obtain layers r where loop: "try_layers restore_layer is_linear 0 (ms_layers live) (map layer_image (ms_layers st)) = (layers, r)"
    by (rule prod.exhaust)
  with assms len valid have r: "r = Inr ()" and st': "st' = \<lparr>ms_layers = layers, ms_position = ms_position st\<rparr>"
    by (auto simp: model_restore_image_def model_image_def split: sum.splits)
  from try_layers_exact [OF loop [unfolded r] len] st' show ?thesis by simp
qed

lemma restore_represents:
  assumes im: "honest E im" and run: "restore_session E im (rt, c) = ((rt', c'), Inr u)"
  shows "represents E (si_tokens im) rt'" "rt_snapshots rt' = rt_snapshots rt" "im_position (si_model im) = length (si_tokens im)"
proof -
  from im obtain st where st: "at_history E (fresh_state E) (si_tokens im) st" "si_model im = model_image st"
    by (auto simp: honest_def)
  show len: "im_position (si_model im) = length (si_tokens im)"
    using run by (auto simp: restore_session_def split: if_splits)
  obtain st' r where m: "model_restore_image (rt_state rt) (si_model im) = (st', r)" by (rule prod.exhaust)
  then have on: "on_state (\<lambda>st. model_restore_image st (si_model im)) (rt, c) = ((rt\<lparr>rt_state := st'\<rparr>, c), lift_model r)"
    by (simp add: on_state_def)
  have r: "r = Inr ()" using run len on by (cases r) (auto simp: restore_session_def bindS_Inl lift_model_def)
  with m st have st': "st' = st" by (simp add: restore_exact)
  note run = run [unfolded restore_session_def bindS_ensureS, simplified len [symmetric], simplified,
      unfolded bindS_Inr [where m = "on_state (\<lambda>st. model_restore_image st (si_model im))" and s = "(rt, c)",
        OF on [unfolded r lift_model_def sum.case]]]
  have "rt_state rt' = st' \<and> rt_pending rt' = None \<and> rt_snapshots rt' = rt_snapshots rt"
    using run by (auto simp: clear_mtp_gap_def bindS_Inr_iff split: option.splits if_splits)
  then show "represents E (si_tokens im) rt'" "rt_snapshots rt' = rt_snapshots rt"
    using st st' by (simp_all add: represents_def pending_list_def)
qed

lemma session_image_honest:
  assumes rep: "represents E tokens rt" and im: "session_image tokens rt = Inr im"
  shows "honest E im" "si_tokens im = tokens"
proof -
  from im have "rt_pending rt = None" "si_model im = model_image (rt_state rt)" "si_tokens im = tokens"
    by (auto simp: session_image_def bindE_Inr_iff)
  with rep show "honest E im" "si_tokens im = tokens" by (auto simp: represents_def pending_list_def honest_def)
qed

section \<open>A written image reads back honest\<close>

text \<open>Tokens and model part of an entry do not depend on the predictor's part being well formed.\<close>

lemma entry_model_reads:
  assumes C: "container_ok C" and fits: "list_all2 (layer_fits pos) kinds (im_layers (si_model im))"
    and pos: "length (si_tokens im) = pos" "im_position (si_model im) = pos"
    and ts: "entry_tensors C im = Inr ts" "ct_serialize C ts (entry_metadata fp q created im) = Some data"
    and stored: "disk path = Some f" "fl_data f = data"
    and read: "read_entry C os disk path fp' kinds = Inr im'"
  shows "si_tokens im' = si_tokens im" "si_model im' = si_model im"
proof -
  from C ts(2) entry_tensors_names(1) [OF ts(1)] distinct_entry_metadata obtain all where
    all: "ct_deserialize C data = Some all" "map_of all = map_of ts"
    unfolding container_ok_def by blast
  obtain tokens layers mtp hidden where
    parts: "u32_view (si_tokens im) = Inr tokens" "layer_tensors C 0 (im_layers (si_model im)) = Inr layers"
    and ts_eq: "ts = (''tokens'', tokens) # layers @ mtp @ hidden"
    using ts(1) by (rule entry_tensors_parts)
  have "holds (map_of all) ts" unfolding all(2) by (rule holds_map_of [OF entry_tensors_names(1) [OF ts(1)]])
  then have h: "map_of all ''tokens'' = Some tokens" "holds (map_of all) layers" by (simp_all add: ts_eq)
  have t: "read_tokens all = Inr (si_tokens im)" by (rule tokens_read [OF parts(1) h(1)])
  have l: "read_layers C all pos 0 kinds = Inr (im_layers (si_model im))" by (rule read_layers_written [OF C fits parts(2) h(2)])
  from read stored all(1) obtain pos' where "read_tokens all = Inr (si_tokens im')" "length (si_tokens im') = pos'"
    "read_layers C all pos' 0 kinds = Inr (im_layers (si_model im'))" "im_position (si_model im') = pos'"
    by (auto simp: read_entry_def bindE_Inr_iff mapped_open_def deserialize_def split: if_splits)
  with t l pos show "si_tokens im' = si_tokens im" "si_model im' = si_model im" by simp_all
qed

section \<open>Directories\<close>

definition honest_disk :: "('f, 'r) env \<Rightarrow> ('f, 'b) cache_env \<Rightarrow> 'b disk \<Rightarrow> bool" where
  "honest_disk E CE disk \<longleftrightarrow> (\<forall>os path im. is_entry path \<longrightarrow>
     read_entry (ce_container CE) os disk path (ce_fingerprint CE) (ce_layer_kinds CE) = Inr im \<longrightarrow> honest E im)"

text \<open>What the cache trusts: its entries are entry files, and those are honest.\<close>

definition trusted :: "('f, 'r) env \<Rightarrow> ('f, 'b) cache_env \<Rightarrow> 'b cache \<Rightarrow> bool" where
  "trusted E CE ca \<longleftrightarrow> (\<forall>(k, m) \<in> set (ix_entries (ca_index ca)). is_entry (em_path m)) \<and> honest_disk E CE (ca_disk ca)"

text \<open>A directory whose entries are among those of another one.\<close>

definition fewer :: "'b disk \<Rightarrow> 'b disk \<Rightarrow> bool" where
  "fewer d' d \<longleftrightarrow> (\<forall>p f. is_entry p \<longrightarrow> d' p = Some f \<longrightarrow> (\<exists>g. d p = Some g \<and> fl_data g = fl_data f))"

lemma fewer_refl [simp]: "fewer d d"
  by (auto simp: fewer_def)

lemma fewer_remove: "fewer (d(p := None)) d"
  by (auto simp: fewer_def)

lemma honest_fewer:
  assumes "honest_disk E CE d" "fewer d' d"
  shows "honest_disk E CE d'"
  unfolding honest_disk_def
proof (intro allI impI)
  fix os path im
  assume entry: "is_entry path"
    and read: "read_entry (ce_container CE) os d' path (ce_fingerprint CE) (ce_layer_kinds CE) = Inr im"
  from read obtain f where "d' path = Some f" by (auto simp: read_entry_def mapped_open_def bindE_Inr_iff split: option.splits)
  with assms(2) entry obtain g where "d path = Some g" "fl_data g = fl_data f" by (auto simp: fewer_def)
  with \<open>d' path = Some f\<close> have "mapped_open os d path = mapped_open os d' path" by (simp add: mapped_open_def)
  with read have "read_entry (ce_container CE) os d path (ce_fingerprint CE) (ce_layer_kinds CE) = Inr im"
    by (simp add: read_entry_def)
  with assms(1) entry show "honest E im" by (auto simp: honest_disk_def)
qed

lemma trusted_fewer:
  "trusted E CE ca \<Longrightarrow> set (ix_entries (ca_index ca')) \<subseteq> set (ix_entries (ca_index ca)) \<Longrightarrow> fewer (ca_disk ca') (ca_disk ca)
    \<Longrightarrow> trusted E CE ca'"
  using honest_fewer by (fastforce simp: trusted_def)

lemma trusted_count [simp]: "trusted E CE (count_stat f ca) = trusted E CE ca"
  by (simp add: trusted_def count_stat_def)

lemma index_remove_entries: "set (ix_entries (fst (index_remove key ix))) \<subseteq> set (ix_entries ix)"
  by (auto simp: index_remove_def set_delete split: option.splits)

lemma remove_file_fewer: "remove_file os path d = Some d' \<Longrightarrow> fewer d' d"
  by (auto simp: remove_file_def fewer_remove split: if_splits)

lemma discard_trusted: "trusted E CE ca \<Longrightarrow> trusted E CE (discard os key path ca)"
  using index_remove_entries
  by (erule_tac trusted_fewer) (auto simp: discard_def count_stat_def Let_def dest: remove_file_fewer split: option.splits)

lemma touch_trusted:
  assumes "trusted E CE ca"
  shows "trusted E CE (touch os key path ca)"
proof -
  have "fewer (ca_disk (touch os key path ca)) (ca_disk ca)"
    by (auto simp: touch_def Let_def fewer_def split: option.splits)
  with assms have "honest_disk E CE (ca_disk (touch os key path ca))" using honest_fewer by (auto simp: trusted_def)
  moreover have "is_entry (em_path m')" if "(k', m') \<in> set (ix_entries (ca_index (touch os key path ca)))" for k' m'
  proof (cases "map_of (ix_entries (ca_index ca)) key")
    case None
    with that assms show ?thesis by (auto simp: trusted_def touch_def Let_def)
  next
    case (Some m)
    from map_of_SomeD [OF this] assms have "is_entry (em_path m)" by (auto simp: trusted_def)
    with that Some assms set_update_subset [of key "m\<lparr>em_used := os_now os\<rparr>" "ix_entries (ca_index ca)"] show ?thesis
      by (auto simp: trusted_def touch_def Let_def)
  qed
  ultimately show ?thesis by (auto simp: trusted_def)
qed

lemma forget_entries: "set (ix_entries (forget key path bytes ix)) \<subseteq> set (ix_entries ix)"
  using index_remove_entries by (auto simp: forget_def split: option.splits)

lemma evict_loop_trusted: "trusted E CE ca \<Longrightarrow> trusted E CE (evict_loop os budget cs ca)"
proof (induction os budget cs ca rule: evict_loop.induct)
  case (2 os budget used key path bytes cs ca)
  show ?case
  proof (cases "ix_bytes (ca_index ca) \<le> budget")
    case False
    show ?thesis
    proof (cases "remove_file os path (ca_disk ca)")
      case None
      with 2 False show ?thesis by simp
    next
      case (Some disk)
      let ?ca = "ca\<lparr>ca_disk := disk, ca_index := forget key path bytes (ca_index ca)\<rparr>"
      have "trusted E CE ?ca"
        using trusted_fewer [OF "2.prems", of ?ca] forget_entries remove_file_fewer [OF Some] by simp
      with "2.IH"(2) [OF False Some] False Some show ?thesis by simp
    qed
  qed (use 2 in simp)
qed simp

lemma evict_trusted: "trusted E CE ca \<Longrightarrow> trusted E CE (evict CE' os keep ca)"
  by (simp add: evict_def Let_def evict_loop_trusted)

lemma temporary_no_entry: "\<not> is_entry (with_extension (file_name fp key) ''writing'')"
proof -
  have "split_extension (with_extension (file_name fp key) ''writing'') = (fst (split_extension (file_name fp key)), Some ''writing'')"
    unfolding with_extension_def by (rule split_extension_last) (simp_all add: split_file_name)
  then show ?thesis by (simp add: is_entry_def EXTENSION_def)
qed

section \<open>Lookups and writes\<close>

declare lookup_loop.simps(2) [simp del]

lemma lookup_loop_trusted:
  assumes "trusted E CE ca"
  shows "trusted E CE (fst (lookup_loop CE os tokens beyond bs ca))
    \<and> (\<forall>im. snd (lookup_loop CE os tokens beyond bs ca) = Some im \<longrightarrow>
         honest E im \<and> (\<exists>b. beyond < b \<and> b \<in> set bs \<and> si_tokens im = take b tokens))"
  using assms
proof (induction bs arbitrary: ca)
  case (Cons b bs)
  let ?key = "key_of (take b tokens)"
  show ?case
  proof (cases "b \<le> beyond")
    case True
    with Cons.prems show ?thesis by (simp add: lookup_loop_Cons)
  next
    case further: False
    show ?thesis
    proof (cases "served CE os tokens ca b")
      case None
      let ?ca = "case entry_path ?key ca of None \<Rightarrow> ca | Some path \<Rightarrow> discard os ?key path ca"
      have "trusted E CE ?ca" using Cons.prems discard_trusted by (cases "entry_path ?key ca") auto
      from Cons.IH [OF this] further None show ?thesis by (auto simp: lookup_loop_Cons)
    next
      case (Some im)
      then obtain path where path: "entry_path ?key ca = Some path"
        and read: "read_entry (ce_container CE) os (ca_disk ca) path (ce_fingerprint CE) (ce_layer_kinds CE) = Inr im"
        by (auto simp: served_def split: option.splits sum.splits if_splits)
      from path Cons.prems have "is_entry path" by (auto simp: entry_path_def trusted_def dest!: map_of_SomeD)
      with read Cons.prems have "honest E im" by (auto simp: trusted_def honest_disk_def)
      with further Some Cons.prems touch_trusted served_tokens [OF Some] show ?thesis
        by (auto simp: lookup_loop_Cons intro!: exI [of _ b])
    qed
  qed
qed simp

lemma boundaries_below: "b \<in> set (boundaries len block low) \<Longrightarrow> b < len"
proof (cases "block = 0")
  case False
  assume "b \<in> set (boundaries len block low)"
  with False show ?thesis by (simp add: set_boundaries)
qed (auto simp: boundaries_def Let_def)

lemma cache_lookup_trusted:
  assumes "trusted E CE ca" "cache_lookup CE os tokens beyond ca = (ca', found)"
  shows "trusted E CE ca'"
    and "found = Some im \<Longrightarrow> honest E im \<and> beyond < length (si_tokens im) \<and> length (si_tokens im) < length tokens \<and> prefix (si_tokens im) tokens"
proof -
  let ?bs = "boundaries (length tokens) (cc_block_tokens (ce_config CE)) (cc_min_tokens (ce_config CE))"
  note * = lookup_loop_trusted [OF assms(1), of os tokens beyond ?bs]
  show "trusted E CE ca'" using * assms(2) by (auto simp: cache_lookup_def split: prod.splits option.splits)
  assume "found = Some im"
  with assms(2) have "snd (lookup_loop CE os tokens beyond ?bs ca) = Some im"
    by (auto simp: cache_lookup_def split: prod.splits option.splits)
  with * obtain b where b: "honest E im" "beyond < b" "b \<in> set ?bs" "si_tokens im = take b tokens" by blast
  from boundaries_below [OF b(3)] have "b < length tokens" .
  with b show "honest E im \<and> beyond < length (si_tokens im) \<and> length (si_tokens im) < length tokens \<and> prefix (si_tokens im) tokens"
    by (simp add: take_is_prefix)
qed

text \<open>The environment of a cache opened for the model: its container and its layer kinds.\<close>

definition cache_for :: "('f, 'r) env \<Rightarrow> ('f, 'b) cache_env \<Rightarrow> bool" where
  "cache_for E CE \<longleftrightarrow> container_ok (ce_container CE)
     \<and> (\<exists>cfg. model_of_config cfg (ev_model E) \<and> ce_layer_kinds CE = kinds_for_config cfg)"

lemma write_entry_disk:
  assumes "write_entry C os path im fp q created disk = (disk', r)"
  shows "(\<exists>ts data f. entry_tensors C im = Inr ts \<and> ct_serialize C ts (entry_metadata fp q created im) = Some data
      \<and> disk' path = Some f \<and> fl_data f = data \<and> (\<forall>p. p \<noteq> path \<longrightarrow> p \<noteq> with_extension path ''writing'' \<longrightarrow> disk' p = disk p))
    \<or> (\<forall>p. p \<noteq> with_extension path ''writing'' \<longrightarrow> disk' p = disk p)"
  using assms by (auto simp: write_entry_def Let_def split: sum.splits option.splits write_outcome.splits if_splits)

lemma write_honest:
  assumes CE: "cache_for E CE" and disk: "honest_disk E CE disk" and im: "honest E im"
    and run: "write_entry (ce_container CE) os (file_name fp key) im (ce_fingerprint CE) q created disk = (disk', r)"
  shows "honest_disk E CE disk'"
  unfolding honest_disk_def
proof (intro allI impI)
  fix os' path im'
  let ?path = "file_name fp key"
  assume entry: "is_entry path"
    and read: "read_entry (ce_container CE) os' disk' path (ce_fingerprint CE) (ce_layer_kinds CE) = Inr im'"
  from entry temporary_no_entry have path: "path \<noteq> with_extension ?path ''writing''" by metis
  have old: "honest E im'" if "disk' path = disk path"
    using read [unfolded read_entry_cong [where disk = disk' and disk' = disk and path = path, OF that]] disk entry
    by (auto simp: honest_disk_def)
  from write_entry_disk [OF run] show "honest E im'"
  proof
    assume "\<exists>ts data f. entry_tensors (ce_container CE) im = Inr ts
      \<and> ct_serialize (ce_container CE) ts (entry_metadata (ce_fingerprint CE) q created im) = Some data
      \<and> disk' ?path = Some f \<and> fl_data f = data \<and> (\<forall>p. p \<noteq> ?path \<longrightarrow> p \<noteq> with_extension ?path ''writing'' \<longrightarrow> disk' p = disk p)"
    then obtain ts data f where w: "entry_tensors (ce_container CE) im = Inr ts"
      "ct_serialize (ce_container CE) ts (entry_metadata (ce_fingerprint CE) q created im) = Some data"
      "disk' ?path = Some f" "fl_data f = data" and other: "\<And>p. p \<noteq> ?path \<Longrightarrow> p \<noteq> with_extension ?path ''writing'' \<Longrightarrow> disk' p = disk p"
      by blast
    show ?thesis
    proof (cases "path = ?path")
      case False
      with other path show ?thesis by (intro old) simp
    next
      case True
      from im obtain st where st: "at_history E (fresh_state E) (si_tokens im) st" "si_model im = model_image st"
        by (auto simp: honest_def)
      from CE obtain cfg where C: "container_ok (ce_container CE)" "model_of_config cfg (ev_model E)" "ce_layer_kinds CE = kinds_for_config cfg"
        by (auto simp: cache_for_def)
      have fits: "list_all2 (layer_fits (ms_position st)) (ce_layer_kinds CE) (im_layers (si_model im))"
        unfolding C(3) st(2) by (rule image_of_config [OF C(2) at_ok [OF st(1)]])
      have pos: "length (si_tokens im) = ms_position st" "im_position (si_model im) = ms_position st"
        using at_history_position [OF st(1)] st(2) by (simp_all add: fresh_state_def model_new_state_def model_image_def)
      from entry_model_reads [where path = ?path and disk = disk', OF C(1) fits pos w(1,2,3,4)] read True
      have "si_tokens im' = si_tokens im" "si_model im' = si_model im" by blast+
      with im show ?thesis by (simp add: honest_def)
    qed
  next
    assume "\<forall>p. p \<noteq> with_extension ?path ''writing'' \<longrightarrow> disk' p = disk p"
    with path show ?thesis by (intro old) simp
  qed
qed

lemma cache_write_trusted:
  assumes "cache_for E CE" "trusted E CE ca" "honest E im"
  shows "trusted E CE (fst (cache_write CE os im ca))"
proof -
  let ?key = "key_of (si_tokens im)"
  obtain disk r where w: "write_entry (ce_container CE) os (path_for CE ?key) im (ce_fingerprint CE) (ce_quantization CE)
      (os_now os div 1000000000) (ca_disk ca) = (disk, r)" by (rule prod.exhaust)
  have disk: "honest_disk E CE disk"
    using write_honest [OF assms(1) _ assms(3) w [unfolded path_for_def]] assms(2) by (simp add: trusted_def)
  show ?thesis
  proof (cases r)
    case (Inl e)
    with w disk assms(2) show ?thesis by (simp add: cache_write_def Let_def trusted_def)
  next
    case (Inr bytes)
    let ?meta = "\<lparr>em_path = path_for CE ?key, em_bytes = bytes, em_used = os_now os\<rparr>"
    have "set (ix_entries (index_insert ?key ?meta (ca_index ca))) \<subseteq> insert (?key, ?meta) (set (ix_entries (ca_index ca)))"
      using set_update_subset [of ?key ?meta "ix_entries (ca_index ca)"] by (auto simp: index_insert_def Let_def)
    with assms(2) disk have "trusted E CE (ca\<lparr>ca_disk := disk, ca_index := index_insert ?key ?meta (ca_index ca)\<rparr>)"
      by (fastforce simp: trusted_def path_for_def is_entry_file_name)
    with w Inr show ?thesis by (simp add: cache_write_def Let_def evict_trusted)
  qed
qed

section \<open>The writer thread\<close>

definition honest_world :: "('f, 'r) env \<Rightarrow> ('f, 'b) cache_env \<Rightarrow> ('f, 'b) cache_world \<Rightarrow> bool" where
  "honest_world E CE w \<longleftrightarrow> trusted E CE (cw_cache w) \<and> (\<forall>im. cw_queue w = Some im \<longrightarrow> honest E im)
     \<and> (\<forall>im. cw_writing w = Some im \<longrightarrow> honest E im)"

lemma writer_step_honest:
  assumes "cache_for E CE" "honest_world E CE w"
  shows "honest_world E CE (writer_step CE os w)"
proof (cases "cw_writing w")
  case None
  with assms show ?thesis by (auto simp: writer_step_def honest_world_def split: option.splits)
next
  case (Some im)
  with assms have "trusted E CE (fst (cache_write CE os im (cw_cache w)))"
    by (intro cache_write_trusted) (simp_all add: honest_world_def)
  with Some assms show ?thesis
    by (cases "cache_write CE os im (cw_cache w)") (auto simp: writer_step_def honest_world_def Let_def split: sum.splits)
qed

lemma cache_store_honest: "honest_world E CE w \<Longrightarrow> honest E im \<Longrightarrow> honest_world E CE (fst (cache_store im w))"
  by (auto simp: cache_store_def honest_world_def Let_def)

end
