(* ===== verification/Engine_Correct.thy ===== *)
theory Engine_Correct
  imports Token_Callback Honest_Cache
begin

text \<open>
  Serving requests from state that was not computed for them. Between two jobs the engine's
  invariant says that the live session represents the tokens \<open>live\<close> names and that every image
  the cache can serve is honest. Under it a job answers what a server without reuse, cache or
  drafting answers on a fresh session.
\<close>

declare lookup_loop.simps(2) [simp del]

section \<open>Prefill\<close>

definition pending_of :: "('f, 'c) session \<Rightarrow> u32 option" where
  "pending_of s = rt_pending (fst s)"

lemma quiet_core_pending: "quiet core m \<Longrightarrow> quiet pending_of m"
  unfolding quiet_def pending_of_def core_def by (simp add: case_prod_unfold)

lemma quiet_pending_upd: "(\<And>rt. rt_pending (f rt) = rt_pending rt) \<Longrightarrow> quiet pending_of (upd f)"
  by (intro quiet_upd) (simp add: pending_of_def)

lemma quiet_pending_on_state [quiet_intros]: "quiet pending_of (on_state f)"
  by (auto simp: quiet_def pending_of_def on_state_def split: prod.split)

lemmas quiet_pending_core [quiet_intros] =
  quiet_core_pending [OF quiet_get] quiet_core_pending [OF quiet_catch_up_mtp] quiet_core_pending [OF quiet_retain_mtp_gap]

lemma quiet_pending_passes [quiet_intros]: "quiet pending_of (prefill_passes E track prior passes out)"
  by (induction passes arbitrary: out) (auto intro!: quiet_intros)

lemma quiet_pending_prefill [quiet_intros]: "quiet pending_of (prefill_in_passes E ts track)"
  unfolding prefill_in_passes_def by (intro quiet_intros)

lemma quiet_snaps_prefill_tokens: "quiet snaps (prefill_tokens E ts track)"
  unfolding prefill_tokens_def Let_def by (intro quiet_intros) (auto simp: index_prompt_def clear_mtp_gap_def)

lemma prefill_represents:
  fixes rt :: "'f runtime" and c :: 'c
  assumes rep: "represents E pre rt" and run: "prefill_tokens E ts track (rt, c) = ((rt', c'), Inr u)"
  shows "represents E (pre @ ts) rt'" "rt_pending rt' = None" "rt_snapshots rt' = rt_snapshots rt"
proof -
  let ?ev = "continuation_input ts (rt_pending rt)"
  let ?rt1 = "index_prompt (context_tokens rt) ts ?ev (rt\<lparr>rt_pending := None\<rparr>)"
  let ?valid = "track \<and> rt_gap_valid ?rt1"
  let ?rt2 = "(if ?valid then ?rt1 else clear_mtp_gap ?rt1)\<lparr>rt_gap_valid := ?valid\<rparr>"
  let ?rest = "\<lambda>out :: 'f forward_output. bindS (liftS (last_hidden_row (fo_hidden out))) (\<lambda>row.
     bindS (upd (\<lambda>rt. rt\<lparr>rt_last_hidden := Some row\<rparr>)) (\<lambda>_.
     bindS (get (\<lambda>rt. rt_gap_valid rt \<and> rt_mtp_state rt \<noteq> None)) (\<lambda>sync.
     if sync then bindS (catch_up_mtp E) (\<lambda>_. returnS ()) else returnS ())))"
  have sel: "rt_state ?rt2 = rt_state rt" "rt_pending ?rt2 = None" "rt_snapshots ?rt2 = rt_snapshots rt"
    by (simp_all add: index_prompt_def clear_mtp_gap_def)
  have "bindS (prefill_in_passes E ?ev ?valid) ?rest (?rt2, c) = ((rt', c'), Inr u)"
    using run by (auto simp: prefill_tokens_def Let_def split: if_splits)
  then obtain s1 out where fill: "prefill_in_passes E ?ev ?valid (?rt2, c) = (s1, Inr out)"
    and rest: "?rest out s1 = ((rt', c'), Inr u)"
    unfolding bindS_Inr_iff by blast
  from rep obtain h where h: "at_history E (fresh_state E) h (rt_state rt)" "h @ pending_list (rt_pending rt) = pre"
    by (auto simp: represents_def)
  then have at2: "at_history E (fresh_state E) h (rt_state ?rt2)" by (simp only: sel)
  note filled = prefill_in_passes_at [OF at2 fill]
  have "h @ ?ev = pre @ ts" using h(2) [symmetric] by (simp add: continuation_pending)
  with filled(1) have at1: "at_history E (fresh_state E) (pre @ ts) (rt_state (fst s1))" by simp
  have "quiet (\<lambda>s :: ('f, 'c) session. rt_state (fst s)) (?rest out)"
  proof (intro quiet_intros quiet_upd)
    show "quiet (\<lambda>s :: ('f, 'c) session. rt_state (fst s)) (catch_up_mtp E)"
      using quiet_catch_up_mtp [of E] unfolding quiet_def core_def by (auto simp: case_prod_unfold)
  qed (simp_all add: quiet_def get_def readS_def case_prod_unfold)
  from quietD [OF this rest] have "rt_state rt' = rt_state (fst s1)" by simp
  moreover have "quiet pending_of (?rest out)" by (intro quiet_intros quiet_pending_upd) simp
  from quietD [OF this rest] quietD [OF quiet_pending_prefill fill] sel(2) have "rt_pending rt' = None"
    by (simp add: pending_of_def)
  ultimately show "represents E (pre @ ts) rt'" "rt_pending rt' = None"
    using at1 by (simp_all add: represents_def pending_list_def)
  show "rt_snapshots rt' = rt_snapshots rt"
    using quietD [OF quiet_snaps_prefill_tokens run] by (simp add: snaps_def)
qed

section \<open>A turn\<close>

lemma job_turn_represents:
  assumes rep: "represents E pre rt" and sn: "snapshots_ok (rt_snapshots rt)"
    and run: "generate_tokens_with_callback E opts (on_token EE) rest (rt, gn0) = ((rt', gn), r)" and r: "proper r"
    and new: "gn_generated gn0 = []"
  shows "represents E (pre @ rest @ gn_generated gn) rt'"
proof -
  from turn_accounts [OF represents_ok [OF rep] sn run r] obtain limit where
    acc: "turn_accounted E (rt_state rt) (on_token EE) (pending_list (rt_pending rt) @ rest) gn0 limit ((rt', gn), r)"
    by blast
  from rep obtain h where h: "at_history E (fresh_state E) h (rt_state rt)" "h @ pending_list (rt_pending rt) = pre"
    by (auto simp: represents_def)
  obtain h2 where h2: "at_history E (rt_state rt) h2 (rt_state rt')"
    "h2 @ pending_list (rt_pending rt') = pending_list (rt_pending rt) @ rest @ gn_generated gn"
  proof (cases r)
    case (Inl e)
    with acc obtain t new c1 where "rt_pending rt' = Some t" "feed (on_token EE) new gn0 = Some c1" "on_token EE t c1 = (gn, False)"
      "at_history E (rt_state rt) ((pending_list (rt_pending rt) @ rest) @ new) (rt_state rt')"
      by (auto simp: turn_accounted_def)
    moreover from this have "gn_generated gn = new @ [t]"
      using feed_generated [of EE new gn0 c1] on_token_generated [of EE t c1 gn False] new by simp
    ultimately show thesis by (intro that) (simp_all add: pending_list_def)
  next
    case (Inr res)
    with acc obtain h2 where "feed (on_token EE) (qr_generated res) gn0 = Some gn" "at_history E (rt_state rt) h2 (rt_state rt')"
      "h2 @ pending_list (rt_pending rt') = (pending_list (rt_pending rt) @ rest) @ qr_generated res"
      by (auto simp: turn_accounted_def)
    with that show thesis using feed_generated [of EE "qr_generated res" gn0 gn] new by simp
  qed
  from at_history_compose [OF h(1) h2(1)] h2(2) h(2) [symmetric] show ?thesis
    by (auto simp: represents_def intro!: exI [of _ "h @ h2"])
qed

section \<open>The engine between two jobs\<close>

definition engine_wf :: "('f, 'r, 'd, 'b) engine_env \<Rightarrow> bool" where
  "engine_wf EE \<longleftrightarrow> (\<forall>layer \<in> set (md_layers (ev_model (ee_run EE))). decoder_layer_wf layer)
     \<and> (\<forall>CE. ee_cache EE = Some CE \<longrightarrow> cache_for (ee_run EE) CE)"

definition engine_ok :: "('f, 'r, 'd, 'b) engine_env \<Rightarrow> ('f, 'b) engine \<Rightarrow> bool" where
  "engine_ok EE es \<longleftrightarrow> snapshots_ok (rt_snapshots (en_runtime es))
     \<and> (\<forall>ts. en_live es = Some ts \<longrightarrow> represents (ee_run EE) ts (en_runtime es))
     \<and> (\<forall>CE. ee_cache EE = Some CE \<longrightarrow> honest_world (ee_run EE) CE (en_world es))"

text \<open>Without the live session the invariant is about the arenas and the cache.\<close>

definition engine_rest_ok :: "('f, 'r, 'd, 'b) engine_env \<Rightarrow> ('f, 'b) engine \<Rightarrow> bool" where
  "engine_rest_ok EE es \<longleftrightarrow> engine_ok EE (es\<lparr>en_live := None\<rparr>)"

lemma engine_ok_rest: "engine_ok EE es \<longleftrightarrow>
    engine_rest_ok EE es \<and> (\<forall>ts. en_live es = Some ts \<longrightarrow> represents (ee_run EE) ts (en_runtime es))"
  by (auto simp: engine_ok_def engine_rest_ok_def)

lemma engine_rest_live [simp]: "engine_rest_ok EE (es\<lparr>en_live := live\<rparr>) = engine_rest_ok EE es"
  by (simp add: engine_rest_ok_def)

lemma engine_rest_world:
  "engine_rest_ok EE es \<Longrightarrow> (\<And>CE. ee_cache EE = Some CE \<Longrightarrow> honest_world (ee_run EE) CE w) \<Longrightarrow> engine_rest_ok EE (es\<lparr>en_world := w\<rparr>)"
  by (simp add: engine_rest_ok_def engine_ok_def)

lemma engine_rest_runtime:
  "engine_rest_ok EE es \<Longrightarrow> snapshots_ok (rt_snapshots rt) \<Longrightarrow> engine_rest_ok EE (es\<lparr>en_runtime := rt\<rparr>)"
  by (simp add: engine_rest_ok_def engine_ok_def)

lemma writer_runs_honest:
  "cache_for E CE \<Longrightarrow> honest_world E CE w \<Longrightarrow> honest_world E CE (writer_runs CE oss w)"
  unfolding writer_runs_def by (induction oss arbitrary: w) (simp_all add: writer_step_honest)

lemma on_runtime_snaps:
  assumes "quiet snaps m" "on_runtime m es = (es', r)" "engine_rest_ok EE es"
  shows "engine_rest_ok EE es'" "en_live es' = en_live es" "en_world es' = en_world es"
proof -
  obtain rt c q where m: "m (en_runtime es, ()) = ((rt, c), q)" by (metis surj_pair)
  from assms(2) m have es': "es' = es\<lparr>en_runtime := rt\<rparr>" by (auto simp: on_runtime_def)
  have "rt_snapshots rt = rt_snapshots (en_runtime es)" using quietD [OF assms(1) m] by (simp add: snaps_def)
  with assms(3) show "engine_rest_ok EE es'" unfolding es' by (simp add: engine_rest_ok_def engine_ok_def)
  show "en_live es' = en_live es" "en_world es' = en_world es" by (simp_all add: es')
qed

lemma quiet_snaps_restore: "quiet snaps (restore_session E im)"
  unfolding restore_session_def Let_def
  by (intro quiet_intros) (auto intro!: quiet_intros simp: clear_mtp_gap_def split: option.split)

lemma job_lookup_ok:
  assumes wf: "engine_wf EE" and ok: "engine_rest_ok EE es" and run: "job_lookup EE mo tokens beyond es = (es', found)"
  shows "engine_rest_ok EE es'" "en_runtime es' = en_runtime es" "en_live es' = en_live es"
    and "found = Some im \<Longrightarrow> honest (ee_run EE) im \<and> length (si_tokens im) < length tokens \<and> prefix (si_tokens im) tokens"
proof -
  have *: "engine_rest_ok EE es' \<and> en_runtime es' = en_runtime es \<and> en_live es' = en_live es \<and>
     (\<forall>im. found = Some im \<longrightarrow> honest (ee_run EE) im \<and> length (si_tokens im) < length tokens \<and> prefix (si_tokens im) tokens)"
  proof (cases "active_cache EE")
    case None
    with run ok show ?thesis by (auto simp: job_lookup_def)
  next
    case (Some CE)
    then have CE: "ee_cache EE = Some CE" by (simp add: active_cache_def split: if_splits)
    let ?w = "writer_runs CE (mo_before_lookup mo) (en_world es)"
    have w: "honest_world (ee_run EE) CE ?w"
      using wf ok CE by (intro writer_runs_honest) (simp_all add: engine_wf_def engine_rest_ok_def engine_ok_def)
    obtain ca q where l: "cache_lookup CE (mo_lookup mo) tokens beyond (cw_cache ?w) = (ca, q)" by (rule prod.exhaust)
    note found = cache_lookup_trusted [OF _ l, of "ee_run EE"]
    have t: "trusted (ee_run EE) CE (cw_cache ?w)" using w by (simp add: honest_world_def)
    have "es' = es\<lparr>en_world := ?w\<lparr>cw_cache := ca\<rparr>\<rparr>" "found = q"
      using run Some l by (simp_all add: job_lookup_def Let_def)
    with found [OF t] w ok CE show ?thesis by (auto simp: honest_world_def intro!: engine_rest_world)
  qed
  then show "engine_rest_ok EE es'" "en_runtime es' = en_runtime es" "en_live es' = en_live es"
    "found = Some im \<Longrightarrow> honest (ee_run EE) im \<and> length (si_tokens im) < length tokens \<and> prefix (si_tokens im) tokens"
    by blast+
qed

lemma live_tokens_facts:
  "0 < live_tokens tokens live \<Longrightarrow> live = Some (take (live_tokens tokens live) tokens)"
  "tokens \<noteq> [] \<Longrightarrow> live_tokens tokens live < length tokens"
  by (auto simp: live_tokens_def prefix_def split: option.splits if_splits)

text \<open>Where a job starts: at a prefix of its tokens that the session represents.\<close>

definition starts_at :: "('f, 'r, 'd, 'b) engine_env \<Rightarrow> u32 list \<Rightarrow> nat \<Rightarrow> ('f, 'b) engine \<Rightarrow> bool" where
  "starts_at EE tokens n es \<longleftrightarrow> engine_ok EE es \<and> n < length tokens \<and> represents (ee_run EE) (take n tokens) (en_runtime es)"

lemma start_over_starts:
  assumes "engine_wf EE" "engine_rest_ok EE es" "tokens \<noteq> []" "start_over EE es = (es', Inr (ru, n))"
  shows "starts_at EE tokens n es'"
proof -
  have es': "es' = es\<lparr>en_runtime := reset (ee_run EE) (en_runtime es), en_live := None\<rparr>" "n = 0"
    using assms(4) by (simp_all add: start_over_def)
  have "represents (ee_run EE) [] (reset (ee_run EE) (en_runtime es))"
    using assms(1) by (intro represents_nothing) (simp_all add: engine_wf_def reset_def fresh_state_def)
  with assms(2,3) show ?thesis
    by (simp add: es' starts_at_def engine_rest_ok_def engine_ok_def reset_def)
qed

lemma prepare_session_starts:
  assumes wf: "engine_wf EE" and ok: "engine_ok EE es" and ne: "tokens \<noteq> []"
    and run: "prepare_session EE mo opts tokens es = (es', r)"
  shows "r = Inr (ru, n) \<Longrightarrow> starts_at EE tokens n es'" and "engine_rest_ok EE es'"
proof -
  have rest: "engine_rest_ok EE es" using ok by (simp add: engine_ok_rest)
  have over: "(\<forall>ru n. snd (start_over EE e) = Inr (ru, n) \<longrightarrow> starts_at EE tokens n (fst (start_over EE e)))
      \<and> engine_rest_ok EE (fst (start_over EE e))" if "engine_rest_ok EE e" for e
    using start_over_starts [OF wf that ne, of "fst (start_over EE e)"] that
    by (auto simp: start_over_def engine_rest_ok_def engine_ok_def reset_def)
  have "(\<forall>ru n. r = Inr (ru, n) \<longrightarrow> starts_at EE tokens n es') \<and> engine_rest_ok EE es'"
  proof (cases "ee_prefix_reuse EE")
    case False
    with run over [OF rest] show ?thesis by (simp add: prepare_session_def)
  next
    case True
    let ?held = "live_tokens tokens (en_live es)"
    obtain es1 found where l: "job_lookup EE mo tokens ?held es = (es1, found)" by (rule prod.exhaust)
    note looked = job_lookup_ok [OF wf rest l]
    show ?thesis
    proof (cases found)
      case None
      show ?thesis
      proof (cases "0 < ?held \<and> serves_requested_arms (en_runtime es1) opts")
        case True
        with run None l \<open>ee_prefix_reuse EE\<close> have "es' = es1" "r = Inr (ReuseLive, ?held)" by (simp_all add: prepare_session_def Let_def)
        moreover have "represents (ee_run EE) (take ?held tokens) (en_runtime es1)"
          using ok live_tokens_facts(1) [of tokens "en_live es"] True looked(2) by (simp add: engine_ok_def)
        ultimately show ?thesis using ok looked live_tokens_facts(2) [OF ne] by (simp add: starts_at_def engine_ok_rest)
      next
        case False
        with run None l \<open>ee_prefix_reuse EE\<close> have "(es', r) = start_over EE es1" by (simp add: prepare_session_def Let_def)
        with over [OF looked(1)] show ?thesis by (metis fst_conv snd_conv)
      qed
    next
      case (Some im)
      from looked(4) [OF this] have im: "honest (ee_run EE) im" "length (si_tokens im) < length tokens" "prefix (si_tokens im) tokens" by simp_all
      obtain es2 q where r2: "on_runtime (restore_session (ee_run EE) im) es1 = (es2, q)" by (rule prod.exhaust)
      note kept = on_runtime_snaps [OF quiet_snaps_restore r2 looked(1)]
      show ?thesis
      proof (cases q)
        case (Inl e)
        with run Some l r2 True kept show ?thesis by (auto simp: prepare_session_def Let_def)
      next
        case (Inr u)
        show ?thesis
        proof (cases "serves_requested_arms (en_runtime es2) opts")
          case False
          with run Some l r2 True Inr have "(es', r) = start_over EE es2" by (simp add: prepare_session_def Let_def)
          with over [OF kept(1)] show ?thesis by (metis fst_conv snd_conv)
        next
          case serves: True
          with run Some l r2 True Inr have res: "es' = es2\<lparr>en_live := Some (si_tokens im)\<rparr>" "r = Inr (ReuseCache, im_position (si_model im))"
            by (simp_all add: prepare_session_def Let_def)
          obtain rt c q' where m: "restore_session (ee_run EE) im (en_runtime es1, ()) = ((rt, c), q')" by (metis surj_pair)
          with r2 Inr have m: "restore_session (ee_run EE) im (en_runtime es1, ()) = ((rt, c), Inr u)" "en_runtime es2 = rt"
            by (auto simp: on_runtime_def)
          note rep = restore_represents [OF im(1) m(1)]
          have "take (length (si_tokens im)) tokens = si_tokens im" using im(3) by (auto simp: prefix_def)
          with rep m(2) kept im(2) show ?thesis by (simp add: res starts_at_def engine_ok_rest)
        qed
      qed
    qed
  qed
  then show "r = Inr (ru, n) \<Longrightarrow> starts_at EE tokens n es'" and "engine_rest_ok EE es'" by blast+
qed

section \<open>Up to a boundary\<close>

lemma find_mem: "find P xs = Some x \<Longrightarrow> x \<in> set xs"
  by (auto simp: find_Some_iff)

lemma store_boundary_bounds:
  assumes "cache_store_boundary CE tokens reused repeated ca = Some b"
  shows "reused < b" "b < length tokens"
proof -
  let ?block = "cc_block_tokens (ce_config CE)" and ?low = "cc_min_tokens (ce_config CE)"
  from assms have at: "store_boundary_at (length tokens) reused repeated ?block ?low = Some b"
    by (auto simp: cache_store_boundary_def split: option.splits if_splits)
  then show "reused < b" unfolding store_boundary_at_def Let_def by (rule find_SomeD)
  from at have "b \<in> set (boundaries (length tokens) ?block ?low)"
    by (auto simp: store_boundary_at_def Let_def dest: find_mem)
  then show "b < length tokens" by (rule boundaries_below)
qed

lemma store_here_ok:
  assumes wf: "engine_wf EE" and CE: "active_cache EE = Some CE" and ok: "engine_rest_ok EE es"
    and rep: "represents (ee_run EE) tokens (en_runtime es)"
    and run: "store_here EE CE mo wants_mtp tokens es = (es', r)"
  shows "engine_rest_ok EE es'" "en_runtime es' = en_runtime es" "en_live es' = en_live es"
proof -
  have ee: "ee_cache EE = Some CE" using CE by (simp add: active_cache_def split: if_splits)
  have w: "honest_world (ee_run EE) CE (writer_runs CE (mo_before_store mo) (en_world es))"
    using wf ok ee by (intro writer_runs_honest) (simp_all add: engine_wf_def engine_rest_ok_def engine_ok_def)
  have "engine_rest_ok EE es' \<and> en_runtime es' = en_runtime es \<and> en_live es' = en_live es"
  proof (cases "wants_mtp \<and> \<not> images_mtp_state (en_runtime es)")
    case True
    with run ok show ?thesis by (simp add: store_here_def)
  next
    case False
    show ?thesis
    proof (cases "session_image tokens (en_runtime es)")
      case (Inl e)
      with run False ok show ?thesis by (auto simp: store_here_def)
    next
      case (Inr im)
      with run False have "es' = es\<lparr>en_world := fst (cache_store im (writer_runs CE (mo_before_store mo) (en_world es)))\<rparr>"
        by (auto simp: store_here_def)
      with cache_store_honest [OF w session_image_honest(1) [OF rep Inr]] ok ee show ?thesis
        by (auto intro!: engine_rest_world)
    qed
  qed
  then show "engine_rest_ok EE es'" "en_runtime es' = en_runtime es" "en_live es' = en_live es" by blast+
qed

lemma prefill_boundary_starts:
  assumes wf: "engine_wf EE" and start: "starts_at EE tokens n es"
    and run: "prefill_boundary EE mo req tokens n es = (es', r)"
  shows "r = Inr m \<Longrightarrow> starts_at EE tokens m es' \<and> n \<le> m" and "r = Inl e \<Longrightarrow> engine_ok EE es'"
proof -
  let ?E = "ee_run EE"
  have n: "n < length tokens" and rep: "represents ?E (take n tokens) (en_runtime es)" and ok: "engine_ok EE es"
    using start by (simp_all add: starts_at_def)
  have "(\<forall>m. r = Inr m \<longrightarrow> starts_at EE tokens m es' \<and> n \<le> m) \<and> (\<forall>e. r = Inl e \<longrightarrow> engine_ok EE es')"
  proof (cases "active_cache EE")
    case None
    with run start show ?thesis by (auto simp: prefill_boundary_def)
  next
    case (Some CE)
    have ee: "ee_cache EE = Some CE" using Some by (simp add: active_cache_def split: if_splits)
    let ?repeated = "Option.bind (jr_stable_prefix req) (\<lambda>pre. stable_token_count ?E pre tokens)"
    let ?es1 = "es\<lparr>en_world := writer_runs CE (mo_before_boundary mo) (en_world es)\<rparr>"
    have rest1: "engine_rest_ok EE ?es1"
    proof (rule engine_rest_world)
      show "engine_rest_ok EE es" using ok by (simp add: engine_ok_rest)
      show "honest_world ?E CE' (writer_runs CE (mo_before_boundary mo) (en_world es))" if "ee_cache EE = Some CE'" for CE'
        using that ee wf ok by (auto simp: engine_wf_def engine_ok_def intro!: writer_runs_honest)
    qed
    obtain es2 q where s: "store_boundary_entry EE CE mo (jr_options req) tokens n ?repeated es = (es2, q)" by (rule prod.exhaust)
    show ?thesis
    proof (cases "cache_store_boundary CE tokens n ?repeated (cw_cache (en_world ?es1))")
      case None
      with s have "es2 = ?es1" "q = Inr n" by (simp_all add: store_boundary_entry_def Let_def)
      with run Some s have "es' = ?es1" "r = Inr n" by (simp_all add: prefill_boundary_def)
      with rest1 start show ?thesis by (simp add: starts_at_def engine_ok_rest)
    next
      case (Some b)
      note b = store_boundary_bounds [OF Some]
      let ?wants = "allows_mtp (requested_mode (jr_options req)) \<and> ev_mtp ?E \<noteq> None"
      obtain es3 q3 where p: "on_runtime (prefill_tokens ?E (slice tokens n b) ?wants) ?es1 = (es3, q3)" by (rule prod.exhaust)
      note kept = on_runtime_snaps [OF quiet_snaps_prefill_tokens p rest1]
      show ?thesis
      proof (cases q3)
        case (Inl e)
        with s Some p have "es2 = es3" "q = Inl (BoundaryFailure e)" by (simp_all add: store_boundary_entry_def Let_def)
        with run \<open>active_cache EE = Some CE\<close> s have "es' = es3\<lparr>en_live := None\<rparr>" "r = Inl (BoundaryFailure e)"
          by (simp_all add: prefill_boundary_def)
        with kept show ?thesis by (simp add: engine_ok_rest)
      next
        case (Inr u)
        obtain rt c q' where "prefill_tokens ?E (slice tokens n b) ?wants (en_runtime ?es1, ()) = ((rt, c), q')" by (metis surj_pair)
        with p Inr have pre: "prefill_tokens ?E (slice tokens n b) ?wants (en_runtime es, ()) = ((rt, c), Inr u)" and rt: "en_runtime es3 = rt"
          by (auto simp: on_runtime_def)
        have "take n tokens @ slice tokens n b = take b tokens"
          using b(1) take_add [of n "b - n" tokens] by (simp add: slice_def)
        with prefill_represents(1) [OF rep pre] rt have rep3: "represents ?E (take b tokens) (en_runtime es3)" by simp
        obtain es4 q4 where st: "store_here EE CE mo ?wants (take b tokens) es3 = (es4, q4)" by (rule prod.exhaust)
        note stored = store_here_ok [OF wf \<open>active_cache EE = Some CE\<close> kept(1) rep3 st]
        show ?thesis
        proof (cases q4)
          case (Inl e)
          with s Some p Inr st have "es2 = es4" "q = Inl e" by (simp_all add: store_boundary_entry_def Let_def)
          with run \<open>active_cache EE = Some CE\<close> s have "es' = es4\<lparr>en_live := None\<rparr>" "r = Inl e"
            by (simp_all add: prefill_boundary_def)
          with stored show ?thesis by (simp add: engine_ok_rest)
        next
          case (Inr v)
          with s Some p \<open>q3 = Inr u\<close> st have "es2 = es4" "q = Inr b" by (simp_all add: store_boundary_entry_def Let_def)
          with run \<open>active_cache EE = Some CE\<close> s b(1) have res: "es' = es4\<lparr>en_live := Some (take b tokens)\<rparr>" "r = Inr b"
            by (simp_all add: prefill_boundary_def)
          with stored rep3 b show ?thesis by (simp add: starts_at_def engine_ok_rest)
        qed
      qed
    qed
  qed
  then show "r = Inr m \<Longrightarrow> starts_at EE tokens m es' \<and> n \<le> m" and "r = Inl e \<Longrightarrow> engine_ok EE es'" by blast+
qed

section \<open>Jobs\<close>

lemma prepare_job_starts:
  assumes wf: "engine_wf EE" and ok: "engine_ok EE es" and run: "prepare_job EE mo req ch es = ((es', ch'), r)"
  shows "engine_ok EE es'"
    and "r = Inr (Some (tokens, start, m)) \<Longrightarrow> starts_at EE tokens m es' \<and> snd start \<le> m
      \<and> ev_encode (ee_run EE) (jr_prompt req) (go_add_special_tokens (jr_options req)) = Some tokens"
proof -
  have "engine_ok EE es' \<and> (\<forall>tokens start m. r = Inr (Some (tokens, start, m)) \<longrightarrow> starts_at EE tokens m es' \<and> snd start \<le> m
      \<and> ev_encode (ee_run EE) (jr_prompt req) (go_add_special_tokens (jr_options req)) = Some tokens)"
  proof (cases "ev_encode (ee_run EE) (jr_prompt req) (go_add_special_tokens (jr_options req))")
    case None
    with run ok show ?thesis by (auto simp: prepare_job_def)
  next
    case (Some tokens)
    show ?thesis
    proof (cases "tokens = []")
      case True
      with run Some ok show ?thesis by (auto simp: prepare_job_def)
    next
      case ne: False
      obtain es1 q where p: "prepare_session EE mo (jr_options req) tokens es = (es1, q)" by (rule prod.exhaust)
      note prepared = prepare_session_starts [OF wf ok ne p]
      show ?thesis
      proof (cases q)
        case (Inl e)
        with run Some ne p have "es' = es1\<lparr>en_live := None\<rparr>" "r = Inl e" by (simp_all add: prepare_job_def)
        with prepared(2) show ?thesis by (simp add: engine_ok_rest)
      next
        case (Inr start)
        obtain ru n where start: "start = (ru, n)" by (rule prod.exhaust)
        obtain es2 q2 where b: "prefill_boundary EE mo req tokens n es1 = (es2, q2)" by (rule prod.exhaust)
        note at = prefill_boundary_starts [OF wf prepared(1) [OF Inr [unfolded start]] b]
        show ?thesis
        proof (cases q2)
          case (Inl e)
          with run Some ne p Inr start b have "es' = es2" "r = Inl e" by (simp_all add: prepare_job_def)
          with at(2) [OF Inl] show ?thesis by simp
        next
          case q2: (Inr m)
          with at(1) [OF q2] have "engine_ok EE es2" by (simp add: starts_at_def)
          with run Some ne p Inr start b q2 at(1) [OF q2] show ?thesis
            by (auto simp: prepare_job_def split: prod.splits if_splits)
        qed
      qed
    qed
  qed
  then show "engine_ok EE es'" "r = Inr (Some (tokens, start, m)) \<Longrightarrow> starts_at EE tokens m es' \<and> snd start \<le> m
      \<and> ev_encode (ee_run EE) (jr_prompt req) (go_add_special_tokens (jr_options req)) = Some tokens" by blast+
qed

text \<open>
  A turn that was halted returns the callback's error. The one exception is a turn that fails
  while the rows of the refused token are being undone; the code then still takes it as halted.
\<close>

definition undone_cleanly :: "('f, 'd generation) session \<times> (run_error + generation_result) \<Rightarrow> bool" where
  "undone_cleanly = (\<lambda>((rt, gn), r). \<forall>e. r = Inl e \<longrightarrow> gn_halted gn \<noteq> None \<longrightarrow> e = CallbackFailure)"

definition clean_job :: "('f, 'r, 'd, 'b) engine_env \<Rightarrow> 'b moments \<Rightarrow> 'f job_request \<Rightarrow> channel \<Rightarrow> ('f, 'b) engine \<Rightarrow> bool" where
  "clean_job EE mo req ch es = (case prepare_job EE mo req ch es of
      ((es1, ch1), Inr (Some (tokens, start, m))) \<Rightarrow> undone_cleanly (job_turn EE req (drop m tokens) ch1 es1)
    | _ \<Rightarrow> True)"

lemma conclude_proper:
  assumes "conclude E req n start result gn = (gn', Inr oc)" "undone_cleanly ((rt, gn), result)"
  shows "proper result"
  using assms by (cases result) (auto simp: conclude_def undone_cleanly_def split: option.splits halt.splits)

lemma flush_generated:
  "flush_held gn = (gn', ok) \<Longrightarrow> gn_generated gn' = gn_generated gn"
  "flush_tail gn = (gn', ok) \<Longrightarrow> gn_generated gn' = gn_generated gn"
  by (auto simp: flush_held_def flush_tail_def Let_def split: prod.splits if_splits option.splits)

lemma conclude_generated: "conclude E req n start result gn = (gn', r) \<Longrightarrow> gn_generated gn' = gn_generated gn"
  by (auto simp: conclude_def split: sum.splits prod.splits bool.splits option.splits halt.splits; metis flush_generated)

lemma decode_job_ok:
  assumes start: "starts_at EE tokens m es" and clean: "undone_cleanly (job_turn EE req (drop m tokens) ch es)"
    and run: "decode_job EE req tokens st m ch es = ((es', ch'), r)"
  shows "engine_ok EE es'"
proof -
  obtain rt gn result where t: "job_turn EE req (drop m tokens) ch es = ((rt, gn), result)" by (metis surj_pair)
  obtain gn1 q where c: "conclude (ee_run EE) req (length tokens) st result gn = (gn1, q)" by (rule prod.exhaust)
  have es': "es' = es\<lparr>en_runtime := rt, en_live := (case q of Inl _ \<Rightarrow> None | Inr _ \<Rightarrow> Some (tokens @ gn_generated gn))\<rparr>"
    using run t c by (auto simp: decode_job_def Let_def)
  have rep: "represents (ee_run EE) (take m tokens) (en_runtime es)" and sn: "snapshots_ok (rt_snapshots (en_runtime es))"
    using start by (simp_all add: starts_at_def engine_ok_def)
  have "snapshots_ok (rt_snapshots rt)"
    using turn_snaps [OF represents_ok [OF rep] sn, of "jr_options req" "on_token EE" "drop m tokens" "generation_new EE req ch"] t
    by (simp add: job_turn_def snaps_def)
  moreover have "represents (ee_run EE) (tokens @ gn_generated gn) rt" if "q = Inr oc" for oc
  proof -
    have "proper result" using conclude_proper [OF c [unfolded that]] clean t by (metis (no_types))
    from job_turn_represents [OF rep sn t [unfolded job_turn_def] this] show ?thesis
      by (simp add: generation_new_def append_assoc [symmetric] del: append_assoc)
  qed
  moreover have "engine_rest_ok EE es" using start by (simp add: starts_at_def engine_ok_rest)
  ultimately show ?thesis unfolding es' engine_ok_rest
    by (cases q) (simp_all add: engine_rest_runtime)
qed

lemma generate_ok:
  assumes wf: "engine_wf EE" and ok: "engine_ok EE es" and clean: "clean_job EE mo req ch es"
    and run: "generate EE mo req ch es = ((es', ch'), r)"
  shows "engine_ok EE es'"
proof -
  obtain es1 ch1 q where p: "prepare_job EE mo req ch es = ((es1, ch1), q)" by (metis surj_pair)
  note prepared = prepare_job_starts [OF wf ok p]
  consider e where "q = Inl e" | "q = Inr None" | tokens st m where "q = Inr (Some (tokens, st, m))"
    by (metis not_None_eq prod_cases3 obj_sumE)
  then show ?thesis
  proof cases
    case (3 tokens st m)
    have "decode_job EE req tokens st m ch1 es1 = ((es', ch'), r)" using run p 3 by (simp add: generate_def)
    moreover have "undone_cleanly (job_turn EE req (drop m tokens) ch1 es1)" using clean p 3 by (simp add: clean_job_def)
    ultimately show ?thesis using prepared(2) [OF 3] by (blast intro: decode_job_ok)
  qed (use run p prepared(1) in \<open>simp_all add: generate_def\<close>)
qed

lemma run_job_ok:
  assumes wf: "engine_wf EE" and ok: "engine_ok EE es" and clean: "clean_job EE mo req ch es"
  shows "engine_ok EE (fst (run_job EE mo req ch es))"
proof -
  obtain es' ch' r where g: "generate EE mo req ch es = ((es', ch'), r)" by (metis surj_pair)
  with generate_ok [OF assms g] ok show ?thesis
    by (auto simp: run_job_def split: sum.splits option.splits)
qed

section \<open>The reference\<close>

text \<open>The same engine without reuse and without drafting.\<close>

definition plain_options :: "'f generation_options \<Rightarrow> 'f generation_options" where
  "plain_options opts = opts\<lparr>go_speculative_mode := ModeOff, go_mtp_draft_tokens := 0, go_ngram_draft_tokens := 0\<rparr>"

definition plain_request :: "'f job_request \<Rightarrow> 'f job_request" where
  "plain_request req = req\<lparr>jr_options := plain_options (jr_options req)\<rparr>"

definition without_reuse :: "('f, 'r, 'd, 'b) engine_env \<Rightarrow> ('f, 'r, 'd, 'b) engine_env" where
  "without_reuse EE = EE\<lparr>ee_prefix_reuse := False\<rparr>"

text \<open>What a completion says apart from what was reused.\<close>

definition forget_reuse :: "completion \<Rightarrow> completion" where
  "forget_reuse cp = cp\<lparr>cp_reused_tokens := 0, cp_reuse := ReuseNone, cp_prefill_tokens := cp_prompt_tokens cp\<rparr>"

lemma plain_options_simps [simp]:
  "go_max_new_tokens (plain_options opts) = go_max_new_tokens opts" "go_sampling (plain_options opts) = go_sampling opts"
  "go_stop_tokens (plain_options opts) = go_stop_tokens opts" "go_thinking_budget (plain_options opts) = go_thinking_budget opts"
  "go_add_special_tokens (plain_options opts) = go_add_special_tokens opts"
  "is_stop_token E (plain_options opts) = is_stop_token E opts" "turn_thinking E (plain_options opts) = turn_thinking E opts"
  by (simp_all add: plain_options_def is_stop_token_def turn_thinking_def fun_eq_iff)

lemma plain_request_simps [simp]:
  "jr_prompt (plain_request req) = jr_prompt req" "jr_stop_strings (plain_request req) = jr_stop_strings req"
  "jr_tools_enabled (plain_request req) = jr_tools_enabled req" "jr_thinking_open (plain_request req) = jr_thinking_open req"
  "jr_options (plain_request req) = plain_options (jr_options req)"
  "generation_new (without_reuse EE) (plain_request req) ch = generation_new EE req ch"
  "parsed_calls (plain_request req) = parsed_calls req" "ee_run (without_reuse EE) = ee_run EE"
  "on_token (without_reuse EE) = on_token EE" "active_cache (without_reuse EE) = None" "ee_prefix_reuse (without_reuse EE) = False"
  by (simp_all add: plain_request_def without_reuse_def generation_new_def parsed_calls_def on_token_def active_cache_def fun_eq_iff)

lemma plain_loop_options:
  "plain_loop E (plain_options opts) cb logits g pending th sampler s = plain_loop E opts cb logits g pending th sampler s"
proof (induction E opts cb logits g pending th sampler s rule: plain_loop.induct)
  case (1 E opts cb logits g pending th sampler s)
  show ?case
    unfolding plain_loop.simps [of E "plain_options opts" cb logits g pending th sampler s]
      plain_loop.simps [of E opts cb logits g pending th sampler s] plain_options_simps
    by (rule if_cong [OF refl refl], rule prod.case_cong [OF refl], rule sum.case_cong [OF refl refl],
        rule prod.case_cong [OF refl], rule sum.case_cong [OF refl refl])
      (auto simp: Let_def split: prod.split sum.split intro: "1.IH")
qed

lemma generate_plain_options: "generate_plain E (plain_options opts) cb prompt s = generate_plain E opts cb prompt s"
  by (simp add: generate_plain_def plain_loop_options [THEN ext [where f = "plain_loop E (plain_options opts) _ _ _ _ _ _"]] Let_def)

lemma reference_turn: "generate_tokens_with_callback E (plain_options opts) cb prompt s = generate_plain E opts cb prompt s"
proof -
  have "\<not> is_speculative (effective_speculative_mode ModeOff 0 0)" by code_simp
  then show ?thesis
    by (simp add: generate_tokens_with_callback_def plain_options_def [of opts])
      (simp add: generate_plain_options [unfolded plain_options_def])
qed

lemma conclude_same:
  fixes gn :: "'d generation"
  assumes same: "same_answer r1 r2" and run: "conclude E req n st r1 gn = (gn', Inr oc)"
  shows "conclude E (plain_request req) n (ReuseNone, 0) r2 gn = (gn', Inr (map_option forget_reuse oc))"
proof -
  have cp: "completion_of (plain_request req) n (ReuseNone, 0) reason g = forget_reuse (completion_of req n st reason g)" for reason and g :: "'d generation"
    by (simp add: completion_of_def forget_reuse_def)
  show ?thesis
  proof (cases r1)
    case (Inl e)
    with same obtain e2 where "r2 = Inl e2" by (auto simp: same_answer_def split: sum.splits)
    with run Inl cp show ?thesis by (auto simp: conclude_def split: option.splits halt.splits)
  next
    case (Inr g1)
    with same obtain g2 where g2: "r2 = Inr g2" "qr_generated g2 = qr_generated g1" by (auto simp: same_answer_def split: sum.splits)
    then have "ended_reason E (plain_request req) g2 = (ended_reason E req g1 :: 'd generation \<Rightarrow> finish_reason)"
      by (simp add: ended_reason_def fun_eq_iff Let_def)
    with run Inr g2 cp show ?thesis by (auto simp: conclude_def split: prod.splits bool.splits)
  qed
qed

lemma reference_prepare:
  assumes "ev_encode (ee_run EE) (jr_prompt req) (go_add_special_tokens (jr_options req)) = Some tokens" "tokens \<noteq> []"
  shows "prepare_job (without_reuse EE) mo (plain_request req) ch es =
    (let es1 = fst (start_over EE es)
     in if jr_thinking_open req
        then (case send (Delta (''<think>'' @ [CHR 0x0A])) ch of
                (ch1, ok) \<Rightarrow> ((es1, ch1), Inr (if ok then Some (tokens, (ReuseNone, 0), 0) else None)))
        else ((es1, ch), Inr (Some (tokens, (ReuseNone, 0), 0))))"
  using assms by (simp add: prepare_job_def prepare_session_def start_over_def prefill_boundary_def Let_def split: prod.split)

lemma prepare_job_channel:
  assumes "prepare_job EE mo req ch es = ((es1, ch1), Inr q)"
  obtains tokens where "ev_encode (ee_run EE) (jr_prompt req) (go_add_special_tokens (jr_options req)) = Some tokens" "tokens \<noteq> []"
    "if jr_thinking_open req then send (Delta (''<think>'' @ [CHR 0x0A])) ch = (ch1, q \<noteq> None) else ch1 = ch \<and> q \<noteq> None"
    "\<And>ts st m. q = Some (ts, st, m) \<Longrightarrow> ts = tokens"
  using assms that by (auto simp: prepare_job_def split: option.splits if_splits prod.splits sum.splits)

text \<open>
  A job that does not fail answers as the reference: the same events, the same completion but for
  what was reused.
\<close>

lemma generate_as_reference:
  assumes wf: "engine_wf EE" and ok: "engine_ok EE es" and clean: "clean_job EE mo req ch es"
    and run: "generate EE mo req ch es = ((es', ch'), Inr oc)"
  shows "\<exists>es2. generate (without_reuse EE) mo2 (plain_request req) ch es0 = ((es2, ch'), Inr (map_option forget_reuse oc))"
proof -
  obtain es1 ch1 q where p: "prepare_job EE mo req ch es = ((es1, ch1), q)" by (metis surj_pair)
  with run obtain w where q: "q = Inr w" by (cases q) (auto simp: generate_def)
  from prepare_job_channel [OF p [unfolded q]] obtain tokens where
    enc: "ev_encode (ee_run EE) (jr_prompt req) (go_add_special_tokens (jr_options req)) = Some tokens" "tokens \<noteq> []"
    and chan: "if jr_thinking_open req then send (Delta (''<think>'' @ [CHR 0x0A])) ch = (ch1, w \<noteq> None) else ch1 = ch \<and> w \<noteq> None"
    and toks: "\<And>ts st m. w = Some (ts, st, m) \<Longrightarrow> ts = tokens" by blast
  let ?es2 = "fst (start_over EE es0)"
  have ref: "prepare_job (without_reuse EE) mo2 (plain_request req) ch es0
      = ((?es2, ch1), Inr (if w \<noteq> None then Some (tokens, (ReuseNone, 0), 0) else None))"
    using reference_prepare [OF enc, of mo2 ch es0] chan by (auto simp: Let_def split: if_splits)
  show ?thesis
  proof (cases w)
    case None
    with run p q have "ch' = ch1" "oc = None" by (simp_all add: generate_def)
    with ref None show ?thesis by (simp add: generate_def)
  next
    case (Some x)
    obtain ts st m where x: "x = (ts, st, m)" by (metis prod_cases3)
    with Some toks have ts: "ts = tokens" by simp
    have w: "w = Some (tokens, st, m)" using Some x ts by simp
    have dec: "decode_job EE req tokens st m ch1 es1 = ((es', ch'), Inr oc)" using run p q w by (simp add: generate_def)
    have starts: "starts_at EE tokens m es1" using prepare_job_starts(2) [OF wf ok p] q w by simp
    have cl: "undone_cleanly (job_turn EE req (drop m tokens) ch1 es1)" using clean p q w by (simp add: clean_job_def)
    obtain rt gn r1 where t: "job_turn EE req (drop m tokens) ch1 es1 = ((rt, gn), r1)" by (metis surj_pair)
    obtain gn1 q1 where c: "conclude (ee_run EE) req (length tokens) st r1 gn = (gn1, q1)" by (rule prod.exhaust)
    have res: "q1 = Inr oc" "ch' = gn_channel gn1" using dec t c by (auto simp: decode_job_def Let_def)
    have "proper r1" using conclude_proper [OF c [unfolded res(1)]] cl t by (metis (no_types))
    moreover have "represents (ee_run EE) (take m tokens) (en_runtime es1)" "snapshots_ok (rt_snapshots (en_runtime es1))"
      using starts by (simp_all add: starts_at_def engine_ok_def)
    moreover have "rt_state (en_runtime ?es2) = fresh_state (ee_run EE)" "rt_pending (en_runtime ?es2) = None"
      by (simp_all add: start_over_def reset_def fresh_state_def)
    ultimately obtain s2 r2 where plain: "generate_plain (ee_run EE) (jr_options req) (on_token EE) (take m tokens @ drop m tokens)
        (en_runtime ?es2, generation_new EE req ch1) = (s2, r2)" and alike: "alike ((rt, gn)) s2" and same: "same_answer r1 r2"
      using turn_from_prefix [OF _ _ t [unfolded job_turn_def]] by blast
    obtain rt2 where s2: "s2 = (rt2, gn)" using alike by (cases s2) (simp add: alike_def)
    have "job_turn (without_reuse EE) (plain_request req) tokens ch1 ?es2 = ((rt2, gn), r2)"
      using plain s2 by (simp add: job_turn_def reference_turn)
    moreover note conclude_same [OF same c [unfolded res(1)]]
    ultimately have "\<exists>es3. decode_job (without_reuse EE) (plain_request req) tokens (ReuseNone, 0) 0 ch1 ?es2
        = ((es3, gn_channel gn1), Inr (map_option forget_reuse oc))"
      by (simp add: decode_job_def Let_def)
    with ref w res(2) show ?thesis by (auto simp: generate_def)
  qed
qed

end
