(* ===== verification/Engine_Events.thy ===== *)
theory Engine_Events
  imports Sink_Reached Engine_Correct
begin

text \<open>
  What a client of the engine relies on: its answer does not depend on the requests before it, and
  its stream of events is a sequence of non-empty deltas free of stop sequences, closed by one
  terminal event.
\<close>

section \<open>Engines that have served\<close>

lemma update_entries: "set (AList.update k v xs) \<subseteq> insert (k, v) (set xs)"
  by (induction xs) auto

lemma scan_trusted:
  assumes "\<forall>(k, m) \<in> set (ix_entries ix). is_entry (em_path m)" "scan os fp es (ix, disk) = (ix', disk')"
  shows "(\<forall>(k, m) \<in> set (ix_entries ix'). is_entry (em_path m)) \<and> (honest_disk E CE disk \<longrightarrow> honest_disk E CE disk')"
  using assms
proof (induction es arbitrary: ix disk)
  case (Cons e es)
  let ?rest = "\<lambda>ix1 disk1. scan os fp es (ix1, disk1) = (ix', disk')"
  consider (same) ix1 where "?rest ix1 disk" "ix_entries ix1 = ix_entries ix"
    | (removed) d where "?rest ix d" "remove_file os (de_name e) disk = Some d"
    | (found) ix1 key meta where "?rest ix1 disk" "ix_entries ix1 = AList.update key meta (ix_entries ix)" "is_entry (em_path meta)"
    using Cons.prems(2)
    by (cases "remove_file os (de_name e) disk"; cases "parse_file_name (de_name e) fp")
      (auto simp: Let_def split: if_splits option.splits bool.splits)
  then show ?case
  proof cases
    case same
    with Cons.IH [of ix1 disk] Cons.prems(1) show ?thesis by simp
  next
    case removed
    with Cons.IH [of ix d] Cons.prems(1) honest_fewer remove_file_fewer show ?thesis by blast
  next
    case found
    then have "\<forall>(k, m) \<in> set (ix_entries ix1). is_entry (em_path m)"
      using Cons.prems(1) update_entries [of key meta "ix_entries ix"] by auto
    with Cons.IH [of ix1 disk] found show ?thesis by simp
  qed
qed simp

lemma open_trusted:
  assumes "honest_disk E CE disk" "cache_open CE os listing disk = Inr ca"
  shows "trusted E CE ca"
proof -
  obtain es where es: "listing = Some es" using assms(2) by (cases listing) (auto simp: cache_open_def bindE_def split: sum.splits)
  obtain ix disk' where s: "scan os (ce_fingerprint CE) es (index_default, disk) = (ix, disk')" by (rule prod.exhaust)
  have "trusted E CE \<lparr>ca_index = ix, ca_stats = stats_default, ca_disk = disk'\<rparr>"
    using scan_trusted [OF _ s, of E CE] assms(1) by (simp add: trusted_def index_default_def)
  moreover have "ca = evict CE os None \<lparr>ca_index = ix, ca_stats = stats_default, ca_disk = disk'\<rparr>"
    using assms(2) es s by (auto simp: cache_open_def bindE_def split: sum.splits)
  ultimately show ?thesis by (simp add: evict_trusted)
qed

text \<open>
  An engine starts without a live session, on a directory this configuration wrote, and then
  serves jobs; the writer thread makes steps in between.
\<close>

inductive served :: "('f, 'r, 'd, 'b) engine_env \<Rightarrow> ('f, 'b) engine \<Rightarrow> bool" for EE where
  started: "en_live es = None \<Longrightarrow> snapshots_ok (rt_snapshots (en_runtime es))
    \<Longrightarrow> (\<And>CE. ee_cache EE = Some CE \<Longrightarrow> cw_queue (en_world es) = None \<and> cw_writing (en_world es) = None
          \<and> (\<exists>os listing disk. honest_disk (ee_run EE) CE disk \<and> cache_open CE os listing disk = Inr (cw_cache (en_world es))))
    \<Longrightarrow> served EE es"
| job: "served EE es \<Longrightarrow> clean_job EE mo req ch es \<Longrightarrow> served EE (fst (run_job EE mo req ch es))"
| wrote: "served EE es \<Longrightarrow> ee_cache EE = Some CE \<Longrightarrow> served EE (es\<lparr>en_world := writer_step CE os (en_world es)\<rparr>)"

lemma served_ok: "served EE es \<Longrightarrow> engine_wf EE \<Longrightarrow> engine_ok EE es"
proof (induction rule: served.induct)
  case (started es)
  have "honest_world (ee_run EE) CE (en_world es)" if "ee_cache EE = Some CE" for CE
  proof -
    from started(3) [OF that] obtain os listing disk where "cw_queue (en_world es) = None" "cw_writing (en_world es) = None"
      "honest_disk (ee_run EE) CE disk" "cache_open CE os listing disk = Inr (cw_cache (en_world es))" by blast
    with open_trusted show ?thesis by (auto simp: honest_world_def)
  qed
  with started(1,2) show ?case by (simp add: engine_ok_def)
next
  case (job es mo req ch)
  then show ?case by (intro run_job_ok) simp_all
next
  case (wrote es CE os)
  then have "honest_world (ee_run EE) CE (writer_step CE os (en_world es))"
    by (intro writer_step_honest) (simp_all add: engine_wf_def engine_ok_def)
  with wrote show ?case by (simp add: engine_ok_def)
qed

section \<open>The events of a job\<close>

text \<open>What the decoder yields is a \<open>String\<close>, and so are the stop sequences.\<close>

definition speaks_utf8 :: "('f, 'r, 'd, 'b) engine_env \<Rightarrow> bool" where
  "speaks_utf8 EE \<longleftrightarrow> (\<forall>d t d' chunk. ee_decode_step EE d t = (d', Inr (Some chunk)) \<longrightarrow> utf8 chunk)"

definition stops_of :: "'f job_request \<Rightarrow> string list" where
  "stops_of req = filter (\<lambda>stop. stop \<noteq> []) (jr_stop_strings req)"

text \<open>The channel holds non-empty deltas that, joined, contain no stop sequence.\<close>

definition answered :: "string list \<Rightarrow> event list \<Rightarrow> string list \<Rightarrow> channel \<Rightarrow> bool" where
  "answered strings sent texts ch \<longleftrightarrow> ch_sent ch = sent @ map Delta texts \<and> [] \<notin> set texts
     \<and> earliest strings (concat texts) = None"

text \<open>The state of a turn whose tokens were all taken, and what a refused one leaves.\<close>

definition streaming :: "string list \<Rightarrow> event list \<Rightarrow> 'd generation \<Rightarrow> bool" where
  "streaming strings sent gn \<longleftrightarrow> gn_halted gn = None
     \<and> (\<exists>texts seen. answered strings sent texts (gn_channel gn) \<and> buffered strings (concat texts) (gn_stops gn) seen)
     \<and> (\<forall>guard. gn_tools gn = Some guard \<longrightarrow> gn_calling gn \<or> (\<exists>out seen. buffered [CALL_OPEN] out guard seen))"

definition refused :: "string list \<Rightarrow> event list \<Rightarrow> 'd generation \<Rightarrow> bool" where
  "refused strings sent gn \<longleftrightarrow> (\<exists>texts. answered strings sent texts (gn_channel gn))
     \<and> (gn_halted gn = Some Disconnected \<longrightarrow> is_closed (gn_channel gn))"

lemma send_delta:
  assumes "answered strings sent texts ch" "e \<noteq> []" "earliest strings (concat texts @ e) = None" "send (Delta e) ch = (ch', ok)"
  shows "ok \<Longrightarrow> answered strings sent (texts @ [e]) ch'" "\<not> ok \<Longrightarrow> ch' = ch \<and> is_closed ch"
  using assms by (auto simp: answered_def send_def split: if_splits)

lemma earliest_prefix: "earliest strings (s @ t) = None \<Longrightarrow> earliest strings s = None"
  unfolding earliest_None by (metis occurs_at_append occurs_at_length)

lemma earliest_cut:
  assumes "earliest strings s = Some at" "\<forall>stop \<in> set strings. stop \<noteq> []"
  shows "earliest strings (take at s) = None"
  unfolding earliest_None
proof (intro ballI allI notI)
  fix stop i
  assume "stop \<in> set strings" and occ: "occurs_at stop (take at s) i"
  have "i + length stop \<le> at" using occurs_at_length [OF occ] by simp
  moreover have "0 < length stop" using assms(2) \<open>stop \<in> set strings\<close> by simp
  ultimately have "i < at" by linarith
  moreover have "occurs_at stop (take at s @ drop at s) i" using occ occurs_at_append [OF occurs_at_length [OF occ]] by blast
  ultimately show False using assms(1) \<open>stop \<in> set strings\<close> by (auto simp: earliest_Some)
qed

text \<open>One text through the stop buffer.\<close>

lemma push_answered:
  assumes inv: "answered strings sent texts ch" "buffered strings (concat texts) sb seen" and utf8: "utf8 visible"
    and strings: "\<forall>stop \<in> set strings. utf8 stop \<and> stop \<noteq> []" and push: "push sb visible = (sb', step)"
  shows "earliest strings (concat texts @ ss_emit step) = None"
    and "\<not> ss_matched step \<Longrightarrow> \<exists>seen'. buffered strings (concat texts @ ss_emit step) sb' seen'"
    and "ss_matched step \<Longrightarrow> sb_held sb' = []"
proof -
  have seen: "seen = concat texts @ sb_held sb" using inv(2) by (simp add: buffered_def)
  have *: "earliest strings (concat texts @ ss_emit step) = None \<and>
     (\<not> ss_matched step \<longrightarrow> (\<exists>seen'. buffered strings (concat texts @ ss_emit step) sb' seen')) \<and> (ss_matched step \<longrightarrow> sb_held sb' = [])"
  proof (rule push_chunk [OF inv(2) utf8 bspec [OF strings]])
    fix sb1 at
    assume at: "earliest strings (seen @ visible) = Some at" "length (concat texts) \<le> at"
      and p: "push sb visible = (sb1, \<lparr>ss_emit = drop (length (concat texts)) (take at (seen @ visible)), ss_matched = True\<rparr>)"
    have "concat texts @ drop (length (concat texts)) (take at (seen @ visible)) = take at (seen @ visible)"
      using at(2) unfolding seen by (simp add: min_def)
    moreover have "sb_held sb1 = []" using p by (auto simp: push_def Let_def split: if_splits option.splits)
    ultimately show ?thesis using p push earliest_cut [OF at(1)] strings by simp
  next
    fix sb1 e
    assume held: "earliest strings (seen @ visible) = None" "push sb visible = (sb1, \<lparr>ss_emit = e, ss_matched = False\<rparr>)"
      "buffered strings (concat texts @ e) sb1 (seen @ visible)"
    have free: "earliest strings (concat texts @ e) = None"
      by (rule earliest_prefix [of strings _ "sb_held sb1"]) (use held(1,3) in \<open>simp add: buffered_def\<close>)
    have same: "sb' = sb1" "step = \<lparr>ss_emit = e, ss_matched = False\<rparr>" using held(2) push by simp_all
    have "\<exists>seen'. buffered strings (concat texts @ e) sb1 seen'" using held(3) by blast
    with free show ?thesis by (simp add: same)
  qed
  then show "earliest strings (concat texts @ ss_emit step) = None"
    "\<not> ss_matched step \<Longrightarrow> \<exists>seen'. buffered strings (concat texts @ ss_emit step) sb' seen'"
    "ss_matched step \<Longrightarrow> sb_held sb' = []" by blast+
qed

lemma deliver_answered:
  assumes inv: "streaming strings sent gn" and utf8: "utf8 visible"
    and strings: "\<forall>stop \<in> set strings. utf8 stop \<and> stop \<noteq> []" and run: "deliver visible gn = (gn', ok)"
  shows "ok \<Longrightarrow> streaming strings sent gn'" "\<not> ok \<Longrightarrow> refused strings sent gn'"
proof -
  obtain texts seen where a: "answered strings sent texts (gn_channel gn)" "buffered strings (concat texts) (gn_stops gn) seen"
    using inv by (auto simp: streaming_def)
  obtain sb step where push: "Stop_Buffer.push (gn_stops gn) visible = (sb, step)" by (rule prod.exhaust)
  note pushed = push_answered [OF a utf8 strings push]
  have "(ok \<longrightarrow> streaming strings sent gn') \<and> (\<not> ok \<longrightarrow> refused strings sent gn')"
  proof (cases "ss_emit step = []")
    case True
    with run push have gn': "gn' = (if ss_matched step then gn\<lparr>gn_stops := sb, gn_halted := Some StopString\<rparr> else gn\<lparr>gn_stops := sb\<rparr>)"
      "ok = (\<not> ss_matched step)" by (auto simp: deliver_def Let_def split: if_splits)
    have "\<not> ss_matched step \<Longrightarrow> \<exists>texts seen. answered strings sent texts (gn_channel gn) \<and> buffered strings (concat texts) sb seen"
      using pushed(2) True a(1) by auto
    with gn' a(1) inv show ?thesis by (cases "ss_matched step") (auto simp: streaming_def refused_def)
  next
    case False
    obtain ch taken where s: "send (Delta (ss_emit step)) (gn_channel gn) = (ch, taken)" by (rule prod.exhaust)
    note sends = send_delta [OF a(1) False pushed(1) s]
    show ?thesis
    proof (cases taken)
      case True
      then have a1: "answered strings sent (texts @ [ss_emit step]) ch" by (rule sends(1))
      show ?thesis
      proof (cases "ss_matched step")
        case True
        with run push False s \<open>taken\<close> a1 show ?thesis by (auto simp: deliver_def refused_def)
      next
        case no: False
        from pushed(2) [OF no] obtain seen' where b: "buffered strings (concat (texts @ [ss_emit step])) sb seen'" by auto
        have "gn' = gn\<lparr>gn_stops := sb, gn_channel := ch\<rparr>" "ok" using run push False s \<open>taken\<close> no by (auto simp: deliver_def)
        moreover have "\<exists>texts seen. answered strings sent texts ch \<and> buffered strings (concat texts) sb seen" using a1 b by blast
        ultimately show ?thesis using inv by (simp add: streaming_def)
      qed
    next
      case no: False
      with run push False s have "gn' = gn\<lparr>gn_stops := sb, gn_channel := ch, gn_halted := Some Disconnected\<rparr>" "\<not> ok" by (auto simp: deliver_def)
      with sends(2) no a(1) show ?thesis by (auto simp: refused_def)
    qed
  qed
  then show "ok \<Longrightarrow> streaming strings sent gn'" "\<not> ok \<Longrightarrow> refused strings sent gn'" by blast+
qed

lemma call_open_utf8: "\<forall>stop \<in> set [CALL_OPEN]. utf8 stop \<and> stop \<noteq> []"
  by (simp add: CALL_OPEN_def is_continuation_def following_bytes_def)

lemma visible_part_streaming:
  assumes inv: "streaming strings sent gn" and utf8: "utf8 chunk" and run: "visible_part chunk gn = (gn', visible)"
  shows "streaming strings sent gn'" "utf8 visible"
proof -
  have "streaming strings sent gn' \<and> utf8 visible"
  proof (cases "\<exists>guard. gn_tools gn = Some guard \<and> \<not> gn_calling gn")
    case False
    with run inv utf8 show ?thesis by (auto simp: visible_part_def split: option.splits if_splits)
  next
    case True
    then obtain guard where guard: "gn_tools gn = Some guard" "\<not> gn_calling gn" by blast
    then obtain out seen where inv1: "buffered [CALL_OPEN] out guard seen" using inv by (auto simp: streaming_def)
    obtain sb step where push: "Stop_Buffer.push guard chunk = (sb, step)" by (rule prod.exhaust)
    have gn': "gn' = gn\<lparr>gn_tools := Some sb, gn_calling := ss_matched step\<rparr>" "visible = ss_emit step"
      using run guard push by (auto simp: visible_part_def)
    have "utf8 visible \<and> (ss_matched step \<or> (\<exists>out seen. buffered [CALL_OPEN] out sb seen))"
      by (rule push_chunk [OF inv1 utf8 bspec [OF call_open_utf8]]) (use push gn'(2) in auto)
    with inv guard show ?thesis unfolding gn'(1) by (auto simp: streaming_def)
  qed
  then show "streaming strings sent gn'" "utf8 visible" by blast+
qed

lemma on_token_answered:
  fixes gn :: "'d generation"
  assumes inv: "streaming strings sent gn" and EE: "speaks_utf8 EE"
    and strings: "\<forall>stop \<in> set strings. utf8 stop \<and> stop \<noteq> []" and run: "on_token EE token gn = (gn', ok)"
  shows "ok \<Longrightarrow> streaming strings sent gn'" "\<not> ok \<Longrightarrow> refused strings sent gn'"
proof -
  have weak: "refused strings sent gn1" if "streaming strings sent gn1" for gn1 :: "'d generation"
    using that by (auto simp: streaming_def refused_def)
  let ?gn = "\<lambda>d. gn\<lparr>gn_completion := gn_completion gn + 1, gn_generated := gn_generated gn @ [token], gn_decoder := d\<rparr>"
  have base: "streaming strings sent (?gn d)" for d using inv by (simp add: streaming_def)
  obtain d q where dec: "ee_decode_step EE (gn_decoder gn) token = (d, q)" by (rule prod.exhaust)
  have "(ok \<longrightarrow> streaming strings sent gn') \<and> (\<not> ok \<longrightarrow> refused strings sent gn')"
  proof (cases "\<exists>chunk. q = Inr (Some chunk)")
    case False
    with run dec base weak [OF base] show ?thesis by (auto simp: on_token_def Let_def split: sum.splits option.splits)
  next
    case True
    then obtain chunk where q: "q = Inr (Some chunk)" by blast
    have utf8: "utf8 chunk" using EE dec q unfolding speaks_utf8_def by blast
    let ?raw = "gn_raw gn @ chunk"
    let ?gn1 = "(?gn d)\<lparr>gn_raw := ?raw, gn_reasoning := observe_text ?raw (gn_reasoning gn)\<rparr>"
    have "streaming strings sent ?gn1" using base [of d] by (simp add: streaming_def)
    obtain gn2 visible where v: "visible_part chunk ?gn1 = (gn2, visible)" by (rule prod.exhaust)
    note seen = visible_part_streaming [OF \<open>streaming strings sent ?gn1\<close> utf8 v]
    have step: "(gn', ok) = (if gn_calling gn2 \<and> call_closed ?raw then (gn2\<lparr>gn_halted := Some StopString\<rparr>, False)
        else if visible = [] then (gn2, True) else deliver visible gn2)"
      using run dec q v by (simp add: on_token_def on_chunk_def Let_def)
    have halted: "refused strings sent (gn2\<lparr>gn_halted := Some StopString\<rparr>)" using seen(1) by (auto simp: streaming_def refused_def)
    from step seen(1) halted deliver_answered [OF seen strings, of gn' ok] show ?thesis by (auto split: if_splits)
  qed
  then show "ok \<Longrightarrow> streaming strings sent gn'" "\<not> ok \<Longrightarrow> refused strings sent gn'" by blast+
qed

lemma generation_new_streaming:
  assumes "ch_sent ch = sent"
  shows "streaming (stops_of req) sent (generation_new EE req ch)"
proof -
  have "buffered (stops_of req) [] (stop_buffer_new (jr_stop_strings req)) []"
    by (auto simp: buffered_def stop_buffer_new_def earliest_None partial_match_def stops_of_def)
  then have "answered (stops_of req) sent [] ch \<and> buffered (stops_of req) (concat []) (stop_buffer_new (jr_stop_strings req)) []"
    using assms by (auto simp: answered_def earliest_None stops_of_def)
  moreover have "buffered [CALL_OPEN] [] (stop_buffer_new [CALL_OPEN]) []"
    by (auto simp: buffered_def stop_buffer_new_def earliest_None partial_match_def CALL_OPEN_def)
  ultimately have "\<exists>texts seen. answered (stops_of req) sent texts ch \<and> buffered (stops_of req) (concat texts) (stop_buffer_new (jr_stop_strings req)) seen"
    "\<exists>out seen. buffered [CALL_OPEN] out (stop_buffer_new [CALL_OPEN]) seen" by blast+
  then show ?thesis by (simp add: streaming_def generation_new_def)
qed

text \<open>The sink after the turn: still streaming, or after a token it refused when the turn failed.\<close>

lemma job_turn_answered:
  assumes EE: "speaks_utf8 EE" and strings: "\<forall>stop \<in> set (jr_stop_strings req). utf8 stop"
    and run: "job_turn EE req rest ch es = ((rt, gn), r)"
  shows "streaming (stops_of req) (ch_sent ch) gn \<or> (\<not> returns r \<and> refused (stops_of req) (ch_sent ch) gn)"
proof (rule reaches_invariant [OF turn_reaches [OF run [unfolded job_turn_def]], where P = "streaming (stops_of req) (ch_sent ch)"])
  have stops: "\<forall>stop \<in> set (stops_of req). utf8 stop \<and> stop \<noteq> []" using strings by (simp add: stops_of_def)
  show "streaming (stops_of req) (ch_sent ch) (generation_new EE req ch)" by (rule generation_new_streaming) simp
  fix token and c d :: "'c generation"
  show "streaming (stops_of req) (ch_sent ch) c \<Longrightarrow> on_token EE token c = (d, True) \<Longrightarrow> streaming (stops_of req) (ch_sent ch) d"
    using on_token_answered(1) [OF _ EE stops] by blast
  show "streaming (stops_of req) (ch_sent ch) c \<Longrightarrow> on_token EE token c = (d, False) \<Longrightarrow> refused (stops_of req) (ch_sent ch) d"
    using on_token_answered(2) [OF _ EE stops] by blast
qed

section \<open>Ending\<close>

text \<open>What the engine's events say when a turn has ended: nothing was leaked, and no outcome means no client.\<close>

definition ended_well :: "string list \<Rightarrow> event list \<Rightarrow> channel \<Rightarrow> engine_error + completion option \<Rightarrow> bool" where
  "ended_well strings sent ch r \<longleftrightarrow> (\<exists>texts. answered strings sent texts ch) \<and> (r = Inr None \<longrightarrow> is_closed ch)"

lemma flush_tail_answered:
  assumes a: "answered strings sent texts (gn_channel gn)" and held: "earliest strings (concat texts @ sb_held (gn_stops gn)) = None"
    and run: "flush_tail gn = (gn', ok)"
  shows "\<exists>texts. answered strings sent texts (gn_channel gn')" "\<not> ok \<Longrightarrow> is_closed (gn_channel gn')"
proof -
  have "(\<exists>texts. answered strings sent texts (gn_channel gn')) \<and> (\<not> ok \<longrightarrow> is_closed (gn_channel gn'))"
  proof (cases "sb_held (gn_stops gn) = []")
    case True
    with a run show ?thesis by (auto simp: flush_tail_def flush_def)
  next
    case False
    obtain ch taken where s: "send (Delta (sb_held (gn_stops gn))) (gn_channel gn) = (ch, taken)" by (rule prod.exhaust)
    note sends = send_delta [OF a False held s]
    have "gn_channel gn' = ch" "ok = taken" using run False s by (auto simp: flush_tail_def flush_def)
    with sends a show ?thesis by (cases taken) auto
  qed
  then show "\<exists>texts. answered strings sent texts (gn_channel gn')" "\<not> ok \<Longrightarrow> is_closed (gn_channel gn')" by blast+
qed

lemma buffered_free: "buffered strings out sb seen \<Longrightarrow> earliest strings (out @ sb_held sb) = None"
  by (auto simp: buffered_def)

lemma flush_held_answered:
  assumes inv: "streaming strings sent gn" and strings: "\<forall>stop \<in> set strings. utf8 stop \<and> stop \<noteq> []"
    and run: "flush_held gn = (gn', ok)"
  obtains texts where "answered strings sent texts (gn_channel gn')"
    "ok \<longrightarrow> earliest strings (concat texts @ sb_held (gn_stops gn')) = None"
    "\<not> ok \<longrightarrow> is_closed (gn_channel gn')"
proof -
  obtain texts seen where a: "answered strings sent texts (gn_channel gn)" "buffered strings (concat texts) (gn_stops gn) seen"
    using inv by (auto simp: streaming_def)
  note free = buffered_free [OF a(2)]
  let ?held = "case gn_tools gn of Some guard \<Rightarrow> if gn_calling gn then [] else snd (flush guard) | None \<Rightarrow> []"
  have utf8: "utf8 ?held" using inv by (auto simp: streaming_def buffered_def flush_def split: option.split)
  obtain sb step where push: "Stop_Buffer.push (gn_stops gn) ?held = (sb, step)" by (rule prod.exhaust)
  note pushed = push_answered [OF a utf8 strings push]
  have after: "earliest strings (concat texts @ ss_emit step @ sb_held sb) = None"
    using pushed by (cases "ss_matched step") (auto dest: buffered_free)
  show thesis
  proof (cases "?held = [] \<or> ss_emit step = []")
    case True
    have "gn' = gn \<or> (gn' = gn\<lparr>gn_stops := sb\<rparr> \<and> ss_emit step = [])" "ok"
      using run push True by (auto simp: flush_held_def Let_def split: if_splits)
    with that [of texts] a(1) free after show thesis by auto
  next
    case False
    then have some: "?held \<noteq> []" "ss_emit step \<noteq> []" by blast+
    obtain ch taken where s: "send (Delta (ss_emit step)) (gn_channel gn) = (ch, taken)" by (rule prod.exhaust)
    note sends = send_delta [OF a(1) some(2) pushed(1) s]
    have gn': "gn' = gn\<lparr>gn_stops := sb, gn_channel := ch\<rparr>" "ok = taken"
      using run push some s by (simp_all add: flush_held_def Let_def)
    show thesis
    proof (cases taken)
      case True
      with sends(1) after gn' show thesis by (intro that [of "texts @ [ss_emit step]"]) simp_all
    next
      case no: False
      with sends(2) a(1) gn' show thesis by (intro that [of texts]) simp_all
    qed
  qed
qed

lemma conclude_ended:
  assumes turn: "streaming strings sent gn \<or> (\<not> returns result \<and> refused strings sent gn)"
    and strings: "\<forall>stop \<in> set strings. utf8 stop \<and> stop \<noteq> []"
    and run: "conclude E req n st result gn = (gn', r)"
  shows "ended_well strings sent (gn_channel gn') r"
proof (cases result)
  case (Inl e)
  from turn have "(\<exists>texts. answered strings sent texts (gn_channel gn)) \<and> (gn_halted gn = Some Disconnected \<longrightarrow> is_closed (gn_channel gn))"
    by (auto simp: streaming_def refused_def)
  with run Inl show ?thesis by (auto simp: conclude_def ended_well_def split: option.splits halt.splits)
next
  case (Inr res)
  with turn have inv: "streaming strings sent gn" by simp
  obtain gn1 ok where f: "flush_held gn = (gn1, ok)" by (rule prod.exhaust)
  obtain gn2 ok2 where t: "flush_tail gn1 = (gn2, ok2)" by (rule prod.exhaust)
  obtain texts where texts: "answered strings sent texts (gn_channel gn1)"
    "ok \<longrightarrow> earliest strings (concat texts @ sb_held (gn_stops gn1)) = None" "\<not> ok \<longrightarrow> is_closed (gn_channel gn1)"
    by (rule flush_held_answered [OF inv strings f])
  show ?thesis
  proof (cases ok)
    case True
    with texts have "earliest strings (concat texts @ sb_held (gn_stops gn1)) = None" by simp
    note tail = flush_tail_answered [OF texts(1) this t]
    have "gn' = gn2" "\<not> ok2 \<or> r \<noteq> Inr None" using run Inr f t True by (auto simp: conclude_def split: bool.splits)
    with tail show ?thesis by (auto simp: ended_well_def)
  next
    case False
    with run Inr f have "gn' = gn1" by (auto simp: conclude_def)
    with texts False show ?thesis by (auto simp: ended_well_def)
  qed
qed

lemma decode_job_ended:
  assumes EE: "speaks_utf8 EE" and strings: "\<forall>stop \<in> set (jr_stop_strings req). utf8 stop"
    and run: "decode_job EE req tokens st m ch es = ((es', ch'), r)"
  shows "ended_well (stops_of req) (ch_sent ch) ch' r"
proof -
  obtain rt gn result where t: "job_turn EE req (drop m tokens) ch es = ((rt, gn), result)" by (metis surj_pair)
  obtain gn1 q where c: "conclude (ee_run EE) req (length tokens) st result gn = (gn1, q)" by (rule prod.exhaust)
  have "ch' = gn_channel gn1" "r = q" using run t c by (auto simp: decode_job_def Let_def)
  with conclude_ended [OF job_turn_answered [OF EE strings t] _ c] strings show ?thesis by (simp add: stops_of_def)
qed

definition opening_tag :: "'f job_request \<Rightarrow> event list" where
  "opening_tag req = (if jr_thinking_open req then [Delta (''<think>'' @ [CHR 0x0A])] else [])"

lemma prepare_job_events:
  assumes "prepare_job EE mo req ch es = ((es', ch'), r)"
  shows "ch' = ch \<and> (r = Inr None \<longrightarrow> is_closed ch') \<and> ((\<exists>x. r = Inr (Some x)) \<longrightarrow> opening_tag req = [])
    \<or> ch_sent ch' = ch_sent ch @ opening_tag req \<and> r \<noteq> Inr None"
  using assms by (auto simp: prepare_job_def opening_tag_def send_def split: option.splits if_splits prod.splits sum.splits)

lemma generate_ended:
  assumes EE: "speaks_utf8 EE" and strings: "\<forall>stop \<in> set (jr_stop_strings req). utf8 stop"
    and run: "generate EE mo req ch es = ((es', ch'), r)"
  shows "\<exists>tag. tag \<in> {[], opening_tag req} \<and> ended_well (stops_of req) (ch_sent ch @ tag) ch' r"
proof -
  obtain es1 ch1 q where p: "prepare_job EE mo req ch es = ((es1, ch1), q)" by (metis surj_pair)
  from prepare_job_events [OF p] obtain tag where o: "tag \<in> {[], opening_tag req}"
    "ch_sent ch1 = ch_sent ch @ tag" "q = Inr None \<longrightarrow> is_closed ch1" by auto
  consider (ends) "ch' = ch1" "r = Inr None \<longrightarrow> q = Inr None" | tokens st m where "decode_job EE req tokens st m ch1 es1 = ((es', ch'), r)"
    using run p by (auto simp: generate_def split: sum.splits option.splits prod.splits)
  then have "ended_well (stops_of req) (ch_sent ch @ tag) ch' r"
  proof cases
    case ends
    with o have "answered (stops_of req) (ch_sent ch @ tag) [] ch'" by (simp add: answered_def earliest_None stops_of_def)
    with ends o(3) show ?thesis by (auto simp: ended_well_def)
  next
    case 2
    with decode_job_ended [OF EE strings 2] o(2) show ?thesis by simp
  qed
  with o(1) show ?thesis by blast
qed

section \<open>An engine on digits\<close>

text \<open>An engine over the counting model, whose tokens are digits.\<close>

definition digit_env :: "(int, nat, unit, unit) engine_env" where
  "digit_env = \<lparr>ee_run = counting_env\<lparr>ev_encode := \<lambda>s _. Some (map (\<lambda>c. of_nat (of_char c - 48)) s)\<rparr>, ee_decoder = (),
     ee_decode_step = \<lambda>d t. (d, Inr (Some [char_of (48 + unat t mod 8)])), ee_cache = None, ee_prefix_reuse = True\<rparr>"

definition digit_engine :: "(int, unit) engine" where
  "digit_engine = \<lparr>en_runtime = counting_runtime, en_live = None, en_world = \<lparr>cw_cache = \<lparr>ca_index = index_default,
     ca_stats = stats_default, ca_disk = (\<lambda>_. None)\<rparr>, cw_queue = None, cw_writing = None, cw_outstanding = 0, cw_alive = True\<rparr>\<rparr>"

definition digit_request :: "nat \<Rightarrow> string \<Rightarrow> string list \<Rightarrow> int job_request" where
  "digit_request n prompt stops = \<lparr>jr_prompt = prompt, jr_stable_prefix = None, jr_options = counting_options\<lparr>go_max_new_tokens := n\<rparr>, jr_stop_strings = stops,
     jr_tools_enabled = False, jr_thinking_open = False\<rparr>"

definition digit_moments :: "unit moments" where
  "digit_moments = \<lparr>mo_before_lookup = [], mo_lookup = calm_os, mo_before_boundary = [], mo_before_store = []\<rparr>"

definition open_channel :: channel where "open_channel = \<lparr>ch_sent = [], ch_left = None\<rparr>"

lemma digit_stream:
  "ch_sent (snd (run_job digit_env digit_moments (digit_request 3 ''0123012'' [''01'']) open_channel digit_engine))
    = [Delta ''3'', Done \<lparr>cp_finish_reason = FinishStop, cp_prompt_tokens = 7, cp_completion_tokens = 3, cp_reused_tokens = 0,
        cp_reuse = ReuseNone, cp_tool_calls = [], cp_reasoning_tokens = None, cp_prefill_tokens = 7\<rparr>]"
  by code_simp

text \<open>A job whose turn returns is clean.\<close>

lemma clean_jobI:
  assumes "case prepare_job EE mo req ch es of
      ((es1, ch1), Inr (Some (tokens, start, m))) \<Rightarrow> returns (snd (job_turn EE req (drop m tokens) ch1 es1)) | _ \<Rightarrow> True"
  shows "clean_job EE mo req ch es"
  using assms unfolding clean_job_def
  by (auto simp: undone_cleanly_def returns_def split: prod.split_asm sum.split_asm option.split_asm split: prod.split sum.split option.split)
    (metis snd_conv)+

definition digits_served :: "(int, unit) engine" where
  "digits_served = fst (run_job digit_env digit_moments (digit_request 1 ''0'' []) open_channel digit_engine)"

lemma digits_served: "served digit_env digits_served"
  unfolding digits_served_def
proof (rule served.job)
  show "served digit_env digit_engine"
    by (rule served.started)
      (simp_all add: digit_engine_def digit_env_def counting_runtime_def runtime_new_def empty_snapshots_def snapshots_ok_def)
  show "clean_job digit_env digit_moments (digit_request 1 ''0'' []) open_channel digit_engine"
    by (rule clean_jobI) code_simp
qed

lemma digits_answer:
  "(case prepare_job digit_env digit_moments (digit_request 2 ''012'' []) open_channel digits_served of
      ((es1, ch1), Inr (Some (tokens, start, m))) \<Rightarrow> returns (snd (job_turn digit_env (digit_request 2 ''012'' []) (drop m tokens) ch1 es1))
      | _ \<Rightarrow> True)
   \<and> (case generate digit_env digit_moments (digit_request 2 ''012'' []) open_channel digits_served of
       (_, Inr (Some cp)) \<Rightarrow> cp_reused_tokens cp = 2 | _ \<Rightarrow> False)"
  by code_simp

section \<open>Properties\<close>

text \<open>
  C1. Every request is answered afresh: after any sequence of clean jobs and cache writes, a clean
  job that ends without an error sends the same events and reports the same completion (up to what
  it says was reused) as the same engine without prefix reuse, without a cache and without
  drafting, from any state at all. One kind of job is not clean, and is excluded here both before
  and as the job itself: a turn that its callback halted and whose undoing of the rows after the
  refused token failed. The engine takes it for merely halted and goes on from a session that was
  not rolled back, so the statement is false after it.

  A matrix is a function of one row here (\<open>Matmul.dispatch_is_row_wise\<close>), for kernels that agree as
  \<open>require_exact_kernels\<close> demands. Then a reused prefix is no other computation than a prefilled one;
  the repository's remark that the last bits of the two differ is recorded as a divergence.
\<close>

theorem every_request_is_answered_afresh:
  assumes "engine_wf EE" and "served EE es" and "clean_job EE mo req ch es"
    and "generate EE mo req ch es = ((es', ch'), Inr oc)"
  shows "\<exists>es2. generate (without_reuse EE) mo2 (plain_request req) ch es0 = ((es2, ch'), Inr (map_option forget_reuse oc))"
  using generate_as_reference [OF assms(1) served_ok [OF assms(2,1)] assms(3,4)] .

theorem every_request_is_answered_afresh_witness:
  "case generate digit_env digit_moments (digit_request 2 ''012'' []) open_channel digits_served of
     ((_, ch), r) \<Rightarrow> \<exists>cp. r = Inr (Some cp) \<and> cp_reused_tokens cp = 2 \<and> (\<exists>es2.
       generate (without_reuse digit_env) digit_moments (plain_request (digit_request 2 ''012'' [])) open_channel digit_engine
         = ((es2, ch), Inr (Some (forget_reuse cp))))"
proof -
  let ?req = "digit_request 2 ''012'' []"
  obtain es ch r where g: "generate digit_env digit_moments ?req open_channel digits_served = ((es, ch), r)" by (metis surj_pair)
  with digits_answer obtain cp where r: "r = Inr (Some cp)" "cp_reused_tokens cp = 2" by (auto split: sum.splits option.splits)
  have "engine_wf digit_env" by (simp add: engine_wf_def digit_env_def counting_env_def counting_model_def)
  from every_request_is_answered_afresh [OF this digits_served clean_jobI [OF conjunct1 [OF digits_answer]] g [unfolded r(1)],
      of digit_moments digit_engine] g r show ?thesis by simp
qed

text \<open>
  C11. The stream of a job is well formed: what a client that submits a job on a new channel
  receives is the opening tag of the thinking section at most, then non-empty deltas whose
  concatenation contains no stop sequence, and then exactly one terminal event, a completion or
  an error, unless the receiver has gone away.
\<close>

theorem job_streams_are_well_formed:
  assumes "speaks_utf8 EE" and "\<forall>stop \<in> set (jr_stop_strings req). utf8 stop"
    and "ch_sent ch = []" and "run_job EE mo req ch es = (es', ch')"
  shows "\<exists>tag texts ends. ch_sent ch' = tag @ map Delta texts @ ends
    \<and> tag \<in> {[], opening_tag req} \<and> [] \<notin> set texts
    \<and> (\<forall>stop \<in> set (stops_of req). str_find (concat texts) stop = None)
    \<and> (ends = [] \<and> is_closed ch' \<or> (\<exists>cp. ends = [Done cp]) \<or> (\<exists>e. ends = [Failed e]))"
proof (cases "is_closed ch")
  case True
  with assms(3,4) show ?thesis
    by (intro exI [of _ "[]"]) (auto simp: run_job_def str_find_None stops_of_def)
next
  case False
  obtain es1 ch1 r where g: "generate EE mo req ch es = ((es1, ch1), r)" by (metis surj_pair)
  from generate_ended [OF assms(1,2) g] assms(3) obtain tag texts where
    o: "tag \<in> {[], opening_tag req}" "answered (stops_of req) tag texts ch1" "r = Inr None \<longrightarrow> is_closed ch1"
    by (auto simp: ended_well_def)
  define ends where "ends = (if is_closed ch1 then [] else case r of Inl e \<Rightarrow> [Failed e] | Inr None \<Rightarrow> [] | Inr (Some cp) \<Rightarrow> [Done cp])"
  have "ch_sent ch' = ch_sent ch1 @ ends" "ends = [] \<longrightarrow> is_closed ch'"
    using assms(4) False g o(3) by (auto simp: run_job_def send_def ends_def split: sum.splits option.splits)
  moreover have "ends = [] \<or> (\<exists>cp. ends = [Done cp]) \<or> (\<exists>e. ends = [Failed e])"
    by (auto simp: ends_def split: sum.split option.split)
  moreover have "\<forall>stop \<in> set (stops_of req). str_find (concat texts) stop = None"
    using o(2) by (auto simp: answered_def earliest_None str_find_None)
  ultimately show ?thesis using o by (intro exI [of _ tag] exI [of _ texts] exI [of _ ends]) (auto simp: answered_def)
qed

theorem job_streams_are_well_formed_witness:
  "\<exists>tag texts cp. ch_sent (snd (run_job digit_env digit_moments (digit_request 3 ''0123012'' [''01'']) open_channel digit_engine))
    = tag @ map Delta texts @ [Done cp] \<and> [] \<notin> set texts \<and> str_find (concat texts) ''01'' = None"
proof -
  let ?req = "digit_request 3 ''0123012'' [''01'']"
  obtain es ch where run: "run_job digit_env digit_moments ?req open_channel digit_engine = (es, ch)" by (rule prod.exhaust)
  have "speaks_utf8 digit_env" by (auto simp: speaks_utf8_def digit_env_def is_continuation_def following_bytes_def)
  moreover have "\<forall>stop \<in> set (jr_stop_strings ?req). utf8 stop" by (simp add: digit_request_def is_continuation_def following_bytes_def)
  moreover have "ch_sent open_channel = []" by (simp add: open_channel_def)
  moreover note run
  ultimately obtain tag texts ends where shape: "ch_sent ch = tag @ map Delta texts @ ends" "[] \<notin> set texts"
      "\<forall>stop \<in> set (stops_of ?req). str_find (concat texts) stop = None"
      "ends = [] \<and> is_closed ch \<or> (\<exists>cp. ends = [Done cp]) \<or> (\<exists>e. ends = [Failed e])"
      "tag \<in> {[], opening_tag ?req}"
    using job_streams_are_well_formed [of digit_env ?req open_channel digit_moments digit_engine es ch] by blast
  have "tag = []" using shape(5) by (simp add: opening_tag_def digit_request_def)
  obtain cp where "last (ch_sent ch) = Done cp" using digit_stream run by simp
  moreover have "last (ch_sent ch) = Delta (last texts)" if "ends = []"
    using shape(1) \<open>tag = []\<close> that digit_stream run by (cases texts rule: rev_cases) auto
  ultimately have "ends = [Done cp]" using shape(1,4) by auto
  with shape(1,2,3) run show ?thesis by (intro exI [of _ tag] exI [of _ texts] exI [of _ cp]) (simp add: stops_of_def digit_request_def)
qed

end
