(* ===== verification/Tool_Json.thy ===== *)
theory Tool_Json
  imports Tool_Calls
begin

text \<open>
  The other half of \<open>src/tool_calls.rs\<close>: the calls of a turn as OpenAI's \<open>arguments\<close>, and an
  assistant turn's calls rendered back into the prompt. \<open>serde_json\<close> is a parameter: how it quotes
  a string and what it parses. A number is kept as the text \<open>serde_json\<close> prints for it.
\<close>

section \<open>JSON values\<close>

datatype json =
    JNull
  | JBool bool
  | JNumber string
  | JString string
  | JArray "json list"
  | JObject "(string \<times> json) list"

text \<open>\<open>join\<close> of a vector of strings.\<close>

fun join_with :: "string \<Rightarrow> string list \<Rightarrow> string" where
  "join_with sep [] = []"
| "join_with sep [s] = s"
| "join_with sep (s # t # ts) = s @ sep @ join_with sep (t # ts)"

text \<open>\<open>Value::String(..).to_string()\<close>, \<open>from_str::<Value>\<close> and \<open>from_str::<String>\<close>.\<close>

record json_lib =
  jl_quote :: "string \<Rightarrow> string"
  jl_value :: "string \<Rightarrow> json option"
  jl_string :: "string \<Rightarrow> string option"

fun python_json :: "json_lib \<Rightarrow> json \<Rightarrow> string" where
  "python_json J JNull = ''null''"
| "python_json J (JBool b) = (if b then ''true'' else ''false'')"
| "python_json J (JNumber n) = n"
| "python_json J (JString s) = jl_quote J s"
| "python_json J (JArray items) = ''['' @ join_with '', '' (map (python_json J) items) @ '']''"
| "python_json J (JObject pairs) =
     ''{'' @ join_with '', '' (map (\<lambda>(key, v). jl_quote J key @ '': '' @ python_json J v) pairs) @ ''}''"

text \<open>\<open>Value::get\<close> on an object; anything else has no members.\<close>

definition json_get :: "string \<Rightarrow> json \<Rightarrow> json option" where
  "json_get key v = (case v of JObject pairs \<Rightarrow> map_of pairs key | _ \<Rightarrow> None)"

definition as_str :: "json \<Rightarrow> string option" where
  "as_str v = (case v of JString s \<Rightarrow> Some s | _ \<Rightarrow> None)"

definition is_string :: "json \<Rightarrow> bool" where
  "is_string v = (as_str v \<noteq> None)"

section \<open>Arguments\<close>

definition encode :: "json_lib \<Rightarrow> string \<Rightarrow> string option \<Rightarrow> string" where
  "encode J raw declared =
     (if declared \<noteq> Some ''string'' \<and> (\<exists>v \<in> set_option (jl_value J raw). \<not> is_string v) then trim raw else jl_quote J raw)"

definition declared_type :: "json option \<Rightarrow> string \<Rightarrow> string option" where
  "declared_type schema name =
     Option.bind (Option.bind (Option.bind (Option.bind (Option.bind schema (json_get ''parameters''))
       (json_get ''properties'')) (json_get name)) (json_get ''type'')) as_str"

definition arguments_json :: "json_lib \<Rightarrow> json option \<Rightarrow> tool_call \<Rightarrow> string" where
  "arguments_json J schema call =
     ''{'' @ join_with '','' (map (\<lambda>(name, raw). jl_quote J name @ '':'' @ encode J raw (declared_type schema name))
       (tc_parameters call)) @ ''}''"

section \<open>Reading the members of an object as text\<close>

definition json_space :: "char \<Rightarrow> bool" where
  "json_space c \<longleftrightarrow> c \<in> {CHR '' '', CHR 0x09, CHR 0x0A, CHR 0x0D}"

definition byte :: "string \<Rightarrow> nat \<Rightarrow> char option" where
  "byte bytes at = (if at < length bytes then Some (bytes ! at) else None)"

function skip_whitespace :: "string \<Rightarrow> nat \<Rightarrow> nat" where
  "skip_whitespace bytes at =
     (if at < length bytes \<and> json_space (bytes ! at) then skip_whitespace bytes (at + 1) else at)"
  by auto
termination by (relation "measure (\<lambda>(bytes, at). length bytes - at)") auto

function scan_string_loop :: "string \<Rightarrow> nat \<Rightarrow> nat option" where
  "scan_string_loop bytes at =
     (if length bytes \<le> at then None
      else if bytes ! at = CHR 0x5C then scan_string_loop bytes (at + 2)
      else if bytes ! at = CHR 0x22 then Some (at + 1)
      else scan_string_loop bytes (at + 1))"
  by auto
termination by (relation "measure (\<lambda>(bytes, at). length bytes - at)") auto

declare skip_whitespace.simps [simp del] scan_string_loop.simps [simp del]

definition scan_string :: "string \<Rightarrow> nat \<Rightarrow> nat option" where
  "scan_string bytes at = scan_string_loop bytes (at + 1)"

lemma scan_string_loop_bounds: "scan_string_loop bytes at = Some e \<Longrightarrow> at < e \<and> e \<le> length bytes"
  by (induction bytes at rule: scan_string_loop.induct) (subst (asm) (3) scan_string_loop.simps, auto split: if_splits)

lemma scan_string_bounds: "scan_string bytes at = Some e \<Longrightarrow> at < e \<and> e \<le> length bytes"
  using scan_string_loop_bounds [of bytes "at + 1" e] by (simp add: scan_string_def)

text \<open>Brackets inside a string do not nest, so strings are skipped whole.\<close>

function scan_container_loop :: "string \<Rightarrow> char list \<Rightarrow> nat \<Rightarrow> nat option" where
  "scan_container_loop bytes expected at =
     (if length bytes \<le> at then None
      else if bytes ! at = CHR 0x22 then
        (case scan_string bytes at of None \<Rightarrow> None | Some e \<Rightarrow> scan_container_loop bytes expected e)
      else if bytes ! at = CHR ''{'' then scan_container_loop bytes (CHR ''}'' # expected) (at + 1)
      else if bytes ! at = CHR ''['' then scan_container_loop bytes (CHR '']'' # expected) (at + 1)
      else if bytes ! at = CHR ''}'' \<or> bytes ! at = CHR '']'' then
        (case expected of
           [] \<Rightarrow> None
         | closer # expected \<Rightarrow>
             if closer \<noteq> bytes ! at then None
             else if expected = [] then Some (at + 1)
             else scan_container_loop bytes expected (at + 1))
      else scan_container_loop bytes expected (at + 1))"
  by auto
termination
  by (relation "measure (\<lambda>(bytes, expected, at). length bytes - at)") (auto dest: scan_string_bounds)

declare scan_container_loop.simps [simp del]

definition scan_container :: "string \<Rightarrow> nat \<Rightarrow> nat option" where
  "scan_container bytes at = scan_container_loop bytes [] at"

definition ends_scalar :: "char \<Rightarrow> bool" where
  "ends_scalar c \<longleftrightarrow> c \<in> {CHR '','', CHR ''}'', CHR '']''} \<or> json_space c"

definition scan_value :: "string \<Rightarrow> nat \<Rightarrow> nat option" where
  "scan_value bytes at = (case byte bytes at of
      None \<Rightarrow> None
    | Some c \<Rightarrow>
        if c = CHR 0x22 then scan_string bytes at
        else if c = CHR ''{'' \<or> c = CHR ''['' then scan_container bytes at
        else let e = at + length (takeWhile (\<lambda>b. \<not> ends_scalar b) (drop at bytes))
             in if at < e then Some e else None)"

text \<open>
  The loop over the members, from the first byte of a member's key. It returns the members and
  where the object's closing brace is; that it always returns is a property.
\<close>

partial_function (option) members_loop ::
    "json_lib \<Rightarrow> string \<Rightarrow> nat \<Rightarrow> (string \<times> string) list \<Rightarrow> (nat \<times> (string \<times> string) list) option option" where
  "members_loop J bytes at members =
     (if byte bytes at \<noteq> Some (CHR 0x22) then Some None
      else case scan_string bytes at of
        None \<Rightarrow> Some None
      | Some key_end \<Rightarrow>
          (case jl_string J (slice bytes at key_end) of
             None \<Rightarrow> Some None
           | Some key \<Rightarrow>
               (let at1 = skip_whitespace bytes key_end
                in if byte bytes at1 \<noteq> Some (CHR '':'') then Some None
                   else let v = skip_whitespace bytes (at1 + 1)
                        in case scan_value bytes v of
                             None \<Rightarrow> Some None
                           | Some value_end \<Rightarrow>
                               (let members1 = members @ [(key, slice bytes v value_end)];
                                    at2 = skip_whitespace bytes value_end
                                in if byte bytes at2 = Some (CHR '','')
                                   then members_loop J bytes (skip_whitespace bytes (at2 + 1)) members1
                                   else if byte bytes at2 = Some (CHR ''}'') then Some (Some (at2, members1))
                                   else Some None))))"

definition object_members :: "json_lib \<Rightarrow> string \<Rightarrow> (string \<times> string) list option" where
  "object_members J bytes =
     (let at = skip_whitespace bytes 0
      in if byte bytes at \<noteq> Some (CHR ''{'') then None
         else let at1 = skip_whitespace bytes (at + 1);
                  found = (if byte bytes at1 \<noteq> Some (CHR ''}'') then Option.bind (members_loop J bytes at1 []) id else Some (at1, []))
              in case found of
                   None \<Rightarrow> None
                 | Some (at2, members) \<Rightarrow> if skip_whitespace bytes (at2 + 1) = length bytes then Some members else None)"

section \<open>Rendering a call\<close>

abbreviation newline :: string where "newline \<equiv> [CHR 0x0A]"

definition parameter_text :: "json_lib \<Rightarrow> string \<Rightarrow> string" where
  "parameter_text J v = (case byte v 0 of
      Some c \<Rightarrow>
        if c = CHR 0x22 then (case jl_string J v of Some t \<Rightarrow> t | None \<Rightarrow> v)
        else if c = CHR ''{'' \<or> c = CHR ''['' then (case jl_value J v of Some p \<Rightarrow> python_json J p | None \<Rightarrow> v)
        else v
    | None \<Rightarrow> v)"

definition render_parameter :: "json_lib \<Rightarrow> string \<times> string \<Rightarrow> string" where
  "render_parameter J = (\<lambda>(key, v). PARAMETER_OPEN @ key @ ''>'' @ newline @ parameter_text J v @ newline @ PARAMETER_CLOSE @ newline)"

definition render_call :: "json_lib \<Rightarrow> string \<Rightarrow> string \<Rightarrow> string" where
  "render_call J name arguments =
     CALL_OPEN @ newline @ FUNCTION_OPEN @ name @ ''>'' @ newline
       @ concat (map (render_parameter J) (case object_members J arguments of Some ms \<Rightarrow> ms | None \<Rightarrow> []))
       @ FUNCTION_CLOSE @ newline @ CALL_CLOSE"

end
