(* ===== verification/Chat_Template.thy ===== *)
theory Chat_Template
  imports Tool_Json
begin

text \<open>
  The chat template (\<open>src/tokenizer.rs\<close>): what the tokenizer's configuration says, the
  rendering of a conversation with its tools and calls, and the two prompts of a plain chat.
  The vocabulary (\<open>token_to_id\<close>) is a parameter.
\<close>

section \<open>The tokenizer's configuration\<close>

record model_tokenizer =
  tk_chat_template :: "string option"
  tk_thinking :: bool
  tk_eos_token :: "u32 option"

definition supports_thinking_template :: "string option \<Rightarrow> bool" where
  "supports_thinking_template chat_template =
     (case chat_template of
        None \<Rightarrow> False
      | Some template \<Rightarrow> str_contains template ''enable_thinking'' \<and> str_contains template ''<think>'')"

definition eos_text :: "json \<Rightarrow> string option" where
  "eos_text eos = (case as_str eos of Some t \<Rightarrow> Some t | None \<Rightarrow> Option.bind (json_get ''content'' eos) as_str)"

definition from_config :: "json option \<Rightarrow> (string \<Rightarrow> u32 option) \<Rightarrow> model_tokenizer" where
  "from_config config token_to_id =
     (let chat_template = Option.bind (Option.bind config (json_get ''chat_template'')) as_str
      in \<lparr>tk_chat_template = chat_template, tk_thinking = supports_thinking_template chat_template,
          tk_eos_token = Option.bind (Option.bind (Option.bind config (json_get ''eos_token'')) eos_text) token_to_id\<rparr>)"

datatype chat_error =
    NoChatTemplate
  | UnsupportedChatTemplate
  | NoMessages
  | AssistantLast
  | SystemNotFirst
  | NoUserMessage

definition IM_START :: string where "IM_START = ''<|im_start|>''"
definition IM_END :: string where "IM_END = ''<|im_end|>''"

definition ensure_qwen_chat_template :: "model_tokenizer \<Rightarrow> chat_error + unit" where
  "ensure_qwen_chat_template T =
     (case tk_chat_template T of
        None \<Rightarrow> Inl NoChatTemplate
      | Some template \<Rightarrow> ensure (str_contains template IM_START \<and> str_contains template IM_END) UnsupportedChatTemplate)"

section \<open>Messages\<close>

datatype chat_role = System | User | Assistant | Tool

record chat_tool_call =
  ct_name :: string
  ct_arguments :: string

record chat_message =
  cm_role :: chat_role
  cm_content :: string
  cm_tool_calls :: "chat_tool_call list"
  cm_reasoning :: "string option"

text \<open>The instruction block, line by line.\<close>

definition TOOL_INSTRUCTIONS :: string where
  "TOOL_INSTRUCTIONS = join_with newline
    [[], [], ''If you choose to call a function ONLY reply in the following format with NO suffix:'', [],
     ''<tool_call>'', ''<function=example_function_name>'', ''<parameter=example_parameter_1>'', ''value_1'', ''</parameter>'',
     ''<parameter=example_parameter_2>'', ''This is the value for the second parameter'', ''that can span'', ''multiple lines'',
     ''</parameter>'', ''</function>'', ''</tool_call>'', [], ''<IMPORTANT>'', ''Reminder:'',
     ''- Function calls MUST follow the specified format: an inner <function=...></function> block must be nested within <tool_call></tool_call> XML tags'',
     ''- Required parameters MUST be specified'',
     ''- You may provide optional reasoning for your function call in natural language BEFORE the function call, but NOT after'',
     ''- If there is no function call available, answer the question like normal with your current knowledge and do not tell the user about function calls'',
     ''</IMPORTANT>'']"

definition is_tool_response :: "string \<Rightarrow> bool" where
  "is_tool_response content \<longleftrightarrow> prefix ''<tool_response>'' content \<and> suffix ''</tool_response>'' content"

definition last_query_index :: "chat_message list \<Rightarrow> nat option" where
  "last_query_index messages =
     find (\<lambda>i. cm_role (messages ! i) = User \<and> \<not> is_tool_response (trim (cm_content (messages ! i)))) (rev [0..<length messages])"

definition qwen_system_block :: "json_lib \<Rightarrow> chat_message list \<Rightarrow> json list \<Rightarrow> string" where
  "qwen_system_block J messages tools =
     (let system = (case messages of
            [] \<Rightarrow> None
          | m # _ \<Rightarrow> if cm_role m = System \<and> trim (cm_content m) \<noteq> [] then Some (trim (cm_content m)) else None)
      in if tools = []
         then (case system of None \<Rightarrow> [] | Some s \<Rightarrow> IM_START @ ''system'' @ newline @ s @ IM_END @ newline)
         else IM_START @ ''system'' @ newline
                @ ''# Tools'' @ newline @ newline @ ''You have access to the following functions:'' @ newline @ newline @ ''<tools>''
                @ concat (map (\<lambda>t. newline @ python_json J t) tools) @ newline @ ''</tools>'' @ TOOL_INSTRUCTIONS
                @ (case system of None \<Rightarrow> [] | Some s \<Rightarrow> newline @ newline @ s) @ IM_END @ newline)"

definition THINK_END :: string where "THINK_END = ''</think>''"

definition split_reasoning :: "chat_message \<Rightarrow> string \<times> string" where
  "split_reasoning message =
     (let content = trim (cm_content message)
      in case cm_reasoning message of
           Some reasoning \<Rightarrow> (reasoning, content)
         | None \<Rightarrow>
             (case str_find content THINK_END of
                None \<Rightarrow> ([], content)
              | Some first \<Rightarrow>
                  let before = trim_end_matches [newline] (take first content);
                      reasoning = trim_start_matches [newline]
                        (case rsplit_once before ''<think>'' of None \<Rightarrow> before | Some (_, after) \<Rightarrow> after);
                      last_end = (case str_rfind content THINK_END of None \<Rightarrow> first | Some i \<Rightarrow> i + length THINK_END)
                  in (reasoning, trim_start_matches [newline] (drop last_end content))))"

text \<open>What each call of a turn pushes: its separator and its markup.\<close>

definition render_calls :: "json_lib \<Rightarrow> string \<Rightarrow> chat_tool_call list \<Rightarrow> string" where
  "render_calls J visible calls =
     concat (map (\<lambda>(position, call).
       (if position = 0 then if visible \<noteq> [] then newline @ newline else [] else newline)
         @ render_call J (ct_name call) (ct_arguments call)) (List.enumerate 0 calls))"

definition render_assistant :: "json_lib \<Rightarrow> bool \<Rightarrow> chat_message \<Rightarrow> string" where
  "render_assistant J in_query message =
     (let (reasoning, visible) = split_reasoning message
      in IM_START @ ''assistant'' @ newline
           @ (if in_query then ''<think>'' @ newline @ trim reasoning @ newline @ THINK_END @ newline @ newline else [])
           @ visible @ render_calls J visible (cm_tool_calls message) @ IM_END @ newline)"

definition is_tool_at :: "chat_message list \<Rightarrow> nat \<Rightarrow> bool" where
  "is_tool_at messages i \<longleftrightarrow> i < length messages \<and> cm_role (messages ! i) = Tool"

text \<open>One round of the loop: the text the message at an index adds.\<close>

definition render_message :: "json_lib \<Rightarrow> chat_message list \<Rightarrow> nat option \<Rightarrow> nat \<Rightarrow> string" where
  "render_message J messages last_query index =
     (let message = messages ! index; content = trim (cm_content message)
      in case cm_role message of
           System \<Rightarrow> []
         | User \<Rightarrow> IM_START @ ''user'' @ newline @ content @ IM_END @ newline
         | Assistant \<Rightarrow> render_assistant J (case last_query of None \<Rightarrow> False | Some last_index \<Rightarrow> last_index < index) message
         | Tool \<Rightarrow>
             (if 0 < index \<and> is_tool_at messages (index - 1) then [] else IM_START @ ''user'')
               @ newline @ ''<tool_response>'' @ newline @ content @ newline @ ''</tool_response>''
               @ (if is_tool_at messages (index + 1) then [] else IM_END @ newline))"

definition qwen_chat_messages_with_last_offset :: "json_lib \<Rightarrow> chat_message list \<Rightarrow> json list \<Rightarrow> string \<times> nat option" where
  "qwen_chat_messages_with_last_offset J messages tools =
     fold (\<lambda>index (prompt, last_offset).
         (prompt @ render_message J messages (last_query_index messages) index,
          if index + 1 = length messages then Some (length prompt) else last_offset))
       [0..<length messages] (qwen_system_block J messages tools, None)"

definition qwen_chat_messages :: "json_lib \<Rightarrow> chat_message list \<Rightarrow> json list \<Rightarrow> string" where
  "qwen_chat_messages J messages tools = fst (qwen_chat_messages_with_last_offset J messages tools)"

section \<open>Prompts\<close>

definition generation_prompt :: "bool \<Rightarrow> bool \<Rightarrow> string" where
  "generation_prompt thinking_generation_prompt enable_thinking =
     (if thinking_generation_prompt
      then if enable_thinking then ''<think>'' @ newline else ''<think>'' @ newline @ newline @ THINK_END @ newline @ newline
      else [])"

definition qwen_chat_prompt :: "json_lib \<Rightarrow> chat_message list \<Rightarrow> json list \<Rightarrow> bool \<Rightarrow> bool \<Rightarrow> string" where
  "qwen_chat_prompt J messages tools thinking enable_thinking =
     qwen_chat_messages J messages tools @ IM_START @ ''assistant'' @ newline @ generation_prompt thinking enable_thinking"

definition qwen_initial_chat_prompt :: "string \<Rightarrow> string option \<Rightarrow> bool \<Rightarrow> bool \<Rightarrow> string" where
  "qwen_initial_chat_prompt user system thinking enable_thinking =
     (case system of None \<Rightarrow> [] | Some s \<Rightarrow> IM_START @ ''system'' @ newline @ s @ IM_END @ newline)
       @ IM_START @ ''user'' @ newline @ user @ IM_END @ newline @ IM_START @ ''assistant'' @ newline
       @ generation_prompt thinking enable_thinking"

definition qwen_chat_continuation :: "string \<Rightarrow> bool \<Rightarrow> bool \<Rightarrow> bool \<Rightarrow> string" where
  "qwen_chat_continuation user assistant_closed thinking enable_thinking =
     (if assistant_closed then newline else IM_END @ newline)
       @ IM_START @ ''user'' @ newline @ user @ IM_END @ newline @ IM_START @ ''assistant'' @ newline
       @ generation_prompt thinking enable_thinking"

definition initial_chat_prompt_with_thinking :: "model_tokenizer \<Rightarrow> string \<Rightarrow> string option \<Rightarrow> bool \<Rightarrow> chat_error + string" where
  "initial_chat_prompt_with_thinking T user system enable_thinking =
     bindE (ensure_qwen_chat_template T) (\<lambda>_. Inr (qwen_initial_chat_prompt user system (tk_thinking T) enable_thinking))"

definition chat_continuation_with_thinking :: "model_tokenizer \<Rightarrow> string \<Rightarrow> bool \<Rightarrow> bool \<Rightarrow> chat_error + string" where
  "chat_continuation_with_thinking T user assistant_closed enable_thinking =
     bindE (ensure_qwen_chat_template T) (\<lambda>_. Inr (qwen_chat_continuation user assistant_closed (tk_thinking T) enable_thinking))"

definition render_chat_prompt :: "json_lib \<Rightarrow> model_tokenizer \<Rightarrow> chat_message list \<Rightarrow> json list \<Rightarrow> bool \<Rightarrow> chat_error + string" where
  "render_chat_prompt J T messages tools enable_thinking =
     bindE (ensure_qwen_chat_template T) (\<lambda>_.
     bindE (ensure (messages \<noteq> []) NoMessages) (\<lambda>_.
     bindE (ensure (messages \<noteq> [] \<and> cm_role (last messages) \<noteq> Assistant) AssistantLast) (\<lambda>_.
     bindE (ensure (list_all (\<lambda>m. cm_role m \<noteq> System) (drop 1 messages)) SystemNotFirst) (\<lambda>_.
     bindE (ensure (list_ex (\<lambda>m. cm_role m = User) messages) NoUserMessage) (\<lambda>_.
     Inr (qwen_chat_prompt J messages tools (tk_thinking T) enable_thinking))))))"

definition render_chat_history_prefix :: "json_lib \<Rightarrow> model_tokenizer \<Rightarrow> chat_message list \<Rightarrow> json list \<Rightarrow> chat_error + string option" where
  "render_chat_history_prefix J T messages tools =
     bindE (ensure_qwen_chat_template T) (\<lambda>_.
     if length messages < 2 then Inr None
     else let (prompt, offset) = qwen_chat_messages_with_last_offset J messages tools
          in Inr (case offset of
                    None \<Rightarrow> None
                  | Some n \<Rightarrow> if 0 < n then Some (take n prompt) else None))"

end
