(* ===== verification/Chat_Request.thy ===== *)
theory Chat_Request
  imports Engine Chat_Template
begin

text \<open>
  From a request body to a job and from the job's events to a response (\<open>src/server/api.rs\<close>,
  \<open>src/server/request.rs\<close>, \<open>src/server/thinking.rs\<close>, the chat route of \<open>src/server/http.rs\<close>).
  Deserialization of the body and the random identifiers are parameters.
\<close>

section \<open>Requests\<close>

datatype stop_sequences = OneStop string | ManyStops "string list"

definition into_vec :: "stop_sequences \<Rightarrow> string list" where
  "into_vec s = (case s of OneStop stop \<Rightarrow> [stop] | ManyStops stops \<Rightarrow> stops)"

record content_part =
  pt_kind :: string
  pt_text :: "string option"

datatype message_content = TextContent string | Parts "content_part list"

record request_function_call =
  rf_name :: string
  rf_arguments :: "string option"

record request_tool_call =
  rc_id :: "string option"
  rc_function :: "request_function_call option"

record request_message =
  rm_role :: string
  rm_content :: "message_content option"
  rm_tool_calls :: "request_tool_call list option"
  rm_tool_call_id :: "string option"
  rm_reasoning_content :: "string option"

record 'f chat_request =
  rq_model :: "string option"
  rq_messages :: "request_message list"
  rq_max_tokens :: "nat option"
  rq_max_completion_tokens :: "nat option"
  rq_temperature :: "'f option"
  rq_top_p :: "'f option"
  rq_top_k :: "nat option"
  rq_min_p :: "'f option"
  rq_seed :: "u64 option"
  rq_stop :: "stop_sequences option"
  rq_stream :: bool
  rq_include_usage :: bool
  rq_n :: "nat option"
  rq_reasoning_effort :: "string option"
  rq_template_thinking :: "bool option"
  rq_enable_thinking :: "bool option"
  rq_thinking_budget :: "nat option"
  rq_tools :: "json list option"
  rq_tool_choice :: "json option"
  rq_functions :: "json list option"
  rq_logprobs :: "bool option"
  rq_response_format :: "json option"

datatype request_error =
    EmptyMessages
  | OneSequenceOnly
  | FunctionsUnsupported
  | ForcedToolChoice
  | LogprobsUnsupported
  | FormatUnsupported
  | UnsupportedRole string
  | UnsupportedPart string
  | CallWithoutFunction
  | CallWithoutName
  | UnparseableArguments string
  | TemplateError chat_error
  | ZeroMaxTokens
  | OptionOutOfRange string

section \<open>Reasoning effort\<close>

datatype reasoning_effort = NoEffort | Minimal | Low | Medium | High | XHigh

definition ascii_lowercase :: "char \<Rightarrow> char" where
  "ascii_lowercase c = (let n = of_char c :: nat in if 65 \<le> n \<and> n \<le> 90 then char_of (n + 32) else c)"

definition parse_effort :: "string \<Rightarrow> reasoning_effort option" where
  "parse_effort value =
     (let v = map ascii_lowercase (trim value)
      in if v = ''none'' then Some NoEffort
         else if v = ''minimal'' then Some Minimal
         else if v = ''low'' then Some Low
         else if v = ''medium'' then Some Medium
         else if v = ''high'' then Some High
         else if v = ''xhigh'' \<or> v = ''max'' then Some XHigh
         else None)"

fun effort_str :: "reasoning_effort \<Rightarrow> string" where
  "effort_str NoEffort = ''none''"
| "effort_str Minimal = ''minimal''"
| "effort_str Low = ''low''"
| "effort_str Medium = ''medium''"
| "effort_str High = ''high''"
| "effort_str XHigh = ''xhigh''"

section \<open>Reading a request\<close>

definition into_text :: "message_content \<Rightarrow> request_error + string" where
  "into_text content =
     (case content of
        TextContent t \<Rightarrow> Inr t
      | Parts parts \<Rightarrow>
          bindE (mapE (\<lambda>part. bindE (ensure (pt_kind part = ''text'') (UnsupportedPart (pt_kind part)))
              (\<lambda>_. Inr (case pt_text part of None \<Rightarrow> [] | Some t \<Rightarrow> t))) parts)
            (\<lambda>texts. Inr (concat texts)))"

definition validate_request :: "'f chat_request \<Rightarrow> request_error + unit" where
  "validate_request r =
     bindE (ensure (rq_messages r \<noteq> []) EmptyMessages) (\<lambda>_.
     bindE (ensure (rq_n r \<in> {None, Some 1}) OneSequenceOnly) (\<lambda>_.
     bindE (ensure (rq_functions r \<in> {None, Some []}) FunctionsUnsupported) (\<lambda>_.
     bindE (case rq_tool_choice r of
              None \<Rightarrow> Inr ()
            | Some choice \<Rightarrow> ensure ((case as_str choice of None \<Rightarrow> ''named'' | Some c \<Rightarrow> c) \<in> {''auto'', ''none''}) ForcedToolChoice) (\<lambda>_.
     bindE (ensure (rq_logprobs r \<noteq> Some True) LogprobsUnsupported) (\<lambda>_.
     ensure (rq_response_format r = None
         \<or> Option.bind (Option.bind (rq_response_format r) (json_get ''type'')) as_str = Some ''text'') FormatUnsupported)))))"

definition or_else :: "'a option \<Rightarrow> 'a option \<Rightarrow> 'a option" where
  "or_else a b = (case a of None \<Rightarrow> b | Some _ \<Rightarrow> a)"

definition request_max_new_tokens :: "'f chat_request \<Rightarrow> nat option" where
  "request_max_new_tokens r = or_else (rq_max_completion_tokens r) (rq_max_tokens r)"

definition request_stop_strings :: "'f chat_request \<Rightarrow> string list" where
  "request_stop_strings r = filter (\<lambda>stop. stop \<noteq> []) (case rq_stop r of None \<Rightarrow> [] | Some s \<Rightarrow> into_vec s)"

definition request_effort :: "'f chat_request \<Rightarrow> reasoning_effort option" where
  "request_effort r = Option.bind (rq_reasoning_effort r) parse_effort"

definition request_enable_thinking :: "'f chat_request \<Rightarrow> bool option" where
  "request_enable_thinking r =
     (if request_effort r = Some NoEffort then Some False
      else or_else (rq_enable_thinking r) (rq_template_thinking r))"

definition tool_definitions :: "'f chat_request \<Rightarrow> json list" where
  "tool_definitions r =
     (if Option.bind (rq_tool_choice r) as_str = Some ''none'' then []
      else case rq_tools r of None \<Rightarrow> [] | Some tools \<Rightarrow> tools)"

definition named_function :: "string \<Rightarrow> json \<Rightarrow> json option" where
  "named_function name tool =
     Option.bind (json_get ''function'' tool) (\<lambda>function.
       if Option.bind (json_get ''name'' function) as_str = Some name then Some function else None)"

fun find_map :: "('a \<Rightarrow> 'b option) \<Rightarrow> 'a list \<Rightarrow> 'b option" where
  "find_map f [] = None"
| "find_map f (x # xs) = (case f x of None \<Rightarrow> find_map f xs | Some y \<Rightarrow> Some y)"

definition tool_schema :: "'f chat_request \<Rightarrow> string \<Rightarrow> json option" where
  "tool_schema r name = find_map (named_function name) (tool_definitions r)"

definition chat_role_of :: "string \<Rightarrow> request_error + chat_role" where
  "chat_role_of role =
     (if role = ''system'' \<or> role = ''developer'' then Inr System
      else if role = ''user'' then Inr User
      else if role = ''assistant'' then Inr Assistant
      else if role = ''tool'' \<or> role = ''function'' then Inr Tool
      else Inl (UnsupportedRole role))"

definition chat_call_of :: "json_lib \<Rightarrow> request_tool_call \<Rightarrow> request_error + chat_tool_call" where
  "chat_call_of J call =
     (case rc_function call of
        None \<Rightarrow> Inl CallWithoutFunction
      | Some function \<Rightarrow>
          bindE (ensure (rf_name function \<noteq> []) CallWithoutName) (\<lambda>_.
          bindE (case rf_arguments function of
                   None \<Rightarrow> Inr ''{}''
                 | Some t \<Rightarrow>
                     if t = [] then Inr ''{}''
                     else if jl_value J t = None then Inl (UnparseableArguments (rf_name function))
                     else Inr t) (\<lambda>arguments.
          Inr \<lparr>ct_name = rf_name function, ct_arguments = arguments\<rparr>)))"

definition chat_message_of :: "json_lib \<Rightarrow> request_message \<Rightarrow> request_error + chat_message" where
  "chat_message_of J m =
     bindE (chat_role_of (rm_role m)) (\<lambda>role.
     bindE (case rm_content m of None \<Rightarrow> Inr [] | Some c \<Rightarrow> into_text c) (\<lambda>content.
     bindE (mapE (chat_call_of J) (case rm_tool_calls m of None \<Rightarrow> [] | Some calls \<Rightarrow> calls)) (\<lambda>calls.
     Inr \<lparr>cm_role = role, cm_content = content, cm_tool_calls = calls, cm_reasoning = rm_reasoning_content m\<rparr>)))"

definition chat_messages :: "json_lib \<Rightarrow> 'f chat_request \<Rightarrow> request_error + chat_message list" where
  "chat_messages J r = mapE (chat_message_of J) (rq_messages r)"

section \<open>Thinking\<close>

record thinking_policy =
  tp_default_budget :: "nat option"
  tp_max_budget :: "nat option"
  tp_effort_budgets :: "(reasoning_effort \<times> nat) list"
  tp_enabled_by_default :: bool

datatype policy_error = ZeroEffortBudget reasoning_effort | ZeroDefaultBudget | ZeroMaxBudget

definition validate_policy :: "thinking_policy \<Rightarrow> policy_error + unit" where
  "validate_policy p =
     bindE (mapE (\<lambda>(effort, budget). ensure (0 < budget) (ZeroEffortBudget effort)) (tp_effort_budgets p)) (\<lambda>_.
     bindE (ensure (tp_default_budget p \<noteq> Some 0) ZeroDefaultBudget) (\<lambda>_.
     ensure (tp_max_budget p \<noteq> Some 0) ZeroMaxBudget))"

definition parse_effort_budget :: "string \<Rightarrow> (reasoning_effort \<times> nat) option" where
  "parse_effort_budget value =
     (case split_once value ''='' of
        None \<Rightarrow> None
      | Some (level, tokens) \<Rightarrow>
          (case parse_effort level of
             None \<Rightarrow> None
           | Some effort \<Rightarrow> if effort = NoEffort then None else map_option (Pair effort) (parse_usize (trim tokens))))"

record thinking_plan =
  pl_open :: bool
  pl_budget :: "nat option"

definition plan :: "'f chat_request \<Rightarrow> thinking_policy \<Rightarrow> bool \<Rightarrow> thinking_plan" where
  "plan r policy supports_thinking =
     (if \<not> (supports_thinking \<and> (case request_enable_thinking r of None \<Rightarrow> tp_enabled_by_default policy | Some b \<Rightarrow> b))
      then \<lparr>pl_open = False, pl_budget = None\<rparr>
      else let budget = or_else (or_else (rq_thinking_budget r) (Option.bind (request_effort r) (map_of (tp_effort_budgets policy))))
                 (tp_default_budget policy);
               budget = (case (budget, tp_max_budget policy) of
                   (Some b, Some m) \<Rightarrow> Some (min b m)
                 | (Some b, None) \<Rightarrow> Some b
                 | (None, m) \<Rightarrow> m)
           in \<lparr>pl_open = True, pl_budget = map_option (\<lambda>b. max b 1) budget\<rparr>)"

section \<open>Options\<close>

definition MAX_OUTPUT_TOKENS :: nat where "MAX_OUTPUT_TOKENS = 32768"

text \<open>One \<open>if let Some(value)\<close> of the merge: a check and an update.\<close>

definition override :: "'a option \<Rightarrow> ('a \<Rightarrow> bool) \<Rightarrow> request_error \<Rightarrow> ('a \<Rightarrow> 'o \<Rightarrow> 'o) \<Rightarrow> 'o \<Rightarrow> request_error + 'o" where
  "override field valid e set_field opts =
     (case field of None \<Rightarrow> Inr opts | Some v \<Rightarrow> bindE (ensure (valid v) e) (\<lambda>_. Inr (set_field v opts)))"

definition then_some :: "bool \<Rightarrow> 'a \<Rightarrow> 'a option" where
  "then_some b x = (if b then Some x else None)"

definition in_sampling :: "('f sampling_config \<Rightarrow> 'f sampling_config) \<Rightarrow> 'f generation_options \<Rightarrow> 'f generation_options" where
  "in_sampling f opts = opts\<lparr>go_sampling := f (go_sampling opts)\<rparr>"

definition resolve_options ::
    "'f fops \<Rightarrow> 'f generation_options \<Rightarrow> 'f chat_request \<Rightarrow> thinking_plan \<Rightarrow> request_error + 'f generation_options" where
  "resolve_options F defaults r thinking =
     bindE (override (request_max_new_tokens r) (\<lambda>n. 0 < n) ZeroMaxTokens (\<lambda>n opts. opts\<lparr>go_max_new_tokens := n\<rparr>) defaults) (\<lambda>opts.
     let opts = opts\<lparr>go_max_new_tokens := min (go_max_new_tokens opts) MAX_OUTPUT_TOKENS\<rparr> in
     bindE (override (rq_temperature r) (\<lambda>t. f_finite F t \<and> f_le F (f_zero F) t) (OptionOutOfRange ''temperature'')
       (\<lambda>t. in_sampling (\<lambda>s. s\<lparr>sc_temperature := t\<rparr>)) opts) (\<lambda>opts.
     bindE (override (rq_top_p r) (\<lambda>p. f_lt F (f_zero F) p \<and> f_le F p (f_one F)) (OptionOutOfRange ''top_p'')
       (\<lambda>p. in_sampling (\<lambda>s. s\<lparr>sc_top_p := then_some (f_lt F p (f_one F)) p\<rparr>)) opts) (\<lambda>opts.
     bindE (override (rq_top_k r) (\<lambda>k. 0 < k) (OptionOutOfRange ''top_k'')
       (\<lambda>k. in_sampling (\<lambda>s. s\<lparr>sc_top_k := Some k\<rparr>)) opts) (\<lambda>opts.
     bindE (override (rq_min_p r) (\<lambda>p. f_le F (f_zero F) p \<and> f_le F p (f_one F)) (OptionOutOfRange ''min_p'')
       (\<lambda>p. in_sampling (\<lambda>s. s\<lparr>sc_min_p := then_some (f_lt F (f_zero F) p) p\<rparr>)) opts) (\<lambda>opts.
     let opts = (case rq_seed r of None \<Rightarrow> opts | Some seed \<Rightarrow> in_sampling (\<lambda>s. s\<lparr>sc_seed := seed\<rparr>) opts);
         opts = opts\<lparr>go_thinking_budget := (if pl_open thinking then pl_budget thinking else None)\<rparr>
     in Inr (disable_speculation_for_sampling F opts))))))"

definition render_prompt :: "json_lib \<Rightarrow> model_tokenizer \<Rightarrow> 'f chat_request \<Rightarrow> thinking_plan \<Rightarrow> request_error + string" where
  "render_prompt J T r thinking =
     bindE (chat_messages J r) (\<lambda>messages.
     case render_chat_prompt J T messages (tool_definitions r) (pl_open thinking) of
       Inl e \<Rightarrow> Inl (TemplateError e) | Inr p \<Rightarrow> Inr p)"

definition render_history_prefix :: "json_lib \<Rightarrow> model_tokenizer \<Rightarrow> 'f chat_request \<Rightarrow> request_error + string option" where
  "render_history_prefix J T r =
     bindE (chat_messages J r) (\<lambda>messages.
     case render_chat_history_prefix J T messages (tool_definitions r) of
       Inl e \<Rightarrow> Inl (TemplateError e) | Inr p \<Rightarrow> Inr p)"

text \<open>The chat route up to the submission of the job; every error is a bad request.\<close>

definition chat_job ::
    "'f fops \<Rightarrow> json_lib \<Rightarrow> model_tokenizer \<Rightarrow> thinking_policy \<Rightarrow> 'f generation_options \<Rightarrow> 'f chat_request
      \<Rightarrow> request_error + 'f job_request" where
  "chat_job F J T policy defaults r =
     bindE (validate_request r) (\<lambda>_.
     let thinking = plan r policy (tk_thinking T) in
     bindE (render_prompt J T r thinking) (\<lambda>prompt.
     bindE (render_history_prefix J T r) (\<lambda>stable_prefix.
     bindE (resolve_options F defaults r thinking) (\<lambda>opts.
     Inr \<lparr>jr_prompt = prompt, jr_stable_prefix = stable_prefix, jr_options = opts,
          jr_stop_strings = request_stop_strings r, jr_tools_enabled = (tool_definitions r \<noteq> []),
          jr_thinking_open = pl_open thinking\<rparr>))))"

end
