(* ===== verification/Chat_Response.thy ===== *)
theory Chat_Response
  imports Chat_Request
begin

text \<open>
  The two ways a job's events reach the client (\<open>collect_response\<close> and \<open>stream_response\<close> of
  \<open>src/server/http.rs\<close>). An identifier of a call is random: a parameter gives the one each call
  draws. The client of a stream may leave after any chunk.
\<close>

section \<open>Responses\<close>

record response_tool_call =
  ro_index :: "nat option"
  ro_id :: string
  ro_name :: string
  ro_arguments :: string

record usage =
  us_prompt_tokens :: nat
  us_completion_tokens :: nat
  us_total_tokens :: nat
  us_reasoning_tokens :: "nat option"

definition usage_new :: "nat \<Rightarrow> nat \<Rightarrow> usage" where
  "usage_new prompt completion =
     \<lparr>us_prompt_tokens = prompt, us_completion_tokens = completion, us_total_tokens = prompt + completion, us_reasoning_tokens = None\<rparr>"

definition with_reasoning :: "nat option \<Rightarrow> usage \<Rightarrow> usage" where
  "with_reasoning tokens u = u\<lparr>us_reasoning_tokens := tokens\<rparr>"

definition response_tool_calls ::
    "json_lib \<Rightarrow> 'f chat_request \<Rightarrow> (nat \<Rightarrow> string) \<Rightarrow> tool_call list \<Rightarrow> bool \<Rightarrow> response_tool_call list" where
  "response_tool_calls J r call_id calls indexed =
     map (\<lambda>(index, call). \<lparr>ro_index = then_some indexed index, ro_id = call_id index, ro_name = tc_name call,
         ro_arguments = arguments_json J (tool_schema r (tc_name call)) call\<rparr>)
       (List.enumerate 0 calls)"

record chat_response =
  rs_content :: "string option"
  rs_tool_calls :: "response_tool_call list"
  rs_finish_reason :: finish_reason
  rs_usage :: usage

datatype response_error = JobFailed engine_error | NoResult

definition usage_of :: "completion \<Rightarrow> usage" where
  "usage_of cp = with_reasoning (cp_reasoning_tokens cp) (usage_new (cp_prompt_tokens cp) (cp_completion_tokens cp))"

fun collect_events ::
    "json_lib \<Rightarrow> 'f chat_request \<Rightarrow> (nat \<Rightarrow> string) \<Rightarrow> string \<Rightarrow> event list \<Rightarrow> response_error + chat_response" where
  "collect_events J r call_id content [] = Inl NoResult"
| "collect_events J r call_id content (Delta t # events) = collect_events J r call_id (content @ t) events"
| "collect_events J r call_id content (Failed e # events) = Inl (JobFailed e)"
| "collect_events J r call_id content (Done cp # events) =
     (let calls = response_tool_calls J r call_id (cp_tool_calls cp) False
      in Inr \<lparr>rs_content = (if calls \<noteq> [] \<and> trim content = [] then None else Some content), rs_tool_calls = calls,
              rs_finish_reason = cp_finish_reason cp, rs_usage = usage_of cp\<rparr>)"

definition collect_response :: "json_lib \<Rightarrow> 'f chat_request \<Rightarrow> (nat \<Rightarrow> string) \<Rightarrow> event list \<Rightarrow> response_error + chat_response" where
  "collect_response J r call_id events = collect_events J r call_id [] events"

section \<open>Streams\<close>

record chunk_delta =
  dl_role :: "string option"
  dl_content :: "string option"
  dl_tool_calls :: "response_tool_call list"

definition delta_default :: chunk_delta where
  "delta_default = \<lparr>dl_role = None, dl_content = None, dl_tool_calls = []\<rparr>"

text \<open>A payload: a chunk with its choices and usage, an error envelope, or the end marker.\<close>

datatype payload =
    Chunk "(chunk_delta \<times> finish_reason option) list" "usage option"
  | ErrorPayload engine_error
  | DoneMarker

record sse =
  se_sent :: "payload list"
  se_left :: "nat option"

definition send_payload :: "payload \<Rightarrow> sse \<Rightarrow> sse \<times> bool" where
  "send_payload x s = (if se_left s = Some 0 then (s, False)
     else (\<lparr>se_sent = se_sent s @ [x], se_left = map_option (\<lambda>n. n - 1) (se_left s)\<rparr>, True))"

fun stream_events ::
    "json_lib \<Rightarrow> 'f chat_request \<Rightarrow> (nat \<Rightarrow> string) \<Rightarrow> event list \<Rightarrow> sse \<Rightarrow> sse" where
  "stream_events J r call_id [] s = s"
| "stream_events J r call_id (Delta t # events) s =
     (let (s, ok) = send_payload (Chunk [(delta_default\<lparr>dl_content := Some t\<rparr>, None)] None) s
      in if ok then stream_events J r call_id events s else s)"
| "stream_events J r call_id (Failed e # events) s = fst (send_payload (ErrorPayload e) s)"
| "stream_events J r call_id (Done cp # events) s =
     (let calls = response_tool_calls J r call_id (cp_tool_calls cp) True;
          (s, ok) = (if calls \<noteq> [] then send_payload (Chunk [(delta_default\<lparr>dl_tool_calls := calls\<rparr>, None)] None) s else (s, True))
      in if \<not> ok then s
         else let (s, finished) = send_payload (Chunk [(delta_default, Some (cp_finish_reason cp))] None) s
              in if \<not> finished then s
                 else let (s, ok) = (if rq_include_usage r then send_payload (Chunk [] (Some (usage_of cp))) s else (s, True))
                      in if ok then fst (send_payload DoneMarker s) else s)"

definition stream_response :: "json_lib \<Rightarrow> 'f chat_request \<Rightarrow> (nat \<Rightarrow> string) \<Rightarrow> event list \<Rightarrow> sse \<Rightarrow> sse" where
  "stream_response J r call_id events s =
     (let (s, ok) = send_payload (Chunk [(delta_default\<lparr>dl_role := Some ''assistant''\<rparr>, None)] None) s
      in if ok then stream_events J r call_id events s else s)"

section \<open>What a client makes of a stream\<close>

definition chunk_deltas :: "payload list \<Rightarrow> (chunk_delta \<times> finish_reason option) list" where
  "chunk_deltas ps = concat (map (\<lambda>p. case p of Chunk choices _ \<Rightarrow> choices | _ \<Rightarrow> []) ps)"

definition streamed_text :: "payload list \<Rightarrow> string" where
  "streamed_text ps = concat (map (\<lambda>(d, _). case dl_content d of None \<Rightarrow> [] | Some t \<Rightarrow> t) (chunk_deltas ps))"

definition streamed_calls :: "payload list \<Rightarrow> response_tool_call list" where
  "streamed_calls ps = concat (map (\<lambda>(d, _). dl_tool_calls d) (chunk_deltas ps))"

definition streamed_finish :: "payload list \<Rightarrow> finish_reason list" where
  "streamed_finish ps = List.map_filter snd (chunk_deltas ps)"

definition streamed_usage :: "payload list \<Rightarrow> usage list" where
  "streamed_usage ps = List.map_filter (\<lambda>p. case p of Chunk _ u \<Rightarrow> u | _ \<Rightarrow> None) ps"

definition unindexed :: "response_tool_call \<Rightarrow> response_tool_call" where
  "unindexed c = c\<lparr>ro_index := None\<rparr>"

lemmas streamed_defs = chunk_deltas_def streamed_text_def streamed_calls_def streamed_finish_def streamed_usage_def delta_default_def

lemma streamed_append:
  "streamed_text (xs @ ys) = streamed_text xs @ streamed_text ys"
  "streamed_calls (xs @ ys) = streamed_calls xs @ streamed_calls ys"
  "streamed_finish (xs @ ys) = streamed_finish xs @ streamed_finish ys"
  "streamed_usage (xs @ ys) = streamed_usage xs @ streamed_usage ys"
  by (simp_all add: streamed_defs List.map_filter_def)

lemma streamed_Cons [simp]:
  "streamed_text (Chunk [(d, f)] u # ps) = (case dl_content d of None \<Rightarrow> [] | Some t \<Rightarrow> t) @ streamed_text ps"
  "streamed_calls (Chunk [(d, f)] u # ps) = dl_tool_calls d @ streamed_calls ps"
  "streamed_finish (Chunk [(d, f)] u # ps) = (case f of None \<Rightarrow> [] | Some x \<Rightarrow> [x]) @ streamed_finish ps"
  by (simp_all add: streamed_defs List.map_filter_def split: option.splits)

lemma streamed_others [simp]:
  "streamed_text (Chunk [] u # ps) = streamed_text ps" "streamed_text (ErrorPayload e # ps) = streamed_text ps"
  "streamed_text (DoneMarker # ps) = streamed_text ps" "streamed_text [] = []"
  "streamed_calls (Chunk [] u # ps) = streamed_calls ps" "streamed_calls (ErrorPayload e # ps) = streamed_calls ps"
  "streamed_calls (DoneMarker # ps) = streamed_calls ps" "streamed_calls [] = []"
  "streamed_finish (Chunk [] u # ps) = streamed_finish ps" "streamed_finish (ErrorPayload e # ps) = streamed_finish ps"
  "streamed_finish (DoneMarker # ps) = streamed_finish ps" "streamed_finish [] = []"
  by (simp_all add: streamed_defs List.map_filter_def)

lemma streamed_usage_Cons [simp]:
  "streamed_usage (Chunk choices u # ps) = (case u of None \<Rightarrow> [] | Some x \<Rightarrow> [x]) @ streamed_usage ps"
  "streamed_usage (ErrorPayload e # ps) = streamed_usage ps" "streamed_usage (DoneMarker # ps) = streamed_usage ps" "streamed_usage [] = []"
  by (simp_all add: streamed_usage_def List.map_filter_def split: option.splits)

lemma delta_simps [simp]: "dl_role delta_default = None" "dl_content delta_default = None" "dl_tool_calls delta_default = []"
  by (simp_all add: delta_default_def)

lemma send_staying [simp]: "send_payload x \<lparr>se_sent = ps, se_left = None\<rparr> = (\<lparr>se_sent = ps @ [x], se_left = None\<rparr>, True)"
  by (simp add: send_payload_def)

lemma unindexed_calls: "map unindexed (response_tool_calls J r call_id calls True) = response_tool_calls J r call_id calls False"
  by (simp add: response_tool_calls_def unindexed_def then_some_def case_prod_unfold)

text \<open>The payloads of a client that stays agree with the collected response, event by event.\<close>

definition agrees :: "bool \<Rightarrow> payload list \<Rightarrow> response_error + chat_response \<Rightarrow> bool" where
  "agrees include_usage ps result \<longleftrightarrow>
     (case result of
        Inl NoResult \<Rightarrow> DoneMarker \<notin> set ps \<and> streamed_finish ps = []
      | Inl (JobFailed e) \<Rightarrow> DoneMarker \<notin> set ps \<and> last ps = ErrorPayload e \<and> streamed_finish ps = []
      | Inr response \<Rightarrow> last ps = DoneMarker \<and> streamed_finish ps = [rs_finish_reason response]
          \<and> map unindexed (streamed_calls ps) = rs_tool_calls response
          \<and> streamed_usage ps = (if include_usage then [rs_usage response] else [])
          \<and> (case rs_content response of Some t \<Rightarrow> streamed_text ps = t
             | None \<Rightarrow> trim (streamed_text ps) = [] \<and> rs_tool_calls response \<noteq> []))"

lemma no_calls [simp]: "response_tool_calls J r call_id [] b = []"
  by (simp add: response_tool_calls_def)

lemma calls_empty: "response_tool_calls J r call_id calls b = [] \<longleftrightarrow> calls = []"
  by (cases calls) (simp_all add: response_tool_calls_def)

lemma stream_agrees:
  assumes "DoneMarker \<notin> set ps" "streamed_finish ps = []" "streamed_calls ps = []" "streamed_usage ps = []" "streamed_text ps = content"
  shows "agrees (rq_include_usage r) (se_sent (stream_events J r call_id events \<lparr>se_sent = ps, se_left = None\<rparr>)) (collect_events J r call_id content events)"
  using assms
proof (induction events arbitrary: ps content)
  case Nil
  then show ?case by (simp add: agrees_def)
next
  case (Cons e events)
  show ?case
  proof (cases e)
    case (Delta t)
    with Cons show ?thesis by (simp add: streamed_append)
  next
    case (Failed x)
    with Cons.prems show ?thesis by (simp add: agrees_def streamed_append)
  next
    case (Done cp)
    with Cons.prems show ?thesis
      by (auto simp: agrees_def streamed_append unindexed_calls calls_empty)
  qed
qed

section \<open>Properties\<close>

text \<open>
  C19. A client that reads a stream to its end has the same text, the same calls, the same finish
  reason and, if it asked for it, the same usage as one that asked for a single response, and sees the end marker exactly when there is a
  response; a job that fails ends its stream with the error the other client gets.
\<close>

theorem streaming_and_collecting_agree:
  "agrees (rq_include_usage r) (se_sent (stream_response J r call_id events \<lparr>se_sent = [], se_left = None\<rparr>)) (collect_response J r call_id events)"
  by (simp add: stream_response_def collect_response_def stream_agrees)

end
