(* ===== verification/Tool_Round_Trip.thy ===== *)
theory Tool_Round_Trip
  imports Tool_Json
begin

text \<open>
  The loop a tool call goes through: markup of the model, call, \<open>arguments\<close> of a client, markup in
  the next prompt. Everything the text scanner of \<open>object_members\<close> relies on is the grammar of
  JSON; the theorems say that the loop is the identity on what the template taught the model.
\<close>

section \<open>The grammar of JSON\<close>

definition spaces :: "string \<Rightarrow> bool" where
  "spaces w \<longleftrightarrow> list_all json_space w"

fun literal_body :: "string \<Rightarrow> bool" where
  "literal_body [] = True"
| "literal_body (c # cs) =
     (if c = CHR 0x5C then (case cs of [] \<Rightarrow> False | d # ds \<Rightarrow> literal_body ds) else c \<noteq> CHR 0x22 \<and> literal_body cs)"

definition string_literal :: "string \<Rightarrow> bool" where
  "string_literal s \<longleftrightarrow> (\<exists>body. s = CHR 0x22 # body @ [CHR 0x22] \<and> literal_body body)"

text \<open>The bytes of a number, of \<open>true\<close>, \<open>false\<close> and \<open>null\<close>.\<close>

definition scalar_byte :: "char \<Rightarrow> bool" where
  "scalar_byte c \<longleftrightarrow> c \<in> {CHR ''+'', CHR ''-'', CHR ''.''} \<or> (let n = of_char c :: nat in 48 \<le> n \<and> n < 58 \<or> 65 \<le> n \<and> n < 91 \<or> 97 \<le> n \<and> n < 123)"

inductive json_value :: "string \<Rightarrow> bool" and json_items :: "string \<Rightarrow> bool" and json_fields :: "string \<Rightarrow> bool" where
  literal: "string_literal s \<Longrightarrow> json_value s"
| scalar: "s \<noteq> [] \<Longrightarrow> list_all scalar_byte s \<Longrightarrow> json_value s"
| empty_array: "spaces w \<Longrightarrow> json_value (''['' @ w @ '']'')"
| array: "json_items s \<Longrightarrow> json_value (''['' @ s @ '']'')"
| empty_object: "spaces w \<Longrightarrow> json_value (''{'' @ w @ ''}'')"
| object: "json_fields s \<Longrightarrow> json_value (''{'' @ s @ ''}'')"
| last_item: "spaces w1 \<Longrightarrow> json_value v \<Longrightarrow> spaces w2 \<Longrightarrow> json_items (w1 @ v @ w2)"
| item: "spaces w1 \<Longrightarrow> json_value v \<Longrightarrow> spaces w2 \<Longrightarrow> json_items s \<Longrightarrow> json_items (w1 @ v @ w2 @ '','' @ s)"
| last_field: "spaces w1 \<Longrightarrow> string_literal k \<Longrightarrow> spaces w2 \<Longrightarrow> spaces w3 \<Longrightarrow> json_value v \<Longrightarrow> spaces w4
    \<Longrightarrow> json_fields (w1 @ k @ w2 @ '':'' @ w3 @ v @ w4)"
| field: "spaces w1 \<Longrightarrow> string_literal k \<Longrightarrow> spaces w2 \<Longrightarrow> spaces w3 \<Longrightarrow> json_value v \<Longrightarrow> spaces w4 \<Longrightarrow> json_fields s
    \<Longrightarrow> json_fields (w1 @ k @ w2 @ '':'' @ w3 @ v @ w4 @ '','' @ s)"

section \<open>Scanning\<close>

lemma skip_spaces:
  assumes "spaces w" "s = [] \<or> \<not> json_space (hd s)"
  shows "skip_whitespace (p @ w @ s) (length p) = length p + length w"
  using assms(1)
proof (induction w arbitrary: p)
  case Nil
  with assms(2) show ?case by (subst skip_whitespace.simps) (cases s; auto)
next
  case (Cons c w)
  from Cons.IH [of "p @ [c]"] Cons.prems show ?case
    by (subst skip_whitespace.simps) (simp add: spaces_def)
qed

lemma scan_literal_body:
  "literal_body b \<Longrightarrow> scan_string_loop (p @ b @ CHR 0x22 # s) (length p) = Some (length p + length b + 1)"
proof (induction b arbitrary: p rule: literal_body.induct)
  case 1
  show ?case by (simp add: scan_string_loop.simps [of _ "length p"])
next
  case (2 c cs)
  show ?case
  proof (cases "c = CHR 0x5C")
    case True
    with 2 obtain d ds where cs: "cs = d # ds" "literal_body ds" by (cases cs) auto
    from "2.IH"(1) [OF True cs, of "p @ [c, d]"] True cs show ?thesis
      by (subst scan_string_loop.simps) simp
  next
    case False
    with "2.IH"(2) [OF False, of "p @ [c]"] "2.prems" show ?thesis
      by (subst scan_string_loop.simps) (simp add: False)
  qed
qed

lemma scan_literal: "string_literal x \<Longrightarrow> scan_string (p @ x @ s) (length p) = Some (length p + length x)"
  using scan_literal_body [of _ "p @ [CHR 0x22]" s] by (auto simp: string_literal_def scan_string_def)

lemma literal_hd: "string_literal x \<Longrightarrow> x \<noteq> [] \<and> hd x = CHR 0x22"
  by (auto simp: string_literal_def)

text \<open>A text the container scan passes over inside a container.\<close>

definition passed :: "string \<Rightarrow> bool" where
  "passed x \<longleftrightarrow> (\<forall>p s top st. scan_container_loop (p @ x @ s) (top # st) (length p)
     = scan_container_loop (p @ x @ s) (top # st) (length p + length x))"

lemma passed_append: "passed x \<Longrightarrow> passed y \<Longrightarrow> passed (x @ y)"
  unfolding passed_def
proof (intro allI)
  fix p s top st
  assume x: "\<forall>p s top st. scan_container_loop (p @ x @ s) (top # st) (length p) = scan_container_loop (p @ x @ s) (top # st) (length p + length x)"
    and y: "\<forall>p s top st. scan_container_loop (p @ y @ s) (top # st) (length p) = scan_container_loop (p @ y @ s) (top # st) (length p + length y)"
  from x [rule_format, of p "y @ s" "top" st] y [rule_format, of "p @ x" s "top" st]
  show "scan_container_loop (p @ (x @ y) @ s) (top # st) (length p)
      = scan_container_loop (p @ (x @ y) @ s) (top # st) (length p + length (x @ y))"
    by (simp add: add.assoc)
qed

lemma passed_Nil: "passed []"
  by (simp add: passed_def)

lemma passed_byte:
  assumes "c \<notin> {CHR 0x22, CHR ''{'', CHR ''['', CHR ''}'', CHR '']''}"
  shows "passed [c]"
  using assms by (auto simp: passed_def scan_container_loop.simps [of _ _ "length _"])

lemma passed_all: "list_all (\<lambda>c. c \<notin> {CHR 0x22, CHR ''{'', CHR ''['', CHR ''}'', CHR '']''}) w \<Longrightarrow> passed w"
proof (induction w)
  case (Cons c w)
  then show ?case using passed_append [OF passed_byte, of c w] by simp
qed (simp add: passed_Nil)

lemma passed_literal:
  assumes "string_literal x"
  shows "passed x"
  unfolding passed_def
proof (intro allI)
  fix p s top st
  have "(p @ x @ s) ! length p = CHR 0x22" "\<not> length (p @ x @ s) \<le> length p"
    using literal_hd [OF assms] by (cases x; simp)+
  then show "scan_container_loop (p @ x @ s) (top # st) (length p) = scan_container_loop (p @ x @ s) (top # st) (length p + length x)"
    by (subst scan_container_loop.simps) (simp add: scan_literal [OF assms] del: append_assoc length_append)
qed

definition brackets :: "char \<Rightarrow> char \<Rightarrow> bool" where
  "brackets l r \<longleftrightarrow> l = CHR ''['' \<and> r = CHR '']'' \<or> l = CHR ''{'' \<and> r = CHR ''}''"

lemma scan_open:
  assumes "at < length bytes" "bytes ! at = l" "brackets l r"
  shows "scan_container_loop bytes st at = scan_container_loop bytes (r # st) (at + 1)"
  using assms by (subst scan_container_loop.simps) (auto simp: brackets_def)

lemma scan_close:
  assumes "at < length bytes" "bytes ! at = r" "brackets l r"
  shows "scan_container_loop bytes (r # st) at = (if st = [] then Some (at + 1) else scan_container_loop bytes st (at + 1))"
  using assms by (subst scan_container_loop.simps) (auto simp: brackets_def)

lemma scan_inside:
  assumes "passed x" "brackets l r"
  shows "scan_container_loop (p @ (l # x @ [r]) @ s) st (length p)
    = (if st = [] then Some (length p + length x + 2) else scan_container_loop (p @ (l # x @ [r]) @ s) st (length p + length x + 2))"
proof -
  let ?bytes = "p @ (l # x @ [r]) @ s"
  have "scan_container_loop ?bytes st (length p) = scan_container_loop ?bytes (r # st) (length p + 1)"
    by (rule scan_open [OF _ _ assms(2)]) simp_all
  also have "\<dots> = scan_container_loop ?bytes (r # st) (length p + 1 + length x)"
    using assms(1) [unfolded passed_def, rule_format, of "p @ [l]" "[r] @ s" r st] by simp
  also have "\<dots> = (if st = [] then Some (length p + 1 + length x + 1) else scan_container_loop ?bytes st (length p + 1 + length x + 1))"
    by (rule scan_close [OF _ _ assms(2)]) (simp_all add: nth_append)
  finally show ?thesis by simp
qed

lemma passed_container: "passed x \<Longrightarrow> brackets l r \<Longrightarrow> passed (l # x @ [r])"
  using scan_inside unfolding passed_def by (simp del: append_assoc append_Cons)

definition structural :: "char \<Rightarrow> bool" where
  "structural c \<longleftrightarrow> c \<in> {CHR 0x22, CHR ''{'', CHR ''['', CHR ''}'', CHR '']''}"

lemma passed_plain:
  assumes "list_all P w" "\<And>c. structural c \<Longrightarrow> \<not> P c"
  shows "passed w"
proof (rule passed_all)
  from assms(1) show "list_all (\<lambda>c. c \<notin> {CHR 0x22, CHR ''{'', CHR ''['', CHR ''}'', CHR '']''}) w"
    by (rule list.pred_mono_strong) (use assms(2) structural_def in blast)
qed

lemma passed_spaces: "spaces w \<Longrightarrow> passed w"
  unfolding spaces_def by (erule passed_plain) (auto simp: structural_def json_space_def)

lemma passed_scalar: "list_all scalar_byte s \<Longrightarrow> passed s"
  by (erule passed_plain) (auto simp: structural_def scalar_byte_def)

lemma passed_json: "json_value v \<Longrightarrow> passed v" "json_items s \<Longrightarrow> passed s" "json_fields s \<Longrightarrow> passed s"
proof (induction rule: json_value_json_items_json_fields.inducts)
  case (empty_array w)
  then show ?case using passed_container [OF passed_spaces] by (simp add: brackets_def)
next
  case (array s)
  then show ?case using passed_container [of s] by (simp add: brackets_def)
next
  case (empty_object w)
  then show ?case using passed_container [OF passed_spaces] by (simp add: brackets_def)
next
  case (object s)
  then show ?case using passed_container [of s] by (simp add: brackets_def)
next
  case (scalar s)
  then show ?case by (intro passed_scalar)
qed (simp_all add: passed_append passed_spaces passed_literal passed_byte del: append_Cons append_Nil)

lemma scan_container_json:
  assumes "passed x" "brackets l r"
  shows "scan_value (p @ (l # x @ [r]) @ s) (length p) = Some (length p + length x + 2)"
  using scan_inside [OF assms, of p s "[]"] assms(2)
  by (auto simp: scan_value_def byte_def scan_container_def brackets_def)

lemma scan_value_json:
  assumes "json_value v" "s = [] \<or> ends_scalar (hd s)"
  shows "scan_value (p @ v @ s) (length p) = Some (length p + length v)"
  using assms(1)
proof cases
  case literal
  then have "byte (p @ v @ s) (length p) = Some (CHR 0x22)" using literal_hd [of v] by (cases v) (simp_all add: byte_def)
  with scan_literal [OF literal, of p s] show ?thesis by (simp add: scan_value_def)
next
  case scalar
  have no: "\<not> ends_scalar c" "c \<noteq> CHR 0x22" "c \<noteq> CHR ''{''" "c \<noteq> CHR ''[''" if "scalar_byte c" for c
    using that by (auto simp: scalar_byte_def ends_scalar_def json_space_def)
  have "takeWhile (\<lambda>b. \<not> ends_scalar b) (v @ s) = v"
    using scalar(2) no(1) assms(2) by (cases s) (auto simp: takeWhile_append2 list_all_iff)
  moreover have "scalar_byte (hd v)" using scalar by (cases v) auto
  ultimately show ?thesis using scalar(1) no(2,3,4) [of "hd v"] by (cases v) (simp_all add: scan_value_def byte_def)
next
  case (empty_array w)
  then show ?thesis using scan_container_json [OF passed_spaces] by (simp add: brackets_def)
next
  case (array x)
  then show ?thesis using scan_container_json [OF passed_json(2)] by (simp add: brackets_def)
next
  case (empty_object w)
  then show ?thesis using scan_container_json [OF passed_spaces] by (simp add: brackets_def)
next
  case (object x)
  then show ?thesis using scan_container_json [OF passed_json(3)] by (simp add: brackets_def)
qed

section \<open>Members\<close>

lemma scan_container_bounds: "scan_container_loop bytes st at = Some e \<Longrightarrow> at < e"
proof (induction bytes st at rule: scan_container_loop.induct)
  case (1 bytes st at)
  note run = "1.prems" [unfolded scan_container_loop.simps [of bytes st at]]
  show ?case
  proof (cases "length bytes \<le> at \<or> bytes ! at = CHR 0x22")
    case True
    with run 1(1) scan_string_bounds [of bytes at] show ?thesis by (auto split: if_splits option.splits)
  next
    case False
    with run 1(2-) show ?thesis by (auto split: if_splits list.splits dest: Suc_lessD)
  qed
qed

lemma scan_value_bounds: "scan_value bytes at = Some e \<Longrightarrow> at < e"
  by (auto simp: scan_value_def Let_def scan_container_def split: option.splits if_splits
      dest: scan_string_bounds scan_container_bounds)

lemma skip_whitespace_le: "at \<le> skip_whitespace bytes at"
  by (induction bytes at rule: skip_whitespace.induct) (subst skip_whitespace.simps, auto)

text \<open>Every round of the loop moves past a key, so it ends on any text.\<close>

text \<open>
  C30. Reading the members of an object ends on every text a client can send, malformed or not:
  each round of the loop moves the cursor past a key and a value.
\<close>

theorem reading_members_ends: "\<exists>r. members_loop J bytes at members = Some r"
proof (induction "length bytes - at" arbitrary: at members rule: less_induct)
  case less
  let ?at2 = "\<lambda>value_end. skip_whitespace bytes value_end"
  let ?v = "\<lambda>key_end. skip_whitespace bytes (skip_whitespace bytes key_end + 1)"
  have "\<exists>r. members_loop J bytes (skip_whitespace bytes (?at2 value_end + 1)) ms = Some r"
    if "byte bytes at = Some (CHR 0x22)" "scan_string bytes at = Some key_end" "scan_value bytes (?v key_end) = Some value_end"
    for key_end value_end ms
  proof (rule less)
    have "at < length bytes" using that(1) by (auto simp: byte_def split: if_splits)
    moreover have "at < key_end" "?v key_end < value_end" using scan_string_bounds [OF that(2)] scan_value_bounds [OF that(3)] by auto
    then have "at < skip_whitespace bytes (?at2 value_end + 1)"
      using skip_whitespace_le [of key_end bytes] skip_whitespace_le [of "skip_whitespace bytes key_end + 1" bytes]
        skip_whitespace_le [of value_end bytes] skip_whitespace_le [of "?at2 value_end + 1" bytes] by linarith
    ultimately show "length bytes - skip_whitespace bytes (?at2 value_end + 1) < length bytes - at" by simp
  qed
  then show ?case
    by (subst members_loop.simps) (auto simp: Let_def split: option.split)
qed

text \<open>The pieces of one member: the text before its key, the key, and so on to the text after its value.\<close>

record member =
  mb_before :: string
  mb_key :: string
  mb_colon :: string
  mb_gap :: string
  mb_value :: string
  mb_after :: string

definition member_body :: "member \<Rightarrow> string" where
  "member_body m = mb_key m @ mb_colon m @ '':'' @ mb_gap m @ mb_value m @ mb_after m"

definition member_text :: "member \<Rightarrow> string" where
  "member_text m = mb_before m @ member_body m"

definition member_ok :: "member \<Rightarrow> bool" where
  "member_ok m \<longleftrightarrow> spaces (mb_before m) \<and> spaces (mb_colon m) \<and> spaces (mb_gap m) \<and> spaces (mb_after m)
     \<and> string_literal (mb_key m) \<and> json_value (mb_value m)"

definition object_text :: "string \<Rightarrow> string \<Rightarrow> member list \<Rightarrow> string \<Rightarrow> string" where
  "object_text before inside ms after =
     before @ ''{'' @ (if ms = [] then inside else join_with '','' (map member_text ms)) @ ''}'' @ after"

definition member_read :: "json_lib \<Rightarrow> member \<Rightarrow> string \<times> string" where
  "member_read J m = (case jl_string J (mb_key m) of Some key \<Rightarrow> (key, mb_value m) | None \<Rightarrow> ([], mb_value m))"

lemma json_hd: "json_value v \<Longrightarrow> v \<noteq> [] \<and> \<not> json_space (hd v)"
  by (induction rule: json_value.cases) (auto simp: json_space_def string_literal_def scalar_byte_def neq_Nil_conv)

lemma byte_hd: "s \<noteq> [] \<Longrightarrow> byte (p @ s) (length p) = Some (hd s)"
  by (cases s) (simp_all add: byte_def)

lemma slice_mid: "slice (p @ x @ s) (length p) (length p + length x) = x"
  by (simp add: slice_def)

lemma member_step:
  fixes p :: string
  assumes ok: "member_ok m" and key: "jl_string J (mb_key m) \<noteq> None" and t: "t \<noteq> []" "hd t \<in> {CHR '','', CHR ''}''}"
  defines "bytes \<equiv> p @ member_body m @ t" and "stop \<equiv> length p + length (member_body m)"
  shows "members_loop J bytes (length p) acc =
    (if hd t = CHR '','' then members_loop J bytes (skip_whitespace bytes (stop + 1)) (acc @ [member_read J m])
     else Some (Some (stop, acc @ [member_read J m])))"
proof -
  let ?k = "mb_key m" and ?c = "mb_colon m" and ?g = "mb_gap m" and ?v = "mb_value m" and ?a = "mb_after m"
  note pieces = ok [unfolded member_ok_def]
  have not_space: "\<not> json_space (hd t)" using t by (auto simp: json_space_def)
  have "byte bytes (length p) = Some (CHR 0x22)"
    using literal_hd [of ?k] pieces byte_hd [of "member_body m @ t" p] by (auto simp: bytes_def member_body_def)
  moreover have "bytes = p @ ?k @ (?c @ '':'' @ ?g @ ?v @ ?a @ t)" by (simp add: bytes_def member_body_def)
  then have "scan_string bytes (length p) = Some (length p + length ?k)" "slice bytes (length p) (length p + length ?k) = ?k"
    using scan_literal pieces slice_mid by metis+
  moreover have "bytes = (p @ ?k) @ ?c @ ('':'' @ ?g @ ?v @ ?a @ t)" by (simp add: bytes_def member_body_def)
  then have "skip_whitespace bytes (length p + length ?k) = length p + length ?k + length ?c"
    using skip_spaces [of ?c "'':'' @ ?g @ ?v @ ?a @ t" "p @ ?k"] pieces by (simp add: json_space_def)
  moreover have "bytes = (p @ ?k @ ?c) @ ('':'' @ ?g @ ?v @ ?a @ t)" by (simp add: bytes_def member_body_def)
  then have "byte bytes (length p + length ?k + length ?c) = Some (CHR '':'')"
    using byte_hd [of "'':'' @ ?g @ ?v @ ?a @ t" "p @ ?k @ ?c"] by (simp add: add.assoc)
  moreover have "bytes = (p @ ?k @ ?c @ '':'') @ ?g @ (?v @ ?a @ t)" by (simp add: bytes_def member_body_def)
  then have "skip_whitespace bytes (length p + length ?k + length ?c + 1) = length p + length ?k + length ?c + 1 + length ?g"
    using skip_spaces [of ?g "?v @ ?a @ t" "p @ ?k @ ?c @ '':''"] pieces json_hd [of ?v] by (simp add: add.assoc)
  moreover have b: "bytes = (p @ ?k @ ?c @ '':'' @ ?g) @ ?v @ (?a @ t)" by (simp add: bytes_def member_body_def)
  have "?a @ t = [] \<or> ends_scalar (hd (?a @ t))"
    using pieces t by (cases ?a) (auto simp: ends_scalar_def spaces_def)
  then have "scan_value bytes (length p + length ?k + length ?c + 1 + length ?g)
      = Some (length p + length ?k + length ?c + 1 + length ?g + length ?v)"
    using scan_value_json [of ?v "?a @ t" "p @ ?k @ ?c @ '':'' @ ?g"] pieces b by (simp add: add.assoc)
  moreover have "slice bytes (length p + length ?k + length ?c + 1 + length ?g) (length p + length ?k + length ?c + 1 + length ?g + length ?v) = ?v"
    using slice_mid [of "p @ ?k @ ?c @ '':'' @ ?g" ?v "?a @ t"] b by (simp add: add.assoc)
  moreover have "bytes = (p @ ?k @ ?c @ '':'' @ ?g @ ?v) @ ?a @ t" by (simp add: bytes_def member_body_def)
  then have "skip_whitespace bytes (length p + length ?k + length ?c + 1 + length ?g + length ?v) = stop"
    using skip_spaces [of ?a t "p @ ?k @ ?c @ '':'' @ ?g @ ?v"] pieces not_space by (simp add: stop_def member_body_def add.assoc)
  moreover have "byte bytes stop = Some (hd t)"
    using byte_hd [of t "p @ member_body m"] t by (simp add: bytes_def stop_def)
  moreover obtain key where "jl_string J ?k = Some key" using key by blast
  ultimately show ?thesis
    using t(2) by (subst members_loop.simps) (auto simp: member_read_def Let_def)
qed

lemma members_loop_reads:
  assumes "\<forall>m \<in> set (m # ms). member_ok m \<and> jl_string J (mb_key m) \<noteq> None"
  shows "members_loop J (p @ member_body m @ concat (map (\<lambda>m. '','' @ member_text m) ms) @ ''}'' @ z) (length p) acc
    = Some (Some (length p + length (member_body m @ concat (map (\<lambda>m. '','' @ member_text m) ms)), acc @ map (member_read J) (m # ms)))"
  using assms
proof (induction ms arbitrary: p m acc)
  case Nil
  then show ?case using member_step [of m J "''}'' @ z" p acc] by simp
next
  case (Cons n ms)
  let ?rest = "concat (map (\<lambda>m. '','' @ member_text m) ms) @ ''}'' @ z"
  let ?bytes = "p @ member_body m @ '','' @ member_text n @ ?rest"
  let ?p = "p @ member_body m @ '','' @ mb_before n"
  have n: "spaces (mb_before n)" "string_literal (mb_key n)" using Cons.prems by (simp_all add: member_ok_def)
  have "skip_whitespace ?bytes (length p + length (member_body m) + 1) = length ?p"
    using skip_spaces [OF n(1), of "member_body n @ ?rest" "p @ member_body m @ '',''"] literal_hd [OF n(2)]
    by (simp add: member_text_def member_body_def add.assoc json_space_def)
  moreover have "members_loop J (?p @ member_body n @ ?rest) (length ?p) (acc @ [member_read J m])
      = Some (Some (length ?p + length (member_body n @ concat (map (\<lambda>m. '','' @ member_text m) ms)),
          (acc @ [member_read J m]) @ map (member_read J) (n # ms)))"
    by (rule Cons.IH) (use Cons.prems in simp)
  moreover have "?p @ member_body n @ ?rest = ?bytes" by (simp add: member_text_def)
  ultimately show ?case
    using member_step [of m J "'','' @ member_text n @ ?rest" p acc] Cons.prems by (simp add: member_text_def)
qed

lemma join_members: "join_with '','' (map member_text (m # ms)) = member_text m @ concat (map (\<lambda>m. '','' @ member_text m) ms)"
  by (induction ms arbitrary: m) simp_all

theorem object_members_read:
  assumes "spaces before" "spaces inside" "spaces after" and "\<forall>m \<in> set ms. member_ok m \<and> jl_string J (mb_key m) \<noteq> None"
  shows "object_members J (object_text before inside ms after) = Some (map (member_read J) ms)"
proof -
  let ?text = "object_text before inside ms after"
  have at: "skip_whitespace ?text 0 = length before"
    using skip_spaces [OF assms(1), of "''{'' @ (if ms = [] then inside else join_with '','' (map member_text ms)) @ ''}'' @ after" "[]"]
    by (simp add: object_text_def json_space_def)
  have lbrace: "byte ?text (length before) = Some (CHR ''{'')"
    using byte_hd [of "''{'' @ (if ms = [] then inside else join_with '','' (map member_text ms)) @ ''}'' @ after" before]
    by (simp add: object_text_def)
  have ends: "skip_whitespace (q @ ''}'' @ after) (length q + 1) = length (q @ ''}'' @ after)" for q
    using skip_spaces [OF assms(3), of "[]" "q @ ''}''"] by simp
  show ?thesis
  proof (cases ms)
    case Nil
    then have shape: "?text = (before @ ''{'') @ inside @ ''}'' @ after" by (simp add: object_text_def)
    have "skip_whitespace ?text (length before + 1) = length before + 1 + length inside"
      using skip_spaces [OF assms(2), of "''}'' @ after" "before @ ''{''"] unfolding shape by (simp add: json_space_def)
    moreover have "byte ?text (length before + 1 + length inside) = Some (CHR ''}'')"
      using byte_hd [of "''}'' @ after" "before @ ''{'' @ inside"] unfolding shape by simp
    ultimately show ?thesis using at lbrace ends [of "before @ ''{'' @ inside"] Nil shape
      by (simp add: object_members_def Let_def)
  next
    case (Cons m ms')
    let ?tail = "concat (map (\<lambda>m. '','' @ member_text m) ms')"
    let ?p = "before @ ''{'' @ mb_before m"
    have shape: "?text = ?p @ member_body m @ ?tail @ ''}'' @ after"
      unfolding object_text_def Cons join_members by (simp add: member_text_def)
    have m: "spaces (mb_before m)" "string_literal (mb_key m)" using assms(4) Cons by (simp_all add: member_ok_def)
    have start: "skip_whitespace ?text (length before + 1) = length ?p"
      using skip_spaces [OF m(1), of "member_body m @ ?tail @ ''}'' @ after" "before @ ''{''"] literal_hd [OF m(2)] unfolding shape
      by (simp add: member_body_def json_space_def)
    have quote: "byte ?text (length ?p) = Some (CHR 0x22)"
      using byte_hd [of "member_body m @ ?tail @ ''}'' @ after" ?p] literal_hd [OF m(2)] unfolding shape by (simp add: member_body_def)
    have loop: "members_loop J ?text (length ?p) [] = Some (Some (length (?p @ member_body m @ ?tail), map (member_read J) ms))"
      unfolding shape using members_loop_reads [of m ms' J ?p after "[]"] assms(4) Cons by simp
    have "skip_whitespace ?text (length (?p @ member_body m @ ?tail) + 1) = length ?text"
      using ends [of "?p @ member_body m @ ?tail"] shape by simp
    then show ?thesis using at lbrace start quote loop by (simp add: object_members_def Let_def)
  qed
qed

section \<open>Arguments of a call\<close>

text \<open>No byte that begins or ends a JSON value begins or ends white space.\<close>

lemma not_white_bytes:
  "list_all (\<lambda>c. \<not> scalar_byte c \<and> c \<notin> set [CHR 0x22, CHR ''{'', CHR ''['', CHR ''}'', CHR '']'']) (map hd white_space @ map last white_space)"
  by code_simp

definition edge_byte :: "char \<Rightarrow> bool" where
  "edge_byte c \<longleftrightarrow> scalar_byte c \<or> c \<in> set [CHR 0x22, CHR ''{'', CHR ''['', CHR ''}'', CHR '']'']"

lemma not_white:
  assumes "edge_byte c"
  shows "c \<notin> set (map hd white_space)" "c \<notin> set (map last white_space)"
  using assms not_white_bytes unfolding list_all_iff set_append edge_byte_def by (blast+)

lemma json_value_ends:
  "json_value v \<Longrightarrow> v \<noteq> [] \<and> edge_byte (hd v)
     \<and> edge_byte (last v)"
proof (induction rule: json_value.cases)
  case (literal x)
  then obtain body where "x = CHR 0x22 # body @ [CHR 0x22]" by (auto simp: string_literal_def)
  with literal show ?case by (simp add: edge_byte_def)
next
  case (scalar x)
  then have "scalar_byte (hd x)" "scalar_byte (last x)" by (simp_all add: list_all_iff)
  with scalar show ?case by (simp add: edge_byte_def)
qed (simp_all add: edge_byte_def)

lemma json_hd_last: "json_value v \<Longrightarrow> v \<noteq> [] \<and> hd v \<notin> set (map hd white_space) \<and> last v \<notin> set (map last white_space)"
  by (drule json_value_ends, elim conjE, intro conjI not_white)

lemma find_only: "w \<in> set ws \<Longrightarrow> P w \<Longrightarrow> \<forall>v \<in> set ws. P v \<longrightarrow> v = w \<Longrightarrow> find P ws = Some w"
proof (induction ws)
  case (Cons v ws)
  show ?case
  proof (cases "P v")
    case True
    then have "v = w" using Cons.prems(3) by (blast intro: list.set_intros)
    with True show ?thesis by (simp only: find.simps if_True)
  next
    case False
    with Cons.prems(2) have "w \<noteq> v" by blast
    with Cons.prems(1) have "w \<in> set ws" by simp
    moreover have "\<forall>v \<in> set ws. P v \<longrightarrow> v = w" using Cons.prems(3) by (meson list.set_intros(2))
    ultimately have "find P ws = Some w" using Cons.IH Cons.prems(2) by blast
    with False show ?thesis by (simp only: find.simps if_False)
  qed
qed simp

lemma json_space_bytes:
  "list_all (\<lambda>c. [c] \<in> set white_space \<and> list_all (\<lambda>v. (hd v = c \<or> last v = c) \<longrightarrow> v = [c]) white_space)
    [CHR '' '', CHR 0x09, CHR 0x0A, CHR 0x0D]"
  by code_simp

lemma json_space_white:
  assumes "json_space c"
  shows "[c] \<in> set white_space" "\<forall>v \<in> set white_space. hd v = c \<longrightarrow> v = [c]" "\<forall>v \<in> set white_space. last v = c \<longrightarrow> v = [c]"
proof -
  have "c \<in> set [CHR '' '', CHR 0x09, CHR 0x0A, CHR 0x0D]" using assms by (simp add: json_space_def)
  with json_space_bytes have "[c] \<in> set white_space \<and> list_all (\<lambda>v. (hd v = c \<or> last v = c) \<longrightarrow> v = [c]) white_space"
    unfolding list_all_iff by blast
  then show "[c] \<in> set white_space" "\<forall>v \<in> set white_space. hd v = c \<longrightarrow> v = [c]" "\<forall>v \<in> set white_space. last v = c \<longrightarrow> v = [c]"
    by (auto simp: list_all_iff)
qed

lemma find_space:
  assumes "json_space c"
  shows "find (\<lambda>w. w \<noteq> [] \<and> prefix w (c # s)) white_space = Some [c]"
proof (rule find_only [OF json_space_white(1) [OF assms]])
  show "\<forall>v \<in> set white_space. v \<noteq> [] \<and> prefix v (c # s) \<longrightarrow> v = [c]"
  proof (intro ballI impI)
    fix v
    assume v: "v \<in> set white_space" "v \<noteq> [] \<and> prefix v (c # s)"
    then have "hd v = c" by (metis hd_append2 list.sel(1) prefix_def)
    with json_space_white(2) [OF assms] v(1) show "v = [c]" by blast
  qed
qed simp

lemma find_end_space:
  assumes "json_space c"
  shows "find (\<lambda>w. w \<noteq> [] \<and> suffix w (s @ [c])) white_space = Some [c]"
proof (rule find_only [OF json_space_white(1) [OF assms]])
  show "\<forall>v \<in> set white_space. v \<noteq> [] \<and> suffix v (s @ [c]) \<longrightarrow> v = [c]"
  proof (intro ballI impI)
    fix v
    assume v: "v \<in> set white_space" "v \<noteq> [] \<and> suffix v (s @ [c])"
    then have "last v = c" by (cases v rule: rev_cases) (auto simp: suffix_def)
    with json_space_white(3) [OF assms] v(1) show "v = [c]" by blast
  qed
qed (simp add: suffix_def)

lemma trim_start_stops:
  assumes "x \<noteq> []" "hd x \<notin> set (map hd white_space)"
  shows "trim_start_matches white_space x = x"
proof -
  have "\<not> (w \<noteq> [] \<and> prefix w x)" if "w \<in> set white_space" for w
  proof
    assume w: "w \<noteq> [] \<and> prefix w x"
    then have "hd x = hd w" by (auto simp: prefix_def)
    with assms(2) that show False by simp
  qed
  then have "find (\<lambda>w. w \<noteq> [] \<and> prefix w x) white_space = None" unfolding find_None_iff by blast
  then show ?thesis by (subst trim_start_matches.simps) simp
qed

lemma trim_end_stops:
  assumes "x \<noteq> []" "last x \<notin> set (map last white_space)"
  shows "trim_end_matches white_space x = x"
proof -
  have "\<not> (w \<noteq> [] \<and> suffix w x)" if "w \<in> set white_space" for w
    using assms that by (auto simp: suffix_def)
  then have "find (\<lambda>w. w \<noteq> [] \<and> suffix w x) white_space = None" unfolding find_None_iff by blast
  then show ?thesis by (subst trim_end_matches.simps) simp
qed

lemma trim_start_spaces: "spaces w \<Longrightarrow> trim_start_matches white_space (w @ s) = trim_start_matches white_space s"
proof (induction w)
  case (Cons c w)
  then show ?case by (subst trim_start_matches.simps) (simp add: find_space spaces_def)
qed simp

lemma trim_end_spaces: "spaces w \<Longrightarrow> trim_end_matches white_space (s @ w) = trim_end_matches white_space s"
proof (induction w rule: rev_induct)
  case (snoc c w)
  then have "find (\<lambda>v. v \<noteq> [] \<and> suffix v ((s @ w) @ [c])) white_space = Some [c]"
    by (intro find_end_space) (simp add: spaces_def)
  with snoc show ?case by (subst trim_end_matches.simps) (simp add: spaces_def)
qed simp

lemma trim_json:
  assumes "json_value x" "spaces w1" "spaces w2"
  shows "trim (w1 @ x @ w2) = x"
proof -
  note ends = json_hd_last [OF assms(1)]
  have "trim_start_matches white_space (w1 @ x @ w2) = x @ w2"
    using trim_start_spaces [OF assms(2)] trim_start_stops [of "x @ w2"] ends by simp
  then show ?thesis unfolding trim_def using trim_end_spaces [OF assms(3)] trim_end_stops [of x] ends by simp
qed

text \<open>
  What the code relies on in \<open>serde_json\<close>: it quotes a string as a literal that reads back as the
  string, and what it parses is one JSON value between JSON white space, a literal exactly when
  the value is a string.
\<close>

definition json_lib_ok :: "json_lib \<Rightarrow> bool" where
  "json_lib_ok J \<longleftrightarrow> (\<forall>t. string_literal (jl_quote J t) \<and> jl_string J (jl_quote J t) = Some t)
     \<and> (\<forall>t v. jl_value J t = Some v \<longrightarrow> (\<exists>w1 x w2. t = w1 @ x @ w2 \<and> spaces w1 \<and> spaces w2 \<and> json_value x
          \<and> (hd x = CHR 0x22 \<longleftrightarrow> is_string v)))"

lemma encode_json:
  assumes "json_lib_ok J"
  shows "json_value (encode J raw declared)"
    and "hd (encode J raw declared) = CHR 0x22 \<Longrightarrow> encode J raw declared = jl_quote J raw"
proof -
  have "json_value (encode J raw declared) \<and> (hd (encode J raw declared) = CHR 0x22 \<longrightarrow> encode J raw declared = jl_quote J raw)"
  proof (cases "declared \<noteq> Some ''string'' \<and> (\<exists>v \<in> set_option (jl_value J raw). \<not> is_string v)")
    case True
    then obtain v where v: "jl_value J raw = Some v" "\<not> is_string v" by auto
    with assms obtain w1 x w2 where x: "raw = w1 @ x @ w2" "spaces w1" "spaces w2" "json_value x" "hd x \<noteq> CHR 0x22"
      unfolding json_lib_ok_def by blast
    with True show ?thesis by (simp add: encode_def trim_json)
  next
    case False
    then have "encode J raw declared = jl_quote J raw" unfolding encode_def by (rule if_not_P)
    with assms show ?thesis by (simp add: json_lib_ok_def json_value_json_items_json_fields.literal)
  qed
  then show "json_value (encode J raw declared)"
    "hd (encode J raw declared) = CHR 0x22 \<Longrightarrow> encode J raw declared = jl_quote J raw" by blast+
qed

text \<open>
  A parameter is written as the template taught: text that is sent as JSON is the value itself, an
  object or an array in the formatting of \<open>python_json\<close>.
\<close>

definition container_byte :: "char \<Rightarrow> bool" where
  "container_byte c \<longleftrightarrow> c = CHR ''{'' \<or> c = CHR ''[''"

definition template_written :: "json_lib \<Rightarrow> string \<Rightarrow> string option \<Rightarrow> bool" where
  "template_written J raw declared \<longleftrightarrow> (let e = encode J raw declared in hd e = CHR 0x22 \<or>
     raw = e \<and> (container_byte (hd e) \<longrightarrow> map_option (python_json J) (jl_value J e) = Some e))"

text \<open>What a client may send back for a value: an equal string, an equal container, or the same text.\<close>

definition echoes :: "json_lib \<Rightarrow> string \<Rightarrow> string \<Rightarrow> bool" where
  "echoes J e v \<longleftrightarrow> json_value v \<and>
     (if hd e = CHR 0x22 then hd v = CHR 0x22 \<and> jl_string J v = jl_string J e
      else if container_byte (hd e) then container_byte (hd v) \<and> jl_value J v = jl_value J e
      else v = e)"

lemma echoes_refl: "json_value e \<Longrightarrow> echoes J e e"
  by (simp add: echoes_def)

lemma parameter_text_echo:
  assumes "json_lib_ok J" "template_written J raw declared" "echoes J (encode J raw declared) v"
  shows "parameter_text J v = raw"
proof -
  let ?e = "encode J raw declared"
  have "v \<noteq> []" using assms(3) json_hd by (auto simp: echoes_def)
  then have at: "byte v 0 = Some (hd v)" using byte_hd [of v "[]"] by simp
  consider "hd ?e = CHR 0x22" | "hd ?e \<noteq> CHR 0x22" "container_byte (hd ?e)" | "hd ?e \<noteq> CHR 0x22" "\<not> container_byte (hd ?e)" by blast
  then show ?thesis
  proof cases
    case 1
    have "jl_string J (jl_quote J raw) = Some raw" using assms(1) by (simp add: json_lib_ok_def)
    with 1 assms(3) at encode_json(2) [OF assms(1) 1] show ?thesis by (simp add: parameter_text_def echoes_def)
  next
    case 2
    with assms(2) obtain p where p: "raw = ?e" "jl_value J ?e = Some p" "python_json J p = ?e" by (auto simp: template_written_def Let_def)
    from 2 assms(3) have "hd v \<noteq> CHR 0x22" "container_byte (hd v)" "jl_value J v = jl_value J ?e"
      by (auto simp: echoes_def container_byte_def)
    with at p show ?thesis by (simp add: parameter_text_def container_byte_def)
  next
    case 3
    with assms(2,3) have "raw = ?e" "v = ?e" by (auto simp: echoes_def template_written_def Let_def)
    with 3 at show ?thesis by (simp add: parameter_text_def container_byte_def)
  qed
qed

section \<open>The markup of a call\<close>

definition parameter_markup :: "string \<times> string \<Rightarrow> string" where
  "parameter_markup = (\<lambda>(key, v). PARAMETER_OPEN @ key @ ''>'' @ newline @ v @ newline @ PARAMETER_CLOSE @ newline)"

definition call_body :: "tool_call \<Rightarrow> string" where
  "call_body c = newline @ FUNCTION_OPEN @ tc_name c @ ''>'' @ newline @ concat (map parameter_markup (tc_parameters c)) @ FUNCTION_CLOSE @ newline"

definition call_markup :: "tool_call \<Rightarrow> string" where
  "call_markup c = CALL_OPEN @ call_body c @ CALL_CLOSE"

lemma render_call_markup:
  assumes "object_members J arguments = Some ms" and "list_all2 (\<lambda>(key, v) (k, raw). key = k \<and> parameter_text J v = raw) ms (tc_parameters c)"
  shows "render_call J (tc_name c) arguments = call_markup c"
proof -
  have "map (render_parameter J) ms = map parameter_markup (tc_parameters c)"
    using assms(2) by (induction rule: list_all2_induct) (auto simp: render_parameter_def parameter_markup_def)
  then show ?thesis using assms(1) by (simp add: render_call_def call_markup_def call_body_def)
qed

text \<open>A name is what the tags can carry; a value contains no closing tag of its own.\<close>

definition tag_name :: "string \<Rightarrow> bool" where
  "tag_name s \<longleftrightarrow> trim s = s \<and> s \<noteq> [] \<and> CHR ''<'' \<notin> set s \<and> CHR ''>'' \<notin> set s"

definition tag_value :: "string \<Rightarrow> bool" where
  "tag_value v \<longleftrightarrow> str_find v PARAMETER_CLOSE = None \<and> str_find v FUNCTION_CLOSE = None \<and> str_find v CALL_CLOSE = None"

definition markup_ok :: "tool_call \<Rightarrow> bool" where
  "markup_ok c \<longleftrightarrow> tag_name (tc_name c) \<and> (\<forall>(key, v) \<in> set (tc_parameters c). tag_name key \<and> tag_value v)"

lemma find_at:
  assumes "str_find a pat = None" "pat \<noteq> []" "hd pat \<notin> set (tl pat)"
  shows "str_find (a @ pat @ b) pat = Some (length a)"
  unfolding str_find_Some
proof (intro conjI allI impI notI)
  show "occurs_at pat (a @ pat @ b) (length a)" by (simp add: occurs_at_def)
  fix j
  assume j: "j < length a" and occ: "occurs_at pat (a @ pat @ b) j"
  show False
  proof (cases "j + length pat \<le> length a")
    case True
    with occ occurs_at_append [OF True] assms(1) show False by (auto simp: str_find_None)
  next
    case False
    let ?k = "length a - j"
    have k: "0 < ?k" "?k < length pat" using j False by simp_all
    have "pat ! ?k = take (length pat) (drop j (a @ pat @ b)) ! ?k" using occ by (simp add: occurs_at_def)
    also have "\<dots> = (a @ pat @ b) ! (j + ?k)" using k(2) j by (subst nth_take, simp, subst nth_drop) simp_all
    also have "\<dots> = hd pat" using j assms(2) by (simp add: nth_append hd_conv_nth)
    finally have hd: "pat ! ?k = hd pat" .
    obtain k' where k': "?k = Suc k'" using k(1) by (cases ?k) simp_all
    have "tl pat ! k' = hd pat" using hd k(2) by (simp add: k' nth_tl)
    moreover have "k' < length (tl pat)" using k(2) by (simp add: k')
    ultimately show False using assms(3) nth_mem [of k' "tl pat"] by simp
  qed
qed

lemma find_across:
  assumes "c \<notin> set pat" "pat \<noteq> []" "str_find a pat = None" "str_find b pat = None"
  shows "str_find (a @ c # b) pat = None"
  unfolding str_find_None
proof (intro allI notI)
  fix i
  assume occ: "occurs_at pat (a @ c # b) i"
  consider "i + length pat \<le> length a" | "length a < i" | "i \<le> length a" "length a < i + length pat" by linarith
  then show False
  proof cases
    case 1
    with occ occurs_at_append [OF 1] assms(3) show False by (auto simp: str_find_None)
  next
    case 2
    have "occurs_at pat (drop (length a + 1) (a @ c # b)) (i - (length a + 1)) = occurs_at pat (a @ c # b) (length a + 1 + (i - (length a + 1)))"
      by (rule occurs_at_drop) simp
    with occ 2 assms(4) show False by (simp add: str_find_None)
  next
    case 3
    let ?k = "length a - i"
    have "pat ! ?k = take (length pat) (drop i (a @ c # b)) ! ?k" using occ by (simp add: occurs_at_def)
    also have "\<dots> = c" using 3 by (simp add: nth_append)
    finally have "c = pat ! ?k" by simp
    moreover have "?k < length pat" using 3 by linarith
    ultimately show False using assms(1) by simp
  qed
qed

lemma find_no_start: "pat \<noteq> [] \<Longrightarrow> hd pat \<notin> set s \<Longrightarrow> str_find s pat = None"
  by (induction s) (auto simp: prefix_def Cons_eq_append_conv neq_Nil_conv)

lemma find_tag: "pat \<noteq> [] \<Longrightarrow> hd pat = CHR ''<'' \<Longrightarrow> CHR ''<'' \<notin> set s \<Longrightarrow> \<not> prefix pat (CHR ''<'' # s) \<Longrightarrow> str_find (CHR ''<'' # s) pat = None"
  using find_no_start [of pat s] by simp

lemmas marker_facts = markers find_no_start prefix_def

lemma unframe_framed: "unframe (newline @ v @ newline) = v"
  by (simp add: unframe_def strip_prefix_def strip_suffix_def suffix_def)

lemma find_framed:
  assumes "str_find v pat = None" "pat \<noteq> []" "CHR 0x0A \<notin> set pat"
  shows "str_find (newline @ v @ newline) pat = None"
proof -
  have "str_find [] pat = None" using assms(2) by simp
  then have "str_find (v @ newline) pat = None" using find_across [OF assms(3,2,1)] by simp
  then show ?thesis using find_across [OF assms(3,2) \<open>str_find [] pat = None\<close>] by simp
qed

lemma parse_one_parameter:
  assumes "tag_name k" "tag_value v"
  shows "parse_parameters (newline @ parameter_markup (k, v) @ rest) = (k, v) # parse_parameters (newline @ rest)"
proof -
  let ?framed = "newline @ v @ newline"
  let ?after = "k @ ''>'' @ ?framed @ PARAMETER_CLOSE @ newline @ rest"
  have cursor: "newline @ parameter_markup (k, v) @ rest = newline @ PARAMETER_OPEN @ ?after"
    by (simp add: parameter_markup_def)
  have open_at: "str_find (newline @ PARAMETER_OPEN @ ?after) PARAMETER_OPEN = Some 1"
    using find_at [of newline PARAMETER_OPEN ?after] by (simp add: PARAMETER_OPEN_def prefix_def)
  have key: "str_find ?after ''>'' = Some (length k)"
    using find_at [of k "''>''"] find_no_start [of "''>''" k] assms(1) by (simp add: tag_name_def)
  have "str_find ?framed PARAMETER_CLOSE = None"
    using assms(2) by (intro find_framed) (simp_all add: tag_value_def PARAMETER_CLOSE_def)
  then have close: "str_find (?framed @ PARAMETER_CLOSE @ newline @ rest) PARAMETER_CLOSE = Some (length ?framed)"
    by (intro find_at) (simp_all add: PARAMETER_CLOSE_def)
  have trimmed: "trim k = k" using assms(1) by (simp add: tag_name_def)
  have a: "drop (1 + length PARAMETER_OPEN) (newline @ PARAMETER_OPEN @ ?after) = ?after" by simp
  have b: "take (length k) ?after = k" "drop (length k + 1) ?after = ?framed @ PARAMETER_CLOSE @ newline @ rest" by simp_all
  have c: "take (length ?framed) (?framed @ PARAMETER_CLOSE @ newline @ rest) = ?framed"
    "drop (length ?framed + length PARAMETER_CLOSE) (?framed @ PARAMETER_CLOSE @ newline @ rest) = newline @ rest" by simp_all
  show ?thesis unfolding cursor
    by (subst parse_parameters.simps)
      (simp only: open_at option.case Let_def a key b close c trimmed unframe_framed)
qed

lemma parse_parameters_markup:
  "\<forall>(k, v) \<in> set ps. tag_name k \<and> tag_value v \<Longrightarrow> parse_parameters (newline @ concat (map parameter_markup ps)) = ps"
proof (induction ps)
  case Nil
  show ?case by (subst parse_parameters.simps) (simp add: PARAMETER_OPEN_def prefix_def)
next
  case (Cons p ps)
  obtain k v where p: "p = (k, v)" by (rule prod.exhaust)
  with Cons show ?case using parse_one_parameter [of k v "concat (map parameter_markup ps)"] by simp
qed

text \<open>The closing tags of a function and of a call are not found inside the parameters.\<close>

definition closing_tag :: "string \<Rightarrow> bool" where
  "closing_tag pat \<longleftrightarrow> pat = FUNCTION_CLOSE \<or> pat = CALL_CLOSE"

lemma closing_tag_facts:
  assumes "closing_tag pat"
  shows "pat \<noteq> []" "CHR 0x0A \<notin> set pat" "hd pat = CHR ''<''" "str_find [] pat = None" "str_find PARAMETER_CLOSE pat = None"
    "take 2 pat = ''</''" "2 \<le> length pat"
  using assms unfolding closing_tag_def by (elim disjE; simp add: markers prefix_def)+

lemma closing_tag_value: "closing_tag pat \<Longrightarrow> tag_value v \<Longrightarrow> str_find v pat = None"
  unfolding closing_tag_def by (elim disjE) (simp_all add: tag_value_def)

lemma find_opened:
  assumes "closing_tag pat" "opened = FUNCTION_OPEN \<or> opened = PARAMETER_OPEN" "tag_name k"
  shows "str_find (opened @ k @ ''>'') pat = None"
proof -
  have open_tag: "opened = CHR ''<'' # tl opened" "CHR ''<'' \<notin> set (tl opened)" "take 2 opened \<noteq> ''</''" "2 \<le> length opened"
    using assms(2) by (elim disjE; simp add: markers)+
  have "\<not> prefix pat (opened @ k @ ''>'')"
  proof
    assume "prefix pat (opened @ k @ ''>'')"
    then obtain z where z: "opened @ k @ ''>'' = pat @ z" by (auto simp: prefix_def)
    have two: "take 2 pat = ''</''" by (rule closing_tag_facts(6) [OF assms(1)])
    have "2 \<le> length pat" by (rule closing_tag_facts(7) [OF assms(1)])
    then have "take 2 (opened @ k @ ''>'') = ''</''" unfolding z using two by simp
    then show False using open_tag(3,4) by simp
  qed
  moreover have "CHR ''<'' \<notin> set (tl opened @ k @ ''>'')" using assms(3) open_tag(2) by (simp add: tag_name_def)
  moreover have start: "opened @ k @ ''>'' = CHR ''<'' # (tl opened @ k @ ''>'')" using open_tag(1) by (metis append_Cons)
  ultimately show ?thesis unfolding start using find_tag [OF closing_tag_facts(1,3) [OF assms(1)], of "tl opened @ k @ ''>''"] by (simp only: not_False_eq_True)
qed

lemma find_close_parameters:
  assumes "closing_tag pat" and "\<forall>(k, v) \<in> set ps. tag_name k \<and> tag_value v" and "str_find rest pat = None"
  shows "str_find (newline @ concat (map parameter_markup ps) @ rest) pat = None"
proof -
  note pat = closing_tag_facts [OF assms(1)]
  have line: "str_find (PARAMETER_OPEN @ k @ ''>'') pat = None" if "tag_name k" for k
    using find_opened [OF assms(1) _ that] by simp
  have one: "str_find (parameter_markup (k, v) @ t) pat = None" if "tag_name k" "tag_value v" "str_find t pat = None" for k v t
  proof -
    have v: "str_find v pat = None" by (rule closing_tag_value [OF assms(1) that(2)])
    from find_across [OF pat(2,1) pat(5) that(3)] have "str_find (PARAMETER_CLOSE @ newline @ t) pat = None" by simp
    from find_across [OF pat(2,1) v this] have "str_find (v @ newline @ PARAMETER_CLOSE @ newline @ t) pat = None" by simp
    from find_across [OF pat(2,1) line [OF that(1)] this] show ?thesis by (simp add: parameter_markup_def)
  qed
  have "str_find (concat (map parameter_markup ps) @ rest) pat = None"
    using assms(2) by (induction ps) (auto simp: assms(3) intro!: one)
  from find_across [OF pat(2,1) pat(4) this] show ?thesis by simp
qed

lemma parse_call_body:
  assumes "markup_ok c"
  shows "parse_call (call_body c) = Some c"
proof -
  let ?params = "newline @ concat (map parameter_markup (tc_parameters c))"
  let ?after = "tc_name c @ ''>'' @ ?params @ FUNCTION_CLOSE @ newline"
  have ps: "\<forall>(k, v) \<in> set (tc_parameters c). tag_name k \<and> tag_value v" and name: "tag_name (tc_name c)"
    using assms by (simp_all add: markup_ok_def)
  have body: "call_body c = newline @ FUNCTION_OPEN @ ?after" by (simp add: call_body_def)
  have open_at: "str_find (newline @ FUNCTION_OPEN @ ?after) FUNCTION_OPEN = Some 1"
    using find_at [of newline FUNCTION_OPEN ?after] by (simp add: FUNCTION_OPEN_def prefix_def)
  have gt: "str_find ?after ''>'' = Some (length (tc_name c))"
    using find_at [of "tc_name c" "''>''"] find_no_start [of "''>''" "tc_name c"] name by (simp add: tag_name_def)
  have close: "str_find (?params @ FUNCTION_CLOSE @ newline) FUNCTION_CLOSE = Some (length ?params)"
    using find_close_parameters [of FUNCTION_CLOSE, OF _ ps, of "[]"] by (intro find_at) (simp_all add: FUNCTION_CLOSE_def closing_tag_def)
  have a: "drop (1 + length FUNCTION_OPEN) (newline @ FUNCTION_OPEN @ ?after) = ?after" by simp
  have b: "take (length (tc_name c)) ?after = tc_name c" "drop (length (tc_name c) + 1) ?after = ?params @ FUNCTION_CLOSE @ newline" by simp_all
  have c: "take (length ?params) (?params @ FUNCTION_CLOSE @ newline) = ?params" by simp
  have n: "trim (tc_name c) = tc_name c" "tc_name c \<noteq> []" using name by (simp_all add: tag_name_def)
  show ?thesis unfolding body
    by (simp only: parse_call_def open_at option.case Let_def a gt b close c n parse_parameters_markup [OF ps] if_False) simp
qed

lemma parse_markup:
  assumes "markup_ok c" "str_find pre CALL_OPEN = None"
  shows "parse (pre @ call_markup c) = (trim_end pre, [c])"
proof -
  have ps: "\<forall>(k, v) \<in> set (tc_parameters c). tag_name k \<and> tag_value v" and name: "tag_name (tc_name c)"
    using assms(1) by (simp_all add: markup_ok_def)
  let ?params = "newline @ concat (map parameter_markup (tc_parameters c))"
  have first: "str_find (pre @ call_markup c) CALL_OPEN = Some (length pre)"
    using find_at [OF assms(2), of "call_body c @ CALL_CLOSE"] by (simp add: call_markup_def CALL_OPEN_def)
  have start: "str_find (call_markup c) CALL_OPEN = Some 0"
    using find_at [of "[]" CALL_OPEN "call_body c @ CALL_CLOSE"] by (simp add: call_markup_def CALL_OPEN_def)
  have closed: "closing_tag CALL_CLOSE" by (simp add: closing_tag_def)
  note across = find_across [OF closing_tag_facts(2,1) [OF closed]]
  have "str_find (FUNCTION_CLOSE @ newline) CALL_CLOSE = None" by (simp add: markers prefix_def)
  then have params: "str_find (?params @ FUNCTION_CLOSE @ newline) CALL_CLOSE = None"
    using find_close_parameters [OF closed ps] by simp
  have head: "str_find (FUNCTION_OPEN @ tc_name c @ ''>'') CALL_CLOSE = None" by (rule find_opened [OF closed _ name]) simp
  have tail: "str_find (concat (map parameter_markup (tc_parameters c)) @ FUNCTION_CLOSE @ newline) CALL_CLOSE = None"
    using params by (simp split: if_splits)
  from across [OF closing_tag_facts(4) [OF closed] across [OF head tail]]
  have "str_find (call_body c) CALL_CLOSE = None" by (simp add: call_body_def)
  then have close: "str_find (call_body c @ CALL_CLOSE) CALL_CLOSE = Some (length (call_body c))"
    using find_at [of "call_body c" CALL_CLOSE "[]"] by (simp add: CALL_CLOSE_def)
  have a: "drop (0 + length CALL_OPEN) (call_markup c) = call_body c @ CALL_CLOSE" by (simp add: call_markup_def)
  have b: "take (length (call_body c)) (call_body c @ CALL_CLOSE) = call_body c"
    "drop (length (call_body c) + length CALL_CLOSE) (call_body c @ CALL_CLOSE) = []" by simp_all
  have "parse_blocks [] = []" by (subst parse_blocks.simps) (simp add: CALL_OPEN_def)
  then have "parse_blocks (call_markup c) = [c]"
    by (subst parse_blocks.simps) (simp only: start option.case Let_def a close b parse_call_body [OF assms(1)] append_Cons append_Nil)
  then show ?thesis by (simp add: parse_def first)
qed

section \<open>The loop of a call\<close>

text \<open>A member a client sends for a parameter: its key reads as the name and its value echoes what was encoded.\<close>

definition member_echoes :: "json_lib \<Rightarrow> json option \<Rightarrow> member \<Rightarrow> string \<times> string \<Rightarrow> bool" where
  "member_echoes J schema m p \<longleftrightarrow> member_ok m \<and> jl_string J (mb_key m) = Some (fst p)
     \<and> echoes J (encode J (snd p) (declared_type schema (fst p))) (mb_value m)"

definition as_taught :: "json_lib \<Rightarrow> json option \<Rightarrow> tool_call \<Rightarrow> bool" where
  "as_taught J schema c \<longleftrightarrow> list_all (\<lambda>(key, raw). template_written J raw (declared_type schema key)) (tc_parameters c)"

lemma echoed_call:
  assumes "json_lib_ok J" "as_taught J schema c" "spaces before" "spaces inside" "spaces after"
    and "list_all2 (member_echoes J schema) ms (tc_parameters c)"
  shows "render_call J (tc_name c) (object_text before inside ms after) = call_markup c"
proof (rule render_call_markup)
  have "\<forall>m \<in> set ms. member_ok m \<and> jl_string J (mb_key m) \<noteq> None"
    using assms(6) by (induction rule: list_all2_induct) (auto simp: member_echoes_def)
  then show "object_members J (object_text before inside ms after) = Some (map (member_read J) ms)"
    by (rule object_members_read [OF assms(3-5)])
  have "list_all (\<lambda>(key, raw). template_written J raw (declared_type schema key)) (tc_parameters c)"
    using assms(2) by (simp add: as_taught_def)
  with assms(6) show "list_all2 (\<lambda>(key, v) (k, raw). key = k \<and> parameter_text J v = raw) (map (member_read J) ms) (tc_parameters c)"
    by (induction rule: list_all2_induct)
      (auto simp: member_echoes_def member_read_def parameter_text_echo [OF assms(1)])
qed

text \<open>The \<open>arguments\<close> the server itself writes.\<close>

definition own_member :: "json_lib \<Rightarrow> json option \<Rightarrow> string \<times> string \<Rightarrow> member" where
  "own_member J schema p = \<lparr>mb_before = [], mb_key = jl_quote J (fst p), mb_colon = [], mb_gap = [],
     mb_value = encode J (snd p) (declared_type schema (fst p)), mb_after = []\<rparr>"

lemma own_arguments: "arguments_json J schema c = object_text [] [] (map (own_member J schema) (tc_parameters c)) []"
proof -
  have "map member_text (map (own_member J schema) ps)
      = map (\<lambda>(name, raw). jl_quote J name @ '':'' @ encode J raw (declared_type schema name)) ps" for ps
    by (induction ps) (auto simp: own_member_def member_text_def member_body_def)
  then show ?thesis by (simp add: arguments_json_def object_text_def del: map_map)
qed

lemma own_echoes:
  assumes "json_lib_ok J"
  shows "list_all2 (member_echoes J schema) (map (own_member J schema) ps) ps"
proof (induction ps)
  case (Cons p ps)
  have "string_literal (jl_quote J (fst p))" "jl_string J (jl_quote J (fst p)) = Some (fst p)"
    using assms by (simp_all add: json_lib_ok_def)
  then have "member_echoes J schema (own_member J schema p) p"
    using encode_json(1) [OF assms] by (simp add: member_echoes_def own_member_def member_ok_def spaces_def echoes_refl)
  with Cons show ?case by simp
qed simp

subsection \<open>An instance of the JSON library\<close>

fun escape :: "string \<Rightarrow> string" where
  "escape [] = []"
| "escape (c # cs) = (if c = CHR 0x22 \<or> c = CHR 0x5C then CHR 0x5C # c # escape cs else c # escape cs)"

fun unescape :: "string \<Rightarrow> string" where
  "unescape [] = []"
| "unescape [c] = [c]"
| "unescape (c # d # cs) = (if c = CHR 0x5C then d # unescape cs else c # unescape (d # cs))"

definition decimal :: "char \<Rightarrow> bool" where
  "decimal c \<longleftrightarrow> 48 \<le> (of_char c :: nat) \<and> (of_char c :: nat) < 58"

definition sample_json :: json_lib where
  "sample_json = \<lparr>jl_quote = (\<lambda>t. CHR 0x22 # escape t @ [CHR 0x22]),
     jl_value = (\<lambda>t. if t \<noteq> [] \<and> list_all decimal t then Some (JNumber t)
       else if t = ''[1, 2]'' \<or> t = ''[1,2]'' then Some (JArray [JNumber ''1'', JNumber ''2'']) else None),
     jl_string = (\<lambda>t. if t \<noteq> [] \<and> hd t = CHR 0x22 then Some (unescape (butlast (tl t))) else None)\<rparr>"

lemma escape_literal: "literal_body (escape t)"
  by (induction t) auto

lemma unescape_plain: "c \<noteq> CHR 0x5C \<Longrightarrow> unescape (c # s) = c # unescape s"
  by (cases s) simp_all

lemma unescape_escape: "unescape (escape t) = t"
  by (induction t) (auto simp: unescape_plain)

lemma decimal_scalar: "decimal c \<Longrightarrow> scalar_byte c"
  by (simp add: decimal_def scalar_byte_def)

lemma decimal_quote: "decimal c \<Longrightarrow> c \<noteq> CHR 0x22"
  by (auto simp: decimal_def)

lemma sample_array:
  assumes "t = ''[1, 2]'' \<or> t = ''[1,2]''"
  shows "json_value t"
proof -
  have digits: "json_value ''1''" "json_value ''2''"
    by (rule json_value_json_items_json_fields.scalar; simp add: scalar_byte_def)+
  have gap: "spaces []" "spaces '' ''" by (simp_all add: spaces_def json_space_def)
  have "json_items (w @ ''2'')" if "spaces w" for w
    using last_item [OF that digits(2) gap(1)] by simp
  then have "json_items (''1,'' @ w @ ''2'')" if "spaces w" for w
    using json_value_json_items_json_fields.item [OF gap(1) digits(1) gap(1)] that by fastforce
  from array [OF this [OF gap(2)]] array [OF this [OF gap(1)]] assms show ?thesis by auto
qed

lemma sample_json_ok: "json_lib_ok sample_json"
  unfolding json_lib_ok_def
proof (intro conjI allI impI)
  fix t
  show "string_literal (jl_quote sample_json t)"
    by (simp add: sample_json_def string_literal_def escape_literal)
  show "jl_string sample_json (jl_quote sample_json t) = Some t"
    by (simp add: sample_json_def unescape_escape)
next
  fix t v
  assume v: "jl_value sample_json t = Some v"
  have "json_value t \<and> (hd t = CHR 0x22 \<longleftrightarrow> is_string v)"
  proof (cases "t \<noteq> [] \<and> list_all decimal t")
    case True
    then have "json_value t" by (intro scalar) (auto simp: list_all_iff decimal_scalar)
    moreover have "hd t \<noteq> CHR 0x22" using True by (intro decimal_quote) (simp add: list_all_iff)
    moreover have "v = JNumber t" using True v by (simp add: sample_json_def)
    ultimately show ?thesis by (simp add: is_string_def as_str_def)
  next
    case False
    with v have t: "t = ''[1, 2]'' \<or> t = ''[1,2]''" "v = JArray [JNumber ''1'', JNumber ''2'']"
      unfolding sample_json_def by (simp_all split: if_splits)
    then have "hd t \<noteq> CHR 0x22" by auto
    with sample_array [OF t(1)] t(2) show ?thesis by (simp add: is_string_def as_str_def)
  qed
  then show "\<exists>w1 x w2. t = w1 @ x @ w2 \<and> spaces w1 \<and> spaces w2 \<and> json_value x \<and> (hd x = CHR 0x22 \<longleftrightarrow> is_string v)"
    by (intro exI [of _ "[]"] exI [of _ t]) (simp add: spaces_def)
qed

definition sample_call :: tool_call where
  "sample_call = \<lparr>tc_name = ''get_weather'', tc_parameters = [(''city'', ''Paris''), (''hours'', ''[1, 2]''), (''zip'', ''75001'')]\<rparr>"

text \<open>A schema in which the last parameter is a string although its text is a number.\<close>

definition sample_schema :: json where
  "sample_schema = JObject [(''parameters'', JObject [(''properties'', JObject [(''zip'', JObject [(''type'', JString ''string'')])])])]"

lemma sample_taught: "as_taught sample_json (Some sample_schema) sample_call"
  by code_simp

lemma sample_markup_ok: "markup_ok sample_call"
  by code_simp

section \<open>Properties\<close>

text \<open>
  C6. A call in the markup the template teaches, after any text without an opening tag, is read
  back as that call, and the arguments the server sends for it render to the same markup, so the
  next prompt contains what the model generated: JSON values are kept as text, and a parameter the
  schema declares a string stays a string.
\<close>

theorem tool_call_round_trip:
  assumes "json_lib_ok J" "markup_ok c" "as_taught J schema c" "str_find before_text CALL_OPEN = None"
  shows "parse (before_text @ call_markup c) = (trim_end before_text, [c])
    \<and> render_call J (tc_name c) (arguments_json J schema c) = call_markup c"
  using parse_markup [OF assms(2,4)] echoed_call [OF assms(1,3) _ _ _ own_echoes [OF assms(1)], of "[]" "[]" "[]"]
  by (simp add: own_arguments spaces_def)

theorem tool_call_round_trip_witness:
  "parse (''Sure.'' @ call_markup sample_call) = (trim_end ''Sure.'', [sample_call])
    \<and> render_call sample_json (tc_name sample_call) (arguments_json sample_json (Some sample_schema) sample_call) = call_markup sample_call"
  by (rule tool_call_round_trip [OF sample_json_ok sample_markup_ok sample_taught]) (simp add: CALL_OPEN_def prefix_def)

text \<open>
  C12. A client may re-serialize the arguments: any JSON object whose members read as the names and
  echo the values, with any white space and any spelling of its strings and containers, renders to
  the markup the model generated.
\<close>

theorem reserialized_arguments_render_alike:
  assumes "json_lib_ok J" "as_taught J schema c" "spaces before" "spaces inside" "spaces after"
    and "list_all2 (member_echoes J schema) ms (tc_parameters c)"
  shows "render_call J (tc_name c) (object_text before inside ms after) = call_markup c"
  using assms by (rule echoed_call)

definition sample_members :: "member list" where
  "sample_members =
     [\<lparr>mb_before = '' '', mb_key = CHR 0x22 # ''city'' @ [CHR 0x22], mb_colon = '' '', mb_gap = [], mb_value = CHR 0x22 # ''Par'' @ [CHR 0x5C] @ ''is'' @ [CHR 0x22], mb_after = []\<rparr>,
      \<lparr>mb_before = [], mb_key = CHR 0x22 # ''hours'' @ [CHR 0x22], mb_colon = [], mb_gap = '' '', mb_value = ''[1,2]'', mb_after = '' ''\<rparr>,
      \<lparr>mb_before = [], mb_key = CHR 0x22 # ''zip'' @ [CHR 0x22], mb_colon = [], mb_gap = [], mb_value = CHR 0x22 # ''75001'' @ [CHR 0x22], mb_after = '' ''\<rparr>]"

lemma quoted: "literal_body b \<Longrightarrow> string_literal (CHR 0x22 # b @ [CHR 0x22])"
  by (auto simp: string_literal_def)

lemma sample_members_ok: "list_all member_ok sample_members"
proof -
  have "json_value (CHR 0x22 # b @ [CHR 0x22])" if "literal_body b" for b
    using literal [OF quoted [OF that]] .
  from this [of "''Par'' @ [CHR 0x5C] @ ''is''"] this [of "''75001''"] quoted [of "''city''"] quoted [of "''hours''"] quoted [of "''zip''"]
    sample_array [of "''[1,2]''"]
  show ?thesis by (simp add: sample_members_def member_ok_def spaces_def json_space_def)
qed

lemma sample_echoes: "list_all2 (member_echoes sample_json (Some sample_schema)) sample_members (tc_parameters sample_call)"
proof -
  have "list_all2 (\<lambda>m p. jl_string sample_json (mb_key m) = Some (fst p)
     \<and> (let e = encode sample_json (snd p) (declared_type (Some sample_schema) (fst p)); v = mb_value m
        in if hd e = CHR 0x22 then hd v = CHR 0x22 \<and> jl_string sample_json v = jl_string sample_json e
      else if container_byte (hd e) then container_byte (hd v) \<and> jl_value sample_json v = jl_value sample_json e
      else v = e)) sample_members (tc_parameters sample_call)" by code_simp
  with sample_members_ok show ?thesis
    unfolding member_echoes_def echoes_def list_all_iff Let_def
    by (auto simp: list_all2_conv_all_nth member_ok_def)
qed

theorem reserialized_arguments_render_alike_witness:
  "render_call sample_json (tc_name sample_call) (object_text '' '' [] sample_members []) = call_markup sample_call"
  by (rule reserialized_arguments_render_alike [OF sample_json_ok sample_taught _ _ _ sample_echoes]) (simp_all add: spaces_def json_space_def)

end
