(* ===== verification/Conversation.thy ===== *)
theory Conversation
  imports Chat_Template Tool_Round_Trip
begin

text \<open>
  What the server's reuse of a session rests on in the chat template: the prompt of the next
  request begins with what the session has already read and generated.
\<close>

section \<open>The text of a conversation\<close>

definition spoken :: "json_lib \<Rightarrow> chat_message list \<Rightarrow> nat option \<Rightarrow> nat \<Rightarrow> string" where
  "spoken J messages last_query n = concat (map (render_message J messages last_query) [0..<n])"

lemma spoken_Suc: "spoken J ms q (Suc n) = spoken J ms q n @ render_message J ms q n"
  by (simp add: spoken_def)

lemma messages_loop:
  "n \<le> length ms \<Longrightarrow>
   fold (\<lambda>index (prompt, last_offset).
         (prompt @ render_message J ms q index, if index + 1 = length ms then Some (length prompt) else last_offset))
     [0..<n] (p, None)
   = (p @ spoken J ms q n, if 0 < n \<and> n = length ms then Some (length (p @ spoken J ms q (n - 1))) else None)"
proof (induction n)
  case (Suc n)
  moreover have "length ms - 1 = n" if "Suc n = length ms" using that by simp
  ultimately show ?case by (auto simp: spoken_Suc)
qed (simp add: spoken_def)

lemma rendered_messages:
  "qwen_chat_messages_with_last_offset J ms tools =
     (qwen_system_block J ms tools @ spoken J ms (last_query_index ms) (length ms),
      if ms = [] then None else Some (length (qwen_system_block J ms tools @ spoken J ms (last_query_index ms) (length ms - 1))))"
  unfolding qwen_chat_messages_with_last_offset_def messages_loop [OF order_refl] by simp

text \<open>The conversations \<open>render_chat_prompt\<close> accepts.\<close>

definition renderable :: "model_tokenizer \<Rightarrow> chat_message list \<Rightarrow> bool" where
  "renderable T ms \<longleftrightarrow> ensure_qwen_chat_template T = Inr () \<and> ms \<noteq> [] \<and> cm_role (last ms) \<noteq> Assistant
     \<and> list_all (\<lambda>m. cm_role m \<noteq> System) (drop 1 ms) \<and> list_ex (\<lambda>m. cm_role m = User) ms"

lemma render_accepts: "render_chat_prompt J T ms tools e = Inr p \<longleftrightarrow> renderable T ms \<and> p = qwen_chat_prompt J ms tools (tk_thinking T) e"
proof (cases "ensure_qwen_chat_template T")
  case (Inr u)
  then show ?thesis unfolding render_chat_prompt_def bindE_ensure renderable_def by (auto simp: bindE_def)
qed (simp add: render_chat_prompt_def renderable_def)

definition turn_open :: string where "turn_open = IM_START @ ''assistant'' @ newline"
definition turn_close :: string where "turn_close = IM_END @ newline"

lemma prompt_text:
  "qwen_chat_prompt J ms tools thinking e = qwen_system_block J ms tools @ spoken J ms (last_query_index ms) (length ms)
    @ turn_open @ generation_prompt thinking e"
  by (simp add: qwen_chat_prompt_def qwen_chat_messages_def rendered_messages turn_open_def)

text \<open>A turn that is not the client's query leaves the query, and so the reasoning of earlier turns, alone.\<close>

definition is_query :: "chat_message \<Rightarrow> bool" where
  "is_query m \<longleftrightarrow> cm_role m = User \<and> \<not> is_tool_response (trim (cm_content m))"

lemma last_query_alt: "last_query_index ms = find (\<lambda>i. is_query (ms ! i)) (rev [0..<length ms])"
  by (simp add: last_query_index_def is_query_def)

lemma find_cong_list: "(\<And>x. x \<in> set xs \<Longrightarrow> P x = Q x) \<Longrightarrow> find P xs = find Q xs"
  by (induction xs) auto

lemma last_query_snoc: "last_query_index (ms @ [m]) = (if is_query m then Some (length ms) else last_query_index ms)"
proof -
  have "find (\<lambda>i. is_query ((ms @ [m]) ! i)) (rev [0..<length ms]) = last_query_index ms"
    unfolding last_query_alt by (rule find_cong_list) (simp add: nth_append)
  then show ?thesis by (simp add: last_query_alt)
qed

lemma last_query_append: "list_all (\<lambda>m. \<not> is_query m) ext \<Longrightarrow> last_query_index (ms @ ext) = last_query_index ms"
proof (induction ext rule: rev_induct)
  case (snoc m ext)
  then show ?case using last_query_snoc [of "ms @ ext" m] by simp
qed simp

lemma last_query_bound: "last_query_index ms = Some i \<Longrightarrow> i < length ms"
  by (auto simp: last_query_alt find_Some_iff rev_nth)

lemma render_message_append:
  assumes "i < length ms" and "ext = [] \<or> cm_role (hd ext) \<noteq> Tool"
  shows "render_message J (ms @ ext) q i = render_message J ms q i"
proof -
  have "is_tool_at (ms @ ext) (i + 1) = is_tool_at ms (i + 1)"
  proof (cases "i + 1 < length ms")
    case False
    with assms show ?thesis by (cases ext) (auto simp: is_tool_at_def nth_append not_less le_Suc_eq)
  qed (auto simp: is_tool_at_def nth_append)
  moreover have "is_tool_at (ms @ ext) (i - 1) = is_tool_at ms (i - 1)"
    using assms(1) by (auto simp: is_tool_at_def nth_append)
  ultimately show ?thesis using assms(1) by (simp add: render_message_def nth_append Let_def)
qed

lemma spoken_append:
  "n \<le> length ms \<Longrightarrow> ext = [] \<or> cm_role (hd ext) \<noteq> Tool \<Longrightarrow> spoken J (ms @ ext) q n = spoken J ms q n"
  unfolding spoken_def by (intro arg_cong [of _ _ concat] map_cong refl render_message_append) auto

lemma system_block_append: "ms \<noteq> [] \<Longrightarrow> qwen_system_block J (ms @ ext) tools = qwen_system_block J ms tools"
  by (cases ms) (simp_all add: qwen_system_block_def)

lemma spoken_prefix: "n \<le> m \<Longrightarrow> \<exists>rest. spoken J ms q m = spoken J ms q n @ rest"
proof (induction m)
  case (Suc m)
  then show ?case by (cases "n = Suc m") (auto simp: spoken_Suc le_Suc_eq)
qed simp

section \<open>The reasoning of a turn\<close>

lemma newline_white: "newline \<in> set white_space"
  by (simp add: white_space_def)

lemma newline_ends_no_start: "list_all (\<lambda>w. CHR 0x0A \<notin> set (butlast w)) white_space"
  by code_simp

text \<open>A trimmed text neither begins nor ends with a character that is trimmed.\<close>

lemma length_trim_start: "length (trim_start_matches ws s) \<le> length s"
proof (induction "length s" arbitrary: s rule: less_induct)
  case less
  show ?case
  proof (cases "find (\<lambda>w. w \<noteq> [] \<and> prefix w s) ws")
    case (Some w)
    then have w: "w \<noteq> []" "prefix w s" by (auto dest: find_SomeD)
    then have "length (drop (length w) s) < length s" by (auto simp: prefix_def)
    from less [OF this] this Some show ?thesis by (subst trim_start_matches.simps) simp
  qed (subst trim_start_matches.simps, simp)
qed

lemma length_trim_end: "length (trim_end_matches ws s) \<le> length s"
proof (induction "length s" arbitrary: s rule: less_induct)
  case less
  show ?case
  proof (cases "find (\<lambda>w. w \<noteq> [] \<and> suffix w s) ws")
    case (Some w)
    then have w: "w \<noteq> []" "suffix w s" by (auto dest: find_SomeD)
    then have "length (take (length s - length w) s) < length s" by (auto simp: suffix_def)
    from less [OF this] this Some show ?thesis by (subst trim_end_matches.simps) simp
  qed (subst trim_end_matches.simps, simp)
qed

lemma trim_start_fixed:
  assumes "trim_start_matches ws s = s" "w \<in> set ws" "w \<noteq> []"
  shows "\<not> prefix w s"
proof
  assume "prefix w s"
  with assms(2,3) obtain v where v: "find (\<lambda>w. w \<noteq> [] \<and> prefix w s) ws = Some v"
    by (cases "find (\<lambda>w. w \<noteq> [] \<and> prefix w s) ws") (auto simp: find_None_iff)
  then have "v \<noteq> []" "prefix v s" by (auto dest: find_SomeD)
  moreover have "s = trim_start_matches ws (drop (length v) s)"
    using assms(1) v by (subst (asm) trim_start_matches.simps) simp
  then have "length s \<le> length (drop (length v) s)" by (metis length_trim_start)
  ultimately show False using prefix_length_le [of v s] by (cases v) auto
qed

lemma trim_end_fixed:
  assumes "trim_end_matches ws s = s" "w \<in> set ws" "w \<noteq> []"
  shows "\<not> suffix w s"
proof
  assume "suffix w s"
  with assms(2,3) obtain v where v: "find (\<lambda>w. w \<noteq> [] \<and> suffix w s) ws = Some v"
    by (cases "find (\<lambda>w. w \<noteq> [] \<and> suffix w s) ws") (auto simp: find_None_iff)
  then have "v \<noteq> []" "suffix v s" by (auto dest: find_SomeD)
  moreover have "s = trim_end_matches ws (take (length s - length v) s)"
    using assms(1) v by (subst (asm) trim_end_matches.simps) simp
  then have "length s \<le> length (take (length s - length v) s)" by (metis length_trim_end)
  ultimately show False using suffix_length_le [of v s] by (cases v) auto
qed

lemma trimmed:
  assumes "trim s = s"
  shows "trim_start_matches white_space s = s" "trim_end_matches white_space s = s"
proof -
  have "length s \<le> length (trim_start_matches white_space s)"
    using assms length_trim_end [of white_space "trim_start_matches white_space s"] by (simp add: trim_def)
  moreover have "suffix (trim_start_matches white_space s) s"
  proof (induction "length s" arbitrary: s rule: less_induct)
    case less
    show ?case
    proof (cases "find (\<lambda>w. w \<noteq> [] \<and> prefix w s) white_space")
      case (Some w)
      then have "w \<noteq> []" "prefix w s" by (auto dest: find_SomeD)
      then have "length (drop (length w) s) < length s" by (auto simp: prefix_def)
      from less [OF this] have "suffix (trim_start_matches white_space (drop (length w) s)) s"
        using suffix_order.trans suffix_drop by blast
      with Some show ?thesis by (subst trim_start_matches.simps) simp
    qed (subst trim_start_matches.simps, simp)
  qed
  ultimately show start: "trim_start_matches white_space s = s"
    by (metis suffix_length_le le_antisym suffix_order.antisym_conv2 suffix_length_less less_irrefl)
  from assms show "trim_end_matches white_space s = s" by (simp add: trim_def start)
qed

lemma trim_newlines_start: "s = [] \<or> hd s \<noteq> CHR 0x0A \<Longrightarrow> trim_start_matches [newline] s = s"
  by (subst trim_start_matches.simps) (cases s; auto simp: prefix_def)

lemma trim_newline_start: "trim_start_matches [newline] (CHR 0x0A # s) = trim_start_matches [newline] s"
  by (subst trim_start_matches.simps) simp

lemma trim_newlines_end: "s = [] \<or> last s \<noteq> CHR 0x0A \<Longrightarrow> trim_end_matches [newline] s = s"
  by (subst trim_end_matches.simps) (auto simp: suffix_def)

lemma trim_newline_end: "trim_end_matches [newline] (s @ newline) = trim_end_matches [newline] s"
  by (subst trim_end_matches.simps) (simp add: suffix_def)

lemma trimmed_newlines:
  assumes "trim s = s" "s \<noteq> []"
  shows "hd s \<noteq> CHR 0x0A" "last s \<noteq> CHR 0x0A"
proof -
  have "\<not> prefix newline s" by (rule trim_start_fixed [OF trimmed(1) [OF assms(1)] newline_white]) simp
  then show "hd s \<noteq> CHR 0x0A" using assms(2) by (cases s) (auto simp: prefix_def)
  have "\<not> suffix newline s" by (rule trim_end_fixed [OF trimmed(2) [OF assms(1)] newline_white]) simp
  then show "last s \<noteq> CHR 0x0A" using assms(2) by (metis append_butlast_last_id suffixI)
qed

text \<open>White space does not span a newline, so a line is trimmed at its end like the text it ends.\<close>

lemma trim_end_line:
  assumes "trim s = s" "s \<noteq> []"
  shows "trim_end_matches white_space (x @ newline @ s) = x @ newline @ s"
proof -
  have "\<not> (w \<noteq> [] \<and> suffix w (x @ newline @ s))" if w: "w \<in> set white_space" for w
  proof
    assume a: "w \<noteq> [] \<and> suffix w (x @ newline @ s)"
    have "\<not> suffix w s" using trim_end_fixed [OF trimmed(2) [OF assms(1)] w] a by blast
    moreover have "suffix s w \<or> suffix w s"
      using a suffix_same_cases [of w "x @ newline @ s" s] by (auto simp: suffix_def)
    ultimately obtain t where t: "w = t @ s" "t \<noteq> []" by (auto simp: suffix_def)
    obtain y where "x @ newline @ s = y @ t @ s" using a t(1) by (auto simp: suffix_def)
    then have "x @ newline = y @ t" by (metis append_assoc append_same_eq)
    then have "last t = CHR 0x0A" using t(2) by (metis last_appendR last_snoc)
    then have "CHR 0x0A \<in> set t" using t(2) last_in_set by metis
    then have "CHR 0x0A \<in> set (butlast w)" using t(1) assms(2) by (simp add: butlast_append)
    with newline_ends_no_start w show False by (simp add: list_all_iff)
  qed
  then have "find (\<lambda>w. w \<noteq> [] \<and> suffix w (x @ newline @ s)) white_space = None" unfolding find_None_iff by blast
  then show ?thesis by (subst trim_end_matches.simps) simp
qed

definition THINK :: string where "THINK = ''<think>''"

text \<open>What the model may have thought and said: trimmed text without the markers.\<close>

definition plain :: "string list \<Rightarrow> string \<Rightarrow> bool" where
  "plain marks s \<longleftrightarrow> trim s = s \<and> list_all (\<lambda>m. str_find s m = None) marks"

definition gap :: "string \<Rightarrow> string" where
  "gap s = (if s = [] then [] else newline @ newline)"

text \<open>The turn as the model continues the opened block, and as the client sees it.\<close>

definition generated :: "string \<Rightarrow> string \<Rightarrow> string" where
  "generated thought answer = thought @ newline @ THINK_END @ newline @ newline @ answer @ gap answer"

definition shown :: "string \<Rightarrow> string \<Rightarrow> string" where
  "shown thought answer = THINK @ newline @ generated thought answer"

lemma rfind_none: "str_find s pat = None \<Longrightarrow> str_rfind s pat = None"
  by (induction s) (auto split: if_splits)

lemma rfind_last: "pat \<noteq> [] \<Longrightarrow> str_find (tl pat @ b) pat = None \<Longrightarrow> str_rfind (a @ pat @ b) pat = Some (length a)"
proof (induction a)
  case Nil
  then have "str_rfind (tl pat @ b) pat = None" by (intro rfind_none)
  with Nil show ?case by (cases pat) simp_all
qed simp

lemma trim_shown:
  assumes "trim answer = answer"
  shows "trim (shown thought answer) = THINK @ newline @ thought @ newline @ THINK_END @ (if answer = [] then [] else newline @ newline @ answer)"
proof -
  have not_lt: "list_all (\<lambda>w. hd w \<noteq> CHR ''<'' \<and> last w \<noteq> CHR ''>'') white_space" by code_simp
  have "hd (shown thought answer) = CHR ''<''" by (simp add: shown_def THINK_def)
  with not_lt have start: "trim_start_matches white_space (shown thought answer) = shown thought answer"
    by (intro trim_start_stops) (auto simp: shown_def THINK_def list_all_iff)
  let ?x = "THINK @ newline @ thought @ newline @ THINK_END"
  have spaces: "spaces (newline @ newline)" by (simp add: spaces_def json_space_def)
  show ?thesis
  proof (cases "answer = []")
    case True
    have "trim_end_matches white_space (?x @ newline @ newline) = trim_end_matches white_space ?x"
      by (rule trim_end_spaces [OF spaces])
    also have "\<dots> = ?x" using not_lt by (intro trim_end_stops) (auto simp: THINK_END_def list_all_iff)
    finally show ?thesis using True unfolding trim_def start by (simp add: shown_def generated_def gap_def)
  next
    case False
    have "trim_end_matches white_space ((?x @ newline @ newline @ answer) @ newline @ newline)
        = trim_end_matches white_space (?x @ newline @ newline @ answer)" by (rule trim_end_spaces [OF spaces])
    also have "\<dots> = ?x @ newline @ newline @ answer" using trim_end_line [OF assms False, of "?x @ newline"] by simp
    finally show ?thesis using False unfolding trim_def start by (simp add: shown_def generated_def gap_def)
  qed
qed

lemma think_end_facts: "CHR 0x0A \<notin> set THINK_END" "THINK_END \<noteq> []" "hd THINK_END \<notin> set (tl THINK_END)"
  "str_find THINK THINK_END = None" "str_find [] THINK_END = None" "str_find (tl THINK_END) THINK_END = None"
  by (simp_all add: THINK_END_def THINK_def prefix_def)

lemma think_facts: "CHR 0x0A \<notin> set THINK" "THINK \<noteq> []" "str_find [] THINK = None" "str_find (tl THINK) THINK = None"
  by (simp_all add: THINK_def prefix_def)

lemma split_shown:
  assumes "cm_content m = shown thought answer" "cm_reasoning m = None"
    and "plain [THINK, THINK_END] thought" "plain [THINK_END] answer"
  shows "split_reasoning m = (thought, answer)"
proof -
  let ?before = "THINK @ newline @ thought @ newline"
  let ?after = "if answer = [] then [] else newline @ newline @ answer"
  have thought: "trim thought = thought" "str_find thought THINK = None" "str_find thought THINK_END = None"
    and answer: "trim answer = answer" "str_find answer THINK_END = None"
    using assms(3,4) by (simp_all add: plain_def)
  have content: "trim (cm_content m) = ?before @ THINK_END @ ?after"
    using trim_shown [OF answer(1)] assms(1) by simp
  note across = find_across [OF think_end_facts(1,2)]
  have "str_find ?before THINK_END = None"
    using across [OF think_end_facts(4) across [OF thought(3) think_end_facts(5)]] by simp
  then have first: "str_find (?before @ THINK_END @ ?after) THINK_END = Some (length ?before)"
    by (rule find_at [OF _ think_end_facts(2,3)])
  have "str_find (tl THINK_END @ ?after) THINK_END = None"
    using across [OF think_end_facts(6) across [OF think_end_facts(5) answer(2)]] think_end_facts(6) by simp
  then have final: "str_rfind (?before @ THINK_END @ ?after) THINK_END = Some (length ?before)"
    by (rule rfind_last [OF think_end_facts(2)])
  have "str_find (tl THINK @ (if thought = [] then [] else newline @ thought)) THINK = None"
    using find_across [OF think_facts(1,2,4) thought(2)] think_facts(4) by simp
  from rfind_last [OF think_facts(2) this, of "[]"]
  have inner: "rsplit_once (THINK @ (if thought = [] then [] else newline @ thought)) THINK
      = Some ([], if thought = [] then [] else newline @ thought)" by (simp add: rsplit_once_def)
  have head: "trim_end_matches [newline] ?before = THINK @ (if thought = [] then [] else newline @ thought)"
  proof (cases "thought = []")
    case True
    have "trim_end_matches [newline] THINK = THINK" by (rule trim_newlines_end) (simp add: THINK_def)
    with True show ?thesis using trim_newline_end [of "THINK @ newline"] trim_newline_end [of THINK] by simp
  next
    case False
    then have "trim_end_matches [newline] (THINK @ newline @ thought) = THINK @ newline @ thought"
      using trimmed_newlines(2) [OF thought(1)] by (intro trim_newlines_end) simp
    with False show ?thesis using trim_newline_end [of "THINK @ newline @ thought"] by simp
  qed
  have thought_out: "trim_start_matches [newline] (if thought = [] then [] else newline @ thought) = thought"
    using trimmed_newlines(1) [OF thought(1)] by (simp add: trim_newline_start trim_newlines_start)
  have answer_out: "trim_start_matches [newline] ?after = answer"
    using trimmed_newlines(1) [OF answer(1)] by (simp add: trim_newline_start trim_newlines_start)
  have a: "take (length ?before) (?before @ THINK_END @ ?after) = ?before" by simp
  have b: "drop (length ?before + length THINK_END) (?before @ THINK_END @ ?after) = ?after" by simp
  show ?thesis
    unfolding split_reasoning_def Let_def content assms(2) option.case first final a b head THINK_def [symmetric] inner prod.case
      thought_out answer_out ..
qed

section \<open>Continuing a conversation\<close>

text \<open>The turn a client plays back: the text it saw and the call it was sent.\<close>

definition played_back :: "json_lib \<Rightarrow> json option \<Rightarrow> string \<Rightarrow> string \<Rightarrow> tool_call \<Rightarrow> chat_message" where
  "played_back J schema thought answer c =
     \<lparr>cm_role = Assistant, cm_content = shown thought answer,
      cm_tool_calls = [\<lparr>ct_name = tc_name c, ct_arguments = arguments_json J schema c\<rparr>], cm_reasoning = None\<rparr>"

lemma plain_fewer: "plain marks s \<Longrightarrow> set marks' \<subseteq> set marks \<Longrightarrow> plain marks' s"
  by (auto simp: plain_def list_all_iff)

lemma render_played_back:
  assumes "json_lib_ok J" "as_taught J schema c" "plain [THINK, THINK_END] thought" "plain [THINK_END] answer"
  shows "render_assistant J True (played_back J schema thought answer c)
    = turn_open @ THINK @ newline @ generated thought answer @ call_markup c @ turn_close"
proof -
  let ?m = "played_back J schema thought answer c"
  have split: "split_reasoning ?m = (thought, answer)"
    by (rule split_shown [OF _ _ assms(3,4)]) (simp_all add: played_back_def)
  have call: "render_call J (tc_name c) (arguments_json J schema c) = call_markup c"
    using echoed_call [OF assms(1,2) _ _ _ own_echoes [OF assms(1)], of "[]" "[]" "[]"] by (simp add: own_arguments spaces_def)
  have calls: "render_calls J answer (cm_tool_calls ?m) = gap answer @ call_markup c"
    by (simp add: played_back_def render_calls_def call gap_def)
  have "trim thought = thought" using assms(3) by (simp add: plain_def)
  then show ?thesis
    unfolding render_assistant_def split prod.case Let_def calls
    by (simp add: turn_open_def turn_close_def THINK_def generated_def)
qed

lemma conversation_extends:
  assumes "renderable T ms" "list_all (\<lambda>m. \<not> is_query m \<and> cm_role m \<noteq> System) (turn # results)"
    and "cm_role turn = Assistant" "cm_role (last (turn # results)) \<noteq> Assistant" "last_query_index ms \<noteq> None"
  shows "renderable T (ms @ turn # results)"
    and "\<exists>rest. qwen_chat_prompt J (ms @ turn # results) tools thinking e
      = qwen_system_block J ms tools @ spoken J ms (last_query_index ms) (length ms) @ render_assistant J True turn @ rest"
proof -
  let ?all = "ms @ turn # results" and ?q = "last_query_index ms"
  have ms: "ms \<noteq> []" using assms(1) by (simp add: renderable_def)
  then have later: "drop 1 ?all = drop 1 ms @ turn # results" by (cases ms) simp_all
  show "renderable T ?all"
    using assms(1,2,4) later unfolding renderable_def by (simp add: list_all_iff) blast
  have query: "last_query_index ?all = ?q" by (rule last_query_append) (use assms(2) in \<open>auto simp: list_all_iff\<close>)
  obtain i where i: "?q = Some i" "i < length ms" using assms(5) last_query_bound by auto
  have "length ?all = Suc (length ms) + length results" by simp
  then obtain rest where rest: "spoken J ?all ?q (length ?all) = spoken J ?all ?q (Suc (length ms)) @ rest"
    using spoken_prefix [of "Suc (length ms)" "length ?all" J ?all ?q] by auto
  have "spoken J ?all ?q (length ms) = spoken J ms ?q (length ms)" by (rule spoken_append) (simp_all add: assms(3))
  moreover have "render_message J ?all ?q (length ms) = render_assistant J True turn"
    using assms(3) i by (simp add: render_message_def Let_def)
  ultimately have "spoken J ?all ?q (Suc (length ms)) = spoken J ms ?q (length ms) @ render_assistant J True turn"
    by (simp add: spoken_Suc)
  with rest show "\<exists>rest. qwen_chat_prompt J ?all tools thinking e
      = qwen_system_block J ms tools @ spoken J ms ?q (length ms) @ render_assistant J True turn @ rest"
    unfolding prompt_text query system_block_append [OF ms] by (intro exI) simp
qed

text \<open>A turn that is played back and followed by tool results extends the prompt it answered.\<close>

lemma tool_exchange_extends_the_prompt:
  assumes "json_lib_ok J" "markup_ok c" "as_taught J schema c"
    and "plain [THINK, THINK_END, CALL_OPEN] thought" "plain [THINK_END, CALL_OPEN] answer"
    and "render_chat_prompt J T messages tools True = Inr prompt" "tk_thinking T" "last_query_index messages \<noteq> None"
    and "results \<noteq> []" "list_all (\<lambda>m. cm_role m = Tool) results"
  shows "snd (parse (generated thought answer @ call_markup c)) = [c]
    \<and> (\<exists>rest. render_chat_prompt J T (messages @ played_back J schema thought answer c # results) tools True
         = Inr (prompt @ generated thought answer @ call_markup c @ IM_END @ newline @ rest))"
proof (intro conjI)
  have none: "str_find [] CALL_OPEN = None" "str_find THINK_END CALL_OPEN = None" "str_find thought CALL_OPEN = None" "str_find answer CALL_OPEN = None"
    using assms(4,5) by (simp_all add: plain_def markers THINK_END_def prefix_def)
  note across = find_across [of "CHR 0x0A" CALL_OPEN]
  have mark: "CHR 0x0A \<notin> set CALL_OPEN" "CALL_OPEN \<noteq> []" by (simp_all add: CALL_OPEN_def)
  have "str_find (answer @ gap answer) CALL_OPEN = None"
    using across [OF mark none(4) across [OF mark none(1,1)]] none(4) mark(2) by (simp add: gap_def)
  from across [OF mark none(3) across [OF mark none(2) across [OF mark none(1) this]]]
  have "str_find (generated thought answer) CALL_OPEN = None" by (simp add: generated_def)
  then show "snd (parse (generated thought answer @ call_markup c)) = [c]" by (simp add: parse_markup [OF assms(2)])
next
  let ?turn = "played_back J schema thought answer c"
  have ok: "renderable T messages" and prompt: "prompt = qwen_chat_prompt J messages tools True True"
    using assms(6,7) by (simp_all add: render_accepts)
  have ext: "list_all (\<lambda>m. \<not> is_query m \<and> cm_role m \<noteq> System) (?turn # results)" "cm_role (last (?turn # results)) \<noteq> Assistant"
    using assms(9,10) last_in_set [OF assms(9)] by (auto simp: list_all_iff is_query_def played_back_def)
  have role: "cm_role ?turn = Assistant" by (simp add: played_back_def)
  obtain rest where "qwen_chat_prompt J (messages @ ?turn # results) tools True True
      = qwen_system_block J messages tools @ spoken J messages (last_query_index messages) (length messages) @ render_assistant J True ?turn @ rest"
    using conversation_extends(2) [OF ok ext(1) role ext(2) assms(8)] by blast
  also have "render_assistant J True ?turn = turn_open @ THINK @ newline @ generated thought answer @ call_markup c @ turn_close"
    by (rule render_played_back [OF assms(1,3) plain_fewer [OF assms(4)] plain_fewer [OF assms(5)]]) simp_all
  finally have "qwen_chat_prompt J (messages @ ?turn # results) tools True True = prompt @ generated thought answer @ call_markup c @ IM_END @ newline @ rest"
    by (simp add: prompt prompt_text generation_prompt_def THINK_def turn_close_def)
  with conversation_extends(1) [OF ok ext(1) role ext(2) assms(8)] assms(7)
  show "\<exists>rest. render_chat_prompt J T (messages @ ?turn # results) tools True
         = Inr (prompt @ generated thought answer @ call_markup c @ IM_END @ newline @ rest)"
    by (auto simp: render_accepts)
qed

definition sample_tokenizer :: model_tokenizer where
  "sample_tokenizer = from_config
     (Some (JObject [(''chat_template'', JString ''<|im_start|> <|im_end|> enable_thinking <think>''), (''eos_token'', JString ''<|im_end|>'')]))
     (\<lambda>t. if t = ''<|im_end|>'' then Some 7 else None)"

definition said :: "chat_role \<Rightarrow> string \<Rightarrow> chat_message" where
  "said role content = \<lparr>cm_role = role, cm_content = content, cm_tool_calls = [], cm_reasoning = None\<rparr>"

definition sample_chat :: "chat_message list" where
  "sample_chat = [said System ''Be brief.'', said User ''Weather in Paris?'']"

section \<open>The part of a conversation that is asked for again\<close>

lemma history_text:
  assumes "render_chat_history_prefix J T (before @ [m]) tools = Inr (Some h)"
  shows "h = qwen_system_block J (before @ [m]) tools @ spoken J (before @ [m]) (last_query_index (before @ [m])) (length before)"
    and "h \<noteq> []" "before \<noteq> []"
  using assms
  by (auto simp: render_chat_history_prefix_def rendered_messages spoken_Suc bindE_Inr_iff split: if_splits)

lemma message_ends:
  assumes "i < length ms" "cm_role (ms ! i) \<noteq> System" "\<not> is_tool_at ms (i + 1)"
  shows "suffix turn_close (render_message J ms q i)"
proof -
  have "suffix turn_close (a @ IM_END @ newline)" for a by (simp add: turn_close_def suffix_def)
  then show ?thesis using assms
    by (cases "cm_role (ms ! i)")
      (auto simp: render_message_def render_assistant_def Let_def turn_close_def suffix_def split: prod.split)
qed

lemma system_block_ends: "qwen_system_block J ms tools = [] \<or> suffix turn_close (qwen_system_block J ms tools)"
  by (auto simp: qwen_system_block_def turn_close_def suffix_def Let_def split: option.split)

text \<open>
  C29. The history prefix does not depend on what the last query says: it begins the prompt of any
  request that asks something else after the same messages, and it ends with the marker that
  closes a turn, so it is cut where the tokenizer cuts.
\<close>

theorem history_prefix_is_shared:
  assumes "render_chat_history_prefix J T (before @ [m]) tools = Inr (Some h)" "is_query m"
    and "render_chat_prompt J T (before @ [m']) tools e = Inr p" "is_query m'"
  shows "prefix h p \<and> suffix (IM_END @ newline) h"
proof
  note h = history_text [OF assms(1)]
  have role: "cm_role m = User" "cm_role m' = User" using assms(2,4) by (simp_all add: is_query_def)
  let ?q = "Some (length before)"
  have q: "last_query_index (before @ [m]) = ?q" "last_query_index (before @ [m']) = ?q"
    using assms(2,4) by (simp_all add: last_query_snoc)
  have same: "spoken J (before @ [x]) ?q (length before) = spoken J before ?q (length before)"
    "qwen_system_block J (before @ [x]) tools = qwen_system_block J before tools" if "cm_role x = User" for x
    using h(3) that by (simp_all add: spoken_append system_block_append)
  from h(1) have shape: "h = qwen_system_block J before tools @ spoken J before ?q (length before)"
    by (simp add: q same role)
  have "p = qwen_chat_prompt J (before @ [m']) tools (tk_thinking T) e" using assms(3) by (simp add: render_accepts)
  then show "prefix h p" by (simp add: prompt_text q spoken_Suc same role shape)
  obtain n where n: "length before = Suc n" using h(3) by (cases before) auto
  have "suffix turn_close h"
  proof (cases "cm_role (before ! n) = System")
    case True
    have "list_all (\<lambda>m. cm_role m \<noteq> System) (drop 1 (before @ [m']))" using assms(3) by (simp add: render_accepts renderable_def)
    with True n have "n = 0" by (cases n) (auto simp: list_all_length nth_append dest!: spec [of _ "n - 1"])
    with True n have "spoken J before ?q (length before) = []" by (simp add: spoken_def render_message_def)
    with shape h(2) system_block_ends [of J before tools] show ?thesis by simp
  next
    case False
    have "suffix turn_close (render_message J before ?q n)"
      by (rule message_ends) (use n False in \<open>simp_all add: is_tool_at_def\<close>)
    with shape n show ?thesis by (auto simp: spoken_Suc suffix_def)
  qed
  then show "suffix (IM_END @ newline) h" by (simp only: turn_close_def)
qed

theorem history_prefix_is_shared_witness:
  "prefix (IM_START @ ''system'' @ newline @ ''Be brief.'' @ IM_END @ newline)
      (qwen_chat_prompt sample_json [said System ''Be brief.'', said User ''Hello''] [] True True)
    \<and> suffix (IM_END @ newline) (IM_START @ ''system'' @ newline @ ''Be brief.'' @ IM_END @ newline)"
proof (rule history_prefix_is_shared)
  show "render_chat_history_prefix sample_json sample_tokenizer ([said System ''Be brief.''] @ [said User ''Weather in Paris?'']) []
    = Inr (Some (IM_START @ ''system'' @ newline @ ''Be brief.'' @ IM_END @ newline))" by code_simp
  show "is_query (said User ''Weather in Paris?'')" by code_simp
  show "render_chat_prompt sample_json sample_tokenizer ([said System ''Be brief.''] @ [said User ''Hello'']) [] True
    = Inr (qwen_chat_prompt sample_json [said System ''Be brief.'', said User ''Hello''] [] True True)" by code_simp
  show "is_query (said User ''Hello'')" by code_simp
qed

text \<open>When the last message is one of several tool results, the prefix ends inside the run of results.\<close>

lemma history_prefix_inside_a_run:
  "case render_chat_history_prefix sample_json sample_tokenizer [said User ''Hello'', said Tool ''1'', said Tool ''2''] [] of
     Inr (Some h) \<Rightarrow> \<not> suffix (IM_END @ newline) h | _ \<Rightarrow> False"
  by code_simp

end
