(* ===== verification/Serving.thy ===== *)
theory Serving
  imports Chat_Response Conversation Turns
begin

text \<open>
  What the chat route promises across its parts: the options of an admitted job are within bounds,
  and a client that plays a response back continues the session that produced it.
\<close>

section \<open>Admitted jobs\<close>

lemma override_cases:
  assumes "override field valid e set_field opts = Inr opts'"
  obtains "opts' = opts" | v where "valid v" "opts' = set_field v opts"
  using assms by (auto simp: override_def bindE_ensure split: option.splits if_splits)

definition sampling_ok :: "'f fops \<Rightarrow> 'f sampling_config \<Rightarrow> bool" where
  "sampling_ok F s \<longleftrightarrow> f_le F (f_zero F) (sc_temperature s) \<and> f_finite F (sc_temperature s)
     \<and> (case sc_top_p s of None \<Rightarrow> True | Some p \<Rightarrow> f_lt F (f_zero F) p \<and> f_le F p (f_one F))
     \<and> (case sc_min_p s of None \<Rightarrow> True | Some p \<Rightarrow> f_le F (f_zero F) p \<and> f_le F p (f_one F))
     \<and> (case sc_top_k s of None \<Rightarrow> True | Some k \<Rightarrow> 0 < k)"

lemma sampler_accepts: "(\<exists>s. sampler_new F seed_rng config = Inr s) \<longleftrightarrow> sampling_ok F config"
  by (auto simp: sampler_new_def sampling_ok_def bindE_ensure split: option.splits if_splits)

text \<open>What each step of the merge keeps.\<close>

definition options_ok :: "'f fops \<Rightarrow> 'f generation_options \<Rightarrow> bool" where
  "options_ok F opts \<longleftrightarrow> 0 < go_max_new_tokens opts \<and> sampling_ok F (go_sampling opts)"

lemma override_keeps:
  assumes "override field valid e set_field opts = Inr opts'" "P opts" "\<And>v. valid v \<Longrightarrow> P opts \<Longrightarrow> P (set_field v opts)"
  shows "P opts'"
  using assms(1) by (rule override_cases) (auto simp: assms)

lemma resolved_options:
  assumes "resolve_options F defaults r thinking = Inr opts" "options_ok F defaults"
  shows "options_ok F opts" "go_max_new_tokens opts \<le> MAX_OUTPUT_TOKENS"
    and "go_thinking_budget opts = (if pl_open thinking then pl_budget thinking else None)"
    and "\<not> (f_lt F (f_zero F) (sc_temperature (go_sampling opts)) \<and> is_speculative (requested_mode opts))"
proof -
  let ?P = "\<lambda>x. options_ok F x \<and> go_max_new_tokens x \<le> MAX_OUTPUT_TOKENS"
  from assms(1) obtain o1 o2 o3 o4 o5 where
    o1: "override (request_max_new_tokens r) (\<lambda>n. 0 < n) ZeroMaxTokens (\<lambda>n opts. opts\<lparr>go_max_new_tokens := n\<rparr>) defaults = Inr o1"
    and o2: "override (rq_temperature r) (\<lambda>t. f_finite F t \<and> f_le F (f_zero F) t) (OptionOutOfRange ''temperature'')
       (\<lambda>t. in_sampling (\<lambda>s. s\<lparr>sc_temperature := t\<rparr>)) (o1\<lparr>go_max_new_tokens := min (go_max_new_tokens o1) MAX_OUTPUT_TOKENS\<rparr>) = Inr o2"
    and o3: "override (rq_top_p r) (\<lambda>p. f_lt F (f_zero F) p \<and> f_le F p (f_one F)) (OptionOutOfRange ''top_p'')
       (\<lambda>p. in_sampling (\<lambda>s. s\<lparr>sc_top_p := then_some (f_lt F p (f_one F)) p\<rparr>)) o2 = Inr o3"
    and o4: "override (rq_top_k r) (\<lambda>k. 0 < k) (OptionOutOfRange ''top_k'') (\<lambda>k. in_sampling (\<lambda>s. s\<lparr>sc_top_k := Some k\<rparr>)) o3 = Inr o4"
    and o5: "override (rq_min_p r) (\<lambda>p. f_le F (f_zero F) p \<and> f_le F p (f_one F)) (OptionOutOfRange ''min_p'')
       (\<lambda>p. in_sampling (\<lambda>s. s\<lparr>sc_min_p := then_some (f_lt F (f_zero F) p) p\<rparr>)) o4 = Inr o5"
    and final: "opts = disable_speculation_for_sampling F
       ((case rq_seed r of None \<Rightarrow> o5 | Some seed \<Rightarrow> in_sampling (\<lambda>s. s\<lparr>sc_seed := seed\<rparr>) o5)
          \<lparr>go_thinking_budget := (if pl_open thinking then pl_budget thinking else None)\<rparr>)"
    by (auto simp: resolve_options_def bindE_Inr_iff Let_def)
  have "options_ok F o1" by (rule override_keeps [OF o1]) (use assms(2) in \<open>auto simp: options_ok_def\<close>)
  then have "?P (o1\<lparr>go_max_new_tokens := min (go_max_new_tokens o1) MAX_OUTPUT_TOKENS\<rparr>)"
    by (simp add: options_ok_def MAX_OUTPUT_TOKENS_def)
  then have "?P o2" by (rule override_keeps [OF o2, of ?P]) (auto simp: options_ok_def in_sampling_def sampling_ok_def)
  then have "?P o3" by (rule override_keeps [OF o3, of ?P]) (auto simp: options_ok_def in_sampling_def sampling_ok_def then_some_def)
  then have "?P o4" by (rule override_keeps [OF o4, of ?P]) (auto simp: options_ok_def in_sampling_def sampling_ok_def)
  then have "?P o5" by (rule override_keeps [OF o5, of ?P]) (auto simp: options_ok_def in_sampling_def sampling_ok_def then_some_def)
  then have "?P opts" unfolding final
    by (auto simp: disable_speculation_for_sampling_def options_ok_def in_sampling_def sampling_ok_def split: option.splits)
  then show "options_ok F opts" "go_max_new_tokens opts \<le> MAX_OUTPUT_TOKENS" by simp_all
  show "go_thinking_budget opts = (if pl_open thinking then pl_budget thinking else None)"
    unfolding final by (simp add: disable_speculation_for_sampling_def)
  have "\<not> is_speculative (effective_speculative_mode ModeOff 0 0)" by code_simp
  then show "\<not> (f_lt F (f_zero F) (sc_temperature (go_sampling opts)) \<and> is_speculative (requested_mode opts))"
    unfolding final disable_speculation_for_sampling_def by (auto simp: requested_mode_def)
qed

text \<open>
  The budget a request asks for (\<open>docs/openai-server.md\<close>): its own number, else that of its effort, else
  the operator's default. What it gets is that, at least one and at most the ceiling; the ceiling
  itself where nothing is asked for.
\<close>

definition asked_budget :: "'f chat_request \<Rightarrow> thinking_policy \<Rightarrow> nat option" where
  "asked_budget r policy = (case rq_thinking_budget r of
     Some b \<Rightarrow> Some b
   | None \<Rightarrow> (case request_effort r of
       Some effort \<Rightarrow> (case map_of (tp_effort_budgets policy) effort of Some b \<Rightarrow> Some b | None \<Rightarrow> tp_default_budget policy)
     | None \<Rightarrow> tp_default_budget policy))"

definition granted_budget :: "'f chat_request \<Rightarrow> thinking_policy \<Rightarrow> nat option" where
  "granted_budget r policy = (case asked_budget r policy of
     Some b \<Rightarrow> Some (case tp_max_budget policy of None \<Rightarrow> max 1 b | Some ceiling \<Rightarrow> max 1 (min b ceiling))
   | None \<Rightarrow> tp_max_budget policy)"

lemma planned_budget:
  assumes "validate_policy policy = Inr ()"
  shows "pl_budget (plan r policy thinking) = (if pl_open (plan r policy thinking) then granted_budget r policy else None)"
    and "granted_budget r policy = Some b \<Longrightarrow> 1 \<le> b \<and> (\<forall>ceiling. tp_max_budget policy = Some ceiling \<longrightarrow> b \<le> ceiling)"
proof -
  have ceiling: "tp_max_budget policy \<noteq> Some 0" using assms by (auto simp: validate_policy_def bindE_Inr_iff)
  then have "map_option (\<lambda>b. max b (Suc 0)) (tp_max_budget policy) = tp_max_budget policy"
    by (cases "tp_max_budget policy") auto
  with ceiling show "pl_budget (plan r policy thinking) = (if pl_open (plan r policy thinking) then granted_budget r policy else None)"
    by (auto simp: plan_def granted_budget_def asked_budget_def or_else_def Let_def max.commute split: option.splits)
  show "granted_budget r policy = Some b \<Longrightarrow> 1 \<le> b \<and> (\<forall>ceiling. tp_max_budget policy = Some ceiling \<longrightarrow> b \<le> ceiling)"
    using ceiling by (auto simp: granted_budget_def split: option.splits)
qed

lemma history_prefix_defined:
  "ensure_qwen_chat_template T = Inr () \<Longrightarrow> \<exists>h. render_chat_history_prefix J T ms tools = Inr h"
  by (simp add: render_chat_history_prefix_def split: prod.split)

lemma render_prompt_messages:
  "chat_messages J r = Inr ms \<Longrightarrow> render_prompt J T r thinking = Inr p
     \<longleftrightarrow> render_chat_prompt J T ms (tool_definitions r) (pl_open thinking) = Inr p"
  by (simp add: render_prompt_def split: sum.splits)

lemma chat_job_parts:
  assumes "chat_job F J T policy defaults r = Inr job"
  shows "validate_request r = Inr ()" "render_prompt J T r (plan r policy (tk_thinking T)) = Inr (jr_prompt job)"
    and "resolve_options F defaults r (plan r policy (tk_thinking T)) = Inr (jr_options job)"
    and "jr_thinking_open job = pl_open (plan r policy (tk_thinking T))"
  using assms by (auto simp: chat_job_def bindE_Inr_iff Let_def)

lemma chat_job_admits:
  assumes "validate_request r = Inr ()" "chat_messages J r = Inr ms"
    and "render_chat_prompt J T ms (tool_definitions r) (pl_open (plan r policy (tk_thinking T))) = Inr p"
    and "resolve_options F defaults r (plan r policy (tk_thinking T)) = Inr opts"
  shows "\<exists>job. chat_job F J T policy defaults r = Inr job \<and> jr_prompt job = p"
proof -
  have "ensure_qwen_chat_template T = Inr ()" using assms(3) by (simp add: render_accepts renderable_def)
  then obtain h where "render_chat_history_prefix J T ms (tool_definitions r) = Inr h" using history_prefix_defined by blast
  then have "render_history_prefix J T r = Inr h" by (simp add: render_history_prefix_def assms(2))
  moreover have "render_prompt J T r (plan r policy (tk_thinking T)) = Inr p"
    by (simp add: render_prompt_messages [OF assms(2)] assms(3))
  ultimately show ?thesis by (simp add: chat_job_def assms(1,4))
qed

text \<open>
  C24. An admitted job generates between one token and the server's ceiling; the sampler accepts
  its sampling parameters, and it does not draft when it samples: what the client sends cannot make
  the engine refuse the turn. Its thinking budget is the one granted to the request when the prompt
  leaves a thinking block open, and absent when it does not; a granted budget is at least one token
  and never above the operator's ceiling. So with an open block there is none only where the
  request, its effort and the policy name none and the operator sets no ceiling.
\<close>

theorem admitted_jobs_are_bounded:
  assumes "chat_job F J T policy defaults r = Inr job" "validate_policy policy = Inr ()"
    and "0 < go_max_new_tokens defaults" "\<exists>s. sampler_new F seed_rng (go_sampling defaults) = Inr s"
  shows "1 \<le> go_max_new_tokens (jr_options job) \<and> go_max_new_tokens (jr_options job) \<le> MAX_OUTPUT_TOKENS
    \<and> go_thinking_budget (jr_options job) = (if jr_thinking_open job then granted_budget r policy else None)
    \<and> (case granted_budget r policy of
         None \<Rightarrow> asked_budget r policy = None \<and> tp_max_budget policy = None
       | Some b \<Rightarrow> 1 \<le> b \<and> (case tp_max_budget policy of None \<Rightarrow> True | Some ceiling \<Rightarrow> b \<le> ceiling))
    \<and> (\<exists>s. sampler_new F seed_rng (go_sampling (jr_options job)) = Inr s)
    \<and> \<not> (f_lt F (f_zero F) (sc_temperature (go_sampling (jr_options job))) \<and> is_speculative (requested_mode (jr_options job)))"
proof -
  note job = chat_job_parts [OF assms(1)]
  have "options_ok F defaults" using assms(3,4) by (simp add: options_ok_def sampler_accepts)
  note opts = resolved_options [OF job(3) this]
  have "1 \<le> go_max_new_tokens (jr_options job)" "\<exists>s. sampler_new F seed_rng (go_sampling (jr_options job)) = Inr s"
    using opts(1) by (simp_all add: options_ok_def sampler_accepts)
  moreover have "go_thinking_budget (jr_options job) = (if jr_thinking_open job then granted_budget r policy else None)"
    unfolding opts(3) job(4) by (simp add: planned_budget(1) [OF assms(2)])
  moreover have "case granted_budget r policy of
         None \<Rightarrow> asked_budget r policy = None \<and> tp_max_budget policy = None
       | Some b \<Rightarrow> 1 \<le> b \<and> (case tp_max_budget policy of None \<Rightarrow> True | Some ceiling \<Rightarrow> b \<le> ceiling)"
    using planned_budget(2) [OF assms(2), of r]
    by (cases "granted_budget r policy") (auto simp: granted_budget_def split: option.splits)
  ultimately show ?thesis using opts(2,4) by (intro conjI)
qed

definition ask :: "string \<Rightarrow> request_message" where
  "ask t = \<lparr>rm_role = ''user'', rm_content = Some (TextContent t), rm_tool_calls = None, rm_tool_call_id = None, rm_reasoning_content = None\<rparr>"

definition sample_function :: json where
  "sample_function = JObject [(''name'', JString ''get_weather''),
     (''parameters'', JObject [(''properties'', JObject [(''zip'', JObject [(''type'', JString ''string'')])])])]"

definition sample_tools :: "json list" where
  "sample_tools = [JObject [(''type'', JString ''function''), (''function'', sample_function)]]"

definition sample_request :: "int chat_request" where
  "sample_request = \<lparr>rq_model = None, rq_messages = [ask ''Weather in Paris?''], rq_max_tokens = Some 100000, rq_max_completion_tokens = None,
     rq_temperature = None, rq_top_p = None, rq_top_k = Some 40, rq_min_p = None, rq_seed = Some 7, rq_stop = None,
     rq_stream = False, rq_include_usage = False, rq_n = None, rq_reasoning_effort = Some ''high'', rq_template_thinking = None,
     rq_enable_thinking = None, rq_thinking_budget = None, rq_tools = Some sample_tools, rq_tool_choice = None,
     rq_functions = None, rq_logprobs = None, rq_response_format = None\<rparr>"

definition sample_policy :: thinking_policy where
  "sample_policy = \<lparr>tp_default_budget = None, tp_max_budget = Some 2048,
     tp_effort_budgets = [(Minimal, 64), (Low, 256), (Medium, 1024), (High, 4096), (XHigh, 16384)], tp_enabled_by_default = True\<rparr>"

definition sample_job :: "int job_request" where
  "sample_job = (case chat_job int_fops sample_json sample_tokenizer sample_policy counting_options sample_request of
     Inr job \<Rightarrow> job | Inl _ \<Rightarrow> \<lparr>jr_prompt = [], jr_stable_prefix = None, jr_options = counting_options, jr_stop_strings = [],
       jr_tools_enabled = False, jr_thinking_open = False\<rparr>)"

lemma sample_request_facts:
  "validate_request sample_request = Inr ()" "chat_messages sample_json sample_request = Inr [said User ''Weather in Paris?'']"
  "renderable sample_tokenizer [said User ''Weather in Paris?'']" "pl_open (plan sample_request sample_policy True)"
  "tk_thinking sample_tokenizer"
proof -
  show "validate_request sample_request = Inr ()" by (simp add: validate_request_def sample_request_def bindE_ensure) 
  show "chat_messages sample_json sample_request = Inr [said User ''Weather in Paris?'']"
    by (simp add: chat_messages_def sample_request_def chat_message_of_def chat_role_of_def ask_def said_def into_text_def)
  show "renderable sample_tokenizer [said User ''Weather in Paris?'']" "tk_thinking sample_tokenizer" by code_simp+
  have "parse_effort ''high'' = Some High" by code_simp
  then show "pl_open (plan sample_request sample_policy True)"
    by (simp add: plan_def request_enable_thinking_def request_effort_def sample_request_def sample_policy_def or_else_def Let_def)
qed

lemma sample_options: "\<exists>opts. resolve_options int_fops counting_options sample_request (plan sample_request sample_policy True) = Inr opts"
  by (simp add: resolve_options_def override_def sample_request_def request_max_new_tokens_def or_else_def bindE_ensure Let_def)

lemma sample_admitted: "chat_job int_fops sample_json sample_tokenizer sample_policy counting_options sample_request = Inr sample_job"
proof -
  obtain opts where "resolve_options int_fops counting_options sample_request (plan sample_request sample_policy True) = Inr opts"
    using sample_options by blast
  then obtain job where "chat_job int_fops sample_json sample_tokenizer sample_policy counting_options sample_request = Inr job"
    using chat_job_admits [OF sample_request_facts(1,2), of sample_tokenizer sample_policy _ int_fops counting_options opts]
      sample_request_facts(3-5) by (auto simp: render_accepts)
  then show ?thesis by (simp add: sample_job_def)
qed

lemma sample_budget: "granted_budget sample_request sample_policy = Some 2048"
proof -
  have "parse_effort ''high'' = Some High" by code_simp
  then show ?thesis by (simp add: granted_budget_def asked_budget_def request_effort_def sample_request_def sample_policy_def)
qed

theorem admitted_jobs_are_bounded_witness:
  "go_max_new_tokens (jr_options sample_job) \<le> MAX_OUTPUT_TOKENS
    \<and> go_thinking_budget (jr_options sample_job) = (if jr_thinking_open sample_job then Some 2048 else None)
    \<and> (\<exists>s. sampler_new int_fops (\<lambda>seed. seed) (go_sampling (jr_options sample_job)) = Inr s)"
proof -
  have "sampling_ok int_fops (go_sampling counting_options)" by code_simp
  then have sampler: "\<exists>s. sampler_new int_fops (\<lambda>seed. seed) (go_sampling counting_options) = Inr s" unfolding sampler_accepts .
  have policy: "validate_policy sample_policy = Inr ()" by code_simp
  have tokens: "0 < go_max_new_tokens counting_options" by code_simp
  show ?thesis
    using admitted_jobs_are_bounded [OF sample_admitted policy tokens sampler] unfolding sample_budget by (elim conjE) (intro conjI)
qed

section \<open>A session of requests\<close>

text \<open>What an agent sends next: its history, the response it got, and the result of each call.\<close>

definition play_back :: "chat_response \<Rightarrow> request_message" where
  "play_back response =
     \<lparr>rm_role = ''assistant'', rm_content = map_option TextContent (rs_content response),
      rm_tool_calls = Some (map (\<lambda>c. \<lparr>rc_id = Some (ro_id c), rc_function = Some \<lparr>rf_name = ro_name c, rf_arguments = Some (ro_arguments c)\<rparr>\<rparr>)
        (rs_tool_calls response)),
      rm_tool_call_id = None, rm_reasoning_content = None\<rparr>"

definition tool_result :: "string \<Rightarrow> request_message" where
  "tool_result t = \<lparr>rm_role = ''tool'', rm_content = Some (TextContent t), rm_tool_calls = None, rm_tool_call_id = None, rm_reasoning_content = None\<rparr>"

definition follow_up :: "'f chat_request \<Rightarrow> chat_response \<Rightarrow> string list \<Rightarrow> 'f chat_request" where
  "follow_up r response results = r\<lparr>rq_messages := rq_messages r @ play_back response # map tool_result results\<rparr>"

lemma follow_up_keeps:
  "plan (follow_up r response results) policy T = plan r policy T"
  "resolve_options F defaults (follow_up r response results) thinking = resolve_options F defaults r thinking"
  "tool_definitions (follow_up r response results) = tool_definitions r"
  "validate_request r = Inr () \<Longrightarrow> validate_request (follow_up r response results) = Inr ()"
  by (simp_all add: follow_up_def plan_def request_enable_thinking_def request_effort_def resolve_options_def
      request_max_new_tokens_def tool_definitions_def validate_request_def bindE_Inr_iff)

lemma collected_turn:
  "collect_events J r call_id content (map Delta texts @ [Done cp])
     = collect_events J r call_id (content @ concat texts) [Done cp]"
  by (induction texts arbitrary: content) (simp_all add: Let_def)

lemma trimmed_away:
  "trim_end_matches ws s = [] \<Longrightarrow> \<forall>x \<in> set s. x \<in> \<Union> (set ` set ws)"
proof (induction "length s" arbitrary: s rule: less_induct)
  case less
  show ?case
  proof (cases "find (\<lambda>w. w \<noteq> [] \<and> suffix w s) ws")
    case None
    with less.prems show ?thesis by (subst (asm) trim_end_matches.simps) simp
  next
    case (Some w)
    then have w: "w \<noteq> []" "suffix w s" "w \<in> set ws" by (auto simp: find_Some_iff)
    then obtain t where t: "s = t @ w" by (auto simp: suffix_def)
    have "trim_end_matches ws t = []" using less.prems Some t by (subst (asm) trim_end_matches.simps) simp
    with less.hyps [of t] t w(1) have "\<forall>x \<in> set t. x \<in> \<Union> (set ` set ws)" by simp
    with t w(3) show ?thesis by auto
  qed
qed

lemma follow_up_messages:
  assumes "chat_messages J r = Inr messages" "jl_value J (arguments_json J (tool_schema r (tc_name c)) c) \<noteq> None" "tc_name c \<noteq> []"
    and "concat texts = shown thought answer" "cp_tool_calls cp = [c]"
    and "collect_response J r call_id (map Delta texts @ [Done cp]) = Inr response"
  shows "chat_messages J (follow_up r response results)
    = Inr (messages @ played_back J (tool_schema r (tc_name c)) thought answer c # map (said Tool) results)"
proof -
  let ?args = "arguments_json J (tool_schema r (tc_name c)) c"
  have args: "?args \<noteq> []" by (simp add: arguments_json_def)
  have call: "response_tool_calls J r call_id [c] False
      = [\<lparr>ro_index = None, ro_id = call_id 0, ro_name = tc_name c, ro_arguments = ?args\<rparr>]"
    by (simp add: response_tool_calls_def then_some_def)
  have not_lt: "list_all (\<lambda>w. hd w \<noteq> CHR ''<'') white_space" by code_simp
  have visible: "trim (shown thought answer) \<noteq> []"
  proof
    assume empty: "trim (shown thought answer) = []"
    have "trim_start_matches white_space (shown thought answer) = shown thought answer"
      using not_lt by (intro trim_start_stops) (auto simp: shown_def THINK_def list_all_iff)
    with empty have "trim_end_matches white_space (shown thought answer) = []" by (simp add: trim_def)
    then have "\<forall>x \<in> set (shown thought answer). x \<in> \<Union> (set ` set white_space)" by (rule trimmed_away)
    moreover have "CHR ''<'' \<in> set (shown thought answer)" by (simp add: shown_def THINK_def)
    moreover have "list_all (\<lambda>w. CHR ''<'' \<notin> set w) white_space" by code_simp
    ultimately show False by (auto simp: list_all_iff)
  qed
  have "rs_content response = Some (shown thought answer)" "rs_tool_calls response = response_tool_calls J r call_id [c] False"
    using assms(4-6) visible by (auto simp: collect_response_def collected_turn)
  then have "chat_message_of J (play_back response) = Inr (played_back J (tool_schema r (tc_name c)) thought answer c)"
    using assms(2,3) args
    by (simp add: play_back_def call chat_message_of_def chat_role_of_def into_text_def chat_call_of_def ensure_def played_back_def)
  moreover have "mapE (chat_message_of J) (map tool_result results) = Inr (map (said Tool) results)"
    by (induction results) (simp_all add: tool_result_def said_def chat_message_of_def chat_role_of_def into_text_def)
  ultimately show ?thesis
    using assms(1) by (simp add: chat_messages_def follow_up_def mapE_append)
qed

text \<open>
  C4. An agent's next request continues the session. A job whose thinking block is open generates a
  thought, an answer and a call; the client collects its events, plays the response back with the
  results of the call, and the job of that request is admitted with a prompt that begins with the
  old prompt, every byte that was generated and the end of the turn.
\<close>

theorem next_request_extends_the_session:
  assumes "json_lib_ok J" "markup_ok c" "as_taught J (tool_schema r (tc_name c)) c"
    and "jl_value J (arguments_json J (tool_schema r (tc_name c)) c) \<noteq> None"
    and "plain [THINK, THINK_END, CALL_OPEN] thought" "plain [THINK_END, CALL_OPEN] answer"
    and "chat_job F J T policy defaults r = Inr job" "jr_thinking_open job"
    and "chat_messages J r = Inr messages" "last_query_index messages \<noteq> None" "results \<noteq> []"
    and "concat texts = shown thought answer" "cp_tool_calls cp = snd (parse (generated thought answer @ call_markup c))"
    and "collect_response J r call_id (map Delta texts @ [Done cp]) = Inr response"
  shows "\<exists>job' rest. chat_job F J T policy defaults (follow_up r response results) = Inr job'
    \<and> jr_prompt job' = jr_prompt job @ generated thought answer @ call_markup c @ IM_END @ newline @ rest"
proof -
  let ?schema = "tool_schema r (tc_name c)" and ?r = "follow_up r response results"
  let ?messages = "messages @ played_back J ?schema thought answer c # map (said Tool) results"
  note job = chat_job_parts [OF assms(7)]
  have is_open: "pl_open (plan r policy (tk_thinking T))" using job(4) assms(8) by simp
  then have thinking: "tk_thinking T" by (auto simp: plan_def split: if_splits)
  have prompt: "render_chat_prompt J T messages (tool_definitions r) True = Inr (jr_prompt job)"
    using job(2) is_open by (simp add: render_prompt_messages [OF assms(9)])
  have tools: "map (said Tool) results \<noteq> []" "list_all (\<lambda>m. cm_role m = Tool) (map (said Tool) results)"
    using assms(11) by (simp_all add: list_all_iff said_def)
  from tool_exchange_extends_the_prompt [OF assms(1-3,5,6) prompt thinking assms(10) tools]
  obtain rest where call: "snd (parse (generated thought answer @ call_markup c)) = [c]"
    and next_prompt: "render_chat_prompt J T ?messages (tool_definitions r) True
      = Inr (jr_prompt job @ generated thought answer @ call_markup c @ IM_END @ newline @ rest)" by blast
  have "tc_name c \<noteq> []" using assms(2) by (simp add: markup_ok_def tag_name_def)
  then have messages: "chat_messages J ?r = Inr ?messages"
    using follow_up_messages [OF assms(9,4) _ assms(12) _ assms(14)] assms(13) call by simp
  have "render_chat_prompt J T ?messages (tool_definitions ?r) (pl_open (plan ?r policy (tk_thinking T)))
      = Inr (jr_prompt job @ generated thought answer @ call_markup c @ IM_END @ newline @ rest)"
    using next_prompt is_open by (simp add: follow_up_keeps)
  moreover have "resolve_options F defaults ?r (plan ?r policy (tk_thinking T)) = Inr (jr_options job)"
    using job(3) by (simp add: follow_up_keeps)
  ultimately show ?thesis using chat_job_admits [OF follow_up_keeps(4) [OF job(1)] messages] by blast
qed

subsection \<open>An agent's session\<close>

lemma arguments_are_json:
  assumes "json_lib_ok J"
  shows "json_value (arguments_json J schema c)"
proof -
  let ?f = "\<lambda>(name, raw). jl_quote J name @ '':'' @ encode J raw (declared_type schema name)"
  have fields: "json_fields (join_with '','' (map ?f (p # ps)))" for p ps
  proof (induction ps arbitrary: p)
    case Nil
    have "string_literal (jl_quote J (fst p))" using assms by (simp add: json_lib_ok_def)
    from last_field [of "[]", OF _ this _ _ encode_json(1) [OF assms], of "[]" "[]" "[]"] show ?case
      by (simp add: spaces_def case_prod_unfold)
  next
    case (Cons q ps)
    have "string_literal (jl_quote J (fst p))" using assms by (simp add: json_lib_ok_def)
    from field [of "[]", OF _ this _ _ encode_json(1) [OF assms] _ Cons, of "[]" "[]" "[]"] show ?case
      by (simp add: spaces_def case_prod_unfold)
  qed
  show ?thesis
  proof (cases "tc_parameters c")
    case Nil
    then show ?thesis using empty_object [of "[]"] by (simp add: arguments_json_def spaces_def)
  next
    case (Cons p ps)
    then show ?thesis using object [OF fields [of p ps]] by (simp add: arguments_json_def)
  qed
qed

text \<open>The sample library, which also parses the arguments of the sample call.\<close>

definition agent_json :: json_lib where
  "agent_json = sample_json\<lparr>jl_value := (\<lambda>t. if t = arguments_json sample_json (Some sample_schema) sample_call then Some (JObject [])
     else jl_value sample_json t)\<rparr>"

lemma agent_json_ok: "json_lib_ok agent_json"
proof -
  have "json_value (arguments_json sample_json (Some sample_schema) sample_call)" by (rule arguments_are_json [OF sample_json_ok])
  moreover have "hd (arguments_json sample_json (Some sample_schema) sample_call) \<noteq> CHR 0x22" by (simp add: arguments_json_def)
  ultimately have "\<exists>w1 x w2. t = w1 @ x @ w2 \<and> spaces w1 \<and> spaces w2 \<and> json_value x \<and> (hd x = CHR 0x22 \<longleftrightarrow> is_string v)"
    if "jl_value agent_json t = Some v" for t v
  proof (cases "t = arguments_json sample_json (Some sample_schema) sample_call")
    case True
    with that have "v = JObject []" by (simp add: agent_json_def)
    with True \<open>json_value _\<close> \<open>hd _ \<noteq> _\<close> show ?thesis
      by (intro exI [of _ "[]"] exI [of _ t]) (simp add: spaces_def is_string_def as_str_def)
  next
    case False
    with that have "jl_value sample_json t = Some v" by (simp add: agent_json_def)
    with sample_json_ok show ?thesis by (simp add: json_lib_ok_def)
  qed
  with sample_json_ok show ?thesis by (simp add: json_lib_ok_def agent_json_def)
qed

definition sample_thought :: string where "sample_thought = ''Look it up.''"
definition sample_answer :: string where "sample_answer = ''One moment.''"

definition sample_completion :: completion where
  "sample_completion = \<lparr>cp_finish_reason = FinishToolCalls, cp_prompt_tokens = 20, cp_completion_tokens = 30, cp_reused_tokens = 0,
     cp_reuse = ReuseNone, cp_tool_calls = snd (parse (generated sample_thought sample_answer @ call_markup sample_call)),
     cp_reasoning_tokens = Some 4, cp_prefill_tokens = 20\<rparr>"

definition sample_events :: "event list" where
  "sample_events = map Delta [THINK @ newline, generated sample_thought sample_answer] @ [Done sample_completion]"

definition sample_response :: chat_response where
  "sample_response = projr (collect_response agent_json sample_request (\<lambda>n. ''call'') sample_events)"

lemma agent_admitted:
  "\<exists>job. chat_job int_fops agent_json sample_tokenizer sample_policy counting_options sample_request = Inr job \<and> jr_thinking_open job"
proof -
  have messages: "chat_messages agent_json sample_request = Inr [said User ''Weather in Paris?'']"
    by (simp add: chat_messages_def sample_request_def chat_message_of_def chat_role_of_def ask_def said_def into_text_def)
  obtain opts where "resolve_options int_fops counting_options sample_request (plan sample_request sample_policy True) = Inr opts"
    using sample_options by blast
  then obtain job where "chat_job int_fops agent_json sample_tokenizer sample_policy counting_options sample_request = Inr job"
    using chat_job_admits [OF sample_request_facts(1) messages, of sample_tokenizer sample_policy _ int_fops counting_options opts]
      sample_request_facts(3-5) by (auto simp: render_accepts)
  moreover from this have "jr_thinking_open job" using chat_job_parts(4) sample_request_facts(4,5) by fastforce
  ultimately show ?thesis by blast
qed

theorem next_request_extends_the_session_witness:
  "\<exists>job job' rest. chat_job int_fops agent_json sample_tokenizer sample_policy counting_options sample_request = Inr job
    \<and> chat_job int_fops agent_json sample_tokenizer sample_policy counting_options (follow_up sample_request sample_response [''Rain.'']) = Inr job'
    \<and> jr_prompt job' = jr_prompt job @ generated sample_thought sample_answer @ call_markup sample_call @ IM_END @ newline @ rest"
proof -
  obtain job where job: "chat_job int_fops agent_json sample_tokenizer sample_policy counting_options sample_request = Inr job" "jr_thinking_open job"
    using agent_admitted by blast
  have messages: "chat_messages agent_json sample_request = Inr [said User ''Weather in Paris?'']"
    by (simp add: chat_messages_def sample_request_def chat_message_of_def chat_role_of_def ask_def said_def into_text_def)
  have "Option.bind (json_get ''name'' sample_function) as_str = Some (tc_name sample_call)" by code_simp
  then have schema: "tool_schema sample_request (tc_name sample_call) = Some sample_function"
    by (simp add: tool_schema_def tool_definitions_def sample_request_def sample_tools_def named_function_def json_get_def)
  have taught: "as_taught agent_json (tool_schema sample_request (tc_name sample_call)) sample_call"
    and parsed: "jl_value agent_json (arguments_json agent_json (tool_schema sample_request (tc_name sample_call)) sample_call) \<noteq> None"
    unfolding schema by code_simp+
  have plain: "plain [THINK, THINK_END, CALL_OPEN] sample_thought" "plain [THINK_END, CALL_OPEN] sample_answer"
    "last_query_index [said User ''Weather in Paris?''] \<noteq> None" "[''Rain.''] \<noteq> []"
    by code_simp+
  have texts: "concat [THINK @ newline, generated sample_thought sample_answer] = shown sample_thought sample_answer"
    by (simp add: shown_def)
  have calls: "cp_tool_calls sample_completion = snd (parse (generated sample_thought sample_answer @ call_markup sample_call))"
    by (simp add: sample_completion_def)
  have "collect_response agent_json sample_request (\<lambda>n. ''call'') (map Delta [THINK @ newline, generated sample_thought sample_answer] @ [Done sample_completion])
      = Inr sample_response"
    unfolding sample_response_def sample_events_def collect_response_def by (simp add: Let_def)
  from next_request_extends_the_session [OF agent_json_ok sample_markup_ok taught parsed plain(1,2) job messages plain(3,4) texts calls this] job
  show ?thesis by blast
qed

end
