(* ===== verification/Job_Queue.thy ===== *)
theory Job_Queue
  imports Prelude
begin

text \<open>
  The bounded queue in front of the worker thread (\<open>EngineHandle::submit\<close>, \<open>reserve_slot\<close>, the drop
  of \<open>QueueSlot\<close> and the loop of \<open>worker\<close> in \<open>src/server/engine.rs\<close>). Any number of requests runs
  concurrently; an action is one atomic operation of one of them or of the worker.
\<close>

section \<open>The queue\<close>

text \<open>Where a request is: before its load, after it with the value it saw, and so on.\<close>

datatype client = Idle | Observed nat | Reserved | Queued | Running | Refused

record queue =
  qu_pending :: nat
  qu_jobs :: "nat list"
  qu_running :: "nat option"
  qu_worker :: bool
  qu_clients :: "client list"

datatype attempt = Busy | Exchanged nat | Retry nat

text \<open>One round of the loop: the check, and \<open>compare_exchange_weak\<close>, which may fail spuriously.\<close>

definition reserve_attempt :: "nat \<Rightarrow> nat \<Rightarrow> nat \<Rightarrow> bool \<Rightarrow> attempt" where
  "reserve_attempt max_queue pending current spurious =
     (if max_queue \<le> pending then Busy
      else if current = pending \<and> \<not> spurious then Exchanged (pending + 1)
      else Retry current)"

text \<open>\<open>fetch_sub\<close> in the drop of the slot.\<close>

definition drop_slot :: "queue \<Rightarrow> queue" where
  "drop_slot q = q\<lparr>qu_pending := qu_pending q - 1\<rparr>"

definition set_client :: "nat \<Rightarrow> client \<Rightarrow> queue \<Rightarrow> queue" where
  "set_client i c q = q\<lparr>qu_clients := (qu_clients q)[i := c]\<rparr>"

datatype action =
    Load nat
  | Reserve nat bool
  | Send nat
  | Take
  | Finish
  | Stop
  | Again nat

definition client_at :: "queue \<Rightarrow> nat \<Rightarrow> client option" where
  "client_at q i = (if i < length (qu_clients q) then Some (qu_clients q ! i) else None)"

definition perform_reserve :: "nat \<Rightarrow> nat \<Rightarrow> bool \<Rightarrow> queue \<Rightarrow> queue option" where
  "perform_reserve max_queue i spurious q = (case client_at q i of
      Some (Observed pending) \<Rightarrow> Some
        (case reserve_attempt max_queue pending (qu_pending q) spurious of
           Busy \<Rightarrow> set_client i Refused q
         | Exchanged n \<Rightarrow> set_client i Reserved (q\<lparr>qu_pending := n\<rparr>)
         | Retry n \<Rightarrow> set_client i (Observed n) q)
    | _ \<Rightarrow> None)"

text \<open>Sending to a worker that is gone drops the job, and its slot with it.\<close>

definition perform_send :: "nat \<Rightarrow> queue \<Rightarrow> queue option" where
  "perform_send i q = (if client_at q i = Some Reserved
     then Some (if qu_worker q then set_client i Queued (q\<lparr>qu_jobs := qu_jobs q @ [i]\<rparr>)
                else set_client i Idle (drop_slot q))
     else None)"

definition perform_take :: "queue \<Rightarrow> queue option" where
  "perform_take q = (case (qu_worker q, qu_running q, qu_jobs q) of
      (True, None, i # jobs) \<Rightarrow> Some (set_client i Running (q\<lparr>qu_jobs := jobs, qu_running := Some i\<rparr>))
    | _ \<Rightarrow> None)"

definition perform_finish :: "queue \<Rightarrow> queue option" where
  "perform_finish q = map_option (\<lambda>i. set_client i Idle (drop_slot (q\<lparr>qu_running := None\<rparr>))) (qu_running q)"

text \<open>The worker ends: the job it runs and the jobs in its channel are dropped.\<close>

definition perform_stop :: "queue \<Rightarrow> queue option" where
  "perform_stop q = (if qu_worker q
     then let dropped = qu_jobs q @ (case qu_running q of None \<Rightarrow> [] | Some i \<Rightarrow> [i])
          in Some (fold (\<lambda>i q. set_client i Idle (drop_slot q)) dropped
               (q\<lparr>qu_worker := False, qu_jobs := [], qu_running := None\<rparr>))
     else None)"

definition perform :: "nat \<Rightarrow> action \<Rightarrow> queue \<Rightarrow> queue option" where
  "perform max_queue a q = (case a of
      Load i \<Rightarrow> if client_at q i = Some Idle then Some (set_client i (Observed (qu_pending q)) q) else None
    | Reserve i spurious \<Rightarrow> perform_reserve max_queue i spurious q
    | Send i \<Rightarrow> perform_send i q
    | Take \<Rightarrow> perform_take q
    | Finish \<Rightarrow> perform_finish q
    | Stop \<Rightarrow> perform_stop q
    | Again i \<Rightarrow> if client_at q i = Some Refused then Some (set_client i Idle q) else None)"

definition queue_start :: "nat \<Rightarrow> queue" where
  "queue_start n = \<lparr>qu_pending = 0, qu_jobs = [], qu_running = None, qu_worker = True, qu_clients = replicate n Idle\<rparr>"

inductive reached :: "nat \<Rightarrow> nat \<Rightarrow> queue \<Rightarrow> bool" for max_queue n where
  start: "reached max_queue n (queue_start n)"
| step: "reached max_queue n q \<Longrightarrow> perform max_queue a q = Some q' \<Longrightarrow> reached max_queue n q'"

fun perform_all :: "nat \<Rightarrow> action list \<Rightarrow> queue \<Rightarrow> queue option" where
  "perform_all max_queue [] q = Some q"
| "perform_all max_queue (a # actions) q = Option.bind (perform max_queue a q) (perform_all max_queue actions)"

lemma perform_all_reached: "reached max_queue n q \<Longrightarrow> perform_all max_queue actions q = Some q' \<Longrightarrow> reached max_queue n q'"
  by (induction actions arbitrary: q) (auto simp: bind_eq_Some_conv intro: reached.step)

section \<open>Places are accounted for\<close>

text \<open>A request that has reserved a place and not yet given it back.\<close>

definition holds :: "client \<Rightarrow> bool" where
  "holds c \<longleftrightarrow> c \<in> {Reserved, Queued, Running}"

definition holders :: "queue \<Rightarrow> nat" where
  "holders q = length (filter holds (qu_clients q))"

definition queue_ok :: "nat \<Rightarrow> queue \<Rightarrow> bool" where
  "queue_ok max_queue q \<longleftrightarrow> qu_pending q = holders q \<and> qu_pending q \<le> max_queue
     \<and> distinct (qu_jobs q)
     \<and> (\<forall>i. i \<in> set (qu_jobs q) \<longleftrightarrow> client_at q i = Some Queued)
     \<and> (\<forall>i. qu_running q = Some i \<longleftrightarrow> client_at q i = Some Running)
     \<and> (qu_worker q \<or> qu_running q = None \<and> qu_jobs q = [])"

lemma filter_update:
  "i < length xs \<Longrightarrow> length (filter P (xs[i := v])) + (if P (xs ! i) then 1 else 0) = length (filter P xs) + (if P v then 1 else 0)"
proof (induction xs arbitrary: i)
  case (Cons x xs)
  then show ?case by (cases i) auto
qed simp

lemma holders_set_client:
  "client_at q i = Some c \<Longrightarrow> holders (set_client i v q) + (if holds c then 1 else 0) = holders q + (if holds v then 1 else 0)"
  using filter_update [of i "qu_clients q" holds v] by (auto simp: holders_def set_client_def client_at_def split: if_splits)

lemma client_at_set [simp]:
  "client_at (set_client i v q) j = (if i = j \<and> client_at q i \<noteq> None then Some v else client_at q j)"
  by (simp add: client_at_def set_client_def)

lemma set_client_simps [simp]:
  "qu_pending (set_client i v q) = qu_pending q" "qu_jobs (set_client i v q) = qu_jobs q"
  "qu_running (set_client i v q) = qu_running q" "qu_worker (set_client i v q) = qu_worker q"
  by (simp_all add: set_client_def)

lemma unchanged_clients [simp]:
  "client_at (q\<lparr>qu_pending := n\<rparr>) = client_at q" "client_at (q\<lparr>qu_jobs := js\<rparr>) = client_at q"
  "client_at (q\<lparr>qu_running := r\<rparr>) = client_at q" "client_at (q\<lparr>qu_worker := w\<rparr>) = client_at q"
  "holders (q\<lparr>qu_pending := n\<rparr>) = holders q" "holders (q\<lparr>qu_jobs := js\<rparr>) = holders q"
  "holders (q\<lparr>qu_running := r\<rparr>) = holders q" "holders (q\<lparr>qu_worker := w\<rparr>) = holders q"
  by (simp_all add: client_at_def holders_def fun_eq_iff)

lemma place_holds [simp]:
  "holds Reserved" "holds Queued" "holds Running" "\<not> holds Idle" "\<not> holds (Observed v)" "\<not> holds Refused"
  by (simp_all add: holds_def)

lemma holders_leaves: "client_at q i = Some c \<Longrightarrow> holds c \<Longrightarrow> \<not> holds v \<Longrightarrow> holders (set_client i v q) = holders q - 1 \<and> 0 < holders q"
  using holders_set_client [of q i c v] by simp

lemma holders_enters: "client_at q i = Some c \<Longrightarrow> \<not> holds c \<Longrightarrow> holds v \<Longrightarrow> holders (set_client i v q) = Suc (holders q)"
  using holders_set_client [of q i c v] by simp

lemma holders_same: "client_at q i = Some c \<Longrightarrow> holds c = holds v \<Longrightarrow> holders (set_client i v q) = holders q"
  using holders_set_client [of q i c v] by (cases "holds v") simp_all

lemma drop_slot_simps [simp]:
  "qu_pending (drop_slot q) = qu_pending q - 1" "qu_jobs (drop_slot q) = qu_jobs q" "qu_running (drop_slot q) = qu_running q"
  "qu_worker (drop_slot q) = qu_worker q" "client_at (drop_slot q) = client_at q" "holders (drop_slot q) = holders q"
  by (simp_all add: drop_slot_def)

lemma dropped_jobs:
  assumes "distinct js" "\<forall>i \<in> set js. \<exists>c. client_at q i = Some c \<and> holds c" "qu_pending q = holders q"
  defines "q' \<equiv> fold (\<lambda>i q. set_client i Idle (drop_slot q)) js q"
  shows "qu_pending q' = holders q'" "qu_pending q' \<le> qu_pending q" "qu_jobs q' = qu_jobs q" "qu_running q' = qu_running q"
    "qu_worker q' = qu_worker q" "\<forall>j. client_at q' j = (if j \<in> set js then Some Idle else client_at q j)"
proof -
  have "qu_pending q' = holders q' \<and> qu_pending q' \<le> qu_pending q \<and> qu_jobs q' = qu_jobs q \<and> qu_running q' = qu_running q
    \<and> qu_worker q' = qu_worker q \<and> (\<forall>j. client_at q' j = (if j \<in> set js then Some Idle else client_at q j))"
    using assms(1-3) unfolding q'_def
  proof (induction js arbitrary: q)
    case (Cons i js)
    let ?q = "set_client i Idle (drop_slot q)"
    obtain c where c: "client_at q i = Some c" "holds c" using Cons.prems(2) by auto
    have "\<forall>j \<in> set js. \<exists>c. client_at ?q j = Some c \<and> holds c" using Cons.prems(1,2) by auto
    moreover have "qu_pending ?q = holders ?q" using holders_leaves [of "drop_slot q" i c Idle] c Cons.prems(3) by simp
    ultimately show ?case using Cons.IH [of ?q] Cons.prems(1) c(1) by auto
  qed simp
  then show "qu_pending q' = holders q'" "qu_pending q' \<le> qu_pending q" "qu_jobs q' = qu_jobs q" "qu_running q' = qu_running q"
    "qu_worker q' = qu_worker q" "\<forall>j. client_at q' j = (if j \<in> set js then Some Idle else client_at q j)" by blast+
qed

lemma queue_okI:
  assumes "qu_pending q = holders q" "qu_pending q \<le> max_queue" "distinct (qu_jobs q)"
    and "\<And>i. client_at q i = Some Queued \<longleftrightarrow> i \<in> set (qu_jobs q)" "\<And>i. client_at q i = Some Running \<longleftrightarrow> qu_running q = Some i"
    and "qu_worker q \<or> qu_running q = None \<and> qu_jobs q = []"
  shows "queue_ok max_queue q"
  using assms by (simp add: queue_ok_def)

lemma queue_okD:
  assumes "queue_ok max_queue q"
  shows "qu_pending q = holders q" "holders q \<le> max_queue" "distinct (qu_jobs q)"
    and "client_at q i = Some Queued \<longleftrightarrow> i \<in> set (qu_jobs q)" "client_at q i = Some Running \<longleftrightarrow> qu_running q = Some i"
    and "qu_worker q \<or> qu_running q = None \<and> qu_jobs q = []"
  using assms by (auto simp: queue_ok_def)

lemma queue_ok_start: "queue_ok max_queue (queue_start n)"
  by (rule queue_okI) (auto simp: queue_start_def holders_def client_at_def)

text \<open>A request that is neither queued nor running.\<close>

lemma outside:
  assumes "queue_ok max_queue q" "client_at q i = Some c" "c \<noteq> Queued" "c \<noteq> Running"
  shows "i \<notin> set (qu_jobs q)" "qu_running q \<noteq> Some i"
  using queue_okD(4,5) [OF assms(1), of i] assms(2-4) by simp_all

lemma queue_ok_outside:
  assumes "queue_ok max_queue q" "client_at q i = Some c" "\<not> holds c" "\<not> holds v"
  shows "queue_ok max_queue (set_client i v q)"
proof -
  note ok = queue_okD [OF assms(1)]
  have "c \<noteq> Queued" "c \<noteq> Running" "v \<noteq> Queued" "v \<noteq> Running" using assms(3,4) by auto
  with outside [OF assms(1,2)] assms holders_same [of q i c v] ok(1,2,3,6) show ?thesis
    by (intro queue_okI) (auto simp: ok(4,5))
qed

lemma reserve_keeps:
  assumes "queue_ok max_queue q" "perform_reserve max_queue i spurious q = Some q'"
  shows "queue_ok max_queue q'"
proof -
  note ok = queue_okD [OF assms(1)]
  obtain pending where c: "client_at q i = Some (Observed pending)"
    using assms(2) by (auto simp: perform_reserve_def split: option.splits client.splits)
  consider "max_queue \<le> pending" | "pending < max_queue" "qu_pending q = pending" "\<not> spurious"
    | "pending < max_queue" "qu_pending q \<noteq> pending \<or> spurious" by linarith
  then show ?thesis
  proof cases
    case 2
    then have q': "q' = set_client i Reserved (q\<lparr>qu_pending := Suc (qu_pending q)\<rparr>)"
      using assms(2) c by (simp add: perform_reserve_def reserve_attempt_def)
    show ?thesis unfolding q'
      using outside [OF assms(1) c] c 2 ok(1,2,3,6) holders_enters [of "q\<lparr>qu_pending := Suc (qu_pending q)\<rparr>" i "Observed pending" Reserved]
      by (intro queue_okI) (auto simp: ok(4,5))
  next
    case 1
    then have "q' = set_client i Refused q" using assms(2) c by (simp add: perform_reserve_def reserve_attempt_def)
    then show ?thesis using queue_ok_outside [OF assms(1) c] by simp
  next
    case 3
    then have "q' = set_client i (Observed (qu_pending q)) q" using assms(2) c by (auto simp: perform_reserve_def reserve_attempt_def)
    then show ?thesis using queue_ok_outside [OF assms(1) c] by simp
  qed
qed

lemma send_keeps:
  assumes "queue_ok max_queue q" "perform_send i q = Some q'"
  shows "queue_ok max_queue q'"
proof -
  note ok = queue_okD [OF assms(1)]
  have c: "client_at q i = Some Reserved" using assms(2) by (auto simp: perform_send_def split: if_splits)
  note out = outside [OF assms(1) c, simplified]
  show ?thesis
  proof (cases "qu_worker q")
    case True
    then have q': "q' = set_client i Queued (q\<lparr>qu_jobs := qu_jobs q @ [i]\<rparr>)" using assms(2) c by (simp add: perform_send_def)
    show ?thesis unfolding q'
      using out True ok(1,2,3) holders_same [of "q\<lparr>qu_jobs := qu_jobs q @ [i]\<rparr>" i Reserved Queued]
      by (intro queue_okI) (auto simp: c ok(4,5))
  next
    case False
    then have q': "q' = set_client i Idle (drop_slot q)" using assms(2) c by (simp add: perform_send_def)
    show ?thesis unfolding q'
      using out ok(1,2,3,6) holders_leaves [of "drop_slot q" i Reserved Idle] by (intro queue_okI) (auto simp: c ok(4,5))
  qed
qed

lemma take_keeps:
  assumes "queue_ok max_queue q" "perform_take q = Some q'"
  shows "queue_ok max_queue q'"
proof -
  note ok = queue_okD [OF assms(1)]
  obtain i js where q: "qu_worker q" "qu_running q = None" "qu_jobs q = i # js"
    and q': "q' = set_client i Running (q\<lparr>qu_jobs := js, qu_running := Some i\<rparr>)"
    using assms(2) by (auto simp: perform_take_def split: bool.splits option.splits list.splits)
  have c: "client_at q i = Some Queued" using ok(4) q(3) by simp
  show ?thesis unfolding q'
    using q ok(1,2,3) holders_same [of "q\<lparr>qu_jobs := js, qu_running := Some i\<rparr>" i Queued Running]
    by (intro queue_okI) (auto simp: c ok(4,5))
qed

lemma finish_keeps:
  assumes "queue_ok max_queue q" "perform_finish q = Some q'"
  shows "queue_ok max_queue q'"
proof -
  note ok = queue_okD [OF assms(1)]
  obtain i where i: "qu_running q = Some i" and q': "q' = set_client i Idle (drop_slot (q\<lparr>qu_running := None\<rparr>))"
    using assms(2) by (auto simp: perform_finish_def)
  have c: "client_at q i = Some Running" using ok(5) i by simp
  then have "i \<notin> set (qu_jobs q)" using ok(4) [of i] by simp
  then show ?thesis unfolding q'
    using i ok(1,2,3,6) holders_leaves [of "drop_slot (q\<lparr>qu_running := None\<rparr>)" i Running Idle]
    by (intro queue_okI) (auto simp: c ok(4,5))
qed

lemma stop_keeps:
  assumes "queue_ok max_queue q" "perform_stop q = Some q'"
  shows "queue_ok max_queue q'"
proof -
  note ok = queue_okD [OF assms(1)]
  let ?js = "qu_jobs q @ (case qu_running q of None \<Rightarrow> [] | Some i \<Rightarrow> [i])"
  let ?q = "q\<lparr>qu_worker := False, qu_jobs := [], qu_running := None\<rparr>"
  have q': "q' = fold (\<lambda>i q. set_client i Idle (drop_slot q)) ?js ?q"
    using assms(2) by (auto simp: perform_stop_def Let_def split: if_splits)
  have members: "client_at q i = Some Queued \<or> client_at q i = Some Running \<longleftrightarrow> i \<in> set ?js" for i
    using ok(4,5) [of i] by (cases "qu_running q") auto
  have "i \<notin> set (qu_jobs q)" if "qu_running q = Some i" for i using ok(4,5) [of i] that by simp
  then have "distinct ?js" using ok(3) by (cases "qu_running q") auto
  moreover have "\<forall>i \<in> set ?js. \<exists>c. client_at ?q i = Some c \<and> holds c"
  proof
    fix i
    assume "i \<in> set ?js"
    then have "client_at q i = Some Queued \<or> client_at q i = Some Running" using members by blast
    then show "\<exists>c. client_at ?q i = Some c \<and> holds c" by auto
  qed
  moreover have "qu_pending ?q = holders ?q" using ok(1) by simp
  ultimately have d: "qu_pending q' = holders q'" "qu_pending q' \<le> qu_pending q" "qu_jobs q' = []" "qu_running q' = None"
    "\<forall>j. client_at q' j = (if j \<in> set ?js then Some Idle else client_at q j)"
    using dropped_jobs [of ?js ?q] unfolding q' by simp_all
  have "client_at q' i \<noteq> Some Queued \<and> client_at q' i \<noteq> Some Running" for i
    using d(5) members [of i] by auto
  then show ?thesis using d ok(1,2) by (intro queue_okI) simp_all
qed

lemma reached_ok: "reached max_queue n q \<Longrightarrow> queue_ok max_queue q"
proof (induction rule: reached.induct)
  case start
  show ?case by (rule queue_ok_start)
next
  case (step q a q')
  note q' = step.hyps(2) [unfolded perform_def]
  show ?case
  proof (cases a)
    case (Load i)
    with q' have "client_at q i = Some Idle" "q' = set_client i (Observed (qu_pending q)) q" by (simp_all split: if_splits)
    with queue_ok_outside [OF step.IH this(1)] show ?thesis by simp
  next
    case (Again i)
    with q' have "client_at q i = Some Refused" "q' = set_client i Idle q" by (simp_all split: if_splits)
    with queue_ok_outside [OF step.IH this(1)] show ?thesis by simp
  next
    case (Reserve i spurious)
    with q' show ?thesis using reserve_keeps [OF step.IH] by simp
  next
    case (Send i)
    with q' show ?thesis using send_keeps [OF step.IH] by simp
  next
    case Take
    with q' show ?thesis using take_keeps [OF step.IH] by simp
  next
    case Finish
    with q' show ?thesis using finish_keeps [OF step.IH] by simp
  next
    case Stop
    with q' show ?thesis using stop_keeps [OF step.IH] by simp
  qed
qed

section \<open>Properties\<close>

text \<open>
  C13. However requests interleave, with spurious failures of the exchange and with the worker ending
  at any moment, the counter is exactly the number of requests that hold a place, it never exceeds
  the bound, no job is queued twice, and when nothing is reserved, queued or running it is zero:
  a place is neither handed out twice nor lost.
\<close>

theorem places_are_accounted_for:
  assumes "reached max_queue n q"
  shows "qu_pending q = holders q \<and> qu_pending q \<le> max_queue \<and> distinct (qu_jobs q)
    \<and> length (qu_jobs q) + (if qu_running q = None then 0 else 1) \<le> qu_pending q"
proof -
  note ok = queue_okD [OF reached_ok [OF assms]]
  let ?served = "set (qu_jobs q) \<union> set_option (qu_running q)"
  have "i \<in> {i. i < length (qu_clients q) \<and> holds (qu_clients q ! i)}" if "i \<in> ?served" for i
  proof -
    have "client_at q i = Some Queued \<or> client_at q i = Some Running" using that ok(4,5) [of i] by auto
    then show ?thesis by (auto simp: client_at_def split: if_splits)
  qed
  then have "card ?served \<le> card {i. i < length (qu_clients q) \<and> holds (qu_clients q ! i)}" by (intro card_mono) auto
  also have "\<dots> = holders q" by (simp add: holders_def length_filter_conv_card)
  finally have "card ?served \<le> holders q" .
  moreover have "card ?served = length (qu_jobs q) + (if qu_running q = None then 0 else 1)"
  proof (cases "qu_running q")
    case None
    then show ?thesis using ok(3) by (simp add: distinct_card)
  next
    case (Some i)
    then have "i \<notin> set (qu_jobs q)" using ok(4,5) [of i] by simp
    with Some ok(3) show ?thesis by (simp add: distinct_card)
  qed
  ultimately show ?thesis using ok(1-3) by simp
qed

definition sample_actions :: "action list" where
  "sample_actions = [Load 0, Load 1, Load 2, Reserve 0 False, Reserve 1 True, Reserve 2 False, Reserve 1 False, Send 0, Take,
     Reserve 2 False, Send 1, Reserve 2 False, Finish, Take, Again 2, Load 2, Reserve 2 False]"

definition sample_queue :: queue where
  "sample_queue = \<lparr>qu_pending = 2, qu_jobs = [], qu_running = Some 1, qu_worker = True, qu_clients = [Idle, Running, Reserved]\<rparr>"

theorem places_are_accounted_for_witness:
  "qu_pending sample_queue = holders sample_queue \<and> qu_pending sample_queue \<le> 2 \<and> distinct (qu_jobs sample_queue)
    \<and> length (qu_jobs sample_queue) + (if qu_running sample_queue = None then 0 else 1) \<le> qu_pending sample_queue"
proof (rule places_are_accounted_for)
  have "perform_all 2 sample_actions (queue_start 3) = Some sample_queue" by code_simp
  then show "reached 2 3 sample_queue" by (rule perform_all_reached [OF reached.start])
qed

end
