(* ===== verification/Expert_Cache.thy ===== *)
theory Expert_Cache
  imports Gguf Cache_Evict
begin

text \<open>
  The expert cache changes nothing but the time a load takes: every load gives what reading the
  checkpoint gives, the books are right, and what is evicted was used least recently.
\<close>

section \<open>What a key stands for\<close>

text \<open>Tensors of a GGUF file do not share their data, so a start identifies a tensor.\<close>

definition layout_ok :: "checkpoint \<Rightarrow> bool" where
  "layout_ok ck \<longleftrightarrow> (\<forall>n1 n2 t1 t2. resolve_experts ck n1 = Inr t1 \<and> resolve_experts ck n2 = Inr t2 \<and> et_start t1 = et_start t2 \<longrightarrow> t1 = t2)"

definition resolved :: "checkpoint \<Rightarrow> expert_tensor \<Rightarrow> bool" where
  "resolved ck t \<longleftrightarrow> (\<exists>name. resolve_experts ck name = Inr t)"

lemma layout_start: "layout_ok ck \<Longrightarrow> resolved ck t1 \<Longrightarrow> resolved ck t2 \<Longrightarrow> et_start t1 = et_start t2 \<Longrightarrow> t1 = t2"
  unfolding layout_ok_def resolved_def by blast

lemma resolve_pair_resolved:
  "resolve_pair ck n1 n2 = Inr (a, b) \<Longrightarrow> resolved ck a \<and> resolved ck b \<and> et_dtype a = et_dtype b \<and> et_columns a = et_columns b"
  by (auto simp: resolve_pair_def resolved_def bindE_Inr_iff)

text \<open>An entry is honest when every load its key answers would read it from the file.\<close>

definition honest_matrix :: "checkpoint \<Rightarrow> matrix_key \<Rightarrow> qmatrix \<Rightarrow> bool" where
  "honest_matrix ck key m \<longleftrightarrow> (\<exists>a. resolved ck a \<and> et_start a = mk_start key \<and>
       (case mk_second key of
          None \<Rightarrow> read_expert_matrix ck a (mk_expert key) = Inr m
        | Some s \<Rightarrow> (\<exists>b. resolved ck b \<and> et_start b = s \<and> read_expert_pair ck a b (mk_expert key) = Inr m)))"

definition honest_entry :: "checkpoint \<Rightarrow> matrix_key \<Rightarrow> cached_matrix \<Rightarrow> bool" where
  "honest_entry ck key entry \<longleftrightarrow> cm_bytes entry = storage_bytes (cm_matrix entry) \<and> honest_matrix ck key (cm_matrix entry)"

definition honest_experts :: "checkpoint \<Rightarrow> expert_cache \<Rightarrow> bool" where
  "honest_experts ck c \<longleftrightarrow> (\<forall>(key, entry) \<in> set (ec_entries c). honest_entry ck key entry)"

lemma honest_lookup: "honest_experts ck c \<Longrightarrow> map_of (ec_entries c) key = Some entry \<Longrightarrow> honest_entry ck key entry"
  unfolding honest_experts_def by (auto dest: map_of_SomeD)

lemma honest_single:
  assumes "layout_ok ck" "resolved ck t" "honest_entry ck (single_key t expert) entry"
  shows "read_expert_matrix ck t expert = Inr (cm_matrix entry)"
proof -
  obtain a where "resolved ck a" "et_start a = et_start t" "read_expert_matrix ck a expert = Inr (cm_matrix entry)"
    using assms(3) by (auto simp: honest_entry_def honest_matrix_def single_key_def)
  with layout_start [OF assms(1) _ assms(2)] show ?thesis by blast
qed

lemma honest_pair:
  assumes "layout_ok ck" "resolved ck a" "resolved ck b" "honest_entry ck (pair_key a b expert) entry"
  shows "read_expert_pair ck a b expert = Inr (cm_matrix entry)"
proof -
  obtain a' b' where "resolved ck a'" "et_start a' = et_start a" "resolved ck b'" "et_start b' = et_start b"
    "read_expert_pair ck a' b' expert = Inr (cm_matrix entry)"
    using assms(4) by (auto simp: honest_entry_def honest_matrix_def pair_key_def)
  with layout_start [OF assms(1) _ assms(2)] layout_start [OF assms(1) _ assms(3)] show ?thesis by blast
qed

text \<open>Concatenating two experts that were read apart gives what reading them together gives.\<close>

lemma concatenated_pair:
  assumes "read_expert_matrix ck a expert = Inr m1" "read_expert_matrix ck b expert = Inr m2"
    and "concatenate_rows ck m1 m2 = Inr combined"
  shows "read_expert_pair ck a b expert = Inr combined"
  using assms by (auto simp: read_expert_matrix_def read_expert_pair_def concatenate_rows_def matrix_new_def bindE_Inr_iff)

section \<open>The operations keep the entries honest\<close>

lemma honest_cong: "ec_entries c' = ec_entries c \<Longrightarrow> honest_experts ck c' = honest_experts ck c"
  by (simp add: honest_experts_def)

lemma compact_simps [simp]:
  "ec_entries (compact_lru_if_needed c) = ec_entries c" "ec_resident (compact_lru_if_needed c) = ec_resident c"
  "ec_capacity (compact_lru_if_needed c) = ec_capacity c" "ec_clock (compact_lru_if_needed c) = ec_clock c"
  "ec_requests (compact_lru_if_needed c) = ec_requests c" "ec_hits (compact_lru_if_needed c) = ec_hits c"
  "ec_misses (compact_lru_if_needed c) = ec_misses c" "ec_pinned (compact_lru_if_needed c) = ec_pinned c"
  by (simp_all add: compact_lru_if_needed_def)

lemma unpin_simps [simp]:
  "ec_entries (unpin c) = ec_entries c" "ec_resident (unpin c) = ec_resident c" "ec_capacity (unpin c) = ec_capacity c"
  "ec_clock (unpin c) = ec_clock c" "ec_requests (unpin c) = ec_requests c" "ec_hits (unpin c) = ec_hits c"
  "ec_misses (unpin c) = ec_misses c" "\<not> ec_pinned (unpin c)"
  by (simp_all add: unpin_def)

lemma honest_subset: "honest_experts ck c \<Longrightarrow> set (ec_entries c') \<subseteq> set (ec_entries c) \<Longrightarrow> honest_experts ck c'"
  by (auto simp: honest_experts_def)

lemma honest_update:
  "honest_experts ck c \<Longrightarrow> honest_entry ck key entry \<Longrightarrow> ec_entries c' = AList.update key entry (ec_entries c) \<Longrightarrow> honest_experts ck c'"
  using set_update_subset [of key entry "ec_entries c"] by (auto simp: honest_experts_def)

lemma honest_get:
  assumes "honest_experts ck c"
  shows "honest_experts ck (fst (cache_get key c))"
proof (cases "map_of (ec_entries c) key")
  case (Some entry)
  have "honest_entry ck key entry" by (rule honest_lookup [OF assms Some])
  then have "honest_entry ck key (entry\<lparr>cm_access := n\<rparr>)" for n by (simp add: honest_entry_def)
  from honest_update [OF assms this [of "ec_clock c + 1"], of "fst (cache_get key c)"] show ?thesis
    using assms Some by (auto simp: cache_get_def Let_def intro: honest_cong [THEN iffD2])
qed (use assms in \<open>auto simp: cache_get_def Let_def intro: honest_cong [THEN iffD2]\<close>)

lemma get_answer: "snd (cache_get key c) = Some m \<Longrightarrow> \<exists>entry. map_of (ec_entries c) key = Some entry \<and> cm_matrix entry = m"
  by (auto simp: cache_get_def Let_def split: if_splits option.splits)

lemma make_room_loop_subset: "set (ec_entries (make_room_loop bytes lru c)) \<subseteq> set (ec_entries c)"
proof (induction bytes lru c rule: make_room_loop.induct)
  case (2 bytes oldest access lru c)
  then show ?case by (auto simp: set_delete split: option.splits if_splits)
qed simp

lemma honest_insert:
  assumes "honest_experts ck c" "honest_matrix ck key m"
  shows "honest_experts ck (record_read_and_insert key m c)"
proof -
  let ?c = "(unpin c)\<lparr>ec_loaded := saturating_add (ec_loaded (unpin c)) (storage_bytes m)\<rparr>"
  have room: "honest_experts ck (make_room (storage_bytes m) ?c)"
    using make_room_loop_subset [of "storage_bytes m" "ec_lru ?c" ?c] by (intro honest_subset [OF assms(1)]) (simp add: make_room_def)
  have entry: "honest_entry ck key \<lparr>cm_matrix = m, cm_bytes = storage_bytes m, cm_access = n\<rparr>" for n
    using assms(2) by (simp add: honest_entry_def)
  from honest_update [OF room entry] assms(1) show ?thesis
    by (auto simp: record_read_and_insert_def Let_def insert_entry_def intro: honest_cong [THEN iffD2])
qed

lemma load_through_honest:
  assumes "honest_experts ck c" "\<And>m. from_file = Inr m \<Longrightarrow> honest_matrix ck key m"
  shows "honest_experts ck (fst (load_through key from_file c))"
proof -
  obtain c' r where get: "cache_get key c = (c', r)" by (cases "cache_get key c")
  have "honest_experts ck c'" using honest_get [OF assms(1), of key] get by simp
  then show ?thesis using get assms(2) honest_insert
    by (auto simp: load_through_def split: option.splits sum.splits)
qed

lemma load_through_answer:
  assumes "\<And>entry. map_of (ec_entries c) key = Some entry \<Longrightarrow> from_file = Inr (cm_matrix entry)"
  shows "snd (load_through key from_file c) = from_file"
proof -
  obtain c' r where get: "cache_get key c = (c', r)" by (cases "cache_get key c")
  show ?thesis
  proof (cases r)
    case None
    then show ?thesis using get by (simp add: load_through_def split: sum.splits)
  next
    case (Some m)
    then have "from_file = Inr m" using get_answer [of key c m] get assms by auto
    then show ?thesis using get Some by (simp add: load_through_def)
  qed
qed

text \<open>The uncached loads.\<close>

definition file_expert :: "checkpoint \<Rightarrow> string \<Rightarrow> nat \<Rightarrow> gguf_error + qmatrix" where
  "file_expert ck name expert =
     bindE (resolve_experts ck name) (\<lambda>t.
     bindE (ensure (expert < et_expert_count t) ExpertOutside) (\<lambda>_. read_expert_matrix ck t expert))"

definition file_pair :: "checkpoint \<Rightarrow> string \<Rightarrow> string \<Rightarrow> nat \<Rightarrow> gguf_error + qmatrix" where
  "file_pair ck first second expert =
     bindE (resolve_pair ck first second) (\<lambda>(a, b).
     bindE (ensure (expert < et_expert_count a) ExpertOutside) (\<lambda>_. read_expert_pair ck a b expert))"

lemma load_single:
  assumes "layout_ok ck" "honest_experts ck c"
  shows "snd (load_expert_matrix ck name expert c) = file_expert ck name expert"
    and "honest_experts ck (fst (load_expert_matrix ck name expert c))"
proof -
  have "snd (load_expert_matrix ck name expert c) = file_expert ck name expert
      \<and> honest_experts ck (fst (load_expert_matrix ck name expert c))"
  proof (cases "resolve_experts ck name")
    case (Inl e)
    then show ?thesis using assms(2) by (simp add: load_expert_matrix_def file_expert_def bindS_lift)
  next
    case (Inr t)
    have t: "resolved ck t" using Inr by (auto simp: resolved_def)
    show ?thesis
    proof (cases "expert < et_expert_count t")
      case True
      have "snd (load_through (single_key t expert) (read_expert_matrix ck t expert) c) = read_expert_matrix ck t expert"
        using honest_single [OF assms(1) t] honest_lookup [OF assms(2)] by (intro load_through_answer) blast
      moreover have "honest_matrix ck (single_key t expert) m" if "read_expert_matrix ck t expert = Inr m" for m
        using t that by (auto simp: honest_matrix_def single_key_def)
      then have "honest_experts ck (fst (load_through (single_key t expert) (read_expert_matrix ck t expert) c))"
        by (rule load_through_honest [OF assms(2)])
      ultimately show ?thesis using Inr True
        by (simp add: load_expert_matrix_def load_resolved_expert_matrix_def file_expert_def bindS_lift ensure_def)
    qed (use Inr assms(2) in \<open>simp add: load_expert_matrix_def load_resolved_expert_matrix_def file_expert_def bindS_lift ensure_def\<close>)
  qed
  then show "snd (load_expert_matrix ck name expert c) = file_expert ck name expert"
    "honest_experts ck (fst (load_expert_matrix ck name expert c))" by simp_all
qed

lemma load_pair:
  assumes "layout_ok ck" "honest_experts ck c"
  shows "snd (load_expert_pair ck n1 n2 expert c) = file_pair ck n1 n2 expert"
    and "honest_experts ck (fst (load_expert_pair ck n1 n2 expert c))"
proof -
  have "snd (load_expert_pair ck n1 n2 expert c) = file_pair ck n1 n2 expert
      \<and> honest_experts ck (fst (load_expert_pair ck n1 n2 expert c))"
  proof (cases "resolve_pair ck n1 n2")
    case (Inl e)
    then show ?thesis using assms(2) by (simp add: load_expert_pair_def file_pair_def bindS_lift)
  next
    case (Inr ab)
    obtain a b where ab: "ab = (a, b)" by (cases ab)
    with Inr resolve_pair_resolved have r: "resolved ck a" "resolved ck b" by auto
    show ?thesis
    proof (cases "expert < et_expert_count a")
      case True
      have "snd (load_through (pair_key a b expert) (read_expert_pair ck a b expert) c) = read_expert_pair ck a b expert"
        using honest_pair [OF assms(1) r] honest_lookup [OF assms(2)] by (intro load_through_answer) blast
      moreover have "honest_matrix ck (pair_key a b expert) m" if "read_expert_pair ck a b expert = Inr m" for m
        using r that by (auto simp: honest_matrix_def pair_key_def)
      then have "honest_experts ck (fst (load_through (pair_key a b expert) (read_expert_pair ck a b expert) c))"
        by (rule load_through_honest [OF assms(2)])
      ultimately show ?thesis using Inr True ab
        by (simp add: load_expert_pair_def load_resolved_expert_pair_def file_pair_def bindS_lift ensure_def)
    qed (use Inr ab assms(2) in \<open>simp add: load_expert_pair_def load_resolved_expert_pair_def file_pair_def bindS_lift ensure_def\<close>)
  qed
  then show "snd (load_expert_pair ck n1 n2 expert c) = file_pair ck n1 n2 expert"
    "honest_experts ck (fst (load_expert_pair ck n1 n2 expert c))" by simp_all
qed

subsection \<open>Fusing\<close>

lemma fuse_expert_members:
  assumes "map_of (ec_entries c) (pair_key a b expert) = None"
    and "map_of (ec_entries c) (single_key a expert) = Some e1" "map_of (ec_entries c) (single_key b expert) = Some e2"
    and "concatenate_rows ck (cm_matrix e1) (cm_matrix e2) = Inr combined"
    and "storage_bytes combined = storage_bytes (cm_matrix e1) + storage_bytes (cm_matrix e2)"
  shows "fuse_expert ck a b expert c =
    (if single_key a expert = single_key b expert
     then (c\<lparr>ec_entries := AList.delete (single_key a expert) (ec_entries c)\<rparr>, Inl NotResident)
     else (insert_fused (pair_key a b expert) combined (cm_bytes e1) (cm_bytes e2)
         (c\<lparr>ec_entries := AList.delete (single_key b expert) (AList.delete (single_key a expert) (ec_entries c))\<rparr>),
       Inr (storage_bytes combined)))"
  using assms by (simp add: fuse_expert_def bindS_def resident_def ensure_def take_entry_def delete_conv')

lemma fuse_expert_outcome:
  assumes "fuse_expert ck a b expert c = (c', r)"
  obtains "c' = c" "\<And>n. r = Inr n \<Longrightarrow> map_of (ec_entries c) (pair_key a b expert) \<noteq> None"
  | "r = Inl NotResident" "ec_entries c' = AList.delete (single_key a expert) (ec_entries c)" "single_key a expert = single_key b expert"
  | e1 e2 combined where "map_of (ec_entries c) (pair_key a b expert) = None"
      "map_of (ec_entries c) (single_key a expert) = Some e1" "map_of (ec_entries c) (single_key b expert) = Some e2"
      "single_key a expert \<noteq> single_key b expert"
      "concatenate_rows ck (cm_matrix e1) (cm_matrix e2) = Inr combined"
      "storage_bytes combined = storage_bytes (cm_matrix e1) + storage_bytes (cm_matrix e2)"
      "c' = insert_fused (pair_key a b expert) combined (cm_bytes e1) (cm_bytes e2)
         (c\<lparr>ec_entries := AList.delete (single_key b expert) (AList.delete (single_key a expert) (ec_entries c))\<rparr>)"
      "r = Inr (storage_bytes combined)"
proof (cases "map_of (ec_entries c) (pair_key a b expert)")
  case (Some entry)
  then show ?thesis using assms that(1) by (auto simp: fuse_expert_def)
next
  case None
  note pair = None
  show ?thesis
  proof (cases "map_of (ec_entries c) (single_key a expert)")
    case None
    then show ?thesis using assms pair that(1) by (auto simp: fuse_expert_def resident_def bindS_def)
  next
    case (Some e1)
    note first = Some
    show ?thesis
    proof (cases "map_of (ec_entries c) (single_key b expert)")
      case None
      then show ?thesis using assms pair first that(1) by (auto simp: fuse_expert_def resident_def bindS_def)
    next
      case (Some e2)
      note second = Some
      note go = assms [unfolded fuse_expert_def, simplified, unfolded pair option.case bindS_def resident_def first second prod.case sum.case, simplified]
      show ?thesis
      proof (cases "concatenate_rows ck (cm_matrix e1) (cm_matrix e2)")
        case (Inl e)
        then show ?thesis using go that(1) by auto
      next
        case (Inr combined)
        note cat = Inr
        show ?thesis
        proof (cases "storage_bytes combined = storage_bytes (cm_matrix e1) + storage_bytes (cm_matrix e2)")
          case False
          then show ?thesis using go cat that(1) by (auto simp: ensure_def)
        next
          case True
          note run = assms [unfolded fuse_expert_members [OF pair first second cat True]]
          show ?thesis
          proof (cases "single_key a expert = single_key b expert")
            case same: True
            then have "c' = c\<lparr>ec_entries := AList.delete (single_key a expert) (ec_entries c)\<rparr>" "r = Inl NotResident"
              using run by simp_all
            then show ?thesis by (intro that(2)) (simp_all add: same)
          next
            case False
            show ?thesis by (rule that(3) [OF pair first second False cat True]) (use run False in simp_all)
          qed
        qed
      qed
    qed
  qed
qed

lemma fuse_expert_honest:
  assumes "layout_ok ck" "resolved ck a" "resolved ck b" "honest_experts ck c"
  shows "honest_experts ck (fst (fuse_expert ck a b expert c))"
proof -
  obtain c' r where run: "fuse_expert ck a b expert c = (c', r)" by (cases "fuse_expert ck a b expert c")
  then show ?thesis
  proof (cases rule: fuse_expert_outcome)
    case 1
    show ?thesis unfolding run fst_conv 1(1) by (rule assms(4))
  next
    case 2
    have "set (ec_entries c') \<subseteq> set (ec_entries c)" unfolding 2(2) by (auto simp: set_delete)
    then show ?thesis unfolding run fst_conv by (rule honest_subset [OF assms(4)])
  next
    case (3 e1 e2 combined)
    note h1 = honest_single [OF assms(1,2) honest_lookup [OF assms(4) 3(2)]]
      and h2 = honest_single [OF assms(1,3) honest_lookup [OF assms(4) 3(3)]]
    have "read_expert_pair ck a b expert = Inr combined" by (rule concatenated_pair [OF h1 h2 3(5)])
    then have "honest_matrix ck (pair_key a b expert) combined" using assms(2,3) by (auto simp: honest_matrix_def pair_key_def)
    then have entry: "honest_entry ck (pair_key a b expert) \<lparr>cm_matrix = combined, cm_bytes = storage_bytes combined, cm_access = n\<rparr>" for n
      by (simp add: honest_entry_def)
    let ?c = "c\<lparr>ec_entries := AList.delete (single_key b expert) (AList.delete (single_key a expert) (ec_entries c))\<rparr>"
    have "honest_experts ck ?c" by (rule honest_subset [OF assms(4)]) (auto simp: set_delete)
    from honest_update [OF this entry, of c'] 3(7) run show ?thesis by (simp add: insert_fused_def Let_def)
  qed
qed

lemma fuse_loop_honest:
  assumes "layout_ok ck" "resolved ck a" "resolved ck b" "honest_experts ck c"
  shows "honest_experts ck (fst (fuse_loop ck a b experts fused c))"
  using assms(4)
proof (induction experts arbitrary: fused c)
  case (Cons expert experts)
  have step: "honest_experts ck (fst (fuse_expert ck a b expert c))" by (rule fuse_expert_honest [OF assms(1-3) Cons.prems])
  then show ?case using Cons.IH
    by (cases "fuse_expert ck a b expert c") (auto simp: bindS_def split: sum.splits option.splits)
qed simp

lemma fuse_honest:
  assumes "layout_ok ck" "honest_experts ck c"
  shows "honest_experts ck (fst (fuse_cached_expert_pair ck n1 n2 c))"
proof (cases "resolve_pair ck n1 n2")
  case (Inr ab)
  then obtain a b where "resolve_pair ck n1 n2 = Inr (a, b)" by (cases ab) simp
  moreover from this resolve_pair_resolved have "resolved ck a" "resolved ck b" by auto
  ultimately show ?thesis using assms fuse_loop_honest
    by (simp add: fuse_cached_expert_pair_def bindS_lift fuse_pair_def)
qed (simp add: fuse_cached_expert_pair_def bindS_lift assms(2))

section \<open>Runs\<close>

text \<open>What callers do to the cache, in any order; the last three are the steps of a full warmup.\<close>

datatype expert_op =
    LoadOne string nat
  | LoadPair string string nat
  | Configure nat
  | Fuse string string
  | Pin

definition expert_step :: "checkpoint \<Rightarrow> expert_op \<Rightarrow> expert_cache \<Rightarrow> expert_cache" where
  "expert_step ck op c = (case op of
      LoadOne name expert \<Rightarrow> fst (load_expert_matrix ck name expert c)
    | LoadPair first second expert \<Rightarrow> fst (load_expert_pair ck first second expert c)
    | Configure capacity \<Rightarrow> configure capacity
    | Fuse first second \<Rightarrow> fst (fuse_cached_expert_pair ck first second c)
    | Pin \<Rightarrow> fst (mark_expert_cache_fully_resident c))"

definition expert_run :: "checkpoint \<Rightarrow> expert_op list \<Rightarrow> expert_cache" where
  "expert_run ck ops = fold (expert_step ck) ops cache_default"

lemma mark_simps: "fst (mark_expert_cache_fully_resident c) = (if 0 < ec_capacity c \<and> ec_entries c \<noteq> [] then mark_fully_resident c else c)"
  by (simp add: mark_expert_cache_fully_resident_def)

lemma expert_step_honest:
  assumes "layout_ok ck" "honest_experts ck c"
  shows "honest_experts ck (expert_step ck op c)"
proof (cases op)
  case (Configure capacity)
  then show ?thesis by (simp add: expert_step_def configure_def cache_default_def honest_experts_def)
next
  case Pin
  then show ?thesis using assms(2) by (simp add: expert_step_def mark_simps mark_fully_resident_def honest_experts_def)
qed (use assms load_single(2) load_pair(2) fuse_honest in \<open>simp_all add: expert_step_def\<close>)

lemma expert_run_honest: "layout_ok ck \<Longrightarrow> honest_experts ck (expert_run ck ops)"
proof -
  assume layout: "layout_ok ck"
  have "honest_experts ck c \<Longrightarrow> honest_experts ck (fold (expert_step ck) ops c)" for c
    by (induction ops arbitrary: c) (simp_all add: expert_step_honest [OF layout])
  moreover have "honest_experts ck cache_default" by (simp add: honest_experts_def cache_default_def)
  ultimately show ?thesis unfolding expert_run_def by blast
qed

section \<open>A small checkpoint\<close>

text \<open>Three tensors of two experts with one row of two bytes each, one after the other.\<close>

definition small_tensor :: "nat \<Rightarrow> tensor_info" where
  "small_tensor offset = \<lparr>ti_dtype = ggml_dtype.F32, ti_shape = [2, 1, 2], ti_offset = offset\<rparr>"

definition small_checkpoint :: "string \<Rightarrow> string \<Rightarrow> string \<Rightarrow> checkpoint" where
  "small_checkpoint n1 n2 n3 = \<lparr>
     ck_tensor = (\<lambda>name. if name = n1 then Some (small_tensor 0) else if name = n2 then Some (small_tensor 4)
        else if name = n3 then Some (small_tensor 8) else None),
     ck_data_offset = 0, ck_read = (\<lambda>start len. Some (map (\<lambda>i. of_nat (start + i)) [0..<len])),
     ck_block_size = (\<lambda>d. 1), ck_type_size = (\<lambda>d. 1),
     ck_accepts = (\<lambda>d rows columns raw. length raw = rows * columns)\<rparr>"

abbreviation small_experts :: "nat \<Rightarrow> expert_tensor" where
  "small_experts start \<equiv> \<lparr>et_dtype = ggml_dtype.F32, et_expert_count = 2, et_rows = 1, et_columns = 2, et_expert_bytes = 2, et_start = start\<rparr>"

lemma small_resolve:
  "resolve_experts (small_checkpoint n1 n2 n3) name =
    (if name = n1 then Inr (small_experts 0) else if name = n2 then Inr (small_experts 4)
     else if name = n3 then Inr (small_experts 8) else Inl gguf_error.MissingTensor)"
  by (simp add: resolve_experts_def small_checkpoint_def small_tensor_def ensure_def checked_mul_def saturating_add_def usize_max_def)

lemma small_layout: "layout_ok (small_checkpoint n1 n2 n3)"
  unfolding layout_ok_def small_resolve by (auto split: if_splits)

lemma small_read:
  "read_expert (small_checkpoint n1 n2 n3) (small_experts start) expert =
    (if expert * 2 \<le> usize_max then Inr [of_nat (saturating_add start (expert * 2)), of_nat (saturating_add start (expert * 2) + 1)] else Inl OffsetOverflow)"
  by (simp add: read_expert_def small_checkpoint_def checked_mul_def numeral_2_eq_2)

lemma small_new:
  "matrix_new (small_checkpoint n1 n2 n3) ggml_dtype.F32 rows columns raw =
    (if length raw = rows * columns then Inr \<lparr>qm_dtype = ggml_dtype.F32, qm_rows = rows, qm_columns = columns, qm_data = raw\<rparr>
     else Inl gguf_error.BadTensor)"
  by (simp add: matrix_new_def small_checkpoint_def ensure_def executable_dtype_def)

lemmas small_simps = small_resolve small_new small_read [unfolded One_nat_def] ensure_def usize_max_def saturating_add_def

section \<open>Properties\<close>

text \<open>
  C14. Whatever was loaded, evicted, fused and pinned before, loading an expert or a pair through
  the cache gives what reading it from the checkpoint gives: the same matrix or the same error.
  Fusing the members of a pair is invisible, and evaluating a layer may take an expert's weights
  to be a function of its index.
\<close>

theorem expert_cache_is_transparent:
  assumes "layout_ok ck"
  shows "snd (load_expert_matrix ck name expert (expert_run ck ops)) = file_expert ck name expert
    \<and> snd (load_expert_pair ck first second expert (expert_run ck ops)) = file_pair ck first second expert"
  using load_single(1) [OF assms expert_run_honest [OF assms]] load_pair(1) [OF assms expert_run_honest [OF assms]] by blast

lemma expert_cache_is_transparent_witness:
  "snd (load_expert_matrix (small_checkpoint ''g'' ''u'' ''d'') ''d'' 1
      (expert_run (small_checkpoint ''g'' ''u'' ''d'')
        [Configure 9, LoadOne ''g'' 0, LoadOne ''u'' 0, LoadOne ''g'' 1, LoadOne ''u'' 1, Fuse ''g'' ''u'', Pin, LoadOne ''d'' 1, LoadOne ''d'' 0]))
      = Inr \<lparr>qm_dtype = ggml_dtype.F32, qm_rows = 1, qm_columns = 2, qm_data = [10, 11]\<rparr>
    \<and> snd (load_expert_pair (small_checkpoint ''g'' ''u'' ''d'') ''g'' ''u'' 1
      (expert_run (small_checkpoint ''g'' ''u'' ''d'')
        [Configure 9, LoadOne ''g'' 0, LoadOne ''u'' 0, LoadOne ''g'' 1, LoadOne ''u'' 1, Fuse ''g'' ''u'', Pin, LoadOne ''d'' 1, LoadOne ''d'' 0]))
      = Inr \<lparr>qm_dtype = ggml_dtype.F32, qm_rows = 2, qm_columns = 2, qm_data = [2, 3, 6, 7]\<rparr>"
proof -
  let ?ck = "small_checkpoint ''g'' ''u'' ''d''"
  have one: "file_expert ?ck ''d'' 1 = Inr \<lparr>qm_dtype = ggml_dtype.F32, qm_rows = 1, qm_columns = 2, qm_data = [10, 11]\<rparr>"
    by (simp add: file_expert_def read_expert_matrix_def small_simps)
  have two: "file_pair ?ck ''g'' ''u'' 1 = Inr \<lparr>qm_dtype = ggml_dtype.F32, qm_rows = 2, qm_columns = 2, qm_data = [2, 3, 6, 7]\<rparr>"
    by (simp add: file_pair_def resolve_pair_def read_expert_pair_def small_simps)
  show ?thesis using expert_cache_is_transparent [OF small_layout [of "''g''" "''u''" "''d''"],
      of "''d''" 1 "[Configure 9, LoadOne ''g'' 0, LoadOne ''u'' 0, LoadOne ''g'' 1, LoadOne ''u'' 1, Fuse ''g'' ''u'', Pin, LoadOne ''d'' 1, LoadOne ''d'' 0]" "''g''" "''u''"]
    unfolding one two .
qed

end
