(* ===== verification/Expert_Books.thy ===== *)
theory Expert_Books
  imports Expert_Cache
begin

text \<open>
  The books of the expert cache: its resident bytes are those of its entries and stay within the
  capacity, every entry can be evicted, and the queue is in the order of use.
\<close>

section \<open>Association lists with sizes\<close>

abbreviation bytes_of :: "(matrix_key \<times> cached_matrix) list \<Rightarrow> nat" where
  "bytes_of es \<equiv> sum_list (map (\<lambda>(key, entry). cm_bytes entry) es)"

abbreviation stamp :: "matrix_key \<times> cached_matrix \<Rightarrow> matrix_key \<times> nat" where
  "stamp \<equiv> \<lambda>(key, entry). (key, cm_access entry)"

lemma set_update:
  "distinct (map fst es) \<Longrightarrow> set (AList.update k e es) = insert (k, e) {p \<in> set es. fst p \<noteq> k}"
  by (induction es) force+

lemma bytes_update_new: "map_of es k = None \<Longrightarrow> bytes_of (AList.update k e es) = bytes_of es + cm_bytes e"
  by (induction es) (auto split: if_splits)

lemma bytes_update_old:
  "map_of es k = Some old \<Longrightarrow> bytes_of (AList.update k e es) + cm_bytes old = bytes_of es + cm_bytes e"
  by (induction es) (auto split: if_splits)

lemma bytes_delete:
  "distinct (map fst es) \<Longrightarrow> map_of es k = Some e \<Longrightarrow> bytes_of (AList.delete k es) + cm_bytes e = bytes_of es"
  by (induction es) (auto simp: delete_absent)

section \<open>The invariant\<close>

text \<open>Everything but the queue, then the queue.\<close>

definition books :: "expert_cache \<Rightarrow> bool" where
  "books c \<longleftrightarrow> distinct (map fst (ec_entries c)) \<and> ec_resident c = bytes_of (ec_entries c) \<and> ec_resident c \<le> ec_capacity c
     \<and> (ec_capacity c = 0 \<longrightarrow> ec_entries c = [])
     \<and> (\<forall>(key, entry) \<in> set (ec_entries c). cm_bytes entry = storage_bytes (cm_matrix entry) \<and> cm_access entry \<le> ec_clock c)
     \<and> inj_on (\<lambda>(key, entry). cm_access entry) (set (ec_entries c))"

definition in_order :: "nat \<Rightarrow> (matrix_key \<times> nat) list \<Rightarrow> bool" where
  "in_order clock lru \<longleftrightarrow> sorted (map snd lru) \<and> (\<forall>(key, access) \<in> set lru. access \<le> clock)"

definition evictable :: "expert_cache \<Rightarrow> bool" where
  "evictable c \<longleftrightarrow> stamp ` set (ec_entries c) \<subseteq> set (ec_lru c)"

definition tracked :: "expert_cache \<Rightarrow> bool" where
  "tracked c \<longleftrightarrow> ec_pinned c \<or> evictable c"

definition ledger :: "expert_cache \<Rightarrow> bool" where
  "ledger c \<longleftrightarrow> books c \<and> in_order (ec_clock c) (ec_lru c)"

lemma booksD:
  assumes "books c"
  shows "distinct (map fst (ec_entries c))" "ec_resident c = bytes_of (ec_entries c)" "ec_resident c \<le> ec_capacity c"
    "(key, entry) \<in> set (ec_entries c) \<Longrightarrow> cm_bytes entry = storage_bytes (cm_matrix entry)"
    "(key, entry) \<in> set (ec_entries c) \<Longrightarrow> cm_access entry \<le> ec_clock c"
    "inj_on (\<lambda>(key, entry). cm_access entry) (set (ec_entries c))" "ec_capacity c = 0 \<Longrightarrow> ec_entries c = []"
  using assms by (auto simp: books_def)

lemma books_cong:
  "ec_entries c' = ec_entries c \<Longrightarrow> ec_resident c' = ec_resident c \<Longrightarrow> ec_capacity c' = ec_capacity c \<Longrightarrow> ec_clock c \<le> ec_clock c'
    \<Longrightarrow> books c \<Longrightarrow> books c'"
  by (fastforce simp: books_def)

lemma in_order_later: "in_order clock lru \<Longrightarrow> clock \<le> clock' \<Longrightarrow> in_order clock' lru"
  by (fastforce simp: in_order_def)

lemma in_order_push: "in_order clock lru \<Longrightarrow> clock \<le> access \<Longrightarrow> in_order access (lru @ [(key, access)])"
  by (fastforce simp: in_order_def sorted_append)

lemma in_order_suffix: "in_order clock (popped @ lru) \<Longrightarrow> in_order clock lru"
  by (auto simp: in_order_def sorted_append)

lemma set_current_lru: "set (current_lru c) = stamp ` set (ec_entries c)"
  by (simp add: current_lru_def)

lemma current_lru_in_order: "books c \<Longrightarrow> in_order (ec_clock c) (current_lru c)"
  by (auto simp: in_order_def set_current_lru books_def) (auto simp: current_lru_def)

lemma compact_ledger: "ledger c \<Longrightarrow> ledger (compact_lru_if_needed c)"
  using books_cong [of "c\<lparr>ec_lru := current_lru c\<rparr>" c] current_lru_in_order [of c]
  by (auto simp: ledger_def compact_lru_if_needed_def)

lemma compact_evictable: "evictable c \<Longrightarrow> evictable (compact_lru_if_needed c)"
  by (simp add: evictable_def compact_lru_if_needed_def set_current_lru)

lemma unpin_ledger: "ledger c \<Longrightarrow> ledger (unpin c)"
  using books_cong [of "unpin c" c] current_lru_in_order [of c] by (auto simp: ledger_def) (simp add: unpin_def)

lemma unpin_evictable: "tracked c \<Longrightarrow> evictable (unpin c)"
  by (auto simp: tracked_def evictable_def unpin_def set_current_lru)

section \<open>Making room\<close>

text \<open>One round of the loop: the front of the queue is evicted when it is current.\<close>

definition evict_front :: "matrix_key \<Rightarrow> nat \<Rightarrow> expert_cache \<Rightarrow> expert_cache" where
  "evict_front oldest access c = (case map_of (ec_entries c) oldest of
     Some entry \<Rightarrow>
       if cm_access entry = access
       then c\<lparr>ec_entries := AList.delete oldest (ec_entries c), ec_resident := ec_resident c - cm_bytes entry,
              ec_evictions := ec_evictions c + 1\<rparr>
       else c
   | None \<Rightarrow> c)"

lemma make_room_loop_step:
  "make_room_loop bytes ((oldest, access) # lru) c =
     (if ec_resident c + bytes \<le> ec_capacity c then c\<lparr>ec_lru := (oldest, access) # lru\<rparr>
      else make_room_loop bytes lru (evict_front oldest access c))"
  by (simp add: evict_front_def)

lemma evict_front_simps [simp]:
  "ec_capacity (evict_front k a c) = ec_capacity c" "ec_clock (evict_front k a c) = ec_clock c"
  "ec_pinned (evict_front k a c) = ec_pinned c" "ec_requests (evict_front k a c) = ec_requests c"
  "ec_loaded (evict_front k a c) = ec_loaded c"
  by (auto simp: evict_front_def split: option.splits)

lemma evict_front_entries:
  assumes "books c"
  shows "set (ec_entries (evict_front k a c)) = {p \<in> set (ec_entries c). stamp p \<noteq> (k, a)}"
proof (cases "map_of (ec_entries c) k")
  case (Some entry)
  have only: "e = entry" if "(k, e) \<in> set (ec_entries c)" for e
    using that Some map_of_is_SomeI [OF booksD(1) [OF assms], of k e] by simp
  show ?thesis
  proof (cases "cm_access entry = a")
    case True
    have "stamp p = (k, a) \<longleftrightarrow> fst p = k" if "p \<in> set (ec_entries c)" for p
      using only that True by (cases p) auto
    moreover have "set (ec_entries (evict_front k a c)) = {p \<in> set (ec_entries c). fst p \<noteq> k}"
      using Some True by (auto simp: evict_front_def set_delete)
    ultimately show ?thesis by blast
  next
    case False
    have "stamp p \<noteq> (k, a)" if "p \<in> set (ec_entries c)" for p
      using only that False by (cases p) auto
    then show ?thesis using Some False by (auto simp: evict_front_def)
  qed
next
  case None
  then have "evict_front k a c = c" by (simp add: evict_front_def)
  with None show ?thesis by (auto simp: map_of_eq_None_iff image_iff)
qed

lemma evict_front_books:
  assumes "books c"
  shows "books (evict_front k a c)"
proof -
  have "distinct (map fst (ec_entries (evict_front k a c)))"
    using booksD(1) [OF assms] by (simp add: evict_front_def distinct_delete split: option.splits)
  moreover have "ec_resident (evict_front k a c) = bytes_of (ec_entries (evict_front k a c))"
    using booksD(2) [OF assms] bytes_delete [OF booksD(1) [OF assms], of k]
    by (fastforce simp: evict_front_def split: option.splits)
  moreover have "ec_resident (evict_front k a c) \<le> ec_capacity c"
    using booksD(3) [OF assms] by (auto simp: evict_front_def split: option.splits)
  moreover have "inj_on (\<lambda>(key, entry). cm_access entry) (set (ec_entries (evict_front k a c)))"
    by (rule inj_on_subset [OF booksD(6) [OF assms]]) (simp add: evict_front_entries [OF assms])
  moreover have "ec_capacity c = 0 \<longrightarrow> ec_entries (evict_front k a c) = []"
    using booksD(7) [OF assms] by (simp add: evict_front_def)
  ultimately show ?thesis using assms unfolding books_def [of "evict_front k a c"]
    by (auto simp: evict_front_entries dest: booksD(4,5))
qed

lemma make_room_loop_ok:
  assumes "books c" "stamp ` set (ec_entries c) \<subseteq> set lru" "bytes \<le> ec_capacity c"
  shows "\<exists>popped. books (make_room_loop bytes lru c) \<and> lru = popped @ ec_lru (make_room_loop bytes lru c)
    \<and> evictable (make_room_loop bytes lru c)
    \<and> ec_resident (make_room_loop bytes lru c) + bytes \<le> ec_capacity (make_room_loop bytes lru c)
    \<and> ec_capacity (make_room_loop bytes lru c) = ec_capacity c \<and> ec_clock (make_room_loop bytes lru c) = ec_clock c
    \<and> set (ec_entries (make_room_loop bytes lru c)) \<subseteq> set (ec_entries c)
    \<and> stamp ` (set (ec_entries c) - set (ec_entries (make_room_loop bytes lru c))) \<subseteq> set popped"
  using assms
proof (induction lru arbitrary: c)
  case Nil
  then have "ec_entries c = []" by simp
  with Nil.prems(1) have "ec_resident c = 0" by (simp add: books_def)
  with Nil \<open>ec_entries c = []\<close> show ?case by (simp add: evictable_def books_def)
next
  case (Cons front lru)
  obtain oldest access where front: "front = (oldest, access)" by (cases front)
  show ?case
  proof (cases "ec_resident c + bytes \<le> ec_capacity c")
    case True
    have "books (c\<lparr>ec_lru := front # lru\<rparr>)" by (rule books_cong [OF _ _ _ _ Cons.prems(1)]) simp_all
    with True front Cons.prems(2) show ?thesis
      by (intro exI [of _ "[]"]) (simp add: evictable_def del: make_room_loop.simps add: make_room_loop_step)
  next
    case False
    let ?c = "evict_front oldest access c"
    have "stamp ` set (ec_entries ?c) \<subseteq> set lru"
      using Cons.prems(2) front by (force simp: evict_front_entries [OF Cons.prems(1)])
    from Cons.IH [OF evict_front_books [OF Cons.prems(1)] this] Cons.prems(3) obtain popped where
      rest: "books (make_room_loop bytes lru ?c)" "lru = popped @ ec_lru (make_room_loop bytes lru ?c)"
        "evictable (make_room_loop bytes lru ?c)"
        "ec_resident (make_room_loop bytes lru ?c) + bytes \<le> ec_capacity (make_room_loop bytes lru ?c)"
        "ec_capacity (make_room_loop bytes lru ?c) = ec_capacity c" "ec_clock (make_room_loop bytes lru ?c) = ec_clock c"
        "set (ec_entries (make_room_loop bytes lru ?c)) \<subseteq> set (ec_entries ?c)"
        "stamp ` (set (ec_entries ?c) - set (ec_entries (make_room_loop bytes lru ?c))) \<subseteq> set popped"
      by auto
    have step: "make_room_loop bytes (front # lru) c = make_room_loop bytes lru ?c"
      using False front by (simp del: make_room_loop.simps add: make_room_loop_step)
    have "stamp ` (set (ec_entries c) - set (ec_entries (make_room_loop bytes lru ?c))) \<subseteq> set (front # popped)"
      using rest(8) front by (auto simp: evict_front_entries [OF Cons.prems(1)])
    moreover have "set (ec_entries (make_room_loop bytes lru ?c)) \<subseteq> set (ec_entries c)"
      using rest(7) by (auto simp: evict_front_entries [OF Cons.prems(1)])
    ultimately show ?thesis unfolding step using rest(1-6) by (intro exI [of _ "front # popped"]) simp
  qed
qed

section \<open>The operations keep the books\<close>

text \<open>An entry used or inserted now carries the newest stamp, and joins the queue at its end.\<close>

lemma books_update:
  assumes "books c" "ec_entries c' = AList.update key entry (ec_entries c)"
    and "cm_bytes entry = storage_bytes (cm_matrix entry)" "cm_access entry = ec_clock c'" "ec_clock c < ec_clock c'"
    and "ec_resident c' = bytes_of (ec_entries c')" "ec_resident c' \<le> ec_capacity c'" "0 < ec_capacity c'"
  shows "books c'"
proof -
  note entries = set_update [OF booksD(1) [OF assms(1)], of key entry, folded assms(2)]
  have old: "cm_access e < cm_access entry" if "(k, e) \<in> set (ec_entries c)" for k e
    using booksD(5) [OF assms(1) that] assms(4,5) by simp
  have "distinct (map fst (ec_entries c'))"
    unfolding assms(2) by (rule distinct_update [OF booksD(1) [OF assms(1)]])
  moreover have "inj_on (\<lambda>(key, entry). cm_access entry) (set (ec_entries c'))"
    unfolding entries inj_on_insert using old
    by (auto intro: inj_on_subset [OF booksD(6) [OF assms(1)]]) (force dest: old)
  moreover have "\<forall>(key, entry) \<in> set (ec_entries c'). cm_bytes entry = storage_bytes (cm_matrix entry) \<and> cm_access entry \<le> ec_clock c'"
    unfolding entries using assms(3,4) old booksD(4) [OF assms(1)] by (fastforce dest: old)
  ultimately show ?thesis using assms(6-8) by (simp add: books_def)
qed

lemma evictable_push:
  assumes "evictable c" "books c" "ec_entries c' = AList.update key entry (ec_entries c)"
    and "ec_lru c' = ec_lru c @ [(key, cm_access entry)]"
  shows "evictable c'"
  using assms(1,4) set_update [OF booksD(1) [OF assms(2)], of key entry, folded assms(3)]
  by (auto simp: evictable_def)

lemma insert_entry_ledger:
  assumes "books c" "ec_resident c + storage_bytes m \<le> ec_capacity c" "0 < ec_capacity c"
  shows "books (insert_entry key m c)"
proof (rule books_update [OF assms(1)])
  let ?e = "\<lparr>cm_matrix = m, cm_bytes = storage_bytes m, cm_access = ec_clock c + 1\<rparr>"
  show "ec_entries (insert_entry key m c) = AList.update key ?e (ec_entries c)" by (simp add: insert_entry_def)
  show "ec_resident (insert_entry key m c) = bytes_of (ec_entries (insert_entry key m c))"
  proof (cases "map_of (ec_entries c) key")
    case None
    then show ?thesis using bytes_update_new [OF None, of ?e] booksD(2) [OF assms(1)] by (simp add: insert_entry_def)
  next
    case (Some old)
    then show ?thesis
      using bytes_update_old [OF Some, of ?e] bytes_delete [OF booksD(1) [OF assms(1)] Some] booksD(2) [OF assms(1)]
      by (simp add: insert_entry_def)
  qed
  show "ec_resident (insert_entry key m c) \<le> ec_capacity (insert_entry key m c)"
    using assms(2) by (auto simp: insert_entry_def split: option.splits)
qed (use assms(3) in \<open>simp_all add: insert_entry_def\<close>)

text \<open>Inserting: everything in between is summed up by what the loop leaves.\<close>

lemma record_insert_ok:
  assumes "ledger c" "tracked c"
  shows "ledger (record_read_and_insert key m c)" "evictable (record_read_and_insert key m c)"
proof -
  let ?c = "(unpin c)\<lparr>ec_loaded := saturating_add (ec_loaded (unpin c)) (storage_bytes m)\<rparr>"
  have c: "books ?c" "evictable ?c" "in_order (ec_clock ?c) (ec_lru ?c)"
    using unpin_ledger [OF assms(1)] unpin_evictable [OF assms(2)] books_cong [of ?c "unpin c"]
    by (simp_all add: ledger_def evictable_def)
  have "ledger (record_read_and_insert key m c) \<and> evictable (record_read_and_insert key m c)"
  proof (cases "ec_capacity ?c = 0 \<or> ec_capacity ?c < storage_bytes m")
    case True
    then have "record_read_and_insert key m c = ?c" by (auto simp: record_read_and_insert_def Let_def)
    with c show ?thesis by (simp add: ledger_def)
  next
    case False
    let ?r = "make_room (storage_bytes m) ?c"
    let ?i = "insert_entry key m ?r"
    let ?p = "?i\<lparr>ec_lru := ec_lru ?i @ [(key, ec_clock ?i)]\<rparr>"
    have fits: "storage_bytes m \<le> ec_capacity ?c" using False by simp
    from make_room_loop_ok [OF c(1) c(2) [unfolded evictable_def] fits, folded make_room_def] obtain popped where
      room: "books ?r" "ec_lru ?c = popped @ ec_lru ?r" "evictable ?r"
        "ec_resident ?r + storage_bytes m \<le> ec_capacity ?r" "ec_clock ?r = ec_clock ?c"
        "ec_capacity ?r = ec_capacity ?c" by blast
    have i: "books ?i" by (rule insert_entry_ledger [OF room(1,4)]) (use room(6) False in simp)
    have p: "books ?p" by (rule books_cong [OF _ _ _ _ i]) simp_all
    have "evictable ?p"
      by (rule evictable_push [OF room(3,1),
            where entry = "\<lparr>cm_matrix = m, cm_bytes = storage_bytes m, cm_access = ec_clock ?r + 1\<rparr>" and key = key])
         (simp_all add: insert_entry_def)
    moreover have "in_order (ec_clock ?r) (ec_lru ?r)" using c(3) room(2,5) in_order_suffix by metis
    then have "in_order (ec_clock ?p) (ec_lru ?p)"
      using in_order_push [of "ec_clock ?r" "ec_lru ?r" "ec_clock ?r + 1" key] by (simp add: insert_entry_def)
    moreover have "record_read_and_insert key m c = compact_lru_if_needed ?p"
      using False by (simp add: record_read_and_insert_def Let_def)
    ultimately show ?thesis
      using compact_ledger [of ?p, unfolded ledger_def [of ?p], OF conjI [OF p]] compact_evictable [of ?p] by (simp only:)
  qed
  then show "ledger (record_read_and_insert key m c)" "evictable (record_read_and_insert key m c)" by simp_all
qed

text \<open>What an insertion evicts was used before everything it keeps.\<close>

lemma record_insert_evicts_oldest:
  assumes "ledger c" "tracked c"
    and "(k1, e1) \<in> set (ec_entries c)" "map_of (ec_entries (record_read_and_insert key m c)) k1 = None"
    and "(k2, e2) \<in> set (ec_entries c)" "map_of (ec_entries (record_read_and_insert key m c)) k2 \<noteq> None" "k2 \<noteq> key"
  shows "cm_access e1 < cm_access e2"
proof -
  let ?c = "(unpin c)\<lparr>ec_loaded := saturating_add (ec_loaded (unpin c)) (storage_bytes m)\<rparr>"
  let ?r = "make_room (storage_bytes m) ?c"
  have c: "books ?c" "evictable ?c" "in_order (ec_clock ?c) (ec_lru ?c)"
    using unpin_ledger [OF assms(1)] unpin_evictable [OF assms(2)] books_cong [of ?c "unpin c"]
    by (simp_all add: ledger_def evictable_def)
  have fits: "0 < ec_capacity ?c" "storage_bytes m \<le> ec_capacity ?c"
    using assms(3,4) weak_map_of_SomeI [OF assms(3)] by (auto simp: record_read_and_insert_def Let_def split: if_splits)
  then have run: "map_of (ec_entries (record_read_and_insert key m c)) k = (if k = key then Some
      \<lparr>cm_matrix = m, cm_bytes = storage_bytes m, cm_access = ec_clock ?r + 1\<rparr> else map_of (ec_entries ?r) k)" for k
    by (simp add: record_read_and_insert_def Let_def insert_entry_def update_conv')
  from make_room_loop_ok [OF c(1) c(2) [unfolded evictable_def] fits(2), folded make_room_def] obtain popped where
    room: "books ?r" "ec_lru ?c = popped @ ec_lru ?r" "evictable ?r" "set (ec_entries ?r) \<subseteq> set (ec_entries ?c)"
      "stamp ` (set (ec_entries ?c) - set (ec_entries ?r)) \<subseteq> set popped" by blast
  have gone: "map_of (ec_entries ?r) k1 = None" using assms(4) unfolding run by (simp split: if_splits)
  then have "(k1, e1) \<notin> set (ec_entries ?r)" using weak_map_of_SomeI by fastforce
  with room(5) assms(3) have popped: "(k1, cm_access e1) \<in> set popped" by force
  obtain e where kept: "map_of (ec_entries ?r) k2 = Some e" using assms(6,7) unfolding run by auto
  then have e: "(k2, e) \<in> set (ec_entries ?r)" by (rule map_of_SomeD)
  with room(4) have "(k2, e) \<in> set (ec_entries c)" by auto
  with assms(5) c(1) have "e = e2" by (intro eq_key_imp_eq_value [of "ec_entries c"]) (auto dest: booksD(1))
  then have rest: "(k2, cm_access e2) \<in> set (ec_lru ?r)" using e room(3) by (force simp: evictable_def)
  have "sorted (map snd (popped @ ec_lru ?r))" using c(3) room(2) by (simp add: in_order_def)
  with popped rest have "cm_access e1 \<le> cm_access e2" by (force simp: sorted_append)
  moreover have "k1 \<noteq> k2" using gone kept by auto
  then have "cm_access e1 \<noteq> cm_access e2"
    using inj_onD [OF booksD(6) [OF c(1)], of "(k1, e1)" "(k2, e2)"] assms(3,5) by auto
  ultimately show ?thesis by simp
qed

lemma get_ok:
  assumes "ledger c"
  shows "ledger (fst (cache_get key c))" "tracked c \<Longrightarrow> tracked (fst (cache_get key c))"
proof -
  have miss: "ledger c' \<and> (tracked c \<longrightarrow> tracked c')"
    if "ec_entries c' = ec_entries c" "ec_resident c' = ec_resident c" "ec_capacity c' = ec_capacity c" "ec_clock c \<le> ec_clock c'"
      "ec_lru c' = ec_lru c" "ec_pinned c' = ec_pinned c" for c'
    using that assms books_cong [OF that(1-4)] in_order_later [of "ec_clock c" "ec_lru c" "ec_clock c'"]
    by (simp add: ledger_def tracked_def evictable_def)
  have "ledger (fst (cache_get key c)) \<and> (tracked c \<longrightarrow> tracked (fst (cache_get key c)))"
  proof (cases "ec_capacity c = 0 \<or> ec_pinned c \<or> map_of (ec_entries c) key = None")
    case True
    then show ?thesis by (intro miss) (auto simp: cache_get_def Let_def split: option.splits)
  next
    case False
    then obtain entry where entry: "map_of (ec_entries c) key = Some entry" by auto
    let ?e = "entry\<lparr>cm_access := ec_clock c + 1\<rparr>"
    let ?h = "c\<lparr>ec_requests := ec_requests c + 1, ec_clock := ec_clock c + 1, ec_hits := ec_hits c + 1,
      ec_entries := AList.update key ?e (ec_entries c), ec_lru := ec_lru c @ [(key, ec_clock c + 1)]\<rparr>"
    have hit: "fst (cache_get key c) = compact_lru_if_needed ?h" using False entry by (simp add: cache_get_def)
    have c: "books c" using assms by (simp add: ledger_def)
    have "books ?h"
      by (rule books_update [OF c, where key = key and entry = ?e])
        (use False bytes_update_old [OF entry, of ?e] booksD(2,3,4) [OF c] map_of_SomeD [OF entry] in simp_all)
    moreover have "in_order (ec_clock ?h) (ec_lru ?h)"
      using assms in_order_push [of "ec_clock c" "ec_lru c" "ec_clock c + 1" key] by (simp add: ledger_def)
    moreover have "evictable ?h" if "tracked c"
      by (rule evictable_push [OF _ c, where key = key and entry = ?e]) (use that False in \<open>simp_all add: tracked_def\<close>)
    ultimately show ?thesis unfolding hit
      using compact_ledger [of ?h, unfolded ledger_def [of ?h]] compact_evictable [of ?h] unfolding tracked_def by blast
  qed
  then show "ledger (fst (cache_get key c))" "tracked c \<Longrightarrow> tracked (fst (cache_get key c))" by simp_all
qed

abbreviation keys :: "expert_cache \<Rightarrow> matrix_key set" where
  "keys c \<equiv> fst ` set (ec_entries c)"

lemma get_keeps:
  "keys (fst (cache_get key c)) = keys c" "ec_pinned (fst (cache_get key c)) = ec_pinned c"
  "ec_capacity (fst (cache_get key c)) = ec_capacity c" "ec_resident (fst (cache_get key c)) = ec_resident c"
  by (auto simp: cache_get_def Let_def dom_update split: option.splits dest: map_of_SomeD intro: rev_image_eqI)

lemma load_through_ok:
  assumes "ledger c" "tracked c"
  shows "ledger (fst (load_through key from_file c)) \<and> tracked (fst (load_through key from_file c))"
proof -
  obtain c' r where get: "cache_get key c = (c', r)" by (cases "cache_get key c")
  have "ledger c'" "tracked c'" using get_ok [OF assms(1), of key] assms(2) get by simp_all
  then show ?thesis using get record_insert_ok [of c' key]
    by (auto simp: load_through_def tracked_def split: option.splits sum.splits)
qed

text \<open>Fusing conserves the bytes.\<close>

lemma fuse_expert_ledger:
  assumes "ledger c" "et_start a \<noteq> et_start b"
  shows "ledger (fst (fuse_expert ck a b expert c))"
proof -
  obtain c' r where run: "fuse_expert ck a b expert c = (c', r)" by (cases "fuse_expert ck a b expert c")
  then show ?thesis
  proof (cases rule: fuse_expert_outcome)
    case 1
    then show ?thesis using run assms(1) by simp
  next
    case 2
    then show ?thesis using assms(2) by (simp add: single_key_def)
  next
    case (3 e1 e2 combined)
    have c: "books c" "in_order (ec_clock c) (ec_lru c)" using assms(1) by (simp_all add: ledger_def)
    let ?e = "\<lparr>cm_matrix = combined, cm_bytes = storage_bytes combined, cm_access = ec_clock c + 1\<rparr>"
    let ?es = "AList.delete (single_key a expert) (ec_entries c)"
    let ?m = "c\<lparr>ec_entries := AList.delete (single_key b expert) ?es\<rparr>"
    let ?d = "?m\<lparr>ec_resident := ec_resident c - cm_bytes e1 - cm_bytes e2\<rparr>"
    have second: "map_of ?es (single_key b expert) = Some e2" using 3(3,4) by simp
    note distinct1 = distinct_delete [OF booksD(1) [OF c(1)]]
    have sums: "bytes_of (ec_entries ?m) + cm_bytes e2 + cm_bytes e1 = ec_resident c"
      using bytes_delete [OF booksD(1) [OF c(1)] 3(2)] bytes_delete [OF distinct1 second] booksD(2) [OF c(1)] by simp
    have sizes: "cm_bytes e1 + cm_bytes e2 = storage_bytes combined"
      using booksD(4) [OF c(1) map_of_SomeD [OF 3(2)]] booksD(4) [OF c(1) map_of_SomeD [OF 3(3)]] 3(6) by simp
    have "inj_on (\<lambda>(key, entry). cm_access entry) (set (ec_entries ?m))"
      by (rule inj_on_subset [OF booksD(6) [OF c(1)]]) (auto simp: set_delete)
    then have d: "books ?d" using c(1) sums distinct_delete [OF distinct1]
      unfolding books_def [of ?d] by (auto simp: set_delete dest: booksD)
    have pair: "map_of (ec_entries ?m) (pair_key a b expert) = None" using 3(1) by (simp add: delete_conv')
    have capacity: "0 < ec_capacity c" using booksD(7) [OF c(1)] 3(2) by fastforce
    have "books c'"
    proof (rule books_update [OF d, where key = "pair_key a b expert" and entry = ?e])
      show "ec_entries c' = AList.update (pair_key a b expert) ?e (ec_entries ?d)"
        unfolding 3(7) by (simp add: insert_fused_def)
      show "ec_resident c' = bytes_of (ec_entries c')"
        using bytes_update_new [OF pair, of ?e] sums unfolding 3(7) by (simp add: insert_fused_def)
      show "ec_resident c' \<le> ec_capacity c'"
        using sums sizes booksD(3) [OF c(1)] unfolding 3(7) by (simp add: insert_fused_def)
    qed (use capacity in \<open>simp_all add: 3(7) insert_fused_def\<close>)
    moreover have "in_order (ec_clock c') (ec_lru c')"
      using in_order_later [OF c(2)] unfolding 3(7) by (simp add: insert_fused_def)
    ultimately show ?thesis using run by (simp add: ledger_def)
  qed
qed

lemma fuse_loop_ledger:
  assumes "et_start a \<noteq> et_start b" "ledger c"
  shows "ledger (fst (fuse_loop ck a b experts fused c))"
  using assms(2)
proof (induction experts arbitrary: fused c)
  case (Cons expert experts)
  have step: "ledger (fst (fuse_expert ck a b expert c))" by (rule fuse_expert_ledger [OF Cons.prems assms(1)])
  then show ?case using Cons.IH
    by (cases "fuse_expert ck a b expert c") (auto simp: bindS_def split: sum.splits option.splits)
qed simp

text \<open>A fuse of a tensor with another one, in terms of the names.\<close>

definition distinct_pair :: "checkpoint \<Rightarrow> string \<Rightarrow> string \<Rightarrow> bool" where
  "distinct_pair ck first second = (case resolve_pair ck first second of
     Inl e \<Rightarrow> True | Inr (a, b) \<Rightarrow> et_start a \<noteq> et_start b)"

lemma fuse_ledger:
  assumes "distinct_pair ck first second" "ledger c"
  shows "ledger (fst (fuse_cached_expert_pair ck first second c))"
  using assms fuse_loop_ledger
  by (auto simp: fuse_cached_expert_pair_def bindS_lift fuse_pair_def distinct_pair_def split: sum.splits prod.splits)

section \<open>Runs\<close>

text \<open>
  The discipline of the callers: a fuse concerns two tensors, and after fuses nothing is loaded
  until the cache is marked (\<open>warm_all_experts\<close> fuses every pair of a layer and then marks). A
  fused entry is not in the queue before.
\<close>

fun disciplined :: "checkpoint \<Rightarrow> bool \<Rightarrow> expert_op list \<Rightarrow> bool" where
  "disciplined ck fusing [] \<longleftrightarrow> True"
| "disciplined ck fusing (LoadOne name expert # ops) \<longleftrightarrow> \<not> fusing \<and> disciplined ck False ops"
| "disciplined ck fusing (LoadPair first second expert # ops) \<longleftrightarrow> \<not> fusing \<and> disciplined ck False ops"
| "disciplined ck fusing (Configure capacity # ops) \<longleftrightarrow> disciplined ck False ops"
| "disciplined ck fusing (Fuse first second # ops) \<longleftrightarrow> distinct_pair ck first second \<and> disciplined ck True ops"
| "disciplined ck fusing (Pin # ops) \<longleftrightarrow> disciplined ck False ops"

lemma load_expert_matrix_ok:
  "ledger c \<Longrightarrow> tracked c \<Longrightarrow> ledger (fst (load_expert_matrix ck name expert c)) \<and> tracked (fst (load_expert_matrix ck name expert c))"
  using load_through_ok
  by (cases "resolve_experts ck name") (auto simp: load_expert_matrix_def load_resolved_expert_matrix_def bindS_lift ensure_def)

lemma load_expert_pair_ok:
  "ledger c \<Longrightarrow> tracked c \<Longrightarrow> ledger (fst (load_expert_pair ck n1 n2 expert c)) \<and> tracked (fst (load_expert_pair ck n1 n2 expert c))"
  using load_through_ok
  by (cases "resolve_pair ck n1 n2")
    (auto simp: load_expert_pair_def load_resolved_expert_pair_def bindS_lift ensure_def split: prod.splits)

lemma configure_ok: "ledger (configure capacity) \<and> tracked (configure capacity)"
  by (simp add: ledger_def books_def in_order_def tracked_def evictable_def configure_def cache_default_def)

lemma mark_ok: "ledger c \<Longrightarrow> ledger (fst (mark_expert_cache_fully_resident c)) \<and> tracked (fst (mark_expert_cache_fully_resident c))"
  using books_cong [of "mark_fully_resident c" c] booksD(7) [of c]
  by (auto simp: mark_simps ledger_def tracked_def mark_fully_resident_def in_order_def evictable_def)

lemma disciplined_runs:
  "disciplined ck fusing ops \<Longrightarrow> ledger c \<Longrightarrow> (\<not> fusing \<Longrightarrow> tracked c) \<Longrightarrow> ledger (fold (expert_step ck) ops c)
    \<and> (disciplined ck fusing (ops @ [LoadOne [] 0]) \<longrightarrow> tracked (fold (expert_step ck) ops c))"
proof (induction ck fusing ops arbitrary: c rule: disciplined.induct)
  case (2 ck fusing name expert ops)
  with load_expert_matrix_ok show ?case by (simp add: expert_step_def)
next
  case (3 ck fusing first second expert ops)
  with load_expert_pair_ok show ?case by (simp add: expert_step_def)
next
  case (4 ck fusing capacity ops)
  with configure_ok show ?case by (simp add: expert_step_def)
next
  case (5 ck fusing first second ops)
  with fuse_ledger show ?case by (simp add: expert_step_def)
next
  case (6 ck fusing ops)
  with mark_ok show ?case by (simp add: expert_step_def)
qed simp

lemma disciplined_prefix: "disciplined ck fusing (ops @ ops') \<Longrightarrow> disciplined ck fusing ops"
  by (induction ck fusing ops rule: disciplined.induct) auto

lemma expert_run_ledger:
  assumes "disciplined ck False ops"
  shows "ledger (expert_run ck ops)"
    and "disciplined ck False (ops @ [LoadOne [] 0]) \<Longrightarrow> tracked (expert_run ck ops)"
  using disciplined_runs [OF assms, of cache_default] configure_ok [of 0]
  by (simp_all add: expert_run_def configure_def) (simp_all add: cache_default_def)

text \<open>A load evicts only what was used before everything it keeps.\<close>

lemma load_through_evicts_oldest:
  assumes "ledger c" "tracked c"
    and "(k1, e1) \<in> set (ec_entries c)" "k1 \<notin> keys (fst (load_through key from_file c))"
    and "(k2, e2) \<in> set (ec_entries c)" "k2 \<in> keys (fst (load_through key from_file c))"
  shows "cm_access e1 < cm_access e2"
proof -
  obtain g r where get: "cache_get key c = (g, r)" by (cases "cache_get key c")
  have k1: "k1 \<in> keys g" using get_keeps(1) [of key c] get assms(3) by (force simp: rev_image_eqI)
  from assms(4) get k1 obtain m where miss: "r = None" "fst (load_through key from_file c) = record_read_and_insert key m g"
    by (auto simp: load_through_def split: option.splits sum.splits)
  have capacity: "ec_capacity c \<noteq> 0" using assms(1,3) booksD(7) [of c] by (cases "ec_capacity c = 0") (auto simp: ledger_def)
  have g: "ec_entries g = ec_entries c" "map_of (ec_entries c) key = None"
    using get miss(1) capacity by (auto simp: cache_get_def Let_def split: if_splits option.splits)
  have ok: "ledger g" "tracked g" using get_ok [OF assms(1), of key] assms(2) get by simp_all
  have "k2 \<noteq> key" using g(2) assms(5) weak_map_of_SomeI by fastforce
  moreover have "map_of (ec_entries (record_read_and_insert key m g)) k1 = None"
    using assms(4) miss(2) by (simp add: map_of_eq_None_iff)
  moreover have "map_of (ec_entries (record_read_and_insert key m g)) k2 \<noteq> None"
    using assms(6) miss(2) by (simp add: map_of_eq_None_iff)
  ultimately show ?thesis using assms(3,5) by (intro record_insert_evicts_oldest [OF ok, of k1 e1 key m k2 e2]) (simp_all add: g(1))
qed

section \<open>Last use\<close>

text \<open>The matrix a load asks for, when the checkpoint has it.\<close>

fun loaded_key :: "checkpoint \<Rightarrow> expert_op \<Rightarrow> matrix_key option" where
  "loaded_key ck (LoadOne name expert) = (case resolve_experts ck name of
     Inl e \<Rightarrow> None | Inr t \<Rightarrow> if expert < et_expert_count t then Some (single_key t expert) else None)"
| "loaded_key ck (LoadPair first second expert) = (case resolve_pair ck first second of
     Inl e \<Rightarrow> None | Inr (a, b) \<Rightarrow> if expert < et_expert_count a then Some (pair_key a b expert) else None)"
| "loaded_key ck _ = None"

fun is_fuse :: "expert_op \<Rightarrow> bool" where
  "is_fuse (Fuse first second) \<longleftrightarrow> True"
| "is_fuse _ \<longleftrightarrow> False"

fun is_load :: "expert_op \<Rightarrow> bool" where
  "is_load (LoadOne name expert) \<longleftrightarrow> True"
| "is_load (LoadPair first second expert) \<longleftrightarrow> True"
| "is_load _ \<longleftrightarrow> False"

text \<open>
  The place in a run, counted from one, of the last load that asked for a key; none is 0. A hit on
  a pinned cache is not a use: \<open>get\<close> leaves the order alone while everything is resident.
\<close>

fun last_use_back :: "checkpoint \<Rightarrow> matrix_key \<Rightarrow> expert_op list \<Rightarrow> nat" where
  "last_use_back ck key [] = 0"
| "last_use_back ck key (op # earlier) =
     (let c = expert_run ck (rev earlier)
      in if loaded_key ck op = Some key \<and> \<not> (ec_pinned c \<and> key \<in> keys c) then length earlier + 1
         else last_use_back ck key earlier)"

definition last_use :: "checkpoint \<Rightarrow> matrix_key \<Rightarrow> expert_op list \<Rightarrow> nat" where
  "last_use ck key ops = last_use_back ck key (rev ops)"

lemma last_use_le: "last_use ck key ops \<le> length ops"
proof -
  have "last_use_back ck key rops \<le> length rops" for rops
    by (induction rops) (auto simp: Let_def)
  from this [of "rev ops"] show ?thesis by (simp add: last_use_def)
qed

lemma last_use_snoc:
  "last_use ck key (ops @ [op]) =
     (if loaded_key ck op = Some key \<and> \<not> (ec_pinned (expert_run ck ops) \<and> key \<in> keys (expert_run ck ops))
      then length ops + 1 else last_use ck key ops)"
  by (auto simp: last_use_def Let_def)

lemma load_step:
  assumes "is_load op"
  shows "case loaded_key ck op of None \<Rightarrow> expert_step ck op c = c
    | Some key \<Rightarrow> \<exists>from_file. expert_step ck op c = fst (load_through key from_file c)"
proof (cases op)
  case (LoadOne name expert)
  then show ?thesis
    by (cases "resolve_experts ck name")
      (auto simp: expert_step_def load_expert_matrix_def load_resolved_expert_matrix_def bindS_lift ensure_def)
next
  case (LoadPair first second expert)
  then show ?thesis
    by (cases "resolve_pair ck first second")
      (auto simp: expert_step_def load_expert_pair_def load_resolved_expert_pair_def bindS_lift ensure_def split: prod.splits)
qed (use assms in simp_all)

text \<open>What a load leaves: the key it asked for is the newest, the rest is what was there.\<close>

lemma record_insert_newest:
  assumes "ledger c" "tracked c" "(k, e) \<in> set (ec_entries (record_read_and_insert key m c))"
  shows "(k, e) \<in> set (ec_entries c) \<or> (k = key \<and> ec_clock c < cm_access e)"
proof -
  let ?c = "(unpin c)\<lparr>ec_loaded := saturating_add (ec_loaded (unpin c)) (storage_bytes m)\<rparr>"
  let ?r = "make_room (storage_bytes m) ?c"
  have c: "books ?c" "evictable ?c"
    using unpin_ledger [OF assms(1)] unpin_evictable [OF assms(2)] books_cong [of ?c "unpin c"]
    by (simp_all add: ledger_def evictable_def)
  have same: "ec_entries ?c = ec_entries c" "ec_clock ?c = ec_clock c" by (simp_all add: unpin_def)
  show ?thesis
  proof (cases "ec_capacity ?c = 0 \<or> ec_capacity ?c < storage_bytes m")
    case True
    then have "record_read_and_insert key m c = ?c" by (auto simp: record_read_and_insert_def Let_def)
    with assms(3) same show ?thesis by simp
  next
    case False
    then have "storage_bytes m \<le> ec_capacity ?c" by simp
    from make_room_loop_ok [OF c(1) c(2) [unfolded evictable_def] this, folded make_room_def]
    have room: "books ?r" "ec_clock ?r = ec_clock ?c" "set (ec_entries ?r) \<subseteq> set (ec_entries ?c)" by blast+
    have "ec_entries (record_read_and_insert key m c) =
        AList.update key \<lparr>cm_matrix = m, cm_bytes = storage_bytes m, cm_access = ec_clock ?r + 1\<rparr> (ec_entries ?r)"
      using False by (simp add: record_read_and_insert_def Let_def insert_entry_def)
    with assms(3) room(2,3) same show ?thesis by (auto simp: set_update [OF booksD(1) [OF room(1)]])
  qed
qed

lemma load_through_pinned_hit:
  assumes "ec_pinned c" "key \<in> keys c" "ledger c"
  shows "ec_entries (fst (load_through key from_file c)) = ec_entries c"
proof -
  obtain entry where "map_of (ec_entries c) key = Some entry" using assms(2) by (metis map_of_eq_None_iff not_None_eq)
  moreover have "ec_capacity c \<noteq> 0" using assms(2,3) booksD(7) [of c] by (cases "ec_capacity c = 0") (auto simp: ledger_def)
  ultimately show ?thesis using assms(1) by (simp add: load_through_def cache_get_def Let_def)
qed

lemma load_through_newest:
  assumes "ledger c" "tracked c" "\<not> (ec_pinned c \<and> key \<in> keys c)"
    and "(k, e) \<in> set (ec_entries (fst (load_through key from_file c)))"
  shows "if k = key then ec_clock c < cm_access e else (k, e) \<in> set (ec_entries c)"
proof -
  obtain g r where get: "cache_get key c = (g, r)" by (cases "cache_get key c")
  show ?thesis
  proof (cases "key \<in> keys c")
    case True
    then obtain entry where entry: "map_of (ec_entries c) key = Some entry" by (metis map_of_eq_None_iff not_None_eq)
    have "ec_capacity c \<noteq> 0" using assms(1) True booksD(7) [of c] by (cases "ec_capacity c = 0") (auto simp: ledger_def)
    with entry True assms(3) have "ec_entries (fst (load_through key from_file c))
        = AList.update key (entry\<lparr>cm_access := ec_clock c + 1\<rparr>) (ec_entries c)"
      by (simp add: load_through_def cache_get_def Let_def)
    moreover have "distinct (map fst (ec_entries c))" using assms(1) booksD(1) by (simp add: ledger_def)
    ultimately show ?thesis using assms(4) by (auto simp: set_update)
  next
    case False
    then have none: "map_of (ec_entries c) key = None" by (simp add: map_of_eq_None_iff)
    then have g: "ec_entries g = ec_entries c" "ec_clock c \<le> ec_clock g" "r = None"
      using get by (auto simp: cache_get_def Let_def split: if_splits)
    have ok: "ledger g" "tracked g" using get_ok [OF assms(1), of key] assms(2) get by simp_all
    have absent: "(key, e') \<notin> set (ec_entries c)" for e' using False by force
    show ?thesis
    proof (cases from_file)
      case (Inl err)
      then show ?thesis using assms(4) get g absent by (auto simp: load_through_def)
    next
      case (Inr m)
      then have "(k, e) \<in> set (ec_entries (record_read_and_insert key m g))"
        using assms(4) get g by (simp add: load_through_def)
      from record_insert_newest [OF ok this] g absent show ?thesis by auto
    qed
  qed
qed

text \<open>The stamps of the entries are in the order of their last uses.\<close>

lemma runs_without_fuse: "\<not> list_ex is_fuse ops \<Longrightarrow> disciplined ck fusing ops \<or> fusing"
  by (induction ck fusing ops rule: disciplined.induct) auto

lemma unfused_run:
  assumes "\<not> list_ex is_fuse ops"
  shows "ledger (expert_run ck ops)" "tracked (expert_run ck ops)"
proof -
  have "disciplined ck False ops" "disciplined ck False (ops @ [LoadOne [] 0])"
    using runs_without_fuse [of ops ck False] runs_without_fuse [of "ops @ [LoadOne [] 0]" ck False] assms by simp_all
  then show "ledger (expert_run ck ops)" "tracked (expert_run ck ops)" by (simp_all add: expert_run_ledger)
qed

lemma expert_run_snoc: "expert_run ck (ops @ [op]) = expert_step ck op (expert_run ck ops)"
  by (simp add: expert_run_def)

lemma stamps_follow_use:
  assumes "\<not> list_ex is_fuse ops" "(k1, e1) \<in> set (ec_entries (expert_run ck ops))" "(k2, e2) \<in> set (ec_entries (expert_run ck ops))"
    and "cm_access e1 < cm_access e2"
  shows "last_use ck k1 ops < last_use ck k2 ops"
  using assms
proof (induction ops arbitrary: e1 e2 rule: rev_induct)
  case Nil
  then show ?case by (simp add: expert_run_def cache_default_def)
next
  case (snoc op ops)
  let ?c = "expert_run ck ops"
  have plain: "\<not> list_ex is_fuse ops" "\<not> is_fuse op" using snoc.prems(1) by simp_all
  note IH = snoc.IH [OF plain(1)]
  note entries = snoc.prems(2,3) [unfolded expert_run_snoc]
  have same: ?case if "ec_entries (expert_step ck op ?c) = ec_entries ?c"
    "\<And>k. last_use ck k (ops @ [op]) = last_use ck k ops"
    using IH entries snoc.prems(4) that by simp
  show ?case
  proof (cases "loaded_key ck op")
    case None
    then have "\<And>k. last_use ck k (ops @ [op]) = last_use ck k ops" by (simp add: last_use_snoc)
    moreover have "ec_entries (expert_step ck op ?c) = ec_entries ?c" if "is_load op"
      using load_step [OF that, of ck ?c] None by simp
    ultimately show ?thesis using same entries plain(2)
      by (cases op) (auto simp: expert_step_def configure_def cache_default_def mark_simps mark_fully_resident_def)
  next
    case (Some key)
    then have "is_load op" by (cases op) simp_all
    with Some load_step [of op ck ?c] obtain from_file where step: "expert_step ck op ?c = fst (load_through key from_file ?c)" by auto
    note ok = unfused_run [OF plain(1), of ck]
    show ?thesis
    proof (cases "ec_pinned ?c \<and> key \<in> keys ?c")
      case True
      with Some have "\<And>k. last_use ck k (ops @ [op]) = last_use ck k ops" by (auto simp: last_use_snoc)
      then show ?thesis using same load_through_pinned_hit [of ?c key from_file] True ok(1) step by simp
    next
      case False
      note newest = load_through_newest [OF ok False, of _ _ from_file, folded step]
      have key: "last_use ck key (ops @ [op]) = length ops + 1" using False Some by (simp add: last_use_snoc)
      have other: "last_use ck k (ops @ [op]) = last_use ck k ops" if "k \<noteq> key" for k using that Some by (simp add: last_use_snoc)
      consider "k1 = key" "k2 = key" | "k1 = key" "k2 \<noteq> key" | "k1 \<noteq> key" "k2 = key" | "k1 \<noteq> key" "k2 \<noteq> key" by blast
      then show ?thesis
      proof cases
        case 1
        have "ledger (expert_step ck op ?c)" using unfused_run(1) [OF snoc.prems(1), of ck] by (simp only: expert_run_snoc)
        then have "distinct (map fst (ec_entries (expert_step ck op ?c)))" using booksD(1) by (simp only: ledger_def)
        with entries 1 have "e1 = e2" by (metis map_of_is_SomeI option.inject)
        with snoc.prems(4) show ?thesis by simp
      next
        case 2
        have "books ?c" using ok(1) by (simp add: ledger_def)
        with newest [OF entries(1)] newest [OF entries(2)] 2 booksD(5) [of ?c k2 e2] snoc.prems(4) show ?thesis by simp
      next
        case 3
        with key other last_use_le [of ck k1 ops] show ?thesis by simp
      next
        case 4
        with newest [OF entries(1)] newest [OF entries(2)] IH snoc.prems(4) other show ?thesis by simp
      qed
    qed
  qed
qed

section \<open>Properties\<close>

text \<open>
  C26. After any disciplined run the resident bytes the cache reports are those of the matrices it
  holds, each held under one key, and they do not exceed the configured capacity: loads evict
  before they insert, a member of a pair leaves when the pair enters, and pinning and unpinning
  lose nothing.
\<close>

theorem expert_cache_stays_within_capacity:
  assumes "disciplined ck False ops"
  shows "distinct (map fst (ec_entries (expert_run ck ops)))
    \<and> ec_resident (expert_run ck ops) = sum_list (map (\<lambda>(key, entry). storage_bytes (cm_matrix entry)) (ec_entries (expert_run ck ops)))
    \<and> ec_resident (expert_run ck ops) \<le> ec_capacity (expert_run ck ops)"
proof -
  have books: "books (expert_run ck ops)" using expert_run_ledger(1) [OF assms] by (simp add: ledger_def)
  have "map (\<lambda>(key, entry). storage_bytes (cm_matrix entry)) (ec_entries (expert_run ck ops))
      = map (\<lambda>(key, entry). cm_bytes entry) (ec_entries (expert_run ck ops))"
    using booksD(4) [OF books] by auto
  then have "sum_list (map (\<lambda>(key, entry). storage_bytes (cm_matrix entry)) (ec_entries (expert_run ck ops)))
      = bytes_of (ec_entries (expert_run ck ops))" by (rule arg_cong)
  with booksD(1-3) [OF books] show ?thesis by simp
qed

text \<open>
  C27. Whatever a load evicts to make room, of one matrix or of a pair, was last asked for before
  everything that the load found in the cache and keeps. The order is that of the loads themselves,
  over any run of loads, reconfigurations and pinnings, also after hits, failed loads, compactions
  of the queue and unpinning; fuses, which stamp a whole tensor at once, are left out. One load does not count as a use, by the code's design: a hit while
  the cache is pinned, where nothing is evicted and the order is left alone.
\<close>

theorem least_recently_used_expert_goes_first:
  assumes "\<not> list_ex is_fuse ops" and "is_load op"
    and "k1 \<in> fst ` set (ec_entries (expert_run ck ops))" and "k1 \<notin> fst ` set (ec_entries (expert_run ck (ops @ [op])))"
    and "k2 \<in> fst ` set (ec_entries (expert_run ck ops))" and "k2 \<in> fst ` set (ec_entries (expert_run ck (ops @ [op])))"
  shows "last_use ck k1 ops < last_use ck k2 ops"
proof -
  let ?c = "expert_run ck ops"
  obtain e1 e2 where e: "(k1, e1) \<in> set (ec_entries ?c)" "(k2, e2) \<in> set (ec_entries ?c)" using assms(3,5) by auto
  obtain key from_file where load: "expert_step ck op ?c = fst (load_through key from_file ?c)"
    using load_step [OF assms(2), of ck ?c] assms(3,4) by (cases "loaded_key ck op") (auto simp: expert_run_snoc)
  note kept = assms(4,6) [unfolded expert_run_snoc load]
  have "cm_access e1 < cm_access e2"
    by (rule load_through_evicts_oldest [OF unfused_run [OF assms(1)] e(1) kept(1) e(2) kept(2)])
  with stamps_follow_use [OF assms(1) e] show ?thesis by simp
qed

text \<open>Six loads of three tensors, a fuse of two of them, and a load that unpins and evicts.\<close>

definition warm_ops :: "expert_op list" where
  "warm_ops = [Configure 8, LoadOne ''g'' 0, LoadOne ''u'' 0, LoadOne ''g'' 1, LoadOne ''u'' 1, Fuse ''g'' ''u'', Pin, LoadOne ''d'' 0]"

lemma warm_ops_disciplined: "disciplined (small_checkpoint ''g'' ''u'' ''d'') False (warm_ops @ [LoadPair ''g'' ''u'' 0])"
  by (simp add: warm_ops_def distinct_pair_def resolve_pair_def small_resolve ensure_def)

lemma expert_cache_stays_within_capacity_witness:
  "ec_resident (expert_run (small_checkpoint ''g'' ''u'' ''d'') (warm_ops @ [LoadPair ''g'' ''u'' 0]))
    \<le> ec_capacity (expert_run (small_checkpoint ''g'' ''u'' ''d'') (warm_ops @ [LoadPair ''g'' ''u'' 0]))"
  using expert_cache_stays_within_capacity [OF warm_ops_disciplined] by (elim conjE)

text \<open>Two members loaded apart leave room for two bytes; the pair of the other expert needs four.\<close>

abbreviation small_matrix :: "nat \<Rightarrow> bytes \<Rightarrow> qmatrix" where
  "small_matrix rows raw \<equiv> \<lparr>qm_dtype = ggml_dtype.F32, qm_rows = rows, qm_columns = 2, qm_data = raw\<rparr>"

definition two_loads :: expert_cache where
  "two_loads = \<lparr>ec_capacity = 6, ec_resident = 4, ec_clock = 4, ec_requests = 2, ec_hits = 0, ec_misses = 2, ec_evictions = 0,
     ec_loaded = 4,
     ec_entries = [(single_key (small_experts 0) 0, \<lparr>cm_matrix = small_matrix 1 [0, 1], cm_bytes = 2, cm_access = 2\<rparr>),
       (single_key (small_experts 4) 0, \<lparr>cm_matrix = small_matrix 1 [4, 5], cm_bytes = 2, cm_access = 4\<rparr>)],
     ec_lru = [(single_key (small_experts 0) 0, 2), (single_key (small_experts 4) 0, 4)], ec_pinned = False\<rparr>"

lemma load_through_miss:
  "ec_capacity c \<noteq> 0 \<Longrightarrow> \<not> ec_pinned c \<Longrightarrow> map_of (ec_entries c) key = None \<Longrightarrow>
    fst (load_through key (Inr m) c)
      = record_read_and_insert key m (c\<lparr>ec_requests := ec_requests c + 1, ec_clock := ec_clock c + 1, ec_misses := ec_misses c + 1\<rparr>)"
  by (simp add: load_through_def cache_get_def Let_def)

lemma small_load:
  assumes "resolve_experts (small_checkpoint n1 n2 n3) name = Inr (small_experts start)" "start \<le> 8"
  shows "fst (load_expert_matrix (small_checkpoint n1 n2 n3) name 0 c)
    = fst (load_through (single_key (small_experts start) 0) (Inr (small_matrix 1 [of_nat start, of_nat start + 1])) c)"
proof -
  have "read_expert_matrix (small_checkpoint n1 n2 n3) (small_experts start) 0 = Inr (small_matrix 1 [of_nat start, of_nat start + 1])"
    using assms(2) by (simp add: read_expert_matrix_def small_simps)
  then show ?thesis using assms by (simp add: load_expert_matrix_def load_resolved_expert_matrix_def bindS_lift ensure_def)
qed

lemma small_names:
  "resolve_experts (small_checkpoint ''g'' ''u'' ''d'') ''g'' = Inr (small_experts 0)"
  "resolve_experts (small_checkpoint ''g'' ''u'' ''d'') ''u'' = Inr (small_experts 4)"
  "resolve_pair (small_checkpoint ''g'' ''u'' ''d'') ''g'' ''u'' = Inr (small_experts 0, small_experts 4)"
  by (simp_all add: resolve_pair_def small_resolve ensure_def)

lemmas insertion_simps = load_through_miss record_read_and_insert_def unpin_def make_room_def insert_entry_def compact_lru_if_needed_def
  saturating_add_def saturating_mul_def usize_max_def storage_bytes_def single_key_def pair_key_def Let_def

lemma two_loads_run: "expert_run (small_checkpoint ''g'' ''u'' ''d'') [Configure 6, LoadOne ''g'' 0, LoadOne ''u'' 0] = two_loads"
proof -
  let ?ck = "small_checkpoint ''g'' ''u'' ''d''"
  have one: "fst (load_expert_matrix ?ck ''g'' 0 (configure 6)) = \<lparr>ec_capacity = 6, ec_resident = 2, ec_clock = 2, ec_requests = 1, ec_hits = 0,
      ec_misses = 1, ec_evictions = 0, ec_loaded = 2,
      ec_entries = [(single_key (small_experts 0) 0, \<lparr>cm_matrix = small_matrix 1 [0, 1], cm_bytes = 2, cm_access = 2\<rparr>)],
      ec_lru = [(single_key (small_experts 0) 0, 2)], ec_pinned = False\<rparr>"
    by (simp add: small_load [OF small_names(1)] configure_def cache_default_def insertion_simps)
  have "fst (load_expert_matrix ?ck ''u'' 0 (fst (load_expert_matrix ?ck ''g'' 0 (configure 6)))) = two_loads"
    unfolding one by (simp add: small_load [OF small_names(2)] two_loads_def insertion_simps)
  then show ?thesis by (simp add: expert_run_def expert_step_def)
qed

text \<open>The first one is used again: the pair of the other expert then takes the place of the second.\<close>

lemma two_loads_hit: "expert_run (small_checkpoint ''g'' ''u'' ''d'') [Configure 6, LoadOne ''g'' 0, LoadOne ''u'' 0, LoadOne ''g'' 0]
  = fst (load_through (single_key (small_experts 0) 0) (Inr (small_matrix 1 [0, 1])) two_loads)"
proof -
  let ?ck = "small_checkpoint ''g'' ''u'' ''d''"
  have "expert_run ?ck ([Configure 6, LoadOne ''g'' 0, LoadOne ''u'' 0] @ [LoadOne ''g'' 0]) = expert_step ?ck (LoadOne ''g'' 0) two_loads"
    unfolding expert_run_snoc two_loads_run by (rule refl)
  then show ?thesis by (simp add: expert_step_def small_load [OF small_names(1)])
qed

lemma two_loads_hit_keys:
  "fst ` set (ec_entries (expert_run (small_checkpoint ''g'' ''u'' ''d'') [Configure 6, LoadOne ''g'' 0, LoadOne ''u'' 0, LoadOne ''g'' 0]))
    = {single_key (small_experts 0) 0, single_key (small_experts 4) 0}"
  unfolding two_loads_hit
  by (auto simp: load_through_def cache_get_def two_loads_def single_key_def compact_lru_if_needed_def saturating_add_def saturating_mul_def usize_max_def)

lemma two_loads_pair_keys:
  "fst ` set (ec_entries (expert_run (small_checkpoint ''g'' ''u'' ''d'')
      ([Configure 6, LoadOne ''g'' 0, LoadOne ''u'' 0, LoadOne ''g'' 0] @ [LoadPair ''g'' ''u'' 1])))
    = {single_key (small_experts 0) 0, pair_key (small_experts 0) (small_experts 4) 1}"
proof -
  let ?ck = "small_checkpoint ''g'' ''u'' ''d''"
  have "read_expert_pair ?ck (small_experts 0) (small_experts 4) 1 = Inr (small_matrix 2 [2, 3, 6, 7])"
    by (simp add: read_expert_pair_def small_simps)
  then have "expert_step ?ck (LoadPair ''g'' ''u'' 1) c
      = fst (load_through (pair_key (small_experts 0) (small_experts 4) 1) (Inr (small_matrix 2 [2, 3, 6, 7])) c)" for c
    by (simp add: expert_step_def load_expert_pair_def load_resolved_expert_pair_def bindS_lift small_names ensure_def)
  moreover have "fst (load_through (single_key (small_experts 0) 0) (Inr (small_matrix 1 [0, 1])) two_loads)
      = two_loads\<lparr>ec_clock := 5, ec_requests := 3, ec_hits := 1,
          ec_entries := [(single_key (small_experts 0) 0, \<lparr>cm_matrix = small_matrix 1 [0, 1], cm_bytes = 2, cm_access = 5\<rparr>),
            (single_key (small_experts 4) 0, \<lparr>cm_matrix = small_matrix 1 [4, 5], cm_bytes = 2, cm_access = 4\<rparr>)],
          ec_lru := ec_lru two_loads @ [(single_key (small_experts 0) 0, 5)]\<rparr>"
    by (simp add: load_through_def cache_get_def two_loads_def compact_lru_if_needed_def saturating_add_def saturating_mul_def usize_max_def Let_def)
  ultimately show ?thesis unfolding expert_run_snoc two_loads_hit by (simp add: two_loads_def insertion_simps)
qed

lemma least_recently_used_expert_goes_first_witness:
  "single_key (small_experts 4) 0 \<notin> fst ` set (ec_entries (expert_run (small_checkpoint ''g'' ''u'' ''d'')
        ([Configure 6, LoadOne ''g'' 0, LoadOne ''u'' 0, LoadOne ''g'' 0] @ [LoadPair ''g'' ''u'' 1])))
    \<and> last_use (small_checkpoint ''g'' ''u'' ''d'') (single_key (small_experts 4) 0) [Configure 6, LoadOne ''g'' 0, LoadOne ''u'' 0, LoadOne ''g'' 0]
      < last_use (small_checkpoint ''g'' ''u'' ''d'') (single_key (small_experts 0) 0) [Configure 6, LoadOne ''g'' 0, LoadOne ''u'' 0, LoadOne ''g'' 0]"
proof
  show gone: "single_key (small_experts 4) 0 \<notin> fst ` set (ec_entries (expert_run (small_checkpoint ''g'' ''u'' ''d'')
        ([Configure 6, LoadOne ''g'' 0, LoadOne ''u'' 0, LoadOne ''g'' 0] @ [LoadPair ''g'' ''u'' 1])))"
    unfolding two_loads_pair_keys by (simp add: single_key_def pair_key_def)
  show "last_use (small_checkpoint ''g'' ''u'' ''d'') (single_key (small_experts 4) 0) [Configure 6, LoadOne ''g'' 0, LoadOne ''u'' 0, LoadOne ''g'' 0]
      < last_use (small_checkpoint ''g'' ''u'' ''d'') (single_key (small_experts 0) 0) [Configure 6, LoadOne ''g'' 0, LoadOne ''u'' 0, LoadOne ''g'' 0]"
    by (rule least_recently_used_expert_goes_first [OF _ _ _ gone]) (unfold two_loads_hit_keys two_loads_pair_keys, simp_all)
qed

end
