(* ===== verification/Warmup.thy ===== *)
theory Warmup
  imports Expert_Books Config
begin

text \<open>
  The full warmup of \<open>src/residency.rs\<close>: every fused expert tensor in file order, into the expert
  cache when one is configured, otherwise into the operating system's page cache. Equal offsets
  keep their order here; the source's sort leaves it open. Clocks and the activity counters of the
  report are not modelled.
\<close>

section \<open>Tensors of a checkpoint\<close>

text \<open>\<open>GgufExpertTensor::warm\<close> and the traversal that only touches the pages.\<close>

definition warm_expert :: "checkpoint \<Rightarrow> expert_tensor \<Rightarrow> nat \<Rightarrow> (expert_cache, gguf_error, nat) action" where
  "warm_expert ck t expert = bindS (load_resolved_expert_matrix ck t expert) (\<lambda>m. returnS (storage_bytes m))"

definition BUFFER_BYTES :: nat where
  "BUFFER_BYTES = 8 * 1024 * 1024"

function read_pages :: "checkpoint \<Rightarrow> nat \<Rightarrow> nat \<Rightarrow> nat \<Rightarrow> gguf_error + unit" where
  "read_pages ck buffer at remaining =
     (if remaining = 0 \<or> buffer = 0 then Inr ()
      else (case ck_read ck at (min remaining buffer) of
              None \<Rightarrow> Inl ReadFailed
            | Some raw \<Rightarrow> read_pages ck buffer (at + min remaining buffer) (remaining - min remaining buffer)))"
  by pat_completeness auto
termination by (relation "measure (\<lambda>(ck, buffer, at, remaining). remaining)") auto

declare read_pages.simps [simp del]

definition warm_tensor_pages :: "checkpoint \<Rightarrow> string \<Rightarrow> gguf_error + nat" where
  "warm_tensor_pages ck name = (case ck_tensor ck name of
     None \<Rightarrow> Inl gguf_error.MissingTensor
   | Some info \<Rightarrow>
       bindE (read_pages ck (min BUFFER_BYTES (tensor_storage ck info)) (saturating_add (ck_data_offset ck) (ti_offset info))
                (tensor_storage ck info)) (\<lambda>_.
       Inr (tensor_storage ck info)))"

section \<open>The warmup\<close>

datatype warmup_mode = OsPageCache | PinnedExpertCache

record warmup_progress =
  wp_completed :: nat
  wp_tensors :: nat
  wp_loaded :: nat
  wp_total :: nat

record warmup_report =
  wr_mode :: warmup_mode
  wr_tensors :: nat
  wr_loaded :: nat
  wr_progress :: "warmup_progress list"

definition expert_name :: "nat \<Rightarrow> string \<Rightarrow> string" where
  "expert_name layer ending = ''blk.'' @ show_nat layer @ ''.'' @ ending"

definition gate_name :: "nat \<Rightarrow> string" where "gate_name layer = expert_name layer ''ffn_gate_exps.weight''"
definition up_name :: "nat \<Rightarrow> string" where "up_name layer = expert_name layer ''ffn_up_exps.weight''"
definition down_name :: "nat \<Rightarrow> string" where "down_name layer = expert_name layer ''ffn_down_exps.weight''"

definition resident_layers :: "model_config \<Rightarrow> nat" where
  "resident_layers config = mc_num_hidden_layers config + mc_mtp_num_hidden_layers config"

definition expert_names :: "model_config \<Rightarrow> string list" where
  "expert_names config = concat (map (\<lambda>layer. [gate_name layer, up_name layer, down_name layer]) [0..<resident_layers config])"

text \<open>One tensor of the plan: its offset in the file, its name and its bytes.\<close>

definition planned_tensor :: "checkpoint \<Rightarrow> string \<Rightarrow> gguf_error + nat \<times> string \<times> nat" where
  "planned_tensor ck name = (case ck_tensor ck name of
     None \<Rightarrow> Inl gguf_error.MissingTensor
   | Some info \<Rightarrow> Inr (ck_data_offset ck + ti_offset info, name, tensor_storage ck info))"

fun plan_tensors :: "checkpoint \<Rightarrow> string list \<Rightarrow> gguf_error + (nat \<times> string \<times> nat) list" where
  "plan_tensors ck [] = Inr []"
| "plan_tensors ck (name # names) =
     bindE (planned_tensor ck name) (\<lambda>t. bindE (plan_tensors ck names) (\<lambda>ts. Inr (t # ts)))"

fun total_of :: "nat \<Rightarrow> (nat \<times> string \<times> nat) list \<Rightarrow> gguf_error + nat" where
  "total_of whole [] = Inr whole"
| "total_of whole ((_, _, bytes) # tensors) = (case checked_add whole bytes of
     None \<Rightarrow> Inl CountOverflow | Some whole \<Rightarrow> total_of whole tensors)"

fun warm_experts :: "checkpoint \<Rightarrow> expert_tensor \<Rightarrow> nat list \<Rightarrow> nat \<Rightarrow> (expert_cache, gguf_error, nat) action" where
  "warm_experts ck t [] whole = returnS whole"
| "warm_experts ck t (expert # experts) whole =
     bindS (warm_expert ck t expert) (\<lambda>bytes.
     case checked_add whole bytes of
       None \<Rightarrow> failS CountOverflow
     | Some whole \<Rightarrow> warm_experts ck t experts whole)"

definition warm_tensor :: "checkpoint \<Rightarrow> model_config \<Rightarrow> bool \<Rightarrow> string \<Rightarrow> (expert_cache, gguf_error, nat) action" where
  "warm_tensor ck config pin name =
     (if pin
      then bindS (liftS (resolve_experts ck name)) (\<lambda>t. warm_experts ck t [0..<mc_num_experts config] 0)
      else liftS (warm_tensor_pages ck name))"

text \<open>The traversal: tensors visited, bytes loaded and the progress reported so far.\<close>

fun warm_tensors :: "checkpoint \<Rightarrow> model_config \<Rightarrow> bool \<Rightarrow> nat \<Rightarrow> nat \<Rightarrow> nat \<Rightarrow> nat \<Rightarrow> warmup_progress list
    \<Rightarrow> (nat \<times> string \<times> nat) list \<Rightarrow> (expert_cache, gguf_error, nat \<times> warmup_progress list) action" where
  "warm_tensors ck config pin many whole index loaded progress [] = returnS (loaded, progress)"
| "warm_tensors ck config pin many whole index loaded progress ((_, name, expected) # tensors) =
     bindS (warm_tensor ck config pin name) (\<lambda>bytes.
     bindS (ensureS (bytes = expected) WarmupBytesChanged) (\<lambda>_.
     case checked_add loaded bytes of
       None \<Rightarrow> failS CountOverflow
     | Some loaded \<Rightarrow>
         warm_tensors ck config pin many whole (index + 1) loaded
           (progress @ [\<lparr>wp_completed = index + 1, wp_tensors = many, wp_loaded = loaded, wp_total = whole\<rparr>]) tensors))"

fun fuse_layers :: "checkpoint \<Rightarrow> nat list \<Rightarrow> (expert_cache, gguf_error, unit) action" where
  "fuse_layers ck [] = returnS ()"
| "fuse_layers ck (layer # layers) =
     bindS (fuse_cached_expert_pair ck (gate_name layer) (up_name layer)) (\<lambda>_. fuse_layers ck layers)"

definition warm_all_experts :: "checkpoint \<Rightarrow> model_config \<Rightarrow> (expert_cache, gguf_error, warmup_report) action" where
  "warm_all_experts ck config =
     bindS (liftS (plan_tensors ck (expert_names config))) (\<lambda>planned.
     let tensors = sort_key fst planned in
     bindS (liftS (total_of 0 tensors)) (\<lambda>whole.
     bindS (readS ec_capacity) (\<lambda>capacity.
     let pin = 0 < capacity in
     bindS (ensureS (pin \<longrightarrow> whole \<le> capacity) CapacityTooSmall) (\<lambda>_.
     bindS (warm_tensors ck config pin (length tensors) whole 0 0 [] tensors) (\<lambda>(loaded, progress).
     bindS (if pin
            then bindS (fuse_layers ck [0..<resident_layers config]) (\<lambda>_. mark_expert_cache_fully_resident)
            else returnS ()) (\<lambda>_.
     returnS \<lparr>wr_mode = (if pin then PinnedExpertCache else OsPageCache), wr_tensors = length tensors,
       wr_loaded = loaded, wr_progress = progress\<rparr>))))))"

section \<open>Filling the cache\<close>

text \<open>A cache that is being filled: nothing has to leave while the bytes stay below the capacity.\<close>

definition filling :: "nat \<Rightarrow> nat \<Rightarrow> expert_cache \<Rightarrow> bool" where
  "filling capacity loaded c \<longleftrightarrow> ledger c \<and> tracked c \<and> \<not> ec_pinned c \<and> ec_capacity c = capacity \<and> ec_resident c \<le> loaded"

lemma filling_configured: "filling capacity 0 (configure capacity)"
  using configure_ok [of capacity] by (simp add: filling_def) (simp add: configure_def cache_default_def)

lemma make_room_idle: "ec_resident c + bytes \<le> ec_capacity c \<Longrightarrow> make_room bytes c = c"
  by (cases "ec_lru c") (auto simp: make_room_def)

lemma record_insert_fits:
  assumes "\<not> ec_pinned c" "0 < ec_capacity c" "ec_resident c + storage_bytes m \<le> ec_capacity c"
  shows "keys (record_read_and_insert key m c) = insert key (keys c)"
    "\<not> ec_pinned (record_read_and_insert key m c)" "ec_capacity (record_read_and_insert key m c) = ec_capacity c"
    "ec_resident (record_read_and_insert key m c) \<le> ec_resident c + storage_bytes m"
  using assms by (auto simp: record_read_and_insert_def Let_def unpin_def make_room_idle insert_entry_def dom_update
      split: option.splits)

lemma get_hit: "snd (cache_get key c) = Some m \<Longrightarrow> key \<in> keys c"
  using get_answer [of key c m] by (force dest: map_of_SomeD)

lemma load_through_fills:
  assumes "filling capacity loaded c" "0 < capacity" "load_through key from_file c = (c', Inr m)"
    and "loaded + storage_bytes m \<le> capacity"
  shows "filling capacity (loaded + storage_bytes m) c'" "keys c' = insert key (keys c)"
proof -
  obtain g r where get: "cache_get key c = (g, r)" by (cases "cache_get key c")
  have ok: "ledger c'" "tracked c'"
    using load_through_ok [of c key from_file] assms(1,3) by (simp_all add: filling_def)
  have g: "keys g = keys c" "ec_pinned g = ec_pinned c" "ec_capacity g = capacity" "ec_resident g = ec_resident c"
    using get_keeps [of key c] get assms(1) by (simp_all add: filling_def)
  have "filling capacity (loaded + storage_bytes m) c' \<and> keys c' = insert key (keys c)"
  proof (cases r)
    case (Some m')
    then have "c' = g" "key \<in> keys c" using get assms(3) get_hit [of key c m'] by (simp_all add: load_through_def)
    with ok g assms(1) show ?thesis by (auto simp: filling_def)
  next
    case None
    then have c': "c' = record_read_and_insert key m g"
      using get assms(3) by (auto simp: load_through_def split: sum.splits)
    have room: "\<not> ec_pinned g" "0 < ec_capacity g" "ec_resident g + storage_bytes m \<le> ec_capacity g"
      using g assms(1,2,4) by (simp_all add: filling_def)
    from record_insert_fits [OF room, of key] ok g assms(1) show ?thesis by (auto simp: filling_def c')
  qed
  then show "filling capacity (loaded + storage_bytes m) c'" "keys c' = insert key (keys c)" by simp_all
qed

lemma warm_expert_fills:
  assumes "filling capacity loaded c" "0 < capacity" "warm_expert ck t expert c = (c', Inr bytes)" "loaded + bytes \<le> capacity"
  shows "filling capacity (loaded + bytes) c'" "keys c' = insert (single_key t expert) (keys c)" "expert < et_expert_count t"
proof -
  obtain m where load: "load_through (single_key t expert) (read_expert_matrix ck t expert) c = (c', Inr m)"
      "bytes = storage_bytes m" "expert < et_expert_count t"
    using assms(3) by (auto simp: warm_expert_def load_resolved_expert_matrix_def bindS_Inr_iff ensureS_def ensure_def returnS_def
        split: if_splits)
  from load_through_fills [OF assms(1,2) load(1)] load(2,3) assms(4)
  show "filling capacity (loaded + bytes) c'" "keys c' = insert (single_key t expert) (keys c)" "expert < et_expert_count t"
    by simp_all
qed

lemma warm_experts_total: "warm_experts ck t experts whole c = (c', Inr whole') \<Longrightarrow> whole \<le> whole'"
proof (induction experts arbitrary: whole c)
  case (Cons expert experts)
  then show ?case by (fastforce simp: bindS_Inr_iff checked_add_def failS_def split: option.splits if_splits)
qed (simp add: returnS_def)

lemma warm_experts_fills:
  "filling capacity (loaded + whole) c \<Longrightarrow> 0 < capacity \<Longrightarrow> warm_experts ck t experts whole c = (c', Inr whole')
    \<Longrightarrow> loaded + whole' \<le> capacity
    \<Longrightarrow> filling capacity (loaded + whole') c' \<and> keys c' = keys c \<union> single_key t ` set experts
      \<and> (\<forall>expert \<in> set experts. expert < et_expert_count t)"
proof (induction experts arbitrary: whole c)
  case (Cons expert experts)
  from Cons.prems(3) obtain c1 bytes where
    step: "warm_expert ck t expert c = (c1, Inr bytes)" "warm_experts ck t experts (whole + bytes) c1 = (c', Inr whole')"
    by (auto simp: bindS_Inr_iff checked_add_def failS_def split: option.splits if_splits)
  have fits: "loaded + whole + bytes \<le> capacity" using warm_experts_total [OF step(2)] Cons.prems(4) by simp
  from warm_expert_fills [OF Cons.prems(1,2) step(1) fits] Cons.IH [OF _ Cons.prems(2) step(2) Cons.prems(4)]
  show ?case by (simp add: add.assoc)
qed (simp add: returnS_def)

lemma warm_tensors_fills:
  "filling capacity loaded c \<Longrightarrow> 0 < capacity
    \<Longrightarrow> warm_tensors ck config True many whole index loaded progress tensors c = (c', Inr (loaded', progress'))
    \<Longrightarrow> loaded + sum_list (map (\<lambda>(_, _, bytes). bytes) tensors) \<le> capacity
    \<Longrightarrow> filling capacity loaded' c' \<and> keys c \<subseteq> keys c' \<and> loaded' = loaded + sum_list (map (\<lambda>(_, _, bytes). bytes) tensors)
      \<and> (\<forall>(_, name, _) \<in> set tensors. \<exists>t. resolve_experts ck name = Inr t
          \<and> (\<forall>expert < mc_num_experts config. single_key t expert \<in> keys c' \<and> expert < et_expert_count t))"
proof (induction tensors arbitrary: index loaded progress c)
  case Nil
  then show ?case by (simp add: returnS_def)
next
  case (Cons front tensors)
  obtain offset name expected where front: "front = (offset, name, expected)" by (cases front)
  from Cons.prems(3) front obtain c1 t progress1 where
    step: "resolve_experts ck name = Inr t" "warm_experts ck t [0..<mc_num_experts config] 0 c = (c1, Inr expected)"
      "warm_tensors ck config True many whole (index + 1) (loaded + expected) progress1 tensors c1 = (c', Inr (loaded', progress'))"
    by (auto simp: bindS_Inr_iff warm_tensor_def liftS_def ensureS_def ensure_def checked_add_def failS_def
        split: option.splits if_splits)
  have fits: "loaded + expected \<le> capacity" using Cons.prems(4) front by simp
  have one: "filling capacity (loaded + expected) c1 \<and> keys c1 = keys c \<union> single_key t ` set [0..<mc_num_experts config]
      \<and> (\<forall>expert \<in> set [0..<mc_num_experts config]. expert < et_expert_count t)"
    using warm_experts_fills [OF _ Cons.prems(2) step(2), of loaded] Cons.prems(1) fits by simp
  from Cons.IH [OF _ Cons.prems(2) step(3)] one Cons.prems(4) front
  have rest: "filling capacity loaded' c' \<and> keys c1 \<subseteq> keys c' \<and> loaded' = loaded + expected + sum_list (map (\<lambda>(_, _, bytes). bytes) tensors)
      \<and> (\<forall>(_, name, _) \<in> set tensors. \<exists>t. resolve_experts ck name = Inr t
          \<and> (\<forall>expert < mc_num_experts config. single_key t expert \<in> keys c' \<and> expert < et_expert_count t))"
    by auto
  have "\<forall>expert < mc_num_experts config. single_key t expert \<in> keys c' \<and> expert < et_expert_count t"
    using one rest by auto
  moreover have "keys c \<subseteq> keys c1" "keys c1 \<subseteq> keys c'" using one rest by simp_all
  then have "keys c \<subseteq> keys c'" by (rule subset_trans)
  ultimately show ?case using rest step(1) unfolding front by auto
qed

section \<open>The plan\<close>

lemma plan_tensors_names: "plan_tensors ck names = Inr ts \<Longrightarrow> map (\<lambda>(_, name, _). name) ts = names"
  by (induction names arbitrary: ts) (auto simp: bindE_Inr_iff planned_tensor_def split: option.splits)

lemma total_of_sum: "total_of acc ts = Inr r \<Longrightarrow> r = acc + sum_list (map (\<lambda>(_, _, bytes). bytes) ts)"
  by (induction acc ts rule: total_of.induct) (auto simp: checked_add_def split: option.splits if_splits)

section \<open>Fusing a filled cache\<close>

text \<open>What a fuse that succeeds leaves among the keys.\<close>

lemma fuse_expert_keys:
  assumes "fuse_expert ck a b expert c = (c', Inr n)"
  shows "pair_key a b expert \<in> keys c'" "keys c - {single_key a expert, single_key b expert} \<subseteq> keys c'"
    "ec_pinned c' = ec_pinned c" "ec_capacity c' = ec_capacity c"
proof -
  have "pair_key a b expert \<in> keys c' \<and> keys c - {single_key a expert, single_key b expert} \<subseteq> keys c'
      \<and> ec_pinned c' = ec_pinned c \<and> ec_capacity c' = ec_capacity c"
    using assms
  proof (cases rule: fuse_expert_outcome)
    case 1
    then show ?thesis by (auto simp: map_of_eq_None_iff)
  next
    case (3 e1 e2 combined)
    then show ?thesis by (auto simp: insert_fused_def dom_update delete_keys set_delete image_iff)
  qed simp
  then show "pair_key a b expert \<in> keys c'" "keys c - {single_key a expert, single_key b expert} \<subseteq> keys c'"
    "ec_pinned c' = ec_pinned c" "ec_capacity c' = ec_capacity c" by simp_all
qed

lemma fuse_loop_keys:
  "fuse_loop ck a b experts fused c = (c', Inr n)
    \<Longrightarrow> pair_key a b ` set experts \<subseteq> keys c' \<and> keys c - (range (single_key a) \<union> range (single_key b)) \<subseteq> keys c'
      \<and> ec_pinned c' = ec_pinned c \<and> ec_capacity c' = ec_capacity c"
proof (induction experts arbitrary: fused c)
  case (Cons expert experts)
  from Cons.prems obtain c1 bytes fused1 where
    step: "fuse_expert ck a b expert c = (c1, Inr bytes)" "fuse_loop ck a b experts fused1 c1 = (c', Inr n)"
    by (auto simp: bindS_Inr_iff failS_def split: option.splits)
  have pair: "pair_key a b expert \<notin> range (single_key a) \<union> range (single_key b)"
    by (auto simp: pair_key_def single_key_def)
  note rest = Cons.IH [OF step(2)]
  have "keys c - (range (single_key a) \<union> range (single_key b)) \<subseteq> keys c1 - (range (single_key a) \<union> range (single_key b))"
    using fuse_expert_keys(2) [OF step(1)] by blast
  also have "\<dots> \<subseteq> keys c'" using rest by simp
  finally have "keys c - (range (single_key a) \<union> range (single_key b)) \<subseteq> keys c'" .
  moreover have "pair_key a b expert \<in> keys c'"
  proof -
    have "pair_key a b expert \<in> keys c1 - (range (single_key a) \<union> range (single_key b))"
      using pair fuse_expert_keys(1) [OF step(1)] by simp
    then show ?thesis using rest by (meson subsetD)
  qed
  ultimately show ?case using rest fuse_expert_keys(3,4) [OF step(1)] by simp
qed (simp add: returnS_def)

text \<open>A key that no fuse of the layers takes away.\<close>

definition survives :: "checkpoint \<Rightarrow> nat list \<Rightarrow> matrix_key \<Rightarrow> bool" where
  "survives ck layers key \<longleftrightarrow> (\<forall>layer \<in> set layers. \<forall>a b. resolve_pair ck (gate_name layer) (up_name layer) = Inr (a, b)
     \<longrightarrow> key \<notin> range (single_key a) \<union> range (single_key b))"

lemma pair_key_survives: "survives ck layers (pair_key a b expert)"
  by (auto simp: survives_def pair_key_def single_key_def)

lemma fuse_layers_keys:
  "fuse_layers ck layers c = (c', Inr ())
    \<Longrightarrow> (\<forall>layer \<in> set layers. \<exists>a b. resolve_pair ck (gate_name layer) (up_name layer) = Inr (a, b)
          \<and> (\<forall>expert < et_expert_count a. pair_key a b expert \<in> keys c'))
      \<and> (\<forall>key \<in> keys c. survives ck layers key \<longrightarrow> key \<in> keys c') \<and> ec_pinned c' = ec_pinned c \<and> ec_capacity c' = ec_capacity c"
proof (induction layers arbitrary: c)
  case (Cons layer layers)
  from Cons.prems obtain c1 n where
    step: "fuse_cached_expert_pair ck (gate_name layer) (up_name layer) c = (c1, Inr n)" "fuse_layers ck layers c1 = (c', Inr ())"
    by (auto simp: bindS_Inr_iff)
  from step(1) obtain a b where pair: "resolve_pair ck (gate_name layer) (up_name layer) = Inr (a, b)"
      and loop: "fuse_loop ck a b [0..<et_expert_count a] 0 c = (c1, Inr n)"
    by (auto simp: fuse_cached_expert_pair_def bindS_Inr_iff liftS_def fuse_pair_def readS_def ensureS_def ensure_def split: if_splits)
  note loop = fuse_loop_keys [OF loop]
  note rest = Cons.IH [OF step(2)]
  from rest have "\<forall>key \<in> keys c1. survives ck layers key \<longrightarrow> key \<in> keys c'" by (elim conjE)
  then have later: "key \<in> keys c'" if "key \<in> keys c1" "survives ck layers key" for key using that by blast
  have "pair_key a b expert \<in> keys c'" if "expert < et_expert_count a" for expert
    using loop that by (intro later pair_key_survives) auto
  moreover have "key \<in> keys c'" if "key \<in> keys c" "survives ck (layer # layers) key" for key
  proof (rule later)
    have "key \<notin> range (single_key a) \<union> range (single_key b)" using that(2) pair by (simp add: survives_def)
    with that(1) loop show "key \<in> keys c1" by (meson DiffI subsetD)
    show "survives ck layers key" using that(2) by (simp add: survives_def)
  qed
  ultimately show ?case using rest loop pair by simp
qed (simp add: returnS_def)

section \<open>Honesty and the books of a warmup\<close>

lemma warm_expert_honest:
  assumes "layout_ok ck" "resolved ck t" "honest_experts ck c"
  shows "honest_experts ck (fst (warm_expert ck t expert c))"
proof -
  have "honest_matrix ck (single_key t expert) m" if "read_expert_matrix ck t expert = Inr m" for m
    using assms(2) that by (auto simp: honest_matrix_def single_key_def)
  from load_through_honest [OF assms(3), of "read_expert_matrix ck t expert", OF this]
  show ?thesis using assms(3)
    by (auto simp: warm_expert_def load_resolved_expert_matrix_def bindS_def ensureS_def ensure_def returnS_def
        split: prod.splits sum.splits)
qed

lemma warm_experts_honest:
  "layout_ok ck \<Longrightarrow> resolved ck t \<Longrightarrow> honest_experts ck c \<Longrightarrow> warm_experts ck t experts whole c = (c', Inr n) \<Longrightarrow> honest_experts ck c'"
proof (induction experts arbitrary: whole c)
  case (Cons expert experts)
  from Cons.prems(4) obtain c1 bytes whole1 where
    step: "warm_expert ck t expert c = (c1, Inr bytes)" "warm_experts ck t experts whole1 c1 = (c', Inr n)"
    by (auto simp: bindS_Inr_iff failS_def split: option.splits)
  have "honest_experts ck c1" using warm_expert_honest [OF Cons.prems(1-3), of expert] step(1) by simp
  from Cons.IH [OF Cons.prems(1,2) this step(2)] show ?case .
qed (simp add: returnS_def)

lemma warm_tensors_honest:
  "layout_ok ck \<Longrightarrow> honest_experts ck c \<Longrightarrow> warm_tensors ck config True many whole index loaded progress tensors c = (c', Inr r)
    \<Longrightarrow> honest_experts ck c'"
proof (induction tensors arbitrary: index loaded progress c)
  case (Cons front tensors)
  obtain offset name expected where front: "front = (offset, name, expected)" by (cases front)
  from Cons.prems(3) front obtain c1 t loaded1 progress1 where
    step: "resolve_experts ck name = Inr t" "warm_experts ck t [0..<mc_num_experts config] 0 c = (c1, Inr expected)"
      "warm_tensors ck config True many whole (index + 1) loaded1 progress1 tensors c1 = (c', Inr r)"
    by (auto simp: bindS_Inr_iff warm_tensor_def liftS_def ensureS_def ensure_def failS_def split: option.splits if_splits)
  have "resolved ck t" using step(1) by (auto simp: resolved_def)
  from Cons.IH [OF Cons.prems(1) warm_experts_honest [OF Cons.prems(1) this Cons.prems(2) step(2)] step(3)] show ?case .
qed (simp add: returnS_def)

lemma fuse_layers_kept:
  "layout_ok ck \<Longrightarrow> \<forall>layer \<in> set layers. distinct_pair ck (gate_name layer) (up_name layer) \<Longrightarrow> honest_experts ck c \<Longrightarrow> ledger c
    \<Longrightarrow> fuse_layers ck layers c = (c', Inr r) \<Longrightarrow> honest_experts ck c' \<and> ledger c'"
proof (induction layers arbitrary: c)
  case (Cons layer layers)
  from Cons.prems(5) obtain c1 n where
    step: "fuse_cached_expert_pair ck (gate_name layer) (up_name layer) c = (c1, Inr n)" "fuse_layers ck layers c1 = (c', Inr r)"
    by (auto simp: bindS_Inr_iff)
  have "honest_experts ck c1" "ledger c1"
    using fuse_honest [OF Cons.prems(1,3), of "gate_name layer" "up_name layer"]
      fuse_ledger [OF _ Cons.prems(4), of ck "gate_name layer" "up_name layer"] Cons.prems(2) step(1) by simp_all
  from Cons.IH [OF Cons.prems(1) _ this step(2)] Cons.prems(2) show ?case by simp
qed (simp add: returnS_def)

text \<open>In a pinned cache that holds the key, a load touches nothing but two counters.\<close>

lemma pinned_load:
  assumes "ec_pinned c" "0 < ec_capacity c" "key \<in> keys c"
  shows "\<exists>m. load_through key from_file c = (c\<lparr>ec_requests := ec_requests c + 1, ec_hits := ec_hits c + 1\<rparr>, Inr m)"
proof -
  from assms(3) obtain entry where "map_of (ec_entries c) key = Some entry"
    by (cases "map_of (ec_entries c) key") (auto simp: map_of_eq_None_iff)
  with assms(1,2) show ?thesis by (simp add: load_through_def cache_get_def)
qed

text \<open>The tensors of a layer, and a down projection and any gate or up projection, are apart in the file.\<close>

definition starts_differ :: "checkpoint \<Rightarrow> string \<Rightarrow> string \<Rightarrow> bool" where
  "starts_differ ck n1 n2 = (case resolve_experts ck n1 of
     Inl e \<Rightarrow> True
   | Inr a \<Rightarrow> (case resolve_experts ck n2 of Inl e \<Rightarrow> True | Inr b \<Rightarrow> et_start a \<noteq> et_start b))"

definition tensors_apart :: "checkpoint \<Rightarrow> model_config \<Rightarrow> bool" where
  "tensors_apart ck config \<longleftrightarrow>
     (\<forall>l \<in> set [0..<resident_layers config]. starts_differ ck (gate_name l) (up_name l)
        \<and> (\<forall>l' \<in> set [0..<resident_layers config]. starts_differ ck (down_name l) (gate_name l') \<and> starts_differ ck (down_name l) (up_name l')))"

lemma starts_differD: "starts_differ ck n1 n2 \<Longrightarrow> resolve_experts ck n1 = Inr a \<Longrightarrow> resolve_experts ck n2 = Inr b \<Longrightarrow> et_start a \<noteq> et_start b"
  by (simp add: starts_differ_def)

lemma resolve_pair_parts: "resolve_pair ck n1 n2 = Inr (a, b) \<Longrightarrow> resolve_experts ck n1 = Inr a \<and> resolve_experts ck n2 = Inr b"
  by (auto simp: resolve_pair_def bindE_Inr_iff)

lemma starts_differ_pair: "starts_differ ck n1 n2 \<Longrightarrow> distinct_pair ck n1 n2"
  by (auto simp: distinct_pair_def dest: resolve_pair_parts starts_differD split: sum.splits)

lemma resolve_pair_counts: "resolve_pair ck n1 n2 = Inr (a, b) \<Longrightarrow> et_expert_count a = et_expert_count b"
  by (auto simp: resolve_pair_def bindE_Inr_iff ensure_def split: if_splits)

lemma down_survives:
  assumes "tensors_apart ck config" "layer < resident_layers config" "resolve_experts ck (down_name layer) = Inr t"
  shows "survives ck [0..<resident_layers config] (single_key t expert)"
  unfolding survives_def
proof (intro ballI allI impI)
  fix l a b assume l: "l \<in> set [0..<resident_layers config]" "resolve_pair ck (gate_name l) (up_name l) = Inr (a, b)"
  from resolve_pair_parts [OF l(2)] starts_differD assms l(1) have "et_start t \<noteq> et_start a" "et_start t \<noteq> et_start b"
    unfolding tensors_apart_def by (metis atLeastLessThan_iff atLeastLessThan_upt zero_le)+
  then show "single_key t expert \<notin> range (single_key a) \<union> range (single_key b)" by (auto simp: single_key_def)
qed

section \<open>A finished warmup\<close>

lemma warmup_runs:
  assumes "warm_all_experts ck config (configure capacity) = (c, Inr report)" "0 < capacity"
  obtains planned c1 c2 progress where
    "plan_tensors ck (expert_names config) = Inr planned"
    "sum_list (map (\<lambda>(_, _, bytes). bytes) (sort_key fst planned)) \<le> capacity"
    "warm_tensors ck config True (length (sort_key fst planned)) (sum_list (map (\<lambda>(_, _, bytes). bytes) (sort_key fst planned))) 0 0 []
       (sort_key fst planned) (configure capacity) = (c1, Inr (wr_loaded report, progress))"
    "fuse_layers ck [0..<resident_layers config] c1 = (c2, Inr ())" "c = mark_fully_resident c2"
proof -
  have configured: "ec_capacity (configure capacity) = capacity" by (simp add: configure_def)
  from assms configured obtain planned whole c1 c2 loaded progress where run:
    "plan_tensors ck (expert_names config) = Inr planned" "total_of 0 (sort_key fst planned) = Inr whole" "whole \<le> capacity"
    "warm_tensors ck config True (length (sort_key fst planned)) whole 0 0 [] (sort_key fst planned) (configure capacity) = (c1, Inr (loaded, progress))"
    "fuse_layers ck [0..<resident_layers config] c1 = (c2, Inr ())" "mark_expert_cache_fully_resident c2 = (c, Inr ())"
    "wr_loaded report = loaded"
    by (auto simp: warm_all_experts_def Let_def bindS_Inr_iff liftS_def readS_def ensureS_def ensure_def returnS_def
        simp del: length_sort split: if_splits)
  have marked: "c = mark_fully_resident c2"
    using run(6) by (auto simp: mark_expert_cache_fully_resident_def bindS_Inr_iff readS_def ensureS_def ensure_def modifyS_def split: if_splits)
  from total_of_sum [OF run(2)] run(3,4,7) show thesis by (intro that [OF run(1) _ _ run(5) marked]) simp_all
qed

lemma plan_names_set:
  "plan_tensors ck names = Inr planned \<Longrightarrow> name \<in> set names \<Longrightarrow> \<exists>offset bytes. (offset, name, bytes) \<in> set (sort_key fst planned)"
  using plan_tensors_names [of ck names planned] by (force simp: image_iff)

lemma layer_names:
  "layer < resident_layers config \<Longrightarrow> gate_name layer \<in> set (expert_names config)"
  "layer < resident_layers config \<Longrightarrow> down_name layer \<in> set (expert_names config)"
  by (auto simp: expert_names_def)

text \<open>The state a finished warmup leaves.\<close>

lemma warmup_state:
  assumes "layout_ok ck" "warm_all_experts ck config (configure capacity) = (c, Inr report)" "0 < capacity" "tensors_apart ck config"
  shows "honest_experts ck c" "ledger c" "ec_pinned c" "ec_capacity c = capacity" "wr_loaded report \<le> capacity"
    and "layer < resident_layers config \<Longrightarrow> expert < mc_num_experts config \<Longrightarrow>
      \<exists>a b. resolve_pair ck (gate_name layer) (up_name layer) = Inr (a, b) \<and> expert < et_expert_count a \<and> pair_key a b expert \<in> keys c"
    and "layer < resident_layers config \<Longrightarrow> expert < mc_num_experts config \<Longrightarrow>
      \<exists>t. resolve_experts ck (down_name layer) = Inr t \<and> expert < et_expert_count t \<and> single_key t expert \<in> keys c"
proof -
  from warmup_runs [OF assms(2,3)] obtain planned c1 c2 progress where run:
    "plan_tensors ck (expert_names config) = Inr planned"
    "sum_list (map (\<lambda>(_, _, bytes). bytes) (sort_key fst planned)) \<le> capacity"
    "warm_tensors ck config True (length (sort_key fst planned)) (sum_list (map (\<lambda>(_, _, bytes). bytes) (sort_key fst planned))) 0 0 []
       (sort_key fst planned) (configure capacity) = (c1, Inr (wr_loaded report, progress))"
    "fuse_layers ck [0..<resident_layers config] c1 = (c2, Inr ())" "c = mark_fully_resident c2" .
  have fits: "0 + sum_list (map (\<lambda>(_, _, bytes). bytes) (sort_key fst planned)) \<le> capacity" using run(2) by simp
  note filled = warm_tensors_fills [OF filling_configured assms(3) run(3) fits]
  then have full: "filling capacity (wr_loaded report) c1" by (elim conjE)
  have loaded: "wr_loaded report \<le> capacity" using filled run(2) by auto
  have resolved_all: "\<exists>t. resolve_experts ck name = Inr t
      \<and> (\<forall>expert < mc_num_experts config. single_key t expert \<in> keys c1 \<and> expert < et_expert_count t)"
    if "name \<in> set (expert_names config)" for name
    using filled plan_names_set [OF run(1) that] by fast
  have "honest_experts ck (configure capacity)" by (simp add: honest_experts_def configure_def cache_default_def)
  from warm_tensors_honest [OF assms(1) this run(3)] have h1: "honest_experts ck c1" .
  have apart: "\<forall>layer \<in> set [0..<resident_layers config]. distinct_pair ck (gate_name layer) (up_name layer)"
    using assms(4) starts_differ_pair by (simp add: tensors_apart_def)
  have "ledger c1" using full by (simp add: filling_def)
  from fuse_layers_kept [OF assms(1) apart h1 this run(4)] have c2: "honest_experts ck c2" "ledger c2" by simp_all
  note fused = fuse_layers_keys [OF run(4)]
  have keys: "keys c = keys c2" unfolding run(5) by (simp add: mark_fully_resident_def)
  show "honest_experts ck c" "ledger c" "ec_pinned c" "wr_loaded report \<le> capacity"
    using c2 loaded books_cong [of c c2] unfolding run(5)
    by (simp_all add: mark_fully_resident_def honest_experts_def ledger_def in_order_def)
  show "ec_capacity c = capacity" using fused full unfolding run(5) by (simp add: mark_fully_resident_def filling_def)
  show "\<exists>a b. resolve_pair ck (gate_name layer) (up_name layer) = Inr (a, b) \<and> expert < et_expert_count a \<and> pair_key a b expert \<in> keys c"
    if "layer < resident_layers config" "expert < mc_num_experts config"
  proof -
    have layer: "layer \<in> set [0..<resident_layers config]" using that(1) by simp
    from bspec [OF conjunct1 [OF fused] layer] obtain a b where ab: "resolve_pair ck (gate_name layer) (up_name layer) = Inr (a, b)"
      "\<forall>expert < et_expert_count a. pair_key a b expert \<in> keys c2" by (elim exE conjE)
    from resolved_all [OF layer_names(1) [OF that(1)]] obtain t where
      t: "resolve_experts ck (gate_name layer) = Inr t" "\<forall>expert < mc_num_experts config. single_key t expert \<in> keys c1 \<and> expert < et_expert_count t"
      by (elim exE conjE)
    have "t = a" using t(1) resolve_pair_parts [OF ab(1)] by simp
    with t(2) that(2) have "expert < et_expert_count a" by simp
    with ab keys show ?thesis by (intro exI [of _ a] exI [of _ b]) simp
  qed
  show "\<exists>t. resolve_experts ck (down_name layer) = Inr t \<and> expert < et_expert_count t \<and> single_key t expert \<in> keys c"
    if "layer < resident_layers config" "expert < mc_num_experts config"
  proof -
    from resolved_all [OF layer_names(2) [OF that(1)]] that(2) obtain t where
      t: "resolve_experts ck (down_name layer) = Inr t" "single_key t expert \<in> keys c1" "expert < et_expert_count t" by blast
    from fused have "\<forall>key \<in> keys c1. survives ck [0..<resident_layers config] key \<longrightarrow> key \<in> keys c2" by (elim conjE)
    from bspec [OF this t(2)] down_survives [OF assms(4) that(1) t(1)] have "single_key t expert \<in> keys c" unfolding keys by simp
    then show ?thesis by (intro exI [of _ t] conjI t)
  qed
qed

section \<open>Properties\<close>

text \<open>
  C15. A full warmup of a fresh cache that succeeds leaves nothing to read: for every layer and
  every expert, loading the fused gate and up projections, or the down projection, gives what the
  checkpoint holds by looking it up, changes nothing but the request and hit counters, and neither
  reads nor evicts. No filling of the cache evicts an expert loaded before, and the fusing keeps
  the bytes within the capacity.
\<close>

theorem full_warmup_leaves_nothing_to_read:
  assumes "layout_ok ck" "warm_all_experts ck config (configure capacity) = (c, Inr report)" "0 < capacity"
    and "tensors_apart ck config" "layer < resident_layers config" "expert < mc_num_experts config"
  shows "(\<exists>m. file_pair ck (gate_name layer) (up_name layer) expert = Inr m
      \<and> load_expert_pair ck (gate_name layer) (up_name layer) expert c
        = (c\<lparr>ec_requests := ec_requests c + 1, ec_hits := ec_hits c + 1\<rparr>, Inr m))
    \<and> (\<exists>m. file_expert ck (down_name layer) expert = Inr m
      \<and> load_expert_matrix ck (down_name layer) expert c
        = (c\<lparr>ec_requests := ec_requests c + 1, ec_hits := ec_hits c + 1\<rparr>, Inr m))
    \<and> ec_resident c \<le> capacity"
proof -
  note state = warmup_state [OF assms(1-4)]
  have capacity: "0 < ec_capacity c" using state(4) assms(3) by simp
  from state(6) [OF assms(5,6)] obtain a b where
    ab: "resolve_pair ck (gate_name layer) (up_name layer) = Inr (a, b)" "expert < et_expert_count a" "pair_key a b expert \<in> keys c" by blast
  from pinned_load [OF state(3) capacity ab(3)] ab obtain m1 where pair:
    "load_expert_pair ck (gate_name layer) (up_name layer) expert c = (c\<lparr>ec_requests := ec_requests c + 1, ec_hits := ec_hits c + 1\<rparr>, Inr m1)"
    by (auto simp: load_expert_pair_def load_resolved_expert_pair_def bindS_lift ensure_def)
  from state(7) [OF assms(5,6)] obtain t where
    t: "resolve_experts ck (down_name layer) = Inr t" "expert < et_expert_count t" "single_key t expert \<in> keys c" by blast
  from pinned_load [OF state(3) capacity t(3)] t obtain m2 where down:
    "load_expert_matrix ck (down_name layer) expert c = (c\<lparr>ec_requests := ec_requests c + 1, ec_hits := ec_hits c + 1\<rparr>, Inr m2)"
    by (auto simp: load_expert_matrix_def load_resolved_expert_matrix_def bindS_lift ensure_def)
  have "ec_resident c \<le> capacity" using state(2,4) booksD(3) by (auto simp: ledger_def)
  moreover have "file_pair ck (gate_name layer) (up_name layer) expert = Inr m1"
    using pair load_pair(1) [OF assms(1) state(1), of "gate_name layer" "up_name layer" expert] by simp
  moreover have "file_expert ck (down_name layer) expert = Inr m2"
    using down load_single(1) [OF assms(1) state(1), of "down_name layer" expert] by simp
  ultimately show ?thesis using pair down by blast
qed

text \<open>A warmup of the small checkpoint, whose one layer has two experts.\<close>

definition one_layer :: checkpoint where
  "one_layer = small_checkpoint (gate_name 0) (up_name 0) (down_name 0)"

definition one_layer_config :: model_config where
  "one_layer_config = \<lparr>mc_model_type = ''qwen3_next'', mc_vocab_size = 2, mc_hidden_size = 2, mc_num_hidden_layers = 1,
     mc_mtp_num_hidden_layers = 0, mc_mtp_use_dedicated_embeddings = False, mc_num_attention_heads = 1, mc_num_key_value_heads = 1,
     mc_head_dim = 2, mc_linear_conv_kernel_dim = 2, mc_linear_num_key_heads = 1, mc_linear_num_value_heads = 1,
     mc_num_experts_per_tok = 1, mc_num_experts = 2, mc_decoder_sparse_step = 1, mc_mlp_only_layers = [], mc_layer_types = None,
     mc_full_attention_interval = 4, mc_hidden_act = ''silu'', mc_attn_output_gate = True, mc_rotary = 1\<rparr>"

definition small_bytes :: "nat \<times> nat \<Rightarrow> bytes" where
  "small_bytes = (\<lambda>(start, expert). [of_nat (start + expert * 2), of_nat (start + expert * 2) + 1])"

text \<open>The cache after loads of distinct experts, by start and index.\<close>

definition loaded_cache :: "(nat \<times> nat) list \<Rightarrow> expert_cache" where
  "loaded_cache loads = \<lparr>ec_capacity = 12, ec_resident = 2 * length loads, ec_clock = 2 * length loads, ec_requests = length loads,
     ec_hits = 0, ec_misses = length loads, ec_evictions = 0, ec_loaded = 2 * length loads,
     ec_entries = map (\<lambda>(i, start, expert). (single_key (small_experts start) expert,
       \<lparr>cm_matrix = small_matrix 1 (small_bytes (start, expert)), cm_bytes = 2, cm_access = 2 * i + 2\<rparr>)) (zip [0..<length loads] loads),
     ec_lru = map (\<lambda>(i, start, expert). (single_key (small_experts start) expert, 2 * i + 2)) (zip [0..<length loads] loads),
     ec_pinned = False\<rparr>"

lemma update_appends: "map_of es k = None \<Longrightarrow> AList.update k e es = es @ [(k, e)]"
  by (induction es) (auto split: if_splits)

lemma record_insert_idle:
  assumes "\<not> ec_pinned c" "ec_capacity c \<noteq> 0" "ec_resident c + storage_bytes m \<le> ec_capacity c"
    and "map_of (ec_entries c) key = None" "length (ec_lru c) < 1024"
  shows "record_read_and_insert key m c = c\<lparr>ec_loaded := saturating_add (ec_loaded c) (storage_bytes m), ec_clock := ec_clock c + 1,
    ec_entries := ec_entries c @ [(key, \<lparr>cm_matrix = m, cm_bytes = storage_bytes m, cm_access = ec_clock c + 1\<rparr>)],
    ec_resident := ec_resident c + storage_bytes m, ec_lru := ec_lru c @ [(key, ec_clock c + 1)]\<rparr>"
proof -
  have "Suc (length (ec_lru c)) \<le> saturating_add n 1024" for n
    using assms(5) by (simp add: saturating_add_def usize_max_def)
  with assms(1-4) show ?thesis
    by (simp add: record_read_and_insert_def Let_def unpin_def make_room_idle insert_entry_def update_appends compact_lru_if_needed_def)
qed

lemma loaded_cache_lookup: "(start, expert) \<notin> set loads \<Longrightarrow> map_of (ec_entries (loaded_cache loads)) (single_key (small_experts start) expert) = None"
  by (auto simp: loaded_cache_def map_of_eq_None_iff single_key_def set_zip)

lemma loaded_cache_warm:
  assumes "(start, expert) \<notin> set loads" "length loads < 6" "start \<le> 8" "expert < 2"
  shows "warm_expert one_layer (small_experts start) expert (loaded_cache loads) = (loaded_cache (loads @ [(start, expert)]), Inr 2)"
proof -
  let ?m = "small_matrix 1 (small_bytes (start, expert))"
  have from_file: "read_expert_matrix one_layer (small_experts start) expert = Inr ?m"
    using assms(3,4) by (simp add: read_expert_matrix_def one_layer_def small_simps small_bytes_def)
  note absent = loaded_cache_lookup [OF assms(1)]
  have "record_read_and_insert (single_key (small_experts start) expert) ?m
      ((loaded_cache loads)\<lparr>ec_requests := length loads + 1, ec_clock := 2 * length loads + 1, ec_misses := length loads + 1\<rparr>)
      = loaded_cache (loads @ [(start, expert)])"
    by (subst record_insert_idle)
      (use absent assms(2) in \<open>simp_all add: loaded_cache_def storage_bytes_def small_bytes_def saturating_add_def usize_max_def\<close>)
  then have "load_through (single_key (small_experts start) expert) (Inr ?m) (loaded_cache loads) = (loaded_cache (loads @ [(start, expert)]), Inr ?m)"
    using absent by (simp add: load_through_def cache_get_def Let_def) (simp add: loaded_cache_def)
  then show ?thesis using assms(4) from_file
    by (simp add: warm_expert_def load_resolved_expert_matrix_def bindS_def ensureS_def ensure_def returnS_def)
      (simp add: storage_bytes_def small_bytes_def)
qed

lemma one_layer_names: "gate_name 0 \<noteq> up_name 0" "gate_name 0 \<noteq> down_name 0" "up_name 0 \<noteq> down_name 0"
  by (simp_all add: gate_name_def up_name_def down_name_def expert_name_def)

lemma one_layer_resolve:
  "resolve_experts one_layer (gate_name 0) = Inr (small_experts 0)" "resolve_experts one_layer (up_name 0) = Inr (small_experts 4)"
  "resolve_experts one_layer (down_name 0) = Inr (small_experts 8)"
  "resolve_pair one_layer (gate_name 0) (up_name 0) = Inr (small_experts 0, small_experts 4)"
  using one_layer_names by (simp_all add: one_layer_def small_resolve resolve_pair_def ensure_def)

lemma one_layer_plan:
  "plan_tensors one_layer (expert_names one_layer_config) = Inr [(0, gate_name 0, 4), (4, up_name 0, 4), (8, down_name 0, 4)]"
  using one_layer_names
  by (simp add: expert_names_def resident_layers_def one_layer_config_def planned_tensor_def one_layer_def small_checkpoint_def
      small_tensor_def tensor_storage_def element_count_def)

lemma one_layer_experts:
  assumes "(start, 0) \<notin> set loads" "(start, 1) \<notin> set loads" "length loads < 5" "start \<le> 8"
  shows "warm_experts one_layer (small_experts start) [0..<2] 0 (loaded_cache loads) = (loaded_cache (loads @ [(start, 0), (start, 1)]), Inr 4)"
proof -
  have first: "warm_expert one_layer (small_experts start) 0 (loaded_cache loads) = (loaded_cache (loads @ [(start, 0)]), Inr 2)"
    by (rule loaded_cache_warm) (use assms in simp_all)
  have second: "warm_expert one_layer (small_experts start) 1 (loaded_cache (loads @ [(start, 0)])) = (loaded_cache ((loads @ [(start, 0)]) @ [(start, 1)]), Inr 2)"
    by (rule loaded_cache_warm) (use assms in simp_all)
  show ?thesis using first second
    by (simp add: upt_rec bindS_def returnS_def checked_add_def usize_max_def)
qed

lemma one_layer_tensors:
  "\<exists>progress. warm_tensors one_layer one_layer_config True 3 12 0 0 [] [(0, gate_name 0, 4), (4, up_name 0, 4), (8, down_name 0, 4)] (loaded_cache [])
    = (loaded_cache [(0, 0), (0, 1), (4, 0), (4, 1), (8, 0), (8, 1)], Inr (12, progress))"
proof -
  have experts: "mc_num_experts one_layer_config = 2" by (simp add: one_layer_config_def)
  have gate: "warm_tensor one_layer one_layer_config True (gate_name 0) (loaded_cache []) = (loaded_cache [(0, 0), (0, 1)], Inr 4)"
    using one_layer_experts [of 0 "[]"] by (simp add: warm_tensor_def bindS_def liftS_def one_layer_resolve experts)
  have up: "warm_tensor one_layer one_layer_config True (up_name 0) (loaded_cache [(0, 0), (0, 1)])
      = (loaded_cache [(0, 0), (0, 1), (4, 0), (4, 1)], Inr 4)"
    using one_layer_experts [of 4 "[(0, 0), (0, 1)]"] by (simp add: warm_tensor_def bindS_def liftS_def one_layer_resolve experts)
  have down: "warm_tensor one_layer one_layer_config True (down_name 0) (loaded_cache [(0, 0), (0, 1), (4, 0), (4, 1)])
      = (loaded_cache [(0, 0), (0, 1), (4, 0), (4, 1), (8, 0), (8, 1)], Inr 4)"
    using one_layer_experts [of 8 "[(0, 0), (0, 1), (4, 0), (4, 1)]"] by (simp add: warm_tensor_def bindS_def liftS_def one_layer_resolve experts)
  show ?thesis using gate up down
    by (simp add: bindS_def ensureS_def ensure_def checked_add_def usize_max_def returnS_def)
qed

text \<open>Fusing the two experts, from what is looked up.\<close>

lemma small_fuse:
  assumes "map_of (ec_entries c) (single_key (small_experts 0) expert) = Some e1" "cm_matrix e1 = small_matrix 1 [x1, y1]"
    and "map_of (ec_entries c) (single_key (small_experts 4) expert) = Some e2" "cm_matrix e2 = small_matrix 1 [x2, y2]"
    and "map_of (ec_entries c) (pair_key (small_experts 0) (small_experts 4) expert) = None"
  shows "fuse_expert one_layer (small_experts 0) (small_experts 4) expert c =
    (insert_fused (pair_key (small_experts 0) (small_experts 4) expert) (small_matrix 2 [x1, y1, x2, y2]) (cm_bytes e1) (cm_bytes e2)
      (c\<lparr>ec_entries := AList.delete (single_key (small_experts 4) expert) (AList.delete (single_key (small_experts 0) expert) (ec_entries c))\<rparr>), Inr 4)"
proof -
  have cat: "concatenate_rows one_layer (cm_matrix e1) (cm_matrix e2) = Inr (small_matrix 2 [x1, y1, x2, y2])"
    by (simp add: assms(2,4) concatenate_rows_def one_layer_def small_new ensure_def)
  have "fuse_expert one_layer (small_experts 0) (small_experts 4) expert c =
    (if single_key (small_experts 0) expert = single_key (small_experts 4) expert
     then (c\<lparr>ec_entries := AList.delete (single_key (small_experts 0) expert) (ec_entries c)\<rparr>, Inl NotResident)
     else (insert_fused (pair_key (small_experts 0) (small_experts 4) expert) (small_matrix 2 [x1, y1, x2, y2]) (cm_bytes e1) (cm_bytes e2)
         (c\<lparr>ec_entries := AList.delete (single_key (small_experts 4) expert) (AList.delete (single_key (small_experts 0) expert) (ec_entries c))\<rparr>),
       Inr (storage_bytes (small_matrix 2 [x1, y1, x2, y2]))))"
    by (rule fuse_expert_members [OF assms(5,1,3) cat]) (simp add: assms(2,4) storage_bytes_def)
  then show ?thesis by (simp add: single_key_def storage_bytes_def)
qed

lemma one_layer_fused:
  "\<exists>c n. fuse_cached_expert_pair one_layer (gate_name 0) (up_name 0) (loaded_cache [(0, 0), (0, 1), (4, 0), (4, 1), (8, 0), (8, 1)]) = (c, Inr n)
    \<and> 0 < ec_capacity c \<and> ec_entries c \<noteq> []"
proof -
  let ?c = "loaded_cache [(0, 0), (0, 1), (4, 0), (4, 1), (8, 0), (8, 1)]"
  have single: "map_of (ec_entries ?c) (single_key (small_experts 0) 0) = Some \<lparr>cm_matrix = small_matrix 1 [0, 1], cm_bytes = 2, cm_access = 2\<rparr>"
    "map_of (ec_entries ?c) (single_key (small_experts 0) 1) = Some \<lparr>cm_matrix = small_matrix 1 [2, 3], cm_bytes = 2, cm_access = 4\<rparr>"
    "map_of (ec_entries ?c) (single_key (small_experts 4) 0) = Some \<lparr>cm_matrix = small_matrix 1 [4, 5], cm_bytes = 2, cm_access = 6\<rparr>"
    "map_of (ec_entries ?c) (single_key (small_experts 4) 1) = Some \<lparr>cm_matrix = small_matrix 1 [6, 7], cm_bytes = 2, cm_access = 8\<rparr>"
    "map_of (ec_entries ?c) (pair_key (small_experts 0) (small_experts 4) expert) = None" for expert
    by (simp_all add: loaded_cache_def upt_rec single_key_def pair_key_def small_bytes_def)
  obtain c1 where first: "fuse_expert one_layer (small_experts 0) (small_experts 4) 0 ?c = (c1, Inr 4)"
      and c1: "map_of (ec_entries c1) (single_key (small_experts 0) 1) = map_of (ec_entries ?c) (single_key (small_experts 0) 1)"
        "map_of (ec_entries c1) (single_key (small_experts 4) 1) = map_of (ec_entries ?c) (single_key (small_experts 4) 1)"
        "map_of (ec_entries c1) (pair_key (small_experts 0) (small_experts 4) 1) = None" "ec_capacity c1 = ec_capacity ?c"
    by (rule that [OF small_fuse [OF single(1) cached_matrix.select_convs(1) single(3) cached_matrix.select_convs(1) single(5)]])
      (simp_all add: insert_fused_def update_conv' delete_conv' single_key_def pair_key_def single(5) [unfolded pair_key_def, simplified])
  obtain c2 where second: "fuse_expert one_layer (small_experts 0) (small_experts 4) 1 c1 = (c2, Inr 4)"
      and c2: "ec_capacity c2 = ec_capacity ?c" "ec_entries c2 \<noteq> []"
    by (rule that [OF small_fuse [OF c1(1) [unfolded single] cached_matrix.select_convs(1) c1(2) [unfolded single] cached_matrix.select_convs(1) c1(3)]])
      (simp_all add: insert_fused_def c1(4))
  have "fuse_loop one_layer (small_experts 0) (small_experts 4) [0..<2] 0 ?c = (c2, Inr 8)"
    using first second by (simp add: upt_rec bindS_def returnS_def checked_add_def usize_max_def)
  then have "fuse_cached_expert_pair one_layer (gate_name 0) (up_name 0) ?c = (c2, Inr 8)"
    by (simp add: fuse_cached_expert_pair_def bindS_def liftS_def one_layer_resolve fuse_pair_def readS_def ensureS_def ensure_def)
      (simp add: loaded_cache_def)
  then show ?thesis using c2 by (simp add: loaded_cache_def)
qed

lemma one_layer_warmup: "\<exists>c report. warm_all_experts one_layer one_layer_config (configure 12) = (c, Inr report)"
proof -
  have start: "configure 12 = loaded_cache []" by (simp add: configure_def cache_default_def loaded_cache_def)
  let ?plan = "[(0, gate_name 0, 4), (4, up_name 0, 4), (8, down_name 0, 4)] :: (nat \<times> string \<times> nat) list"
  have sorted: "sort_key fst ?plan = ?plan" "length ?plan = 3" by simp_all
  have layers: "[0..<resident_layers one_layer_config] = [0]" by (simp add: resident_layers_def one_layer_config_def)
  have pin: "(0 < (12::nat)) = True" by simp
  have planning: "liftS (plan_tensors one_layer (expert_names one_layer_config)) (loaded_cache []) = (loaded_cache [], Inr ?plan)"
    by (simp only: liftS_def one_layer_plan)
  have summed: "liftS (total_of 0 ?plan) (loaded_cache []) = (loaded_cache [], Inr 12)"
    by (simp add: liftS_def checked_add_def usize_max_def)
  have capacity: "readS ec_capacity (loaded_cache []) = (loaded_cache [], Inr 12)" by (simp add: readS_def loaded_cache_def)
  have enough: "ensureS (True \<longrightarrow> (12::nat) \<le> 12) CapacityTooSmall (loaded_cache []) = (loaded_cache [], Inr ())"
    by (simp add: ensureS_def ensure_def)
  obtain progress where visited: "warm_tensors one_layer one_layer_config True 3 12 0 0 [] ?plan (loaded_cache [])
      = (loaded_cache [(0, 0), (0, 1), (4, 0), (4, 1), (8, 0), (8, 1)], Inr (12, progress))"
    using one_layer_tensors by blast
  obtain c n where fused: "fuse_cached_expert_pair one_layer (gate_name 0) (up_name 0)
      (loaded_cache [(0, 0), (0, 1), (4, 0), (4, 1), (8, 0), (8, 1)]) = (c, Inr n)" "0 < ec_capacity c" "ec_entries c \<noteq> []"
    using one_layer_fused by blast
  have marked: "mark_expert_cache_fully_resident c = (mark_fully_resident c, Inr ())"
    using fused(2,3) by (simp add: mark_expert_cache_fully_resident_def bindS_def readS_def ensureS_def ensure_def modifyS_def)
  have layer: "fuse_layers one_layer [0] (loaded_cache [(0, 0), (0, 1), (4, 0), (4, 1), (8, 0), (8, 1)]) = (c, Inr ())"
    using fused(1) by (simp add: bindS_def returnS_def)
  show ?thesis unfolding start warm_all_experts_def Let_def layers
    by (simp only: bindS_def planning sorted summed capacity pin if_True enough visited prod.case sum.case layer marked returnS_def) blast
qed

lemma one_layer_apart: "tensors_apart one_layer one_layer_config"
  by (simp add: tensors_apart_def resident_layers_def one_layer_config_def starts_differ_def one_layer_resolve)

lemma full_warmup_leaves_nothing_to_read_witness:
  "\<exists>c report. warm_all_experts one_layer one_layer_config (configure 12) = (c, Inr report)
    \<and> (\<exists>m. file_pair one_layer (gate_name 0) (up_name 0) 1 = Inr m
      \<and> load_expert_pair one_layer (gate_name 0) (up_name 0) 1 c = (c\<lparr>ec_requests := ec_requests c + 1, ec_hits := ec_hits c + 1\<rparr>, Inr m))"
proof -
  obtain c report where run: "warm_all_experts one_layer one_layer_config (configure 12) = (c, Inr report)"
    using one_layer_warmup by blast
  have "layout_ok one_layer" unfolding one_layer_def by (rule small_layout)
  from full_warmup_leaves_nothing_to_read [OF this run _ one_layer_apart, of 0 1] run show ?thesis
    by (simp add: resident_layers_def one_layer_config_def)
qed

end
