(* ===== verification/Spec2Isabelle.thy ===== *)
theory Spec2Isabelle
  imports Ngram Matmul Model_State Stop_Buffer Session_Reuse Snapshots_Kept Cache_Invariant Engine_Events Serving Job_Queue Warmup
begin

text \<open>
  A model of \<open>inferq\<close>, a CPU inference server for one quantized language model, and the theorems
  that make its decoding correct.

  \<^bold>\<open>The program.\<close> A request is text; the tokenizer turns it into tokens, the target model
  (\<open>src/qwen/\<close>) evaluates them, and the session runtime (\<open>src/runtime.rs\<close>) decodes an answer, one
  token at a time or several at a time by drafting (\<open>src/ngram.rs\<close>,
  \<open>src/qwen/quantized_mtp.rs\<close>), verifying the drafts in one pass and rolling back what was
  refused (\<open>src/speculative.rs\<close> decides when to draft). The engine (\<open>src/server/engine.rs\<close>)
  starts each request from the longest state it can prove to be a prefix of it: the live
  session, or an entry of the prompt cache (\<open>src/prompt_cache/\<close>), and streams text through the
  stop sequences (\<open>src/server/stop.rs\<close>) and the tool-call syntax (\<open>src/tool_calls.rs\<close>). The
  chat route (\<open>src/server/http.rs\<close>, \<open>api.rs\<close>, \<open>request.rs\<close>, \<open>thinking.rs\<close>) renders a conversation
  with the chat template (\<open>src/tokenizer.rs\<close>), submits it through a bounded queue and answers.
  All of that is meant to be invisible: drafting, blocked kernels, expert grouping, rollback,
  reuse and chunking must not change an answer. Most properties here say so.

  \<^bold>\<open>Conventions.\<close> \<open>u32\<close>, \<open>u64\<close> are words; a \<open>usize\<close> that counts or indexes is a \<open>nat\<close>, with
  \<open>checked_*\<close> and saturating operations written out. A \<open>Result\<close> is a sum, \<open>Inl\<close> the error. A
  method that mutates and can fail returns the state it leaves with its result. Floating point
  (\<open>Floats\<close>) is a record of operations about which nothing is assumed; equality of kernels
  therefore means the same operations on the same operands in the same order. A lookup in the
  prompt cache and a load through the expert cache are one step each, although the code opens an
  entry twice and takes the lock of the expert cache for the lookup and for the insertion apart.

  \<^bold>\<open>Theories, bottom up.\<close>

  \<^item> \<open>Prelude\<close>: machine types, slices, results and stateful actions; the collections
    \<open>rust_simps\<close>, \<open>action_simps\<close>, \<open>quiet_intros\<close>.
  \<^item> \<open>Text_Bytes\<close>: \<open>str\<close> as bytes with character boundaries.
  \<^item> \<open>Ngram\<close> (\<open>src/ngram.rs\<close>): the hash index over the context; a draft continues the latest
    earlier occurrence of the current suffix, collisions included. Locale \<open>draft_source\<close>.
  \<^item> \<open>Attention\<close>, \<open>DeltaNet\<close>, \<open>Moe\<close>, \<open>Model_State\<close> (\<open>src/qwen/quantized_*.rs\<close>,
    \<open>src/qwen/deltanet.rs\<close>, \<open>src/qwen/moe.rs\<close>): layers, their caches and arenas, whole passes.
    A pass over a sequence is any split of it; blocked and grouped execution compute what the
    row-at-a-time loops compute; rolling back to a row is the shorter pass, also after a pass
    that failed; images and checkpoints restore exactly.
  \<^item> \<open>Sampling\<close> (\<open>src/sampling.rs\<close>): arg max and the sampler.
  \<^item> \<open>Controller\<close> (\<open>src/speculative.rs\<close>): the arm controller as a state machine, with bounds
    and accounting invariants over its reachable states.
  \<^item> \<open>Greedy\<close>: what a turn means, as a function of the target model's choices; locale
    \<open>token_runs\<close>, the interface of the model the decoding proofs use, interpreted in
    \<open>Model_State\<close>.
  \<^item> \<open>Mtp\<close>, \<open>Runtime\<close>, \<open>Policy\<close> (\<open>src/qwen/quantized_mtp.rs\<close>, \<open>src/runtime.rs\<close>): the session, the plain
    loop and the speculative loop. \<open>Policy_Correct\<close>, \<open>Policy_Turn\<close>, \<open>Turn_Accounts\<close>, \<open>Turns\<close>,
    \<open>Snapshots_Kept\<close>: both loops refine \<open>Greedy\<close>, so they agree; a halted turn is resumable;
    arenas stay well formed.
  \<^item> \<open>Session_Reuse\<close>: a turn on any session that \<open>represents\<close> a token list gives what a fresh
    session gives.
  \<^item> \<open>Stop_Buffer\<close> (\<open>src/server/stop.rs\<close>): streamed text never shows a stop sequence and loses
    nothing. \<open>Tool_Calls\<close>, \<open>Tool_Json\<close>, \<open>Tool_Round_Trip\<close> (\<open>src/tool_calls.rs\<close>): parsing the calls
    of a turn, their arguments as JSON text, rendering them back; the loop is the identity.
  \<^item> \<open>Entry_Format\<close>, \<open>Prompt_Cache\<close>, \<open>Cache_Names\<close>, \<open>Cache_Evict\<close>, \<open>Cache_Lookup\<close>,
    \<open>Cache_Invariant\<close> (\<open>src/prompt_cache/\<close>): the entry format, the index, lookup, eviction,
    the writer thread and the accounting invariant. \<open>Honest_Cache\<close>: a cache that holds what
    sessions stored only ever restores states that represent the tokens they are keyed by.
  \<^item> \<open>Config\<close> (\<open>src/config.rs\<close>): validation and the layer pattern.
  \<^item> \<open>Engine\<close>, \<open>Token_Callback\<close>, \<open>Sink_Reached\<close>, \<open>Engine_Correct\<close>, \<open>Engine_Events\<close>
    (\<open>src/server/engine.rs\<close>): one job from its prompt to its terminal event; the states its
    callback reaches; every clean job after clean jobs is answered as by a fresh server
    without reuse, cache or drafting, and its events are well formed. \<open>Job_Queue\<close>: the reservation loop and the
    worker as atomic actions; the counter is exact in every interleaving.
  \<^item> \<open>Chat_Template\<close>, \<open>Conversation\<close> (\<open>src/tokenizer.rs\<close>): rendering a conversation; a turn that
    is played back extends the prompt it answered; the history prefix is shared.
  \<^item> \<open>Chat_Request\<close>, \<open>Chat_Response\<close>, \<open>Serving\<close> (\<open>src/server/\<close>): from a request to a job and from
    events to a response or a stream; admitted jobs are within bounds, the two kinds of response
    agree, and an agent's next request continues the session.

  \<^item> \<open>Gguf\<close>, \<open>Expert_Cache\<close>, \<open>Expert_Books\<close> (\<open>src/gguf.rs\<close>): resolving the fused expert tensors
    of a checkpoint, reading one expert, and the in-process cache of experts: it is transparent,
    stays within its capacity and evicts what was used least recently. \<open>Warmup\<close>
    (\<open>src/residency.rs\<close>): a full warmup leaves nothing to read.
  \<^item> \<open>Matmul\<close> (\<open>src/gguf.rs\<close>, \<open>src/qgemm.rs\<close>): which kernel a matrix product takes, the tiles of a
    pass and its layouts. For kernels that agree on one row, a product of any width is the list of
    the one-row products, which is what lets the layers take a matrix as a function of a row.

  \<^bold>\<open>Last bits.\<close> The properties about cutting a prompt into passes (reuse, speculation, splitting) are
  equalities of operations, under that kernel condition. Several documents and comments of the
  repository say instead that the last bits move when a prompt is split; the kernel contract of the
  same repository, and a test that compares the logits of passes of several rows with one-row
  decoding, say that they do not. The manifest records each place.

  \<^bold>\<open>Bounds and fuel.\<close> The decoding loops recurse on the tokens still to emit, which every step
  lowers; the kernels' loops are folds. No theorem about a turn assumes it returns: the
  hypothesis is that the model evaluates the tokens (loading an expert can fail), and the
  failing outcomes are theorems of their own.

  \<^bold>\<open>Parameters.\<close> Code that is not in the repository is a parameter: tensor and byte
  libraries, the random generator, the safetensors container (with its round-trip law),
  \<open>serde_json\<close> (it quotes a string as a literal that reads back, and what it parses is JSON), the
  tokenizer's vocabulary, encoding and decoder, the operating system's answers. In \<open>Matmul\<close>, the
  tensor library's product, quantization and \<open>vec_dot\<close>.

  \<^bold>\<open>Not modelled.\<close> Parsing of the GGUF container and the vector instructions by which a lane takes
  one block (\<open>src/gguf.rs\<close>, \<open>src/qgemm.rs\<close>), which are byte layouts of an external format and machine
  intrinsics: in the layers a matrix is a function from rows to rows, in the expert cache and in
  \<open>Matmul\<close> its compressed bytes. The unquantized reference (\<open>src/qwen/model.rs\<close>,
  \<open>attention.rs\<close>, \<open>norm.rs\<close>, \<open>src/loader.rs\<close>), calls of a tensor library throughout. Loading of
  whole tensors by name, clocks, profiles, log lines, traces, memory locking and thread pools. HTTP
  itself, deserialization and the routes that only report. The command line tools.
\<close>

end
